(* ===== verification/Prelude.thy ===== *)
theory Prelude
  imports Main "HOL-Library.Char_ord" "HOL-Library.List_Lexorder" "HOL-Library.Product_Lexorder"
begin

text \<open>
  Shared vocabulary of the development: results that may fail, the C++ string
  and vector idioms every component uses (\<^verbatim>\<open>std::string\<close> is a list of bytes
  compared lexicographically as unsigned values, which is the order of
  HOL-Library's Char\_ord and List\_Lexorder; \<^verbatim>\<open>std::ranges::sort\<close> followed
  by \<^verbatim>\<open>unique\<close>/\<^verbatim>\<open>erase\<close>), and the generic lemmas on them.
\<close>

named_theorems cpp_simps "rewriting of the C++ idioms of the prelude"

subsection \<open>Fallible computations\<close>

text \<open>An exception of the source is an \<open>Inl\<close>; sequencing stops at the first one.\<close>

definition bindE :: "'e + 'a \<Rightarrow> ('a \<Rightarrow> 'e + 'b) \<Rightarrow> 'e + 'b" where
  "bindE m f = (case m of Inl e \<Rightarrow> Inl e | Inr x \<Rightarrow> f x)"

lemma bindE_simps [simp]:
  "bindE (Inl e) f = Inl e"
  "bindE (Inr x) f = f x"
  by (simp_all add: bindE_def)

lemma bindE_Inr_iff: "bindE m f = Inr y \<longleftrightarrow> (\<exists>x. m = Inr x \<and> f x = Inr y)"
  by (cases m) auto

lemma bindE_Inl_iff: "bindE m f = Inl e \<longleftrightarrow> m = Inl e \<or> (\<exists>x. m = Inr x \<and> f x = Inl e)"
  by (cases m) auto

lemma bindE_cong [fundef_cong]:
  "m = m' \<Longrightarrow> (\<And>x. m' = Inr x \<Longrightarrow> f x = g x) \<Longrightarrow> bindE m f = bindE m' g"
  by (cases m') auto

fun mapE :: "('a \<Rightarrow> 'e + 'b) \<Rightarrow> 'a list \<Rightarrow> 'e + 'b list" where
  "mapE f [] = Inr []"
| "mapE f (x # xs) = bindE (f x) (\<lambda>y. bindE (mapE f xs) (\<lambda>ys. Inr (y # ys)))"

lemma mapE_cong [fundef_cong]:
  "xs = ys \<Longrightarrow> (\<And>x. x \<in> set ys \<Longrightarrow> f x = g x) \<Longrightarrow> mapE f xs = mapE g ys"
  by (induction ys arbitrary: xs) (auto intro: bindE_cong)

lemma mapE_Inr_set: "mapE f xs = Inr ys \<Longrightarrow> y \<in> set ys \<Longrightarrow> \<exists>x\<in>set xs. f x = Inr y"
  by (induction xs arbitrary: ys) (auto simp: bindE_Inr_iff)

lemma mapE_Inr_map: "(\<And>x. x \<in> set xs \<Longrightarrow> f (g x) = Inr x) \<Longrightarrow> mapE f (map g xs) = Inr xs"
  by (induction xs) auto

subsection \<open>Vectors: sort, unique, erase\<close>

text \<open>
  \<^verbatim>\<open>std::ranges::unique\<close> keeps the first element of every run of equal
  neighbours; after a sort that is every distinct element once.
\<close>

fun unique_runs :: "'a list \<Rightarrow> 'a list" where
  "unique_runs [] = []"
| "unique_runs [x] = [x]"
| "unique_runs (x # y # xs) = (if x = y then unique_runs (y # xs) else x # unique_runs (y # xs))"

definition sort_unique :: "'a::linorder list \<Rightarrow> 'a list" where
  "sort_unique xs = unique_runs (sort xs)"

lemma set_unique_runs [simp]: "set (unique_runs xs) = set xs"
  by (induction xs rule: unique_runs.induct) auto

lemma unique_runs_sorted_distinct: "sorted xs \<Longrightarrow> sorted (unique_runs xs) \<and> distinct (unique_runs xs)"
proof (induction xs rule: unique_runs.induct)
  case (3 x y xs)
  then show ?case by (cases "x = y") (fastforce simp: less_le)+
qed auto

lemma set_sort_unique [simp, cpp_simps]: "set (sort_unique xs) = set xs"
  by (simp add: sort_unique_def)

lemma sorted_sort_unique [simp]: "sorted (sort_unique xs)"
  and distinct_sort_unique [simp]: "distinct (sort_unique xs)"
  using unique_runs_sorted_distinct [of "sort xs"] by (auto simp: sort_unique_def)

lemma sort_unique_eq_iff: "sort_unique xs = sort_unique ys \<longleftrightarrow> set xs = set ys"
  by (metis sorted_distinct_set_unique set_sort_unique sorted_sort_unique distinct_sort_unique)

lemma sort_unique_id: "sorted xs \<Longrightarrow> distinct xs \<Longrightarrow> sort_unique xs = xs"
  by (metis sorted_distinct_set_unique set_sort_unique sorted_sort_unique distinct_sort_unique)

lemma length_sort_unique: "length (sort_unique xs) = card (set xs)"
  by (metis distinct_card distinct_sort_unique set_sort_unique)

lemma sort_unique_Nil [simp]: "sort_unique xs = [] \<longleftrightarrow> xs = []"
  by (metis set_empty set_sort_unique)

subsection \<open>Ordered maps\<close>

text \<open>
  A \<^verbatim>\<open>std::map\<close> is the association list of its entries in key order;
  \<^verbatim>\<open>operator[]\<close> and \<^verbatim>\<open>insert_or_assign\<close> update it in place or insert the key
  where it belongs, \<^verbatim>\<open>find\<close> is \<^const>\<open>map_of\<close>.
\<close>

fun omap_insert :: "'k::linorder \<Rightarrow> 'v \<Rightarrow> ('k \<times> 'v) list \<Rightarrow> ('k \<times> 'v) list" where
  "omap_insert k v [] = [(k, v)]"
| "omap_insert k v ((k', v') # m) =
     (if k = k' then (k, v) # m
      else if k < k' then (k, v) # (k', v') # m
      else (k', v') # omap_insert k v m)"

abbreviation omap_sorted :: "('k::linorder \<times> 'v) list \<Rightarrow> bool" where
  "omap_sorted m \<equiv> sorted_wrt (<) (map fst m)"

lemma map_of_omap_insert [simp]: "map_of (omap_insert k v m) = (map_of m)(k \<mapsto> v)"
  by (induction m) auto

lemma omap_sorted_map_of: "omap_sorted m \<Longrightarrow> (k, v) \<in> set m \<Longrightarrow> map_of m k = Some v"
  by (simp add: strict_sorted_iff)

lemma keys_omap_insert [simp]: "fst ` set (omap_insert k v m) = insert k (fst ` set m)"
  by (simp flip: dom_map_of_conv_image_fst)

lemma omap_sorted_insert [simp]: "omap_sorted m \<Longrightarrow> omap_sorted (omap_insert k v m)"
proof (induction m)
  case (Cons kv m)
  have "x \<in> set (omap_insert k v m) \<Longrightarrow> fst x = k \<or> fst x \<in> fst ` set m" for x
    using keys_omap_insert [of k v m] by (metis imageI insertE)
  with Cons show ?case by (cases kv) (fastforce simp: not_less le_less)
qed simp

lemma omap_insert_last:
  "(\<And>k'. k' \<in> fst ` set m \<Longrightarrow> k' < k) \<Longrightarrow> omap_insert k v m = m @ [(k, v)]"
proof (induction m)
  case (Cons kv m)
  obtain k' v' where kv: "kv = (k', v')" by (cases kv)
  with Cons.prems have "k' < k" by simp
  then have "k \<noteq> k'" "\<not> k < k'" by auto
  with Cons kv show ?case by simp
qed simp

lemma omap_insert_all:
  "omap_sorted (acc @ m) \<Longrightarrow> foldl (\<lambda>a (k, v). omap_insert k v a) acc m = acc @ m"
proof (induction m arbitrary: acc)
  case (Cons kv m)
  obtain k v where kv: "kv = (k, v)" by (cases kv)
  from Cons.prems have "omap_insert k v acc = acc @ [(k, v)]"
    by (intro omap_insert_last) (auto simp: kv sorted_wrt_append)
  with Cons show ?case by (simp add: kv)
qed simp

subsection \<open>Strings\<close>

definition starts_with :: "string \<Rightarrow> string \<Rightarrow> bool" where
  "starts_with s p \<longleftrightarrow> take (length p) s = p"

lemma starts_with_append [simp]: "starts_with (p @ s) p"
  by (simp add: starts_with_def)

lemma starts_with_iff: "starts_with s p \<longleftrightarrow> (\<exists>t. s = p @ t)"
  by (metis append_take_drop_id append_eq_conv_conj starts_with_def)

text \<open>\<^verbatim>\<open>std::to_string\<close> and \<^verbatim>\<open>operator<<\<close> on integers.\<close>

definition digit_char :: "nat \<Rightarrow> char" where
  "digit_char d = char_of (48 + d)"

fun show_nat :: "nat \<Rightarrow> string" where
  "show_nat n = (if n < 10 then [digit_char n] else show_nat (n div 10) @ [digit_char (n mod 10)])"

declare show_nat.simps [simp del]

definition show_int :: "int \<Rightarrow> string" where
  "show_int i = (if i < 0 then CHR ''-'' # show_nat (nat (- i)) else show_nat (nat i))"

definition digit_value :: "char \<Rightarrow> nat" where
  "digit_value c = of_char c - 48"

definition is_digit :: "char \<Rightarrow> bool" where
  "is_digit c \<longleftrightarrow> CHR ''0'' \<le> c \<and> c \<le> CHR ''9''"

definition read_nat :: "string \<Rightarrow> nat" where
  "read_nat ds = foldl (\<lambda>n c. 10 * n + digit_value c) 0 ds"

lemma of_char_digit_char: "d < 10 \<Longrightarrow> of_char (digit_char d) = 48 + d"
  by (simp add: digit_char_def)

lemma digit_value_digit_char [simp]: "d < 10 \<Longrightarrow> digit_value (digit_char d) = d"
  by (simp add: digit_value_def of_char_digit_char)

lemma is_digit_digit_char [simp]: "d < 10 \<Longrightarrow> is_digit (digit_char d)"
  by (simp add: is_digit_def less_eq_char_def of_char_digit_char)

lemma show_nat_digits: "c \<in> set (show_nat n) \<Longrightarrow> is_digit c"
proof (induction n rule: show_nat.induct)
  case (1 n)
  then show ?case by (subst (asm) show_nat.simps) (auto split: if_splits)
qed

lemma show_nat_not_Nil [simp]: "show_nat n \<noteq> []"
  by (subst show_nat.simps) simp

lemma read_show_nat [simp]: "read_nat (show_nat n) = n"
proof (induction n rule: show_nat.induct)
  case (1 n)
  show ?case
  proof (cases "n < 10")
    case True
    then show ?thesis by (subst show_nat.simps) (simp add: read_nat_def)
  next
    case False
    with "1.IH" have "read_nat (show_nat (n div 10)) = n div 10" by simp
    with False show ?thesis by (subst show_nat.simps) (simp add: read_nat_def)
  qed
qed

lemma show_nat_inject [simp]: "show_nat m = show_nat n \<longleftrightarrow> m = n"
  by (metis read_show_nat)

lemma show_int_inject [simp]: "show_int i = show_int j \<longleftrightarrow> i = j"
proof -
  have "\<not> is_digit (CHR ''-'')" by (simp add: is_digit_def less_eq_char_def)
  then have "show_nat m \<noteq> CHR ''-'' # s" for m s
    by (metis list.set_intros(1) show_nat_digits)
  from this this [symmetric] show ?thesis by (auto simp: show_int_def)
qed

end
