(* ===== verification/Bfs.thy ===== *)
theory Bfs
  imports Prelude
begin

text \<open>
  Breadth-first search as the components use it: a set of nodes seen, a queue of
  nodes not yet expanded, an optional bound on the depth. The locale fixes the
  successor lists and the relation they enumerate; its lemmas say that the two
  steps of a search loop keep the level invariant, and what the invariant gives
  when a node is expanded and when the queue is empty.
\<close>

locale bfs =
  fixes succs :: "'a \<Rightarrow> 'a list" and edge :: "('a \<times> 'a) set" and start :: 'a and limit :: "nat option"
  assumes succs_edge: "y \<in> set (succs x) \<longleftrightarrow> (x, y) \<in> edge"
begin

definition within :: "nat \<Rightarrow> bool" where
  "within k \<longleftrightarrow> (case limit of None \<Rightarrow> True | Some m \<Rightarrow> k \<le> m)"

definition inv :: "('a \<Rightarrow> nat) \<Rightarrow> 'a set \<Rightarrow> 'a list \<Rightarrow> bool" where
  "inv lev seen q \<longleftrightarrow>
     start \<in> seen \<and> lev start = 0 \<and> (\<forall>x \<in> seen. (start, x) \<in> edge ^^ lev x \<and> within (lev x))
     \<and> set q \<subseteq> seen \<and> distinct q \<and> sorted (map lev q)
     \<and> (\<forall>x \<in> seen. q \<noteq> [] \<longrightarrow> lev x \<le> Suc (lev (hd q)))
     \<and> (\<forall>x \<in> seen - set q. within (Suc (lev x)) \<longrightarrow>
          (\<forall>y \<in> set (succs x). y \<in> seen \<and> lev y \<le> Suc (lev x)))"

lemma within_mono: "within k \<Longrightarrow> j \<le> k \<Longrightarrow> within j"
  by (auto simp: within_def split: option.splits)

lemma within_0 [simp]: "within 0"
  by (simp add: within_def split: option.splits)

lemma inv_start: "inv (\<lambda>_. 0) {start} [start]"
  by (auto simp: inv_def)

lemma inv_expanded:
  "inv lev seen q \<Longrightarrow> y \<in> seen - set q \<Longrightarrow> within (Suc (lev y)) \<Longrightarrow> z \<in> set (succs y) \<Longrightarrow>
   z \<in> seen \<and> lev z \<le> Suc (lev y)"
  by (simp add: inv_def)

lemma invI:
  assumes "start \<in> seen" "lev start = 0" "\<And>x. x \<in> seen \<Longrightarrow> (start, x) \<in> edge ^^ lev x \<and> within (lev x)"
    "set q \<subseteq> seen" "distinct q" "sorted (map lev q)"
    "\<And>x. x \<in> seen \<Longrightarrow> q \<noteq> [] \<Longrightarrow> lev x \<le> Suc (lev (hd q))"
    "\<And>x y. x \<in> seen - set q \<Longrightarrow> within (Suc (lev x)) \<Longrightarrow> y \<in> set (succs x) \<Longrightarrow>
       y \<in> seen \<and> lev y \<le> Suc (lev x)"
  shows "inv lev seen q"
  unfolding inv_def using assms by (intro conjI ballI impI) simp_all

lemma inv_head:
  assumes "inv lev seen (x # q)"
  shows "x \<in> seen" "(start, x) \<in> edge ^^ lev x" "set q \<subseteq> seen" "distinct q" "x \<notin> set q"
    "y \<in> seen \<Longrightarrow> lev y \<le> Suc (lev x)" "y \<in> set q \<Longrightarrow> lev x \<le> lev y"
  using assms by (auto simp: inv_def)

lemma inv_skip:
  assumes "inv lev seen (x # q)" "\<not> within (Suc (lev x))"
  shows "inv lev seen q"
proof (rule invI)
  fix y assume "y \<in> seen" "q \<noteq> []"
  then show "lev y \<le> Suc (lev (hd q))"
    using inv_head(6) [OF assms(1), of y] inv_head(7) [OF assms(1), of "hd q"] by simp
next
  fix y z assume y: "y \<in> seen - set q" "within (Suc (lev y))" "z \<in> set (succs y)"
  with assms(2) have "y \<in> seen - set (x # q)" by auto
  from assms(1) this y(2,3) show "z \<in> seen \<and> lev z \<le> Suc (lev y)" by (rule inv_expanded)
qed (use assms(1) in \<open>simp_all add: inv_def\<close>)

lemma inv_expand:
  assumes inv: "inv lev seen (x # q)" and w: "within (Suc (lev x))"
    and new: "set new = set (succs x) - seen" "distinct new"
  shows "inv (\<lambda>y. if y \<in> set new then Suc (lev x) else lev y) (seen \<union> set (succs x)) (q @ new)"
    (is "inv ?lev ?seen _")
proof -
  note x = inv_head(1,2) [OF inv] and q = inv_head(3-5) [OF inv]
    and le = inv_head(6) [OF inv] and ge = inv_head(7) [OF inv]
  have old [simp]: "y \<in> seen \<Longrightarrow> ?lev y = lev y" for y using new(1) by auto
  have reach: "(start, y) \<in> edge ^^ ?lev y \<and> within (?lev y)" if "y \<in> ?seen" for y
  proof (cases "y \<in> seen")
    case True
    with inv show ?thesis by (simp add: inv_def)
  next
    case False
    with that new(1) have "y \<in> set new" "(x, y) \<in> edge" by (auto simp: succs_edge)
    with w relpow_Suc_I [OF x(2)] show ?thesis by simp
  qed
  have lev_q: "map ?lev q = map lev q" using q(1) new(1) by auto
  have "sorted (map lev q)" using inv by (simp add: inv_def)
  moreover have "\<forall>y \<in> set q. ?lev y \<le> Suc (lev x)" using le q(1) by (auto simp: subset_iff)
  moreover have "map ?lev new = replicate (length new) (Suc (lev x))"
    by (simp add: map_replicate_const cong: map_cong)
  ultimately have sorted: "sorted (map ?lev (q @ new))"
    unfolding map_append lev_q sorted_append using le q(1) by auto
  have "?lev y \<le> Suc (?lev (hd (q @ new)))" if "y \<in> ?seen" "q @ new \<noteq> []" for y
  proof -
    have "?lev y \<le> Suc (lev x)" using that(1) le new(1) by (cases "y \<in> seen") auto
    moreover have "lev x \<le> ?lev (hd (q @ new))"
    proof (cases "q = []")
      case True
      with that(2) show ?thesis by simp
    next
      case False
      then have "hd q \<in> seen" using q(1) by auto
      with False ge [of "hd q"] show ?thesis by simp
    qed
    ultimately show ?thesis by simp
  qed
  moreover have "z \<in> ?seen \<and> ?lev z \<le> Suc (?lev y)"
    if "y \<in> ?seen - set (q @ new)" "within (Suc (?lev y))" "z \<in> set (succs y)" for y z
  proof (cases "y = x")
    case True
    with that x le new show ?thesis by auto
  next
    case False
    with that new have "y \<in> seen - set (x # q)" by auto
    with that(2,3) inv_expanded [OF inv this, of z] show ?thesis by simp
  qed
  moreover have "start \<in> ?seen" "?lev start = 0" "set (q @ new) \<subseteq> ?seen" "distinct (q @ new)"
    using inv q new by (auto simp: inv_def)
  ultimately show ?thesis using reach sorted by (intro invI) blast+
qed

lemma inv_complete:
  assumes "inv lev seen q" "(start, y) \<in> edge ^^ j" "within j" "\<And>x. x \<in> set q \<Longrightarrow> j \<le> lev x"
  shows "y \<in> seen \<and> lev y \<le> j"
  using assms(2-)
proof (induction j arbitrary: y)
  case 0
  with assms(1) show ?case by (auto simp: inv_def)
next
  case (Suc j)
  obtain z where z: "(start, z) \<in> edge ^^ j" "(z, y) \<in> edge" using Suc.prems(1) by (auto elim: relpow_Suc_E)
  have IH: "z \<in> seen \<and> lev z \<le> j"
    using Suc.IH [OF z(1) within_mono [OF Suc.prems(2)]] Suc.prems(3) by fastforce
  then have "z \<in> seen - set q" using Suc.prems(3) by fastforce
  moreover have "within (Suc (lev z))" using within_mono [OF Suc.prems(2)] IH by simp
  ultimately show ?case using assms(1) IH z(2) succs_edge [of y z] by (fastforce simp: inv_def)
qed

theorem inv_final:
  assumes "inv lev seen []"
  shows "seen = {x. \<exists>k. within k \<and> (start, x) \<in> edge ^^ k}"
  using assms inv_complete [OF assms] by (auto simp: inv_def)

end

end
