(* ===== verification/Include_Graph.thy ===== *)
theory Include_Graph
  imports Bfs "HOL-Library.Multiset"
begin

text \<open>
  The configuration-aware include graph (\<^verbatim>\<open>include_hygiene/graph.hpp\<close>,
  \<^verbatim>\<open>graph.cpp\<close>): edges merged per source and target, adjacency in both
  directions, breadth-first closures with an optional depth bound, the shortest
  include chain, fan-in and fan-out. The rows the database returns are
  parameters of \<open>load\<close>. The locale \<open>bfs\<close> carries the breadth-first
  invariant that both searches rest on.
\<close>

subsection \<open>Edges and adjacency\<close>

record GraphEdge =
  ge_src_path :: string
  ge_dst_path :: string
  ge_dst_file_id :: "int option"
  ge_is_system :: bool
  ge_count :: int
  ge_configs :: "string list"

record IncludeEdge =
  ie_id :: int
  ie_src_file_id :: int
  ie_config_id :: int
  ie_dst_path :: string
  ie_dst_file_id :: "int option"
  ie_is_system :: bool
  ie_is_generated :: bool
  ie_count :: int

type_synonym adjacency = "(string \<times> GraphEdge list) list"

record IncludeGraph =
  gr_out :: adjacency
  gr_in :: adjacency

definition collect_configs :: "string list \<Rightarrow> string list \<Rightarrow> string list" where
  "collect_configs xs ds = foldl (\<lambda>cs d. if d \<in> set cs then cs else cs @ [d]) xs ds"

fun merge_into :: "GraphEdge list \<Rightarrow> GraphEdge \<Rightarrow> GraphEdge list" where
  "merge_into [] e = [e]"
| "merge_into (x # xs) e =
     (if ge_dst_path x = ge_dst_path e \<and> ge_src_path x = ge_src_path e
      then x\<lparr>ge_count := ge_count x + ge_count e,
             ge_configs := sort (collect_configs (ge_configs x) (ge_configs e)),
             ge_dst_file_id := (case ge_dst_file_id x of None \<Rightarrow> ge_dst_file_id e | Some i \<Rightarrow> Some i)\<rparr> # xs
      else x # merge_into xs e)"

definition sort_by_far_end :: "GraphEdge list \<Rightarrow> bool \<Rightarrow> GraphEdge list" where
  "sort_by_far_end xs by_dst = sort_key (if by_dst then ge_dst_path else ge_src_path) xs"

definition adj_at :: "adjacency \<Rightarrow> string \<Rightarrow> GraphEdge list" where
  "adj_at adj path = (case map_of adj path of None \<Rightarrow> [] | Some es \<Rightarrow> es)"

definition add_edge :: "(GraphEdge \<Rightarrow> string) \<Rightarrow> adjacency \<Rightarrow> GraphEdge \<Rightarrow> adjacency" where
  "add_edge end_of adj e = omap_insert (end_of e) (merge_into (adj_at adj (end_of e)) e) adj"

definition load_edge ::
  "(int \<times> string) list \<Rightarrow> (int \<Rightarrow> string option) \<Rightarrow> IncludeGraph \<Rightarrow> IncludeEdge \<Rightarrow> IncludeGraph" where
  "load_edge files config_digest g e =
     (case map_of files (ie_src_file_id e) of
        None \<Rightarrow> g
      | Some src \<Rightarrow>
          let digest = (case config_digest (ie_config_id e) of None \<Rightarrow> [] | Some d \<Rightarrow> d);
              ge = \<lparr>ge_src_path = src, ge_dst_path = ie_dst_path e, ge_dst_file_id = ie_dst_file_id e,
                    ge_is_system = ie_is_system e, ge_count = ie_count e, ge_configs = [digest]\<rparr>
          in \<lparr>gr_out = add_edge ge_src_path (gr_out g) ge, gr_in = add_edge ge_dst_path (gr_in g) ge\<rparr>)"

definition load ::
  "(int \<times> string) list \<Rightarrow> (int \<Rightarrow> string option) \<Rightarrow> IncludeEdge list \<Rightarrow> IncludeGraph" where
  "load files config_digest edges =
     (let g = foldl (load_edge files config_digest) \<lparr>gr_out = [], gr_in = []\<rparr> edges
      in \<lparr>gr_out = map (\<lambda>(p, es). (p, sort_by_far_end es True)) (gr_out g),
          gr_in = map (\<lambda>(p, es). (p, sort_by_far_end es False)) (gr_in g)\<rparr>)"

definition direct_from :: "IncludeGraph \<Rightarrow> string \<Rightarrow> GraphEdge list" where
  "direct_from g path = adj_at (gr_out g) path"

definition direct_to :: "IncludeGraph \<Rightarrow> string \<Rightarrow> GraphEdge list" where
  "direct_to g path = adj_at (gr_in g) path"

definition nodes :: "IncludeGraph \<Rightarrow> string list" where
  "nodes g = sort_unique (map fst (gr_out g) @ map fst (gr_in g))"

definition has_node :: "IncludeGraph \<Rightarrow> string \<Rightarrow> bool" where
  "has_node g path \<longleftrightarrow> path \<in> set (map fst (gr_out g)) \<or> path \<in> set (map fst (gr_in g))"

record Hotspot =
  hs_path :: string
  hs_fan_in :: int
  hs_fan_out :: int

definition hotspots :: "IncludeGraph \<Rightarrow> Hotspot list" where
  "hotspots g = map (\<lambda>p. \<lparr>hs_path = p, hs_fan_in = int (length (adj_at (gr_in g) p)),
                            hs_fan_out = int (length (adj_at (gr_out g) p))\<rparr>) (nodes g)"

subsection \<open>Breadth-first closure\<close>

definition nexts :: "adjacency \<Rightarrow> bool \<Rightarrow> string \<Rightarrow> string list" where
  "nexts adj follow_dst path = map (if follow_dst then ge_dst_path else ge_src_path) (adj_at adj path)"

definition far_ends :: "adjacency \<Rightarrow> bool \<Rightarrow> string set" where
  "far_ends adj follow_dst = (\<Union>(p, es) \<in> set adj. (if follow_dst then ge_dst_path else ge_src_path) ` set es)"

lemma finite_far_ends [simp]: "finite (far_ends adj f)"
  by (auto simp: far_ends_def)

lemma nexts_far_ends: "set (nexts adj f p) \<subseteq> far_ends adj f"
proof (cases "map_of adj p")
  case (Some es)
  then have "(p, es) \<in> set adj" by (rule map_of_SomeD)
  then show ?thesis using Some by (auto simp: nexts_def far_ends_def adj_at_def intro!: bexI [of _ "(p, es)"])
qed (simp add: nexts_def adj_at_def)

text \<open>The inner loop over one adjacency list: \<open>seen\<close>, \<open>out\<close> and the pushed part of the queue.\<close>

fun visit :: "int \<Rightarrow> string list \<Rightarrow> string list \<times> string list \<times> (string \<times> int) list
    \<Rightarrow> string list \<times> string list \<times> (string \<times> int) list" where
  "visit depth [] st = st"
| "visit depth (n # ns) (seen, out, queue) =
     (if n \<in> set seen then visit depth ns (seen, out, queue)
      else visit depth ns (n # seen, n # out, queue @ [(n, depth + 1)]))"

text \<open>The elements of \<open>ns\<close> that are new, in order of their first occurrence.\<close>

fun fresh :: "'a set \<Rightarrow> 'a list \<Rightarrow> 'a list" where
  "fresh S [] = []"
| "fresh S (n # ns) = (if n \<in> S then fresh S ns else n # fresh (insert n S) ns)"

lemma fresh_props [simp]: "set (fresh S ns) = set ns - S" "distinct (fresh S ns)"
  by (induction S ns rule: fresh.induct) auto

lemma visit_fresh:
  "visit depth ns (seen, out, queue) =
     (rev (fresh (set seen) ns) @ seen, rev (fresh (set seen) ns) @ out,
      queue @ map (\<lambda>n. (n, depth + 1)) (fresh (set seen) ns))"
  by (induction ns arbitrary: seen out queue) auto

lemma visit_measure:
  assumes "visit depth ns (seen, out, queue) = (seen', out', queue')" "set ns \<subseteq> T" "finite T"
  shows "card (T - set seen') + length queue' = card (T - set seen) + length queue"
proof -
  let ?new = "fresh (set seen) ns"
  have "T - set seen' = (T - set seen) - set ?new" "set ?new \<subseteq> T - set seen"
    using assms by (auto simp: visit_fresh)
  then have "card (T - set seen') + length ?new = card (T - set seen)"
    using assms(3) distinct_card [of ?new] by (metis card_Diff_subset card_mono finite_Diff finite_set
        fresh_props(2) le_add_diff_inverse2)
  with assms(1) show ?thesis by (auto simp: visit_fresh)
qed

function reachable_loop :: "adjacency \<Rightarrow> int \<Rightarrow> bool \<Rightarrow> string list \<times> string list \<times> (string \<times> int) list
    \<Rightarrow> string list" where
  "reachable_loop adj max_depth follow_dst (seen, out, []) = out"
| "reachable_loop adj max_depth follow_dst (seen, out, (path, depth) # queue) =
     (if max_depth > 0 \<and> depth \<ge> max_depth then reachable_loop adj max_depth follow_dst (seen, out, queue)
      else reachable_loop adj max_depth follow_dst
             (visit depth (nexts adj follow_dst path) (seen, out, queue)))"
  by pat_completeness auto
termination
proof (relation "measure (\<lambda>(adj, m, f, seen, out, queue). card (far_ends adj f - set seen) + length queue)")
  fix adj m f seen out path depth queue
  obtain s' o' q' where v: "visit depth (nexts adj f path) (seen, out, queue) = (s', o', q')"
    by (metis prod_cases3)
  from visit_measure [OF this nexts_far_ends finite_far_ends]
  show "((adj, m, f, visit depth (nexts adj f path) (seen, out, queue)), adj, m, f, seen, out, (path, depth) # queue)
    \<in> measure (\<lambda>(adj, m, f, seen, out, queue). card (far_ends adj f - set seen) + length queue)"
    by (simp add: v)
qed auto

definition reachable :: "adjacency \<Rightarrow> string \<Rightarrow> int \<Rightarrow> bool \<Rightarrow> string list" where
  "reachable adj start max_depth follow_dst =
     sort_unique (reachable_loop adj max_depth follow_dst ([start], [], [(start, 0)]))"

definition transitive_from :: "IncludeGraph \<Rightarrow> string \<Rightarrow> int \<Rightarrow> string list" where
  "transitive_from g path max_depth = reachable (gr_out g) path max_depth True"

definition transitive_to :: "IncludeGraph \<Rightarrow> string \<Rightarrow> int \<Rightarrow> string list" where
  "transitive_to g path max_depth = reachable (gr_in g) path max_depth False"

subsection \<open>The shortest include chain\<close>

text \<open>State of the search: parents, nodes seen, nodes pushed; the flag is \<open>found\<close>.\<close>

fun visit_until :: "string \<Rightarrow> string \<Rightarrow> string list
    \<Rightarrow> (string \<times> string) list \<times> string list \<times> string list
    \<Rightarrow> bool \<times> (string \<times> string) list \<times> string list \<times> string list" where
  "visit_until goal cur [] st = (False, st)"
| "visit_until goal cur (n # ns) (parent, seen, queue) =
     (if n \<in> set seen then visit_until goal cur ns (parent, seen, queue)
      else if n = goal then (True, (n, cur) # parent, n # seen, queue)
      else visit_until goal cur ns ((n, cur) # parent, n # seen, queue @ [n]))"

lemma visit_until_measure:
  "visit_until goal cur ns (parent, seen, queue) = (False, parent', seen', queue') \<Longrightarrow>
   set ns \<subseteq> T \<Longrightarrow> finite T \<Longrightarrow>
   card (T - set seen') + length queue' = card (T - set seen) + length queue"
proof (induction ns arbitrary: parent seen queue)
  case (Cons n ns)
  show ?case
  proof (cases "n \<in> set seen")
    case False
    with Cons.prems have "n \<in> T - set seen" "n \<noteq> goal" by (auto split: if_splits)
    moreover have "T - set (n # seen) = (T - set seen) - {n}" by auto
    ultimately have "card (T - set seen) = Suc (card (T - set (n # seen)))"
      using Cons.prems(3) by (metis card_Suc_Diff1 finite_Diff)
    with Cons False \<open>n \<noteq> goal\<close> show ?thesis by simp
  qed (use Cons in simp)
qed simp

function search_loop :: "adjacency \<Rightarrow> string \<Rightarrow> (string \<times> string) list \<times> string list \<times> string list
    \<Rightarrow> (string \<times> string) list option" where
  "search_loop adj goal (parent, seen, []) = None"
| "search_loop adj goal (parent, seen, cur # queue) =
     (case visit_until goal cur (nexts adj True cur) (parent, seen, queue) of
        (True, parent', seen', queue') \<Rightarrow> Some parent'
      | (False, parent', seen', queue') \<Rightarrow> search_loop adj goal (parent', seen', queue'))"
  by pat_completeness auto
termination
  by (relation "measure (\<lambda>(adj, goal, parent, seen, queue). card (far_ends adj True - set seen) + length queue)")
    (auto dest!: visit_until_measure [OF _ nexts_far_ends finite_far_ends] sym [of _ "visit_until _ _ _ _"])

text \<open>
  The chain follows \<^verbatim>\<open>parent[cur]\<close> from the target to the start. The loop carries
  fuel, one unit per recorded parent and one more.
\<close>

fun chain_back :: "nat \<Rightarrow> (string \<times> string) list \<Rightarrow> string \<Rightarrow> string \<Rightarrow> string list option" where
  "chain_back 0 parent start cur = None"
| "chain_back (Suc fuel) parent start cur =
     (if cur = start then Some [cur]
      else let p = (case map_of parent cur of None \<Rightarrow> [] | Some p \<Rightarrow> p)
           in map_option ((#) cur) (chain_back fuel parent start p))"

definition shortest_path :: "IncludeGraph \<Rightarrow> string \<Rightarrow> string \<Rightarrow> string list option" where
  "shortest_path g start goal =
     (if start = goal then Some (if has_node g start then [start] else [])
      else case search_loop (gr_out g) goal ([], [start], [start]) of
             None \<Rightarrow> Some []
           | Some parent \<Rightarrow> map_option rev (chain_back (length parent + 1) parent start goal))"

subsection \<open>The closures are reachability\<close>

definition edges :: "adjacency \<Rightarrow> bool \<Rightarrow> (string \<times> string) set" where
  "edges adj follow_dst = {(x, y). y \<in> set (nexts adj follow_dst x)}"

definition bound :: "int \<Rightarrow> nat option" where
  "bound max_depth = (if max_depth > 0 then Some (nat max_depth) else None)"

interpretation closure: bfs "nexts adj f" "edges adj f" start "bound m" for adj f start m
  by unfold_locales (simp add: edges_def)

lemma within_bound: "closure.within m k \<longleftrightarrow> \<not> (m > 0 \<and> int k > m)"
  unfolding closure.within_def by (auto simp: bound_def)

lemma reachable_loop_spec:
  assumes "closure.inv adj f start m lev (set seen) q" "set out = set seen - {start}"
  shows "set (reachable_loop adj m f (seen, out, map (\<lambda>x. (x, int (lev x))) q))
    = {x. x \<noteq> start \<and> (\<exists>k. closure.within m k \<and> (start, x) \<in> edges adj f ^^ k)}"
  using assms
proof (induction adj m f "(seen, out, map (\<lambda>x. (x, int (lev x))) q)" arbitrary: seen out q lev
    rule: reachable_loop.induct)
  case (1 adj m f seen out)
  then have "q = []" by simp
  with 1 closure.inv_final [of adj f start m lev "set seen"] show ?case by auto
next
  case (2 adj m f seen out path depth queue)
  then obtain q' where q: "q = path # q'" "queue = map (\<lambda>x. (x, int (lev x))) q'" "depth = int (lev path)"
    by (cases q) auto
  let ?new = "fresh (set seen) (nexts adj f path)"
  let ?lev = "\<lambda>y. if y \<in> set ?new then Suc (lev path) else lev y"
  show ?case
  proof (cases "m > 0 \<and> depth \<ge> m")
    case True
    then have "\<not> closure.within m (Suc (lev path))" using q(3) by (simp add: within_bound)
    from closure.inv_skip [OF "2.prems"(1) [unfolded q(1)] this]
    have "closure.inv adj f start m lev (set seen) q'" .
    then have "set (reachable_loop adj m f (seen, out, queue))
        = {x. x \<noteq> start \<and> (\<exists>k. closure.within m k \<and> (start, x) \<in> edges adj f ^^ k)}"
      using "2.hyps"(1) [OF True _ _ "2.prems"(2)] q(2) by simp
    with True show ?thesis using "2.hyps"(3) [symmetric] by simp
  next
    case False
    then have "closure.within m (Suc (lev path))" using q(3) by (auto simp: within_bound)
    from closure.inv_expand [OF "2.prems"(1) [unfolded q(1)] this, of ?new]
    have inv: "closure.inv adj f start m ?lev (set seen \<union> set (nexts adj f path)) (q' @ ?new)" by simp
    have "set q' \<subseteq> set seen" using closure.inv_head(3) "2.prems"(1) q(1) by metis
    then have "map (\<lambda>x. (x, int (?lev x))) (q' @ ?new) = queue @ map (\<lambda>n. (n, depth + 1)) ?new"
      using q by auto
    then have visited: "visit depth (nexts adj f path) (seen, out, queue) =
        (rev ?new @ seen, rev ?new @ out, map (\<lambda>x. (x, int (?lev x))) (q' @ ?new))"
      by (simp add: visit_fresh)
    have "start \<in> set seen" using "2.prems"(1) by (simp add: closure.inv_def)
    then have "set (rev ?new @ out) = set (rev ?new @ seen) - {start}" using "2.prems"(2) by auto
    moreover have "set (rev ?new @ seen) = set seen \<union> set (nexts adj f path)" by auto
    ultimately have "set (reachable_loop adj m f (visit depth (nexts adj f path) (seen, out, queue)))
        = {x. x \<noteq> start \<and> (\<exists>k. closure.within m k \<and> (start, x) \<in> edges adj f ^^ k)}"
      using "2.hyps"(2) [OF False visited] inv visited by simp
    with False show ?thesis using "2.hyps"(3) [symmetric] by auto
  qed
qed

lemma set_reachable:
  "set (reachable adj start m f)
    = {x. x \<noteq> start \<and> (\<exists>k. \<not> (m > 0 \<and> int k > m) \<and> (start, x) \<in> edges adj f ^^ k)}"
proof -
  have "closure.inv adj f start m (\<lambda>_. 0) (set [start]) [start]" using closure.inv_start by simp
  from reachable_loop_spec [OF this, of "[]"] show ?thesis by (simp add: reachable_def within_bound)
qed

subsection \<open>The chain is a shortest one\<close>

lemma visit_until_not_found:
  "visit_until goal cur ns (parent, seen, queue) = (False, parent', seen', queue') \<Longrightarrow>
   (let new = fresh (set seen) ns in goal \<notin> set new \<and> seen' = rev new @ seen \<and> queue' = queue @ new \<and>
      parent' = map (\<lambda>n. (n, cur)) (rev new) @ parent)"
  by (induction goal cur ns "(parent, seen, queue)" arbitrary: parent seen queue rule: visit_until.induct)
    (auto simp: Let_def split: if_splits)

lemma visit_until_found:
  "visit_until goal cur ns (parent, seen, queue) = (True, parent', seen', queue') \<Longrightarrow>
   goal \<in> set ns \<and> (\<exists>pre. set pre \<inter> set seen = {} \<and> set pre \<subseteq> set ns \<and> parent' = (goal, cur) # map (\<lambda>n. (n, cur)) pre @ parent)"
proof (induction goal cur ns "(parent, seen, queue)" arbitrary: parent seen queue rule: visit_until.induct)
  case (2 goal cur n ns parent seen queue)
  consider "n \<in> set seen" | "n \<notin> set seen" "n = goal" | "n \<notin> set seen" "n \<noteq> goal" by blast
  then show ?case
  proof cases
    case 1
    with 2 show ?thesis by (auto simp: subset_insertI2)
  next
    case 2
    with "2.prems" show ?thesis by (auto intro: exI [of _ "[]"])
  next
    case 3
    with "2.hyps"(2) "2.prems" obtain pre where "goal \<in> set ns" "set pre \<inter> set (n # seen) = {}" "set pre \<subseteq> set ns"
      "parent' = (goal, cur) # map (\<lambda>n. (n, cur)) pre @ (n, cur) # parent" by auto
    with 3 show ?thesis by (auto intro!: exI [of _ "pre @ [n]"])
  qed
qed simp

text \<open>The parents form a tree rooted at the start whose depth is the level.\<close>

definition tree :: "(string \<times> string) set \<Rightarrow> string \<Rightarrow> (string \<Rightarrow> nat) \<Rightarrow> string set \<Rightarrow> (string \<times> string) list \<Rightarrow> bool" where
  "tree E start lev S parent \<longleftrightarrow> start \<in> S \<and> lev start = 0 \<and>
     (\<forall>y \<in> S - {start}. \<exists>p. map_of parent y = Some p \<and> p \<in> S \<and> lev y = Suc (lev p) \<and> (p, y) \<in> E)"

lemma chain_back_tree:
  assumes "tree E start lev S parent" "y \<in> S" "lev y < fuel"
  shows "\<exists>c. chain_back fuel parent start y = Some c \<and> c \<noteq> [] \<and> hd c = y \<and> last c = start \<and>
    length c = Suc (lev y) \<and> successively (\<lambda>x z. (z, x) \<in> E) c"
  using assms(2,3)
proof (induction fuel arbitrary: y)
  case (Suc fuel)
  show ?case
  proof (cases "y = start")
    case True
    with assms(1) show ?thesis by (simp add: tree_def)
  next
    case False
    with assms(1) Suc.prems(1) obtain p where p: "map_of parent y = Some p" "p \<in> S" "lev y = Suc (lev p)" "(p, y) \<in> E"
      by (auto simp: tree_def)
    from Suc.IH [OF p(2)] p(3) Suc.prems(2) obtain c where c: "chain_back fuel parent start p = Some c" "c \<noteq> []"
      "hd c = p" "last c = start" "length c = Suc (lev p)" "successively (\<lambda>x z. (z, x) \<in> E) c" by auto
    with p False show ?thesis by (auto simp: successively_Cons)
  qed
qed simp

lemma tree_extend:
  assumes "tree E start lev S parent" "cur \<in> S" "set new \<inter> S = {}" "\<And>n. n \<in> set new \<Longrightarrow> (cur, n) \<in> E"
  shows "tree E start (\<lambda>y. if y \<in> set new then Suc (lev cur) else lev y) (S \<union> set new)
    (map (\<lambda>n. (n, cur)) (rev new) @ parent)"
proof -
  have get: "map_of (map (\<lambda>n. (n, cur)) (rev new)) y = (if y \<in> set new then Some cur else None)" for y
    using map_of_map_restrict [of "\<lambda>_. cur" "rev new"] by (simp add: restrict_map_def)
  let ?lev = "\<lambda>y. if y \<in> set new then Suc (lev cur) else lev y"
  have old: "?lev y = lev y" if "y \<in> S" for y using that assms(3) by auto
  have step: "\<exists>p. map_of (map (\<lambda>n. (n, cur)) (rev new) @ parent) y = Some p \<and> p \<in> S \<union> set new
      \<and> ?lev y = Suc (?lev p) \<and> (p, y) \<in> E" if y: "y \<in> S \<union> set new - {start}" for y
  proof (cases "y \<in> set new")
    case True
    with assms(2,4) old [of cur] get [of y] show ?thesis by (simp add: map_add_def)
  next
    case False
    with y have "y \<in> S - {start}" by simp
    with assms(1) obtain p where p: "map_of parent y = Some p" "p \<in> S" "lev y = Suc (lev p)" "(p, y) \<in> E"
      by (auto simp: tree_def)
    with False old [of p] get [of y] show ?thesis by (simp add: map_add_def)
  qed
  have "start \<in> S" "lev start = 0" using assms(1) by (auto simp: tree_def)
  moreover from this have "?lev start = 0" using old by simp
  ultimately show ?thesis unfolding tree_def by (intro conjI ballI step) simp_all
qed

text \<open>Chains in the include relation, from a first to a last file.\<close>

definition include_chain :: "(string \<times> string) set \<Rightarrow> string \<Rightarrow> string \<Rightarrow> string list \<Rightarrow> bool" where
  "include_chain E a b c \<longleftrightarrow> c \<noteq> [] \<and> hd c = a \<and> last c = b \<and> successively (\<lambda>x y. (x, y) \<in> E) c"

lemma include_chain_rtrancl: "include_chain E a b c \<Longrightarrow> (a, b) \<in> E\<^sup>*"
proof (induction c arbitrary: a)
  case (Cons x c)
  then show ?case
    by (cases "c = []") (auto simp: include_chain_def successively_Cons intro: converse_rtrancl_into_rtrancl)
qed (simp add: include_chain_def)

lemma search_loop_spec:
  assumes "closure.inv adj True start 0 lev (set seen) queue" "goal \<notin> set seen"
    "tree (edges adj True) start lev (set seen) parent" "\<And>y. y \<in> set seen \<Longrightarrow> lev y \<le> length parent"
  shows "case search_loop adj goal (parent, seen, queue) of
      None \<Rightarrow> (start, goal) \<notin> (edges adj True)\<^sup>*
    | Some parent' \<Rightarrow> \<exists>lev' S. tree (edges adj True) start lev' S parent' \<and> goal \<in> S
        \<and> lev' goal \<le> length parent' \<and> (\<forall>k. (start, goal) \<in> edges adj True ^^ k \<longrightarrow> lev' goal \<le> k)"
  using assms
proof (induction adj goal "(parent, seen, queue)" arbitrary: parent seen queue lev rule: search_loop.induct)
  case (1 adj goal parent seen)
  have "goal \<notin> {x. \<exists>k. closure.within 0 k \<and> (start, x) \<in> edges adj True ^^ k}"
    using closure.inv_final [OF "1.prems"(1)] "1.prems"(2) by simp
  then show ?case by (auto simp: within_bound rtrancl_power)
next
  case (2 adj goal parent seen cur queue)
  note inv = "2.prems"(1) and head = closure.inv_head [OF "2.prems"(1)]
  have w: "closure.within 0 k" for k by (simp add: within_bound)
  obtain found parent' seen' queue' where
    v: "visit_until goal cur (nexts adj True cur) (parent, seen, queue) = (found, parent', seen', queue')"
    by (metis prod_cases4)
  show ?case
  proof (cases found)
    case True
    from visit_until_found [OF v [unfolded eqTrueI [OF True]]] obtain pre where pre: "goal \<in> set (nexts adj True cur)"
      "set pre \<inter> set seen = {}" "set pre \<subseteq> set (nexts adj True cur)"
      "parent' = (goal, cur) # map (\<lambda>n. (n, cur)) pre @ parent" by blast
    let ?new = "rev pre @ [goal]"
    let ?lev = "\<lambda>y. if y \<in> set ?new then Suc (lev cur) else lev y"
    have "tree (edges adj True) start ?lev (set seen \<union> set ?new) (map (\<lambda>n. (n, cur)) (rev ?new) @ parent)"
      using "2.prems"(2,3) head(1) pre by (intro tree_extend) (auto simp: edges_def)
    then have tree: "tree (edges adj True) start ?lev (set seen \<union> set ?new) parent'" using pre(4) by simp
    have "Suc (lev cur) \<le> k" if k: "(start, goal) \<in> edges adj True ^^ k" for k
    proof (rule ccontr)
      assume "\<not> Suc (lev cur) \<le> k"
      then have "k \<le> lev x" if "x \<in> set (cur # queue)" for x using that head(7) [of x] by auto
      with closure.inv_complete [OF inv k w] "2.prems"(2) show False by blast
    qed
    then show ?thesis using tree v True pre(4) "2.prems"(4) [OF head(1)]
      by (auto intro!: exI [of _ ?lev] exI [of _ "set seen \<union> set ?new"])
  next
    case False
    let ?new = "fresh (set seen) (nexts adj True cur)"
    let ?lev = "\<lambda>y. if y \<in> set ?new then Suc (lev cur) else lev y"
    have eqs: "goal \<notin> set ?new" "seen' = rev ?new @ seen" "queue' = queue @ ?new"
      "parent' = map (\<lambda>n. (n, cur)) (rev ?new) @ parent"
      using visit_until_not_found [of goal cur "nexts adj True cur" parent seen queue parent' seen' queue'] v False
      by (simp_all add: Let_def)
    have seen': "set seen' = set seen \<union> set (nexts adj True cur)" "set seen' = set seen \<union> set ?new"
      by (auto simp: eqs)
    have "closure.inv adj True start 0 ?lev (set seen') queue'"
      unfolding seen'(1) eqs(3) by (rule closure.inv_expand [OF inv w]) auto
    moreover have "tree (edges adj True) start ?lev (set seen') parent'"
      unfolding seen'(2) eqs(4) using "2.prems"(3) head(1) by (intro tree_extend) (auto simp: edges_def)
    moreover have "?lev y \<le> length parent'" if "y \<in> set seen'" for y
    proof (cases "y \<in> set ?new")
      case True
      then have "1 \<le> length ?new" using length_pos_if_in_set [OF True] by linarith
      with True show ?thesis using "2.prems"(4) [OF head(1)] eqs(4) by simp
    next
      case False
      with that have "y \<in> set seen" unfolding seen'(2) by auto
      from "2.prems"(4) [OF this] False show ?thesis using eqs(4) by auto
    qed
    moreover have "goal \<notin> set seen'" using "2.prems"(2) eqs by auto
    ultimately have "case search_loop adj goal (parent', seen', queue') of
      None \<Rightarrow> (start, goal) \<notin> (edges adj True)\<^sup>*
    | Some parent' \<Rightarrow> \<exists>lev' S. tree (edges adj True) start lev' S parent' \<and> goal \<in> S
        \<and> lev' goal \<le> length parent' \<and> (\<forall>k. (start, goal) \<in> edges adj True ^^ k \<longrightarrow> lev' goal \<le> k)"
      using "2.hyps" v False by simp
    with v False show ?thesis by simp
  qed
qed

lemma shortest_path_found:
  assumes "a \<noteq> b"
  shows "\<exists>c. shortest_path g a b = Some c \<and>
    (if (a, b) \<in> (edges (gr_out g) True)\<^sup>*
     then include_chain (edges (gr_out g) True) a b c
          \<and> (\<forall>k. (a, b) \<in> edges (gr_out g) True ^^ k \<longrightarrow> length c \<le> Suc k)
     else c = [])"
proof -
  let ?E = "edges (gr_out g) True"
  have "closure.inv (gr_out g) True a 0 (\<lambda>_. 0) (set [a]) [a]" using closure.inv_start by simp
  from search_loop_spec [OF this, of b "[]"] assms
  have spec: "case search_loop (gr_out g) b ([], [a], [a]) of
      None \<Rightarrow> (a, b) \<notin> ?E\<^sup>*
    | Some parent' \<Rightarrow> \<exists>lev' S. tree ?E a lev' S parent' \<and> b \<in> S
        \<and> lev' b \<le> length parent' \<and> (\<forall>k. (a, b) \<in> ?E ^^ k \<longrightarrow> lev' b \<le> k)"
    by (auto simp: tree_def)
  show ?thesis
  proof (cases "search_loop (gr_out g) b ([], [a], [a])")
    case None
    with spec assms show ?thesis by (simp add: shortest_path_def)
  next
    case (Some parent)
    with spec obtain lev S where t: "tree ?E a lev S parent" "b \<in> S" "lev b < length parent + 1"
      "\<forall>k. (a, b) \<in> ?E ^^ k \<longrightarrow> lev b \<le> k" by auto
    from chain_back_tree [OF t(1-3)] obtain c where c: "chain_back (length parent + 1) parent a b = Some c"
      "c \<noteq> []" "hd c = b" "last c = a" "length c = Suc (lev b)" "successively (\<lambda>x z. (z, x) \<in> ?E) c" by auto
    then have chain: "include_chain ?E a b (rev c)" by (simp add: include_chain_def hd_rev last_rev)
    then have "(a, b) \<in> ?E\<^sup>*" using include_chain_rtrancl by blast
    moreover have "shortest_path g a b = Some (rev c)"
      unfolding shortest_path_def using assms Some c(1) by (simp del: chain_back.simps search_loop.simps)
    ultimately show ?thesis using chain c(5) t(4) by simp
  qed
qed

subsection \<open>Loading: both adjacencies hold every row, merged per pair\<close>

text \<open>One end of an edge is the key of an adjacency, the other its far end; the locale serves both maps.\<close>

locale edge_ends =
  fixes near :: "GraphEdge \<Rightarrow> string" and far :: "GraphEdge \<Rightarrow> string"
  assumes same_pair: "ge_dst_path x = ge_dst_path y \<and> ge_src_path x = ge_src_path y \<longleftrightarrow> near x = near y \<and> far x = far y"
    and near_update [simp]: "near (x\<lparr>ge_count := n, ge_configs := cs, ge_dst_file_id := i\<rparr>) = near x"
    and far_update [simp]: "far (x\<lparr>ge_count := n, ge_configs := cs, ge_dst_file_id := i\<rparr>) = far x"
begin

definition merged :: "string \<Rightarrow> GraphEdge list \<Rightarrow> bool" where
  "merged p xs \<longleftrightarrow> (\<forall>x \<in> set xs. near x = p) \<and> distinct (map far xs)"

definition total :: "string \<Rightarrow> GraphEdge list \<Rightarrow> int" where
  "total q xs = sum_list (map ge_count (filter (\<lambda>x. far x = q) xs))"

definition represents :: "adjacency \<Rightarrow> GraphEdge list \<Rightarrow> bool" where
  "represents adj rows \<longleftrightarrow> (\<forall>p. merged p (adj_at adj p) \<and>
     (\<forall>q. (q \<in> far ` set (adj_at adj p) \<longleftrightarrow> (\<exists>r \<in> set rows. near r = p \<and> far r = q)) \<and>
          total q (adj_at adj p) = total q (filter (\<lambda>r. near r = p) rows)))"

lemma merge_into_far:
  assumes "merged p xs" "near e = p"
  shows "map far (merge_into xs e) = (if far e \<in> far ` set xs then map far xs else map far xs @ [far e])"
  using assms by (induction xs e rule: merge_into.induct) (auto simp: merged_def same_pair)

lemma merge_into_near: "\<forall>x \<in> set xs. near x = p \<Longrightarrow> near e = p \<Longrightarrow> \<forall>x \<in> set (merge_into xs e). near x = p"
  by (induction xs e rule: merge_into.induct) auto

lemma merge_into_merged: "merged p xs \<Longrightarrow> near e = p \<Longrightarrow> merged p (merge_into xs e)"
  using merge_into_far [of p xs e] merge_into_near [of xs p e] by (auto simp: merged_def)

lemma merge_into_total:
  "merged p xs \<Longrightarrow> near e = p \<Longrightarrow> total q (merge_into xs e) = total q xs + (if far e = q then ge_count e else 0)"
  by (induction xs e rule: merge_into.induct) (auto simp: merged_def total_def same_pair)

lemma represents_Nil: "represents [] []"
  by (simp add: represents_def adj_at_def merged_def total_def)

lemma adj_at_add: "adj_at (add_edge near adj e) p = (if p = near e then merge_into (adj_at adj p) e else adj_at adj p)"
  by (simp add: add_edge_def adj_at_def)

lemma add_edge_represents:
  assumes "represents adj rows"
  shows "represents (add_edge near adj e) (rows @ [e])"
  unfolding represents_def
proof (intro allI conjI)
  fix p q
  have m: "merged p (adj_at adj p)" and f: "q \<in> far ` set (adj_at adj p) \<longleftrightarrow> (\<exists>r \<in> set rows. near r = p \<and> far r = q)"
    and t: "total q (adj_at adj p) = total q (filter (\<lambda>r. near r = p) rows)"
    using assms by (auto simp: represents_def)
  show "merged p (adj_at (add_edge near adj e) p)" using m by (auto simp: adj_at_add merge_into_merged)
  have "far ` set (merge_into (adj_at adj p) e) = insert (far e) (far ` set (adj_at adj p))" if "near e = p"
    using arg_cong [OF merge_into_far [OF m that], of set] by (auto split: if_splits)
  with f show "q \<in> far ` set (adj_at (add_edge near adj e) p) \<longleftrightarrow> (\<exists>r \<in> set (rows @ [e]). near r = p \<and> far r = q)"
    by (cases "near e = p") (auto simp: adj_at_add simp del: image_iff)
  show "total q (adj_at (add_edge near adj e) p) = total q (filter (\<lambda>r. near r = p) (rows @ [e]))"
  proof -
    have "total q (filter (\<lambda>r. near r = p) (rows @ [e]))
        = total q (filter (\<lambda>r. near r = p) rows) + (if near e = p \<and> far e = q then ge_count e else 0)"
      by (simp add: total_def)
    with t merge_into_total [OF m, of e q] show ?thesis by (cases "near e = p") (auto simp: adj_at_add)
  qed
qed

lemma sort_represents:
  assumes "represents adj rows"
  shows "represents (map (\<lambda>(p, es). (p, sort_key far es)) adj) rows"
proof -
  have at: "adj_at (map (\<lambda>(p, es). (p, sort_key far es)) adj) p = sort_key far (adj_at adj p)" for p
    by (induction adj) (auto simp: adj_at_def)
  have "distinct (map far (sort_key far xs)) = distinct (map far xs)" for xs
    by (simp add: distinct_map)
  moreover have "total q (sort_key far xs) = total q xs" for q xs
    by (simp add: total_def filter_sort flip: sum_mset_sum_list)
  ultimately show ?thesis using assms by (simp add: represents_def at merged_def)
qed

end

interpretation out_end: edge_ends ge_src_path ge_dst_path
  by unfold_locales auto

interpretation in_end: edge_ends ge_dst_path ge_src_path
  by unfold_locales auto

text \<open>The rows of the database whose source file is known, as graph edges.\<close>

definition edge_row :: "(int \<times> string) list \<Rightarrow> (int \<Rightarrow> string option) \<Rightarrow> IncludeEdge \<Rightarrow> GraphEdge list" where
  "edge_row files config_digest e =
     (case map_of files (ie_src_file_id e) of
        None \<Rightarrow> []
      | Some src \<Rightarrow>
          [\<lparr>ge_src_path = src, ge_dst_path = ie_dst_path e, ge_dst_file_id = ie_dst_file_id e,
            ge_is_system = ie_is_system e, ge_count = ie_count e,
            ge_configs = [case config_digest (ie_config_id e) of None \<Rightarrow> [] | Some d \<Rightarrow> d]\<rparr>])"

lemma load_edge_represents:
  assumes "out_end.represents (gr_out g) rows" "in_end.represents (gr_in g) rows"
  shows "out_end.represents (gr_out (load_edge files cd g e)) (rows @ edge_row files cd e)
    \<and> in_end.represents (gr_in (load_edge files cd g e)) (rows @ edge_row files cd e)"
  using assms
  by (simp add: load_edge_def edge_row_def Let_def out_end.add_edge_represents in_end.add_edge_represents
      split: option.splits)

lemma load_edges_represent:
  assumes "out_end.represents (gr_out g) rows" "in_end.represents (gr_in g) rows"
  shows "out_end.represents (gr_out (foldl (load_edge files cd) g es)) (rows @ concat (map (edge_row files cd) es))
    \<and> in_end.represents (gr_in (foldl (load_edge files cd) g es)) (rows @ concat (map (edge_row files cd) es))"
  using assms
proof (induction es arbitrary: g rows)
  case (Cons e es)
  from load_edge_represents [OF Cons.prems, of files cd e] Cons.IH show ?case by fastforce
qed simp

lemma load_represents:
  "out_end.represents (gr_out (load files cd es)) (concat (map (edge_row files cd) es))"
  "in_end.represents (gr_in (load files cd es)) (concat (map (edge_row files cd) es))"
proof -
  let ?g = "foldl (load_edge files cd) \<lparr>gr_out = [], gr_in = []\<rparr> es"
  have "out_end.represents (gr_out ?g) (concat (map (edge_row files cd) es))
      \<and> in_end.represents (gr_in ?g) (concat (map (edge_row files cd) es))"
    using load_edges_represent [of "\<lparr>gr_out = [], gr_in = []\<rparr>" "[]" files cd es]
      out_end.represents_Nil in_end.represents_Nil by simp
  then show "out_end.represents (gr_out (load files cd es)) (concat (map (edge_row files cd) es))"
    "in_end.represents (gr_in (load files cd es)) (concat (map (edge_row files cd) es))"
    using out_end.sort_represents in_end.sort_represents
    by (simp_all add: load_def Let_def sort_by_far_end_def)
qed

lemma edge_row_mem:
  "(\<exists>r \<in> set (concat (map (edge_row files cd) es)). ge_src_path r = a \<and> ge_dst_path r = b)
   \<longleftrightarrow> (\<exists>e \<in> set es. map_of files (ie_src_file_id e) = Some a \<and> ie_dst_path e = b)"
  by (force simp: edge_row_def split: option.splits)

lemma edges_out_load:
  "(a, b) \<in> edges (gr_out (load files cd es)) True
   \<longleftrightarrow> (\<exists>e \<in> set es. map_of files (ie_src_file_id e) = Some a \<and> ie_dst_path e = b)"
  using load_represents(1) [of files cd es]
  by (auto simp: edges_def nexts_def out_end.represents_def edge_row_mem simp del: set_concat)

lemma edges_in_load:
  "(b, a) \<in> edges (gr_in (load files cd es)) False
   \<longleftrightarrow> (\<exists>e \<in> set es. map_of files (ie_src_file_id e) = Some a \<and> ie_dst_path e = b)"
  using load_represents(2) [of files cd es] edge_row_mem [of files cd es a b]
  by (auto simp: edges_def nexts_def in_end.represents_def simp del: set_concat)

subsection \<open>Properties of the include graph\<close>

abbreviation include_rel :: "IncludeGraph \<Rightarrow> (string \<times> string) set" where
  "include_rel g \<equiv> edges (gr_out g) True"

lemma in_is_converse: "edges (gr_in (load files cd es)) False = (include_rel (load files cd es))\<inverse>"
  using edges_in_load [of _ _ files cd es] edges_out_load [of _ _ files cd es] by auto

lemma converse_relpow: "(R\<inverse>) ^^ k = (R ^^ k)\<inverse>" for R :: "('a \<times> 'a) set"
  by (induction k) (auto simp: converse_relcomp relpow_commute [symmetric])

lemma sum_filter_single:
  "distinct (map f xs) \<Longrightarrow> x \<in> set xs \<Longrightarrow> sum_list (map g (filter (\<lambda>y. f y = f x) xs)) = (g x :: int)"
proof (induction xs)
  case (Cons y xs)
  have "filter (\<lambda>z. f z = f y) xs = []" using Cons.prems(1) by (auto simp: filter_empty_conv) (metis rev_image_eqI)
  with Cons show ?case by (cases "x = y") force+
qed simp

lemma set_transitive_to:
  "set (transitive_to (load files cd es) p m)
     = {x. x \<noteq> p \<and> (\<exists>k. \<not> (m > 0 \<and> int k > m) \<and> (x, p) \<in> include_rel (load files cd es) ^^ k)}"
  using set_reachable [of "gr_in (load files cd es)" p m False]
  by (simp add: transitive_to_def in_is_converse converse_relpow)

text \<open>Loading merges the database rows: a file's outgoing edges are sorted by target, one per
  target, and each carries the sum of the counts of the rows between the two files, over every
  configuration. Rows whose source file is unknown contribute nothing.\<close>

theorem load_merges_rows:
  "sorted (map ge_dst_path (direct_from (load files cd es) a))
   \<and> distinct (map ge_dst_path (direct_from (load files cd es) a))
   \<and> (\<forall>b. b \<in> ge_dst_path ` set (direct_from (load files cd es) a)
        \<longleftrightarrow> (\<exists>e \<in> set es. map_of files (ie_src_file_id e) = Some a \<and> ie_dst_path e = b))
   \<and> list_all (\<lambda>x. ge_src_path x = a \<and>
        ge_count x = sum_list (map ie_count
          (filter (\<lambda>e. map_of files (ie_src_file_id e) = Some a \<and> ie_dst_path e = ge_dst_path x) es)))
        (direct_from (load files cd es) a)"
  (is "?sorted \<and> ?distinct \<and> ?targets \<and> ?counts")
proof -
  let ?rows = "concat (map (edge_row files cd) es)"
  have m: "out_end.merged a (direct_from (load files cd es) a)"
    and t: "\<And>q. out_end.total q (direct_from (load files cd es) a) = out_end.total q (filter (\<lambda>r. ge_src_path r = a) ?rows)"
    using load_represents(1) [of files cd es] by (auto simp: out_end.represents_def direct_from_def)
  have rows: "out_end.total q (filter (\<lambda>r. ge_src_path r = a) ?rows) = sum_list (map ie_count
      (filter (\<lambda>e. map_of files (ie_src_file_id e) = Some a \<and> ie_dst_path e = q) es))" for q
    by (induction es) (auto simp: out_end.total_def edge_row_def split: option.splits)
  have "ge_count x = out_end.total (ge_dst_path x) (direct_from (load files cd es) a)"
    if "x \<in> set (direct_from (load files cd es) a)" for x
    using that m sum_filter_single [of ge_dst_path _ x ge_count]
    by (simp add: out_end.total_def out_end.merged_def)
  with t rows m have ?distinct ?counts by (auto simp: out_end.merged_def list_all_iff)
  moreover have ?targets
    using edges_out_load [of a _ files cd es] by (simp add: edges_def nexts_def direct_from_def)
  moreover have ?sorted
    by (auto simp: direct_from_def adj_at_def load_def Let_def sort_by_far_end_def map_of_map split: option.splits)
  ultimately show ?thesis by blast
qed

text \<open>(C38) The impact set of a header is exactly the set of other files that reach it through at most
  \<^verbatim>\<open>max_depth\<close> includes, or through any number when the bound is not positive; the answer is in
  path order without repetition, also when the graph has cycles.\<close>

theorem transitive_to_is_impact:
  "set (transitive_to (load files cd es) p m)
     = {x. x \<noteq> p \<and> (\<exists>k. \<not> (m > 0 \<and> int k > m) \<and> (x, p) \<in> include_rel (load files cd es) ^^ k)}
   \<and> sorted (transitive_to (load files cd es) p m) \<and> distinct (transitive_to (load files cd es) p m)"
  by (simp add: set_transitive_to) (simp add: transitive_to_def reachable_def)

text \<open>The forward closure of a file is exactly the set of other files it reaches within the bound.\<close>

theorem transitive_from_is_closure:
  "set (transitive_from g p m) = {x. x \<noteq> p \<and> (\<exists>k. \<not> (m > 0 \<and> int k > m) \<and> (p, x) \<in> include_rel g ^^ k)}
   \<and> sorted (transitive_from g p m) \<and> distinct (transitive_from g p m)"
  using set_reachable [of "gr_out g" p m True]
  by (simp add: transitive_from_def) (simp add: reachable_def)

text \<open>(C21) The explanation of an include always terminates with an answer: when the target is reachable it
  is a chain of includes from the first file to the last, and no chain between them is shorter; when the
  target is not reachable it is empty.\<close>

theorem shortest_path_correct:
  assumes "a = b \<Longrightarrow> has_node g a"
  shows "\<exists>c. shortest_path g a b = Some c \<and>
    (if (a, b) \<in> (include_rel g)\<^sup>*
     then c \<noteq> [] \<and> hd c = a \<and> last c = b \<and> successively (\<lambda>x y. (x, y) \<in> include_rel g) c
          \<and> (\<forall>k. (a, b) \<in> include_rel g ^^ k \<longrightarrow> length c \<le> Suc k)
     else c = [])"
proof (cases "a = b")
  case True
  with assms show ?thesis by (simp add: shortest_path_def)
next
  case False
  from shortest_path_found [OF this, of g] show ?thesis by (simp only: include_chain_def conj_assoc)
qed

definition sample_rows :: "IncludeEdge list" where
  "sample_rows = map (\<lambda>(s, d). \<lparr>ie_id = 0, ie_src_file_id = s, ie_config_id = 1, ie_dst_path = d, ie_dst_file_id = None,
     ie_is_system = False, ie_is_generated = False, ie_count = 1\<rparr>) [(1, ''b.h''), (2, ''c.h''), (1, ''c.h''), (3, ''a.c'')]"

definition sample_graph :: IncludeGraph where
  "sample_graph = load [(1, ''a.c''), (2, ''b.h''), (3, ''c.h'')] (\<lambda>_. Some ''d'') sample_rows"

text \<open>In a cyclic graph of three files the chain from a.c to c.h is the direct include.\<close>

theorem shortest_path_correct_witness:
  "\<exists>c. shortest_path sample_graph ''a.c'' ''c.h'' = Some c \<and> c \<noteq> [] \<and> hd c = ''a.c'' \<and> last c = ''c.h''"
proof -
  have "(''a.c'', ''c.h'') \<in> include_rel sample_graph"
    unfolding sample_graph_def by (simp add: edges_out_load sample_rows_def)
  then have "(''a.c'', ''c.h'') \<in> (include_rel sample_graph)\<^sup>*" by blast
  with shortest_path_correct [of "''a.c''" "''c.h''" sample_graph] show ?thesis by auto
qed

end
