(* ===== verification/Json_Min.thy ===== *)
theory Json_Min
  imports Prelude
begin

text \<open>
  The string-array codec of \<^verbatim>\<open>util/json_min.cpp\<close>, which stores compile options
  in the database. The cursor \<^verbatim>\<open>i\<close> into the text of size \<open>n\<close> is the
  remaining suffix \<open>r\<close>, so that \<^verbatim>\<open>i\<close> is \<open>n - length r\<close>; unsigned code
  points never reach \<^verbatim>\<open>2^32\<close> and are naturals with bit operations.
\<close>

unbundle bit_operations_syntax

subsection \<open>Decoder\<close>

datatype json_error = Json_fail string nat

definition json_fail :: "nat \<Rightarrow> string \<Rightarrow> string \<Rightarrow> json_error + 'a" where
  "json_fail n what r = Inl (Json_fail what (n - length r))"

definition is_ws :: "char \<Rightarrow> bool" where
  "is_ws c \<longleftrightarrow> c = CHR '' '' \<or> c = CHR 0x09 \<or> c = CHR 0x0A \<or> c = CHR 0x0D"

definition skip_ws :: "string \<Rightarrow> string" where
  "skip_ws r = dropWhile is_ws r"

definition append_utf8 :: "string \<Rightarrow> nat \<Rightarrow> string" where
  "append_utf8 out cp =
     (if cp < 0x80 then out @ [char_of cp]
      else if cp < 0x800 then
        out @ [char_of (0xC0 OR drop_bit 6 cp), char_of (0x80 OR (cp AND 0x3F))]
      else if cp < 0x10000 then
        out @ [char_of (0xE0 OR drop_bit 12 cp), char_of (0x80 OR (drop_bit 6 cp AND 0x3F)),
               char_of (0x80 OR (cp AND 0x3F))]
      else
        out @ [char_of (0xF0 OR drop_bit 18 cp), char_of (0x80 OR (drop_bit 12 cp AND 0x3F)),
               char_of (0x80 OR (drop_bit 6 cp AND 0x3F)), char_of (0x80 OR (cp AND 0x3F))])"

definition hex_digit :: "char \<Rightarrow> nat option" where
  "hex_digit c =
     (if CHR ''0'' \<le> c \<and> c \<le> CHR ''9'' then Some (of_char c - 48)
      else if CHR ''a'' \<le> c \<and> c \<le> CHR ''f'' then Some (of_char c - 97 + 10)
      else if CHR ''A'' \<le> c \<and> c \<le> CHR ''F'' then Some (of_char c - 65 + 10)
      else None)"

fun hex_digits :: "nat \<Rightarrow> string \<Rightarrow> nat option" where
  "hex_digits v [] = Some v"
| "hex_digits v (c # cs) =
     (case hex_digit c of None \<Rightarrow> None | Some d \<Rightarrow> hex_digits (push_bit 4 v OR d) cs)"

definition parse_hex4 :: "nat \<Rightarrow> string \<Rightarrow> json_error + nat \<times> string" where
  "parse_hex4 n r =
     (if length r < 4 then json_fail n ''truncated u escape'' r
      else case hex_digits 0 (take 4 r) of
             None \<Rightarrow> json_fail n ''bad hex digit in u escape'' r
           | Some v \<Rightarrow> Inr (v, drop 4 r))"

lemma parse_hex4_shorter: "parse_hex4 n r = Inr (v, r') \<Longrightarrow> length r' < length r"
  by (auto simp: parse_hex4_def json_fail_def split: if_splits option.splits)

text \<open>
  The code point of an escape after \<^verbatim>\<open>\u\<close>: a high surrogate followed by another
  escape is paired, or left alone when that escape is no low surrogate.
\<close>

definition parse_escape :: "nat \<Rightarrow> string \<Rightarrow> json_error + nat \<times> string" where
  "parse_escape n r =
     bindE (parse_hex4 n r) (\<lambda>(cp, r1).
       if 0xD800 \<le> cp \<and> cp \<le> 0xDBFF \<and> take 2 r1 = [CHR 0x5C, CHR ''u''] then
         bindE (parse_hex4 n (drop 2 r1)) (\<lambda>(lo, r2).
           if 0xDC00 \<le> lo \<and> lo \<le> 0xDFFF
           then Inr (0x10000 + push_bit 10 (cp - 0xD800) + (lo - 0xDC00), r2)
           else Inr (cp, r1))
       else Inr (cp, r1))"

lemma parse_escape_shorter: "parse_escape n r = Inr (v, r') \<Longrightarrow> length r' < length r"
  by (auto simp: parse_escape_def bindE_Inr_iff split: if_splits dest!: parse_hex4_shorter)

definition simple_escape :: "char \<Rightarrow> char option" where
  "simple_escape e =
     (if e = CHR 0x22 then Some (CHR 0x22)
      else if e = CHR 0x5C then Some (CHR 0x5C)
      else if e = CHR ''/'' then Some (CHR ''/'')
      else if e = CHR ''b'' then Some (CHR 0x08)
      else if e = CHR ''f'' then Some (CHR 0x0C)
      else if e = CHR ''n'' then Some (CHR 0x0A)
      else if e = CHR ''r'' then Some (CHR 0x0D)
      else if e = CHR ''t'' then Some (CHR 0x09)
      else None)"

function parse_string_loop :: "nat \<Rightarrow> string \<Rightarrow> string \<Rightarrow> json_error + string \<times> string" where
  "parse_string_loop n out [] = json_fail n ''unterminated string'' []"
| "parse_string_loop n out (c # cs) =
     (if c = CHR 0x22 then Inr (out, cs)
      else if c \<noteq> CHR 0x5C then parse_string_loop n (out @ [c]) cs
      else case cs of
             [] \<Rightarrow> json_fail n ''truncated escape'' []
           | e # r \<Rightarrow>
               (case simple_escape e of
                  Some x \<Rightarrow> parse_string_loop n (out @ [x]) r
                | None \<Rightarrow>
                    if e = CHR ''u'' then
                      bindE (parse_escape n r) (\<lambda>(cp, r'). parse_string_loop n (append_utf8 out cp) r')
                    else json_fail n ''unknown escape'' cs))"
  by pat_completeness auto
termination
  by (relation "measure (\<lambda>(n, out, r). length r)") (auto dest!: parse_escape_shorter)

definition parse_string :: "nat \<Rightarrow> string \<Rightarrow> json_error + string \<times> string" where
  "parse_string n r =
     (if r = [] \<or> hd r \<noteq> CHR 0x22 then json_fail n ''expected string'' r
      else parse_string_loop n [] (tl r))"

declare parse_string_loop.simps(2) [simp del]

lemma parse_string_loop_plain:
  "parse_string_loop n out (CHR 0x22 # cs) = Inr (out, cs)"
  "c \<noteq> CHR 0x22 \<Longrightarrow> c \<noteq> CHR 0x5C \<Longrightarrow>
     parse_string_loop n out (c # cs) = parse_string_loop n (out @ [c]) cs"
  by (simp_all add: parse_string_loop.simps(2))

lemma parse_string_loop_simple:
  "simple_escape e = Some x \<Longrightarrow>
     parse_string_loop n out (CHR 0x5C # e # r) = parse_string_loop n (out @ [x]) r"
  by (simp add: parse_string_loop.simps(2))

lemma parse_string_loop_u:
  "parse_string_loop n out (CHR 0x5C # CHR ''u'' # r) =
     bindE (parse_escape n r) (\<lambda>(cp, r'). parse_string_loop n (append_utf8 out cp) r')"
  by (simp add: parse_string_loop.simps(2) simple_escape_def)

lemma parse_string_loop_bad:
  "parse_string_loop n out [CHR 0x5C] = json_fail n ''truncated escape'' []"
  "simple_escape e = None \<Longrightarrow> e \<noteq> CHR ''u'' \<Longrightarrow>
     parse_string_loop n out (CHR 0x5C # e # r) = json_fail n ''unknown escape'' (e # r)"
  by (simp_all add: parse_string_loop.simps(2))

lemmas parse_string_loop_simps =
  parse_string_loop_plain parse_string_loop_simple parse_string_loop_u parse_string_loop_bad

lemma parse_string_loop_shorter:
  "parse_string_loop n out r = Inr (s, r') \<Longrightarrow> length r' < length r"
proof (induction r arbitrary: out rule: measure_induct_rule [of length])
  case (less r)
  show ?case
  proof (cases r)
    case (Cons c cs)
    consider "c = CHR 0x22" | "c \<noteq> CHR 0x22" "c \<noteq> CHR 0x5C" | "c = CHR 0x5C" by blast
    then show ?thesis
    proof cases
      case 3
      show ?thesis
      proof (cases cs)
        case (Cons e q)
        show ?thesis
        proof (cases "simple_escape e = None \<and> e = CHR ''u''")
          case True
          with 3 Cons \<open>r = c # cs\<close> less.prems obtain cp q' where
            "parse_escape n q = Inr (cp, q')" "parse_string_loop n (append_utf8 out cp) q' = Inr (s, r')"
            by (auto simp: parse_string_loop_u bindE_Inr_iff)
          moreover have "length q' < length q" by (rule parse_escape_shorter) fact
          ultimately have "length r' < length q'"
            using less.IH [of q'] 3 Cons \<open>r = c # cs\<close> by simp
          with \<open>length q' < length q\<close> show ?thesis using 3 Cons \<open>r = c # cs\<close> by simp
        next
          case False
          then obtain x where "simple_escape e = Some x"
            using 3 Cons \<open>r = c # cs\<close> less.prems
            by (cases "simple_escape e") (auto simp: parse_string_loop_bad json_fail_def)
          with 3 Cons \<open>r = c # cs\<close> less.prems less.IH [of q "out @ [x]"] show ?thesis
            by (simp add: parse_string_loop_simple)
        qed
      qed (use 3 Cons less.prems in \<open>simp add: parse_string_loop_bad json_fail_def\<close>)
    qed (use Cons less in \<open>fastforce simp: parse_string_loop_plain\<close>)+
  qed (use less.prems in \<open>simp add: json_fail_def\<close>)
qed

lemma parse_string_shorter: "parse_string n r = Inr (s, r') \<Longrightarrow> length r' < length r"
  by (auto simp: parse_string_def json_fail_def split: if_splits dest!: parse_string_loop_shorter)

lemma skip_ws_shorter: "length (skip_ws r) \<le> length r"
  by (simp add: skip_ws_def length_dropWhile_le)

function parse_items :: "nat \<Rightarrow> string list \<Rightarrow> string \<Rightarrow> json_error + string list \<times> string" where
  "parse_items n items r =
     (let r1 = skip_ws r in
      if r1 = [] \<or> hd r1 \<noteq> CHR 0x22 then json_fail n ''array element is not a string'' r1
      else bindE (parse_string n r1) (\<lambda>(s, r2).
        let r3 = skip_ws r2 in
        if r3 = [] then json_fail n ''unterminated array'' r3
        else if hd r3 = CHR '','' then parse_items n (items @ [s]) (tl r3)
        else if hd r3 = CHR '']'' then Inr (items @ [s], tl r3)
        else json_fail n ''expected comma or bracket'' r3))"
  by pat_completeness auto
termination
proof (relation "measure (\<lambda>(n, items, r). length r)", goal_cases)
  case (2 n items r x y s r2 z)
  have "length (skip_ws r) \<le> length r" "length (skip_ws r2) \<le> length r2" by (rule skip_ws_shorter)+
  moreover have "length r2 < length (skip_ws r)" using 2 by (auto dest: parse_string_shorter)
  ultimately show ?case using 2 by auto
qed simp

declare parse_items.simps [simp del]

definition decode_string_array :: "string \<Rightarrow> json_error + string list" where
  "decode_string_array text =
     (let n = length text; r = skip_ws text in
      if r = [] \<or> hd r \<noteq> CHR ''['' then json_fail n ''payload is not a JSON array'' r
      else let r1 = skip_ws (tl r) in
        bindE (if r1 \<noteq> [] \<and> hd r1 = CHR '']'' then Inr ([], tl r1) else parse_items n [] r1)
          (\<lambda>(items, r2).
             let r3 = skip_ws r2 in
             if r3 \<noteq> [] then json_fail n ''trailing data after array'' r3 else Inr items))"

subsection \<open>Encoder\<close>

definition hex_char :: "nat \<Rightarrow> char" where
  "hex_char d = (if d < 10 then char_of (48 + d) else char_of (87 + d))"

text \<open>\<^verbatim>\<open>snprintf("\\u%04x")\<close> for a value below \<^verbatim>\<open>2^16\<close>.\<close>

definition u_escape :: "nat \<Rightarrow> string" where
  "u_escape v = [CHR 0x5C, CHR ''u'', hex_char (drop_bit 12 v AND 15), hex_char (drop_bit 8 v AND 15),
     hex_char (drop_bit 4 v AND 15), hex_char (v AND 15)]"

definition escape_control :: "char \<Rightarrow> char option" where
  "escape_control c =
     (if c = CHR 0x22 then Some (CHR 0x22)
      else if c = CHR 0x5C then Some (CHR 0x5C)
      else if c = CHR 0x08 then Some (CHR ''b'')
      else if c = CHR 0x0C then Some (CHR ''f'')
      else if c = CHR 0x0A then Some (CHR ''n'')
      else if c = CHR 0x0D then Some (CHR ''r'')
      else if c = CHR 0x09 then Some (CHR ''t'')
      else None)"

definition encode_char :: "char \<Rightarrow> string" where
  "encode_char ch =
     (case escape_control ch of
        Some e \<Rightarrow> [CHR 0x5C, e]
      | None \<Rightarrow> if (of_char ch :: nat) < 0x20 then u_escape (of_char ch) else [ch])"

definition encode_item :: "string \<Rightarrow> string" where
  "encode_item item = CHR 0x22 # concat (map encode_char item) @ [CHR 0x22]"

fun encode_items :: "bool \<Rightarrow> string list \<Rightarrow> string" where
  "encode_items first [] = []"
| "encode_items first (item # items) =
     (if first then [] else '','') @ encode_item item @ encode_items False items"

definition encode_string_array :: "string list \<Rightarrow> string" where
  "encode_string_array items = CHR ''['' # encode_items True items @ '']''"

subsection \<open>Hexadecimal escapes\<close>

lemma and_15_eq_mod: "(v::nat) AND 15 = v mod 16"
  using take_bit_eq_mask [of 4 v] by (simp add: take_bit_eq_mod mask_eq_exp_minus_1)

lemma push_bit_or_add:
  assumes "(d::nat) < 2 ^ k"
  shows "push_bit k x OR d = 2 ^ k * x + d"
proof -
  have "bit d n \<Longrightarrow> n < k" for n
    using assms by (metis bit_take_bit_iff take_bit_nat_eq_self)
  then have "push_bit k x + d = push_bit k x OR d"
    by (intro disjunctive_add) (meson bit_push_bit_iff leD)
  then show ?thesis by (simp add: push_bit_eq_mult mult.commute)
qed

lemma hex_digit_hex_char:
  assumes "d < 16"
  shows "hex_digit (hex_char d) = Some d"
proof -
  have "\<forall>d \<in> set [0..<16]. hex_digit (hex_char d) = Some d" by code_simp
  with assms show ?thesis by simp
qed

lemma parse_hex4_u_escape:
  assumes "v < 65536"
  shows "parse_hex4 n (drop 2 (u_escape v) @ r) = Inr (v, r)"
proof -
  have "16 * (16 * (16 * (v div 4096 mod 16) + v div 256 mod 16) + v div 16 mod 16) + v mod 16 = v"
  proof -
    have "v div 4096 mod 16 = v div 16 div 16 div 16" "v div 256 = v div 16 div 16"
      using assms by (simp_all add: div_mult2_eq [symmetric])
    then show ?thesis by (simp only: mult_div_mod_eq)
  qed
  moreover have "v div 4096 < 16" using assms by simp
  ultimately show ?thesis
    using push_bit_or_add [of _ 4]
    by (simp add: parse_hex4_def u_escape_def and_15_eq_mod drop_bit_eq_div hex_digit_hex_char)
qed

lemma u_escape_Cons: "u_escape v = CHR 0x5C # CHR ''u'' # drop 2 (u_escape v)"
  by (simp add: u_escape_def)

lemma parse_escape_plain:
  assumes "v < 65536" "\<not> (0xD800 \<le> v \<and> v \<le> 0xDBFF)"
  shows "parse_escape n (drop 2 (u_escape v) @ r) = Inr (v, r)"
  using assms by (auto simp: parse_escape_def parse_hex4_u_escape)

lemma parse_string_loop_u_escape:
  assumes "v < 65536" "\<not> (0xD800 \<le> v \<and> v \<le> 0xDBFF)"
  shows "parse_string_loop n out (u_escape v @ r) = parse_string_loop n (append_utf8 out v) r"
  by (subst u_escape_Cons) (simp add: parse_string_loop_u parse_escape_plain [OF assms])

subsection \<open>Round trip\<close>

lemma escape_control_inverse: "escape_control c = Some e \<Longrightarrow> simple_escape e = Some c"
  by (auto simp: escape_control_def simple_escape_def split: if_splits)

lemma escape_control_None: "escape_control c = None \<Longrightarrow> c \<noteq> CHR 0x22 \<and> c \<noteq> CHR 0x5C"
  by (auto simp: escape_control_def split: if_splits)

lemma parse_encode_char:
  "parse_string_loop n out (encode_char c @ r) = parse_string_loop n (out @ [c]) r"
proof (cases "escape_control c")
  case None
  then show ?thesis
    using escape_control_None [OF None]
    by (simp add: encode_char_def parse_string_loop_u_escape append_utf8_def parse_string_loop_plain)
next
  case (Some e)
  then show ?thesis
    by (simp add: encode_char_def parse_string_loop_simple [OF escape_control_inverse])
qed

lemma parse_encode_chars:
  "parse_string_loop n out (concat (map encode_char s) @ CHR 0x22 # r) = Inr (out @ s, r)"
  by (induction s arbitrary: out) (simp_all add: parse_encode_char parse_string_loop_plain)

lemma parse_encode_item: "parse_string n (encode_item s @ r) = Inr (s, r)"
  by (simp add: parse_string_def encode_item_def parse_encode_chars)

lemma skip_ws_encode_item [simp]: "skip_ws (encode_item s @ r) = encode_item s @ r"
  by (simp add: skip_ws_def encode_item_def is_ws_def)

lemma skip_ws_stop [simp]:
  "skip_ws [] = []" "\<not> is_ws c \<Longrightarrow> skip_ws (c # r) = c # r"
  by (simp_all add: skip_ws_def)

lemma not_ws [simp]:
  "\<not> is_ws (CHR '','')" "\<not> is_ws (CHR '']'')" "\<not> is_ws (CHR ''['')" "\<not> is_ws (CHR 0x22)"
  "\<not> is_ws (CHR ''{'')" "\<not> is_ws (CHR ''}'')" "\<not> is_ws (CHR '':'')"
  by (simp_all add: is_ws_def)

lemma encode_item_head [simp]: "hd (encode_item x @ t) = CHR 0x22" "encode_item x @ t \<noteq> []"
  by (simp_all add: encode_item_def)

lemma parse_items_encode:
  "parse_items n items (encode_item x @ encode_items False xs @ CHR '']'' # r) = Inr (items @ x # xs, r)"
proof (induction xs arbitrary: items x)
  case Nil
  then show ?case by (subst parse_items.simps) (simp add: parse_encode_item Let_def)
next
  case (Cons y ys)
  then show ?case by (subst parse_items.simps) (simp add: parse_encode_item Let_def)
qed

text \<open>
  The stored-options codec : decoding what \<^verbatim>\<open>encode_string_array\<close> wrote
  returns the strings, for every list of byte strings, control characters and
  bytes that are no UTF-8 included.
\<close>

theorem string_array_roundtrip: "decode_string_array (encode_string_array items) = Inr items"
proof (cases items)
  case Nil
  then show ?thesis by (simp add: decode_string_array_def encode_string_array_def Let_def)
next
  case (Cons x xs)
  then show ?thesis
    using parse_items_encode [of _ "[]" x xs "[]"]
    by (simp add: decode_string_array_def encode_string_array_def Let_def)
qed

end
