(* ===== verification/Json_Value.thy ===== *)
theory Json_Value
  imports Json_Min
begin

text \<open>
  The JSON value tree and its two printers (\<^verbatim>\<open>cli/json_out.cpp\<close>):
  \<^verbatim>\<open>dumps_indent2\<close>, the byte replica of CPython's indented dump, and
  \<^verbatim>\<open>dumps_compact\<close> for line protocols. Strings are UTF-8 bytes, printed as
  pure ASCII.
\<close>

datatype jvalue =
    JNull
  | JBool bool
  | JInt int
  | JStr string
  | JArr "jvalue list"
  | JObj "(string \<times> jvalue) list"

subsection \<open>String escaping\<close>

definition encode_ascii :: "char \<Rightarrow> string" where
  "encode_ascii c =
     (case escape_control c of
        Some e \<Rightarrow> [CHR 0x5C, e]
      | None \<Rightarrow> if (of_char c :: nat) < 0x20 then u_escape (of_char c) else [c])"

definition utf8_lead :: "nat \<Rightarrow> (nat \<times> nat) option" where
  "utf8_lead c =
     (if c AND 0xE0 = 0xC0 then Some (c AND 0x1F, 1)
      else if c AND 0xF0 = 0xE0 then Some (c AND 0x0F, 2)
      else if c AND 0xF8 = 0xF0 then Some (c AND 0x07, 3)
      else None)"

fun utf8_tail :: "nat \<Rightarrow> nat \<Rightarrow> string \<Rightarrow> nat \<times> string" where
  "utf8_tail 0 codepoint p = (codepoint, p)"
| "utf8_tail (Suc remaining) codepoint [] = (codepoint, [])"
| "utf8_tail (Suc remaining) codepoint (c # p) =
     (if of_char c AND 0xC0 \<noteq> (0x80::nat) then (codepoint, c # p)
      else utf8_tail remaining (push_bit 6 codepoint OR (of_char c AND 0x3F)) p)"

definition escape_codepoint :: "nat \<Rightarrow> string" where
  "escape_codepoint codepoint =
     (if codepoint \<le> 0xFFFF then u_escape codepoint
      else let cp = codepoint - 0x10000
           in u_escape (0xD800 + (drop_bit 10 cp AND 0x3FF)) @ u_escape (0xDC00 + (cp AND 0x3FF)))"

lemma utf8_tail_shorter: "length (snd (utf8_tail k cp p)) \<le> length p"
  by (induction k cp p rule: utf8_tail.induct) auto

function encode_bytes :: "string \<Rightarrow> string" where
  "encode_bytes [] = []"
| "encode_bytes (c # p) =
     (if (of_char c :: nat) < 0x80 then encode_ascii c @ encode_bytes p
      else case utf8_lead (of_char c) of
             None \<Rightarrow> u_escape 0xFFFD @ encode_bytes p
           | Some (codepoint, remaining) \<Rightarrow>
               escape_codepoint (fst (utf8_tail remaining codepoint p))
                 @ encode_bytes (snd (utf8_tail remaining codepoint p)))"
  by pat_completeness auto
termination
  by (relation "measure length") (auto simp: utf8_tail_shorter le_imp_less_Suc)

definition encode_string :: "string \<Rightarrow> string" where
  "encode_string s = CHR 0x22 # encode_bytes s @ [CHR 0x22]"

subsection \<open>The printers\<close>

fun emit_lines :: "string \<Rightarrow> string list \<Rightarrow> string" where
  "emit_lines inner [] = []"
| "emit_lines inner [t] = inner @ t @ [CHR 0x0A]"
| "emit_lines inner (t # ts) = inner @ t @ '','' @ [CHR 0x0A] @ emit_lines inner ts"

definition emit_indent :: "nat \<Rightarrow> string" where
  "emit_indent depth = replicate (2 * depth) (CHR '' '')"

fun emit :: "jvalue \<Rightarrow> nat \<Rightarrow> string" where
  "emit JNull depth = ''null''"
| "emit (JBool b) depth = (if b then ''true'' else ''false'')"
| "emit (JInt i) depth = show_int i"
| "emit (JStr s) depth = encode_string s"
| "emit (JArr a) depth =
     (if a = [] then ''[]''
      else ''['' @ [CHR 0x0A] @ emit_lines (emit_indent (depth + 1)) (map (\<lambda>v. emit v (depth + 1)) a)
             @ emit_indent depth @ '']'')"
| "emit (JObj m) depth =
     (if m = [] then ''{}''
      else ''{'' @ [CHR 0x0A]
             @ emit_lines (emit_indent (depth + 1))
                 (map (\<lambda>(k, v). encode_string k @ '': '' @ emit v (depth + 1)) m)
             @ emit_indent depth @ ''}'')"

fun comma_join :: "string list \<Rightarrow> string" where
  "comma_join [] = []"
| "comma_join [t] = t"
| "comma_join (t # ts) = t @ '','' @ comma_join ts"

fun emit_compact :: "jvalue \<Rightarrow> string" where
  "emit_compact JNull = ''null''"
| "emit_compact (JBool b) = (if b then ''true'' else ''false'')"
| "emit_compact (JInt i) = show_int i"
| "emit_compact (JStr s) = encode_string s"
| "emit_compact (JArr a) = ''['' @ comma_join (map emit_compact a) @ '']''"
| "emit_compact (JObj m) =
     ''{'' @ comma_join (map (\<lambda>(k, v). encode_string k @ '':'' @ emit_compact v) m) @ ''}''"

definition dumps_indent2 :: "jvalue \<Rightarrow> string" where
  "dumps_indent2 v = emit v 0"

definition dumps_compact :: "jvalue \<Rightarrow> string" where
  "dumps_compact v = emit_compact v"

end
