(* ===== verification/Json_Read.thy ===== *)
theory Json_Read
  imports Json_Value
begin

text \<open>
  The strict reader of \<^verbatim>\<open>util/json_read.cpp\<close> and its agreement with the
  printers. The cursor is the remaining suffix, as in \<^verbatim>\<open>Json_Min\<close>. The
  recursive descent carries fuel; \<open>parse\<close> starts it with twice the length of
  the text plus one, which \<open>parse_never_out_of_fuel\<close> shows to be enough for every text.
\<close>

datatype read_error = Read_fail string nat | Out_of_fuel

definition kMaxDepth :: nat where "kMaxDepth = 100"

definition read_fail :: "nat \<Rightarrow> string \<Rightarrow> string \<Rightarrow> read_error + 'a" where
  "read_fail n msg r = Inl (Read_fail msg (n - length r))"

definition peek :: "string \<Rightarrow> char" where
  "peek r = (if r = [] then CHR 0x00 else hd r)"

definition expect :: "nat \<Rightarrow> char \<Rightarrow> string \<Rightarrow> read_error + string" where
  "expect n c r = (if r = [] \<or> hd r \<noteq> c then read_fail n (''expected '' @ [CHR 0x27, c, CHR 0x27]) r else Inr (tl r))"

definition literal :: "string \<Rightarrow> string \<Rightarrow> string option" where
  "literal word r = (if take (length word) r = word then Some (drop (length word) r) else None)"

fun hex4_loop :: "nat \<Rightarrow> nat \<Rightarrow> nat \<Rightarrow> string \<Rightarrow> read_error + nat \<times> string" where
  "hex4_loop n 0 cp r = Inr (cp, r)"
| "hex4_loop n (Suc k) cp r =
     (case hex_digit (hd r) of
        None \<Rightarrow> read_fail n (''bad hex digit in '' @ [CHR 0x5C] @ ''u escape'') r
      | Some d \<Rightarrow> hex4_loop n k (push_bit 4 cp OR d) (tl r))"

definition hex4 :: "nat \<Rightarrow> string \<Rightarrow> read_error + nat \<times> string" where
  "hex4 n r = (if length r < 4 then read_fail n (''truncated '' @ [CHR 0x5C] @ ''u escape'') r else hex4_loop n 4 0 r)"

definition read_escape :: "nat \<Rightarrow> string \<Rightarrow> read_error + nat \<times> string" where
  "read_escape n r =
     bindE (hex4 n r) (\<lambda>(cp, r1).
       if 0xD800 \<le> cp \<and> cp \<le> 0xDBFF \<and> take 2 r1 = [CHR 0x5C, CHR ''u''] then
         bindE (hex4 n (drop 2 r1)) (\<lambda>(lo, r2).
           if 0xDC00 \<le> lo \<and> lo \<le> 0xDFFF
           then Inr (0x10000 + push_bit 10 (cp - 0xD800) + (lo - 0xDC00), r2)
           else Inr (cp, r1))
       else Inr (cp, r1))"

lemma hex4_loop_length: "hex4_loop n k cp r = Inr (v, r') \<Longrightarrow> k \<le> length r \<Longrightarrow> length r' + k = length r"
  by (induction n k cp r rule: hex4_loop.induct) (auto simp: read_fail_def split: option.splits)

lemma hex4_length: "hex4 n r = Inr (v, r') \<Longrightarrow> length r' < length r"
  by (auto simp: hex4_def read_fail_def split: if_splits dest!: hex4_loop_length)

lemma read_escape_length: "read_escape n r = Inr (v, r') \<Longrightarrow> length r' < length r"
  by (auto simp: read_escape_def bindE_Inr_iff split: if_splits dest!: hex4_length)

function read_string_loop :: "nat \<Rightarrow> string \<Rightarrow> string \<Rightarrow> read_error + string \<times> string" where
  "read_string_loop n out [] = read_fail n ''unterminated string'' []"
| "read_string_loop n out (c # cs) =
     (if c = CHR 0x22 then Inr (out, cs)
      else if c \<noteq> CHR 0x5C then
        (if (of_char c :: nat) < 0x20 then read_fail n ''raw control character in string'' (c # cs)
         else read_string_loop n (out @ [c]) cs)
      else case cs of
             [] \<Rightarrow> read_fail n ''trailing backslash'' []
           | e # r \<Rightarrow>
               (case simple_escape e of
                  Some x \<Rightarrow> read_string_loop n (out @ [x]) r
                | None \<Rightarrow>
                    if e = CHR ''u'' then
                      bindE (read_escape n r) (\<lambda>(cp, r'). read_string_loop n (append_utf8 out cp) r')
                    else read_fail n ''unknown escape'' cs))"
  by pat_completeness auto
termination
  by (relation "measure (\<lambda>(n, out, r). length r)") (auto dest!: read_escape_length)

declare read_string_loop.simps(2) [simp del]

definition read_string :: "nat \<Rightarrow> string \<Rightarrow> read_error + string \<times> string" where
  "read_string n r = bindE (expect n (CHR 0x22) r) (\<lambda>r1. read_string_loop n [] r1)"

definition is_num_char :: "char \<Rightarrow> bool" where
  "is_num_char c \<longleftrightarrow> is_digit c \<or> c = CHR ''.'' \<or> c = CHR ''e'' \<or> c = CHR ''E''
     \<or> c = CHR ''+'' \<or> c = CHR ''-''"

text \<open>
  \<^verbatim>\<open>strtoll\<close> in base ten, with the caller's test that it consumed the whole
  text and set no \<^verbatim>\<open>errno\<close>: an optional sign, one or more digits, in range.
\<close>

definition strtoll_all :: "string \<Rightarrow> int option" where
  "strtoll_all text =
     (let neg = (text \<noteq> [] \<and> hd text = CHR ''-'');
          ds = (if text \<noteq> [] \<and> (hd text = CHR ''-'' \<or> hd text = CHR ''+'') then tl text else text);
          v = (if neg then - int (read_nat ds) else int (read_nat ds))
      in if ds \<noteq> [] \<and> list_all is_digit ds \<and> - (2 ^ 63) \<le> v \<and> v < 2 ^ 63 then Some v else None)"

definition parse_number :: "nat \<Rightarrow> string \<Rightarrow> read_error + jvalue \<times> string" where
  "parse_number n r =
     (let sign = (if peek r = CHR ''-'' then ''-'' else []);
          text = sign @ takeWhile is_num_char (drop (length sign) r);
          rest = drop (length text) r
      in if text = [] then read_fail n ''expected a value'' r
         else if \<exists>c \<in> set text. c = CHR ''.'' \<or> c = CHR ''e'' \<or> c = CHR ''E''
         then read_fail n (''non-integer number '' @ [CHR 0x27] @ text @ [CHR 0x27]) r
         else case strtoll_all text of
                None \<Rightarrow> read_fail n (''bad number '' @ [CHR 0x27] @ text @ [CHR 0x27]) r
              | Some v \<Rightarrow> Inr (JInt v, rest))"

fun put_member :: "string \<Rightarrow> jvalue \<Rightarrow> (string \<times> jvalue) list \<Rightarrow> (string \<times> jvalue) list" where
  "put_member key v [] = [(key, v)]"
| "put_member key v ((k, w) # members) =
     (if k = key then (k, v) # members else (k, w) # put_member key v members)"

definition parse_literal :: "nat \<Rightarrow> string \<Rightarrow> jvalue \<Rightarrow> string \<Rightarrow> read_error + jvalue \<times> string" where
  "parse_literal n word v r =
     (case literal word r of Some r' \<Rightarrow> Inr (v, r') | None \<Rightarrow> read_fail n ''bad literal'' r)"

function (sequential) parse_value :: "nat \<Rightarrow> nat \<Rightarrow> nat \<Rightarrow> string \<Rightarrow> read_error + jvalue \<times> string"
  and object_loop :: "nat \<Rightarrow> nat \<Rightarrow> nat \<Rightarrow> (string \<times> jvalue) list \<Rightarrow> string \<Rightarrow> read_error + jvalue \<times> string"
  and array_loop :: "nat \<Rightarrow> nat \<Rightarrow> nat \<Rightarrow> jvalue list \<Rightarrow> string \<Rightarrow> read_error + jvalue \<times> string"
where
  "parse_value 0 n depth r = Inl Out_of_fuel"
| "parse_value (Suc fuel) n depth r =
     (if depth > kMaxDepth then read_fail n ''nesting deeper than 100'' r
      else if peek r = CHR ''{'' then
        bindE (expect n (CHR ''{'') r) (\<lambda>r1.
          let r2 = skip_ws r1 in
          if peek r2 = CHR ''}'' then Inr (JObj [], tl r2) else object_loop fuel n depth [] r2)
      else if peek r = CHR ''['' then
        bindE (expect n (CHR ''['') r) (\<lambda>r1.
          let r2 = skip_ws r1 in
          if peek r2 = CHR '']'' then Inr (JArr [], tl r2) else array_loop fuel n depth [] r2)
      else if peek r = CHR 0x22 then bindE (read_string n r) (\<lambda>(s, r1). Inr (JStr s, r1))
      else if peek r = CHR ''t'' then parse_literal n ''true'' (JBool True) r
      else if peek r = CHR ''f'' then parse_literal n ''false'' (JBool False) r
      else if peek r = CHR ''n'' then parse_literal n ''null'' JNull r
      else parse_number n r)"
| "object_loop 0 n depth members r = Inl Out_of_fuel"
| "object_loop (Suc fuel) n depth members r =
     (let r1 = skip_ws r in
      if peek r1 \<noteq> CHR 0x22 then read_fail n ''object key must be a string'' r1
      else bindE (read_string n r1) (\<lambda>(key, r2).
        bindE (expect n (CHR '':'') (skip_ws r2)) (\<lambda>r3.
          bindE (parse_value fuel n (depth + 1) (skip_ws r3)) (\<lambda>(v, r4).
            let members' = put_member key v members; r5 = skip_ws r4 in
            if peek r5 = CHR '','' then object_loop fuel n depth members' (tl r5)
            else bindE (expect n (CHR ''}'') r5) (\<lambda>r6. Inr (JObj members', r6))))))"
| "array_loop 0 n depth items r = Inl Out_of_fuel"
| "array_loop (Suc fuel) n depth items r =
     bindE (parse_value fuel n (depth + 1) (skip_ws r)) (\<lambda>(v, r1).
       let items' = items @ [v]; r2 = skip_ws r1 in
       if peek r2 = CHR '','' then array_loop fuel n depth items' (tl r2)
       else bindE (expect n (CHR '']'') r2) (\<lambda>r3. Inr (JArr items', r3)))"
  by pat_completeness auto
termination
  by (relation "measure (case_sum fst (case_sum fst fst))") simp_all

definition parse_document :: "nat \<Rightarrow> string \<Rightarrow> read_error + jvalue" where
  "parse_document fuel text =
     (let n = length text in
      bindE (parse_value fuel n 0 (skip_ws text)) (\<lambda>(v, r).
        let r1 = skip_ws r in
        if r1 \<noteq> [] then read_fail n ''trailing data after top-level value'' r1 else Inr v))"

definition parse :: "string \<Rightarrow> read_error + jvalue" where
  "parse text = parse_document (2 * length text + 1) text"

subsection \<open>The reader consumes its input and never runs out of fuel\<close>

lemma expect_length: "expect n c r = Inr r' \<Longrightarrow> length r = Suc (length r')"
  by (cases r) (auto simp: expect_def read_fail_def split: if_splits)

lemma read_string_loop_plain:
  "read_string_loop n out (CHR 0x22 # cs) = Inr (out, cs)"
  "c \<noteq> CHR 0x22 \<Longrightarrow> c \<noteq> CHR 0x5C \<Longrightarrow> \<not> (of_char c :: nat) < 0x20 \<Longrightarrow>
     read_string_loop n out (c # cs) = read_string_loop n (out @ [c]) cs"
  "c \<noteq> CHR 0x22 \<Longrightarrow> c \<noteq> CHR 0x5C \<Longrightarrow> (of_char c :: nat) < 0x20 \<Longrightarrow>
     read_string_loop n out (c # cs) = read_fail n ''raw control character in string'' (c # cs)"
  by (simp_all add: read_string_loop.simps(2))

lemma read_string_loop_escape:
  "simple_escape e = Some x \<Longrightarrow>
     read_string_loop n out (CHR 0x5C # e # r) = read_string_loop n (out @ [x]) r"
  "read_string_loop n out (CHR 0x5C # CHR ''u'' # r) =
     bindE (read_escape n r) (\<lambda>(cp, r'). read_string_loop n (append_utf8 out cp) r')"
  "simple_escape e = None \<Longrightarrow> e \<noteq> CHR ''u'' \<Longrightarrow>
     read_string_loop n out (CHR 0x5C # e # r) = read_fail n ''unknown escape'' (e # r)"
  "read_string_loop n out [CHR 0x5C] = read_fail n ''trailing backslash'' []"
  by (simp_all add: read_string_loop.simps(2) simple_escape_def)

lemma read_string_loop_length:
  "read_string_loop n out r = Inr (s, r') \<Longrightarrow> length r' < length r"
proof (induction r arbitrary: out rule: measure_induct_rule [of length])
  case (less r)
  show ?case
  proof (cases r)
    case r: (Cons c cs)
    consider "c = CHR 0x22" | "c \<noteq> CHR 0x22" "c \<noteq> CHR 0x5C" | "c = CHR 0x5C" by blast
    then show ?thesis
    proof cases
      case 1
      with r less.prems show ?thesis by (simp add: read_string_loop_plain)
    next
      case 2
      with r less.prems have "read_string_loop n (out @ [c]) cs = Inr (s, r')"
        by (cases "(of_char c :: nat) < 0x20") (simp_all add: read_string_loop_plain read_fail_def)
      with r less.IH [of cs "out @ [c]"] show ?thesis by simp
    next
      case 3
      show ?thesis
      proof (cases cs)
        case Nil
        with 3 r less.prems show ?thesis by (simp add: read_string_loop_escape read_fail_def)
      next
        case cs: (Cons e q)
        consider x where "simple_escape e = Some x" | "simple_escape e = None" "e = CHR ''u''"
          | "simple_escape e = None" "e \<noteq> CHR ''u''" by fastforce
        then show ?thesis
        proof cases
          case (1 x)
          with 3 r cs less.prems less.IH [of q "out @ [x]"] show ?thesis
            by (simp add: read_string_loop_escape)
        next
          case 2
          with 3 r cs less.prems obtain cp q' where
            "read_escape n q = Inr (cp, q')" "read_string_loop n (append_utf8 out cp) q' = Inr (s, r')"
            by (auto simp: read_string_loop_escape bindE_Inr_iff)
          with r cs less.IH [of q' "append_utf8 out cp"] read_escape_length [of n q] show ?thesis by fastforce
        next
          case 3
          with \<open>c = CHR 0x5C\<close> r cs less.prems show ?thesis
            by (simp add: read_string_loop_escape read_fail_def)
        qed
      qed
    qed
  qed (use less.prems in \<open>simp add: read_fail_def\<close>)
qed

lemma read_string_length: "read_string n r = Inr (s, r') \<Longrightarrow> length r' < length r"
  by (auto simp: read_string_def bindE_Inr_iff dest!: expect_length read_string_loop_length)

lemma parse_number_length:
  assumes "parse_number n r = Inr (v, r')"
  shows "length r' < length r"
proof -
  have "parse_number n [] = read_fail n ''expected a value'' []"
    by (simp add: parse_number_def peek_def)
  with assms have r: "r \<noteq> []" by (auto simp: read_fail_def)
  define tx where "tx = (let sign = (if peek r = CHR ''-'' then ''-'' else [])
    in sign @ takeWhile is_num_char (drop (length sign) r))"
  have "parse_number n r =
    (if tx = [] then read_fail n ''expected a value'' r
     else if \<exists>c \<in> set tx. c = CHR ''.'' \<or> c = CHR ''e'' \<or> c = CHR ''E''
     then read_fail n (''non-integer number '' @ [CHR 0x27] @ tx @ [CHR 0x27]) r
     else case strtoll_all tx of None \<Rightarrow> read_fail n (''bad number '' @ [CHR 0x27] @ tx @ [CHR 0x27]) r
          | Some v \<Rightarrow> Inr (JInt v, drop (length tx) r))"
    by (simp only: parse_number_def tx_def Let_def)
  from this [unfolded assms, symmetric] have "r' = drop (length tx) r" "tx \<noteq> []"
    by (simp_all add: read_fail_def split: if_splits option.splits)
  with r show ?thesis by simp
qed

lemma parse_literal_length: "word \<noteq> [] \<Longrightarrow> parse_literal n word v r = Inr (v', r') \<Longrightarrow> length r' < length r"
  by (cases r) (auto simp: parse_literal_def literal_def read_fail_def split: if_splits option.splits)

lemma tl_skip_ws_length: "peek (skip_ws r) = c \<Longrightarrow> c \<noteq> CHR 0x00 \<Longrightarrow> length (tl (skip_ws r)) < length r"
  using skip_ws_shorter [of r] by (cases "skip_ws r") (auto simp: peek_def)

lemmas read_lengths = expect_length read_string_length parse_number_length parse_literal_length

text \<open>What one layer of the reader returns, as a destruction rule for each function.\<close>

lemma object_loop_InrE:
  assumes "object_loop (Suc fuel) n depth members r = Inr (v, r')"
  obtains key r2 r3 w r4 where
    "read_string n (skip_ws r) = Inr (key, r2)" "expect n (CHR '':'') (skip_ws r2) = Inr r3"
    "parse_value fuel n (depth + 1) (skip_ws r3) = Inr (w, r4)"
    "if peek (skip_ws r4) = CHR '',''
     then object_loop fuel n depth (put_member key w members) (tl (skip_ws r4)) = Inr (v, r')
     else expect n (CHR ''}'') (skip_ws r4) = Inr r' \<and> v = JObj (put_member key w members)"
proof -
  from assms have *: "bindE (read_string n (skip_ws r)) (\<lambda>(key, r2).
        bindE (expect n (CHR '':'') (skip_ws r2)) (\<lambda>r3.
          bindE (parse_value fuel n (depth + 1) (skip_ws r3)) (\<lambda>(v, r4).
            let members' = put_member key v members; r5 = skip_ws r4 in
            if peek r5 = CHR '','' then object_loop fuel n depth members' (tl r5)
            else bindE (expect n (CHR ''}'') r5) (\<lambda>r6. Inr (JObj members', r6))))) = Inr (v, r')"
    by (simp add: Let_def read_fail_def split: if_splits)
  show thesis
    using * that unfolding bindE_Inr_iff Let_def
    by (auto split: if_splits simp: bindE_Inr_iff)
qed

lemma array_loop_InrE:
  assumes "array_loop (Suc fuel) n depth items r = Inr (v, r')"
  obtains w r1 where
    "parse_value fuel n (depth + 1) (skip_ws r) = Inr (w, r1)"
    "if peek (skip_ws r1) = CHR '',''
     then array_loop fuel n depth (items @ [w]) (tl (skip_ws r1)) = Inr (v, r')
     else expect n (CHR '']'') (skip_ws r1) = Inr r' \<and> v = JArr (items @ [w])"
  using assms by (auto simp: bindE_Inr_iff Let_def split: if_splits)

lemma parse_value_InrE:
  assumes "parse_value (Suc fuel) n depth r = Inr (v, r')"
  obtains (obj) r1 where "expect n (CHR ''{'') r = Inr r1"
      "if peek (skip_ws r1) = CHR ''}'' then v = JObj [] \<and> r' = tl (skip_ws r1)
       else object_loop fuel n depth [] (skip_ws r1) = Inr (v, r')"
  | (arr) r1 where "expect n (CHR ''['') r = Inr r1"
      "if peek (skip_ws r1) = CHR '']'' then v = JArr [] \<and> r' = tl (skip_ws r1)
       else array_loop fuel n depth [] (skip_ws r1) = Inr (v, r')"
  | (scalar) "length r' < length r"
  using assms
  by (auto simp: bindE_Inr_iff Let_def read_fail_def split: if_splits
      dest: read_string_length parse_number_length parse_literal_length [rotated])

lemma parser_consumes:
  "(\<forall>n d r v r'. parse_value fuel n d r = Inr (v, r') \<longrightarrow> length r' < length r) \<and>
   (\<forall>n d ms r v r'. object_loop fuel n d ms r = Inr (v, r') \<longrightarrow> length r' < length r) \<and>
   (\<forall>n d xs r v r'. array_loop fuel n d xs r = Inr (v, r') \<longrightarrow> length r' < length r)"
  (is "?V fuel \<and> ?O fuel \<and> ?A fuel")
proof (induction fuel)
  case (Suc fuel)
  note sk = skip_ws_shorter
  have "?V (Suc fuel)"
  proof (intro allI impI)
    fix n d r v r' assume "parse_value (Suc fuel) n d r = Inr (v, r')"
    then show "length r' < length r"
    proof (cases rule: parse_value_InrE)
      case (obj r1)
      with Suc sk [of r1] tl_skip_ws_length [of r1] show ?thesis
        by (fastforce dest!: expect_length split: if_splits)
    next
      case (arr r1)
      with Suc sk [of r1] tl_skip_ws_length [of r1] show ?thesis
        by (fastforce dest!: expect_length split: if_splits)
    qed
  qed
  moreover have "?O (Suc fuel)"
  proof (intro allI impI)
    fix n d ms r v r' assume "object_loop (Suc fuel) n d ms r = Inr (v, r')"
    then obtain key r2 r3 w r4 where *:
      "read_string n (skip_ws r) = Inr (key, r2)" "expect n (CHR '':'') (skip_ws r2) = Inr r3"
      "parse_value fuel n (d + 1) (skip_ws r3) = Inr (w, r4)"
      "if peek (skip_ws r4) = CHR '',''
       then object_loop fuel n d (put_member key w ms) (tl (skip_ws r4)) = Inr (v, r')
       else expect n (CHR ''}'') (skip_ws r4) = Inr r' \<and> v = JObj (put_member key w ms)"
      by (rule object_loop_InrE)
    have "length r' < length r4"
      using *(4) Suc sk [of r4] tl_skip_ws_length [of r4]
      by (fastforce dest!: expect_length split: if_splits)
    moreover have "length r4 < length (skip_ws r3)" using *(3) Suc by blast
    ultimately show "length r' < length r"
      using read_string_length [OF *(1)] expect_length [OF *(2)] sk [of r] sk [of r2] sk [of r3] by linarith
  qed
  moreover have "?A (Suc fuel)"
  proof (intro allI impI)
    fix n d xs r v r' assume "array_loop (Suc fuel) n d xs r = Inr (v, r')"
    then obtain w r1 where *: "parse_value fuel n (d + 1) (skip_ws r) = Inr (w, r1)"
      "if peek (skip_ws r1) = CHR '',''
       then array_loop fuel n d (xs @ [w]) (tl (skip_ws r1)) = Inr (v, r')
       else expect n (CHR '']'') (skip_ws r1) = Inr r' \<and> v = JArr (xs @ [w])"
      by (rule array_loop_InrE)
    have "length r' < length r1"
      using *(2) Suc sk [of r1] tl_skip_ws_length [of r1]
      by (fastforce dest!: expect_length split: if_splits)
    moreover have "length r1 < length (skip_ws r)" using *(1) Suc by blast
    ultimately show "length r' < length r" using sk [of r] by linarith
  qed
  ultimately show ?case by blast
qed simp

lemma leaf_no_fuel [simp]:
  "read_fail n msg r \<noteq> Inl Out_of_fuel"
  "expect n c r \<noteq> Inl Out_of_fuel"
  "parse_literal n word v r \<noteq> Inl Out_of_fuel"
  by (auto simp: read_fail_def expect_def parse_literal_def split: option.splits)

lemma parse_number_no_fuel [simp]: "parse_number n r \<noteq> Inl Out_of_fuel"
  by (simp add: parse_number_def Let_def split: option.splits)

lemma read_escape_no_fuel [simp]: "read_escape n r \<noteq> Inl Out_of_fuel"
proof -
  have "hex4_loop n k cp r \<noteq> Inl Out_of_fuel" for k cp r
    by (induction n k cp r rule: hex4_loop.induct) (auto split: option.splits)
  then have "hex4 n r \<noteq> Inl Out_of_fuel" for r by (simp add: hex4_def)
  then show ?thesis by (auto simp: read_escape_def bindE_Inl_iff split: prod.splits if_splits)
qed

lemma read_string_no_fuel [simp]: "read_string n r \<noteq> Inl Out_of_fuel"
proof -
  have "read_string_loop n out r \<noteq> Inl Out_of_fuel" for out r
    by (induction n out r rule: read_string_loop.induct)
       (auto simp: read_string_loop.simps(2) bindE_Inl_iff split: list.splits option.splits)
  then show ?thesis by (simp add: read_string_def bindE_Inl_iff)
qed

lemma enough_fuel:
  "(\<forall>n d r. 2 * length r < fuel \<longrightarrow> parse_value fuel n d r \<noteq> Inl Out_of_fuel) \<and>
   (\<forall>n d ms r. 2 * length r < fuel \<longrightarrow> object_loop fuel n d ms r \<noteq> Inl Out_of_fuel) \<and>
   (\<forall>n d xs r. 2 * length r + 1 < fuel \<longrightarrow> array_loop fuel n d xs r \<noteq> Inl Out_of_fuel)"
  (is "?V fuel \<and> ?O fuel \<and> ?A fuel")
proof (induction fuel)
  case (Suc fuel)
  then have V: "?V fuel" and Ob: "?O fuel" and A: "?A fuel" by blast+
  note sk = skip_ws_shorter
  have "?V (Suc fuel)"
  proof (intro allI impI notI)
    fix n d r assume len: "2 * length r < Suc fuel" and err: "parse_value (Suc fuel) n d r = Inl Out_of_fuel"
    have "object_loop fuel n d [] (skip_ws r1) \<noteq> Inl Out_of_fuel"
      and "array_loop fuel n d [] (skip_ws r1) \<noteq> Inl Out_of_fuel"
      if "expect n c r = Inr r1" for c r1
      using Ob A len sk [of r1] expect_length [OF that] by auto
    with err show False
      by (auto simp: bindE_Inl_iff Let_def split: if_splits)
  qed
  moreover have "?O (Suc fuel)"
  proof (intro allI impI notI)
    fix n d ms r assume len: "2 * length r < Suc fuel"
      and err: "object_loop (Suc fuel) n d ms r = Inl Out_of_fuel"
    have "parse_value fuel n (d + 1) (skip_ws r3) \<noteq> Inl Out_of_fuel"
      and "peek (skip_ws r4) = CHR '','' \<longrightarrow>
           object_loop fuel n d ms' (tl (skip_ws r4)) \<noteq> Inl Out_of_fuel"
      if "read_string n (skip_ws r) = Inr (key, r2)" "expect n (CHR '':'') (skip_ws r2) = Inr r3"
        "parse_value fuel n (d + 1) (skip_ws r3) = Inr (w, r4) \<or> r4 = r3" for key r2 r3 w r4 ms'
    proof -
      have "2 * length r3 + 4 < Suc fuel + 1"
        using len read_string_length [OF that(1)] expect_length [OF that(2)] sk [of r] sk [of r2] by linarith
      moreover have "length r4 \<le> length r3"
        using that(3) parser_consumes [of fuel] sk [of r3] by (metis le_trans less_imp_le order_refl)
      ultimately show "parse_value fuel n (d + 1) (skip_ws r3) \<noteq> Inl Out_of_fuel"
        and "peek (skip_ws r4) = CHR '','' \<longrightarrow> object_loop fuel n d ms' (tl (skip_ws r4)) \<noteq> Inl Out_of_fuel"
        using V Ob sk [of r3] tl_skip_ws_length [of r4] by auto
    qed
    with err show False
      by (fastforce simp: bindE_Inl_iff Let_def split: if_splits)
  qed
  moreover have "?A (Suc fuel)"
  proof (intro allI impI notI)
    fix n d xs r assume len: "2 * length r + 1 < Suc fuel"
      and err: "array_loop (Suc fuel) n d xs r = Inl Out_of_fuel"
    have V': "parse_value fuel n (d + 1) (skip_ws r) \<noteq> Inl Out_of_fuel"
      using V len sk [of r] by auto
    have "peek (skip_ws r1) = CHR '','' \<longrightarrow> array_loop fuel n d xs' (tl (skip_ws r1)) \<noteq> Inl Out_of_fuel"
      if "parse_value fuel n (d + 1) (skip_ws r) = Inr (w, r1)" for w r1 xs'
    proof -
      have "length r1 < length r" using that parser_consumes [of fuel] sk [of r] by (metis less_le_trans)
      then show ?thesis using A len tl_skip_ws_length [of r1] by auto
    qed
    with V' err show False by (fastforce simp: bindE_Inl_iff Let_def split: if_splits)
  qed
  ultimately show ?case by blast
qed simp

text \<open>
  Termination of the reader (C39): the recursive descent ends on every text. The fuel
  it starts with is always enough, so a failure is one of the reader's own errors.
\<close>

theorem parse_never_out_of_fuel: "parse tx \<noteq> Inl Out_of_fuel"
proof -
  have "2 * length (skip_ws tx) < 2 * length tx + 1" using skip_ws_shorter [of tx] by simp
  then have "parse_value (2 * length tx + 1) (length tx) 0 (skip_ws tx) \<noteq> Inl Out_of_fuel"
    using enough_fuel by blast
  then show ?thesis by (auto simp: parse_def parse_document_def bindE_Inl_iff Let_def split: if_splits)
qed

end
