(* ===== verification/Json_Roundtrip.thy ===== *)
theory Json_Roundtrip
  imports Json_Read
begin

text \<open>
  What either printer of \<^verbatim>\<open>json_out\<close> writes, \<^verbatim>\<open>json_read\<close> reads back.
  Both printers are instances of one layout, with the white space as a parameter, and
  the reader inverts every layout.
\<close>

subsection \<open>UTF-8 strings\<close>

definition scalar :: "nat \<Rightarrow> bool" where
  "scalar cp \<longleftrightarrow> cp < 0x110000 \<and> \<not> (0xD800 \<le> cp \<and> cp \<le> 0xDFFF)"

definition utf8 :: "nat list \<Rightarrow> string" where
  "utf8 cps = concat (map (append_utf8 []) cps)"

definition valid_utf8 :: "string \<Rightarrow> bool" where
  "valid_utf8 s \<longleftrightarrow> (\<exists>cps. list_all scalar cps \<and> s = utf8 cps)"

lemma append_utf8_append: "append_utf8 out cp = out @ append_utf8 [] cp"
  by (simp add: append_utf8_def)

lemma ascii_valid_utf8:
  assumes "list_all (\<lambda>c. (of_char c :: nat) < 128) s"
  shows "valid_utf8 s"
proof -
  have "list_all scalar (map of_char s)" and "s = utf8 (map of_char s)"
    using assms by (induction s) (auto simp: scalar_def utf8_def append_utf8_def)
  then show ?thesis unfolding valid_utf8_def by blast
qed

lemma and_63_eq_mod: "(v::nat) AND 63 = v mod 64"
  using take_bit_eq_mask [of 6 v] by (simp add: take_bit_eq_mod mask_eq_exp_minus_1)

lemma and_1023_eq_mod: "(v::nat) AND 1023 = v mod 1024"
  using take_bit_eq_mask [of 10 v] by (simp add: take_bit_eq_mod mask_eq_exp_minus_1)

lemma and_push_bit: "(b::nat) AND push_bit k m = push_bit k (drop_bit k b AND m)"
  by (rule bit_eqI) (auto simp: bit_simps)

lemma offset_div_mod: "x < k \<Longrightarrow> (k * c + x) div k = c \<and> (k * c + x) mod k = x" for x k c :: nat
  by simp

lemma lead_bytes:
  fixes x :: nat
  shows "x < 32 \<Longrightarrow> utf8_lead (0xC0 OR x) = Some (x, 1) \<and> 128 \<le> 0xC0 OR x \<and> 0xC0 OR x < 256"
    and "x < 16 \<Longrightarrow> utf8_lead (0xE0 OR x) = Some (x, 2) \<and> 128 \<le> 0xE0 OR x \<and> 0xE0 OR x < 256"
    and "x < 8 \<Longrightarrow> utf8_lead (0xF0 OR x) = Some (x, 3) \<and> 128 \<le> 0xF0 OR x \<and> 0xF0 OR x < 256"
proof -
  have e0: "b AND 0xE0 = push_bit 5 (b div 32 AND 7)" and f0: "b AND 0xF0 = push_bit 4 (b div 16 AND 15)"
    and f8: "b AND 0xF8 = push_bit 3 (b div 8 AND 31)" for b :: nat
    using and_push_bit [of b 5 7] and_push_bit [of b 4 15] and_push_bit [of b 3 31]
    by (simp_all add: drop_bit_eq_div)
  have m: "b AND 31 = b mod 32" "b AND 15 = b mod 16" "b AND 7 = b mod 8" for b :: nat
    using take_bit_eq_mask [of 5 b] take_bit_eq_mask [of 4 b] take_bit_eq_mask [of 3 b]
    by (simp_all add: take_bit_eq_mod mask_eq_exp_minus_1)
  show "utf8_lead (0xC0 OR x) = Some (x, 1) \<and> 128 \<le> 0xC0 OR x \<and> 0xC0 OR x < 256" if "x < 32"
  proof -
    have b: "0xC0 OR x = 192 + x" using push_bit_or_add [of x 5 6] that by simp
    have "(192 + x) div 32 = 6" "(192 + x) mod 32 = x"
      using that offset_div_mod [of x 32 6] by simp_all
    then show ?thesis using that by (simp add: utf8_lead_def b e0 m(1))
  qed
  show "utf8_lead (0xE0 OR x) = Some (x, 2) \<and> 128 \<le> 0xE0 OR x \<and> 0xE0 OR x < 256" if "x < 16"
  proof -
    have b: "0xE0 OR x = 224 + x" using push_bit_or_add [of x 4 14] that by simp
    have "(224 + x) div 32 = 7" "(224 + x) div 16 = 14" "(224 + x) mod 16 = x"
      using that offset_div_mod [of x 16 14] offset_div_mod [of x 32 7] by simp_all
    then show ?thesis using that by (simp add: utf8_lead_def b e0 f0 m(2))
  qed
  show "utf8_lead (0xF0 OR x) = Some (x, 3) \<and> 128 \<le> 0xF0 OR x \<and> 0xF0 OR x < 256" if "x < 8"
  proof -
    have b: "0xF0 OR x = 240 + x" using push_bit_or_add [of x 3 30] that by simp
    have "(240 + x) div 32 = 7" "(240 + x) div 16 = 15" "(240 + x) div 8 = 30" "(240 + x) mod 8 = x"
      using that offset_div_mod [of x 32 7] offset_div_mod [of x 16 15] offset_div_mod [of x 8 30] by simp_all
    then show ?thesis using that by (simp add: utf8_lead_def b e0 f0 f8 m(3))
  qed
qed

lemma cont_bytes:
  assumes "x < 64"
  shows "(0x80 OR x) AND 0xC0 = (0x80::nat) \<and> (0x80 OR x) AND 0x3F = x \<and> 0x80 OR x < 256"
proof -
  have b: "0x80 OR x = 128 + x" using push_bit_or_add [of x 6 2] assms by simp
  have "(128 + x) AND 0xC0 = push_bit 6 ((128 + x) div 64 AND 3)"
    using and_push_bit [of "128 + x" 6 3] by (simp add: drop_bit_eq_div)
  moreover have "(128 + x) div 64 = 2" "(128 + x) mod 64 = x"
    using assms offset_div_mod [of x 64 2] by simp_all
  ultimately show ?thesis using assms by (simp add: b and_63_eq_mod)
qed

lemma utf8_tail_cont [simp]:
  assumes "x < 64"
  shows "utf8_tail (Suc k) cp (char_of (0x80 OR x) # p) = utf8_tail k (64 * cp + x) p"
  using cont_bytes [OF assms] push_bit_or_add [of x 6 cp] assms by simp

declare utf8_tail.simps(3) [simp del]

lemma utf8_tail_runs:
  "x < 64 \<Longrightarrow> utf8_tail (Suc 0) cp (char_of (0x80 OR x) # p) = (64 * cp + x, p)"
  "x < 64 \<Longrightarrow> y < 64 \<Longrightarrow>
     utf8_tail 2 cp (char_of (0x80 OR x) # char_of (0x80 OR y) # p) = (64 * (64 * cp + x) + y, p)"
  "x < 64 \<Longrightarrow> y < 64 \<Longrightarrow> z < 64 \<Longrightarrow>
     utf8_tail 3 cp (char_of (0x80 OR x) # char_of (0x80 OR y) # char_of (0x80 OR z) # p)
       = (64 * (64 * (64 * cp + x) + y) + z, p)"
proof -
  have two: "(2::nat) = Suc (Suc 0)" and three: "(3::nat) = Suc (Suc (Suc 0))" by simp_all
  show "x < 64 \<Longrightarrow> utf8_tail (Suc 0) cp (char_of (0x80 OR x) # p) = (64 * cp + x, p)"
    by (simp only: utf8_tail_cont utf8_tail.simps(1))
  show "x < 64 \<Longrightarrow> y < 64 \<Longrightarrow>
     utf8_tail 2 cp (char_of (0x80 OR x) # char_of (0x80 OR y) # p) = (64 * (64 * cp + x) + y, p)"
    by (simp only: two utf8_tail_cont utf8_tail.simps(1))
  show "x < 64 \<Longrightarrow> y < 64 \<Longrightarrow> z < 64 \<Longrightarrow>
     utf8_tail 3 cp (char_of (0x80 OR x) # char_of (0x80 OR y) # char_of (0x80 OR z) # p)
       = (64 * (64 * (64 * cp + x) + y) + z, p)"
    by (simp only: three utf8_tail_cont utf8_tail.simps(1))
qed

lemma encode_bytes_lead:
  assumes "utf8_lead b = Some (x, k)" "128 \<le> b" "b < 256"
  shows "encode_bytes (char_of b # p) =
    escape_codepoint (fst (utf8_tail k x p)) @ encode_bytes (snd (utf8_tail k x p))"
  using assms by simp

lemma encode_bytes_codepoint:
  assumes "cp < 0x110000"
  shows "encode_bytes (append_utf8 [] cp @ s) =
    (if cp < 0x80 then encode_ascii (char_of cp) else escape_codepoint cp) @ encode_bytes s"
proof -
  have d: "cp div 4096 = cp div 64 div 64" "cp div 262144 = cp div 64 div 64 div 64"
    by (simp_all add: div_mult2_eq [symmetric])
  have m: "64 * (cp div 64) + cp mod 64 = cp"
    "64 * (64 * (cp div 64 div 64) + cp div 64 mod 64) + cp mod 64 = cp"
    "64 * (64 * (64 * (cp div 64 div 64 div 64) + cp div 64 div 64 mod 64) + cp div 64 mod 64) + cp mod 64 = cp"
    by (simp_all only: mult_div_mod_eq)
  consider "cp < 0x80" | "0x80 \<le> cp" "cp < 0x800" | "0x800 \<le> cp" "cp < 0x10000" | "0x10000 \<le> cp" by linarith
  then show ?thesis
  proof cases
    case 1
    then show ?thesis by (simp add: append_utf8_def)
  next
    case 2
    then have "append_utf8 [] cp = [char_of (0xC0 OR cp div 64), char_of (0x80 OR cp mod 64)]"
      and "cp div 64 < 32"
      by (simp_all add: append_utf8_def drop_bit_eq_div and_63_eq_mod)
    with 2 lead_bytes(1) [of "cp div 64"] m(1) show ?thesis
      by (simp add: encode_bytes_lead utf8_tail_runs del: encode_bytes.simps)
  next
    case 3
    then have "append_utf8 [] cp = [char_of (0xE0 OR cp div 64 div 64), char_of (0x80 OR cp div 64 mod 64),
        char_of (0x80 OR cp mod 64)]" and "cp div 64 div 64 < 16"
      by (simp_all add: append_utf8_def drop_bit_eq_div and_63_eq_mod div_mult2_eq [symmetric])
    with 3 lead_bytes(2) [of "cp div 64 div 64"] m(2) show ?thesis
      by (simp add: encode_bytes_lead utf8_tail_runs del: encode_bytes.simps)
  next
    case 4
    with assms have "append_utf8 [] cp = [char_of (0xF0 OR cp div 64 div 64 div 64),
        char_of (0x80 OR cp div 64 div 64 mod 64), char_of (0x80 OR cp div 64 mod 64),
        char_of (0x80 OR cp mod 64)]" and "cp div 64 div 64 div 64 < 8"
      by (simp_all add: append_utf8_def drop_bit_eq_div and_63_eq_mod div_mult2_eq [symmetric])
    with 4 lead_bytes(3) [of "cp div 64 div 64 div 64"] m(3) show ?thesis
      by (simp add: encode_bytes_lead utf8_tail_runs del: encode_bytes.simps)
  qed
qed

lemma hex4_u_escape:
  assumes "v < 65536"
  shows "hex4 n (drop 2 (u_escape v) @ r) = Inr (v, r)"
proof -
  have *: "hex4_loop n 4 0 (hex_char a # hex_char b # hex_char c # hex_char d # r)
      = Inr (16 * (16 * (16 * a + b) + c) + d, r)" if "a < 16" "b < 16" "c < 16" "d < 16" for a b c d
  proof -
    have "(4::nat) = Suc (Suc (Suc (Suc 0)))" by simp
    then have four: "hex4_loop n 4 = hex4_loop n (Suc (Suc (Suc (Suc 0))))" by (rule arg_cong)
    have nib: "d < 16 \<Longrightarrow> push_bit 4 x OR d = 16 * x + d" for x d :: nat
      using push_bit_or_add [of d 4 x] by simp
    from that show ?thesis
      by (simp only: four hex4_loop.simps list.sel hex_digit_hex_char option.case nib mult_0_right add_0_left)
  qed
  have "u_escape v = [CHR 0x5C, CHR ''u'', hex_char (v div 16 div 16 div 16 mod 16),
      hex_char (v div 16 div 16 mod 16), hex_char (v div 16 mod 16), hex_char (v mod 16)]"
    by (simp add: u_escape_def drop_bit_eq_div and_15_eq_mod div_mult2_eq [symmetric])
  moreover have "v div 16 div 16 div 16 < 16"
    using assms by (simp add: div_mult2_eq [symmetric])
  moreover have "16 * (16 * (16 * (v div 16 div 16 div 16) + v div 16 div 16 mod 16) + v div 16 mod 16) + v mod 16 = v"
    by (simp only: mult_div_mod_eq)
  ultimately show ?thesis
    using * [of "v div 16 div 16 div 16 mod 16" "v div 16 div 16 mod 16" "v div 16 mod 16" "v mod 16"]
    by (simp only: hex4_def) simp
qed

lemma length_u_escape [simp]: "length (u_escape v) = 6"
  and take_u_escape [simp]: "take 2 (u_escape v) = [CHR 0x5C, CHR ''u'']"
  by (simp_all add: u_escape_def)

lemma read_u_escape:
  assumes "v < 65536" "\<not> (0xD800 \<le> v \<and> v \<le> 0xDBFF)"
  shows "read_string_loop n out (u_escape v @ r) = read_string_loop n (append_utf8 out v) r"
  using assms by (subst u_escape_Cons) (auto simp: read_string_loop_escape read_escape_def hex4_u_escape)

lemma read_surrogates:
  assumes "c < 0x100000"
  shows "read_string_loop n out (u_escape (0xD800 + (c div 1024)) @ u_escape (0xDC00 + (c mod 1024)) @ r)
       = read_string_loop n (append_utf8 out (0x10000 + c)) r"
proof -
  let ?hi = "0xD800 + (c div 1024)" and ?lo = "0xDC00 + (c mod 1024)"
  have b: "c div 1024 < 1024" "c mod 1024 < 1024" using assms by auto
  then have "?hi < 65536" "?lo < 65536" by linarith+
  then have "read_escape n (drop 2 (u_escape ?hi) @ u_escape ?lo @ r) = Inr (0x10000 + c, r)"
    using hex4_u_escape [of ?hi n "u_escape ?lo @ r"] hex4_u_escape [of ?lo n r] b
    by (simp add: read_escape_def push_bit_eq_mult)
  then show ?thesis by (subst u_escape_Cons) (simp add: read_string_loop_escape)
qed

lemma read_escape_codepoint:
  assumes "scalar cp"
  shows "read_string_loop n out (escape_codepoint cp @ r) = read_string_loop n (append_utf8 out cp) r"
proof (cases "cp \<le> 0xFFFF")
  case True
  moreover have "\<not> (0xD800 \<le> cp \<and> cp \<le> 0xDBFF)" using assms by (auto simp: scalar_def)
  ultimately show ?thesis using read_u_escape [of cp] by (simp add: escape_codepoint_def)
next
  case False
  define c where "c = cp - 0x10000"
  have "c < 0x100000" "0x10000 + c = cp" using False assms by (auto simp: c_def scalar_def)
  then show ?thesis
    using False read_surrogates [of c n out r]
    by (simp add: escape_codepoint_def drop_bit_eq_div and_1023_eq_mod Let_def flip: c_def)
qed

lemma read_encode_ascii:
  assumes "(of_char c :: nat) < 0x80"
  shows "read_string_loop n out (encode_ascii c @ r) = read_string_loop n (out @ [c]) r"
proof (cases "escape_control c")
  case None
  then show ?thesis
    using escape_control_None [OF None]
    by (simp add: encode_ascii_def read_u_escape append_utf8_def read_string_loop_plain)
next
  case (Some e)
  then show ?thesis by (simp add: encode_ascii_def read_string_loop_escape escape_control_inverse)
qed

lemma read_encode_bytes:
  "list_all scalar cps \<Longrightarrow>
   read_string_loop n out (encode_bytes (utf8 cps) @ CHR 0x22 # r) = Inr (out @ utf8 cps, r)"
proof (induction cps arbitrary: out)
  case Nil
  then show ?case by (simp add: utf8_def read_string_loop_plain)
next
  case (Cons cp cps)
  then have cp: "scalar cp" by simp
  then have enc: "encode_bytes (utf8 (cp # cps)) =
      (if cp < 0x80 then encode_ascii (char_of cp) else escape_codepoint cp) @ encode_bytes (utf8 cps)"
    by (simp add: utf8_def encode_bytes_codepoint scalar_def)
  have "read_string_loop n out (encode_bytes (utf8 (cp # cps)) @ CHR 0x22 # r)
      = read_string_loop n (append_utf8 out cp) (encode_bytes (utf8 cps) @ CHR 0x22 # r)"
    using cp by (simp add: enc read_encode_ascii read_escape_codepoint) (simp add: append_utf8_def)
  with Cons show ?case by (simp add: append_utf8_append [of out] utf8_def)
qed

lemma read_encode_string: "valid_utf8 s \<Longrightarrow> read_string n (encode_string s @ r) = Inr (s, r)"
  by (auto simp: valid_utf8_def read_string_def encode_string_def expect_def read_encode_bytes)

subsection \<open>Numbers\<close>

definition number_ends :: "string \<Rightarrow> bool" where
  "number_ends r \<longleftrightarrow> r = [] \<or> \<not> is_num_char (hd r)"

definition int64 :: "int \<Rightarrow> bool" where
  "int64 i \<longleftrightarrow> - (2 ^ 63) \<le> i \<and> i < 2 ^ 63"

lemma takeWhile_stop:
  "list_all P xs \<Longrightarrow> ys = [] \<or> \<not> P (hd ys) \<Longrightarrow> takeWhile P (xs @ ys) = xs"
  by (induction xs) (cases ys; auto)+

lemma digit_not_special:
  assumes "is_digit c"
  shows "c \<noteq> CHR ''-''" "c \<noteq> CHR ''+''" "c \<noteq> CHR ''.''" "c \<noteq> CHR ''e''" "c \<noteq> CHR ''E''"
  using assms by (auto simp: is_digit_def less_eq_char_def)

lemma show_intE:
  obtains m where "show_int i = (if i < 0 then CHR ''-'' # show_nat m else show_nat m)"
    "i = (if i < 0 then - int m else int m)"
  using that [of "nat (- i)"] that [of "nat i"] by (cases "i < 0") (simp_all add: show_int_def)

lemma parse_show_int:
  assumes "int64 i" "number_ends r"
  shows "parse_number n (show_int i @ r) = Inr (JInt i, r)"
proof -
  obtain m where m: "show_int i = (if i < 0 then CHR ''-'' # show_nat m else show_nat m)"
    "i = (if i < 0 then - int m else int m)"
    by (rule show_intE)
  have d: "list_all is_digit (show_nat m)" by (auto simp: list_all_iff dest: show_nat_digits)
  then have "list_all is_num_char (show_nat m)" by (auto simp: list_all_iff is_num_char_def)
  then have tw: "takeWhile is_num_char (show_nat m @ r) = show_nat m"
    using assms(2) by (intro takeWhile_stop) (auto simp: number_ends_def)
  obtain c cs where c: "show_nat m = c # cs" by (cases "show_nat m") auto
  have nd: "c' \<in> set (show_nat m) \<Longrightarrow> c' \<noteq> CHR ''-'' \<and> c' \<noteq> CHR ''+'' \<and> c' \<noteq> CHR ''.'' \<and> c' \<noteq> CHR ''e'' \<and> c' \<noteq> CHR ''E''" for c'
    using d digit_not_special by (simp add: list_all_iff)
  then have hd: "hd (show_nat m) \<noteq> CHR ''-''" "hd (show_nat m) \<noteq> CHR ''+''" using c by auto
  have pk: "peek (show_int i @ r) = CHR ''-'' \<longleftrightarrow> i < 0"
    using m(1) hd c by (auto simp: peek_def)
  have "strtoll_all (show_int i) = Some i"
    using m d hd assms(1) by (auto simp: strtoll_all_def int64_def Let_def)
  moreover have F: "(if peek (show_int i @ r) = CHR ''-'' then ''-'' else [])
      @ takeWhile is_num_char (drop (length (if peek (show_int i @ r) = CHR ''-'' then ''-'' else [])) (show_int i @ r))
      = show_int i"
    using m(1) pk tw by auto
  moreover have "\<not> (\<exists>c \<in> set (show_int i). c = CHR ''.'' \<or> c = CHR ''e'' \<or> c = CHR ''E'')" "show_int i \<noteq> []"
    using m(1) nd by auto
  ultimately show ?thesis by (simp only: parse_number_def Let_def F) simp
qed

subsection \<open>Layouts\<close>

fun sep_join :: "string \<Rightarrow> string list \<Rightarrow> string" where
  "sep_join sep [] = []"
| "sep_join sep [t] = t"
| "sep_join sep (t # ts) = t @ sep @ sep_join sep ts"

fun layout :: "(nat \<Rightarrow> string) \<Rightarrow> string \<Rightarrow> jvalue \<Rightarrow> nat \<Rightarrow> string" where
  "layout w col JNull d = ''null''"
| "layout w col (JBool b) d = (if b then ''true'' else ''false'')"
| "layout w col (JInt i) d = show_int i"
| "layout w col (JStr s) d = encode_string s"
| "layout w col (JArr a) d =
     (if a = [] then ''[]''
      else ''['' @ w (Suc d) @ sep_join ('','' @ w (Suc d)) (map (\<lambda>v. layout w col v (Suc d)) a) @ w d @ '']'')"
| "layout w col (JObj m) d =
     (if m = [] then ''{}''
      else ''{'' @ w (Suc d)
             @ sep_join ('','' @ w (Suc d)) (map (\<lambda>(k, v). encode_string k @ col @ layout w col v (Suc d)) m)
             @ w d @ ''}'')"

lemma emit_lines_sep_join:
  "ts \<noteq> [] \<Longrightarrow> emit_lines inner ts = inner @ sep_join ('','' @ CHR 0x0A # inner) ts @ [CHR 0x0A]"
  by (induction inner ts rule: emit_lines.induct) auto

lemma emit_layout: "emit v d = layout (\<lambda>d. CHR 0x0A # emit_indent d) '': '' v d"
proof (induction v arbitrary: d)
  case (JArr a)
  then show ?case by (simp add: emit_lines_sep_join cong: map_cong)
next
  case (JObj m)
  then have "map (\<lambda>(k, v). encode_string k @ '': '' @ emit v (Suc d)) m
      = map (\<lambda>(k, v). encode_string k @ '': '' @ layout (\<lambda>d. CHR 0x0A # emit_indent d) '': '' v (Suc d)) m"
    by fastforce
  then show ?case by (simp add: emit_lines_sep_join del: map_eq_conv)
qed simp_all

lemma comma_join_sep_join: "comma_join ts = sep_join '','' ts"
  by (induction ts rule: comma_join.induct) auto

lemma emit_compact_layout: "emit_compact v = layout (\<lambda>_. []) '':'' v d"
proof (induction v arbitrary: d)
  case (JArr a)
  then have "map emit_compact a = map (\<lambda>v. layout (\<lambda>_. []) '':'' v (Suc d)) a" by simp
  then show ?case by (simp add: comma_join_sep_join del: map_eq_conv)
next
  case (JObj m)
  then have "map (\<lambda>(k, v). encode_string k @ '':'' @ emit_compact v) m
      = map (\<lambda>(k, v). encode_string k @ '':'' @ layout (\<lambda>_. []) '':'' v (Suc d)) m"
    by fastforce
  then show ?case by (simp add: comma_join_sep_join del: map_eq_conv)
qed simp_all

subsection \<open>Values that can be printed and read\<close>

fun json_ok :: "jvalue \<Rightarrow> bool" where
  "json_ok (JInt i) = int64 i"
| "json_ok (JStr s) = valid_utf8 s"
| "json_ok (JArr a) = list_all json_ok a"
| "json_ok (JObj m) = (distinct (map fst m) \<and> list_all (\<lambda>(k, v). valid_utf8 k \<and> json_ok v) m)"
| "json_ok _ = True"

fun nesting :: "jvalue \<Rightarrow> nat" where
  "nesting (JArr a) = foldr (\<lambda>v h. max (Suc (nesting v)) h) a 0"
| "nesting (JObj m) = foldr (\<lambda>(k, v) h. max (Suc (nesting v)) h) m 0"
| "nesting _ = 0"

lemma nesting_arr: "v \<in> set a \<Longrightarrow> Suc (nesting v) \<le> nesting (JArr a)"
  by (induction a) (auto simp: max_def)

lemma nesting_obj: "(k, v) \<in> set m \<Longrightarrow> Suc (nesting v) \<le> nesting (JObj m)"
  by (induction m) (auto simp: max_def)

lemma layout_head:
  "\<exists>c t. layout w col v d = c # t \<and> \<not> is_ws c \<and> c \<noteq> CHR '']'' \<and> c \<noteq> CHR ''}''"
proof (cases v)
  case (JInt i)
  obtain m where "show_int i = (if i < 0 then CHR ''-'' # show_nat m else show_nat m)"
    by (rule show_intE)
  moreover obtain c t where c: "show_nat m = c # t" by (cases "show_nat m") auto
  moreover have "is_digit c" using show_nat_digits [of c m] c by simp
  then have "\<not> is_ws c \<and> c \<noteq> CHR '']'' \<and> c \<noteq> CHR ''}''"
    by (auto simp: is_digit_def is_ws_def less_eq_char_def)
  ultimately show ?thesis using JInt by (auto simp: is_ws_def)
qed (auto simp: is_ws_def encode_string_def)

subsection \<open>The reader inverts every layout\<close>

lemma ws_not_num: "is_ws c \<Longrightarrow> \<not> is_num_char c"
  by (auto simp: is_ws_def is_num_char_def is_digit_def less_eq_char_def)

lemma skip_ws_append [simp]: "list_all is_ws u \<Longrightarrow> skip_ws (u @ t) = skip_ws t"
  by (induction u) (auto simp: skip_ws_def)

lemma skip_ws_layout [simp]: "skip_ws (layout w col v d @ t) = layout w col v d @ t"
  using layout_head [of w col v d] by auto

lemma number_ends_ws:
  "list_all is_ws u \<Longrightarrow> c = CHR '']'' \<or> c = CHR ''}'' \<or> c = CHR '','' \<Longrightarrow> number_ends (u @ c # t)"
  using ws_not_num by (cases u) (auto simp: number_ends_def is_num_char_def is_digit_def less_eq_char_def)

lemma put_member_new: "key \<notin> fst ` set ms \<Longrightarrow> put_member key v ms = ms @ [(key, v)]"
  by (induction key v ms rule: put_member.induct) auto

lemma peek_Cons [simp]: "peek (c # r) = c" by (simp add: peek_def)

lemma expect_Cons [simp]: "expect n c (c # r) = Inr r" by (simp add: expect_def)

definition reads_back :: "(nat \<Rightarrow> string) \<Rightarrow> string \<Rightarrow> jvalue \<Rightarrow> bool" where
  "reads_back w col v \<longleftrightarrow>
     (\<forall>fuel n d e r. json_ok v \<longrightarrow> d + nesting v \<le> kMaxDepth \<longrightarrow> number_ends r \<longrightarrow>
        2 * length (layout w col v e @ r) < fuel \<longrightarrow>
        parse_value fuel n d (layout w col v e @ r) = Inr (v, r))"

lemma reads_backD:
  "reads_back w col v \<Longrightarrow> json_ok v \<Longrightarrow> d + nesting v \<le> kMaxDepth \<Longrightarrow> number_ends r \<Longrightarrow>
   2 * length (layout w col v e @ r) < fuel \<Longrightarrow>
   parse_value fuel n d (layout w col v e @ r) = Inr (v, r)"
  by (simp add: reads_back_def)

lemma show_int_peek: "\<exists>c. peek (show_int i @ r) = c \<and> (is_digit c \<or> c = CHR ''-'')"
proof -
  obtain m where "show_int i = (if i < 0 then CHR ''-'' # show_nat m else show_nat m)"
    by (rule show_intE)
  moreover obtain c t where "show_nat m = c # t" by (cases "show_nat m") auto
  moreover from this have "is_digit c" using show_nat_digits [of c m] by simp
  ultimately show ?thesis by auto
qed

lemma parse_value_int:
  assumes "int64 i" "number_ends r" "d \<le> kMaxDepth"
  shows "parse_value (Suc f) n d (show_int i @ r) = Inr (JInt i, r)"
proof -
  obtain c where "peek (show_int i @ r) = c" "is_digit c \<or> c = CHR ''-''" using show_int_peek by blast
  then have "peek (show_int i @ r) \<notin> {CHR ''{'', CHR ''['', CHR 0x22, CHR ''t'', CHR ''f'', CHR ''n''}"
    by (auto simp: is_digit_def less_eq_char_def)
  with assms show ?thesis by (simp add: parse_show_int)
qed

lemma parse_value_str:
  assumes "valid_utf8 s" "d \<le> kMaxDepth"
  shows "parse_value (Suc f) n d (encode_string s @ r) = Inr (JStr s, r)"
proof -
  have "peek (encode_string s @ r) = CHR 0x22" by (simp add: encode_string_def)
  with assms show ?thesis by (simp add: read_encode_string)
qed

lemma parse_value_word:
  assumes "d \<le> kMaxDepth"
  shows "parse_value (Suc f) n d (''null'' @ r) = Inr (JNull, r)"
    "parse_value (Suc f) n d (''true'' @ r) = Inr (JBool True, r)"
    "parse_value (Suc f) n d (''false'' @ r) = Inr (JBool False, r)"
  using assms by (simp_all add: parse_literal_def literal_def)

lemma scalar_reads_back:
  "reads_back w col JNull" "reads_back w col (JBool b)" "reads_back w col (JInt i)" "reads_back w col (JStr s)"
  unfolding reads_back_def
  by (intro allI impI, case_tac fuel; simp del: parse_value.simps append.simps
        add: parse_value_word parse_value_int parse_value_str)+

locale json_layout =
  fixes white :: "nat \<Rightarrow> string" and colon :: string
  assumes white_ws: "list_all is_ws (white d)"
    and colon_ws: "\<exists>u. colon = CHR '':'' # u \<and> list_all is_ws u"
begin

lemma array_loop_layout:
  assumes "\<forall>x \<in> set a. reads_back white colon x" "a \<noteq> []" "list_all json_ok a"
    "\<forall>x \<in> set a. Suc d + nesting x \<le> kMaxDepth" "list_all is_ws u" "list_all is_ws v"
    "2 * length (u @ sep_join ('','' @ white e) (map (\<lambda>x. layout white colon x e) a) @ v @ CHR '']'' # r) + 1 < fuel"
  shows "array_loop fuel n d items
      (u @ sep_join ('','' @ white e) (map (\<lambda>x. layout white colon x e) a) @ v @ CHR '']'' # r)
      = Inr (JArr (items @ a), r)"
  using assms
proof (induction a arbitrary: items u fuel)
  case (Cons x a)
  obtain f where f: "fuel = Suc f" using Cons.prems(7) by (cases fuel) auto
  show ?case
  proof (cases "a = []")
    case True
    have "parse_value f n (Suc d) (layout white colon x e @ v @ CHR '']'' # r) = Inr (x, v @ CHR '']'' # r)"
      using Cons.prems True f by (intro reads_backD) (auto intro: number_ends_ws)
    with True f Cons.prems show ?thesis by simp
  next
    case False
    let ?rest = "white e @ sep_join ('','' @ white e) (map (\<lambda>x. layout white colon x e) a) @ v @ CHR '']'' # r"
    have tx: "sep_join ('','' @ white e) (map (\<lambda>x. layout white colon x e) (x # a)) @ v @ CHR '']'' # r
        = layout white colon x e @ CHR '','' # ?rest"
      using False by (cases a) simp_all
    have "parse_value f n (Suc d) (layout white colon x e @ CHR '','' # ?rest) = Inr (x, CHR '','' # ?rest)"
      using Cons.prems f number_ends_ws [of "[]" "CHR '',''" ?rest] unfolding tx
      by (intro reads_backD) auto
    moreover have "array_loop f n d (items @ [x]) ?rest = Inr (JArr ((items @ [x]) @ a), r)"
      using Cons.prems f False white_ws unfolding tx by (intro Cons.IH) auto
    ultimately show ?thesis using f Cons.prems(5) unfolding tx by simp
  qed
qed simp

lemma object_loop_layout:
  assumes "\<forall>(k, x) \<in> set m. reads_back white colon x" "m \<noteq> []"
    "distinct (map fst (ms @ m))" "list_all (\<lambda>(k, x). valid_utf8 k \<and> json_ok x) m"
    "\<forall>(k, x) \<in> set m. Suc d + nesting x \<le> kMaxDepth" "list_all is_ws u" "list_all is_ws v"
    "2 * length (u @ sep_join ('','' @ white e)
       (map (\<lambda>(k, x). encode_string k @ colon @ layout white colon x e) m) @ v @ CHR ''}'' # r) < fuel"
  shows "object_loop fuel n d ms
      (u @ sep_join ('','' @ white e)
         (map (\<lambda>(k, x). encode_string k @ colon @ layout white colon x e) m) @ v @ CHR ''}'' # r)
      = Inr (JObj (ms @ m), r)"
  using assms
proof (induction m arbitrary: ms u fuel)
  case (Cons kx m)
  obtain k x where kx: "kx = (k, x)" by (cases kx)
  obtain f where f: "fuel = Suc f" using Cons.prems(8) by (cases fuel) auto
  obtain cw where cw: "colon = CHR '':'' # cw" "list_all is_ws cw" using colon_ws by blast
  have put: "put_member k x ms = ms @ [(k, x)]" using Cons.prems(3) kx by (intro put_member_new) auto
  have key: "read_string n (encode_string k @ t) = Inr (k, t)" for t
    using Cons.prems(4) kx by (simp add: read_encode_string)
  have ek: "encode_string k @ t = CHR 0x22 # tl (encode_string k) @ t" for t by (simp add: encode_string_def)
  have sk: "skip_ws (encode_string k @ t) = encode_string k @ t" "peek (encode_string k @ t) = CHR 0x22" for t
    by (simp_all add: ek)
  have step: "object_loop (Suc f) n d ms (u @ encode_string k @ colon @ layout white colon x e @ c # t)
      = (if c = CHR '','' then object_loop f n d (ms @ [(k, x)]) t
         else bindE (expect n (CHR ''}'') (c # t)) (\<lambda>r6. Inr (JObj (ms @ [(k, x)]), r6)))"
    if "parse_value f n (Suc d) (layout white colon x e @ c # t) = Inr (x, c # t)" "\<not> is_ws c" for c t
    using that Cons.prems(6) cw by (simp add: sk key put)
  show ?case
  proof (cases "m = []")
    case True
    have pv: "parse_value f n (Suc d) (layout white colon x e @ v @ CHR ''}'' # r) = Inr (x, v @ CHR ''}'' # r)"
      using Cons.prems True f kx cw(1) by (intro reads_backD) (auto intro: number_ends_ws)
    show ?thesis using True f Cons.prems(6,7) cw pv kx by (simp add: sk key put)
  next
    case False
    let ?rest = "white e @ sep_join ('','' @ white e)
      (map (\<lambda>(k, x). encode_string k @ colon @ layout white colon x e) m) @ v @ CHR ''}'' # r"
    have tx: "sep_join ('','' @ white e) (map (\<lambda>(k, x). encode_string k @ colon @ layout white colon x e) (kx # m))
        @ v @ CHR ''}'' # r = encode_string k @ colon @ layout white colon x e @ CHR '','' # ?rest"
      using False kx by (cases m) simp_all
    have "parse_value f n (Suc d) (layout white colon x e @ CHR '','' # ?rest) = Inr (x, CHR '','' # ?rest)"
      using Cons.prems f kx cw(1) number_ends_ws [of "[]" "CHR '',''" ?rest] unfolding tx
      by (intro reads_backD) auto
    moreover have "object_loop f n d (ms @ [(k, x)]) ?rest = Inr (JObj ((ms @ [(k, x)]) @ m), r)"
      using Cons.prems f kx False white_ws unfolding tx by (intro Cons.IH) auto
    ultimately show ?thesis using step [of "CHR '',''"] kx f unfolding tx by simp
  qed
qed simp

lemma layout_reads_back: "reads_back white colon v"
proof (induction v)
  case (JArr a)
  show ?case unfolding reads_back_def
  proof (intro allI impI)
    fix fuel n d e r
    assume ok: "json_ok (JArr a)" and nest: "d + nesting (JArr a) \<le> kMaxDepth" and "number_ends r"
      and len: "2 * length (layout white colon (JArr a) e @ r) < fuel"
    obtain f where f: "fuel = Suc f" using len by (cases fuel) auto
    show "parse_value fuel n d (layout white colon (JArr a) e @ r) = Inr (JArr a, r)"
    proof (cases "a = []")
      case True
      with f nest show ?thesis by simp
    next
      case False
      let ?body = "sep_join ('','' @ white (Suc e)) (map (\<lambda>x. layout white colon x (Suc e)) a) @ white e @ CHR '']'' # r"
      have "\<exists>c t. ?body = c # t \<and> \<not> is_ws c \<and> c \<noteq> CHR '']''"
        using False layout_head [of white colon "hd a" "Suc e"] by (cases a; cases "tl a") auto
      then have body: "skip_ws (white (Suc e) @ ?body) = ?body" "peek ?body \<noteq> CHR '']''"
        using white_ws by auto
      have "array_loop f n d [] ([] @ ?body) = Inr (JArr ([] @ a), r)"
        using JArr ok nest len f False white_ws nesting_arr [of _ a]
        by (intro array_loop_layout) (auto simp: list_all_iff, fastforce)
      with body f nest False show ?thesis by simp
    qed
  qed
next
  case (JObj m)
  show ?case unfolding reads_back_def
  proof (intro allI impI)
    fix fuel n d e r
    assume ok: "json_ok (JObj m)" and nest: "d + nesting (JObj m) \<le> kMaxDepth" and "number_ends r"
      and len: "2 * length (layout white colon (JObj m) e @ r) < fuel"
    obtain f where f: "fuel = Suc f" using len by (cases fuel) auto
    show "parse_value fuel n d (layout white colon (JObj m) e @ r) = Inr (JObj m, r)"
    proof (cases "m = []")
      case True
      with f nest show ?thesis by simp
    next
      case False
      let ?body = "sep_join ('','' @ white (Suc e))
        (map (\<lambda>(k, x). encode_string k @ colon @ layout white colon x (Suc e)) m) @ white e @ CHR ''}'' # r"
      have "\<exists>t. ?body = CHR 0x22 # t"
        using False by (cases m; cases "tl m") (auto simp: encode_string_def)
      then have body: "skip_ws (white (Suc e) @ ?body) = ?body" "peek ?body \<noteq> CHR ''}''"
        using white_ws by auto
      have "object_loop f n d [] ([] @ ?body) = Inr (JObj ([] @ m), r)"
        using JObj ok nest len f False white_ws nesting_obj [of _ _ m]
        by (intro object_loop_layout) (auto simp: list_all_iff, fastforce+)
      with body f nest False show ?thesis by simp
    qed
  qed
qed (simp_all add: scalar_reads_back)

end

lemma emit_indent_ws: "list_all is_ws (emit_indent d)"
  by (simp add: emit_indent_def list_all_iff is_ws_def)

interpretation indented: json_layout "\<lambda>d. CHR 0x0A # emit_indent d" "'': ''"
  by unfold_locales (auto simp: emit_indent_ws is_ws_def)

interpretation compact: json_layout "\<lambda>_. []" "'':''"
  by unfold_locales auto

subsection \<open>Round trips of the two printers\<close>

lemma parse_layout:
  assumes "reads_back w col v" "json_ok v" "nesting v \<le> kMaxDepth"
  shows "parse (layout w col v 0) = Inr v"
proof -
  have "parse_value (2 * length (layout w col v 0 @ []) + 1) n 0 (layout w col v 0 @ []) = Inr (v, [])" for n
    using assms by (intro reads_backD) (auto simp: number_ends_def)
  then show ?thesis using skip_ws_layout [of w col v 0 "[]"]
    by (simp add: parse_def parse_document_def)
qed
lemma parse_dumps_indent2: "json_ok v \<Longrightarrow> nesting v \<le> 100 \<Longrightarrow> parse (dumps_indent2 v) = Inr v"
  using indented.layout_reads_back [of v]
  by (simp add: dumps_indent2_def emit_layout parse_layout kMaxDepth_def)

text \<open>(C25) Every value whose strings are valid UTF-8, whose integers fit in 64 bits, whose object keys
  are distinct and that nests at most 100 deep is read back unchanged from the text that
  \<^verbatim>\<open>dumps_indent2\<close> prints for it.\<close>

theorem dumps_indent2_roundtrip:
  "json_ok v \<Longrightarrow> nesting v \<le> 100 \<Longrightarrow> parse (dumps_indent2 v) = Inr v"
  by (rule parse_dumps_indent2)

text \<open>A nested document with a control character, a quote and a negative number.\<close>

theorem dumps_indent2_roundtrip_witness:
  "parse (dumps_indent2 (JObj [(''k'', JArr [JInt (-7), JStr [CHR 0x22, CHR 0x0A], JNull]), (''b'', JBool True)]))
   = Inr (JObj [(''k'', JArr [JInt (-7), JStr [CHR 0x22, CHR 0x0A], JNull]), (''b'', JBool True)])"
  by (rule dumps_indent2_roundtrip) (simp_all add: int64_def ascii_valid_utf8)

text \<open>The compact printer's output reads back to the same value, under the same conditions.\<close>

theorem dumps_compact_roundtrip:
  "json_ok v \<Longrightarrow> nesting v \<le> 100 \<Longrightarrow> parse (dumps_compact v) = Inr v"
  using compact.layout_reads_back [of v] emit_compact_layout [of v 0]
  by (simp add: dumps_compact_def parse_layout kMaxDepth_def)

text \<open>An object holding an empty array and the smallest 64-bit integer.\<close>

theorem dumps_compact_roundtrip_witness:
  "parse (dumps_compact (JObj [(''a'', JArr []), (''min'', JInt (- 9223372036854775808))]))
   = Inr (JObj [(''a'', JArr []), (''min'', JInt (- 9223372036854775808))])"
  by (rule dumps_compact_roundtrip) (simp_all add: int64_def ascii_valid_utf8)

end
