(* ===== verification/Path_Util.thy ===== *)
theory Path_Util
  imports Prelude
begin

text \<open>
  The posixpath port of \<^verbatim>\<open>util/pathutil.cpp\<close>: lexical normalisation, joining,
  relative paths, splitting, and the portable-path resolution chain. The working
  directory, the environment and the password database are parameters.
\<close>

subsection \<open>Operations\<close>

abbreviation slash :: char where "slash \<equiv> CHR ''/''"

definition isabs :: "string \<Rightarrow> bool" where
  "isabs path \<longleftrightarrow> path \<noteq> [] \<and> path ! 0 = slash"

function split_components :: "string \<Rightarrow> string list" where
  "split_components path =
     (let part = takeWhile (\<lambda>c. c \<noteq> slash) path in
      if length part = length path then [path]
      else part # split_components (drop (length part + 1) path))"
  by pat_completeness auto
termination
proof (relation "measure length", goal_cases)
  case (2 path x)
  then have "path \<noteq> []" by auto
  then show ?case by (simp only: in_measure length_drop) simp
qed simp

declare split_components.simps [simp del]

definition initial_slashes :: "string \<Rightarrow> nat" where
  "initial_slashes path =
     (if path \<noteq> [] \<and> path ! 0 = slash then
        (if 2 \<le> length path \<and> path ! 1 = slash \<and> (length path < 3 \<or> path ! 2 \<noteq> slash)
         then 2 else 1)
      else 0)"

definition norm_push :: "nat \<Rightarrow> string list \<Rightarrow> string \<Rightarrow> string list" where
  "norm_push slashes new_comps part =
     (if part = [] \<or> part = ''.'' then new_comps
      else if part \<noteq> ''..'' \<or> (slashes = 0 \<and> new_comps = [])
              \<or> (new_comps \<noteq> [] \<and> last new_comps = ''..'')
      then new_comps @ [part]
      else if new_comps \<noteq> [] then butlast new_comps
      else new_comps)"

fun join_comps :: "string list \<Rightarrow> string" where
  "join_comps [] = []"
| "join_comps [x] = x"
| "join_comps (x # xs) = x @ slash # join_comps xs"

definition normpath :: "string \<Rightarrow> string" where
  "normpath path =
     (if path = [] then ''.''
      else let s = initial_slashes path;
               new_comps = foldl (norm_push s) [] (split_components path);
               out = replicate s slash @ join_comps new_comps
           in if out = [] then ''.'' else out)"

definition join_one :: "string \<Rightarrow> string \<Rightarrow> string" where
  "join_one path part =
     (if part \<noteq> [] \<and> part ! 0 = slash then part
      else if path = [] \<or> last path = slash then path @ part
      else path @ slash # part)"

definition join :: "string \<Rightarrow> string list \<Rightarrow> string" where
  "join path parts = foldl join_one path parts"

definition abspath :: "string \<Rightarrow> string \<Rightarrow> string" where
  "abspath cwd path = (if isabs path then normpath path else normpath (join cwd [path]))"

definition abs_parts :: "string \<Rightarrow> string \<Rightarrow> string list" where
  "abs_parts cwd path = filter (\<lambda>c. c \<noteq> []) (split_components (abspath cwd path))"

datatype path_error = No_path_specified

fun common_length :: "string list \<Rightarrow> string list \<Rightarrow> nat" where
  "common_length (x # xs) (y # ys) = (if x = y then Suc (common_length xs ys) else 0)"
| "common_length _ _ = 0"

definition relpath :: "string \<Rightarrow> string \<Rightarrow> string \<Rightarrow> path_error + string" where
  "relpath cwd path start =
     (if path = [] then Inl No_path_specified
      else let start_list = abs_parts cwd start;
               path_list = abs_parts cwd path;
               common = common_length start_list path_list;
               up = foldl (\<lambda>rel _. join_one rel ''..'') [] (drop common start_list);
               rel = foldl join_one up (drop common path_list)
           in Inr (if rel = [] then ''.'' else rel))"

text \<open>
  The password database and \<^verbatim>\<open>$HOME\<close>: \<open>home\<close> is \<^verbatim>\<open>getenv("HOME")\<close>,
  \<open>self_dir\<close> the directory of \<^verbatim>\<open>getpwuid(getuid())\<close>, \<open>user_dir\<close> that of
  \<^verbatim>\<open>getpwnam\<close>.
\<close>

record passwd_env =
  home :: "string option"
  self_dir :: "string option"
  user_dir :: "string \<Rightarrow> string option"

definition strip_trailing_slashes :: "string \<Rightarrow> string" where
  "strip_trailing_slashes s = rev (dropWhile (\<lambda>c. c = slash) (rev s))"

definition expanduser :: "passwd_env \<Rightarrow> string \<Rightarrow> string" where
  "expanduser env path =
     (if path = [] \<or> path ! 0 \<noteq> CHR ''~'' then path
      else let user = takeWhile (\<lambda>c. c \<noteq> slash) (drop 1 path);
               rest = drop (1 + length user) path;
               dir = (if user = [] then (case home env of Some h \<Rightarrow> Some h | None \<Rightarrow> self_dir env)
                      else user_dir env user)
           in case dir of
                None \<Rightarrow> path
              | Some userhome \<Rightarrow>
                  (let result = strip_trailing_slashes userhome @ rest
                   in if result = [] then ''/'' else result))"

definition split :: "string \<Rightarrow> string \<times> string" where
  "split path =
     (if slash \<notin> set path then ([], path)
      else let tail = rev (takeWhile (\<lambda>c. c \<noteq> slash) (rev path));
               head = take (length path - length tail) path
           in (if \<exists>c \<in> set head. c \<noteq> slash then strip_trailing_slashes head else head, tail))"

definition dirname :: "string \<Rightarrow> string" where "dirname path = fst (split path)"
definition basename :: "string \<Rightarrow> string" where "basename path = snd (split path)"

text \<open>
  \<^verbatim>\<open>expandvars\<close> walks the matches of the regular expression
  \<^verbatim>\<open>\$([A-Za-z0-9_]+|\{[^}]*\}?)\<close>; \<open>match_var\<close> is that expression at a
  dollar sign, giving the captured group and the text after the match.
\<close>

definition is_word_char :: "char \<Rightarrow> bool" where
  "is_word_char c \<longleftrightarrow> (CHR ''A'' \<le> c \<and> c \<le> CHR ''Z'') \<or> (CHR ''a'' \<le> c \<and> c \<le> CHR ''z'')
     \<or> (CHR ''0'' \<le> c \<and> c \<le> CHR ''9'') \<or> c = CHR ''_''"

definition match_var :: "string \<Rightarrow> (string \<times> string) option" where
  "match_var r =
     (let w = takeWhile is_word_char r in
      if w \<noteq> [] then Some (w, drop (length w) r)
      else if r \<noteq> [] \<and> r ! 0 = CHR ''{'' then
        (let body = takeWhile (\<lambda>c. c \<noteq> CHR ''}'') (tl r); rest = drop (length body) (tl r)
         in if rest = [] then Some (CHR ''{'' # body, [])
            else Some (CHR ''{'' # body @ ''}'', tl rest))
      else None)"

definition c_str :: "string \<Rightarrow> string" where
  "c_str s = takeWhile (\<lambda>c. c \<noteq> CHR 0x00) s"

definition expand_match :: "(string \<Rightarrow> string option) \<Rightarrow> string \<Rightarrow> string" where
  "expand_match getenv name =
     (if name \<noteq> [] \<and> name ! 0 = CHR ''{'' \<and> last name \<noteq> CHR ''}'' then CHR ''$'' # name
      else let lookup_name = (if name \<noteq> [] \<and> name ! 0 = CHR ''{''
                              then take (length name - 2) (drop 1 name) else name)
           in case getenv (c_str lookup_name) of
                Some val \<Rightarrow> val
              | None \<Rightarrow> CHR ''$'' # name)"

lemma match_var_shorter: "match_var r = Some (name, rest) \<Longrightarrow> length rest \<le> length r"
  by (auto simp: match_var_def Let_def split: if_splits)

function expand_loop :: "(string \<Rightarrow> string option) \<Rightarrow> string \<Rightarrow> string" where
  "expand_loop getenv [] = []"
| "expand_loop getenv (c # cs) =
     (if c \<noteq> CHR ''$'' then c # expand_loop getenv cs
      else case match_var cs of
             None \<Rightarrow> c # expand_loop getenv cs
           | Some (name, rest) \<Rightarrow> expand_match getenv name @ expand_loop getenv rest)"
  by pat_completeness auto
termination
  by (relation "measure (\<lambda>(g, r). length r)") (auto dest: match_var_shorter)

definition expandvars :: "(string \<Rightarrow> string option) \<Rightarrow> string \<Rightarrow> string" where
  "expandvars getenv path =
     (if CHR ''$'' \<notin> set path then path else expand_loop getenv path)"

record label_resolver =
  lookup :: "(string \<Rightarrow> string option) option"
  autoderive :: bool

definition expand_label :: "label_resolver \<Rightarrow> string \<Rightarrow> string" where
  "expand_label labels name =
     (case (case lookup labels of Some f \<Rightarrow> f name | None \<Rightarrow> None) of
        Some hit \<Rightarrow> hit
      | None \<Rightarrow>
          if autoderive labels \<and> name \<noteq> []
          then slash # map (\<lambda>c. if c = CHR ''-'' then slash else c) name
          else CHR ''<'' # name @ ''>'')"

function label_loop :: "label_resolver \<Rightarrow> string \<Rightarrow> string" where
  "label_loop labels r =
     (let lit = takeWhile (\<lambda>c. c \<noteq> CHR ''<'') r; r1 = dropWhile (\<lambda>c. c \<noteq> CHR ''<'') r in
      if r1 = [] then r
      else let name = takeWhile (\<lambda>c. c \<noteq> CHR ''>'') (tl r1);
               r2 = dropWhile (\<lambda>c. c \<noteq> CHR ''>'') (tl r1) in
           if r2 = [] then lit @ r1
           else lit @ expand_label labels name @ label_loop labels (tl r2))"
  by pat_completeness auto
termination
proof (relation "measure (\<lambda>(l, r). length r)", goal_cases)
  case (2 labels r x xa xb xc)
  have "length xa \<le> length r" and "length xc \<le> length (tl xa)"
    by (simp_all only: 2 length_dropWhile_le)
  moreover have "0 < length xa" using 2 by blast
  ultimately show ?case by (simp only: in_measure prod.case length_tl)
qed simp

declare label_loop.simps [simp del]

definition label_expand :: "label_resolver \<Rightarrow> string \<Rightarrow> string" where
  "label_expand labels token =
     (if CHR ''<'' \<notin> set token then token else label_loop labels token)"

definition resolve_fs_path ::
  "label_resolver \<Rightarrow> (string \<Rightarrow> string option) \<Rightarrow> passwd_env \<Rightarrow> string \<Rightarrow> string" where
  "resolve_fs_path labels getenv env stored =
     normpath (expanduser env (expandvars getenv (label_expand labels stored)))"

subsection \<open>Splitting into components\<close>

lemma split_components_Nil [simp]: "split_components [] = [[]]"
  by (subst split_components.simps) simp

lemma split_components_slash [simp]: "split_components (slash # r) = [] # split_components r"
  by (subst split_components.simps) simp

lemma split_components_Cons:
  "c \<noteq> slash \<Longrightarrow> split_components (c # cs) = (c # hd (split_components cs)) # tl (split_components cs)"
  by (simp add: split_components.simps [of cs] split_components.simps [of "c # cs"] Let_def)

lemma split_components_not_Nil [simp]: "split_components p \<noteq> []"
  by (subst split_components.simps) (simp add: Let_def)

lemma split_components_append_slash:
  "split_components (p @ slash # q) = split_components p @ split_components q"
proof (induction p)
  case (Cons c p)
  then show ?case by (cases "c = slash") (simp_all add: split_components_Cons)
qed simp

lemma split_components_no_slash: "slash \<notin> set p \<Longrightarrow> split_components p = [p]"
  by (induction p) (auto simp: split_components_Cons)

lemma split_components_replicate: "split_components (replicate k slash @ p) = replicate k [] @ split_components p"
  by (induction k) auto

lemma split_join_comps:
  "cs \<noteq> [] \<Longrightarrow> \<forall>c \<in> set cs. slash \<notin> set c \<Longrightarrow> split_components (join_comps cs) = cs"
  by (induction cs rule: join_comps.induct)
     (auto simp: split_components_no_slash split_components_append_slash)

lemma split_components_parts: "c \<in> set (split_components p) \<Longrightarrow> slash \<notin> set c"
proof (induction p arbitrary: c)
  case (Cons a p)
  have "hd (split_components p) \<in> set (split_components p)" by simp
  with Cons show ?case
    by (cases "a = slash") (auto simp: split_components_Cons dest: list.set_sel(2) [rotated])
qed simp

subsection \<open>Normal forms\<close>

text \<open>
  A normal component list has no empty, dot or slash-carrying component, and its
  parent references are a prefix, present only below a relative root.
\<close>

definition norm_comps :: "nat \<Rightarrow> string list \<Rightarrow> bool" where
  "norm_comps s cs \<longleftrightarrow>
     (\<forall>c \<in> set cs. c \<noteq> [] \<and> c \<noteq> ''.'' \<and> slash \<notin> set c) \<and>
     (\<exists>k ds. cs = replicate k ''..'' @ ds \<and> ''..'' \<notin> set ds \<and> (0 < s \<longrightarrow> k = 0))"

lemma norm_compsE:
  assumes "norm_comps s cs"
  obtains k ds where "cs = replicate k ''..'' @ ds" "''..'' \<notin> set ds" "0 < s \<longrightarrow> k = 0"
  using assms unfolding norm_comps_def by blast

lemma norm_comps_part:
  "norm_comps s cs \<Longrightarrow> c \<in> set cs \<Longrightarrow> c \<noteq> [] \<and> slash \<notin> set c"
  by (simp add: norm_comps_def)

lemma norm_comps_no_up: "norm_comps s cs \<Longrightarrow> 0 < s \<Longrightarrow> ''..'' \<notin> set cs"
  by (erule norm_compsE) simp

lemma norm_comps_Nil [simp]: "norm_comps s []"
  by (auto simp: norm_comps_def)

lemma norm_comps_butlast:
  assumes "norm_comps s cs" and "cs \<noteq> []" and "last cs \<noteq> ''..''"
  shows "norm_comps s (butlast cs)"
proof -
  obtain k ds where cs: "cs = replicate k ''..'' @ ds" "''..'' \<notin> set ds" "0 < s \<longrightarrow> k = 0"
    using assms(1) by (rule norm_compsE)
  have "ds \<noteq> []"
  proof
    assume "ds = []"
    with cs assms(2) have "last cs = ''..''" by (cases k) simp_all
    with assms(3) show False by simp
  qed
  then have "butlast cs = replicate k ''..'' @ butlast ds" by (simp add: cs(1) butlast_append)
  moreover have "''..'' \<notin> set (butlast ds)" using cs(2) by (metis in_set_butlastD)
  moreover have "\<forall>c \<in> set (butlast cs). c \<in> set cs" by (metis in_set_butlastD)
  ultimately show ?thesis using assms(1) cs(3) unfolding norm_comps_def by blast
qed

lemma norm_comps_snoc:
  assumes "norm_comps s cs" "c \<noteq> []" "c \<noteq> ''.''" "slash \<notin> set c"
    and "c \<noteq> ''..'' \<or> (s = 0 \<and> cs = []) \<or> (cs \<noteq> [] \<and> last cs = ''..'')"
  shows "norm_comps s (cs @ [c])"
proof -
  obtain k ds where cs: "cs = replicate k ''..'' @ ds" "''..'' \<notin> set ds" "0 < s \<longrightarrow> k = 0"
    using assms(1) by (rule norm_compsE)
  have "\<exists>k ds. cs @ [c] = replicate k ''..'' @ ds \<and> ''..'' \<notin> set ds \<and> (0 < s \<longrightarrow> k = 0)"
  proof (cases "c = ''..''")
    case True
    have "ds = []"
    proof (rule ccontr)
      assume "ds \<noteq> []"
      then have "last cs = last ds" "last ds \<in> set ds" by (simp_all add: cs(1))
      with True assms(5) cs \<open>ds \<noteq> []\<close> show False by auto
    qed
    with True assms(5) cs have "cs @ [c] = replicate (Suc k) ''..'' @ []" "\<not> 0 < s"
      by (auto simp: replicate_append_same)
    then show ?thesis by (metis list.set(1) empty_iff)
  next
    case False
    with cs have "cs @ [c] = replicate k ''..'' @ (ds @ [c])" "''..'' \<notin> set (ds @ [c])" by auto
    with cs(3) show ?thesis by blast
  qed
  with assms(1-4) show ?thesis unfolding norm_comps_def by auto
qed

lemma norm_push_norm:
  "norm_comps s cs \<Longrightarrow> slash \<notin> set c \<Longrightarrow> norm_comps s (norm_push s cs c)"
  unfolding norm_push_def
  by (auto intro: norm_comps_snoc norm_comps_butlast norm_comps_snoc [of _ "[]", simplified])

lemma norm_fold_norm:
  "norm_comps s acc \<Longrightarrow> \<forall>c \<in> set cs. slash \<notin> set c \<Longrightarrow> norm_comps s (foldl (norm_push s) acc cs)"
  by (induction cs arbitrary: acc) (auto intro: norm_push_norm)

lemma norm_fold_id:
  assumes "norm_comps s (acc @ cs)"
  shows "foldl (norm_push s) acc cs = acc @ cs"
  using assms
proof (induction cs arbitrary: acc)
  case (Cons c cs)
  obtain k ds where acc: "acc @ c # cs = replicate k ''..'' @ ds" "''..'' \<notin> set ds" "0 < s \<longrightarrow> k = 0"
    using Cons.prems by (rule norm_compsE)
  have "c \<noteq> []" "c \<noteq> ''.''" using Cons.prems by (auto simp: norm_comps_def)
  moreover have "c = ''..'' \<Longrightarrow> s = 0 \<and> (acc = [] \<or> last acc = ''..'')"
  proof -
    assume c: "c = ''..''"
    have n: "length acc < k"
    proof (rule ccontr)
      assume "\<not> length acc < k"
      then have "(replicate k ''..'' @ ds) ! length acc = ds ! (length acc - k)"
        "length acc - k < length ds"
        using arg_cong [OF acc(1), of length] by (auto simp: nth_append)
      with acc(1) c have "''..'' \<in> set ds" by (metis nth_append_length nth_mem)
      with acc(2) show False by simp
    qed
    then have "acc = replicate (length acc) ''..''"
      using arg_cong [OF acc(1), of "take (length acc)"] by (simp add: min_def)
    then have "acc \<noteq> [] \<Longrightarrow> last acc = ''..''"
      by (metis last_replicate length_0_conv)
    with n acc(3) show "s = 0 \<and> (acc = [] \<or> last acc = ''..'')" by auto
  qed
  ultimately have "norm_push s acc c = acc @ [c]" by (auto simp: norm_push_def)
  with Cons show ?case by simp
qed simp

lemma norm_fold_up:
  "''..'' \<notin> set (acc @ ds) \<Longrightarrow> foldl (norm_push s) (acc @ ds) (replicate (length ds) ''..'') = acc"
proof (induction ds rule: rev_induct)
  case (snoc d ds)
  have "last (acc @ ds @ [d]) \<noteq> ''..''" using snoc.prems by auto
  then have "norm_push s (acc @ ds @ [d]) ''..'' = acc @ ds"
    by (simp add: norm_push_def butlast_append)
  with snoc show ?case by simp
qed simp

lemma norm_push_skip [simp]: "norm_push s acc [] = acc" "norm_push s acc ''.'' = acc"
  by (simp_all add: norm_push_def)

lemma norm_fold_replicate [simp]: "foldl (norm_push s) acc (replicate k []) = acc"
  by (induction k) auto

lemma norm_fold_filter: "foldl (norm_push s) acc (filter (\<lambda>c. c \<noteq> []) cs) = foldl (norm_push s) acc cs"
  by (induction cs arbitrary: acc) auto

subsection \<open>Rendering a normal form\<close>

definition render :: "nat \<Rightarrow> string list \<Rightarrow> string" where
  "render s cs = replicate s slash @ join_comps cs"

lemma join_comps_Cons: "cs \<noteq> [] \<Longrightarrow> join_comps (c # cs) = c @ slash # join_comps cs"
  by (cases cs) auto

lemma join_comps_head:
  assumes "norm_comps s cs" "cs \<noteq> []"
  shows "\<exists>a r. join_comps cs = a # r \<and> a \<noteq> slash"
proof -
  obtain c cs' where cs: "cs = c # cs'" using assms(2) by (cases cs) auto
  with assms(1) obtain a r where "c = a # r" "a \<noteq> slash"
    by (cases c) (auto simp: norm_comps_def)
  with cs show ?thesis by (cases cs') auto
qed

lemma initial_slashes_bound: "initial_slashes p \<le> 2"
  by (simp add: initial_slashes_def)

lemma isabs_iff_slashes: "isabs p \<longleftrightarrow> 0 < initial_slashes p"
  by (simp add: initial_slashes_def isabs_def)

lemma initial_slashes_render:
  assumes "norm_comps s cs" "s \<le> 2" "render s cs \<noteq> []"
  shows "initial_slashes (render s cs) = s"
proof -
  have two: "replicate 2 slash = [slash, slash]" by (simp add: numeral_2_eq_2)
  have s: "s = 0 \<or> s = 1 \<or> s = 2" using assms(2) by auto
  consider "cs = []" | a r where "join_comps cs = a # r" "a \<noteq> slash"
    using join_comps_head [OF assms(1)] by blast
  then show ?thesis
    using s assms(3) by cases (auto simp: initial_slashes_def render_def two)
qed

lemma fold_split_render:
  assumes "norm_comps s cs"
  shows "foldl (norm_push s) [] (split_components (render s cs)) = cs"
proof (cases "cs = []")
  case True
  then show ?thesis by (simp add: render_def split_components_replicate [of _ "[]", simplified])
next
  case False
  moreover have "\<forall>c \<in> set cs. slash \<notin> set c" using assms by (simp add: norm_comps_def)
  ultimately show ?thesis
    using norm_fold_id [of s "[]" cs] assms
    by (simp add: render_def split_components_replicate split_join_comps)
qed

lemma normpath_render:
  assumes "norm_comps s cs" "s \<le> 2" "render s cs \<noteq> []"
  shows "normpath (render s cs) = render s cs"
  using assms by (simp add: normpath_def initial_slashes_render fold_split_render Let_def
      flip: render_def)

lemma normpath_dot [simp]: "normpath ''.'' = ''.''"
  by (simp add: normpath_def initial_slashes_def split_components_no_slash)

lemma normpath_cases:
  obtains (dot) "normpath p = ''.''" "\<not> isabs p"
  | (comps) cs where "normpath p = render (initial_slashes p) cs"
      "norm_comps (initial_slashes p) cs" "render (initial_slashes p) cs \<noteq> []"
proof (cases "p = []")
  case True
  with dot show ?thesis by (simp add: normpath_def isabs_def)
next
  case False
  let ?cs = "foldl (norm_push (initial_slashes p)) [] (split_components p)"
  have cs: "norm_comps (initial_slashes p) ?cs"
    by (intro norm_fold_norm) (auto dest: split_components_parts)
  show ?thesis
  proof (cases "render (initial_slashes p) ?cs = []")
    case True
    then have "initial_slashes p = 0" by (simp add: render_def)
    then have "\<not> isabs p" by (simp add: initial_slashes_def isabs_def split: if_splits)
    with True False dot show ?thesis by (simp add: normpath_def Let_def flip: render_def)
  next
    case ne: False
    with False have "normpath p = render (initial_slashes p) ?cs"
      by (simp add: normpath_def Let_def flip: render_def)
    with cs ne comps show ?thesis by blast
  qed
qed

lemma normpath_stable: "normpath (normpath p) = normpath p" "isabs (normpath p) = isabs p"
proof -
  have "normpath (normpath p) = normpath p \<and> isabs (normpath p) = isabs p"
  proof (cases p rule: normpath_cases)
    case dot
    then show ?thesis by (simp add: isabs_def)
  next
    case (comps cs)
    have "initial_slashes (normpath p) = initial_slashes p"
      using comps initial_slashes_bound by (simp add: initial_slashes_render)
    moreover have "normpath (normpath p) = normpath p"
      using comps initial_slashes_bound by (simp add: normpath_render)
    ultimately show ?thesis by (simp only: isabs_iff_slashes)
  qed
  then show "normpath (normpath p) = normpath p" "isabs (normpath p) = isabs p" by simp_all
qed

lemma abspath_stable:
  assumes "isabs cwd"
  shows "isabs (abspath cwd p)" "abspath cwd (abspath cwd p) = abspath cwd p" "normpath (abspath cwd p) = abspath cwd p"
proof -
  have "isabs (join cwd [p])" using assms by (auto simp: join_def join_one_def isabs_def nth_append)
  then show "isabs (abspath cwd p)" by (simp add: abspath_def normpath_stable)
  then show "abspath cwd (abspath cwd p) = abspath cwd p" by (simp add: abspath_def normpath_stable)
  show "normpath (abspath cwd p) = abspath cwd p" by (simp add: abspath_def normpath_stable)
qed

text \<open>
  Path normalisation is idempotent and never changes whether a path is
  absolute, so a stored normalised path is its own canonical key.
\<close>

theorem normpath_idempotent:
  "normpath (normpath p) = normpath p \<and> isabs (normpath p) = isabs p"
  by (simp add: normpath_stable)

text \<open>
  The shape of a normalised path : it is the single dot, or at most two
  slashes followed by components that are non-empty, are no dot, hold no slash, and
  in which parent references occur only as a prefix of a relative path.
\<close>

theorem normpath_normal_form:
  "normpath p = ''.'' \<or>
   (\<exists>cs k ds. normpath p = replicate (initial_slashes p) slash @ join_comps cs
      \<and> list_all (\<lambda>c. c \<noteq> [] \<and> c \<noteq> ''.'' \<and> slash \<notin> set c) cs
      \<and> cs = replicate k ''..'' @ ds \<and> ''..'' \<notin> set ds
      \<and> (if isabs p then k = 0 else initial_slashes p = 0) \<and> initial_slashes p \<le> 2)"
proof (cases p rule: normpath_cases)
  case (comps cs)
  obtain k ds where *: "cs = replicate k ''..'' @ ds" "''..'' \<notin> set ds" "0 < initial_slashes p \<longrightarrow> k = 0"
    using comps(2) by (rule norm_compsE)
  show ?thesis
  proof (rule disjI2, rule exI [of _ cs], rule exI [of _ k], rule exI [of _ ds], intro conjI)
    show "list_all (\<lambda>c. c \<noteq> [] \<and> c \<noteq> ''.'' \<and> slash \<notin> set c) cs"
      using comps(2) by (simp add: norm_comps_def list_all_iff)
    show "if isabs p then k = 0 else initial_slashes p = 0"
      using *(3) by (simp add: isabs_iff_slashes)
  qed (use * comps(1) initial_slashes_bound in \<open>simp_all add: render_def\<close>)
qed simp

subsection \<open>Relative paths\<close>

lemma common_length_take: "take (common_length xs ys) xs = take (common_length xs ys) ys"
  by (induction xs ys rule: common_length.induct) auto

lemma join_comps_concat: "join_comps (c # cs) = c @ concat (map ((#) slash) cs)"
  by (induction cs arbitrary: c) auto

lemma foldl_join_one:
  assumes "acc \<noteq> []" "last acc \<noteq> slash" "\<forall>c \<in> set cs. c \<noteq> [] \<and> slash \<notin> set c"
  shows "foldl join_one acc cs = acc @ concat (map ((#) slash) cs)"
  using assms
proof (induction cs arbitrary: acc)
  case (Cons c cs)
  have c: "c \<noteq> []" "slash \<notin> set c" using Cons.prems(3) by auto
  then have "c ! 0 \<noteq> slash" "last c \<noteq> slash" by (metis length_greater_0_conv nth_mem, metis last_in_set)
  with Cons.prems c have "join_one acc c = acc @ slash # c"
    by (auto simp: join_one_def)
  moreover have "foldl join_one (acc @ slash # c) cs = (acc @ slash # c) @ concat (map ((#) slash) cs)"
    using Cons.prems(3) c \<open>last c \<noteq> slash\<close> by (intro Cons.IH) auto
  ultimately show ?case by simp
qed simp

lemma foldl_join_one_Nil:
  assumes "\<forall>c \<in> set cs. c \<noteq> [] \<and> slash \<notin> set c"
  shows "foldl join_one [] cs = join_comps cs"
proof (cases cs)
  case (Cons c cs')
  then have "c \<noteq> []" "slash \<notin> set c" using assms by auto
  then have "c ! 0 \<noteq> slash" "last c \<noteq> slash" by (metis length_greater_0_conv nth_mem, metis last_in_set)
  then have "join_one [] c = c" by (simp add: join_one_def)
  with Cons assms \<open>c \<noteq> []\<close> \<open>last c \<noteq> slash\<close> show ?thesis
    by (simp add: foldl_join_one join_comps_concat del: join_comps.simps)
qed simp

lemma filter_split_render:
  assumes "norm_comps s cs"
  shows "filter (\<lambda>c. c \<noteq> []) (split_components (render s cs)) = cs"
proof (cases "cs = []")
  case True
  then show ?thesis by (simp add: render_def split_components_replicate [of _ "[]", simplified])
next
  case False
  moreover have "\<forall>c \<in> set cs. slash \<notin> set c \<and> c \<noteq> []" using norm_comps_part [OF assms] by blast
  ultimately show ?thesis
    by (simp add: render_def split_components_replicate split_join_comps filter_id_conv)
qed

lemma last_join_comps:
  assumes "\<forall>c \<in> set cs. c \<noteq> [] \<and> slash \<notin> set c" "cs \<noteq> []"
  shows "join_comps cs \<noteq> [] \<and> last (join_comps cs) \<noteq> slash"
  using assms
proof (induction cs rule: join_comps.induct)
  case (2 x)
  then show ?case by (auto dest: last_in_set)
qed auto

lemma join_comps_first: "c \<noteq> [] \<Longrightarrow> join_comps (c # cs) \<noteq> [] \<and> join_comps (c # cs) ! 0 = c ! 0"
  by (simp add: join_comps_concat nth_append del: join_comps.simps)

lemma normpath_by_comps:
  "initial_slashes p = 1 \<Longrightarrow>
   normpath p = render 1 (foldl (norm_push 1) [] (filter (\<lambda>c. c \<noteq> []) (split_components p)))"
  by (cases "p = []") (simp add: initial_slashes_def, simp add: normpath_def norm_fold_filter render_def)

lemma join_one_comps:
  assumes "norm_comps 1 cs" "rel \<noteq> []" "rel ! 0 \<noteq> slash"
  shows "filter (\<lambda>c. c \<noteq> []) (split_components (join_one (render 1 cs) rel))
           = cs @ filter (\<lambda>c. c \<noteq> []) (split_components rel)
         \<and> initial_slashes (join_one (render 1 cs) rel) = 1"
proof (cases "cs = []")
  case True
  with assms(2,3) show ?thesis
    by (cases rel) (auto simp: render_def join_one_def initial_slashes_def)
next
  case False
  have cs: "\<forall>c \<in> set cs. c \<noteq> [] \<and> slash \<notin> set c" using norm_comps_part [OF assms(1)] by blast
  obtain a r where ar: "join_comps cs = a # r" "a \<noteq> slash"
    using join_comps_head [OF assms(1) False] by blast
  have "join_one (render 1 cs) rel = render 1 cs @ slash # rel"
    using last_join_comps [OF cs False] assms(3) ar by (auto simp: join_one_def render_def)
  moreover have "initial_slashes (render 1 cs @ slash # rel) = 1"
    using ar by (simp add: initial_slashes_def render_def)
  ultimately show ?thesis
    using filter_split_render [OF assms(1)] by (simp add: split_components_append_slash)
qed

lemma abspath_comps:
  assumes "initial_slashes (abspath cwd p) = 1"
  obtains cs where "abspath cwd p = render 1 cs" "norm_comps 1 cs" "abs_parts cwd p = cs"
proof -
  define q where "q = (if isabs p then p else join cwd [p])"
  have q: "abspath cwd p = normpath q" by (simp add: abspath_def q_def)
  show ?thesis
  proof (cases q rule: normpath_cases)
    case dot
    with assms q show ?thesis by (simp add: initial_slashes_def)
  next
    case (comps cs)
    with assms q have "initial_slashes q = 1"
      using initial_slashes_render [OF comps(2) initial_slashes_bound comps(3)] by simp
    with comps q that filter_split_render [of 1 cs] show ?thesis by (simp add: abs_parts_def)
  qed
qed

text \<open>
  Relative paths : for two paths below the ordinary root, \<^verbatim>\<open>relpath\<close>
  succeeds, and joining its result onto the start directory and normalising
  gives the absolute path it came from.
\<close>

theorem relpath_roundtrip:
  assumes "path \<noteq> []"
    and "initial_slashes (abspath cwd start) = 1" and "initial_slashes (abspath cwd path) = 1"
  shows "\<exists>rel. relpath cwd path start = Inr rel
           \<and> normpath (join (abspath cwd start) [rel]) = abspath cwd path"
proof -
  obtain sl where sl: "abspath cwd start = render 1 sl" "norm_comps 1 sl" "abs_parts cwd start = sl"
    using assms(2) by (rule abspath_comps)
  obtain pl where pl: "abspath cwd path = render 1 pl" "norm_comps 1 pl" "abs_parts cwd path = pl"
    using assms(3) by (rule abspath_comps)
  define n where "n = common_length sl pl"
  define rs where "rs = replicate (length (drop n sl)) ''..'' @ drop n pl"
  define rel where "rel = (if rs = [] then ''.'' else join_comps rs)"
  have parts: "\<forall>c \<in> set rs. c \<noteq> [] \<and> slash \<notin> set c"
    using norm_comps_part [OF pl(2)] by (auto simp: rs_def dest!: in_set_dropD)
  have pl_parts: "''..'' \<notin> set sl"
    using sl(2) by (rule norm_comps_no_up) simp
  have "foldl (\<lambda>rel _. join_one rel ''..'') [] xs = foldl join_one [] (replicate (length xs) ''..'')"
    for xs :: "string list" by (induction xs rule: rev_induct) (auto simp flip: replicate_append_same)
  then have *: "foldl join_one (foldl (\<lambda>rel _. join_one rel ''..'') [] (drop n sl)) (drop n pl) = join_comps rs"
    using foldl_join_one_Nil [OF parts] by (simp add: rs_def)
  then have r: "relpath cwd path start = Inr rel"
    using assms(1) last_join_comps [OF parts] sl(3) pl(3)
    by (auto simp: relpath_def n_def rel_def Let_def)
  have rel: "rel \<noteq> []" "rel ! 0 \<noteq> slash"
    and comps: "foldl (norm_push 1) acc (filter (\<lambda>c. c \<noteq> []) (split_components rel)) = foldl (norm_push 1) acc rs"
    for acc
  proof -
    show "foldl (norm_push 1) acc (filter (\<lambda>c. c \<noteq> []) (split_components rel)) = foldl (norm_push 1) acc rs"
      using parts by (simp add: rel_def norm_fold_filter split_join_comps split_components_no_slash)
    have "rs \<noteq> [] \<Longrightarrow> hd rs \<noteq> [] \<and> hd rs ! 0 \<noteq> slash"
      using parts by (metis hd_in_set length_greater_0_conv nth_mem)
    then show "rel \<noteq> []" "rel ! 0 \<noteq> slash"
      using join_comps_first [of "hd rs" "tl rs"] by (auto simp: rel_def)
  qed
  have "foldl (norm_push 1) [] (sl @ rs) = foldl (norm_push 1) sl rs"
    using norm_fold_id [of 1 "[]" sl] sl(2) by simp
  also have "\<dots> = foldl (norm_push 1) (take n sl) (drop n pl)"
    using norm_fold_up [of "take n sl" "drop n sl" 1] pl_parts by (simp add: rs_def)
  also have "\<dots> = pl"
    using norm_fold_id [of 1 "take n pl" "drop n pl"] pl(2) common_length_take [of sl pl] by (simp add: n_def)
  finally have "normpath (join (abspath cwd start) [rel]) = abspath cwd path"
    using join_one_comps [OF sl(2) rel] comps sl(1) pl(1) by (simp add: join_def normpath_by_comps)
  with r show ?thesis by blast
qed

theorem relpath_roundtrip_witness:
  "\<exists>rel. relpath ''/w'' ''../b/./c'' ''a'' = Inr rel
     \<and> normpath (join (abspath ''/w'' ''a'') [rel]) = abspath ''/w'' ''../b/./c''"
  by (rule relpath_roundtrip) (code_simp)+

subsection \<open>The resolution chain\<close>

lemma match_var_text:
  assumes "match_var r = Some (name, rest)"
  shows "name @ rest = r"
proof -
  have *: "takeWhile P xs @ drop (length (takeWhile P xs)) xs = xs" for P and xs :: string
    by (metis append_take_drop_id takeWhile_eq_take)
  have "drop (length (takeWhile (\<lambda>c. c \<noteq> CHR ''}'') xs)) xs = [] \<or>
        (\<exists>ys. drop (length (takeWhile (\<lambda>c. c \<noteq> CHR ''}'') xs)) xs = CHR ''}'' # ys)" for xs
    by (induction xs) auto
  with assms * [of is_word_char r] * [of "\<lambda>c. c \<noteq> CHR ''}''" "tl r"] show ?thesis
    by (cases r) (fastforce simp: match_var_def Let_def split: if_splits)+
qed

lemma expand_match_undefined: "expand_match (\<lambda>_. None) name = CHR ''$'' # name"
  by (auto simp: expand_match_def Let_def)

lemma expand_loop_undefined: "expand_loop (\<lambda>_. None) r = r"
  by (induction "\<lambda>_::string. None::string option" r rule: expand_loop.induct)
     (auto simp: expand_match_undefined split: option.splits dest: match_var_text)

lemma label_loop_unresolved:
  assumes "\<And>name. expand_label labels name = CHR ''<'' # name @ ''>''"
  shows "label_loop labels r = r"
proof (induction r rule: measure_induct_rule [of length])
  case (less r)
  let ?r1 = "dropWhile (\<lambda>c. c \<noteq> CHR ''<'') r"
  let ?r2 = "dropWhile (\<lambda>c. c \<noteq> CHR ''>'') (tl ?r1)"
  show ?case
  proof (cases "?r1 = [] \<or> ?r2 = []")
    case True
    then show ?thesis by (subst label_loop.simps) (auto simp: Let_def)
  next
    case False
    then have "hd ?r1 = CHR ''<''" "hd ?r2 = CHR ''>''"
      using hd_dropWhile [of "\<lambda>c. c \<noteq> CHR ''<''" r] hd_dropWhile [of "\<lambda>c. c \<noteq> CHR ''>''" "tl ?r1"]
      by simp_all
    then obtain t u where t: "?r1 = CHR ''<'' # t" and u: "?r2 = CHR ''>'' # u"
      using False that [of "tl ?r1" "tl ?r2"] list.collapse [of ?r1] list.collapse [of ?r2] by simp
    have "length u < length r"
      using length_dropWhile_le [of "\<lambda>c. c \<noteq> CHR ''<''" r] length_dropWhile_le [of "\<lambda>c. c \<noteq> CHR ''>''" t]
        t u by simp
    then have IH: "label_loop labels u = u" by (rule less.IH)
    have "takeWhile (\<lambda>c. c \<noteq> CHR ''>'') t @ CHR ''>'' # u = t"
      using u t takeWhile_dropWhile_id [of "\<lambda>c. c \<noteq> CHR ''>''" t] by simp
    then show ?thesis
      using t u IH takeWhile_dropWhile_id [of "\<lambda>c. c \<noteq> CHR ''<''" r]
      by (subst label_loop.simps) (simp add: Let_def assms)
  qed
qed

text \<open>
  Unresolvable references : with no registry hit, automatic derivation off and no
  variable defined, label and variable expansion leave every path byte for byte as it
  is, and the whole resolution chain is the normalisation of the user expansion.
\<close>

theorem resolve_unresolvable:
  fixes env :: passwd_env
  shows "label_expand \<lparr>lookup = None, autoderive = False\<rparr> stored = stored
       \<and> expandvars (\<lambda>_. None) stored = stored
       \<and> resolve_fs_path \<lparr>lookup = None, autoderive = False\<rparr> (\<lambda>_. None) env stored
           = normpath (expanduser env stored)"
proof -
  have "label_expand \<lparr>lookup = None, autoderive = False\<rparr> stored = stored"
    by (simp add: label_expand_def label_loop_unresolved expand_label_def)
  moreover have "expandvars (\<lambda>_. None) stored = stored"
    by (simp add: expandvars_def expand_loop_undefined)
  ultimately show ?thesis by (simp add: resolve_fs_path_def)
qed

subsection \<open>Directory and file name\<close>

lemma strip_trailing_slashes_append: "\<exists>k. s = strip_trailing_slashes s @ replicate k slash"
proof -
  have "takeWhile (\<lambda>c. c = slash) (rev s) = replicate (length (takeWhile (\<lambda>c. c = slash) (rev s))) slash"
    by (rule replicate_length_same [symmetric]) (auto dest: set_takeWhileD)
  moreover have "rev s = takeWhile (\<lambda>c. c = slash) (rev s) @ dropWhile (\<lambda>c. c = slash) (rev s)" by simp
  ultimately obtain k where "rev s = replicate k slash @ dropWhile (\<lambda>c. c = slash) (rev s)" by metis
  from arg_cong [OF this, of rev] show ?thesis by (auto simp: strip_trailing_slashes_def)
qed

text \<open>
  Splitting a path loses only separators: the directory name, some
  slashes and the base name make up the path again, and the base name holds no slash.
\<close>

theorem split_reassembles:
  "\<exists>k. path = dirname path @ replicate k slash @ basename path \<and> slash \<notin> set (basename path)"
proof (cases "slash \<in> set path")
  case False
  then show ?thesis by (auto simp: dirname_def basename_def split_def intro: exI [of _ 0])
next
  case True
  define tail where "tail = rev (takeWhile (\<lambda>c. c \<noteq> slash) (rev path))"
  define hd' where "hd' = take (length path - length tail) path"
  have "path = rev (dropWhile (\<lambda>c. c \<noteq> slash) (rev path)) @ tail"
    unfolding tail_def by (metis rev_append rev_rev_ident takeWhile_dropWhile_id)
  then have path: "path = hd' @ tail" unfolding hd'_def
    by (metis append_eq_conv_conj diff_add_inverse2 length_append)
  have "slash \<notin> set tail" unfolding tail_def by (auto dest: set_takeWhileD)
  moreover obtain k where "hd' = strip_trailing_slashes hd' @ replicate k slash"
    using strip_trailing_slashes_append by blast
  moreover have "dirname path = (if \<exists>c \<in> set hd'. c \<noteq> slash then strip_trailing_slashes hd' else hd')"
    and "basename path = tail"
    using True by (simp_all add: dirname_def basename_def split_def Let_def flip: tail_def hd'_def)
  ultimately show ?thesis using path by (metis append.assoc append_Nil replicate_0)
qed

end
