(* ===== verification/Cleanup_Plan.thy ===== *)
theory Cleanup_Plan
  imports Json_Roundtrip Path_Util
begin

text \<open>
  The cleanup-plan artifact of include hygiene (\<^verbatim>\<open>include_hygiene/plan.hpp\<close>,
  \<^verbatim>\<open>plan.cpp\<close>): the records of a plan, its serialization to canonical JSON, the
  checked reader that treats an artifact as untrusted input, and the freshness
  test against the files on disk. A \<^verbatim>\<open>std::map\<close> is its entries in key order; the
  narrowing \<^verbatim>\<open>static_cast<int>\<close> of a 64-bit JSON number is written out.
\<close>

subsection \<open>The records of a plan\<close>

record ValidationRecord =
  vr_stage :: string
  vr_tu_path :: string
  vr_config :: string
  vr_ok :: bool
  vr_diagnostic :: string

datatype PlanState = Accepted | Rejected | ManualReview

record PlanItem =
  pi_id :: string
  pi_file :: string
  pi_abs_path :: string
  pi_line :: int
  pi_col :: int
  pi_begin_offset :: int
  pi_end_offset :: int
  pi_directive_text :: string
  pi_resolved_target :: string
  pi_classification :: string
  pi_state :: PlanState
  pi_reason :: string
  pi_owners :: "string list"
  pi_header_symbols :: "string list"
  pi_intersection_count :: int
  pi_reference_kinds_searched :: "string list"
  pi_macro_uses :: "string list"
  pi_guarded :: bool
  pi_reverse_dependants :: "string list"
  pi_affected_tus :: "string list"
  pi_configs :: "string list"
  pi_validations :: "ValidationRecord list"

record CleanupPlan =
  cp_format_version :: int
  cp_repo_root :: string
  cp_db_path :: string
  cp_schema_version :: int
  cp_resolved_at :: string
  cp_config_digests :: "string list"
  cp_file_hashes :: "(string \<times> string) list"
  cp_items :: "PlanItem list"
  cp_validations :: "ValidationRecord list"
  cp_limitations :: "string list"

definition kPlanFormatVersion :: int where "kPlanFormatVersion = 1"

fun plan_state_name :: "PlanState \<Rightarrow> string" where
  "plan_state_name Accepted = ''validated_for_apply''"
| "plan_state_name Rejected = ''rejected''"
| "plan_state_name ManualReview = ''manual_review''"

definition plan_state_from :: "string \<Rightarrow> PlanState option" where
  "plan_state_from name =
     (if name = ''validated_for_apply'' then Some Accepted
      else if name = ''rejected'' then Some Rejected
      else if name = ''manual_review'' then Some ManualReview
      else None)"

subsection \<open>Serialization\<close>

definition str_array :: "string list \<Rightarrow> jvalue" where
  "str_array v = JArr (map JStr v)"

definition validation_json :: "ValidationRecord \<Rightarrow> jvalue" where
  "validation_json r = JObj
     [(''stage'', JStr (vr_stage r)), (''tu'', JStr (vr_tu_path r)), (''config'', JStr (vr_config r)),
      (''ok'', JBool (vr_ok r)), (''diagnostic'', JStr (vr_diagnostic r))]"

definition validations_json :: "ValidationRecord list \<Rightarrow> jvalue" where
  "validations_json v = JArr (map validation_json v)"

definition evidence_json :: "PlanItem \<Rightarrow> jvalue" where
  "evidence_json it = JObj
     [(''owners'', str_array (pi_owners it)),
      (''header_symbols'', str_array (pi_header_symbols it)),
      (''intersection_count'', JInt (pi_intersection_count it)),
      (''reference_kinds_searched'', str_array (pi_reference_kinds_searched it)),
      (''macro_uses'', str_array (pi_macro_uses it)),
      (''guarded'', JBool (pi_guarded it)),
      (''reverse_dependants'', str_array (pi_reverse_dependants it))]"

definition item_json :: "PlanItem \<Rightarrow> jvalue" where
  "item_json it = JObj
     [(''id'', JStr (pi_id it)), (''file'', JStr (pi_file it)),
      (''line'', JInt (pi_line it)), (''col'', JInt (pi_col it)),
      (''begin_offset'', JInt (pi_begin_offset it)), (''end_offset'', JInt (pi_end_offset it)),
      (''directive_text'', JStr (pi_directive_text it)),
      (''resolved_target'', JStr (pi_resolved_target it)),
      (''classification'', JStr (pi_classification it)),
      (''state'', JStr (plan_state_name (pi_state it))),
      (''reason'', JStr (pi_reason it)),
      (''evidence'', evidence_json it),
      (''affected_tus'', str_array (pi_affected_tus it)),
      (''configs'', str_array (pi_configs it)),
      (''validations'', validations_json (pi_validations it))]"

definition hash_json :: "string \<times> string \<Rightarrow> jvalue" where
  "hash_json fh = JObj [(''file'', JStr (fst fh)), (''sha1'', JStr (snd fh))]"

definition plan_json :: "CleanupPlan \<Rightarrow> jvalue" where
  "plan_json p = JObj
     [(''format_version'', JInt (cp_format_version p)), (''repo_root'', JStr (cp_repo_root p)),
      (''db_path'', JStr (cp_db_path p)), (''schema_version'', JInt (cp_schema_version p)),
      (''resolved_at'', JStr (cp_resolved_at p)),
      (''config_digests'', str_array (cp_config_digests p)),
      (''file_hashes'', JArr (map hash_json (cp_file_hashes p))),
      (''limitations'', str_array (cp_limitations p)),
      (''validations'', validations_json (cp_validations p)),
      (''items'', JArr (map item_json (cp_items p)))]"

definition serialize :: "CleanupPlan \<Rightarrow> string" where
  "serialize p = dumps_indent2 (plan_json p)"

subsection \<open>The checked reader\<close>

datatype plan_error = Bad_json read_error | Bad_plan string

definition bad :: "string \<Rightarrow> plan_error + 'a" where
  "bad what = Inl (Bad_plan what)"

definition quoted :: "string \<Rightarrow> string" where
  "quoted s = [CHR 0x27] @ s @ [CHR 0x27]"

fun member :: "jvalue \<Rightarrow> string \<Rightarrow> jvalue option" where
  "member (JObj m) key = map_of m key"
| "member _ key = None"

text \<open>\<^verbatim>\<open>require\<close> at each of the types the callers ask for.\<close>

definition require :: "(jvalue \<Rightarrow> 'a option) \<Rightarrow> jvalue \<Rightarrow> string \<Rightarrow> plan_error + 'a" where
  "require typed obj key =
     (case member obj key of
        None \<Rightarrow> bad (''missing required field '' @ quoted key)
      | Some v \<Rightarrow>
          (case typed v of
             None \<Rightarrow> bad (''field '' @ quoted key @ '' has the wrong type'')
           | Some x \<Rightarrow> Inr x))"

fun as_str :: "jvalue \<Rightarrow> string option" where
  "as_str (JStr s) = Some s" | "as_str _ = None"

fun as_int :: "jvalue \<Rightarrow> int option" where
  "as_int (JInt i) = Some i" | "as_int _ = None"

fun as_arr :: "jvalue \<Rightarrow> jvalue list option" where
  "as_arr (JArr a) = Some a" | "as_arr _ = None"

fun is_obj :: "jvalue \<Rightarrow> bool" where
  "is_obj (JObj m) = True" | "is_obj _ = False"

definition opt_str :: "jvalue \<Rightarrow> string \<Rightarrow> string" where
  "opt_str obj key = (case member obj key of Some (JStr s) \<Rightarrow> s | _ \<Rightarrow> [])"

definition opt_int :: "jvalue \<Rightarrow> string \<Rightarrow> int" where
  "opt_int obj key = (case member obj key of Some (JInt i) \<Rightarrow> i | _ \<Rightarrow> 0)"

definition opt_bool :: "jvalue \<Rightarrow> string \<Rightarrow> bool" where
  "opt_bool obj key = (case member obj key of Some (JBool b) \<Rightarrow> b | _ \<Rightarrow> False)"

definition opt_str_array :: "jvalue \<Rightarrow> string \<Rightarrow> plan_error + string list" where
  "opt_str_array obj key =
     (case member obj key of
        Some (JArr a) \<Rightarrow>
          mapE (\<lambda>e. case e of JStr s \<Rightarrow> Inr s
                    | _ \<Rightarrow> bad (''field '' @ quoted key @ '' must be an array of strings'')) a
      | _ \<Rightarrow> Inr [])"

definition read_validation :: "string \<Rightarrow> jvalue \<Rightarrow> plan_error + ValidationRecord" where
  "read_validation key e =
     (if \<not> is_obj e then bad (''field '' @ quoted key @ '' must be an array of objects'')
      else Inr \<lparr>vr_stage = opt_str e ''stage'', vr_tu_path = opt_str e ''tu'',
                vr_config = opt_str e ''config'', vr_ok = opt_bool e ''ok'',
                vr_diagnostic = opt_str e ''diagnostic''\<rparr>)"

definition read_validations :: "jvalue \<Rightarrow> string \<Rightarrow> plan_error + ValidationRecord list" where
  "read_validations obj key =
     (case member obj key of Some (JArr a) \<Rightarrow> mapE (read_validation key) a | _ \<Rightarrow> Inr [])"

text \<open>\<^verbatim>\<open>static_cast<int>\<close> of a 64-bit value: the low 32 bits, read as signed.\<close>

definition cast_int32 :: "int \<Rightarrow> int" where
  "cast_int32 i = (i + 2 ^ 31) mod 2 ^ 32 - 2 ^ 31"

fun read_hashes :: "(string \<times> string) list \<Rightarrow> jvalue list \<Rightarrow> plan_error + (string \<times> string) list" where
  "read_hashes acc [] = Inr acc"
| "read_hashes acc (h # hs) =
     (if \<not> is_obj h then bad ''file_hashes must be an array of objects''
      else bindE (require as_str h ''sha1'') (\<lambda>sha1.
             bindE (require as_str h ''file'') (\<lambda>file.
               read_hashes (omap_insert file sha1 acc) hs)))"

record evidence =
  ev_owners :: "string list"
  ev_header_symbols :: "string list"
  ev_intersection_count :: int
  ev_kinds :: "string list"
  ev_macro_uses :: "string list"
  ev_guarded :: bool
  ev_reverse_dependants :: "string list"

definition read_evidence :: "jvalue \<Rightarrow> plan_error + evidence" where
  "read_evidence e =
     (case member e ''evidence'' of
        Some (JObj m) \<Rightarrow>
          (let ev = JObj m in
           bindE (opt_str_array ev ''owners'') (\<lambda>owners.
           bindE (opt_str_array ev ''header_symbols'') (\<lambda>symbols.
           bindE (opt_str_array ev ''reference_kinds_searched'') (\<lambda>kinds.
           bindE (opt_str_array ev ''macro_uses'') (\<lambda>macros.
           bindE (opt_str_array ev ''reverse_dependants'') (\<lambda>dependants.
             Inr \<lparr>ev_owners = owners, ev_header_symbols = symbols,
                  ev_intersection_count = opt_int ev ''intersection_count'',
                  ev_kinds = kinds, ev_macro_uses = macros, ev_guarded = opt_bool ev ''guarded'',
                  ev_reverse_dependants = dependants\<rparr>))))))
      | _ \<Rightarrow> Inr \<lparr>ev_owners = [], ev_header_symbols = [], ev_intersection_count = 0, ev_kinds = [],
                   ev_macro_uses = [], ev_guarded = False, ev_reverse_dependants = []\<rparr>)"

definition read_state :: "string \<Rightarrow> string \<Rightarrow> plan_error + PlanState" where
  "read_state item_id state =
     (case plan_state_from state of
        Some s \<Rightarrow> Inr s
      | None \<Rightarrow> bad (''item '' @ quoted item_id @ '' has an unknown state '' @ quoted state))"

definition read_item :: "jvalue \<Rightarrow> plan_error + PlanItem" where
  "read_item e =
     (if \<not> is_obj e then bad ''items must be an array of objects''
      else
        bindE (require as_str e ''id'') (\<lambda>item_id.
        bindE (require as_str e ''file'') (\<lambda>file.
        bindE (require as_int e ''begin_offset'') (\<lambda>begin_offset.
        bindE (require as_int e ''end_offset'') (\<lambda>end_offset.
        if begin_offset < 0 \<or> end_offset < begin_offset
        then bad (''item '' @ quoted item_id @ '' has an inverted or negative byte range'')
        else
          bindE (require as_str e ''directive_text'') (\<lambda>directive_text.
          bindE (require as_str e ''state'') (\<lambda>state_name.
          bindE (read_state item_id state_name) (\<lambda>state.
          bindE (read_evidence e) (\<lambda>ev.
          bindE (opt_str_array e ''affected_tus'') (\<lambda>affected_tus.
          bindE (opt_str_array e ''configs'') (\<lambda>configs.
          bindE (read_validations e ''validations'') (\<lambda>validations.
            Inr \<lparr>pi_id = item_id, pi_file = file, pi_abs_path = [],
                 pi_line = opt_int e ''line'', pi_col = opt_int e ''col'',
                 pi_begin_offset = begin_offset, pi_end_offset = end_offset,
                 pi_directive_text = directive_text,
                 pi_resolved_target = opt_str e ''resolved_target'',
                 pi_classification = opt_str e ''classification'',
                 pi_state = state, pi_reason = opt_str e ''reason'',
                 pi_owners = ev_owners ev, pi_header_symbols = ev_header_symbols ev,
                 pi_intersection_count = ev_intersection_count ev,
                 pi_reference_kinds_searched = ev_kinds ev,
                 pi_macro_uses = ev_macro_uses ev, pi_guarded = ev_guarded ev,
                 pi_reverse_dependants = ev_reverse_dependants ev,
                 pi_affected_tus = affected_tus, pi_configs = configs,
                 pi_validations = validations\<rparr>))))))))))))"

definition read_file_hashes :: "jvalue \<Rightarrow> plan_error + (string \<times> string) list" where
  "read_file_hashes root =
     (case member root ''file_hashes'' of Some (JArr a) \<Rightarrow> read_hashes [] a | _ \<Rightarrow> Inr [])"

definition read_plan :: "jvalue \<Rightarrow> plan_error + CleanupPlan" where
  "read_plan root =
     (if \<not> is_obj root then bad ''top level must be an object''
      else
        bindE (require as_int root ''format_version'') (\<lambda>version.
        let format_version = cast_int32 version in
        if format_version \<noteq> kPlanFormatVersion
        then bad (''unsupported format_version '' @ show_int format_version
                  @ '' (this build writes and reads version '' @ show_int kPlanFormatVersion
                  @ ''); regenerate the plan'')
        else
          bindE (require as_str root ''repo_root'') (\<lambda>repo_root.
          bindE (opt_str_array root ''config_digests'') (\<lambda>config_digests.
          bindE (opt_str_array root ''limitations'') (\<lambda>limitations.
          bindE (read_validations root ''validations'') (\<lambda>validations.
          bindE (read_file_hashes root) (\<lambda>file_hashes.
          bindE (require as_arr root ''items'') (\<lambda>items.
          bindE (mapE read_item items) (\<lambda>its.
            Inr \<lparr>cp_format_version = format_version, cp_repo_root = repo_root,
                 cp_db_path = opt_str root ''db_path'',
                 cp_schema_version = cast_int32 (opt_int root ''schema_version''),
                 cp_resolved_at = opt_str root ''resolved_at'',
                 cp_config_digests = config_digests, cp_file_hashes = file_hashes,
                 cp_items = its, cp_validations = validations, cp_limitations = limitations\<rparr>)))))))))"

definition deserialize :: "string \<Rightarrow> plan_error + CleanupPlan" where
  "deserialize text =
     (case parse text of Inl e \<Rightarrow> Inl (Bad_json e) | Inr root \<Rightarrow> read_plan root)"

subsection \<open>Freshness\<close>

text \<open>\<^verbatim>\<open>hash_file\<close> reads the file system; it is the parameter \<open>hash_file\<close>.\<close>

definition hash_reason :: "(string \<Rightarrow> string option) \<Rightarrow> string \<Rightarrow> string \<times> string \<Rightarrow> string list" where
  "hash_reason hash_file repo_root fh =
     (case hash_file (Path_Util.join repo_root [fst fh]) of
        None \<Rightarrow> [''file has gone: '' @ fst fh]
      | Some now \<Rightarrow>
          if now \<noteq> snd fh then [''file changed since the plan was made: '' @ fst fh] else [])"

definition staleness_reasons :: "(string \<Rightarrow> string option) \<Rightarrow> CleanupPlan \<Rightarrow> int \<Rightarrow> string list" where
  "staleness_reasons hash_file p current_schema_version =
     (if cp_schema_version p \<noteq> current_schema_version
      then [''index schema changed: plan was made against v'' @ show_int (cp_schema_version p)
            @ '', this build is v'' @ show_int current_schema_version]
      else [])
     @ concat (map (hash_reason hash_file (cp_repo_root p)) (cp_file_hashes p))"

subsection \<open>Reading back what was written\<close>

definition cleared :: "PlanItem \<Rightarrow> PlanItem" where
  "cleared it = it\<lparr>pi_abs_path := []\<rparr>"

definition validation_ok :: "ValidationRecord \<Rightarrow> bool" where
  "validation_ok r \<longleftrightarrow> valid_utf8 (vr_stage r) \<and> valid_utf8 (vr_tu_path r) \<and> valid_utf8 (vr_config r)
     \<and> valid_utf8 (vr_diagnostic r)"

definition range_ok :: "PlanItem \<Rightarrow> bool" where
  "range_ok it \<longleftrightarrow> 0 \<le> pi_begin_offset it \<and> pi_begin_offset it \<le> pi_end_offset it"

definition item_text_ok :: "PlanItem \<Rightarrow> bool" where
  "item_text_ok it \<longleftrightarrow>
     list_all valid_utf8 [pi_id it, pi_file it, pi_directive_text it, pi_resolved_target it,
          pi_classification it, pi_reason it]
     \<and> list_all int64 [pi_line it, pi_col it, pi_begin_offset it, pi_end_offset it, pi_intersection_count it]
     \<and> list_all (list_all valid_utf8) [pi_owners it, pi_header_symbols it, pi_reference_kinds_searched it,
          pi_macro_uses it, pi_reverse_dependants it, pi_affected_tus it, pi_configs it]
     \<and> list_all validation_ok (pi_validations it)"

text \<open>A plan whose fields fit their C++ types and whose strings the JSON writer keeps: \<open>format_version\<close> and
  \<open>schema_version\<close> are 32-bit integers, and the version and the byte ranges are not restricted further.\<close>

definition plan_text_ok :: "CleanupPlan \<Rightarrow> bool" where
  "plan_text_ok p \<longleftrightarrow> - (2 ^ 31) \<le> cp_format_version p \<and> cp_format_version p < 2 ^ 31
     \<and> - (2 ^ 31) \<le> cp_schema_version p \<and> cp_schema_version p < 2 ^ 31
     \<and> list_all valid_utf8 [cp_repo_root p, cp_db_path p, cp_resolved_at p]
     \<and> list_all (list_all valid_utf8) [cp_config_digests p, cp_limitations p]
     \<and> omap_sorted (cp_file_hashes p)
     \<and> list_all (\<lambda>(f, h). valid_utf8 f \<and> valid_utf8 h) (cp_file_hashes p)
     \<and> list_all validation_ok (cp_validations p) \<and> list_all item_text_ok (cp_items p)"

definition plan_ok :: "CleanupPlan \<Rightarrow> bool" where
  "plan_ok p \<longleftrightarrow> cp_format_version p = kPlanFormatVersion \<and> list_all range_ok (cp_items p) \<and> plan_text_ok p"

lemma plan_state_roundtrip [simp]: "plan_state_from (plan_state_name s) = Some s"
  by (cases s) (simp_all add: plan_state_from_def)

lemma cast_int32_id: "- (2 ^ 31) \<le> i \<Longrightarrow> i < 2 ^ 31 \<Longrightarrow> cast_int32 i = i"
  by (simp add: cast_int32_def)

lemma opt_str_array_written [simp]:
  "member obj key = Some (str_array v) \<Longrightarrow> opt_str_array obj key = Inr v"
  by (simp add: opt_str_array_def str_array_def mapE_Inr_map)

lemma read_validation_written [simp]: "read_validation key (validation_json r) = Inr r"
  by (simp add: read_validation_def validation_json_def opt_str_def opt_bool_def)

lemma read_validations_written [simp]:
  "member obj key = Some (validations_json v) \<Longrightarrow> read_validations obj key = Inr v"
  by (simp add: read_validations_def validations_json_def mapE_Inr_map)

lemma read_hashes_written:
  "read_hashes acc (map hash_json m) = Inr (foldl (\<lambda>a (k, v). omap_insert k v a) acc m)"
  by (induction m arbitrary: acc) (auto simp: hash_json_def require_def split: prod.splits)

lemma read_evidence_written:
  "member e ''evidence'' = Some (evidence_json it) \<Longrightarrow> read_evidence e = Inr
     \<lparr>ev_owners = pi_owners it, ev_header_symbols = pi_header_symbols it,
      ev_intersection_count = pi_intersection_count it, ev_kinds = pi_reference_kinds_searched it,
      ev_macro_uses = pi_macro_uses it, ev_guarded = pi_guarded it,
      ev_reverse_dependants = pi_reverse_dependants it\<rparr>"
  by (simp add: read_evidence_def evidence_json_def opt_int_def opt_bool_def)

lemma item_json_members:
  "is_obj (item_json it)"
  "member (item_json it) ''id'' = Some (JStr (pi_id it))"
  "member (item_json it) ''file'' = Some (JStr (pi_file it))"
  "member (item_json it) ''line'' = Some (JInt (pi_line it))"
  "member (item_json it) ''col'' = Some (JInt (pi_col it))"
  "member (item_json it) ''begin_offset'' = Some (JInt (pi_begin_offset it))"
  "member (item_json it) ''end_offset'' = Some (JInt (pi_end_offset it))"
  "member (item_json it) ''directive_text'' = Some (JStr (pi_directive_text it))"
  "member (item_json it) ''resolved_target'' = Some (JStr (pi_resolved_target it))"
  "member (item_json it) ''classification'' = Some (JStr (pi_classification it))"
  "member (item_json it) ''state'' = Some (JStr (plan_state_name (pi_state it)))"
  "member (item_json it) ''reason'' = Some (JStr (pi_reason it))"
  "member (item_json it) ''evidence'' = Some (evidence_json it)"
  "member (item_json it) ''affected_tus'' = Some (str_array (pi_affected_tus it))"
  "member (item_json it) ''configs'' = Some (str_array (pi_configs it))"
  "member (item_json it) ''validations'' = Some (validations_json (pi_validations it))"
  by (simp_all add: item_json_def)

lemma read_item_written: "range_ok it \<Longrightarrow> read_item (item_json it) = Inr (cleared it)"
  by (simp add: read_item_def item_json_members require_def read_evidence_written opt_int_def opt_str_def
      read_state_def range_ok_def cleared_def)

lemma plan_json_members:
  "is_obj (plan_json p)"
  "member (plan_json p) ''format_version'' = Some (JInt (cp_format_version p))"
  "member (plan_json p) ''repo_root'' = Some (JStr (cp_repo_root p))"
  "member (plan_json p) ''db_path'' = Some (JStr (cp_db_path p))"
  "member (plan_json p) ''schema_version'' = Some (JInt (cp_schema_version p))"
  "member (plan_json p) ''resolved_at'' = Some (JStr (cp_resolved_at p))"
  "member (plan_json p) ''config_digests'' = Some (str_array (cp_config_digests p))"
  "member (plan_json p) ''file_hashes'' = Some (JArr (map hash_json (cp_file_hashes p)))"
  "member (plan_json p) ''limitations'' = Some (str_array (cp_limitations p))"
  "member (plan_json p) ''validations'' = Some (validations_json (cp_validations p))"
  "member (plan_json p) ''items'' = Some (JArr (map item_json (cp_items p)))"
  by (simp_all add: plan_json_def)

lemma mapE_map: "(\<And>x. x \<in> set xs \<Longrightarrow> f (g x) = Inr (h x)) \<Longrightarrow> mapE f (map g xs) = Inr (map h xs)"
  by (induction xs) auto

lemma read_plan_written:
  assumes "cast_int32 (cp_format_version p) = kPlanFormatVersion" "omap_sorted (cp_file_hashes p)"
    "list_all range_ok (cp_items p)"
  shows "read_plan (plan_json p) = Inr (p\<lparr>cp_format_version := kPlanFormatVersion,
      cp_schema_version := cast_int32 (cp_schema_version p), cp_items := map cleared (cp_items p)\<rparr>)"
proof -
  have "mapE read_item (map item_json (cp_items p)) = Inr (map cleared (cp_items p))"
    using assms(3) by (intro mapE_map read_item_written) (auto simp: list_all_iff)
  with assms show ?thesis
    by (simp add: read_plan_def plan_json_members require_def opt_int_def opt_str_def read_file_hashes_def
        read_hashes_written omap_insert_all [of "[]", simplified])
qed

lemma ascii_keys [simp]:
  "list_all (\<lambda>c. (of_char c :: nat) < 128) s \<Longrightarrow> valid_utf8 s"
  by (rule ascii_valid_utf8)

lemma str_array_ok: "json_ok (str_array v) = list_all valid_utf8 v" "nesting (str_array v) \<le> 1"
  by (induction v) (auto simp: str_array_def list_all_iff)

lemma nesting_arr_le: "(\<And>x. x \<in> set a \<Longrightarrow> nesting x \<le> n) \<Longrightarrow> nesting (JArr a) \<le> Suc n"
  by (induction a) auto

lemma nesting_obj_le: "(\<And>m1. m1 \<in> set m \<Longrightarrow> nesting (snd m1) \<le> n) \<Longrightarrow> nesting (JObj m) \<le> Suc n"
  by (induction m) (auto simp: split_beta)

lemma validations_json_ok:
  "json_ok (validations_json v) = list_all validation_ok v" "nesting (validations_json v) \<le> 2"
proof -
  have "json_ok (validation_json r) = validation_ok r" for r
    by (simp add: validation_json_def validation_ok_def)
  then show "json_ok (validations_json v) = list_all validation_ok v"
    by (simp add: validations_json_def list_all_iff)
  have "nesting (validation_json r) \<le> 1" for r by (simp add: validation_json_def)
  then have "nesting (validations_json v) \<le> Suc 1"
    unfolding validations_json_def by (intro nesting_arr_le) auto
  then show "nesting (validations_json v) \<le> 2" by simp
qed

lemma item_json_ok: "item_text_ok it \<Longrightarrow> json_ok (item_json it)"
  by (cases "pi_state it")
    (simp_all add: item_text_ok_def item_json_def evidence_json_def str_array_ok validations_json_ok)

lemma item_json_nesting: "nesting (item_json it) \<le> 3"
proof -
  have "nesting (evidence_json it) \<le> Suc 1" unfolding evidence_json_def
    using str_array_ok(2) by (intro nesting_obj_le) auto
  moreover have "nesting (str_array v) \<le> 2" for v using str_array_ok(2) [of v] by simp
  ultimately have "nesting (item_json it) \<le> Suc 2" unfolding item_json_def
    by (intro nesting_obj_le) (auto simp: validations_json_ok)
  then show ?thesis by simp
qed

lemma plan_json_ok: "plan_text_ok p \<Longrightarrow> json_ok (plan_json p)"
  by (auto simp: plan_text_ok_def plan_json_def hash_json_def str_array_ok validations_json_ok list_all_iff
      item_json_ok int64_def kPlanFormatVersion_def)

lemma plan_json_nesting: "nesting (plan_json p) \<le> 100"
proof -
  have "nesting (JArr (map item_json its)) \<le> Suc 3" for its
    by (intro nesting_arr_le) (auto simp: item_json_nesting)
  moreover have "nesting (JArr (map hash_json hs)) \<le> Suc 3" for hs
    by (intro nesting_arr_le) (auto simp: hash_json_def)
  moreover have "nesting (str_array v) \<le> 4" "nesting (validations_json w) \<le> 4" for v w
    using str_array_ok(2) [of v] validations_json_ok(2) [of w] by simp_all
  ultimately have "nesting (plan_json p) \<le> Suc 4" unfolding plan_json_def
    by (intro nesting_obj_le) (auto simp del: nesting.simps(1))
  then show ?thesis by simp
qed

subsection \<open>Properties of the artifact\<close>

text \<open>(C6) A plan with valid UTF-8 strings, in-range integers and sorted file hashes is read back
  unchanged from its serialization, except for the resolved absolute paths, which the artifact
  does not carry.\<close>

theorem plan_roundtrip:
  assumes "plan_ok p"
  shows "deserialize (serialize p) = Inr (p\<lparr>cp_items := map cleared (cp_items p)\<rparr>)"
proof -
  have "cast_int32 (cp_format_version p) = kPlanFormatVersion" "list_all range_ok (cp_items p)"
    "omap_sorted (cp_file_hashes p)" "cast_int32 (cp_schema_version p) = cp_schema_version p"
    using assms by (auto simp: plan_ok_def plan_text_ok_def cast_int32_def kPlanFormatVersion_def)
  moreover have "cp_format_version p = kPlanFormatVersion" "plan_text_ok p" using assms by (simp_all add: plan_ok_def)
  ultimately show ?thesis
    using parse_dumps_indent2 [OF plan_json_ok plan_json_nesting]
    by (simp add: deserialize_def serialize_def read_plan_written)
qed

definition sample_item :: PlanItem where
  "sample_item = \<lparr>pi_id = ''c1'', pi_file = ''a.cpp'', pi_abs_path = ''/r/a.cpp'', pi_line = 3, pi_col = 1,
     pi_begin_offset = 10, pi_end_offset = 24, pi_directive_text = ''#include <b.h>'',
     pi_resolved_target = ''b.h'', pi_classification = ''unused'', pi_state = Accepted, pi_reason = [],
     pi_owners = [''f''], pi_header_symbols = [], pi_intersection_count = 0,
     pi_reference_kinds_searched = [''call''], pi_macro_uses = [], pi_guarded = False,
     pi_reverse_dependants = [], pi_affected_tus = [''a.cpp''], pi_configs = [''d''],
     pi_validations = [\<lparr>vr_stage = ''before'', vr_tu_path = ''a.cpp'', vr_config = ''d'', vr_ok = True,
                        vr_diagnostic = []\<rparr>]\<rparr>"

definition sample_plan :: CleanupPlan where
  "sample_plan = \<lparr>cp_format_version = 1, cp_repo_root = ''/r'', cp_db_path = ''x.db'', cp_schema_version = 7,
     cp_resolved_at = ''now'', cp_config_digests = [''d''], cp_file_hashes = [(''a.cpp'', ''00''), (''b.h'', ''11'')],
     cp_items = [sample_item], cp_validations = [], cp_limitations = [''none'']\<rparr>"

lemma sample_plan_ok: "plan_ok sample_plan"
  by (simp add: plan_ok_def plan_text_ok_def sample_plan_def sample_item_def item_text_ok_def range_ok_def validation_ok_def
      int64_def kPlanFormatVersion_def less_char_def)

text \<open>A plan with one accepted item and two hashed files.\<close>

theorem plan_roundtrip_witness:
  "deserialize (serialize sample_plan) = Inr (sample_plan\<lparr>cp_items := [cleared sample_item]\<rparr>)"
  using plan_roundtrip [OF sample_plan_ok] by (simp add: sample_plan_def)

lemma bindE_InrE: "bindE m f = Inr y \<Longrightarrow> (\<And>x. m = Inr x \<Longrightarrow> f x = Inr y \<Longrightarrow> P) \<Longrightarrow> P"
  by (auto simp: bindE_Inr_iff)

lemma mapE_Inr_all: "mapE f xs = Inr ys \<Longrightarrow> (\<And>x y. f x = Inr y \<Longrightarrow> P y) \<Longrightarrow> list_all P ys"
  by (induction xs arbitrary: ys) (auto simp: bindE_Inr_iff)

lemma read_hashes_sorted: "read_hashes acc hs = Inr m \<Longrightarrow> omap_sorted acc \<Longrightarrow> omap_sorted m"
  by (induction acc hs rule: read_hashes.induct) (auto simp: bad_def bindE_Inr_iff split: if_splits)

lemma read_item_range: "read_item e = Inr it \<Longrightarrow> range_ok it \<and> pi_abs_path it = []"
  by (auto simp: read_item_def bad_def range_ok_def elim!: bindE_InrE split: if_splits)

lemma deserialize_parts:
  assumes "deserialize t = Inr p"
  shows "cp_format_version p = kPlanFormatVersion" "list_all (\<lambda>it. range_ok it \<and> pi_abs_path it = []) (cp_items p)"
    "omap_sorted (cp_file_hashes p)"
proof -
  from assms obtain root where "read_plan root = Inr p"
    by (auto simp: deserialize_def split: sum.splits)
  then obtain items hashes where r: "cp_format_version p = kPlanFormatVersion"
    "mapE read_item items = Inr (cp_items p)" "read_file_hashes root = Inr (cp_file_hashes p)"
    by (auto simp: read_plan_def bad_def Let_def elim!: bindE_InrE split: if_splits)
  from r(1) show "cp_format_version p = kPlanFormatVersion" .
  from r(2) show "list_all (\<lambda>it. range_ok it \<and> pi_abs_path it = []) (cp_items p)"
    by (rule mapE_Inr_all) (rule read_item_range)
  from r(3) show "omap_sorted (cp_file_hashes p)"
    by (auto simp: read_file_hashes_def split: option.splits jvalue.splits dest: read_hashes_sorted)
qed

lemma deserialize_ranges: "deserialize t = Inr p \<Longrightarrow> list_all range_ok (cp_items p)"
  using deserialize_parts(2) by (auto simp: list_all_iff)

lemma sample_deserialized: "deserialize (serialize sample_plan) = Inr (sample_plan\<lparr>cp_items := [cleared sample_item]\<rparr>)"
proof -
  have "read_plan (plan_json sample_plan) = Inr (sample_plan\<lparr>cp_items := [cleared sample_item]\<rparr>)"
    by (subst read_plan_written)
      (simp_all add: sample_plan_def sample_item_def cast_int32_def kPlanFormatVersion_def range_ok_def
        less_char_def)
  then show ?thesis
    using parse_dumps_indent2 [OF plan_json_ok plan_json_nesting] sample_plan_ok
    by (simp add: deserialize_def serialize_def plan_ok_def)
qed

lemma read_item_refused:
  "\<not> range_ok it \<Longrightarrow> read_item (item_json it) = bad (''item '' @ quoted (pi_id it) @ '' has an inverted or negative byte range'')"
  by (simp add: read_item_def item_json_members require_def range_ok_def not_le disj_commute)

lemma mapE_find:
  assumes "\<And>x. P x \<Longrightarrow> f (g x) = Inr (h x)" "\<And>x. \<not> P x \<Longrightarrow> f (g x) = Inl (e x)"
  shows "mapE f (map g xs) = (case List.find (\<lambda>x. \<not> P x) xs of Some x \<Rightarrow> Inl (e x) | None \<Rightarrow> Inr (map h xs))"
  by (induction xs) (auto simp: assms split: option.splits)

lemma read_plan_wrong_version:
  "cast_int32 (cp_format_version p) \<noteq> kPlanFormatVersion \<Longrightarrow> read_plan (plan_json p)
     = bad (''unsupported format_version '' @ show_int (cast_int32 (cp_format_version p))
         @ '' (this build writes and reads version '' @ show_int kPlanFormatVersion @ ''); regenerate the plan'')"
  by (simp add: read_plan_def plan_json_members require_def)

lemma read_plan_items_error:
  assumes "cast_int32 (cp_format_version p) = kPlanFormatVersion" "mapE read_item (map item_json (cp_items p)) = Inl e"
  shows "read_plan (plan_json p) = Inl e"
  using assms by (simp add: read_plan_def plan_json_members require_def read_file_hashes_def read_hashes_written)

text \<open>(C37) What the checked reader answers to an artifact of the tool's own layout, for every 32-bit version and all
  byte ranges: a version this build does not know is refused by name; otherwise the first item, in the order of the
  plan, whose byte range is negative or inverted is refused by its id; otherwise the plan is read back whole.\<close>

theorem written_plan_checked:
  assumes "plan_text_ok p"
  shows "deserialize (serialize p) =
    (if cp_format_version p \<noteq> kPlanFormatVersion
     then Inl (Bad_plan (''unsupported format_version '' @ show_int (cp_format_version p)
            @ '' (this build writes and reads version '' @ show_int kPlanFormatVersion @ ''); regenerate the plan''))
     else case List.find (\<lambda>it. pi_begin_offset it < 0 \<or> pi_end_offset it < pi_begin_offset it) (cp_items p) of
            Some it \<Rightarrow> Inl (Bad_plan (''item '' @ quoted (pi_id it) @ '' has an inverted or negative byte range''))
          | None \<Rightarrow> Inr (p\<lparr>cp_items := map cleared (cp_items p)\<rparr>))"
proof -
  have read: "deserialize (serialize p) = read_plan (plan_json p)"
    using parse_dumps_indent2 [OF plan_json_ok [OF assms] plan_json_nesting] by (simp add: deserialize_def serialize_def)
  have cast: "cast_int32 (cp_format_version p) = cp_format_version p" "cast_int32 (cp_schema_version p) = cp_schema_version p"
    and sorted: "omap_sorted (cp_file_hashes p)" using assms by (simp_all add: plan_text_ok_def cast_int32_id)
  have bad_range: "(\<lambda>it. pi_begin_offset it < 0 \<or> pi_end_offset it < pi_begin_offset it) = (\<lambda>it. \<not> range_ok it)"
    by (auto simp: range_ok_def)
  show ?thesis
  proof (cases "cp_format_version p = kPlanFormatVersion")
    case False
    then show ?thesis using read_plan_wrong_version [of p] by (simp add: read cast bad_def)
  next
    case True
    then have v: "cast_int32 (cp_format_version p) = kPlanFormatVersion" using cast(1) by simp
    have m: "mapE read_item (map item_json (cp_items p)) = (case List.find (\<lambda>it. \<not> range_ok it) (cp_items p) of
        Some it \<Rightarrow> Inl (Bad_plan (''item '' @ quoted (pi_id it) @ '' has an inverted or negative byte range''))
      | None \<Rightarrow> Inr (map cleared (cp_items p)))"
      by (rule mapE_find) (simp_all add: read_item_written read_item_refused bad_def)
    show ?thesis
    proof (cases "List.find (\<lambda>it. \<not> range_ok it) (cp_items p)")
      case None
      then have "list_all range_ok (cp_items p)" by (auto simp: find_None_iff list_all_iff)
      then show ?thesis using read_plan_written [OF v sorted] None True
        by (simp add: read cast bad_range)
    next
      case (Some it)
      then show ?thesis using read_plan_items_error [OF v] m True by (simp add: read bad_range)
    qed
  qed
qed

text \<open>The sample plan is refused as soon as its item ends before it begins, and when it states version 2.\<close>

theorem written_plan_checked_witness:
  "deserialize (serialize (sample_plan\<lparr>cp_items := [sample_item, sample_item\<lparr>pi_id := ''c2'', pi_end_offset := 9\<rparr>]\<rparr>))
     = Inl (Bad_plan ''item 'c2' has an inverted or negative byte range'')
   \<and> deserialize (serialize (sample_plan\<lparr>cp_format_version := 2\<rparr>))
     = Inl (Bad_plan ''unsupported format_version 2 (this build writes and reads version 1); regenerate the plan'')"
proof
  let ?p = "sample_plan\<lparr>cp_items := [sample_item, sample_item\<lparr>pi_id := ''c2'', pi_end_offset := 9\<rparr>]\<rparr>"
  let ?q = "sample_plan\<lparr>cp_format_version := 2\<rparr>"
  have "plan_text_ok ?p" "plan_text_ok ?q"
    by (simp_all add: plan_text_ok_def sample_plan_def sample_item_def item_text_ok_def validation_ok_def int64_def
        less_char_def)
  note refused = this [THEN written_plan_checked]
  show "deserialize (serialize ?p) = Inl (Bad_plan ''item 'c2' has an inverted or negative byte range'')"
    using refused(1) by (simp add: sample_plan_def sample_item_def kPlanFormatVersion_def quoted_def)
  have digits: "show_int 1 = ''1''" "show_int 2 = ''2''" by code_simp+
  show "deserialize (serialize ?q)
      = Inl (Bad_plan ''unsupported format_version 2 (this build writes and reads version 1); regenerate the plan'')"
    using refused(2) digits by (simp add: sample_plan_def kPlanFormatVersion_def)
qed

text \<open>The version gate tests the value after it is narrowed to 32 bits: an artifact that states
  version 4294967297 is accepted as version 1.\<close>

theorem format_version_narrowed:
  "deserialize (dumps_indent2 (JObj [(''format_version'', JInt 4294967297), (''repo_root'', JStr ''/r''),
     (''items'', JArr [])]))
   = Inr \<lparr>cp_format_version = 1, cp_repo_root = ''/r'', cp_db_path = [], cp_schema_version = 0,
         cp_resolved_at = [], cp_config_digests = [], cp_file_hashes = [], cp_items = [],
         cp_validations = [], cp_limitations = []\<rparr>"
proof -
  let ?v = "JObj [(''format_version'', JInt 4294967297), (''repo_root'', JStr ''/r''), (''items'', JArr [])]"
  have "parse (dumps_indent2 ?v) = Inr ?v" by (rule parse_dumps_indent2) (simp_all add: int64_def)
  then show ?thesis
    by (simp add: deserialize_def read_plan_def require_def cast_int32_def kPlanFormatVersion_def opt_str_def
        opt_int_def opt_str_array_def read_validations_def read_file_hashes_def)
qed

lemma hash_reason_Nil:
  "hash_reason hash_file root fh = [] \<longleftrightarrow> hash_file (Path_Util.join root [fst fh]) = Some (snd fh)"
  by (auto simp: hash_reason_def split: option.splits)

text \<open>A plan is fresh exactly when the index schema is the one it was made against and every
  file it names is readable under the repository root with the recorded hash.\<close>

theorem fresh_iff:
  "staleness_reasons hash_file p v = [] \<longleftrightarrow>
     cp_schema_version p = v
     \<and> list_all (\<lambda>(file, want). hash_file (Path_Util.join (cp_repo_root p) [file]) = Some want)
         (cp_file_hashes p)"
  by (auto simp: staleness_reasons_def hash_reason_Nil list_all_iff)

end
