(* ===== verification/Removal_Validator.thy ===== *)
theory Removal_Validator
  imports Include_Graph Cleanup_Plan
begin

text \<open>
  Validation of include removals (\<^verbatim>\<open>include_hygiene/validator.cpp\<close>): cutting byte
  ranges out of a buffer, the translation units an edit must still compile in,
  the overlay of edited buffers, and the validation records. Files are a map
  from paths to contents, the Clang run is the parameter \<open>compile\<close>, and the
  database rows the code queries are the fields of \<open>hygiene_db\<close>.
\<close>

type_synonym disk = "string \<Rightarrow> string option"

record Removal =
  rm_abs_path :: string
  rm_begin_offset :: int
  rm_end_offset :: int

record TuTarget =
  tt_tu_path :: string
  tt_config_digest :: string
  tt_descriptor_hash :: string
  tt_arguments :: "string list"
  tt_working_dir :: string

subsection \<open>Cutting byte ranges\<close>

definition read_file :: "disk \<Rightarrow> string \<Rightarrow> string" where
  "read_file disk path = (case disk path of None \<Rightarrow> [] | Some content \<Rightarrow> content)"

fun erase_loop :: "string \<Rightarrow> int \<Rightarrow> Removal list \<Rightarrow> string" where
  "erase_loop out last_begin [] = out"
| "erase_loop out last_begin (r # rs) =
     (if rm_begin_offset r < 0 \<or> rm_end_offset r > int (length out) \<or> rm_end_offset r < rm_begin_offset r
      then erase_loop out last_begin rs
      else if last_begin \<ge> 0 \<and> rm_end_offset r > last_begin then erase_loop out last_begin rs
      else erase_loop (take (nat (rm_begin_offset r)) out @ drop (nat (rm_end_offset r)) out)
             (rm_begin_offset r) rs)"

definition apply_removals :: "string \<Rightarrow> Removal list \<Rightarrow> string" where
  "apply_removals content removals = erase_loop content (- 1) (sort_key (\<lambda>r. - rm_begin_offset r) removals)"

subsection \<open>Affected translation units\<close>

record IncludeConfig =
  ic_digest :: string
  ic_translation_unit_config_id :: "int option"

datatype TranslationUnitConfigState = registered | unregistered | ambiguous | stale | unavailable

record TranslationUnitConfig =
  tc_descriptor_hash :: string
  tc_arguments :: "string list"
  tc_working_dir :: "string option"
  tc_state :: TranslationUnitConfigState

text \<open>Of both rows only the fields the validator reads. The queries the component makes of the database.\<close>

record hygiene_db =
  db_files :: "(int \<times> string) list"
  db_config_digest :: "int \<Rightarrow> string option"
  db_include_edges :: "IncludeEdge list"
  db_get_file :: "string \<Rightarrow> int option"
  db_include_configs_for_tu :: "int \<Rightarrow> IncludeConfig list"
  db_translation_unit_config_by_id :: "int \<Rightarrow> TranslationUnitConfig option"

definition db_graph :: "hygiene_db \<Rightarrow> IncludeGraph" where
  "db_graph db = load (db_files db) (db_config_digest db) (db_include_edges db)"

definition tu_target :: "hygiene_db \<Rightarrow> string \<Rightarrow> IncludeConfig \<Rightarrow> TuTarget option" where
  "tu_target db root c =
     (case ic_translation_unit_config_id c of
        None \<Rightarrow> None
      | Some i \<Rightarrow>
          (case db_translation_unit_config_by_id db i of
             None \<Rightarrow> None
           | Some d \<Rightarrow>
               if tc_state d \<noteq> registered then None
               else Some \<lparr>tt_tu_path = root, tt_config_digest = ic_digest c,
                          tt_descriptor_hash = tc_descriptor_hash d, tt_arguments = tc_arguments d,
                          tt_working_dir = (case tc_working_dir d of None \<Rightarrow> ''.'' | Some w \<Rightarrow> w)\<rparr>))"

fun collect_targets :: "(string \<times> IncludeConfig) list \<Rightarrow> hygiene_db \<Rightarrow> TuTarget list option" where
  "collect_targets [] db = Some []"
| "collect_targets ((root, c) # rest) db =
     (case tu_target db root c of
        None \<Rightarrow> None
      | Some t \<Rightarrow> map_option ((#) t) (collect_targets rest db))"

definition root_configs :: "hygiene_db \<Rightarrow> string \<Rightarrow> (string \<times> IncludeConfig) list" where
  "root_configs db root =
     (case db_get_file db root of
        None \<Rightarrow> []
      | Some i \<Rightarrow> map (Pair root) (db_include_configs_for_tu db i))"

definition affected_tus :: "hygiene_db \<Rightarrow> string \<Rightarrow> TuTarget list option" where
  "affected_tus db abs_path =
     (let roots = sort_unique (abs_path # transitive_to (db_graph db) abs_path 0)
      in case collect_targets (concat (map (root_configs db) roots)) db of
           None \<Rightarrow> None
         | Some out \<Rightarrow>
             if out = [] then None
             else Some (sort_key (\<lambda>t. (tt_tu_path t, tt_config_digest t)) out))"

subsection \<open>Overlay and validation\<close>

definition group_by_file :: "Removal list \<Rightarrow> (string \<times> Removal list) list" where
  "group_by_file removals =
     foldl (\<lambda>m r. omap_insert (rm_abs_path r)
              ((case map_of m (rm_abs_path r) of None \<Rightarrow> [] | Some rs \<Rightarrow> rs) @ [r]) m) [] removals"

definition overlay_for :: "disk \<Rightarrow> Removal list \<Rightarrow> (string \<times> string) list" where
  "overlay_for disk removals =
     map (\<lambda>(path, rs). (path, apply_removals (read_file disk path) rs)) (group_by_file removals)"

text \<open>
  The compiler sees the files on disk with the overlay in front; \<open>compile\<close>
  returns the tool's exit code and the first error message.
\<close>

type_synonym compiler = "TuTarget \<Rightarrow> disk \<Rightarrow> int \<times> string"

definition overlaid :: "disk \<Rightarrow> (string \<times> string) list \<Rightarrow> disk" where
  "overlaid disk edited = (\<lambda>path. case map_of edited path of None \<Rightarrow> disk path | Some c \<Rightarrow> Some c)"

definition validate_one :: "compiler \<Rightarrow> disk \<Rightarrow> (string \<times> string) list \<Rightarrow> string \<Rightarrow> TuTarget \<Rightarrow> ValidationRecord" where
  "validate_one compile disk edited stage t =
     (let (rc, first) = compile t (overlaid disk edited);
          ok = (rc = 0 \<and> first = [])
      in \<lparr>vr_stage = stage, vr_tu_path = tt_tu_path t, vr_config = tt_config_digest t, vr_ok = ok,
          vr_diagnostic = (if ok then []
                           else if first = [] then ''compilation failed (no diagnostic captured)''
                           else first)\<rparr>)"

definition validate ::
  "compiler \<Rightarrow> disk \<Rightarrow> TuTarget list \<Rightarrow> (string \<times> string) list \<Rightarrow> string \<Rightarrow> ValidationRecord list" where
  "validate compile disk targets edited stage = map (validate_one compile disk edited stage) targets"

definition all_ok :: "ValidationRecord list \<Rightarrow> bool" where
  "all_ok records \<longleftrightarrow> list_all vr_ok records"

subsection \<open>Removals delete exactly the listed bytes\<close>

definition cut :: "Removal list \<Rightarrow> nat \<Rightarrow> bool" where
  "cut rs i \<longleftrightarrow> (\<exists>r \<in> set rs. rm_begin_offset r \<le> int i \<and> int i < rm_end_offset r)"

text \<open>The ranges the loop erases, given how far to the right it may still reach.\<close>

fun erased :: "int \<Rightarrow> Removal list \<Rightarrow> Removal list" where
  "erased n [] = []"
| "erased n (r # rs) =
     (if rm_begin_offset r < 0 \<or> rm_end_offset r > n \<or> rm_end_offset r < rm_begin_offset r then erased n rs
      else r # erased (rm_begin_offset r) rs)"

lemma erased_subset: "set (erased n rs) \<subseteq> set rs"
  by (induction n rs rule: erased.induct) auto

lemma erased_end: "r \<in> set (erased n rs) \<Longrightarrow> rm_end_offset r \<le> n \<and> 0 \<le> rm_begin_offset r"
  by (induction n rs rule: erased.induct) (auto split: if_splits)

lemma nths_none: "(\<And>i. i < length xs \<Longrightarrow> i \<notin> A) \<Longrightarrow> nths xs A = []"
  by (auto simp: nths_def filter_empty_conv in_set_zip)

lemma nths_every: "(\<And>i. i < length xs \<Longrightarrow> i \<in> A) \<Longrightarrow> nths xs A = xs"
  by (metis nths_all)

lemma nths_cong_less: "(\<And>i. i < length xs \<Longrightarrow> i \<in> A \<longleftrightarrow> i \<in> B) \<Longrightarrow> nths xs A = nths xs B"
  unfolding nths_def by (rule arg_cong [of _ _ "map fst"], rule filter_cong) (auto simp: in_set_zip)

lemma nths_cut_range:
  assumes "b \<le> e" "e \<le> length xs" "\<And>i. b \<le> i \<Longrightarrow> i \<in> A"
  shows "nths xs {i. i \<in> A \<and> \<not> (b \<le> i \<and> i < e)} = nths (take b xs) A @ drop e xs"
proof -
  let ?K = "{i. i \<in> A \<and> \<not> (b \<le> i \<and> i < e)}"
  have xs: "xs = take b xs @ take (e - b) (drop b xs) @ drop e xs"
    using assms(1) by (metis append_take_drop_id drop_drop le_add_diff_inverse2)
  have "nths (take b xs) ?K = nths (take b xs) A"
    by (rule nths_cong_less) (use assms(2) in auto)
  moreover have "nths (take (e - b) (drop b xs)) {j. j + b \<in> ?K} = []"
    by (rule nths_none) (use assms in auto)
  moreover have "nths (drop e xs) {j. j + e \<in> ?K} = drop e xs"
    by (rule nths_every) (use assms in auto)
  ultimately show ?thesis
    using assms(1,2) by (subst xs) (simp add: nths_append min_absorb2 add.commute add.left_commute del: append_take_drop_id)
qed

lemma erase_loop_erased:
  assumes "last_begin = - 1 \<and> n = length content \<and> rest = [] \<or> last_begin = int n" "n \<le> length content"
  shows "erase_loop (take n content @ rest) last_begin rs
    = nths (take n content) {i. \<not> cut (erased (int n) rs) i} @ rest"
  using assms
proof (induction rs arbitrary: n rest last_begin)
  case (Cons r rs)
  let ?b = "rm_begin_offset r" and ?e = "rm_end_offset r"
  show ?case
  proof (cases "?b < 0 \<or> ?e > int n \<or> ?e < ?b")
    case True
    with Cons show ?thesis by auto
  next
    case False
    then have nat: "0 \<le> ?b" "?b \<le> ?e" "?e \<le> int n" by auto
    then have b: "int (nat ?b) = ?b" "int (nat ?e) = ?e" "nat ?b \<le> nat ?e" "nat ?e \<le> n" by auto
    let ?A = "{i. \<not> cut (erased ?b rs) i}"
    have "erase_loop (take n content @ rest) last_begin (r # rs)
        = erase_loop (take (nat ?b) content @ drop (nat ?e) (take n content) @ rest) ?b rs"
    proof -
      have "\<not> (?b < 0 \<or> ?e > int (length (take n content @ rest)) \<or> ?e < ?b)" "\<not> (last_begin \<ge> 0 \<and> ?e > last_begin)"
        using nat Cons.prems by auto
      moreover have "take (nat ?b) (take n content @ rest) = take (nat ?b) content"
        "drop (nat ?e) (take n content @ rest) = drop (nat ?e) (take n content) @ rest"
        using Cons.prems b(3,4) by (auto simp: min_def)
      ultimately show ?thesis by (simp only: erase_loop.simps if_False)
    qed
    also have "\<dots> = nths (take (nat ?b) content) ?A @ drop (nat ?e) (take n content) @ rest"
      using Cons.IH [of ?b "nat ?b" "drop (nat ?e) (take n content) @ rest"] Cons.prems(2) b by simp
    also have "\<dots> = nths (take n content) {i. i \<in> ?A \<and> \<not> (nat ?b \<le> i \<and> i < nat ?e)} @ rest"
    proof -
      have "i \<in> ?A" if "nat ?b \<le> i" for i using that b(1) erased_end [of _ ?b rs] by (force simp: cut_def)
      moreover have "take (nat ?b) content = take (nat ?b) (take n content)" using b by (simp add: min_def)
      ultimately show ?thesis using nths_cut_range [of "nat ?b" "nat ?e" "take n content" ?A] b Cons.prems(2) by simp
    qed
    also have "{i. i \<in> ?A \<and> \<not> (nat ?b \<le> i \<and> i < nat ?e)} = {i. \<not> cut (erased (int n) (r # rs)) i}"
      using False by (auto simp: cut_def)
    finally show ?thesis .
  qed
qed (simp add: cut_def nths_all)

lemma apply_removals_erased:
  "apply_removals content rs
    = nths content {i. \<not> cut (erased (int (length content)) (sort_key (\<lambda>r. - rm_begin_offset r) rs)) i}"
  using erase_loop_erased [of "- 1" "length content" content "[]"] by (simp add: apply_removals_def)

text \<open>Non-empty ranges of a buffer that pairwise do not meet.\<close>

definition separate :: "nat \<Rightarrow> Removal list \<Rightarrow> bool" where
  "separate n rs \<longleftrightarrow>
     list_all (\<lambda>r. 0 \<le> rm_begin_offset r \<and> rm_begin_offset r < rm_end_offset r \<and> rm_end_offset r \<le> int n) rs
     \<and> distinct rs
     \<and> list_all (\<lambda>r. list_all (\<lambda>s. r \<noteq> s \<longrightarrow>
          rm_end_offset r \<le> rm_begin_offset s \<or> rm_end_offset s \<le> rm_begin_offset r) rs) rs"

lemma erased_separate:
  "sorted_wrt (\<lambda>r s. rm_begin_offset s \<le> rm_begin_offset r) rs \<Longrightarrow> separate n rs \<Longrightarrow>
   list_all (\<lambda>r. rm_end_offset r \<le> m) rs \<Longrightarrow> erased m rs = rs"
proof (induction rs arbitrary: m)
  case (Cons r rs)
  have "list_all (\<lambda>s. rm_end_offset s \<le> rm_begin_offset r) rs"
    using Cons.prems(1,2) by (fastforce simp: separate_def list_all_iff)
  moreover have "separate n rs" using Cons.prems(2) by (auto simp: separate_def list_all_iff)
  ultimately show ?case using Cons by (auto simp: separate_def)
qed simp

lemma sort_descending:
  "sorted_wrt (\<lambda>r s. rm_begin_offset s \<le> rm_begin_offset r) (sort_key (\<lambda>r. - rm_begin_offset r) rs)"
  using sorted_sort_key [of "\<lambda>r. - rm_begin_offset r" rs] by (simp add: sorted_map)

subsection \<open>Properties of removal and validation\<close>

text \<open>(C29) Removing ranges that are inside the buffer, not empty and pairwise disjoint leaves exactly the
  bytes outside every range, in order: no offset shifts while the edits are applied.\<close>

theorem apply_removals_exact:
  assumes "separate (length content) rs"
  shows "apply_removals content rs
    = nths content {i. \<not> list_ex (\<lambda>r. rm_begin_offset r \<le> int i \<and> int i < rm_end_offset r) rs}"
proof -
  let ?rs = "sort_key (\<lambda>r. - rm_begin_offset r) rs"
  have "separate (length content) ?rs" using assms by (simp add: separate_def list_all_iff)
  moreover have "list_all (\<lambda>r. rm_end_offset r \<le> int (length content)) ?rs"
    using assms by (auto simp: separate_def list_all_iff)
  ultimately have "erased (int (length content)) ?rs = ?rs" by (rule erased_separate [OF sort_descending])
  then show ?thesis by (simp add: apply_removals_erased cut_def list_ex_iff)
qed

text \<open>Two ranges given in ascending order cut their bytes out of a short buffer.\<close>

theorem apply_removals_exact_witness:
  "apply_removals ''abcdefgh'' [\<lparr>rm_abs_path = ''f'', rm_begin_offset = 1, rm_end_offset = 3\<rparr>,
     \<lparr>rm_abs_path = ''f'', rm_begin_offset = 5, rm_end_offset = 6\<rparr>] = ''adegh''"
  by (subst apply_removals_exact) (simp_all add: separate_def nths_Cons)

text \<open>Whatever ranges are given, out of range, inverted or overlapping ones included, the result keeps
  the bytes outside some of the given ranges, which lie in the buffer and do not overlap: no byte
  outside the given ranges is ever deleted and none is deleted twice.\<close>

theorem apply_removals_only_listed:
  "\<exists>A. set A \<subseteq> set rs \<and> sorted_wrt (\<lambda>r s. rm_end_offset s \<le> rm_begin_offset r) A
     \<and> list_all (\<lambda>r. 0 \<le> rm_begin_offset r \<and> rm_end_offset r \<le> int (length content)) A
     \<and> apply_removals content rs
       = nths content {i. \<not> list_ex (\<lambda>r. rm_begin_offset r \<le> int i \<and> int i < rm_end_offset r) A}"
proof -
  let ?A = "erased (int (length content)) (sort_key (\<lambda>r. - rm_begin_offset r) rs)"
  have "sorted_wrt (\<lambda>r s. rm_end_offset s \<le> rm_begin_offset r) (erased n xs)" for n xs
    by (induction n xs rule: erased.induct) (auto dest: erased_end)
  then show ?thesis
    using erased_subset [of "int (length content)" "sort_key (\<lambda>r. - rm_begin_offset r) rs"] erased_end
    by (intro exI [of _ ?A]) (auto simp: apply_removals_erased cut_def list_ex_iff list_all_iff)
qed

lemma collect_targets_all:
  "collect_targets rcs db = Some out \<Longrightarrow> (root, c) \<in> set rcs \<Longrightarrow> \<exists>t \<in> set out. tu_target db root c = Some t"
  by (induction rcs db arbitrary: out rule: collect_targets.induct) (auto split: option.splits)

lemma tu_target_fields: "tu_target db root c = Some t \<Longrightarrow> tt_tu_path t = root \<and> tt_config_digest t = ic_digest c"
  by (auto simp: tu_target_def split: option.splits if_splits)

text \<open>(C32) When the validator names the translation units an edit affects, there is at least one, and every
  recorded configuration of every file whose include closure reaches the edited file, the file itself
  included, is among them; if any of them has no registered compile descriptor the answer is a refusal.\<close>

theorem affected_tus_complete:
  assumes "affected_tus db p = Some ts"
  shows "ts \<noteq> [] \<and> (\<forall>x i. (x, p) \<in> (include_rel (db_graph db))\<^sup>* \<longrightarrow> db_get_file db x = Some i \<longrightarrow>
    list_all (\<lambda>c. \<exists>t \<in> set ts. tt_tu_path t = x \<and> tt_config_digest t = ic_digest c)
      (db_include_configs_for_tu db i))"
proof -
  let ?roots = "sort_unique (p # transitive_to (db_graph db) p 0)"
  obtain out where out: "collect_targets (concat (map (root_configs db) ?roots)) db = Some out" "out \<noteq> []"
    "set ts = set out"
    using assms by (auto simp: affected_tus_def Let_def split: option.splits if_splits)
  have "\<exists>t \<in> set ts. tt_tu_path t = x \<and> tt_config_digest t = ic_digest c"
    if "(x, p) \<in> (include_rel (db_graph db))\<^sup>*" "db_get_file db x = Some i" "c \<in> set (db_include_configs_for_tu db i)" for x i c
  proof -
    have "x \<in> set ?roots" using that(1) by (auto simp: db_graph_def set_transitive_to rtrancl_power)
    then have "(x, c) \<in> set (concat (map (root_configs db) ?roots))"
      using that(2,3) by (auto simp: root_configs_def intro!: bexI [of _ x])
    then show ?thesis using collect_targets_all [OF out(1)] tu_target_fields out(3) by metis
  qed
  with out(2,3) show ?thesis by (auto simp: list_all_iff)
qed

definition sample_db :: hygiene_db where
  "sample_db = \<lparr>db_files = [(1, ''a.c''), (2, ''b.h'')], db_config_digest = (\<lambda>_. Some ''d''),
     db_include_edges = [\<lparr>ie_id = 1, ie_src_file_id = 1, ie_config_id = 1, ie_dst_path = ''b.h'',
       ie_dst_file_id = Some 2, ie_is_system = False, ie_is_generated = False, ie_count = 1\<rparr>],
     db_get_file = (\<lambda>f. if f = ''a.c'' then Some 1 else if f = ''b.h'' then Some 2 else None),
     db_include_configs_for_tu = (\<lambda>i. if i = 1 then [\<lparr>ic_digest = ''d'', ic_translation_unit_config_id = Some 7\<rparr>] else []),
     db_translation_unit_config_by_id = (\<lambda>i. if i = 7 then Some \<lparr>tc_descriptor_hash = ''h'', tc_arguments = [],
       tc_working_dir = None, tc_state = registered\<rparr> else None)\<rparr>"

lemma sample_affected:
  "affected_tus sample_db ''b.h'' = Some [\<lparr>tt_tu_path = ''a.c'', tt_config_digest = ''d'', tt_descriptor_hash = ''h'',
     tt_arguments = [], tt_working_dir = ''.''\<rparr>]"
  by code_simp

text \<open>A header's affected unit is the source file that includes it.\<close>

theorem affected_tus_complete_witness:
  "\<exists>ts. affected_tus sample_db ''b.h'' = Some ts \<and> ts \<noteq> []"
  using affected_tus_complete [OF sample_affected] sample_affected by blast

end
