(* ===== verification/Plan_Executor.thy ===== *)
theory Plan_Executor
  imports Removal_Validator
begin

text \<open>
  Execution of a cleanup plan (\<^verbatim>\<open>include_hygiene/executor.cpp\<close>), the only code that
  edits source files: staleness refusal, selection, the checks that re-derive
  every finding, combined and preflight validation, staged atomic writes, post-write
  validation and the marking of stale index rows. The world is the disk and the
  list of file rows marked not indexed. Clang, clang-format, the analyzer and the
  outcome of each system call are parameters, gathered in \<open>services\<close>.
\<close>

subsection \<open>Candidates and options\<close>

datatype Classification = Duplicate | UnusedByReference | Used | Class_ManualReview

fun classification_name :: "Classification \<Rightarrow> string" where
  "classification_name Duplicate = ''duplicate''"
| "classification_name UnusedByReference = ''unused_by_reference''"
| "classification_name Used = ''used''"
| "classification_name Class_ManualReview = ''manual_review''"

record Evidence =
  evd_owner :: string
  evd_target :: string
  evd_relation :: string

record IncludeCandidate =
  ca_id :: string
  ca_src_path :: string
  ca_dst_path :: string
  ca_spelling :: string
  ca_is_angled :: bool
  ca_line :: int
  ca_col :: int
  ca_begin_offset :: int
  ca_end_offset :: int
  ca_directive_text :: string
  ca_cond_fingerprint :: string
  ca_guarded :: bool
  ca_directive_kind :: int
  ca_cls :: Classification
  ca_caveats :: "string list"
  ca_owners :: "string list"
  ca_header_symbols :: "string list"
  ca_intersection_count :: int
  ca_evidence :: "Evidence list"
  ca_macro_uses :: "string list"
  ca_reverse_dependants :: "string list"
  ca_configs :: "string list"

record ExecuteOptions =
  eo_dry_run :: bool
  eo_only :: "string list"

record ExecuteResult =
  er_ok :: bool
  er_refusals :: "string list"
  er_edited_files :: "string list"
  er_removed :: int
  er_skipped :: int
  er_validations :: "ValidationRecord list"
  er_reindexed :: "string list"

subsection \<open>Paths of the plan\<close>

function no_dotdot :: "string \<Rightarrow> bool" where
  "no_dotdot r =
     (if r = [] then True
      else let part = takeWhile (\<lambda>c. c \<noteq> slash) r in
           if part = ''..'' then False else no_dotdot (drop (length part + 1) r))"
  by pat_completeness auto
termination
  by (relation "measure length") (auto simp only: in_measure length_drop, simp)

declare no_dotdot.simps [simp del]

definition within_repo :: "string \<Rightarrow> bool" where
  "within_repo rel \<longleftrightarrow> rel \<noteq> [] \<and> rel ! 0 \<noteq> slash \<and> no_dotdot rel"

subsection \<open>The atomic write\<close>

text \<open>
  The outcomes of the system calls. A write script lists what successive calls of
  \<^verbatim>\<open>write\<close> return; a call after the end of the script fails.
\<close>

datatype write_outcome = Wrote nat | Interrupted | Write_error

record file_ops =
  fo_lstat :: "string \<Rightarrow> (bool \<times> nat) option"
  fo_mkstemp :: "string \<Rightarrow> string option"
  fo_write :: "string \<Rightarrow> write_outcome list"
  fo_fsync :: "string \<Rightarrow> bool"
  fo_fchmod :: "string \<Rightarrow> bool"
  fo_close :: "string \<Rightarrow> bool"
  fo_rename :: "string \<Rightarrow> bool"

fun write_all :: "write_outcome list \<Rightarrow> string \<Rightarrow> string \<Rightarrow> bool \<times> string" where
  "write_all script written content =
     (if content = [] then (True, written)
      else case script of
             [] \<Rightarrow> (False, written)
           | Wrote n # rest \<Rightarrow> write_all rest (written @ take n content) (drop n content)
           | Interrupted # rest \<Rightarrow> write_all rest written content
           | Write_error # rest \<Rightarrow> (False, written))"

declare write_all.simps [simp del]

definition write_atomic :: "file_ops \<Rightarrow> disk \<Rightarrow> string \<Rightarrow> string \<Rightarrow> (string + unit) \<times> disk" where
  "write_atomic fo disk path content =
     (case fo_lstat fo path of
        None \<Rightarrow> (Inl (''cannot stat '' @ path), disk)
      | Some (is_link, nlink) \<Rightarrow>
          if is_link then
            (Inl (''refusing to edit a symlink: '' @ path
                  @ '' (rename would replace the link with a regular file)''), disk)
          else if nlink > 1 then
            (Inl (''refusing to edit a hard-linked file: '' @ path
                  @ '' (rename would detach it from its other name(s))''), disk)
          else case fo_mkstemp fo (dirname path @ ''/.cidx-apply-XXXXXX'') of
                 None \<Rightarrow> (Inl (''cannot create a temporary file next to '' @ path), disk)
               | Some tmp \<Rightarrow>
                   let (complete, written) = write_all (fo_write fo tmp) [] content;
                       disk' = disk(tmp \<mapsto> written);
                       unlinked = disk'(tmp := None)
                   in if \<not> complete then (Inl (''write failed: '' @ tmp), unlinked)
                      else if \<not> fo_fsync fo tmp then (Inl (''fsync failed: '' @ tmp), unlinked)
                      else if \<not> fo_fchmod fo tmp then (Inl (''cannot set permissions on '' @ tmp), unlinked)
                      else if \<not> fo_close fo tmp then (Inl (''close failed: '' @ tmp), unlinked)
                      else if \<not> fo_rename fo tmp then
                        (Inl (''rename failed: '' @ tmp @ '' -> '' @ path), unlinked)
                      else (Inr (), disk'(path := disk' tmp, tmp := None)))"

subsection \<open>The stages of an execution\<close>

definition kSchemaVersion :: int where "kSchemaVersion = 41"

record services =
  sv_hash :: "string \<Rightarrow> string"
  sv_compile :: compiler
  sv_format_cleanup :: "string \<Rightarrow> string \<Rightarrow> Removal list \<Rightarrow> string + string"
  sv_analyze :: "disk \<Rightarrow> string list \<Rightarrow> IncludeCandidate list"
  sv_file_ops :: file_ops

record world =
  w_disk :: disk
  w_pending :: "int list"

definition hash_file :: "services \<Rightarrow> disk \<Rightarrow> string \<Rightarrow> string option" where
  "hash_file sv disk path = map_option (sv_hash sv) (disk path)"

definition is_chosen :: "string list \<Rightarrow> PlanItem \<Rightarrow> bool" where
  "is_chosen only it \<longleftrightarrow> pi_state it = Accepted \<and> (only = [] \<or> pi_id it \<in> set only)"

definition chosen_items :: "string list \<Rightarrow> PlanItem list \<Rightarrow> PlanItem list" where
  "chosen_items only items = filter (is_chosen only) items"

definition unknown_only :: "string list \<Rightarrow> PlanItem list \<Rightarrow> string list" where
  "unknown_only only items =
     map (\<lambda>i. ''--only names an id that is not in this plan: '' @ i)
       (filter (\<lambda>i. \<not> list_ex (\<lambda>it. pi_id it = i) items) only)"

text \<open>
  \<^verbatim>\<open>content.substr\<close> converts the offsets to unsigned: a negative length takes
  the rest of the text, and a start outside the text throws \<^verbatim>\<open>std::out_of_range\<close>.
\<close>

definition holds_directive :: "PlanItem \<Rightarrow> string \<Rightarrow> bool" where
  "holds_directive it content \<longleftrightarrow>
     pi_end_offset it \<le> int (length content)
     \<and> (let tail = drop (nat (pi_begin_offset it)) content
        in (if pi_end_offset it < pi_begin_offset it then tail
            else take (nat (pi_end_offset it - pi_begin_offset it)) tail)) = pi_directive_text it"

datatype exec_error = Out_of_range

definition item_removal :: "disk \<Rightarrow> CleanupPlan \<Rightarrow> PlanItem \<Rightarrow> string + Removal" where
  "item_removal disk plan it =
     (let abs_path = Path_Util.join (cp_repo_root plan) [pi_file it] in
      if \<not> within_repo (pi_file it) then
        Inl (''item '' @ pi_id it @ '' names a path outside the repository root: '' @ pi_file it)
      else if map_of (cp_file_hashes plan) (pi_file it) = None then
        Inl (''plan carries no content hash for '' @ pi_file it @ '' (item '' @ pi_id it
             @ ''): it cannot be proven current, so it is refused'')
      else if \<not> holds_directive it (read_file disk abs_path) then
        Inl (''the bytes at '' @ pi_file it @ '':'' @ show_int (pi_line it)
             @ '' are not the directive this plan reviewed (item '' @ pi_id it @ '')'')
      else Inr \<lparr>rm_abs_path = abs_path, rm_begin_offset = pi_begin_offset it,
                rm_end_offset = pi_end_offset it\<rparr>)"

definition substr_throws :: "disk \<Rightarrow> CleanupPlan \<Rightarrow> PlanItem \<Rightarrow> bool" where
  "substr_throws disk plan it \<longleftrightarrow>
     (let content = read_file disk (Path_Util.join (cp_repo_root plan) [pi_file it]) in
      within_repo (pi_file it) \<and> map_of (cp_file_hashes plan) (pi_file it) \<noteq> None
      \<and> pi_end_offset it \<le> int (length content)
      \<and> (pi_begin_offset it < 0 \<or> pi_begin_offset it > int (length content)))"

definition lefts :: "('a + 'b) list \<Rightarrow> 'a list" where
  "lefts xs = concat (map (\<lambda>x. case x of Inl a \<Rightarrow> [a] | Inr _ \<Rightarrow> []) xs)"

definition rights :: "('a + 'b) list \<Rightarrow> 'b list" where
  "rights xs = concat (map (\<lambda>x. case x of Inl _ \<Rightarrow> [] | Inr b \<Rightarrow> [b]) xs)"

definition still_removable :: "IncludeCandidate list \<Rightarrow> PlanItem \<Rightarrow> bool" where
  "still_removable current it =
     (case find (\<lambda>c. ca_id c = pi_id it) current of
        None \<Rightarrow> False
      | Some c \<Rightarrow> (ca_cls c = UnusedByReference \<or> ca_cls c = Duplicate)
          \<and> ca_begin_offset c = pi_begin_offset it \<and> ca_end_offset c = pi_end_offset it
          \<and> ca_directive_text c = pi_directive_text it)"

definition reclassified :: "IncludeCandidate list \<Rightarrow> PlanItem list \<Rightarrow> string list" where
  "reclassified current chosen =
     map (\<lambda>it. ''the current index no longer classifies item '' @ pi_id it @ '' ('' @ pi_file it @ '':''
               @ show_int (pi_line it) @ '') as a removable finding: re-run `cidx include plan`'')
       (filter (\<lambda>it. \<not> still_removable current it) chosen)"

definition touched_targets :: "hygiene_db \<Rightarrow> string list \<Rightarrow> (string + TuTarget list) list" where
  "touched_targets db touched =
     map (\<lambda>f. case affected_tus db f of
                None \<Rightarrow> Inl (''no compile command reaches '' @ f
                             @ '': this edit cannot be proven, so it will not be applied'')
              | Some ts \<Rightarrow> Inr ts) touched"

text \<open>\<^verbatim>\<open>unique\<close> with the comparison of path and digest: the first of every run is kept.\<close>

fun unique_targets :: "TuTarget list \<Rightarrow> TuTarget list" where
  "unique_targets [] = []"
| "unique_targets [t] = [t]"
| "unique_targets (t # u # ts) =
     (if tt_tu_path t = tt_tu_path u \<and> tt_config_digest t = tt_config_digest u
      then unique_targets (t # ts) else t # unique_targets (u # ts))"

definition final_targets :: "TuTarget list \<Rightarrow> TuTarget list" where
  "final_targets ts = unique_targets (sort_key (\<lambda>t. (tt_tu_path t, tt_config_digest t)) ts)"

definition failures :: "string \<Rightarrow> string \<Rightarrow> ValidationRecord list \<Rightarrow> string list" where
  "failures prefix suffix records =
     map (\<lambda>v. prefix @ vr_tu_path v @ '': '' @ vr_diagnostic v @ suffix) (filter (\<lambda>v. \<not> vr_ok v) records)"

definition final_buffers ::
  "services \<Rightarrow> disk \<Rightarrow> (string \<times> Removal list) list \<Rightarrow> string + (string \<times> string) list" where
  "final_buffers sv disk by_file =
     mapE (\<lambda>(path, rs). bindE (sv_format_cleanup sv path (read_file disk path) rs) (\<lambda>out. Inr (path, out))) by_file"

fun write_files :: "file_ops \<Rightarrow> disk \<Rightarrow> (string \<times> string) list \<Rightarrow> string list \<Rightarrow> string option \<times> string list \<times> disk" where
  "write_files fo disk [] edited = (None, edited, disk)"
| "write_files fo disk ((path, content) # rest) edited =
     (case write_atomic fo disk path content of
        (Inl err, disk') \<Rightarrow> (Some err, edited, disk')
      | (Inr _, disk') \<Rightarrow> write_files fo disk' rest (edited @ [path]))"

definition stale_files :: "hygiene_db \<Rightarrow> string list \<Rightarrow> string list" where
  "stale_files db touched =
     sort_unique (touched @ concat (map (\<lambda>f. case affected_tus db f of
        None \<Rightarrow> [] | Some ts \<Rightarrow> map tt_tu_path ts) touched))"

subsection \<open>The executor\<close>

definition empty_result :: "ExecuteResult" where
  "empty_result = \<lparr>er_ok = False, er_refusals = [], er_edited_files = [], er_removed = 0, er_skipped = 0,
     er_validations = [], er_reindexed = []\<rparr>"

text \<open>Steps 9 to 11: staged writes, validation of the real tree, marking of stale rows.\<close>

definition commit :: "services \<Rightarrow> hygiene_db \<Rightarrow> world \<Rightarrow> ExecuteResult \<Rightarrow> TuTarget list \<Rightarrow> string list \<Rightarrow> nat
    \<Rightarrow> (string \<times> string) list \<Rightarrow> ExecuteResult \<times> world" where
  "commit sv db w res targets touched n finals =
     (case write_files (sv_file_ops sv) (w_disk w) finals [] of
        (Some err, edited, disk') \<Rightarrow>
          (res\<lparr>er_refusals := er_refusals res @ [err], er_edited_files := edited\<rparr>, w\<lparr>w_disk := disk'\<rparr>)
      | (None, edited, disk') \<Rightarrow>
          let post = validate (sv_compile sv) disk' targets [] ''post_write'';
              res1 = res\<lparr>er_edited_files := edited, er_removed := int n,
                         er_validations := er_validations res @ post,
                         er_refusals := er_refusals res
                           @ failures ''POST-WRITE validation failed for ''
                               '' -- the tree has been edited; review it'' post\<rparr>
          in if er_refusals res1 \<noteq> [] then (res1, w\<lparr>w_disk := disk'\<rparr>)
             else let rows = List.map_filter (\<lambda>f. map_option (Pair f) (db_get_file db f)) (stale_files db touched)
                  in (res1\<lparr>er_ok := True, er_reindexed := map fst rows\<rparr>,
                      w\<lparr>w_disk := disk', w_pending := w_pending w @ map snd rows\<rparr>))"

text \<open>Steps 4 to 8: final buffers and the proof of exactly those bytes.\<close>

definition preflight :: "services \<Rightarrow> hygiene_db \<Rightarrow> world \<Rightarrow> ExecuteOptions \<Rightarrow> ExecuteResult \<Rightarrow> TuTarget list
    \<Rightarrow> string list \<Rightarrow> nat \<Rightarrow> Removal list \<Rightarrow> ExecuteResult \<times> world" where
  "preflight sv db w opts res targets touched n removals =
     (case final_buffers sv (w_disk w) (group_by_file removals) of
        Inl err \<Rightarrow> (res\<lparr>er_refusals := er_refusals res @ [err]\<rparr>, w)
      | Inr finals \<Rightarrow>
          let pre = validate (sv_compile sv) (w_disk w) targets finals ''preflight'';
              res1 = res\<lparr>er_validations := er_validations res @ pre,
                         er_refusals := er_refusals res @ failures ''preflight failed for '' [] pre\<rparr>
          in if er_refusals res1 \<noteq> [] then (res1, w)
             else if eo_dry_run opts
             then (res1\<lparr>er_ok := True, er_edited_files := map fst finals, er_removed := int n\<rparr>, w)
             else commit sv db w res1 targets touched n finals)"

text \<open>Step 3: the configurations must be the reviewed ones, and the combined overlay must compile.\<close>

definition revalidate :: "services \<Rightarrow> hygiene_db \<Rightarrow> world \<Rightarrow> CleanupPlan \<Rightarrow> ExecuteOptions \<Rightarrow> ExecuteResult
    \<Rightarrow> string list \<Rightarrow> nat \<Rightarrow> Removal list \<Rightarrow> ExecuteResult \<times> world" where
  "revalidate sv db w plan opts res touched n removals =
     (let per_file = touched_targets db touched in
      if lefts per_file \<noteq> [] then (res\<lparr>er_refusals := er_refusals res @ lefts per_file\<rparr>, w)
      else
        let targets = final_targets (concat (rights per_file)) in
        if list_ex (\<lambda>t. tt_config_digest t \<notin> set (cp_config_digests plan)) targets then
          (res\<lparr>er_refusals := er_refusals res
             @ [''a build configuration reaching these files is not one the plan was reviewed against: regenerate the plan with `cidx include plan`'']\<rparr>, w)
        else
          let combined = validate (sv_compile sv) (w_disk w) targets (overlay_for (w_disk w) removals) ''combined'';
              res1 = res\<lparr>er_validations := combined\<rparr>
          in if \<not> all_ok combined then
               (res1\<lparr>er_refusals := er_refusals res @ failures ''combined validation failed for '' [] combined\<rparr>, w)
             else preflight sv db w opts res1 targets touched n removals)"

definition execute :: "services \<Rightarrow> hygiene_db \<Rightarrow> world \<Rightarrow> CleanupPlan \<Rightarrow> ExecuteOptions
    \<Rightarrow> exec_error + ExecuteResult \<times> world" where
  "execute sv db w plan opts =
     (let stale = staleness_reasons (hash_file sv (w_disk w)) plan kSchemaVersion in
      if stale \<noteq> [] then
        Inr (empty_result\<lparr>er_refusals := stale
          @ [''regenerate the plan with `cidx include plan` and review it again'']\<rparr>, w)
      else
        let chosen = chosen_items (eo_only opts) (cp_items plan);
            res = empty_result\<lparr>er_skipped := int (length (cp_items plan) - length chosen),
                               er_refusals := unknown_only (eo_only opts) (cp_items plan)\<rparr>
        in if er_refusals res \<noteq> [] then Inr (res, w)
           else if chosen = [] then Inr (res\<lparr>er_ok := True\<rparr>, w)
           else if list_ex (substr_throws (w_disk w) plan) chosen then Inl Out_of_range
           else
             let checks = map (item_removal (w_disk w) plan) chosen;
                 removals = rights checks;
                 touched = sort_unique (map rm_abs_path removals)
             in if lefts checks \<noteq> [] then Inr (res\<lparr>er_refusals := lefts checks\<rparr>, w)
                else
                  let moved = reclassified (sv_analyze sv (w_disk w) touched) chosen in
                  if moved \<noteq> [] then Inr (res\<lparr>er_refusals := moved\<rparr>, w)
                  else Inr (revalidate sv db w plan opts res touched (length chosen) removals))"

subsection \<open>A plan path stays below the repository root\<close>

lemma no_dotdot_split: "no_dotdot r \<longleftrightarrow> ''..'' \<notin> set (split_components r)"
proof (induction r rule: no_dotdot.induct)
  case (1 r)
  let ?part = "takeWhile (\<lambda>c. c \<noteq> slash) r"
  consider "r = []" | "r \<noteq> []" "length ?part = length r" | "r \<noteq> []" "length ?part \<noteq> length r" by blast
  then show ?case
  proof cases
    case 2
    then have part: "?part = r" by (metis takeWhile_eq_take take_all order_refl)
    have "split_components r = [r]" by (subst split_components.simps) (simp only: part Let_def, simp)
    moreover have "no_dotdot r \<longleftrightarrow> r \<noteq> ''..''"
      by (subst no_dotdot.simps) (simp only: part Let_def, simp add: no_dotdot.simps)
    ultimately show ?thesis by auto
  next
    case 3
    then show ?thesis using "1.IH" by (auto simp: no_dotdot.simps [of r] split_components.simps [of r] Let_def)
  qed (simp add: no_dotdot.simps)
qed

lemma norm_fold_no_up:
  "''..'' \<notin> set cs \<Longrightarrow> foldl (norm_push s) acc cs = acc @ filter (\<lambda>c. c \<noteq> [] \<and> c \<noteq> ''.'') cs"
  by (induction cs arbitrary: acc) (auto simp: norm_push_def)

lemma within_repo_parts:
  assumes "within_repo rel" "normpath root = root" "initial_slashes root = 1"
  shows "abs_parts cwd (Path_Util.join root [rel])
    = abs_parts cwd root @ filter (\<lambda>c. c \<noteq> [] \<and> c \<noteq> ''.'') (split_components rel)"
proof -
  have abs: "isabs root" using assms(3) by (simp add: isabs_iff_slashes)
  then have ap: "abspath cwd root = root" using assms(2) by (simp add: abspath_def)
  obtain cs where cs: "root = render 1 cs" "norm_comps 1 cs" "abs_parts cwd root = cs"
    using abspath_comps [of cwd root] assms(3) ap by metis
  have rel: "rel \<noteq> []" "rel ! 0 \<noteq> slash" "''..'' \<notin> set (split_components rel)"
    using assms(1) by (auto simp: within_repo_def no_dotdot_split)
  let ?q = "join_one (render 1 cs) rel"
  note q = join_one_comps [OF cs(2) rel(1,2)]
  have "isabs ?q" using q by (simp add: isabs_iff_slashes)
  then have "abspath cwd ?q = normpath ?q" by (simp add: abspath_def)
  also have "\<dots> = render 1 (foldl (norm_push 1) [] (cs @ filter (\<lambda>c. c \<noteq> []) (split_components rel)))"
    using q normpath_by_comps [of ?q] by simp
  also have "foldl (norm_push 1) [] (cs @ filter (\<lambda>c. c \<noteq> []) (split_components rel))
      = cs @ filter (\<lambda>c. c \<noteq> [] \<and> c \<noteq> ''.'') (split_components rel)" (is "_ = ?cs")
    using norm_fold_id [of 1 "[]" cs] cs(2) rel(3) by (simp add: norm_fold_no_up norm_fold_filter)
  finally have ap': "abspath cwd ?q = render 1 ?cs" .
  have "norm_comps 1 ?cs"
    using norm_comps_part [OF cs(2)] norm_comps_no_up [OF cs(2)] cs(2) rel(3) split_components_parts
    by (auto simp: norm_comps_def intro!: exI [of _ 0] exI [of _ ?cs])
  from filter_split_render [OF this] show ?thesis
    using ap' cs by (simp add: abs_parts_def Path_Util.join_def)
qed

text \<open>The test on a plan's file names is enough to keep every edit inside the repository: for a
  normalised repository root, the components of the joined and normalised path are those of the root
  followed by components of the name, none of which is a parent reference.\<close>

theorem within_repo_contained:
  assumes "within_repo rel" "normpath root = root" "initial_slashes root = 1"
  shows "\<exists>below. abs_parts cwd (Path_Util.join root [rel]) = abs_parts cwd root @ below \<and> ''..'' \<notin> set below"
  using within_repo_parts [OF assms] assms(1) by (auto simp: within_repo_def no_dotdot_split)

text \<open>A name with dots and empty components below a two-level root.\<close>

theorem within_repo_contained_witness:
  "\<exists>below. abs_parts ''/'' (Path_Util.join ''/w/repo'' [''src/./x//y..z.h''])
     = abs_parts ''/'' ''/w/repo'' @ below \<and> ''..'' \<notin> set below"
  by (rule within_repo_contained) code_simp+

subsection \<open>Writes are all or nothing\<close>

lemma write_all_complete: "write_all script written content = (True, out) \<Longrightarrow> out = written @ content"
proof (induction script written content rule: write_all.induct)
  case (1 script written content)
  then show ?case
    by (subst (asm) (2) write_all.simps) (auto split: if_splits list.splits write_outcome.splits)
qed

definition mkstemp_fresh :: "file_ops \<Rightarrow> disk \<Rightarrow> bool" where
  "mkstemp_fresh fo disk \<longleftrightarrow> (\<forall>template tmp. fo_mkstemp fo template = Some tmp \<longrightarrow> disk tmp = None)"

lemma write_atomic_cases:
  assumes "mkstemp_fresh fo disk" "disk path \<noteq> None"
  obtains err where "write_atomic fo disk path content = (Inl err, disk)"
  | "write_atomic fo disk path content = (Inr (), disk(path \<mapsto> content))"
proof (cases "\<exists>err. fst (write_atomic fo disk path content) = Inl err")
  case True
  then have "snd (write_atomic fo disk path content) = disk"
    using assms(1) by (auto simp: write_atomic_def Let_def mkstemp_fresh_def split: option.splits prod.splits if_splits)
  with True that(1) show ?thesis by (metis prod.collapse)
next
  case False
  then obtain tmp written where "fo_mkstemp fo (dirname path @ ''/.cidx-apply-XXXXXX'') = Some tmp"
    "write_all (fo_write fo tmp) [] content = (True, written)"
    "write_atomic fo disk path content = (Inr (), (disk(tmp \<mapsto> written))(path := Some written, tmp := None))"
    by (auto simp: write_atomic_def Let_def split: option.splits prod.splits if_splits)
  moreover from this have "written = content" "disk tmp = None" "tmp \<noteq> path"
    using write_all_complete assms by (auto simp: mkstemp_fresh_def)
  moreover from this have "(disk(tmp \<mapsto> written))(path := Some written, tmp := None) = disk(path \<mapsto> content)"
    by (simp add: fun_eq_iff)
  ultimately show ?thesis using that(2) by metis
qed

text \<open>(C36) Replacing a file is atomic: when the temporary name is unused, as \<^verbatim>\<open>mkstemp\<close> guarantees, either
  the write reports an error and no file has changed, the temporary included, or the file holds exactly
  the new content and no other file has changed.\<close>

theorem write_atomic_all_or_nothing:
  assumes "\<forall>template tmp. fo_mkstemp fo template = Some tmp \<longrightarrow> disk tmp = None" "disk path \<noteq> None"
  shows "case write_atomic fo disk path content of
      (Inl err, disk') \<Rightarrow> disk' = disk
    | (Inr _, disk') \<Rightarrow> disk' = disk(path \<mapsto> content)"
proof -
  from assms(1) have "mkstemp_fresh fo disk" by (simp add: mkstemp_fresh_def)
  then show ?thesis using assms(2) by (cases rule: write_atomic_cases [of fo disk path content]) auto
qed

definition sample_ops :: file_ops where
  "sample_ops = \<lparr>fo_lstat = (\<lambda>p. Some (False, if p = ''/r/b.c'' then 2 else 1)), fo_mkstemp = (\<lambda>t. Some ''/r/.tmp''),
     fo_write = (\<lambda>_. [Wrote 1, Interrupted, Wrote 100]), fo_fsync = (\<lambda>_. True), fo_fchmod = (\<lambda>_. True),
     fo_close = (\<lambda>_. True), fo_rename = (\<lambda>_. True)\<rparr>"

text \<open>A write in two parts, interrupted once, replaces the file.\<close>

theorem write_atomic_all_or_nothing_witness:
  "snd (write_atomic sample_ops [''/r/a.c'' \<mapsto> ''old''] ''/r/a.c'' ''new'') = [''/r/a.c'' \<mapsto> ''new'']"
proof -
  have "\<forall>template tmp. fo_mkstemp sample_ops template = Some tmp \<longrightarrow> [''/r/a.c'' \<mapsto> ''old''] tmp = None"
    "[''/r/a.c'' \<mapsto> ''old''] ''/r/a.c'' \<noteq> None"
    by (simp_all add: sample_ops_def)
  note w = write_atomic_all_or_nothing [OF this, of "''new''"]
  have "fst (write_atomic sample_ops [''/r/a.c'' \<mapsto> ''old''] ''/r/a.c'' ''new'') = Inr ()"
    by (simp add: write_atomic_def sample_ops_def write_all.simps)
  then obtain d where d: "write_atomic sample_ops [''/r/a.c'' \<mapsto> ''old''] ''/r/a.c'' ''new'' = (Inr (), d)"
    by (metis prod.collapse)
  from w [unfolded d] show ?thesis unfolding d by (simp only: prod.case sum.case snd_conv fun_upd_upd)
qed

subsection \<open>What an execution may change\<close>

definition patched :: "disk \<Rightarrow> (string \<times> string) list \<Rightarrow> disk" where
  "patched disk finals = foldl (\<lambda>d (p, c). d(p \<mapsto> c)) disk finals"

lemma write_files_spec:
  assumes "mkstemp_fresh fo disk" "list_all (\<lambda>(p, c). disk p \<noteq> None) finals"
    "write_files fo disk finals edited = (err, edited', disk')"
  shows "\<exists>k \<le> length finals. disk' = patched disk (take k finals) \<and> edited' = edited @ map fst (take k finals)
    \<and> (err = None \<longrightarrow> k = length finals)"
  using assms
proof (induction fo disk finals edited rule: write_files.induct)
  case (2 fo disk path content rest edited)
  have exists: "disk path \<noteq> None" using "2.prems"(2) by simp
  from "2.prems"(1) exists show ?case
  proof (cases rule: write_atomic_cases [of fo disk path content])
    case 1
    with "2.prems"(3) show ?thesis by (intro exI [of _ 0]) (auto simp: patched_def)
  next
    case 2
    have "mkstemp_fresh fo (disk(path \<mapsto> content))" "list_all (\<lambda>(p, c). (disk(path \<mapsto> content)) p \<noteq> None) rest"
      using "2.prems"(1,2) exists by (auto simp: mkstemp_fresh_def list_all_iff)
    moreover have "write_files fo (disk(path \<mapsto> content)) rest (edited @ [path]) = (err, edited', disk')"
      using "2.prems"(3) unfolding write_files.simps 2 by (simp only: prod.case sum.case)
    ultimately obtain k where "k \<le> length rest"
      "disk' = patched (disk(path \<mapsto> content)) (take k rest)" "edited' = (edited @ [path]) @ map fst (take k rest)"
      "err = None \<longrightarrow> k = length rest" using "2.IH" [OF 2 [symmetric] refl] by metis
    then show ?thesis by (intro exI [of _ "Suc k"]) (auto simp: patched_def)
  qed
qed (simp add: patched_def)

lemma patched_map_of: "distinct (map fst finals) \<Longrightarrow> patched disk finals p = (case map_of finals p of None \<Rightarrow> disk p | Some c \<Rightarrow> Some c)"
proof (induction finals arbitrary: disk)
  case (Cons pc finals)
  obtain q c where "pc = (q, c)" by (cases pc)
  with Cons have "patched disk (pc # finals) p = (case map_of finals p of None \<Rightarrow> (disk(q \<mapsto> c)) p | Some c \<Rightarrow> Some c)"
    by (simp add: patched_def)
  moreover have "q \<notin> dom (map_of finals)" using Cons.prems \<open>pc = (q, c)\<close> by (simp add: dom_map_of_conv_image_fst)
  ultimately show ?case using \<open>pc = (q, c)\<close> by (auto split: option.splits)
qed (simp add: patched_def)

lemma failures_Nil: "failures pre suf rs = [] \<longleftrightarrow> all_ok rs"
  by (auto simp: failures_def all_ok_def filter_empty_conv list_all_iff)

lemma commit_changed:
  assumes "commit sv db w res targets touched n finals = (res', w')"
  obtains err edited disk' where "write_files (sv_file_ops sv) (w_disk w) finals [] = (err, edited, disk')"
    "w_disk w' = disk'" "er_edited_files res' = edited" "er_ok res' \<longrightarrow> er_ok res \<or> err = None"
proof -
  obtain err edited disk' where wf: "write_files (sv_file_ops sv) (w_disk w) finals [] = (err, edited, disk')"
    by (metis prod_cases3)
  with assms have "w_disk w' = disk'" "er_edited_files res' = edited" "er_ok res' \<longrightarrow> er_ok res \<or> err = None"
    by (auto simp: commit_def Let_def split: option.splits if_splits)
  with wf that show ?thesis by blast
qed

lemma preflight_changed:
  assumes "preflight sv db w opts res targets touched n removals = (res', w')" "w' \<noteq> w"
  obtains finals res1 where "\<not> eo_dry_run opts" "final_buffers sv (w_disk w) (group_by_file removals) = Inr finals"
    "all_ok (validate (sv_compile sv) (w_disk w) targets finals ''preflight'')"
    "commit sv db w res1 targets touched n finals = (res', w')" "er_ok res1 = er_ok res"
  using assms by (auto simp: preflight_def Let_def failures_Nil split: sum.splits if_splits)

lemma revalidate_changed:
  assumes "revalidate sv db w plan opts res touched n removals = (res', w')" "w' \<noteq> w"
  obtains targets res1 where "lefts (touched_targets db touched) = []"
    "targets = final_targets (concat (rights (touched_targets db touched)))"
    "list_all (\<lambda>t. tt_config_digest t \<in> set (cp_config_digests plan)) targets"
    "all_ok (validate (sv_compile sv) (w_disk w) targets (overlay_for (w_disk w) removals) ''combined'')"
    "preflight sv db w opts res1 targets touched n removals = (res', w')" "er_ok res1 = er_ok res"
  using assms
  by (auto simp: revalidate_def Let_def list_all_iff list_ex_iff split: if_splits)

lemma execute_changed:
  assumes "execute sv db w plan opts = Inr (res', w')" "w' \<noteq> w"
  obtains chosen checks res1 touched where
    "staleness_reasons (hash_file sv (w_disk w)) plan kSchemaVersion = []"
    "chosen = chosen_items (eo_only opts) (cp_items plan)"
    "checks = map (item_removal (w_disk w) plan) chosen" "lefts checks = []"
    "touched = sort_unique (map rm_abs_path (rights checks))"
    "reclassified (sv_analyze sv (w_disk w) touched) chosen = []"
    "revalidate sv db w plan opts res1 touched (length chosen) (rights checks) = (res', w')" "er_ok res1 = False"
  using assms by (auto simp: execute_def Let_def empty_result_def split: if_splits)

lemma group_by_file_keys:
  "omap_sorted (group_by_file rs)" "fst ` set (group_by_file rs) = rm_abs_path ` set rs"
proof -
  let ?step = "\<lambda>m r. omap_insert (rm_abs_path r)
    ((case map_of m (rm_abs_path r) of None \<Rightarrow> [] | Some rs \<Rightarrow> rs) @ [r]) m"
  have "omap_sorted m \<Longrightarrow> omap_sorted (foldl ?step m rs)
      \<and> fst ` set (foldl ?step m rs) = fst ` set m \<union> rm_abs_path ` set rs" for m
    by (induction rs arbitrary: m) auto
  from this [of "[]"] show "omap_sorted (group_by_file rs)" "fst ` set (group_by_file rs) = rm_abs_path ` set rs"
    by (simp_all add: group_by_file_def)
qed

lemma final_buffers_keys: "final_buffers sv disk bf = Inr finals \<Longrightarrow> map fst finals = map fst bf"
  unfolding final_buffers_def by (induction bf arbitrary: finals) (auto simp: bindE_Inr_iff split: prod.splits)

lemma set_rights: "r \<in> set (rights xs) \<longleftrightarrow> Inr r \<in> set xs"
  unfolding rights_def by (force split: sum.splits)

lemma lefts_Nil: "lefts xs = [] \<longleftrightarrow> (\<forall>a. Inl a \<notin> set xs)"
  unfolding lefts_def by (force split: sum.splits)

lemma unique_targets_cover:
  "t \<in> set ts \<Longrightarrow> \<exists>u \<in> set (unique_targets ts). tt_tu_path u = tt_tu_path t \<and> tt_config_digest u = tt_config_digest t"
proof (induction ts arbitrary: t rule: unique_targets.induct)
  case (3 a b ts)
  show ?case
  proof (cases "tt_tu_path a = tt_tu_path b \<and> tt_config_digest a = tt_config_digest b")
    case True
    with "3.IH"(1) [OF True, of a] "3.IH"(1) [OF True, of t] "3.prems" show ?thesis by (cases "t = b") auto
  next
    case False
    with 3 show ?thesis by (cases "t = a") auto
  qed
qed auto

lemma touched_targets_all:
  assumes "lefts (touched_targets db touched) = []" "p \<in> set touched"
  shows "\<exists>ts. affected_tus db p = Some ts \<and> Inr ts \<in> set (touched_targets db touched)"
proof (cases "affected_tus db p")
  case None
  then have "\<exists>a. Inl a \<in> set (touched_targets db touched)"
    using assms(2) by (auto simp: touched_targets_def intro!: image_eqI [of _ _ p])
  with assms(1) show ?thesis by (simp add: lefts_Nil)
next
  case (Some ts)
  then show ?thesis using assms(2) by (auto simp: touched_targets_def intro!: image_eqI [of _ _ p])
qed

lemma fresh_hash:
  "staleness_reasons hf plan v = [] \<Longrightarrow> map_of (cp_file_hashes plan) f = Some h \<Longrightarrow>
   hf (Path_Util.join (cp_repo_root plan) [f]) = Some h"
  by (fastforce simp: staleness_reasons_def hash_reason_Nil split: if_splits dest!: map_of_SomeD)

lemma item_removal_checked:
  "item_removal disk plan it = Inr r \<Longrightarrow> within_repo (pi_file it) \<and> map_of (cp_file_hashes plan) (pi_file it) \<noteq> None
    \<and> rm_abs_path r = Path_Util.join (cp_repo_root plan) [pi_file it] \<and> holds_directive it (read_file disk (rm_abs_path r))"
  by (auto simp: item_removal_def Let_def split: if_splits)

text \<open>One execution that changed the disk at a path, with everything that was checked before.\<close>

lemma execute_changed_path:
  assumes ex: "execute sv db w plan opts = Inr (res, w')" and tmp: "mkstemp_fresh (sv_file_ops sv) (w_disk w)"
    and p: "w_disk w' p \<noteq> w_disk w p"
  obtains it targets touched finals content where
    "\<not> eo_dry_run opts" "it \<in> set (cp_items plan)" "is_chosen (eo_only opts) it" "within_repo (pi_file it)"
    "p = Path_Util.join (cp_repo_root plan) [pi_file it]" "holds_directive it (read_file (w_disk w) p)"
    "map_of (cp_file_hashes plan) (pi_file it) \<noteq> None"
    "hash_file sv (w_disk w) p = map_of (cp_file_hashes plan) (pi_file it)"
    "still_removable (sv_analyze sv (w_disk w) touched) it"
    "lefts (touched_targets db touched) = []" "p \<in> set touched"
    "targets = final_targets (concat (rights (touched_targets db touched)))"
    "all_ok (validate (sv_compile sv) (w_disk w) targets finals ''preflight'')"
    "map_of finals p = Some content" "w_disk w' p = Some content"
proof -
  from p have "w' \<noteq> w" by auto
  with ex obtain chosen checks res1 touched where 1:
    "staleness_reasons (hash_file sv (w_disk w)) plan kSchemaVersion = []"
    "chosen = chosen_items (eo_only opts) (cp_items plan)"
    "checks = map (item_removal (w_disk w) plan) chosen" "lefts checks = []"
    "touched = sort_unique (map rm_abs_path (rights checks))"
    "reclassified (sv_analyze sv (w_disk w) touched) chosen = []"
    "revalidate sv db w plan opts res1 touched (length chosen) (rights checks) = (res, w')"
    by (rule execute_changed)
  from 1(7) \<open>w' \<noteq> w\<close> obtain targets res2 where 2: "lefts (touched_targets db touched) = []"
    "targets = final_targets (concat (rights (touched_targets db touched)))"
    "preflight sv db w opts res2 targets touched (length chosen) (rights checks) = (res, w')"
    by (rule revalidate_changed)
  from 2(3) \<open>w' \<noteq> w\<close> obtain finals res3 where 3: "\<not> eo_dry_run opts"
    "final_buffers sv (w_disk w) (group_by_file (rights checks)) = Inr finals"
    "all_ok (validate (sv_compile sv) (w_disk w) targets finals ''preflight'')"
    "commit sv db w res3 targets touched (length chosen) finals = (res, w')"
    by (rule preflight_changed)
  from 3(4) obtain err edited disk' where 4:
    "write_files (sv_file_ops sv) (w_disk w) finals [] = (err, edited, disk')" "w_disk w' = disk'"
    by (rule commit_changed)
  have keys: "fst ` set finals = rm_abs_path ` set (rights checks)" "distinct (map fst finals)"
    using final_buffers_keys [OF 3(2)] group_by_file_keys [of "rights checks"]
    by (auto simp: strict_sorted_iff simp flip: set_map)
  have item: "\<exists>it \<in> set chosen. item_removal (w_disk w) plan it = Inr r" if "r \<in> set (rights checks)" for r
    using that 1(3) by (auto simp: set_rights)
  have exists: "w_disk w q \<noteq> None" if q: "q \<in> fst ` set finals" for q
  proof -
    from q keys(1) obtain r where r: "r \<in> set (rights checks)" "q = rm_abs_path r" by auto
    with item obtain it where "item_removal (w_disk w) plan it = Inr r" by blast
    with item_removal_checked fresh_hash [OF 1(1)] r(2) have "hash_file sv (w_disk w) q \<noteq> None" by fastforce
    then show ?thesis by (auto simp: hash_file_def)
  qed
  then have "list_all (\<lambda>(p, c). w_disk w p \<noteq> None) finals" by (force simp: list_all_iff)
  from write_files_spec [OF tmp this 4(1)] obtain k where "w_disk w' = patched (w_disk w) (take k finals)"
    using 4(2) by auto
  moreover have "distinct (map fst (take k finals))" using keys(2) by (simp add: take_map [symmetric])
  ultimately obtain content where "map_of (take k finals) p = Some content" "w_disk w' p = Some content"
    using p patched_map_of [of "take k finals" "w_disk w" p] by (auto split: option.splits)
  then have content: "map_of finals p = Some content" "w_disk w' p = Some content"
    using keys(2) by (auto simp: map_of_eq_Some_iff dest: in_set_takeD map_of_SomeD)
  then have "p \<in> fst ` set finals" by (force dest: map_of_SomeD)
  with keys(1) obtain r where r: "r \<in> set (rights checks)" "p = rm_abs_path r" by auto
  with item obtain it where it: "it \<in> set chosen" "item_removal (w_disk w) plan it = Inr r" by blast
  note chk = item_removal_checked [OF it(2)]
  have "still_removable (sv_analyze sv (w_disk w) touched) it"
    using 1(6) it(1) by (auto simp: reclassified_def filter_empty_conv)
  moreover have "hash_file sv (w_disk w) p = map_of (cp_file_hashes plan) (pi_file it)"
    using chk fresh_hash [OF 1(1)] r(2) by auto
  moreover have "it \<in> set (cp_items plan)" "is_chosen (eo_only opts) it" using it(1) 1(2) by (auto simp: chosen_items_def)
  moreover have "p \<in> set touched" using r 1(5) by simp
  ultimately show ?thesis using that 3(1,3) 2(1,2) chk r(2) content by metis
qed

text \<open>(C4) A file that an execution changed was named by an accepted, selected item of the plan, by a path
  inside the repository; its content was the one the plan recorded a hash of, the item's byte range
  held exactly the reviewed directive, and the current analysis still classifies the item as removable.
  A dry run changes nothing.\<close>

theorem execute_edits_only_reviewed:
  assumes "execute sv db w plan opts = Inr (res, w')"
    and "\<forall>template tmp. fo_mkstemp (sv_file_ops sv) template = Some tmp \<longrightarrow> w_disk w tmp = None"
    and "w_disk w' p \<noteq> w_disk w p"
  shows "\<not> eo_dry_run opts \<and> (\<exists>it \<in> set (cp_items plan). pi_state it = Accepted
    \<and> (eo_only opts = [] \<or> pi_id it \<in> set (eo_only opts))
    \<and> within_repo (pi_file it) \<and> p = Path_Util.join (cp_repo_root plan) [pi_file it]
    \<and> map_of (cp_file_hashes plan) (pi_file it) \<noteq> None
    \<and> hash_file sv (w_disk w) p = map_of (cp_file_hashes plan) (pi_file it)
    \<and> holds_directive it (read_file (w_disk w) p)
    \<and> (\<exists>touched. p \<in> set touched \<and> still_removable (sv_analyze sv (w_disk w) touched) it))"
proof -
  from assms(2) have "mkstemp_fresh (sv_file_ops sv) (w_disk w)" by (simp add: mkstemp_fresh_def)
  from assms(1) this assms(3) show ?thesis by (rule execute_changed_path) (auto simp: is_chosen_def)
qed

text \<open>(C1) The bytes an execution leaves in a file it changed are bytes that were proven first: they are
  part of a set of final buffers under which every translation unit that the changed file affects was
  compiled without an error before anything was written.\<close>

theorem execute_writes_proven_bytes:
  assumes "execute sv db w plan opts = Inr (res, w')"
    and "\<forall>template tmp. fo_mkstemp (sv_file_ops sv) template = Some tmp \<longrightarrow> w_disk w tmp = None"
    and "w_disk w' p \<noteq> w_disk w p"
  shows "\<exists>finals ts. w_disk w' p = map_of finals p \<and> map_of finals p \<noteq> None \<and> affected_tus db p = Some ts
    \<and> list_all (\<lambda>t. \<exists>u. tt_tu_path u = tt_tu_path t \<and> tt_config_digest u = tt_config_digest t
        \<and> sv_compile sv u (overlaid (w_disk w) finals) = (0, [])) ts"
proof -
  from assms(2) have "mkstemp_fresh (sv_file_ops sv) (w_disk w)" by (simp add: mkstemp_fresh_def)
  from assms(1) this assms(3) obtain targets touched finals content where h:
    "lefts (touched_targets db touched) = []" "p \<in> set touched"
    "targets = final_targets (concat (rights (touched_targets db touched)))"
    "all_ok (validate (sv_compile sv) (w_disk w) targets finals ''preflight'')"
    "map_of finals p = Some content" "w_disk w' p = Some content" by (rule execute_changed_path)
  from touched_targets_all [OF h(1,2)] obtain ts where
    ts: "affected_tus db p = Some ts" "Inr ts \<in> set (touched_targets db touched)" by blast
  have "\<exists>u. tt_tu_path u = tt_tu_path t \<and> tt_config_digest u = tt_config_digest t
      \<and> sv_compile sv u (overlaid (w_disk w) finals) = (0, [])" if "t \<in> set ts" for t
  proof -
    have "t \<in> set (sort_key (\<lambda>t. (tt_tu_path t, tt_config_digest t)) (concat (rights (touched_targets db touched))))"
      using that ts(2) by (auto simp: set_rights)
    from unique_targets_cover [OF this] obtain u where u: "u \<in> set targets" "tt_tu_path u = tt_tu_path t"
      "tt_config_digest u = tt_config_digest t" using h(3) by (auto simp: final_targets_def)
    with h(4) have "vr_ok (validate_one (sv_compile sv) (w_disk w) finals ''preflight'' u)"
      by (auto simp: all_ok_def validate_def list_all_iff)
    with u show ?thesis by (auto simp: validate_one_def Let_def split: prod.splits)
  qed
  then have "list_all (\<lambda>t. \<exists>u. tt_tu_path u = tt_tu_path t \<and> tt_config_digest u = tt_config_digest t
      \<and> sv_compile sv u (overlaid (w_disk w) finals) = (0, [])) ts" unfolding list_all_iff by blast
  with ts(1) h(5,6) show ?thesis by (intro exI [of _ finals] exI [of _ ts]) simp
qed

text \<open>
  A repository of two files, each with one accepted item. The second file has another hard link, so
  its write is refused.
\<close>

definition two_item :: "string \<Rightarrow> string \<Rightarrow> PlanItem" where
  "two_item i f = sample_item\<lparr>pi_id := i, pi_file := f, pi_begin_offset := 0, pi_end_offset := 2,
     pi_directive_text := ''#i''\<rparr>"

definition two_plan :: CleanupPlan where
  "two_plan = sample_plan\<lparr>cp_schema_version := 41, cp_file_hashes := [(''a.c'', ''#ix''), (''b.c'', ''#iy'')],
     cp_items := [two_item ''1'' ''a.c'', two_item ''2'' ''b.c'']\<rparr>"

definition two_candidate :: "string \<Rightarrow> IncludeCandidate" where
  "two_candidate i = \<lparr>ca_id = i, ca_src_path = [], ca_dst_path = [], ca_spelling = [], ca_is_angled = False, ca_line = 1, ca_col = 1, ca_begin_offset = 0,
     ca_end_offset = 2, ca_directive_text = ''#i'', ca_cond_fingerprint = [], ca_guarded = True, ca_directive_kind = 0, ca_cls = UnusedByReference, ca_caveats = [],
     ca_owners = [], ca_header_symbols = [], ca_intersection_count = 0, ca_evidence = [], ca_macro_uses = [],
     ca_reverse_dependants = [], ca_configs = []\<rparr>"

definition two_db :: hygiene_db where
  "two_db = sample_db\<lparr>db_files := [], db_include_edges := [],
     db_get_file := (\<lambda>f. if f = ''/r/a.c'' then Some 1 else if f = ''/r/b.c'' then Some 1 else None)\<rparr>"

definition two_services :: services where
  "two_services = \<lparr>sv_hash = (\<lambda>c. c), sv_compile = (\<lambda>t d. (0, [])),
     sv_format_cleanup = (\<lambda>path original rs. Inr (apply_removals original rs)),
     sv_analyze = (\<lambda>d touched. [two_candidate ''1'', two_candidate ''2'']), sv_file_ops = sample_ops\<rparr>"

definition two_world :: world where
  "two_world = \<lparr>w_disk = [''/r/a.c'' \<mapsto> ''#ix'', ''/r/b.c'' \<mapsto> ''#iy''], w_pending = []\<rparr>"

definition two_run :: "exec_error + ExecuteResult \<times> world" where
  "two_run = execute two_services two_db two_world two_plan \<lparr>eo_dry_run = False, eo_only = []\<rparr>"

lemma two_run_result:
  "case two_run of Inl _ \<Rightarrow> False
   | Inr (res, w') \<Rightarrow> er_refusals res \<noteq> [] \<and> \<not> er_ok res \<and> er_edited_files res = [''/r/a.c'']
       \<and> w_disk w' ''/r/a.c'' = Some ''x'' \<and> w_disk w' ''/r/b.c'' = Some ''#iy''"
  by code_simp

lemma two_runE:
  obtains res w' where "execute two_services two_db two_world two_plan \<lparr>eo_dry_run = False, eo_only = []\<rparr> = Inr (res, w')"
    "er_refusals res \<noteq> []" "w_disk w' ''/r/a.c'' \<noteq> w_disk two_world ''/r/a.c''"
proof -
  have "w_disk two_world ''/r/a.c'' = Some ''#ix''" by (simp add: two_world_def)
  with two_run_result that show ?thesis by (auto simp: two_run_def split: sum.splits)
qed

lemma two_mkstemp:
  "\<forall>template tmp. fo_mkstemp (sv_file_ops two_services) template = Some tmp \<longrightarrow> w_disk two_world tmp = None"
  by (simp add: two_services_def sample_ops_def two_world_def)

text \<open>The changed file of the two-file repository belongs to an accepted item.\<close>

theorem execute_edits_only_reviewed_witness:
  "\<exists>it \<in> set (cp_items two_plan). pi_state it = Accepted \<and> within_repo (pi_file it)
     \<and> ''/r/a.c'' = Path_Util.join (cp_repo_root two_plan) [pi_file it]"
  by (rule two_runE) (use execute_edits_only_reviewed [OF _ two_mkstemp] in blast)

text \<open>Its new bytes were proven for the one unit that the file affects.\<close>

theorem execute_writes_proven_bytes_witness:
  "\<exists>ts. affected_tus two_db ''/r/a.c'' = Some ts"
  by (rule two_runE) (use execute_writes_proven_bytes [OF _ two_mkstemp] in blast)

text \<open>A refusal does not mean that nothing was written: when the write of a later file fails, the
  files written before it stay edited and the result still lists a refusal.\<close>

theorem refusal_after_partial_write:
  "\<exists>sv db w plan opts res w'. execute sv db w plan opts = Inr (res, w')
     \<and> er_refusals res \<noteq> [] \<and> w_disk w' \<noteq> w_disk w"
  by (rule two_runE) metis

text \<open>(C40) A plan that came from the checked reader never makes the executor throw: the byte ranges it
  compares lie inside the text whenever their end does.\<close>

theorem deserialized_plan_never_throws:
  assumes "deserialize t = Inr plan"
  shows "execute sv db w plan opts \<noteq> Inl e"
proof -
  have "\<not> substr_throws disk plan it" if "it \<in> set (chosen_items only (cp_items plan))" for disk it only
  proof -
    have "range_ok it" using that deserialize_ranges [OF assms] by (auto simp: chosen_items_def list_all_iff)
    then show ?thesis by (auto simp: substr_throws_def range_ok_def Let_def)
  qed
  then have "\<not> list_ex (substr_throws (w_disk w) plan) (chosen_items (eo_only opts) (cp_items plan))"
    by (simp add: list_ex_iff)
  then show ?thesis by (simp add: execute_def Let_def)
qed

text \<open>The sample plan's artifact runs without an exception.\<close>

theorem deserialized_plan_never_throws_witness:
  "execute two_services two_db two_world (sample_plan\<lparr>cp_items := [cleared sample_item]\<rparr>)
     \<lparr>eo_dry_run = True, eo_only = []\<rparr> \<noteq> Inl Out_of_range"
  by (rule deserialized_plan_never_throws [OF sample_deserialized])

end
