(* ===== verification/Planner.thy ===== *)
theory Planner
  imports Plan_Executor
begin

text \<open>
  Building a cleanup plan (\<^verbatim>\<open>include_hygiene/planner.cpp\<close>): the common repository
  root of the touched files, repository-relative names, and the sequential
  validation of candidates against the removals accepted so far, followed by the
  combined proof of the whole set. The clock is the parameter \<open>now\<close>.
\<close>

subsection \<open>Common root and relative names\<close>

fun components_loop :: "string \<Rightarrow> string list \<Rightarrow> string \<Rightarrow> string list" where
  "components_loop cur out [] = (if cur \<noteq> [] then out @ [cur] else out)"
| "components_loop cur out (c # cs) =
     (if c = slash then components_loop [] (if cur \<noteq> [] then out @ [cur] else out) cs
      else components_loop (cur @ [c]) out cs)"

definition path_components :: "string \<Rightarrow> string list" where
  "path_components path = components_loop [] [] path"

fun common_root_loop :: "string list \<Rightarrow> string list \<Rightarrow> string list option" where
  "common_root_loop root [] = Some root"
| "common_root_loop root (p # ps) =
     (let root' = take (common_length root (path_components (dirname p))) root
      in if root' = [] then None else common_root_loop root' ps)"

definition common_root :: "string list \<Rightarrow> string" where
  "common_root paths =
     (if paths = [] then ''/''
      else case common_root_loop (path_components (dirname (hd paths))) paths of
             None \<Rightarrow> ''/''
           | Some root \<Rightarrow> concat (map ((#) slash) root))"

definition relative_to :: "string \<Rightarrow> string \<Rightarrow> string" where
  "relative_to root abs_path =
     (if root \<noteq> ''/'' \<and> starts_with abs_path (root @ ''/'') then drop (length root + 1) abs_path
      else if root = ''/'' \<and> starts_with abs_path ''/'' then drop 1 abs_path
      else abs_path)"

definition searched_kinds :: "string list" where
  "searched_kinds =
     [''calls'', ''inherits'', ''contains'', ''specializes'', ''instantiates'', ''overrides'', ''uses'',
      ''field_of'', ''method_of'', ''construct-value'', ''construct-temp'', ''construct-heap'',
      ''construct-copy'', ''construct-move'', ''factory-construct'', ''destroy'', ''friend'',
      ''dispatch_calls'', ''alias_of'', ''returns'', ''of_type'', ''underlying_type'',
      ''parameter_type'', ''template_argument_type'']"

subsection \<open>Planning one candidate\<close>

definition base_item :: "string \<Rightarrow> IncludeCandidate \<Rightarrow> PlanItem" where
  "base_item root c =
     \<lparr>pi_id = ca_id c, pi_file = relative_to root (ca_src_path c), pi_abs_path = ca_src_path c,
      pi_line = ca_line c, pi_col = ca_col c, pi_begin_offset = ca_begin_offset c,
      pi_end_offset = ca_end_offset c, pi_directive_text = ca_directive_text c,
      pi_resolved_target = ca_dst_path c, pi_classification = classification_name (ca_cls c),
      pi_state = ManualReview, pi_reason = [], pi_owners = ca_owners c,
      pi_header_symbols = ca_header_symbols c, pi_intersection_count = ca_intersection_count c,
      pi_reference_kinds_searched = searched_kinds, pi_macro_uses = ca_macro_uses c,
      pi_guarded = ca_guarded c, pi_reverse_dependants = ca_reverse_dependants c,
      pi_affected_tus = [], pi_configs = ca_configs c, pi_validations = []\<rparr>"

definition first_failure :: "ValidationRecord list \<Rightarrow> string" where
  "first_failure records =
     (case find (\<lambda>v. \<not> vr_ok v) records of
        None \<Rightarrow> []
      | Some v \<Rightarrow> ''removal breaks '' @ vr_tu_path v @ '': '' @ vr_diagnostic v)"

definition candidate_removal :: "IncludeCandidate \<Rightarrow> Removal" where
  "candidate_removal c =
     \<lparr>rm_abs_path = ca_src_path c, rm_begin_offset = ca_begin_offset c, rm_end_offset = ca_end_offset c\<rparr>"

definition plan_candidate ::
  "compiler \<Rightarrow> disk \<Rightarrow> hygiene_db \<Rightarrow> string \<Rightarrow> PlanItem list \<times> Removal list \<times> string list
   \<Rightarrow> IncludeCandidate \<Rightarrow> PlanItem list \<times> Removal list \<times> string list" where
  "plan_candidate compile disk db root st c =
     (let (items, accepted, digests) = st;
          it = base_item root c;
          digests' = digests @ ca_configs c
      in if ca_cls c = Used then st
         else if ca_cls c = Class_ManualReview then
           (items @ [it\<lparr>pi_state := ManualReview,
              pi_reason := (if ca_caveats c = [] then ''no automatic proof is available'' else hd (ca_caveats c))\<rparr>],
            accepted, digests')
         else case affected_tus db (ca_src_path c) of
                None \<Rightarrow>
                  (items @ [it\<lparr>pi_state := ManualReview,
                     pi_reason := ''no recorded compile command reaches this file, so removal cannot be validated''\<rparr>],
                   accepted, digests')
              | Some targets \<Rightarrow>
                  let trial = accepted @ [candidate_removal c];
                      records = validate compile disk targets (overlay_for disk trial) ''candidate'';
                      it1 = it\<lparr>pi_affected_tus := sort_unique (map tt_tu_path targets), pi_validations := records\<rparr>
                  in if all_ok records then (items @ [it1\<lparr>pi_state := Accepted\<rparr>], trial, digests')
                     else (items @ [it1\<lparr>pi_state := Rejected, pi_reason := first_failure records\<rparr>],
                           accepted, digests'))"

text \<open>The units of the combined proof, each path and digest once, in order of first appearance.\<close>

fun unseen_targets :: "(string \<times> string) list \<Rightarrow> TuTarget list \<Rightarrow> TuTarget list" where
  "unseen_targets seen [] = []"
| "unseen_targets seen (t # ts) =
     (if (tt_tu_path t, tt_config_digest t) \<in> set seen then unseen_targets seen ts
      else t # unseen_targets ((tt_tu_path t, tt_config_digest t) # seen) ts)"

definition combined_targets :: "hygiene_db \<Rightarrow> Removal list \<Rightarrow> TuTarget list" where
  "combined_targets db accepted =
     unseen_targets [] (concat (map (\<lambda>r. case affected_tus db (rm_abs_path r) of
        None \<Rightarrow> [] | Some ts \<Rightarrow> ts) accepted))"

definition demote :: "PlanItem \<Rightarrow> PlanItem" where
  "demote it =
     (if pi_state it = Accepted
      then it\<lparr>pi_state := Rejected, pi_reason := ''the combined removal set does not compile together''\<rparr>
      else it)"

definition plan_limitations :: "string list" where
  "plan_limitations =
     [''Compile success is not proof of behavioral equivalence: a header removed for a static registration, a configuration-changing macro, or a pragma can still compile and change the program.'',
      ''Only configurations recorded in the index were validated. A build configuration cidx has never indexed is not covered.'',
      ''A zero-reference result is only as complete as the indexed files and the semantic edge kinds listed in reference_kinds_searched.'',
      ''Items marked manual_review are real findings with no automatic proof; they are never applied.'']"

definition file_hashes_of :: "(string \<Rightarrow> string option) \<Rightarrow> string \<Rightarrow> string list \<Rightarrow> (string \<times> string) list" where
  "file_hashes_of hashes root files =
     foldl (\<lambda>m f. case hashes f of None \<Rightarrow> m | Some h \<Rightarrow> omap_insert (relative_to root f) h m) [] files"

definition build_plan ::
  "services \<Rightarrow> disk \<Rightarrow> hygiene_db \<Rightarrow> string \<Rightarrow> IncludeCandidate list \<Rightarrow> string \<Rightarrow> CleanupPlan" where
  "build_plan sv disk db now candidates db_path =
     (let files = sort_unique (map ca_src_path candidates);
          root = common_root files;
          (items, accepted, digests) =
            foldl (plan_candidate (sv_compile sv) disk db root) ([], [], []) candidates;
          combined = (if accepted = [] then []
                      else validate (sv_compile sv) disk (combined_targets db accepted)
                             (overlay_for disk accepted) ''combined'');
          items' = (if all_ok combined then items else map demote items)
      in \<lparr>cp_format_version = kPlanFormatVersion, cp_repo_root = root, cp_db_path = db_path,
          cp_schema_version = kSchemaVersion, cp_resolved_at = now,
          cp_config_digests = sort_unique digests,
          cp_file_hashes = file_hashes_of (hash_file sv disk) root files,
          cp_items = sort_key (\<lambda>it. (pi_file it, pi_begin_offset it, pi_configs it)) items',
          cp_validations = combined, cp_limitations = plan_limitations\<rparr>)"

subsection \<open>Relative names join back to the files\<close>

definition canonical :: "string \<Rightarrow> bool" where
  "canonical f \<longleftrightarrow> normpath f = f \<and> initial_slashes f = 1 \<and> f \<noteq> ''/''"

lemma components_loop_split:
  "slash \<notin> set cur \<Longrightarrow> components_loop cur out p = out @ filter (\<lambda>c. c \<noteq> []) (split_components (cur @ p))"
proof (induction cur out p rule: components_loop.induct)
  case (2 cur out c cs)
  then show ?case
    by (cases "c = slash") (auto simp: split_components_append_slash split_components_no_slash)
qed (simp add: split_components_no_slash)

lemma path_components_split: "path_components p = filter (\<lambda>c. c \<noteq> []) (split_components p)"
  by (simp add: path_components_def components_loop_split)

lemma join_comps_append:
  "xs \<noteq> [] \<Longrightarrow> ys \<noteq> [] \<Longrightarrow> join_comps (xs @ ys) = join_comps xs @ slash # join_comps ys"
proof (induction xs rule: join_comps.induct)
  case (2 x)
  then show ?case by (cases ys) simp_all
qed simp_all

lemma canonicalE:
  assumes "canonical f"
  obtains cs where "f = render 1 cs" "norm_comps 1 cs" "cs \<noteq> []"
proof -
  have "abspath [] f = f" using assms by (simp add: abspath_def canonical_def isabs_iff_slashes)
  then obtain cs where "f = render 1 cs" "norm_comps 1 cs"
    using abspath_comps [of "[]" f] assms by (metis canonical_def)
  moreover from this have "cs \<noteq> []" using assms by (auto simp: canonical_def render_def)
  ultimately show ?thesis by (rule that)
qed

lemma dirname_render:
  assumes "norm_comps 1 (cs @ [c])"
  shows "dirname (render 1 (cs @ [c])) = render 1 cs"
proof -
  have c: "slash \<notin> set c" "c \<noteq> []" using norm_comps_part [OF assms, of c] by auto
  define head where "head = (if cs = [] then ''/'' else slash # join_comps cs @ ''/'')"
  have p: "render 1 (cs @ [c]) = head @ c"
    by (cases "cs = []") (simp_all add: head_def render_def join_comps_append)
  have tail: "rev (takeWhile (\<lambda>x. x \<noteq> slash) (rev (head @ c))) = c"
  proof -
    have "takeWhile (\<lambda>x. x \<noteq> slash) (rev c @ slash # r) = rev c" for r
      using c(1) by (subst takeWhile_append2) auto
    then have "takeWhile (\<lambda>x. x \<noteq> slash) (rev (head @ c)) = rev c"
      by (simp add: head_def)
    then show ?thesis by simp
  qed
  have "fst (split (head @ c)) = (if \<exists>x \<in> set head. x \<noteq> slash then strip_trailing_slashes head else head)"
    unfolding split_def tail by (simp add: head_def Let_def)
  also have "\<dots> = render 1 cs"
  proof (cases "cs = []")
    case True
    then show ?thesis by (simp add: head_def render_def)
  next
    case False
    have "\<forall>x \<in> set cs. x \<noteq> [] \<and> slash \<notin> set x" using norm_comps_part [OF assms] by auto
    from last_join_comps [OF this False] obtain d r where r: "join_comps cs = r @ [d]" "d \<noteq> slash"
      by (metis append_butlast_last_id)
    with False have "strip_trailing_slashes head = slash # join_comps cs"
      by (simp add: strip_trailing_slashes_def head_def)
    moreover have "\<exists>x \<in> set head. x \<noteq> slash" using r False by (auto simp: head_def)
    ultimately show ?thesis by (simp add: render_def)
  qed
  finally show ?thesis by (simp only: p dirname_def)
qed

lemma norm_comps_prefix: "norm_comps 1 (cs @ ds) \<Longrightarrow> norm_comps 1 cs"
  using norm_comps_no_up [of 1 "cs @ ds"] by (auto simp: norm_comps_def intro!: exI [of _ 0])

lemma directory_components:
  assumes "norm_comps 1 cs" "cs \<noteq> []"
  shows "path_components (dirname (render 1 cs)) = butlast cs"
proof -
  have "norm_comps 1 (butlast cs @ [last cs])" using assms by simp
  from dirname_render [OF this] norm_comps_prefix [OF this] filter_split_render [of 1 "butlast cs"]
  show ?thesis using assms(2) by (simp add: path_components_split)
qed

lemma take_split: "take n xs = r @ t \<Longrightarrow> xs = r @ t @ drop n xs"
  by (metis append.assoc append_take_drop_id)

lemma common_root_loop_prefix:
  "common_root_loop root ps = Some r \<Longrightarrow> (\<exists>t. root = r @ t)
    \<and> list_all (\<lambda>p. \<exists>t. path_components (dirname p) = r @ t) ps \<and> (ps \<noteq> [] \<longrightarrow> r \<noteq> [])"
proof (induction root ps rule: common_root_loop.induct)
  case (2 root p ps)
  let ?root = "take (common_length root (path_components (dirname p))) root"
  have ne: "?root \<noteq> []" and rec: "common_root_loop ?root ps = Some r"
    using "2.prems" by (auto simp: Let_def split: if_splits)
  from "2.IH" [OF refl ne rec] obtain t where t: "?root = r @ t"
    "list_all (\<lambda>p. \<exists>t. path_components (dirname p) = r @ t) ps" "ps \<noteq> [] \<longrightarrow> r \<noteq> []" by blast
  have "root = r @ t @ drop (common_length root (path_components (dirname p))) root"
    using t(1) by (rule take_split)
  then have "\<exists>u. root = r @ u" by blast
  moreover have "path_components (dirname p)
      = r @ t @ drop (common_length root (path_components (dirname p))) (path_components (dirname p))"
    using t(1) take_split [of _ "path_components (dirname p)" r t] common_length_take [of root] by metis
  then have "\<exists>u. path_components (dirname p) = r @ u" by blast
  moreover have "r \<noteq> []" using t rec ne by (cases ps) auto
  ultimately show ?case using t(2) by simp
qed simp

lemma relative_joins_back:
  assumes "list_all canonical files" "f \<in> set files"
  shows "Path_Util.join (common_root files) [relative_to (common_root files) f] = f
    \<and> within_repo (relative_to (common_root files) f)"
proof -
  have "canonical f" using assms by (simp add: list_all_iff)
  then obtain cs where cs: "f = render 1 cs" "norm_comps 1 cs" "cs \<noteq> []" by (rule canonicalE)
  have part: "x \<noteq> [] \<and> slash \<notin> set x \<and> x \<noteq> ''..''" if "x \<in> set cs" for x
    using norm_comps_part [OF cs(2) that] norm_comps_no_up [OF cs(2)] that by auto
  have name: "within_repo (join_comps t)" "join_comps t \<noteq> []" "join_comps t ! 0 \<noteq> slash"
    if t: "set t \<subseteq> set cs" "t \<noteq> []" for t
  proof -
    obtain c t' where ct: "t = c # t'" using t(2) by (cases t) auto
    have "join_comps t \<noteq> [] \<and> join_comps t ! 0 = c ! 0" using part [of c] t ct join_comps_first by auto
    moreover have "c ! 0 \<noteq> slash" using part [of c] t ct by (metis length_greater_0_conv list.set_intros(1) nth_mem subsetD)
    moreover have "split_components (join_comps t) = t" using part t by (intro split_join_comps) auto
    ultimately show "within_repo (join_comps t)" "join_comps t \<noteq> []" "join_comps t ! 0 \<noteq> slash"
      using part t by (auto simp: within_repo_def no_dotdot_split)
  qed
  show ?thesis
  proof (cases "common_root_loop (path_components (dirname (hd files))) files")
    case None
    then have "common_root files = ''/''" by (auto simp: common_root_def)
    then show ?thesis using cs name [of cs]
      by (simp add: relative_to_def starts_with_def render_def Path_Util.join_def join_one_def)
  next
    case (Some r)
    have "files \<noteq> []" using assms(2) by auto
    then have root: "common_root files = concat (map ((#) slash) r)" "r \<noteq> []"
      using Some common_root_loop_prefix [OF Some] by (auto simp: common_root_def)
    then obtain c r' where "r = c # r'" by (cases r) auto
    with root(1) have root': "common_root files = slash # join_comps r" by (simp add: join_comps_concat del: join_comps.simps)
    have "path_components (dirname f) = butlast cs" using directory_components cs by simp
    moreover have "\<forall>p \<in> set files. \<exists>t. path_components (dirname p) = r @ t"
      using common_root_loop_prefix [OF Some] by (simp add: list_all_iff)
    ultimately obtain t where "butlast cs = r @ t" using assms(2) by metis
    then have t: "cs = r @ (t @ [last cs])" using cs(3) append_butlast_last_id [of cs] by simp
    then have f: "f = (slash # join_comps r) @ slash # join_comps (t @ [last cs])"
      using cs(1) join_comps_append [OF root(2), of "t @ [last cs]"] by (simp add: render_def)
    have tl: "set (t @ [last cs]) \<subseteq> set cs" "t @ [last cs] \<noteq> []" by (subst (2) t, auto)
    have "join_comps r \<noteq> []" "last (join_comps r) \<noteq> slash"
      using last_join_comps [of r] root(2) part t by (metis (no_types, lifting) Un_iff set_append)+
    then show ?thesis using f root' name [OF tl]
      by (simp add: relative_to_def starts_with_def Path_Util.join_def join_one_def)
  qed
qed

lemma set_omap_insert: "set (omap_insert k v m) \<subseteq> insert (k, v) (set m)"
  by (induction k v m rule: omap_insert.induct) auto

lemma file_hashes_of_mem:
  assumes "(k, h) \<in> set (file_hashes_of hashes root files)"
  shows "\<exists>f \<in> set files. k = relative_to root f \<and> hashes f = Some h"
proof -
  let ?step = "\<lambda>m f. case hashes f of None \<Rightarrow> m | Some h \<Rightarrow> omap_insert (relative_to root f) h m"
  have "(k, h) \<in> set (foldl ?step m files) \<Longrightarrow>
      (k, h) \<in> set m \<or> (\<exists>f \<in> set files. k = relative_to root f \<and> hashes f = Some h)" for m
  proof (induction files arbitrary: m)
    case (Cons f files)
    show ?case
    proof (cases "hashes f")
      case (Some x)
      with Cons.IH [of "?step m f"] Cons.prems set_omap_insert [of "relative_to root f" x m] show ?thesis by auto
    qed (use Cons in auto)
  qed simp
  from this [of "[]"] assms show ?thesis by (simp add: file_hashes_of_def)
qed

lemma build_plan_fields:
  "cp_repo_root (build_plan sv disk db now cands path) = common_root (sort_unique (map ca_src_path cands))"
  "cp_schema_version (build_plan sv disk db now cands path) = kSchemaVersion"
  "cp_file_hashes (build_plan sv disk db now cands path)
     = file_hashes_of (hash_file sv disk) (common_root (sort_unique (map ca_src_path cands)))
         (sort_unique (map ca_src_path cands))"
  by (simp_all add: build_plan_def Let_def split_beta)

subsection \<open>Properties of the planner\<close>

text \<open>A plan just built from normalised absolute source paths is fresh for the files it was built from:
  the executor's staleness gate finds no reason against it, because every recorded name joins back to
  the file whose hash was taken.\<close>

theorem built_plan_is_fresh:
  assumes "list_all (\<lambda>c. canonical (ca_src_path c)) candidates"
  shows "staleness_reasons (hash_file sv disk) (build_plan sv disk db now candidates path) kSchemaVersion = []"
proof -
  let ?files = "sort_unique (map ca_src_path candidates)"
  have canon: "list_all canonical ?files" using assms by (auto simp: list_all_iff)
  have "hash_file sv disk (Path_Util.join (common_root ?files) [k]) = Some h"
    if "(k, h) \<in> set (file_hashes_of (hash_file sv disk) (common_root ?files) ?files)" for k h
    using file_hashes_of_mem [OF that] relative_joins_back [OF canon] by auto
  then show ?thesis by (auto simp: staleness_reasons_def build_plan_fields hash_reason_Nil)
qed

text \<open>Two sources in sibling directories.\<close>

theorem built_plan_is_fresh_witness:
  "staleness_reasons (hash_file two_services (w_disk two_world))
     (build_plan two_services (w_disk two_world) two_db ''now''
        [(two_candidate ''1'')\<lparr>ca_src_path := ''/r/a.c''\<rparr>, (two_candidate ''2'')\<lparr>ca_src_path := ''/r/x/b.c''\<rparr>] ''db'')
     kSchemaVersion = []"
proof (rule built_plan_is_fresh)
  have "canonical ''/r/a.c''" "canonical ''/r/x/b.c''" unfolding canonical_def by code_simp+
  then show "list_all (\<lambda>c. canonical (ca_src_path c))
      [(two_candidate ''1'')\<lparr>ca_src_path := ''/r/a.c''\<rparr>, (two_candidate ''2'')\<lparr>ca_src_path := ''/r/x/b.c''\<rparr>]" by simp
qed

text \<open>The removals of the candidates whose items are accepted, in the order of the candidates.\<close>

definition accepted_removals :: "IncludeCandidate list \<Rightarrow> PlanItem list \<Rightarrow> Removal list" where
  "accepted_removals cs its = map (candidate_removal \<circ> fst) (filter (\<lambda>p. pi_state (snd p) = Accepted) (zip cs its))"

definition item_for :: "IncludeCandidate \<Rightarrow> PlanItem \<Rightarrow> bool" where
  "item_for c it \<longleftrightarrow> pi_id it = ca_id c \<and> pi_abs_path it = ca_src_path c
     \<and> pi_begin_offset it = ca_begin_offset c \<and> pi_end_offset it = ca_end_offset c"

text \<open>The decision on a candidate when the removals \<open>earlier\<close> have been accepted before it.\<close>

definition decided_after :: "compiler \<Rightarrow> disk \<Rightarrow> hygiene_db \<Rightarrow> Removal list \<Rightarrow> IncludeCandidate \<Rightarrow> PlanItem \<Rightarrow> bool" where
  "decided_after compile disk db earlier c it \<longleftrightarrow>
     (if (ca_cls c = UnusedByReference \<or> ca_cls c = Duplicate) \<and> affected_tus db (ca_src_path c) \<noteq> None
      then pi_validations it = validate compile disk (the (affected_tus db (ca_src_path c)))
             (overlay_for disk (earlier @ [candidate_removal c])) ''candidate''
           \<and> (pi_state it = Accepted \<longleftrightarrow> all_ok (pi_validations it))
      else pi_state it \<noteq> Accepted)"

lemma accepted_removals_snoc:
  "length cs = length its \<Longrightarrow> accepted_removals (cs @ [c]) (its @ [it])
     = accepted_removals cs its @ (if pi_state it = Accepted then [candidate_removal c] else [])"
  by (simp add: accepted_removals_def)

lemma accepted_removals_nonempty:
  "(c, it) \<in> set (zip cs its) \<Longrightarrow> pi_state it = Accepted \<Longrightarrow> accepted_removals cs its \<noteq> []"
  by (force simp: accepted_removals_def filter_empty_conv)

lemma plan_candidate_used: "ca_cls c = Used \<Longrightarrow> plan_candidate compile disk db root st c = st"
  by (simp add: plan_candidate_def split: prod.split)

lemma plan_candidate_decides:
  assumes "ca_cls c \<noteq> Used"
  shows "\<exists>it ds'. plan_candidate compile disk db root (items, acc, ds) c
      = (items @ [it], acc @ (if pi_state it = Accepted then [candidate_removal c] else []), ds')
    \<and> item_for c it \<and> decided_after compile disk db acc c it"
proof (cases "ca_cls c = Class_ManualReview \<or> affected_tus db (ca_src_path c) = None")
  case True
  let ?it = "\<lambda>why. (base_item root c)\<lparr>pi_state := ManualReview, pi_reason := why\<rparr>"
  have "\<exists>why. plan_candidate compile disk db root (items, acc, ds) c = (items @ [?it why], acc, ds @ ca_configs c)"
  proof (cases "ca_cls c = Class_ManualReview")
    case m: True
    then show ?thesis using assms
      by (intro exI) (simp only: plan_candidate_def prod.case Let_def if_True if_False HOL.simp_thms)
  next
    case m: False
    then have "affected_tus db (ca_src_path c) = None" using True by simp
    then show ?thesis using assms m
      by (intro exI) (simp only: plan_candidate_def prod.case Let_def if_True if_False option.case HOL.simp_thms)
  qed
  then obtain why where run: "plan_candidate compile disk db root (items, acc, ds) c = (items @ [?it why], acc, ds @ ca_configs c)" ..
  have st: "pi_state (?it why) \<noteq> Accepted" by simp
  have "item_for c (?it why)" by (simp add: item_for_def base_item_def)
  moreover have "decided_after compile disk db acc c (?it why)" using True st unfolding decided_after_def by fastforce
  ultimately show ?thesis using run st by (intro exI [of _ "?it why"] exI [of _ "ds @ ca_configs c"]) simp
next
  case False
  then obtain ts where ts: "affected_tus db (ca_src_path c) = Some ts" by auto
  have cls: "ca_cls c = UnusedByReference \<or> ca_cls c = Duplicate" using assms False by (cases "ca_cls c") auto
  let ?rs = "validate compile disk ts (overlay_for disk (acc @ [candidate_removal c])) ''candidate''"
  show ?thesis
    using assms False ts cls
    by (cases "all_ok ?rs") (simp_all add: plan_candidate_def Let_def item_for_def decided_after_def base_item_def)
qed

abbreviation planned :: "IncludeCandidate list \<Rightarrow> IncludeCandidate list" where
  "planned cs \<equiv> filter (\<lambda>c. ca_cls c \<noteq> Used) cs"

lemma plan_candidates_decided:
  assumes "foldl (plan_candidate compile disk db root) ([], [], []) cs = (items, acc, ds)"
  shows "list_all2 item_for (planned cs) items \<and> acc = accepted_removals (planned cs) items
    \<and> (\<forall>k<length items. decided_after compile disk db
          (accepted_removals (take k (planned cs)) (take k items)) (planned cs ! k) (items ! k))"
  using assms
proof (induction cs arbitrary: items acc ds rule: rev_induct)
  case Nil
  then show ?case by (simp add: accepted_removals_def)
next
  case (snoc c cs)
  obtain its ac dg where f: "foldl (plan_candidate compile disk db root) ([], [], []) cs = (its, ac, dg)" by (metis prod_cases3)
  note ih = snoc.IH [OF f]
  have len: "length (planned cs) = length its" using ih list_all2_lengthD by blast
  show ?case
  proof (cases "ca_cls c = Used")
    case True
    then have "its = items" "ac = acc" using snoc.prems f by (simp_all add: plan_candidate_used)
    with ih True show ?thesis by simp
  next
    case False
    obtain it where it: "items = its @ [it]" "acc = ac @ (if pi_state it = Accepted then [candidate_removal c] else [])"
        "item_for c it" "decided_after compile disk db ac c it"
      using plan_candidate_decides [OF False, of compile disk db root its ac dg] snoc.prems f by auto
    have "decided_after compile disk db (accepted_removals (take k (planned cs)) (take k its)) ((planned cs @ [c]) ! k) (items ! k)"
      if "k < length items" for k
    proof (cases "k < length its")
      case True
      then show ?thesis using ih it(1) len by (simp add: nth_append)
    next
      case k: False
      then have "k = length its" using that it(1) by simp
      then show ?thesis using ih it(1,4) len by (simp add: nth_append)
    qed
    then show ?thesis using False ih it(1,2,3) len
      by (auto simp: list_all2_appendI accepted_removals_snoc nth_append)
  qed
qed

text \<open>(C7) Each removal is proven against the world it will live in. When a plan accepts anything, its items are decisions on
  the candidates, one for each that is not used, in their order: an unused or duplicate include with recorded
  compile commands is compiled in every affected unit with exactly the removals accepted before it gone as well, and
  is accepted if and only if all of them compile; nothing else is accepted. All accepted removals together compiled too.\<close>

theorem accepted_items_proven:
  assumes "it \<in> set (cp_items (build_plan sv disk db now candidates path))" "pi_state it = Accepted"
  shows "\<exists>items. mset items = mset (cp_items (build_plan sv disk db now candidates path))
    \<and> list_all2 item_for (planned candidates) items
    \<and> (\<forall>k<length items. decided_after (sv_compile sv) disk db
          (accepted_removals (take k (planned candidates)) (take k items)) (planned candidates ! k) (items ! k))
    \<and> cp_validations (build_plan sv disk db now candidates path)
        = validate (sv_compile sv) disk (combined_targets db (accepted_removals (planned candidates) items))
            (overlay_for disk (accepted_removals (planned candidates) items)) ''combined''
    \<and> all_ok (cp_validations (build_plan sv disk db now candidates path))"
proof -
  let ?root = "common_root (sort_unique (map ca_src_path candidates))"
  obtain items acc ds where f: "foldl (plan_candidate (sv_compile sv) disk db ?root) ([], [], []) candidates = (items, acc, ds)"
    by (metis prod_cases3)
  let ?comb = "if acc = [] then [] else validate (sv_compile sv) disk (combined_targets db acc) (overlay_for disk acc) ''combined''"
  have v: "cp_validations (build_plan sv disk db now candidates path) = ?comb"
    "mset (cp_items (build_plan sv disk db now candidates path)) = mset (if all_ok ?comb then items else map demote items)"
    by (simp_all add: build_plan_def Let_def f)
  have ok: "all_ok ?comb"
  proof (rule ccontr)
    assume bad: "\<not> all_ok ?comb"
    have "set (cp_items (build_plan sv disk db now candidates path)) = set (map demote items)"
      using mset_eq_setD [OF v(2)] bad by (simp only: if_False)
    with assms(1) obtain x where "it = demote x" by auto
    with assms(2) show False by (simp add: demote_def split: if_splits)
  qed
  note d = plan_candidates_decided [OF f]
  have acc: "acc = accepted_removals (planned candidates) items" using d by blast
  have m: "mset (cp_items (build_plan sv disk db now candidates path)) = mset items" using v(2) ok by (simp only: if_True)
  have "it \<in> set items" using mset_eq_setD [OF m] assms(1) by simp
  then obtain k where k: "k < length items" "items ! k = it" by (auto simp: in_set_conv_nth)
  then have "(planned candidates ! k, it) \<in> set (zip (planned candidates) items)"
    using d list_all2_lengthD [of item_for "planned candidates" items] by (auto simp: in_set_conv_nth)
  then have "accepted_removals (planned candidates) items \<noteq> []" using assms(2) by (rule accepted_removals_nonempty)
  then have "acc \<noteq> []" using acc by simp
  then have c: "cp_validations (build_plan sv disk db now candidates path)
      = validate (sv_compile sv) disk (combined_targets db (accepted_removals (planned candidates) items))
          (overlay_for disk (accepted_removals (planned candidates) items)) ''combined''"
    using v(1) acc by (simp only: if_False)
  have "all_ok (cp_validations (build_plan sv disk db now candidates path))" using ok v(1) by (simp only:)
  then show ?thesis using m [symmetric] c d by (intro exI [of _ items] conjI) (elim conjE, assumption)+
qed

text \<open>Two removals that compile alone and not together: the second is rejected.\<close>

definition rival_services :: services where
  "rival_services = two_services\<lparr>sv_compile := (\<lambda>t d. if d ''/r/a.c'' = Some ''x'' \<and> d ''/r/b.c'' = Some ''y'' then (1, ''both'') else (0, []))\<rparr>"

definition rival_candidates :: "IncludeCandidate list" where
  "rival_candidates = [(two_candidate ''1'')\<lparr>ca_src_path := ''/r/a.c''\<rparr>, (two_candidate ''2'')\<lparr>ca_src_path := ''/r/b.c''\<rparr>]"

definition rival_plan :: CleanupPlan where
  "rival_plan = build_plan rival_services (w_disk two_world) two_db ''now'' rival_candidates ''db''"

lemma rival_states: "map pi_state (cp_items rival_plan) = [Accepted, Rejected]"
  by code_simp

theorem accepted_items_proven_witness:
  "map pi_state (cp_items rival_plan) = [Accepted, Rejected] \<and> all_ok (cp_validations rival_plan)
    \<and> (\<exists>items. mset items = mset (cp_items rival_plan) \<and> list_all2 item_for rival_candidates items
         \<and> (\<forall>k<length items. decided_after (sv_compile rival_services) (w_disk two_world) two_db
               (accepted_removals (take k rival_candidates) (take k items)) (rival_candidates ! k) (items ! k)))"
proof -
  obtain it where "it \<in> set (cp_items rival_plan)" "pi_state it = Accepted"
    using rival_states by (cases "cp_items rival_plan") auto
  moreover have "planned rival_candidates = rival_candidates" by (simp add: rival_candidates_def two_candidate_def)
  ultimately show ?thesis
    using accepted_items_proven [of it rival_services "w_disk two_world" two_db "''now''" rival_candidates "''db''"] rival_states
    unfolding rival_plan_def [symmetric] by auto
qed

end
