(* ===== verification/Header_Claims.thy ===== *)
theory Header_Claims
  imports Prelude
begin

text \<open>
  The scheduler-owned assignment of headers to translation units
  (\<^verbatim>\<open>index/header_claims.hpp\<close>, \<^verbatim>\<open>header_claims.cpp\<close>). One oracle serves all
  workers of a run; each call holds its mutex, so a run is a sequence of calls, and
  a call that waits on the condition variable is one that is not enabled. The
  wall-clock fields of the metrics are left out.
\<close>

subsection \<open>The oracle's state and operations\<close>

record HeaderClaimCandidate =
  hc_path :: string
  hc_parsed_md5 :: "string option"
  hc_already_indexed_in_database :: bool

record Grant =
  gr_parsed_md5 :: "string option"
  gr_owner :: nat

record HeaderClaimMetrics =
  hm_candidates :: nat
  hm_granted :: nat
  hm_denied_already_indexed :: nat
  hm_denied_in_flight_owner :: nat
  hm_regranted_on_retry :: nat
  hm_revoked_after_publish_failure :: nat

type_synonym ClaimKey = "string \<times> string"

record claim_oracle =
  or_granted :: "(ClaimKey \<times> Grant) list"
  or_released :: "nat list"
  or_next_rank :: nat
  or_cancelled :: bool
  or_metrics :: HeaderClaimMetrics

definition new_oracle :: claim_oracle where
  "new_oracle = \<lparr>or_granted = [], or_released = [], or_next_rank = 0, or_cancelled = False,
     or_metrics = \<lparr>hm_candidates = 0, hm_granted = 0, hm_denied_already_indexed = 0,
       hm_denied_in_flight_owner = 0, hm_regranted_on_retry = 0, hm_revoked_after_publish_failure = 0\<rparr>\<rparr>"

text \<open>The loop of \<^verbatim>\<open>release\<close>: each round removes one element of the set of released ranks.\<close>

function advance :: "nat list \<Rightarrow> nat \<Rightarrow> nat list \<times> nat" where
  "advance released next_rank =
     (if next_rank \<in> set released then advance (removeAll next_rank released) (next_rank + 1)
      else (released, next_rank))"
  by pat_completeness auto
termination
  by (relation "measure (\<lambda>(released, _). length released)") (auto intro: length_removeAll_less)

declare advance.simps [simp del]

definition release :: "nat \<Rightarrow> claim_oracle \<Rightarrow> claim_oracle" where
  "release rank s =
     (let (released, next_rank) = advance (List.insert rank (or_released s)) (or_next_rank s)
      in s\<lparr>or_released := released, or_next_rank := next_rank\<rparr>)"

definition claim_one :: "nat \<Rightarrow> string \<Rightarrow> HeaderClaimCandidate
    \<Rightarrow> (ClaimKey \<times> Grant) list \<times> HeaderClaimMetrics \<Rightarrow> bool \<times> (ClaimKey \<times> Grant) list \<times> HeaderClaimMetrics" where
  "claim_one rank configuration candidate st =
     (let (granted, m0) = st;
          m = m0\<lparr>hm_candidates := hm_candidates m0 + 1\<rparr>;
          key = (hc_path candidate, configuration);
          grant = (True, omap_insert key \<lparr>gr_parsed_md5 = hc_parsed_md5 candidate, gr_owner = rank\<rparr> granted,
                   m\<lparr>hm_granted := hm_granted m + 1\<rparr>)
      in if hc_already_indexed_in_database candidate then
           (False, granted, m\<lparr>hm_denied_already_indexed := hm_denied_already_indexed m + 1\<rparr>)
         else case map_of granted key of
                None \<Rightarrow> grant
              | Some g \<Rightarrow>
                  if gr_parsed_md5 g = hc_parsed_md5 candidate then
                    (if gr_owner g = rank
                     then (True, granted, m\<lparr>hm_regranted_on_retry := hm_regranted_on_retry m + 1\<rparr>)
                     else (False, granted, m\<lparr>hm_denied_in_flight_owner := hm_denied_in_flight_owner m + 1\<rparr>))
                  else grant)"

fun claim_all :: "nat \<Rightarrow> string \<Rightarrow> HeaderClaimCandidate list
    \<Rightarrow> (ClaimKey \<times> Grant) list \<times> HeaderClaimMetrics \<Rightarrow> bool list \<times> (ClaimKey \<times> Grant) list \<times> HeaderClaimMetrics" where
  "claim_all rank configuration [] st = ([], st)"
| "claim_all rank configuration (c # cs) st =
     (let (owned, st1) = claim_one rank configuration c st;
          (rest, st2) = claim_all rank configuration cs st1
      in (owned # rest, st2))"

definition gate_open :: "nat \<Rightarrow> claim_oracle \<Rightarrow> bool" where
  "gate_open rank s \<longleftrightarrow> or_cancelled s \<or> or_next_rank s \<ge> rank"

text \<open>\<open>None\<close> is a call that still waits.\<close>

definition claim :: "nat \<Rightarrow> string \<Rightarrow> HeaderClaimCandidate list \<Rightarrow> claim_oracle \<Rightarrow> (bool list \<times> claim_oracle) option" where
  "claim rank configuration candidates s =
     (if \<not> gate_open rank s then None
      else if or_cancelled s then Some (replicate (length candidates) False, s)
      else let (owned, granted, m) = claim_all rank configuration candidates (or_granted s, or_metrics s)
           in Some (owned, release rank (s\<lparr>or_granted := granted, or_metrics := m\<rparr>)))"

definition release_unclaimed :: "nat \<Rightarrow> claim_oracle \<Rightarrow> claim_oracle" where
  "release_unclaimed rank s = (if or_cancelled s \<or> rank < or_next_rank s then s else release rank s)"

definition revoke_grants :: "nat \<Rightarrow> claim_oracle \<Rightarrow> claim_oracle" where
  "revoke_grants rank s =
     (let mine = filter (\<lambda>(k, g). gr_owner g = rank) (or_granted s)
      in s\<lparr>or_granted := filter (\<lambda>(k, g). gr_owner g \<noteq> rank) (or_granted s),
           or_metrics := (or_metrics s)\<lparr>hm_revoked_after_publish_failure :=
             hm_revoked_after_publish_failure (or_metrics s) + length mine\<rparr>\<rparr>)"

definition cancel :: "claim_oracle \<Rightarrow> claim_oracle" where
  "cancel s = s\<lparr>or_cancelled := True\<rparr>"

subsection \<open>The ordered gate\<close>

text \<open>
  What a client of an ordered gate relies on: releasing a rank lets the gate pass it and
  every released rank behind it, and never one that was not released.
\<close>

locale ordered_gate =
  fixes next_of :: "'s \<Rightarrow> nat" and released_of :: "'s \<Rightarrow> nat set" and rel :: "nat \<Rightarrow> 's \<Rightarrow> 's"
    and wf :: "'s \<Rightarrow> bool"
  assumes rel_passed: "wf s \<Longrightarrow> next_of s \<le> r \<Longrightarrow>
      released_of (rel r s) \<union> {..< next_of (rel r s)} = insert r (released_of s \<union> {..< next_of s})"
    and rel_wf: "wf s \<Longrightarrow> next_of s \<le> r \<Longrightarrow> wf (rel r s)"
    and wf_next: "wf s \<Longrightarrow> next_of s \<notin> released_of s"
begin

definition passed :: "'s \<Rightarrow> nat set" where
  "passed s = released_of s \<union> {..< next_of s}"

lemma next_least: "wf s \<Longrightarrow> next_of s = (LEAST r. r \<notin> passed s)"
  by (rule Least_equality [symmetric]) (auto simp: passed_def wf_next not_less [symmetric])

lemma below_next: "wf s \<Longrightarrow> r < next_of s \<Longrightarrow> r \<in> passed s"
  by (simp add: passed_def)

lemma next_not_passed: "wf s \<Longrightarrow> next_of s \<notin> passed s"
  by (simp add: passed_def wf_next)

lemma passed_rel: "wf s \<Longrightarrow> next_of s \<le> r \<Longrightarrow> passed (rel r s) = insert r (passed s)"
  by (simp add: passed_def rel_passed)

lemma rel_mono:
  assumes "wf s" "next_of s \<le> r"
  shows "next_of s \<le> next_of (rel r s)"
proof (rule ccontr)
  assume "\<not> next_of s \<le> next_of (rel r s)"
  then have "next_of (rel r s) \<in> passed (rel r s)" using passed_rel [OF assms] assms(1) by (auto simp: passed_def)
  with next_not_passed [OF rel_wf [OF assms]] show False by simp
qed

end

lemma advance_spec:
  "advance released n = (released', n') \<Longrightarrow>
   set released' \<union> {..< n'} = set released \<union> {..< n} \<and> n' \<notin> set released' \<and> n \<le> n'"
proof (induction released n arbitrary: released' n' rule: advance.induct)
  case (1 released n)
  show ?case
  proof (cases "n \<in> set released")
    case True
    with "1.prems" have "advance (removeAll n released) (n + 1) = (released', n')" by (simp add: advance.simps [of released])
    from "1.IH" [OF True this] True show ?thesis by (auto simp: lessThan_Suc)
  next
    case False
    with "1.prems" show ?thesis by (simp add: advance.simps [of released])
  qed
qed

definition gate_wf :: "claim_oracle \<Rightarrow> bool" where
  "gate_wf s \<longleftrightarrow> or_next_rank s \<notin> set (or_released s)"

interpretation gate: ordered_gate or_next_rank "\<lambda>s. set (or_released s)" release gate_wf
proof
  fix s :: claim_oracle and r
  obtain rl n where a: "advance (List.insert r (or_released s)) (or_next_rank s) = (rl, n)" by fastforce
  note adv = advance_spec [OF a]
  show "set (or_released (release r s)) \<union> {..< or_next_rank (release r s)}
      = insert r (set (or_released s) \<union> {..< or_next_rank s})"
    using adv by (simp add: release_def a)
  show "gate_wf (release r s)" using adv by (simp add: gate_wf_def release_def a)
  assume "gate_wf s"
  then show "or_next_rank s \<notin> set (or_released s)" by (simp add: gate_wf_def)
qed

subsection \<open>Concurrent runs\<close>

text \<open>
  Each translation unit either claims or is released, once; the order in which the
  calls reach the oracle is arbitrary, except that a claim waits for its gate. A run
  state is the oracle, the ranks that are through, and the answers given.
\<close>

datatype request = Claim string "HeaderClaimCandidate list" | Release

type_synonym run_state = "claim_oracle \<times> nat set \<times> (nat \<Rightarrow> bool list option)"

inductive run_step :: "(nat \<Rightarrow> request) \<Rightarrow> nat \<Rightarrow> run_state \<Rightarrow> run_state \<Rightarrow> bool" for req n where
  claims: "r < n \<Longrightarrow> r \<notin> through \<Longrightarrow> req r = Claim configuration candidates \<Longrightarrow>
     claim r configuration candidates s = Some (owned, s') \<Longrightarrow>
     run_step req n (s, through, ans) (s', insert r through, ans(r \<mapsto> owned))"
| releases: "r < n \<Longrightarrow> r \<notin> through \<Longrightarrow> req r = Release \<Longrightarrow>
     run_step req n (s, through, ans) (release_unclaimed r s, insert r through, ans)"

inductive reaches :: "(nat \<Rightarrow> request) \<Rightarrow> nat \<Rightarrow> run_state \<Rightarrow> bool" for req n where
  start: "reaches req n (new_oracle, {}, Map.empty)"
| step: "reaches req n st \<Longrightarrow> run_step req n st st' \<Longrightarrow> reaches req n st'"

text \<open>The serial indexer: the same requests, one after the other in rank order.\<close>

fun serial :: "(nat \<Rightarrow> request) \<Rightarrow> nat \<Rightarrow> (ClaimKey \<times> Grant) list \<times> HeaderClaimMetrics" where
  "serial req 0 = (or_granted new_oracle, or_metrics new_oracle)"
| "serial req (Suc k) =
     (case req k of
        Claim configuration candidates \<Rightarrow> snd (claim_all k configuration candidates (serial req k))
      | Release \<Rightarrow> serial req k)"

definition serial_answer :: "(nat \<Rightarrow> request) \<Rightarrow> nat \<Rightarrow> bool list option" where
  "serial_answer req r =
     (case req r of
        Claim configuration candidates \<Rightarrow> Some (fst (claim_all r configuration candidates (serial req r)))
      | Release \<Rightarrow> None)"

lemma serial_skip: "k \<le> m \<Longrightarrow> (\<And>r. k \<le> r \<Longrightarrow> r < m \<Longrightarrow> req r = Release) \<Longrightarrow> serial req m = serial req k"
  by (induction m rule: dec_induct) auto

definition run_inv :: "(nat \<Rightarrow> request) \<Rightarrow> nat \<Rightarrow> run_state \<Rightarrow> bool" where
  "run_inv req n st \<longleftrightarrow> (case st of (s, through, ans) \<Rightarrow>
     \<not> or_cancelled s \<and> gate_wf s \<and> gate.passed s = through \<and> through \<subseteq> {..<n}
     \<and> (or_granted s, or_metrics s) = serial req (or_next_rank s)
     \<and> (\<forall>r \<in> through. or_next_rank s \<le> r \<longrightarrow> req r = Release)
     \<and> (\<forall>r. ans r = (if r \<in> through then serial_answer req r else None)))"

lemma release_frame [simp]:
  "or_granted (release r s) = or_granted s" "or_metrics (release r s) = or_metrics s"
  "or_cancelled (release r s) = or_cancelled s"
  by (simp_all add: release_def split: prod.splits)

lemma release_next:
  assumes inv: "run_inv req n (s, through, ans)" and r: "r \<notin> through"
    and tail: "req r = Release \<or> r = or_next_rank s"
  shows "gate_wf (release r s) \<and> gate.passed (release r s) = insert r through
    \<and> (\<forall>q. or_next_rank s \<le> q \<and> q < or_next_rank (release r s) \<longrightarrow> q \<noteq> r \<longrightarrow> req q = Release)
    \<and> (\<forall>q \<in> insert r through. or_next_rank (release r s) \<le> q \<longrightarrow> req q = Release)
    \<and> or_next_rank s \<le> or_next_rank (release r s) \<and> (r = or_next_rank s \<longrightarrow> r < or_next_rank (release r s))"
proof -
  have wf: "gate_wf s" and passed: "gate.passed s = through"
    and rels: "\<And>q. q \<in> through \<Longrightarrow> or_next_rank s \<le> q \<Longrightarrow> req q = Release"
    using inv by (auto simp: run_inv_def)
  have le: "or_next_rank s \<le> r" using gate.below_next [OF wf] r passed by (meson not_le)
  note p = gate.passed_rel [OF wf le] and wf' = gate.rel_wf [OF wf le] and mono = gate.rel_mono [OF wf le]
  have "q \<in> insert r through" if "q < or_next_rank (release r s)" for q
    using gate.below_next [OF wf' that] p passed by simp
  then have "req q = Release" if "or_next_rank s \<le> q" "q < or_next_rank (release r s)" "q \<noteq> r" for q
    using that rels by blast
  moreover have "r < or_next_rank (release r s)" if "r = or_next_rank s"
    using that gate.next_not_passed [OF wf'] mono p by (metis insertI1 le_neq_implies_less)
  moreover have "req q = Release" if "q \<in> insert r through" "or_next_rank (release r s) \<le> q" for q
    using that calculation(2) rels tail mono by (metis insert_iff leD le_trans)
  ultimately show ?thesis using p wf' passed mono by auto
qed

lemma run_step_inv:
  assumes "run_step req n st st'" "run_inv req n st"
  shows "run_inv req n st'"
  using assms
proof (cases rule: run_step.cases)
  case (claims r through configuration candidates s owned s' ans)
  have inv: "run_inv req n (s, through, ans)" using assms(2) claims(1) by simp
  then have s: "\<not> or_cancelled s" "gate_wf s" "gate.passed s = through" "through \<subseteq> {..<n}"
    "(or_granted s, or_metrics s) = serial req (or_next_rank s)"
    "\<And>q. ans q = (if q \<in> through then serial_answer req q else None)"
    by (auto simp: run_inv_def)
  have "r \<le> or_next_rank s" using claims(6) s(1) by (auto simp: claim_def gate_open_def split: if_splits)
  moreover have "\<not> r < or_next_rank s" using gate.below_next [OF s(2)] claims(4) s(3) by blast
  ultimately have r: "r = or_next_rank s" by simp
  obtain g m where all: "claim_all r configuration candidates (or_granted s, or_metrics s) = (owned, g, m)"
    and s': "s' = release r (s\<lparr>or_granted := g, or_metrics := m\<rparr>)"
    using claims(6) s(1) by (auto simp: claim_def Let_def split: if_splits prod.splits)
  let ?t = "s\<lparr>or_granted := g, or_metrics := m\<rparr>"
  have same: "or_next_rank (release r ?t) = or_next_rank (release r s)" "or_released (release r ?t) = or_released (release r s)"
    by (simp_all add: release_def split: prod.splits)
  note rel = release_next [OF inv claims(4) disjI2 [OF r]]
  have serial_r: "serial req (Suc r) = (g, m)" and answer: "serial_answer req r = Some owned"
    using all s(5) r claims(5) by (simp_all add: serial_answer_def)
  have "serial req (or_next_rank s') = serial req (Suc r)"
    using rel r same(1) by (intro serial_skip) (auto simp: s' Suc_le_eq)
  moreover have "gate_wf s' = gate_wf (release r s)" "gate.passed s' = gate.passed (release r s)"
    by (simp_all add: s' gate_wf_def gate.passed_def same)
  ultimately show ?thesis
    using claims(2,3) rel s serial_r answer by (auto simp: run_inv_def s' same)
next
  case (releases r through s ans)
  have inv: "run_inv req n (s, through, ans)" using assms(2) releases(1) by simp
  then have s: "\<not> or_cancelled s" "gate_wf s" "gate.passed s = through" "through \<subseteq> {..<n}"
    "(or_granted s, or_metrics s) = serial req (or_next_rank s)"
    "\<And>q. ans q = (if q \<in> through then serial_answer req q else None)"
    by (auto simp: run_inv_def)
  have "\<not> r < or_next_rank s" using gate.below_next [OF s(2)] releases(4) s(3) by blast
  then have eq: "release_unclaimed r s = release r s" using s(1) by (simp add: release_unclaimed_def)
  note rel = release_next [OF inv releases(4) disjI1 [OF releases(5)]]
  have "serial req (or_next_rank (release r s)) = serial req (or_next_rank s)"
    using rel releases(5) by (intro serial_skip) auto
  moreover have "serial_answer req r = None" using releases(5) by (simp add: serial_answer_def)
  ultimately show ?thesis
    using releases(2,3) rel s by (auto simp: run_inv_def eq)
qed

lemma reaches_inv: "reaches req n st \<Longrightarrow> run_inv req n st"
proof (induction rule: reaches.induct)
  case start
  show ?case by (simp add: run_inv_def new_oracle_def gate_wf_def gate.passed_def)
qed (rule run_step_inv)

subsection \<open>Properties of the oracle\<close>

text \<open>(C3) The order in which workers reach the oracle does not matter: in every interleaving of the
  calls of a run, the answer a translation unit gets is the one it gets when the units ask one after
  the other in rank order.\<close>

theorem claims_are_serial:
  assumes "reaches req n (s, through, ans)" "r \<in> through"
  shows "ans r = serial_answer req r"
  using reaches_inv [OF assms(1)] assms(2) by (simp add: run_inv_def)

definition sample_requests :: "nat \<Rightarrow> request" where
  "sample_requests r = (if r = 1 then Release
     else Claim ''cfg'' [\<lparr>hc_path = ''h'', hc_parsed_md5 = Some ''m'', hc_already_indexed_in_database = False\<rparr>])"

text \<open>Rank 1 is released before rank 0 claims, and rank 0 owns the header.\<close>

lemma sample_reaches:
  "\<exists>s. reaches sample_requests 3 (s, {0, 1}, [0 \<mapsto> [True]])"
proof -
  let ?s1 = "release_unclaimed 1 new_oracle"
  let ?c = "\<lparr>hc_path = ''h'', hc_parsed_md5 = Some ''m'', hc_already_indexed_in_database = False\<rparr>"
  have 1: "run_step sample_requests 3 (new_oracle, {}, Map.empty) (?s1, insert 1 {}, Map.empty)"
    by (rule run_step.releases) (simp_all add: sample_requests_def)
  have "fst (the (claim 0 ''cfg'' [?c] ?s1)) = [True] \<and> claim 0 ''cfg'' [?c] ?s1 \<noteq> None"
    by code_simp
  then obtain s2 where "claim 0 ''cfg'' [?c] ?s1 = Some ([True], s2)" by auto
  then have 2: "run_step sample_requests 3 (?s1, {1}, Map.empty) (s2, insert 0 {1}, Map.empty(0 \<mapsto> [True]))"
    by (intro run_step.claims [where configuration = "''cfg''" and candidates = "[?c]"]) (simp_all add: sample_requests_def)
  from reaches.step [OF reaches.step [OF reaches.start 1] 2] show ?thesis by blast
qed

theorem claims_are_serial_witness:
  "serial_answer sample_requests 0 = Some [True]"
proof -
  obtain s where "reaches sample_requests 3 (s, {0, 1}, [0 \<mapsto> [True]])" using sample_reaches by blast
  from claims_are_serial [OF this, of 0] show ?thesis by simp
qed

text \<open>The ordered gate never stalls: as long as some rank of a run is not through, some call is
  enabled, whichever ranks failed, were released early or are still waiting.\<close>

theorem claims_never_stall:
  assumes "reaches req n (s, through, ans)" "through \<noteq> {..<n}"
  shows "\<exists>st'. run_step req n (s, through, ans) st'"
proof -
  have s: "\<not> or_cancelled s" "gate_wf s" "gate.passed s = through" "through \<subseteq> {..<n}"
    using reaches_inv [OF assms(1)] by (auto simp: run_inv_def)
  let ?r = "or_next_rank s"
  have new: "?r \<notin> through" using gate.next_not_passed [OF s(2)] s(3) by simp
  have "?r < n"
  proof (rule ccontr)
    assume "\<not> ?r < n"
    then have "{..<n} \<subseteq> through" using gate.below_next [OF s(2)] s(3) by (meson lessThan_iff not_less order_less_le_trans subsetI)
    with s(4) assms(2) show False by blast
  qed
  show ?thesis
  proof (cases "req ?r")
    case (Claim configuration candidates)
    have "\<exists>owned s'. claim ?r configuration candidates s = Some (owned, s')"
      using s(1) by (simp add: claim_def gate_open_def Let_def split: prod.splits)
    with \<open>?r < n\<close> new Claim show ?thesis by (blast intro: run_step.claims)
  next
    case Release
    with \<open>?r < n\<close> new show ?thesis by (blast intro: run_step.releases)
  qed
qed

text \<open>The started run of the three sample requests can go on.\<close>

theorem claims_never_stall_witness:
  "\<exists>st'. run_step sample_requests 3 (new_oracle, {}, Map.empty) st'"
proof -
  have "{} \<noteq> {..<(3::nat)}" by (simp add: lessThan_Suc numeral_3_eq_3)
  from claims_never_stall [OF reaches.start this] show ?thesis .
qed

lemma claim_one_keeps:
  assumes "map_of g k = Some x" "gr_parsed_md5 x = dig (fst k)" "hc_parsed_md5 c = dig (hc_path c)"
  shows "map_of (fst (snd (claim_one r cfg c (g, m)))) k = Some x"
  using assms by (cases k) (auto simp: claim_one_def Let_def split: option.splits)

lemma claim_all_keeps:
  assumes "map_of (fst st) k = Some x" "gr_parsed_md5 x = dig (fst k)" "list_all (\<lambda>c. hc_parsed_md5 c = dig (hc_path c)) cs"
  shows "map_of (fst (snd (claim_all r cfg cs st))) k = Some x"
  using assms
proof (induction cs arbitrary: st)
  case (Cons c cs)
  obtain g m where st: "st = (g, m)" by fastforce
  obtain o1 g1 m1 where one: "claim_one r cfg c (g, m) = (o1, g1, m1)" by (metis prod_cases3)
  have "map_of g1 k = Some x"
    using claim_one_keeps [of g k x dig c r cfg m] Cons.prems one by (simp add: st)
  with Cons.IH [of "(g1, m1)"] Cons.prems one st show ?case by (auto simp: split: prod.splits)
qed simp

lemma claim_one_owned:
  assumes "fst (claim_one r cfg c (g, m))" "hc_parsed_md5 c = dig (hc_path c)"
  shows "\<exists>x. map_of (fst (snd (claim_one r cfg c (g, m)))) (hc_path c, cfg) = Some x \<and> gr_owner x = r
    \<and> gr_parsed_md5 x = dig (hc_path c)"
  using assms by (auto simp: claim_one_def Let_def split: option.splits if_splits)

lemma claim_all_owned:
  assumes "i < length cs" "fst (claim_all r cfg cs st) ! i" "list_all (\<lambda>c. hc_parsed_md5 c = dig (hc_path c)) cs"
  shows "\<exists>x. map_of (fst (snd (claim_all r cfg cs st))) (hc_path (cs ! i), cfg) = Some x \<and> gr_owner x = r
    \<and> gr_parsed_md5 x = dig (hc_path (cs ! i))"
  using assms
proof (induction cs arbitrary: st i)
  case (Cons c cs)
  obtain g m where st: "st = (g, m)" by fastforce
  obtain o1 g1 m1 where one: "claim_one r cfg c (g, m) = (o1, g1, m1)" by (metis prod_cases3)
  obtain os g2 m2 where all: "claim_all r cfg cs (g1, m1) = (os, g2, m2)" by (metis prod_cases3)
  show ?case
  proof (cases i)
    case 0
    with Cons.prems st one all have "fst (claim_one r cfg c (g, m))" "hc_parsed_md5 c = dig (hc_path c)" by auto
    from claim_one_owned [of r cfg c g m dig, OF this] one obtain x where
      x: "map_of g1 (hc_path c, cfg) = Some x" "gr_owner x = r" "gr_parsed_md5 x = dig (hc_path c)" by auto
    with claim_all_keeps [of "(g1, m1)" "(hc_path c, cfg)" x dig cs r cfg] Cons.prems(3) all one st 0
    show ?thesis by simp
  next
    case (Suc j)
    with Cons.prems st one all Cons.IH [of j "(g1, m1)"] show ?thesis by simp
  qed
qed simp

lemma serial_keeps:
  assumes "k \<le> m" "map_of (fst (serial req k)) key = Some x" "gr_parsed_md5 x = dig (fst key)"
    "\<And>r cfg cs. req r = Claim cfg cs \<Longrightarrow> list_all (\<lambda>c. hc_parsed_md5 c = dig (hc_path c)) cs"
  shows "map_of (fst (serial req m)) key = Some x"
  using assms(1,2)
proof (induction m rule: dec_induct)
  case (step m)
  then have "map_of (fst (serial req m)) key = Some x" by simp
  with assms(3,4) claim_all_keeps [of "serial req m" key x dig] show ?case
    by (auto split: request.splits)
qed simp

lemma claim_one_denied:
  assumes "map_of g (hc_path c, cfg) = Some x" "gr_owner x \<noteq> r" "gr_parsed_md5 x = dig (hc_path c)"
    "hc_parsed_md5 c = dig (hc_path c)"
  shows "\<not> fst (claim_one r cfg c (g, m))"
  using assms by (simp add: claim_one_def Let_def)

lemma claim_all_denied:
  assumes "map_of (fst st) (hc_path (cs ! i), cfg) = Some x" "gr_owner x \<noteq> r" "gr_parsed_md5 x = dig (hc_path (cs ! i))"
    "list_all (\<lambda>c. hc_parsed_md5 c = dig (hc_path c)) cs" "i < length cs"
  shows "\<not> fst (claim_all r cfg cs st) ! i"
  using assms
proof (induction cs arbitrary: st i)
  case (Cons c cs)
  obtain g m where st: "st = (g, m)" by fastforce
  obtain o1 g1 m1 where one: "claim_one r cfg c (g, m) = (o1, g1, m1)" by (metis prod_cases3)
  obtain os g2 m2 where all: "claim_all r cfg cs (g1, m1) = (os, g2, m2)" by (metis prod_cases3)
  show ?case
  proof (cases i)
    case 0
    with Cons.prems st one all claim_one_denied [of g c cfg x r dig m] show ?thesis by simp
  next
    case (Suc j)
    have "map_of g1 (hc_path (cs ! j), cfg) = Some x"
      using claim_one_keeps [of g "(hc_path (cs ! j), cfg)" x dig c r cfg m] Cons.prems st one Suc by simp
    with Cons.IH [of "(g1, m1)" j] Cons.prems st one all Suc show ?thesis by simp
  qed
qed simp

text \<open>(C34) A header has one owner: when every translation unit parsed the same bytes of a header, at most
  one rank of a run is told to extract it under a given configuration, in every interleaving.\<close>

theorem header_owned_once:
  assumes "reaches req n (s, through, ans)"
    and "\<And>r cfg cs. req r = Claim cfg cs \<Longrightarrow> list_all (\<lambda>c. hc_parsed_md5 c = dig (hc_path c)) cs"
    and "req r1 = Claim cfg cs1" "ans r1 = Some o1" "i1 < length cs1" "o1 ! i1"
    and "req r2 = Claim cfg cs2" "ans r2 = Some o2" "i2 < length cs2" "o2 ! i2"
    and "hc_path (cs1 ! i1) = hc_path (cs2 ! i2)"
  shows "r1 = r2"
proof -
  have ans: "o1 = fst (claim_all r1 cfg cs1 (serial req r1))" "o2 = fst (claim_all r2 cfg cs2 (serial req r2))"
    using reaches_inv [OF assms(1)] assms(3,4,7,8) by (auto simp: run_inv_def serial_answer_def split: if_splits)
  have not_before: "\<not> a < b"
    if h: "req a = Claim cfg ca" "i < length ca" "fst (claim_all a cfg ca (serial req a)) ! i"
      "req b = Claim cfg cb" "j < length cb" "fst (claim_all b cfg cb (serial req b)) ! j"
      "hc_path (ca ! i) = hc_path (cb ! j)" for a b ca cb i j
  proof
    assume "a < b"
    obtain x where x: "map_of (fst (serial req (Suc a))) (hc_path (ca ! i), cfg) = Some x" "gr_owner x = a"
      "gr_parsed_md5 x = dig (hc_path (ca ! i))"
      using claim_all_owned [OF h(2,3) assms(2) [OF h(1)]] h(1) by auto
    have "map_of (fst (serial req b)) (hc_path (ca ! i), cfg) = Some x"
      using serial_keeps [OF _ x(1) _ assms(2)] \<open>a < b\<close> x(3) by simp
    with claim_all_denied [of "serial req b" cb j cfg x b dig] assms(2) [OF h(4)] h(5-7) x \<open>a < b\<close>
    show False by simp
  qed
  show ?thesis
    using not_before [OF assms(3,5) _ assms(7,9)] not_before [OF assms(7,9) _ assms(3,5)] assms(6,10,11) ans
    by (metis linorder_neqE_nat)
qed

text \<open>Rank 0 of the sample run owns the header, and no other rank does.\<close>

theorem header_owned_once_witness:
  "\<exists>s ans. reaches sample_requests 3 (s, {0, 1}, ans) \<and> (\<forall>r. ans r = Some [True] \<longrightarrow> r = 0)"
proof -
  obtain s where s: "reaches sample_requests 3 (s, {0, 1}, [0 \<mapsto> [True]])" using sample_reaches by blast
  let ?c = "\<lparr>hc_path = ''h'', hc_parsed_md5 = Some ''m'', hc_already_indexed_in_database = False\<rparr>"
  have "r = 0" if r: "[0 \<mapsto> [True]] r = Some [True]" for r :: nat
  proof (rule header_owned_once [OF s, of "\<lambda>_. Some ''m''" r "''cfg''" "[?c]" "[True]" 0 0 "[?c]" "[True]" 0])
    show "list_all (\<lambda>c. hc_parsed_md5 c = Some ''m'') cs" if "sample_requests q = Claim cfg cs" for q cfg cs
      using that by (auto simp: sample_requests_def split: if_splits)
  qed (use r in \<open>auto simp: sample_requests_def split: if_splits\<close>)
  with s show ?thesis by blast
qed

text \<open>Any sequence of calls, retries, revocations and cancellation included.\<close>

inductive called :: "claim_oracle \<Rightarrow> bool" where
  new: "called new_oracle"
| claimed: "called s \<Longrightarrow> claim r configuration candidates s = Some (owned, s') \<Longrightarrow> called s'"
| released: "called s \<Longrightarrow> called (release_unclaimed r s)"
| revoked: "called s \<Longrightarrow> called (revoke_grants r s)"
| cancelled: "called s \<Longrightarrow> called (cancel s)"

definition balanced :: "HeaderClaimMetrics \<Rightarrow> bool" where
  "balanced m \<longleftrightarrow> hm_candidates m = hm_granted m + hm_denied_already_indexed m
     + hm_denied_in_flight_owner m + hm_regranted_on_retry m"

lemma claim_one_inv:
  "claim_one r cfg c (g, m) = (o1, g1, m1) \<Longrightarrow> omap_sorted g \<Longrightarrow> balanced m \<Longrightarrow> omap_sorted g1 \<and> balanced m1"
  by (auto simp: claim_one_def Let_def balanced_def split: option.splits if_splits)

lemma claim_all_inv:
  "claim_all r cfg cs (g, m) = (os, g1, m1) \<Longrightarrow> omap_sorted g \<Longrightarrow> balanced m \<Longrightarrow>
   omap_sorted g1 \<and> balanced m1 \<and> length os = length cs"
proof (induction cs arbitrary: g m os)
  case (Cons c cs)
  obtain o2 g2 m2 where one: "claim_one r cfg c (g, m) = (o2, g2, m2)" by (metis prod_cases3)
  obtain os' where "claim_all r cfg cs (g2, m2) = (os', g1, m1)" "os = o2 # os'"
    using Cons.prems(1) one by (auto split: prod.splits)
  with Cons.IH [OF this(1)] claim_one_inv [OF one] Cons.prems show ?case by simp
qed simp

lemma gate_wf_release: "gate_wf (release r s)"
proof -
  obtain rl n where a: "advance (List.insert r (or_released s)) (or_next_rank s) = (rl, n)" by fastforce
  from advance_spec [OF this] show ?thesis by (simp add: gate_wf_def release_def a)
qed

lemma sorted_filter_fst: "omap_sorted m \<Longrightarrow> omap_sorted (filter P m)"
  by (simp add: sorted_wrt_map sorted_wrt_filter)

text \<open>Whatever calls are made, in whatever order, the oracle stays consistent: the gate never stands at
  a released rank, the grants are a map in key order, and the counters balance: every candidate asked
  about was granted, granted again, or denied for exactly one of the two reasons.\<close>

theorem oracle_consistent:
  assumes "called s"
  shows "or_next_rank s \<notin> set (or_released s) \<and> omap_sorted (or_granted s)
    \<and> hm_candidates (or_metrics s) = hm_granted (or_metrics s) + hm_denied_already_indexed (or_metrics s)
        + hm_denied_in_flight_owner (or_metrics s) + hm_regranted_on_retry (or_metrics s)"
proof -
  have "gate_wf s \<and> omap_sorted (or_granted s) \<and> balanced (or_metrics s)"
    using assms
  proof (induction rule: called.induct)
    case (claimed s r configuration candidates owned s')
    then show ?case
      by (auto simp: claim_def Let_def gate_wf_release split: if_splits prod.splits dest: claim_all_inv)
  qed (auto simp: new_oracle_def balanced_def gate_wf_def release_unclaimed_def revoke_grants_def cancel_def Let_def
      gate_wf_release [unfolded gate_wf_def] sorted_filter_fst)
  then show ?thesis by (simp add: gate_wf_def balanced_def)
qed

text \<open>After a revocation and a cancellation.\<close>

theorem oracle_consistent_witness:
  "or_next_rank (cancel (revoke_grants 0 (release_unclaimed 2 new_oracle)))
     \<notin> set (or_released (cancel (revoke_grants 0 (release_unclaimed 2 new_oracle))))"
  using oracle_consistent [OF called.cancelled [OF called.revoked [OF called.released [OF called.new]]]] by blast

text \<open>A failed publication does not lose its headers: after the grants of its rank are revoked, the next
  translation unit that reaches one of them is told to extract it.\<close>

theorem revoked_header_claimable:
  assumes "map_of (or_granted s) (hc_path c, cfg) = Some g" "gr_owner g = r" "omap_sorted (or_granted s)"
    and "\<not> hc_already_indexed_in_database c" "or_next_rank s \<ge> q" "\<not> or_cancelled s"
  shows "\<exists>s'. claim q cfg [c] (revoke_grants r s) = Some ([True], s')"
proof -
  let ?left = "filter (\<lambda>(k, g). gr_owner g \<noteq> r) (or_granted s)"
  have "distinct (map fst (or_granted s))" using assms(3) by (simp add: strict_sorted_iff)
  from eq_key_imp_eq_value [OF this map_of_SomeD [OF assms(1)]] have "map_of ?left (hc_path c, cfg) = None"
    using assms(2) by (auto simp: map_of_eq_None_iff)
  then have "map_of (or_granted (revoke_grants r s)) (hc_path c, cfg) = None"
    by (simp add: revoke_grants_def Let_def)
  moreover have "or_next_rank (revoke_grants r s) = or_next_rank s" "or_cancelled (revoke_grants r s) = or_cancelled s"
    by (simp_all add: revoke_grants_def Let_def)
  ultimately show ?thesis using assms(4-6)
    by (auto simp: claim_def gate_open_def claim_one_def Let_def split: prod.splits)
qed

text \<open>The header that rank 0 was granted, claimed by rank 1 after the revocation.\<close>

theorem revoked_header_claimable_witness:
  "\<exists>s'. claim 0 ''cfg'' [\<lparr>hc_path = ''h'', hc_parsed_md5 = None, hc_already_indexed_in_database = False\<rparr>]
     (revoke_grants 7 (new_oracle\<lparr>or_granted := [((''h'', ''cfg''), \<lparr>gr_parsed_md5 = None, gr_owner = 7\<rparr>)]\<rparr>))
     = Some ([True], s')"
  by (rule revoked_header_claimable [where g = "\<lparr>gr_parsed_md5 = None, gr_owner = 7\<rparr>"]) (simp_all add: new_oracle_def)

end
