(* ===== verification/Parallel_Policy.thy ===== *)
theory Parallel_Policy
  imports Prelude
begin

text \<open>
  Worker and budget selection for parallel extraction (\<^verbatim>\<open>index/parallel_policy.hpp\<close>,
  \<^verbatim>\<open>parallel_policy.cpp\<close>). \<^verbatim>\<open>std::size_t\<close> and \<^verbatim>\<open>std::uint64_t\<close> values are
  naturals, reduced where the code multiplies. The default memory share is a
  product of doubles; its rounding is the parameter \<open>share\<close>.
\<close>

record ParallelBudgets =
  pb_jobs :: int
  pb_max_queue_bytes :: nat
  pb_max_queue_items :: nat
  pb_memory_budget_bytes :: nat

record ParallelPlan =
  pp_workers :: nat
  pp_max_queue_items :: nat
  pp_max_queue_bytes :: nat
  pp_memory_budget_bytes :: nat
  pp_reserved_bytes_per_worker :: nat
  pp_selection_reason :: string

record HostResources =
  hr_logical_cores :: nat
  hr_total_memory_bytes :: nat
  hr_available_memory_bytes :: nat

definition kDefaultBytesPerWorker :: nat where
  "kDefaultBytesPerWorker = 768 * 1024 * 1024"

text \<open>The platform queries: reported hardware threads, physical pages and page size.\<close>

definition probe_total_memory_bytes :: "int \<Rightarrow> int \<Rightarrow> nat" where
  "probe_total_memory_bytes pages page_size =
     (if pages > 0 \<and> page_size > 0 then nat pages * nat page_size mod 2 ^ 64 else 0)"

definition probe_host_resources :: "nat \<Rightarrow> int \<Rightarrow> int \<Rightarrow> HostResources" where
  "probe_host_resources hardware pages page_size =
     (let total = probe_total_memory_bytes pages page_size
      in \<lparr>hr_logical_cores = (if hardware = 0 then 1 else hardware), hr_total_memory_bytes = total,
          hr_available_memory_bytes = total\<rparr>)"

definition automatic_workers :: "nat \<Rightarrow> nat \<Rightarrow> nat \<Rightarrow> nat \<Rightarrow> nat \<times> string" where
  "automatic_workers work cores budget reserved =
     (let memory_workers = (if budget \<noteq> 0 \<and> reserved \<noteq> 0 then max (budget div reserved) 1 else cores);
          workers = min work (min cores memory_workers)
      in (workers,
          if memory_workers < cores \<and> workers = memory_workers then ''automatic (memory-bound)''
          else if work < cores \<and> workers = work then ''automatic (work-bound)''
          else ''automatic (core-bound)''))"

definition plan_parallel_extraction ::
  "(nat \<Rightarrow> nat) \<Rightarrow> ParallelBudgets \<Rightarrow> HostResources \<Rightarrow> nat \<Rightarrow> ParallelPlan" where
  "plan_parallel_extraction share budgets host pending =
     (let work = (if pending = 0 then 1 else pending);
          cores = (if hr_logical_cores host = 0 then 1 else hr_logical_cores host);
          reserved = kDefaultBytesPerWorker;
          budget = (if pb_memory_budget_bytes budgets \<noteq> 0 then pb_memory_budget_bytes budgets
                    else share (hr_available_memory_bytes host));
          (workers0, reason) =
            (if pb_jobs budgets > 0 then (min (nat (pb_jobs budgets)) work, ''explicit --jobs'')
             else automatic_workers work cores budget reserved);
          workers = max workers0 1
      in \<lparr>pp_workers = workers,
          pp_max_queue_items = (if pb_max_queue_items budgets \<noteq> 0 then pb_max_queue_items budgets
                                else max (workers * 2 mod 2 ^ 64) 2),
          pp_max_queue_bytes = (if pb_max_queue_bytes budgets \<noteq> 0 then pb_max_queue_bytes budgets
                                else max (budget div 8) (64 * 1024 * 1024)),
          pp_memory_budget_bytes = budget, pp_reserved_bytes_per_worker = reserved,
          pp_selection_reason = reason\<rparr>)"

lemma automatic_workers_bounds:
  assumes "automatic_workers work cores budget reserved = (w, reason)" "reserved \<noteq> 0"
  shows "w \<le> work" "w \<le> cores" "budget = 0 \<or> w \<le> max (budget div reserved) 1"
  using assms by (auto simp: automatic_workers_def Let_def split: if_splits)

text \<open>Every plan is bounded: at least one worker and never more than the pending units, a reorder
  buffer of at least one item and one byte; without an explicit job count never more workers than
  cores, and their reservations fit the memory budget unless a single worker already exceeds it or
  the budget is unknown.\<close>

theorem plan_is_bounded:
  "let p = plan_parallel_extraction share budgets host pending in
     1 \<le> pp_workers p \<and> pp_workers p \<le> max pending 1 \<and> 1 \<le> pp_max_queue_items p \<and> 1 \<le> pp_max_queue_bytes p
     \<and> (pb_jobs budgets > 0 \<or> pp_workers p \<le> max (hr_logical_cores host) 1)
     \<and> (pb_jobs budgets > 0 \<or> pp_workers p = 1 \<or> pp_memory_budget_bytes p = 0
        \<or> pp_workers p * pp_reserved_bytes_per_worker p \<le> pp_memory_budget_bytes p)"
proof -
  let ?p = "plan_parallel_extraction share budgets host pending"
  let ?work = "if pending = 0 then 1 else pending"
    and ?cores = "if hr_logical_cores host = 0 then 1 else hr_logical_cores host"
    and ?budget = "if pb_memory_budget_bytes budgets \<noteq> 0 then pb_memory_budget_bytes budgets
      else share (hr_available_memory_bytes host)"
  obtain w reason where w: "(if pb_jobs budgets > 0 then (min (nat (pb_jobs budgets)) ?work, ''explicit --jobs'')
      else automatic_workers ?work ?cores ?budget kDefaultBytesPerWorker) = (w, reason)" by fastforce
  have p: "pp_workers ?p = max w 1" "pp_memory_budget_bytes ?p = ?budget"
    "pp_reserved_bytes_per_worker ?p = kDefaultBytesPerWorker" "1 \<le> pp_max_queue_items ?p" "1 \<le> pp_max_queue_bytes ?p"
    unfolding plan_parallel_extraction_def Let_def w prod.case by (simp_all add: max_def)
  have pos: "kDefaultBytesPerWorker \<noteq> 0" by (simp add: kDefaultBytesPerWorker_def)
  show ?thesis
  proof (cases "pb_jobs budgets > 0")
    case True
    with w p show ?thesis by (auto simp: Let_def)
  next
    case False
    with w have "automatic_workers ?work ?cores ?budget kDefaultBytesPerWorker = (w, reason)" by simp
    note b = automatic_workers_bounds [OF this pos]
    have "max w 1 * kDefaultBytesPerWorker \<le> ?budget" if "max w 1 \<noteq> 1" "?budget \<noteq> 0"
    proof -
      have "max w 1 \<le> ?budget div kDefaultBytesPerWorker" using b(3) that by (auto simp: max_def split: if_splits)
      then show ?thesis by (meson div_times_less_eq_dividend le_trans mult_le_mono1)
    qed
    then have "max w 1 = 1 \<or> ?budget = 0 \<or> max w 1 * kDefaultBytesPerWorker \<le> ?budget" by blast
    moreover have "max w 1 \<le> max pending 1" "max w 1 \<le> max (hr_logical_cores host) 1"
      using b(1,2) by (auto split: if_splits)
    moreover have "1 \<le> max w 1" by simp
    ultimately show ?thesis unfolding Let_def p(1-3) using p(4,5) by blast
  qed
qed

end
