(* ===== verification/Parallel_Runner.thy ===== *)
theory Parallel_Runner
  imports Parallel_Policy "HOL-Library.Multiset"
begin

text \<open>
  Bounded parallel extraction with publication in rank order
  (\<^verbatim>\<open>index/parallel_runner.hpp\<close>, \<^verbatim>\<open>parallel_runner_impl.hpp\<close>) as a step relation.
  Each critical section of a worker or of the publishing thread is one step, with
  its wait predicate as the guard; workers interleave arbitrarily. Extraction is a
  parameter, the answers of \<^verbatim>\<open>cancelled\<close> and \<^verbatim>\<open>publish\<close> are free. Byte counts are
  naturals. Durations are left out, and so are a failed thread creation and an
  exception thrown by \<^verbatim>\<open>publish\<close>.
\<close>

subsection \<open>State\<close>

datatype ParallelRunStatus = status_none | publication_stopped | cancelled_status

record ParallelRunMetrics =
  mt_items_dispatched :: nat
  mt_items_published :: nat
  mt_workers_started :: nat
  mt_peak_reorder_items :: nat
  mt_peak_reorder_bytes :: nat
  mt_peak_reserved_bytes :: nat
  mt_publication_windows :: nat
  mt_peak_publish_window_items :: nat
  mt_peak_publish_window_bytes :: nat

record 'p ParallelResult =
  rs_payload :: 'p
  rs_bytes :: nat
  rs_error :: "string option"

type_synonym 'p ranked = "nat \<times> 'p ParallelResult"

datatype 'p worker_pc = Idle | Extracting nat | Waiting nat "'p ParallelResult" | Exited

datatype 'p phase =
    Poll
  | Collect "'p ranked list" nat
  | Publishing "'p ranked list"
  | Joining
  | Finished

record 'p runner =
  rn_ready :: "'p ranked list"
  rn_next_dispatch :: nat
  rn_next_publish :: nat
  rn_buffered_bytes :: nat
  rn_in_flight :: nat
  rn_stopping :: bool
  rn_status :: ParallelRunStatus
  rn_pcs :: "'p worker_pc list"
  rn_phase :: "'p phase"
  rn_published :: "nat list"
  rn_abandoned :: "nat list"
  rn_metrics :: ParallelRunMetrics

datatype extract_error = Std_exception string | Unknown_exception

text \<open>The arguments of a run; \<open>ra_blank\<close> is the default-constructed payload.\<close>

record 'p run_args =
  ra_plan :: ParallelPlan
  ra_count :: nat
  ra_max_window_items :: nat
  ra_blank :: 'p
  ra_extract :: "nat \<Rightarrow> nat \<Rightarrow> extract_error + 'p ParallelResult"

definition guarded_extract :: "'p run_args \<Rightarrow> nat \<Rightarrow> nat \<Rightarrow> 'p ParallelResult" where
  "guarded_extract a worker_index rank =
     (case ra_extract a worker_index rank of
        Inr result \<Rightarrow> result
      | Inl (Std_exception what) \<Rightarrow> \<lparr>rs_payload = ra_blank a, rs_bytes = 0, rs_error = Some what\<rparr>
      | Inl Unknown_exception \<Rightarrow>
          \<lparr>rs_payload = ra_blank a, rs_bytes = 0, rs_error = Some ''unknown extraction failure''\<rparr>)"

definition worker_count :: "'p run_args \<Rightarrow> nat" where
  "worker_count a = max (min (pp_workers (ra_plan a)) (if ra_count a = 0 then 1 else ra_count a)) 1"

definition bounded_window_items :: "'p run_args \<Rightarrow> nat" where
  "bounded_window_items a = max (ra_max_window_items a) 1"

definition runner_start :: "'p run_args \<Rightarrow> 'p runner" where
  "runner_start a =
     \<lparr>rn_ready = [], rn_next_dispatch = 0, rn_next_publish = 0, rn_buffered_bytes = 0, rn_in_flight = 0,
      rn_stopping = False, rn_status = status_none, rn_pcs = replicate (worker_count a) Idle,
      rn_phase = Poll, rn_published = [], rn_abandoned = [],
      rn_metrics =
        \<lparr>mt_items_dispatched = 0, mt_items_published = 0, mt_workers_started = worker_count a,
         mt_peak_reorder_items = 0, mt_peak_reorder_bytes = 0, mt_peak_reserved_bytes = 0,
         mt_publication_windows = 0, mt_peak_publish_window_items = 0, mt_peak_publish_window_bytes = 0\<rparr>\<rparr>"

subsection \<open>The critical sections\<close>

text \<open>A worker takes the next rank.\<close>

definition take_rank :: "'p run_args \<Rightarrow> nat \<Rightarrow> 'p runner \<Rightarrow> 'p runner" where
  "take_rank a i s =
     (let rank = rn_next_dispatch s; m = rn_metrics s in
      s\<lparr>rn_pcs := (rn_pcs s)[i := Extracting rank], rn_next_dispatch := rank + 1,
        rn_in_flight := rn_in_flight s + 1,
        rn_metrics := m\<lparr>mt_items_dispatched := max (mt_items_dispatched m) (rank + 1),
          mt_peak_reserved_bytes := max (mt_peak_reserved_bytes m)
            ((rn_in_flight s + 1) * pp_reserved_bytes_per_worker (ra_plan a))\<rparr>\<rparr>)"

text \<open>Whether a finished result may enter the reorder buffer, and its entry (\<^verbatim>\<open>emplace\<close>).\<close>

definition admitted :: "ParallelPlan \<Rightarrow> 'p runner \<Rightarrow> nat \<Rightarrow> 'p ParallelResult \<Rightarrow> bool" where
  "admitted plan s rank result \<longleftrightarrow>
     rank = rn_next_publish s
     \<or> (length (rn_ready s) < pp_max_queue_items plan
        \<and> rn_buffered_bytes s + rs_bytes result \<le> pp_max_queue_bytes plan)"

definition enter_buffer :: "nat \<Rightarrow> nat \<Rightarrow> 'p ParallelResult \<Rightarrow> 'p runner \<Rightarrow> 'p runner" where
  "enter_buffer i rank result s =
     (let ready = (if rank \<in> fst ` set (rn_ready s) then rn_ready s else omap_insert rank result (rn_ready s));
          bytes = rn_buffered_bytes s + rs_bytes result; m = rn_metrics s in
      s\<lparr>rn_pcs := (rn_pcs s)[i := Idle], rn_in_flight := rn_in_flight s - 1,
        rn_buffered_bytes := bytes, rn_ready := ready,
        rn_metrics := m\<lparr>mt_peak_reorder_items := max (mt_peak_reorder_items m) (length ready),
          mt_peak_reorder_bytes := max (mt_peak_reorder_bytes m) bytes\<rparr>\<rparr>)"

definition give_up :: "nat \<Rightarrow> nat \<Rightarrow> 'p runner \<Rightarrow> 'p runner" where
  "give_up i rank s =
     s\<lparr>rn_pcs := (rn_pcs s)[i := Exited], rn_in_flight := rn_in_flight s - 1,
       rn_abandoned := rn_abandoned s @ [rank]\<rparr>"

text \<open>The conditions that end the collection of a publication window.\<close>

definition window_full :: "ParallelPlan \<Rightarrow> 'p ranked list \<Rightarrow> nat \<Rightarrow> 'p ParallelResult \<Rightarrow> bool" where
  "window_full plan win win_bytes result \<longleftrightarrow>
     win \<noteq> [] \<and> pp_max_queue_bytes plan \<noteq> 0 \<and> win_bytes + rs_bytes result > pp_max_queue_bytes plan"

definition window_ends :: "'p run_args \<Rightarrow> 'p runner \<Rightarrow> 'p ranked list \<Rightarrow> nat \<Rightarrow> bool" where
  "window_ends a s win win_bytes \<longleftrightarrow>
     length win \<ge> bounded_window_items a \<or> rn_next_publish s \<ge> ra_count a \<or> rn_stopping s
     \<or> (case map_of (rn_ready s) (rn_next_publish s) of
          None \<Rightarrow> win \<noteq> []
        | Some result \<Rightarrow> window_full (ra_plan a) win win_bytes result)"

definition take_ready :: "'p ranked list \<Rightarrow> nat \<Rightarrow> 'p ParallelResult \<Rightarrow> 'p runner \<Rightarrow> 'p runner" where
  "take_ready win win_bytes result s =
     s\<lparr>rn_phase := Collect (win @ [(rn_next_publish s, result)]) (win_bytes + rs_bytes result),
       rn_ready := filter (\<lambda>(r, _). r \<noteq> rn_next_publish s) (rn_ready s),
       rn_buffered_bytes := rn_buffered_bytes s - rs_bytes result,
       rn_next_publish := rn_next_publish s + 1\<rparr>"

definition open_window :: "'p ranked list \<Rightarrow> nat \<Rightarrow> 'p runner \<Rightarrow> 'p runner" where
  "open_window win win_bytes s =
     (let m = rn_metrics s in
      s\<lparr>rn_phase := Publishing win,
        rn_metrics := m\<lparr>mt_publication_windows := mt_publication_windows m + 1,
          mt_peak_publish_window_items := max (mt_peak_publish_window_items m) (length win),
          mt_peak_publish_window_bytes := max (mt_peak_publish_window_bytes m) win_bytes\<rparr>\<rparr>)"

definition window_published :: "'p ranked list \<Rightarrow> nat \<Rightarrow> ParallelRunStatus \<Rightarrow> 'p runner \<Rightarrow> 'p runner" where
  "window_published win items stop_status s =
     (let m = rn_metrics s;
          s' = s\<lparr>rn_published := rn_published s @ map fst win,
                 rn_metrics := m\<lparr>mt_items_published := mt_items_published m + items\<rparr>\<rparr>
      in if stop_status \<noteq> status_none
         then s'\<lparr>rn_phase := Joining, rn_stopping := True, rn_status := stop_status\<rparr>
         else s'\<lparr>rn_phase := Poll\<rparr>)"

definition drain :: "'p runner \<Rightarrow> 'p runner" where
  "drain s = s\<lparr>rn_phase := Finished, rn_abandoned := rn_abandoned s @ map fst (rn_ready s), rn_ready := []\<rparr>"

inductive runner_step :: "'p run_args \<Rightarrow> 'p runner \<Rightarrow> 'p runner \<Rightarrow> bool" for a where
  dispatch: "i < length (rn_pcs s) \<Longrightarrow> rn_pcs s ! i = Idle \<Longrightarrow> \<not> rn_stopping s \<Longrightarrow> rn_next_dispatch s < ra_count a \<Longrightarrow>
     runner_step a s (take_rank a i s)"
| leave: "i < length (rn_pcs s) \<Longrightarrow> rn_pcs s ! i = Idle \<Longrightarrow> rn_stopping s \<or> rn_next_dispatch s \<ge> ra_count a \<Longrightarrow>
     runner_step a s (s\<lparr>rn_pcs := (rn_pcs s)[i := Exited]\<rparr>)"
| extracted: "i < length (rn_pcs s) \<Longrightarrow> rn_pcs s ! i = Extracting r \<Longrightarrow>
     runner_step a s (s\<lparr>rn_pcs := (rn_pcs s)[i := Waiting r (guarded_extract a i r)]\<rparr>)"
| admit: "i < length (rn_pcs s) \<Longrightarrow> rn_pcs s ! i = Waiting r result \<Longrightarrow> \<not> rn_stopping s \<Longrightarrow>
     admitted (ra_plan a) s r result \<Longrightarrow> runner_step a s (enter_buffer i r result s)"
| abandon: "i < length (rn_pcs s) \<Longrightarrow> rn_pcs s ! i = Waiting r result \<Longrightarrow> rn_stopping s \<Longrightarrow>
     runner_step a s (give_up i r s)"
| poll_cancelled: "rn_phase s = Poll \<Longrightarrow>
     runner_step a s (s\<lparr>rn_phase := Joining, rn_stopping := True, rn_status := cancelled_status\<rparr>)"
| poll_continue: "rn_phase s = Poll \<Longrightarrow> runner_step a s (s\<lparr>rn_phase := Collect [] 0\<rparr>)"
| collect: "rn_phase s = Collect win win_bytes \<Longrightarrow> \<not> window_ends a s win win_bytes \<Longrightarrow>
     map_of (rn_ready s) (rn_next_publish s) = Some result \<Longrightarrow> runner_step a s (take_ready win win_bytes result s)"
| submit: "rn_phase s = Collect win win_bytes \<Longrightarrow> window_ends a s win win_bytes \<Longrightarrow> win \<noteq> [] \<Longrightarrow>
     runner_step a s (open_window win win_bytes s)"
| exhausted: "rn_phase s = Collect [] win_bytes \<Longrightarrow> window_ends a s [] win_bytes \<Longrightarrow>
     runner_step a s (s\<lparr>rn_phase := Joining, rn_stopping := True\<rparr>)"
| published: "rn_phase s = Publishing win \<Longrightarrow> runner_step a s (window_published win items stop_status s)"
| joined: "rn_phase s = Joining \<Longrightarrow> list_all (\<lambda>pc. pc = Exited) (rn_pcs s) \<Longrightarrow> runner_step a s (drain s)"

text \<open>The states after \<open>n\<close> steps of some schedule.\<close>

inductive runs :: "'p run_args \<Rightarrow> nat \<Rightarrow> 'p runner \<Rightarrow> bool" for a where
  begins: "runs a 0 (runner_start a)"
| goes: "runs a n s \<Longrightarrow> runner_step a s s' \<Longrightarrow> runs a (Suc n) s'"

lemmas section_defs = take_rank_def enter_buffer_def give_up_def take_ready_def open_window_def
  window_published_def drain_def Let_def

subsection \<open>Ranks\<close>

fun pc_ranks :: "'p worker_pc \<Rightarrow> nat list" where
  "pc_ranks (Extracting r) = [r]"
| "pc_ranks (Waiting r _) = [r]"
| "pc_ranks _ = []"

definition held :: "'p worker_pc list \<Rightarrow> nat list" where
  "held pcs = concat (map pc_ranks pcs)"

lemma held_update:
  "i < length pcs \<Longrightarrow> mset (held (pcs[i := pc])) + mset (pc_ranks (pcs ! i)) = mset (held pcs) + mset (pc_ranks pc)"
proof (induction pcs arbitrary: i)
  case (Cons q pcs)
  then show ?case by (cases i) (auto simp: held_def)
qed simp

lemma held_member: "i < length pcs \<Longrightarrow> r \<in> set (pc_ranks (pcs ! i)) \<Longrightarrow> r \<in> set (held pcs)"
  by (auto simp: held_def)

fun phase_window :: "'p phase \<Rightarrow> 'p ranked list" where
  "phase_window (Collect win _) = win"
| "phase_window (Publishing win) = win"
| "phase_window _ = []"

fun ending :: "'p phase \<Rightarrow> bool" where
  "ending Joining = True" | "ending Finished = True" | "ending _ = False"

text \<open>Every dispatched rank is in exactly one place, and publication follows the ranks.\<close>

definition rank_inv :: "'p runner \<Rightarrow> bool" where
  "rank_inv s \<longleftrightarrow>
     rn_published s @ map fst (phase_window (rn_phase s)) = [0 ..< rn_next_publish s]
     \<and> mset [0 ..< rn_next_dispatch s]
       = mset [0 ..< rn_next_publish s] + mset (map fst (rn_ready s)) + mset (held (rn_pcs s)) + mset (rn_abandoned s)
     \<and> omap_sorted (rn_ready s)"

lemma mset_omap_insert: "k \<notin> fst ` set m \<Longrightarrow> mset (omap_insert k v m) = add_mset (k, v) (mset m)"
  by (induction m) auto

lemma mset_omap_erase:
  "omap_sorted m \<Longrightarrow> map_of m k = Some v \<Longrightarrow> mset m = add_mset (k, v) (mset (filter (\<lambda>(r, _). r \<noteq> k) m))"
proof (induction m)
  case (Cons kv m)
  obtain k' v' where kv: "kv = (k', v')" by (cases kv)
  show ?case
  proof (cases "k' = k")
    case True
    then have "filter (\<lambda>(r, _). r \<noteq> k) m = m" using Cons.prems kv by (fastforce intro: filter_True)
    then show ?thesis using True Cons.prems kv by simp
  next
    case False
    then show ?thesis using Cons kv by simp
  qed
qed simp

lemma keys_omap_erase:
  assumes "omap_sorted m" "map_of m k = Some v"
  shows "mset (map fst m) = add_mset k (mset (map fst (filter (\<lambda>(r, _). r \<noteq> k) m)))"
  unfolding mset_map by (subst mset_omap_erase [OF assms]) simp

lemma omap_sorted_filter: "omap_sorted m \<Longrightarrow> omap_sorted (filter P m)"
  by (induction m) auto

lemma rank_inv_held:
  assumes "rank_inv s" "r \<in> set (held (rn_pcs s))"
  shows "r \<notin> fst ` set (rn_ready s)" "rn_next_publish s \<le> r" "r < rn_next_dispatch s"
proof -
  have "count (mset [0 ..< rn_next_dispatch s]) r \<le> 1"
    using distinct_count_atmost_1 [of "[0 ..< rn_next_dispatch s]"] by (simp del: mset_upt)
  with assms(1) have "count (mset [0 ..< rn_next_publish s]) r + count (mset (map fst (rn_ready s))) r
      + count (mset (held (rn_pcs s))) r \<le> 1"
    unfolding rank_inv_def by (metis (no_types, lifting) count_union le_add1 le_trans)
  moreover have "count (mset (held (rn_pcs s))) r > 0" using assms(2) by (simp add: count_greater_zero_iff)
  ultimately have "count (mset [0 ..< rn_next_publish s]) r = 0" "count (mset (map fst (rn_ready s))) r = 0" by linarith+
  then show "r \<notin> fst ` set (rn_ready s)" "rn_next_publish s \<le> r" by (auto simp: count_eq_zero_iff)
  have "set (held (rn_pcs s)) \<subseteq> set [0 ..< rn_next_dispatch s]"
    using assms(1) unfolding rank_inv_def by (metis (no_types, lifting) set_mset_mset set_mset_union Un_iff subsetI)
  then show "r < rn_next_dispatch s" using assms(2) by auto
qed

lemma rank_inv_le: "rank_inv s \<Longrightarrow> rn_next_publish s \<le> rn_next_dispatch s"
  unfolding rank_inv_def
  by (metis add.assoc length_upt mset_subset_eq_add_left size_mset size_mset_mono diff_zero)

lemma rank_inv_start: "rank_inv (runner_start a)"
proof -
  have "held (replicate n Idle) = []" for n by (induction n) (auto simp: held_def)
  then show ?thesis by (simp add: rank_inv_def runner_start_def)
qed

lemma rank_inv_step:
  assumes "runner_step a s s'" "rank_inv s"
  shows "rank_inv s'"
  using assms
proof (cases rule: runner_step.cases)
  case (dispatch i)
  then show ?thesis using assms(2) held_update [of i "rn_pcs s" "Extracting (rn_next_dispatch s)"]
    by (simp add: rank_inv_def section_defs add.commute add.left_commute)
next
  case (leave i)
  then show ?thesis using assms(2) held_update [of i "rn_pcs s" Exited]
    by (simp add: rank_inv_def)
next
  case (extracted i r)
  then show ?thesis using assms(2) held_update [of i "rn_pcs s" "Waiting r (guarded_extract a i r)"]
    by (simp add: rank_inv_def)
next
  case (admit i r result)
  then have "r \<notin> fst ` set (rn_ready s)"
    using rank_inv_held(1) [OF assms(2)] held_member [of i "rn_pcs s" r] by simp
  then show ?thesis using admit assms(2) held_update [of i "rn_pcs s" Idle] mset_omap_insert [of r "rn_ready s" result]
    by (simp add: rank_inv_def section_defs)
next
  case (abandon i r result)
  then show ?thesis using assms(2) held_update [of i "rn_pcs s" Exited]
    by (simp add: rank_inv_def section_defs)
next
  case (collect win win_bytes result)
  then show ?thesis using assms(2) keys_omap_erase [of "rn_ready s" "rn_next_publish s" result]
    by (simp add: rank_inv_def section_defs omap_sorted_filter)
qed (simp_all add: rank_inv_def section_defs)

subsection \<open>Control\<close>

text \<open>What the flags and the workers' positions say about each other.\<close>

definition ctl_inv :: "'p run_args \<Rightarrow> 'p runner \<Rightarrow> bool" where
  "ctl_inv a s \<longleftrightarrow>
     rn_stopping s = ending (rn_phase s)
     \<and> (rn_stopping s \<or> rn_abandoned s = [])
     \<and> rn_next_dispatch s \<le> ra_count a
     \<and> (rn_stopping s \<or> Exited \<notin> set (rn_pcs s) \<or> ra_count a \<le> rn_next_dispatch s)
     \<and> length (rn_pcs s) = worker_count a
     \<and> (ending (rn_phase s) \<or> rn_status s = status_none)
     \<and> (\<not> ending (rn_phase s) \<or> rn_status s \<noteq> status_none \<or> rn_next_publish s = ra_count a)
     \<and> (rn_phase s \<noteq> Finished \<or> list_all (\<lambda>pc. pc = Exited) (rn_pcs s) \<and> rn_ready s = [])"

lemma ctl_inv_start: "ctl_inv a (runner_start a)"
  by (simp add: ctl_inv_def runner_start_def)

lemma exited_update: "i < length pcs \<Longrightarrow> pcs ! i \<noteq> Exited \<Longrightarrow> pc \<noteq> Exited \<Longrightarrow>
    Exited \<in> set (pcs[i := pc]) \<longleftrightarrow> Exited \<in> set pcs"
  by (auto simp: in_set_conv_nth nth_list_update split: if_splits)

lemma all_exited: "list_all (\<lambda>pc. pc = Exited) pcs \<Longrightarrow> i < length pcs \<Longrightarrow> pcs ! i = Exited"
  by (auto simp: list_all_iff)

lemma exhausted_window: "window_ends a s [] b \<Longrightarrow> \<not> rn_stopping s \<Longrightarrow> ra_count a \<le> rn_next_publish s"
  by (auto simp: window_ends_def window_full_def bounded_window_items_def split: option.splits)

lemma ctl_inv_step:
  assumes "runner_step a s s'" "ctl_inv a s" "rank_inv s"
  shows "ctl_inv a s'"
  using assms
proof (cases rule: runner_step.cases)
  case (dispatch i)
  then show ?thesis using assms(2) all_exited [of "rn_pcs s" i]
    by (auto simp: ctl_inv_def section_defs exited_update)
next
  case (leave i)
  then show ?thesis using assms(2) all_exited [of "rn_pcs s" i] by (auto simp: ctl_inv_def)
next
  case (extracted i r)
  then show ?thesis using assms(2) all_exited [of "rn_pcs s" i] by (auto simp: ctl_inv_def exited_update)
next
  case (admit i r result)
  then show ?thesis using assms(2) all_exited [of "rn_pcs s" i]
    by (auto simp: ctl_inv_def section_defs exited_update)
next
  case (abandon i r result)
  then show ?thesis using assms(2) all_exited [of "rn_pcs s" i] by (auto simp: ctl_inv_def section_defs)
next
  case (exhausted b)
  then show ?thesis using assms(2) exhausted_window [of a s b] rank_inv_le [OF assms(3)]
    by (simp add: ctl_inv_def)
next
  case (published win items stop_status)
  then show ?thesis using assms(2) by (auto simp: ctl_inv_def section_defs)
qed (use assms(2) in \<open>simp_all add: ctl_inv_def section_defs\<close>)

subsection \<open>Budgets\<close>

definition result_bytes :: "'p ranked list \<Rightarrow> nat" where
  "result_bytes m = sum_list (map (rs_bytes \<circ> snd) m)"

abbreviation overtaken :: "'p runner \<Rightarrow> 'p ranked list" where
  "overtaken s \<equiv> filter (\<lambda>(r, _). r \<noteq> rn_next_publish s) (rn_ready s)"

text \<open>The reorder buffer without the rank the publisher waits for fits the plan.\<close>

definition buffer_inv :: "'p run_args \<Rightarrow> 'p runner \<Rightarrow> bool" where
  "buffer_inv a s \<longleftrightarrow>
     (rn_phase s = Finished \<or> rn_buffered_bytes s = result_bytes (rn_ready s))
     \<and> length (overtaken s) \<le> pp_max_queue_items (ra_plan a)
     \<and> result_bytes (overtaken s) \<le> pp_max_queue_bytes (ra_plan a)
     \<and> mt_peak_reorder_items (rn_metrics s) \<le> pp_max_queue_items (ra_plan a) + 1"

lemma result_bytes_add_mset:
  assumes "mset m = add_mset (k, x) (mset m')"
  shows "result_bytes m = rs_bytes x + result_bytes m' \<and> length m = Suc (length m')"
proof -
  have sum: "result_bytes l = (\<Sum>x\<in>#mset l. rs_bytes (snd x))" for l :: "'p ranked list"
    by (simp add: result_bytes_def sum_mset_sum_list [symmetric] comp_def)
  have "length m = Suc (length m')" using arg_cong [OF assms, of size] by simp
  then show ?thesis by (simp add: sum assms)
qed

lemmas result_bytes_erase = result_bytes_add_mset [OF mset_omap_erase]
lemmas result_bytes_insert = result_bytes_add_mset [OF mset_omap_insert]

lemma result_bytes_filter: "result_bytes (filter P m) \<le> result_bytes m"
  by (induction m) (auto simp: result_bytes_def)

lemma filter_omap_insert_same:
  "k \<notin> fst ` set m \<Longrightarrow> filter (\<lambda>(r, _). r \<noteq> k) (omap_insert k x m) = filter (\<lambda>(r, _). r \<noteq> k) m"
  by (induction m) auto

lemma length_overtaken:
  assumes "omap_sorted (rn_ready s)" shows "length (rn_ready s) \<le> Suc (length (overtaken s))"
proof (cases "map_of (rn_ready s) (rn_next_publish s)")
  case None
  then have "overtaken s = rn_ready s" by (force simp: map_of_eq_None_iff intro!: filter_True)
  then show ?thesis by simp
qed (use result_bytes_erase [OF assms] in auto)

lemma buffer_inv_start: "buffer_inv a (runner_start a)"
  by (simp add: buffer_inv_def runner_start_def result_bytes_def)

lemma buffer_inv_admit:
  assumes "r \<notin> fst ` set (rn_ready s)" "admitted (ra_plan a) s r result" "omap_sorted (rn_ready s)"
    "rn_phase s \<noteq> Finished" "buffer_inv a s"
  shows "buffer_inv a (enter_buffer i r result s)"
proof -
  let ?m = "omap_insert r result (rn_ready s)"
  let ?o = "filter (\<lambda>(k, _). k \<noteq> rn_next_publish s) ?m"
  note ins = result_bytes_insert [OF assms(1), of result]
  have o: "length ?o \<le> pp_max_queue_items (ra_plan a) \<and> result_bytes ?o \<le> pp_max_queue_bytes (ra_plan a)
      \<and> length ?m \<le> pp_max_queue_items (ra_plan a) + 1"
  proof (cases "r = rn_next_publish s")
    case True
    then have "?o = overtaken s" using filter_omap_insert_same [OF assms(1)] by simp
    then show ?thesis using assms(5) ins length_overtaken [of "s\<lparr>rn_ready := ?m\<rparr>"] assms(3)
      by (simp add: buffer_inv_def)
  next
    case False
    then show ?thesis using assms(2,4,5) ins result_bytes_filter [of _ ?m] length_filter_le [of _ ?m]
      by (fastforce simp: admitted_def buffer_inv_def intro: le_trans)
  qed
  then show ?thesis using assms(1,4,5) ins by (simp add: buffer_inv_def section_defs)
qed

lemma buffer_inv_collect:
  assumes "map_of (rn_ready s) (rn_next_publish s) = Some result" "omap_sorted (rn_ready s)"
    "rn_phase s \<noteq> Finished" "buffer_inv a s"
  shows "buffer_inv a (take_ready win win_bytes result s)"
proof -
  let ?o = "filter (\<lambda>(r, _). r \<noteq> Suc (rn_next_publish s)) (overtaken s)"
  have "length ?o \<le> length (overtaken s)" "result_bytes ?o \<le> result_bytes (overtaken s)"
    by (rule length_filter_le, rule result_bytes_filter)
  then show ?thesis using assms(3,4) result_bytes_erase [OF assms(2,1)]
    by (simp add: buffer_inv_def section_defs)
qed

lemma buffer_inv_step:
  assumes "runner_step a s s'" "buffer_inv a s" "ctl_inv a s" "rank_inv s"
  shows "buffer_inv a s'"
  using assms
proof (cases rule: runner_step.cases)
  case (admit i r result)
  have "r \<notin> fst ` set (rn_ready s)"
    using rank_inv_held(1) [OF assms(4)] held_member [of i "rn_pcs s" r] admit by simp
  moreover have "rn_phase s \<noteq> Finished" using assms(3) admit by (auto simp: ctl_inv_def)
  ultimately show ?thesis using admit assms buffer_inv_admit by (auto simp: rank_inv_def)
next
  case (collect win win_bytes result)
  then show ?thesis using assms buffer_inv_collect [of s result] by (simp add: rank_inv_def)
next
  case (published win items stop_status)
  then show ?thesis using assms(2) by (simp add: buffer_inv_def section_defs)
qed (use assms(2,3) in \<open>auto simp: buffer_inv_def ctl_inv_def section_defs result_bytes_def\<close>)

text \<open>In-flight extractions, their memory reservation and the publication windows.\<close>

definition flight_inv :: "'p run_args \<Rightarrow> 'p runner \<Rightarrow> bool" where
  "flight_inv a s \<longleftrightarrow>
     rn_in_flight s = length (held (rn_pcs s)) \<and> length (rn_pcs s) = worker_count a
     \<and> mt_peak_reserved_bytes (rn_metrics s) \<le> worker_count a * pp_reserved_bytes_per_worker (ra_plan a)
     \<and> mt_items_dispatched (rn_metrics s) = rn_next_dispatch s
     \<and> length (phase_window (rn_phase s)) \<le> bounded_window_items a
     \<and> mt_peak_publish_window_items (rn_metrics s) \<le> bounded_window_items a"

lemma length_held: "length (held pcs) \<le> length pcs"
proof (induction pcs)
  case (Cons pc pcs)
  then show ?case by (cases pc) (auto simp: held_def)
qed (simp add: held_def)

lemma length_held_update: "i < length pcs \<Longrightarrow>
    length (held (pcs[i := pc])) + length (pc_ranks (pcs ! i)) = length (held pcs) + length (pc_ranks pc)"
  using arg_cong [OF held_update [of i pcs pc], of size] by simp

lemma flight_inv_start: "flight_inv a (runner_start a)"
  by (simp add: flight_inv_def runner_start_def held_def bounded_window_items_def)

lemma flight_inv_step:
  assumes "runner_step a s s'" "flight_inv a s"
  shows "flight_inv a s'"
  using assms
proof (cases rule: runner_step.cases)
  case (dispatch i)
  let ?pcs = "(rn_pcs s)[i := Extracting (rn_next_dispatch s)]"
  have "length (held ?pcs) = Suc (length (held (rn_pcs s)))" using length_held_update [of i "rn_pcs s"] dispatch by simp
  moreover have "length (held ?pcs) \<le> worker_count a" using length_held [of ?pcs] assms(2) by (simp add: flight_inv_def)
  then have "length (held ?pcs) * pp_reserved_bytes_per_worker (ra_plan a)
      \<le> worker_count a * pp_reserved_bytes_per_worker (ra_plan a)" by (rule mult_le_mono1)
  ultimately show ?thesis using dispatch assms(2) by (simp add: flight_inv_def section_defs)
next
  case (leave i)
  then show ?thesis using length_held_update [of i "rn_pcs s" Exited] assms(2) by (simp add: flight_inv_def)
next
  case (extracted i r)
  then show ?thesis using length_held_update [of i "rn_pcs s" "Waiting r (guarded_extract a i r)"] assms(2)
    by (simp add: flight_inv_def)
next
  case (admit i r result)
  then show ?thesis using length_held_update [of i "rn_pcs s" Idle] assms(2)
    by (simp add: flight_inv_def section_defs)
next
  case (abandon i r result)
  then show ?thesis using length_held_update [of i "rn_pcs s" Exited] assms(2)
    by (simp add: flight_inv_def section_defs)
next
  case (collect win win_bytes result)
  then show ?thesis using assms(2) by (simp add: flight_inv_def section_defs window_ends_def)
qed (use assms(2) in \<open>simp_all add: flight_inv_def section_defs\<close>)

lemma runs_inv: "runs a n s \<Longrightarrow> rank_inv s \<and> ctl_inv a s \<and> buffer_inv a s \<and> flight_inv a s"
proof (induction rule: runs.induct)
  case begins
  show ?case by (simp add: rank_inv_start ctl_inv_start buffer_inv_start flight_inv_start)
next
  case (goes n s s')
  then show ?case by (meson rank_inv_step ctl_inv_step buffer_inv_step flight_inv_step)
qed

subsection \<open>Progress and termination\<close>

lemma held_worker:
  assumes "r \<in> set (held pcs)"
  obtains i where "i < length pcs" "pcs ! i = Extracting r \<or> (\<exists>x. pcs ! i = Waiting r x)"
proof -
  from assms obtain pc where pc: "pc \<in> set pcs" "r \<in> set (pc_ranks pc)" by (auto simp: held_def)
  then obtain i where "i < length pcs" "pcs ! i = pc" by (auto simp: in_set_conv_nth)
  with pc(2) that show ?thesis by (cases pc) auto
qed

text \<open>While the run goes on, the rank the publisher waits for is never stuck.\<close>

lemma waiting_progress:
  assumes rank: "rank_inv s" and ctl: "ctl_inv a s" and run: "\<not> ending (rn_phase s)"
    and missing: "map_of (rn_ready s) (rn_next_publish s) = None" "rn_next_publish s < ra_count a"
  shows "\<exists>s'. runner_step a s s'"
proof (cases "rn_next_publish s < rn_next_dispatch s")
  case True
  have go: "\<not> rn_stopping s" "rn_abandoned s = []" using ctl run by (auto simp: ctl_inv_def)
  have "rn_next_publish s \<in># mset [0 ..< rn_next_dispatch s]" using True by simp
  then have "rn_next_publish s \<in># mset [0 ..< rn_next_publish s] + mset (map fst (rn_ready s)) + mset (held (rn_pcs s))"
    using rank go unfolding rank_inv_def by (metis empty_neutral(2) mset.simps(1))
  then have "rn_next_publish s \<in> set (held (rn_pcs s))" using missing(1) by (auto simp: map_of_eq_None_iff)
  then obtain i where "i < length (rn_pcs s)"
    "rn_pcs s ! i = Extracting (rn_next_publish s) \<or> (\<exists>x. rn_pcs s ! i = Waiting (rn_next_publish s) x)"
    by (rule held_worker)
  then show ?thesis using go runner_step.extracted [of i s] runner_step.admit [of i s "rn_next_publish s"]
    by (fastforce simp: admitted_def)
next
  case False
  have go: "\<not> rn_stopping s" "Exited \<notin> set (rn_pcs s)" "0 < length (rn_pcs s)"
    using ctl run False missing(2) by (auto simp: ctl_inv_def worker_count_def)
  have "r \<notin> set (held (rn_pcs s))" for r using rank_inv_held [OF rank, of r] False by auto
  then have "r \<notin> set (pc_ranks (rn_pcs s ! 0))" for r using held_member go(3) by blast
  moreover have "rn_pcs s ! 0 \<noteq> Exited" using go by (metis nth_mem)
  ultimately have "rn_pcs s ! 0 = Idle" by (cases "rn_pcs s ! 0") auto
  then show ?thesis using go False missing(2) runner_step.dispatch [of 0 s a] by auto
qed

lemma joining_progress:
  assumes "rn_phase s = Joining" "rn_stopping s"
  shows "\<exists>s'. runner_step a s s'"
proof (cases "list_all (\<lambda>pc. pc = Exited) (rn_pcs s)")
  case True
  with assms show ?thesis by (auto intro: runner_step.joined)
next
  case False
  then obtain i where i: "i < length (rn_pcs s)" "rn_pcs s ! i \<noteq> Exited" by (auto simp: list_all_length)
  then show ?thesis using assms(2)
      runner_step.leave [OF i(1)] runner_step.extracted [OF i(1)] runner_step.abandon [OF i(1)]
    by (cases "rn_pcs s ! i") blast+
qed

lemma progress:
  assumes "rank_inv s" "ctl_inv a s"
  shows "rn_phase s = Finished \<or> (\<exists>s'. runner_step a s s')"
proof (cases "rn_phase s")
  case (Collect win b)
  show ?thesis
  proof (cases "window_ends a s win b")
    case True
    then show ?thesis using Collect runner_step.submit [OF Collect, of a] runner_step.exhausted [of s b a]
      by (cases "win = []") blast+
  next
    case False
    then show ?thesis using Collect runner_step.collect [OF Collect False] waiting_progress [OF assms]
      by (cases "map_of (rn_ready s) (rn_next_publish s)") (auto simp: window_ends_def)
  qed
next
  case Joining
  then show ?thesis using joining_progress [OF Joining, of a] assms(2) by (simp add: ctl_inv_def)
qed (blast intro: runner_step.poll_continue runner_step.published)+

fun pc_weight :: "'p worker_pc \<Rightarrow> nat" where
  "pc_weight Idle = 1" | "pc_weight (Extracting _) = 3" | "pc_weight (Waiting _ _) = 2" | "pc_weight Exited = 0"

fun phase_weight :: "'p phase \<Rightarrow> nat" where
  "phase_weight Poll = 3"
| "phase_weight (Collect win _) = (if win = [] then 2 else 5)"
| "phase_weight (Publishing _) = 4"
| "phase_weight Joining = 1"
| "phase_weight Finished = 0"

definition run_weight :: "'p run_args \<Rightarrow> 'p runner \<Rightarrow> nat" where
  "run_weight a s = 4 * (ra_count a - rn_next_dispatch s) + sum_list (map pc_weight (rn_pcs s))
     + 5 * (ra_count a - rn_next_publish s) + phase_weight (rn_phase s)"

lemma pc_weight_update: "i < length pcs \<Longrightarrow>
    sum_list (map pc_weight (pcs[i := pc])) + pc_weight (pcs ! i) = sum_list (map pc_weight pcs) + pc_weight pc"
proof (induction pcs arbitrary: i)
  case (Cons q pcs)
  then show ?case by (cases i) auto
qed simp

lemma run_weight_step:
  assumes "runner_step a s s'"
  shows "run_weight a s' < run_weight a s"
  using assms
proof (cases rule: runner_step.cases)
  case (dispatch i)
  then show ?thesis using pc_weight_update [of i "rn_pcs s" "Extracting (rn_next_dispatch s)"]
    by (simp add: run_weight_def section_defs)
next
  case (leave i)
  then show ?thesis using pc_weight_update [of i "rn_pcs s" Exited] by (simp add: run_weight_def)
next
  case (extracted i r)
  then show ?thesis using pc_weight_update [of i "rn_pcs s" "Waiting r (guarded_extract a i r)"]
    by (simp add: run_weight_def)
next
  case (admit i r result)
  then show ?thesis using pc_weight_update [of i "rn_pcs s" Idle] by (simp add: run_weight_def section_defs)
next
  case (abandon i r result)
  then show ?thesis using pc_weight_update [of i "rn_pcs s" Exited] by (simp add: run_weight_def section_defs)
next
  case (collect win win_bytes result)
  then show ?thesis by (auto simp: run_weight_def section_defs window_ends_def)
qed (simp_all add: run_weight_def section_defs)

lemma runs_weight: "runs a n s \<Longrightarrow> n + run_weight a s \<le> 9 * ra_count a + worker_count a + 3"
proof (induction rule: runs.induct)
  case begins
  show ?case by (simp add: run_weight_def runner_start_def sum_list_replicate)
next
  case (goes n s s')
  then show ?case using run_weight_step [OF goes(2)] by simp
qed

subsection \<open>An executable scheduler\<close>

text \<open>One turn of worker \<open>i\<close> of \<^verbatim>\<open>worker_body\<close>, or of the publishing loop with the answers of its
  callbacks; \<open>None\<close> while the thread is blocked or gone.\<close>

definition worker_turn :: "'p run_args \<Rightarrow> nat \<Rightarrow> 'p runner \<Rightarrow> 'p runner option" where
  "worker_turn a i s =
     (if i < length (rn_pcs s) then
        (case rn_pcs s ! i of
           Idle \<Rightarrow> Some (if rn_stopping s \<or> rn_next_dispatch s \<ge> ra_count a
             then s\<lparr>rn_pcs := (rn_pcs s)[i := Exited]\<rparr> else take_rank a i s)
         | Extracting r \<Rightarrow> Some (s\<lparr>rn_pcs := (rn_pcs s)[i := Waiting r (guarded_extract a i r)]\<rparr>)
         | Waiting r result \<Rightarrow>
             if rn_stopping s then Some (give_up i r s)
             else if admitted (ra_plan a) s r result then Some (enter_buffer i r result s) else None
         | Exited \<Rightarrow> None)
      else None)"

definition publisher_turn :: "'p run_args \<Rightarrow> bool \<Rightarrow> nat \<Rightarrow> ParallelRunStatus \<Rightarrow> 'p runner \<Rightarrow> 'p runner option" where
  "publisher_turn a is_cancelled items stop_status s =
     (case rn_phase s of
        Poll \<Rightarrow> Some (if is_cancelled
          then s\<lparr>rn_phase := Joining, rn_stopping := True, rn_status := cancelled_status\<rparr>
          else s\<lparr>rn_phase := Collect [] 0\<rparr>)
      | Collect win win_bytes \<Rightarrow>
          if window_ends a s win win_bytes
          then Some (if win = [] then s\<lparr>rn_phase := Joining, rn_stopping := True\<rparr> else open_window win win_bytes s)
          else map_option (\<lambda>result. take_ready win win_bytes result s) (map_of (rn_ready s) (rn_next_publish s))
      | Publishing win \<Rightarrow> Some (window_published win items stop_status s)
      | Joining \<Rightarrow> if list_all (\<lambda>pc. pc = Exited) (rn_pcs s) then Some (drain s) else None
      | Finished \<Rightarrow> None)"

lemma worker_turns:
  assumes "i < length (rn_pcs s)"
  shows "rn_pcs s ! i = Idle \<Longrightarrow> \<not> rn_stopping s \<Longrightarrow> rn_next_dispatch s < ra_count a \<Longrightarrow>
      worker_turn a i s = Some (take_rank a i s)"
    and "rn_pcs s ! i = Idle \<Longrightarrow> rn_stopping s \<or> rn_next_dispatch s \<ge> ra_count a \<Longrightarrow>
      worker_turn a i s = Some (s\<lparr>rn_pcs := (rn_pcs s)[i := Exited]\<rparr>)"
    and "rn_pcs s ! i = Extracting r \<Longrightarrow>
      worker_turn a i s = Some (s\<lparr>rn_pcs := (rn_pcs s)[i := Waiting r (guarded_extract a i r)]\<rparr>)"
    and "rn_pcs s ! i = Waiting r result \<Longrightarrow> \<not> rn_stopping s \<Longrightarrow> admitted (ra_plan a) s r result \<Longrightarrow>
      worker_turn a i s = Some (enter_buffer i r result s)"
    and "rn_pcs s ! i = Waiting r result \<Longrightarrow> rn_stopping s \<Longrightarrow> worker_turn a i s = Some (give_up i r s)"
  using assms by (simp_all add: worker_turn_def)

lemma publisher_turns:
  "rn_phase s = Poll \<Longrightarrow> publisher_turn a True n st s
     = Some (s\<lparr>rn_phase := Joining, rn_stopping := True, rn_status := cancelled_status\<rparr>)"
  "rn_phase s = Poll \<Longrightarrow> publisher_turn a False n st s = Some (s\<lparr>rn_phase := Collect [] 0\<rparr>)"
  "rn_phase s = Collect win b \<Longrightarrow> \<not> window_ends a s win b \<Longrightarrow> map_of (rn_ready s) (rn_next_publish s) = Some x \<Longrightarrow>
     publisher_turn a c n st s = Some (take_ready win b x s)"
  "rn_phase s = Collect win b \<Longrightarrow> window_ends a s win b \<Longrightarrow> win \<noteq> [] \<Longrightarrow>
     publisher_turn a c n st s = Some (open_window win b s)"
  "rn_phase s = Collect [] b \<Longrightarrow> window_ends a s [] b \<Longrightarrow>
     publisher_turn a c n st s = Some (s\<lparr>rn_phase := Joining, rn_stopping := True\<rparr>)"
  "rn_phase s = Publishing win \<Longrightarrow> publisher_turn a c n st s = Some (window_published win n st s)"
  "rn_phase s = Joining \<Longrightarrow> list_all (\<lambda>pc. pc = Exited) (rn_pcs s) \<Longrightarrow> publisher_turn a c n st s = Some (drain s)"
  by (simp_all add: publisher_turn_def)

lemma worker_turn_step: "worker_turn a i s = Some s' \<Longrightarrow> runner_step a s s'"
  by (auto simp: worker_turn_def intro: runner_step.intros split: if_splits worker_pc.splits)

lemma publisher_turn_step: "publisher_turn a c items st s = Some s' \<Longrightarrow> runner_step a s s'"
  by (auto simp: publisher_turn_def intro: runner_step.intros split: if_splits phase.splits)

datatype turn = Worker nat | Publisher bool nat ParallelRunStatus

fun take_turn :: "'p run_args \<Rightarrow> turn \<Rightarrow> 'p runner \<Rightarrow> 'p runner option" where
  "take_turn a (Worker i) s = worker_turn a i s"
| "take_turn a (Publisher c items st) s = publisher_turn a c items st s"

fun schedule :: "'p run_args \<Rightarrow> turn list \<Rightarrow> 'p runner \<Rightarrow> 'p runner option" where
  "schedule a [] s = Some s"
| "schedule a (t # ts) s = Option.bind (take_turn a t s) (schedule a ts)"

lemma take_turn_step: "take_turn a t s = Some s' \<Longrightarrow> runner_step a s s'"
  by (cases t) (auto intro: worker_turn_step publisher_turn_step)

lemma schedule_runs_from: "runs a n s \<Longrightarrow> schedule a ts s = Some s' \<Longrightarrow> runs a (n + length ts) s'"
proof (induction ts arbitrary: n s)
  case (Cons t ts)
  then show ?case by (fastforce simp: bind_eq_Some_conv dest: take_turn_step runs.goes)
qed simp

lemma schedule_runs: "schedule a ts (runner_start a) = Some s \<Longrightarrow> runs a (length ts) s"
  using schedule_runs_from [OF runs.begins] by fastforce

text \<open>Two items on two workers, the later one extracted first.\<close>

definition sample_args :: "nat run_args" where
  "sample_args =
     \<lparr>ra_plan = \<lparr>pp_workers = 2, pp_max_queue_items = 2, pp_max_queue_bytes = 100, pp_memory_budget_bytes = 0,
        pp_reserved_bytes_per_worker = 10, pp_selection_reason = ''explicit --jobs''\<rparr>,
      ra_count = 2, ra_max_window_items = 4, ra_blank = 0,
      ra_extract = (\<lambda>w r. if r = 0 then Inl (Std_exception ''boom'')
        else Inr \<lparr>rs_payload = r, rs_bytes = 7, rs_error = None\<rparr>)\<rparr>"

definition sample_turns :: "turn list" where
  "sample_turns =
     [Worker 0, Worker 1, Worker 1, Worker 1, Publisher False 0 status_none, Worker 0, Worker 0]
     @ replicate 4 (Publisher False 2 status_none) @ replicate 2 (Publisher False 0 status_none)
     @ [Worker 0, Worker 1, Publisher False 0 status_none]"

definition sample_end :: "nat runner" where
  "sample_end = the (schedule sample_args sample_turns (runner_start sample_args))"

lemma sample_end_runs: "runs sample_args 16 sample_end"
proof -
  have "schedule sample_args sample_turns (runner_start sample_args) \<noteq> None" by code_simp
  then have "runs sample_args (length sample_turns) sample_end"
    by (intro schedule_runs) (simp add: sample_end_def)
  then show ?thesis by (simp add: sample_turns_def)
qed

lemma sample_end_values:
  "rn_phase sample_end = Finished" "rn_published sample_end = [0, 1]" "rn_status sample_end = status_none"
  by code_simp+

subsection \<open>Properties\<close>

text \<open>(C2) Results are published in rank order without a gap or a repetition, whatever the interleaving
  of the workers; and when the run has ended each dispatched rank has been either handed to
  \<^verbatim>\<open>publish\<close> or to \<^verbatim>\<open>on_abandon\<close>, exactly once. A run that reports \<^verbatim>\<open>none\<close> has published
  every rank and abandoned none.\<close>

theorem published_in_rank_order:
  assumes "runs a n s"
  shows "rn_published s = [0 ..< length (rn_published s)]
    \<and> (rn_phase s = Finished \<longrightarrow> mset (rn_published s @ rn_abandoned s) = mset [0 ..< rn_next_dispatch s])
    \<and> (rn_phase s = Finished \<and> rn_status s = status_none \<longrightarrow>
        rn_published s = [0 ..< ra_count a] \<and> rn_abandoned s = [])"
proof -
  note inv = runs_inv [OF assms]
  have pub: "rn_published s @ map fst (phase_window (rn_phase s)) = [0 ..< rn_next_publish s]"
    using inv by (simp add: rank_inv_def)
  then have "rn_published s = take (length (rn_published s)) [0 ..< rn_next_publish s]"
    by (metis append_eq_conv_conj)
  moreover have "length (rn_published s) \<le> rn_next_publish s" using arg_cong [OF pub, of length] by simp
  ultimately have order: "rn_published s = [0 ..< length (rn_published s)]" by (simp add: take_upt)
  have once: "mset (rn_published s @ rn_abandoned s) = mset [0 ..< rn_next_dispatch s]"
    and all: "rn_status s = status_none \<Longrightarrow> rn_published s = [0 ..< ra_count a]" if fin: "rn_phase s = Finished"
  proof -
    have "held (rn_pcs s) = []" using inv fin
      by (auto simp: ctl_inv_def held_def concat_eq_Nil_conv list_all_iff)
    then show "mset (rn_published s @ rn_abandoned s) = mset [0 ..< rn_next_dispatch s]"
      using inv pub fin by (simp add: rank_inv_def ctl_inv_def)
    show "rn_published s = [0 ..< ra_count a]" if "rn_status s = status_none"
      using inv pub fin that by (simp add: ctl_inv_def)
  qed
  have "rn_abandoned s = []" if "rn_phase s = Finished" "rn_status s = status_none"
  proof -
    have "length (rn_published s) + length (rn_abandoned s) = rn_next_dispatch s"
      using arg_cong [OF once [OF that(1)], of size] by simp
    moreover have "rn_next_dispatch s \<le> ra_count a" using inv by (simp add: ctl_inv_def)
    moreover have "length (rn_published s) = ra_count a" using all [OF that] by simp
    ultimately have "length (rn_abandoned s) = 0" by linarith
    then show ?thesis by simp
  qed
  with order once all show ?thesis by blast
qed

lemma published_in_rank_order_witness:
  "rn_published sample_end = [0 ..< ra_count sample_args] \<and> rn_abandoned sample_end = []"
  using published_in_rank_order [OF sample_end_runs] sample_end_values by blast

text \<open>The budgets hold in every state: besides the rank the publisher waits for, the reorder buffer
  never exceeds the plan's item and byte limits; at most one more item is ever buffered, no window
  is larger than asked for, and the recorded memory reservation never exceeds the one of all workers.\<close>

theorem reorder_buffer_bounded:
  assumes "runs a n s"
  shows "length (rn_ready s) \<le> pp_max_queue_items (ra_plan a) + 1
    \<and> (rn_phase s = Finished
       \<or> rn_buffered_bytes s \<le> pp_max_queue_bytes (ra_plan a)
           + (case map_of (rn_ready s) (rn_next_publish s) of None \<Rightarrow> 0 | Some x \<Rightarrow> rs_bytes x))
    \<and> mt_peak_reorder_items (rn_metrics s) \<le> pp_max_queue_items (ra_plan a) + 1
    \<and> mt_peak_publish_window_items (rn_metrics s) \<le> bounded_window_items a
    \<and> mt_peak_reserved_bytes (rn_metrics s) \<le> worker_count a * pp_reserved_bytes_per_worker (ra_plan a)"
proof -
  note inv = runs_inv [OF assms]
  have sorted: "omap_sorted (rn_ready s)" using inv by (simp add: rank_inv_def)
  have "result_bytes (rn_ready s) \<le> pp_max_queue_bytes (ra_plan a)
      + (case map_of (rn_ready s) (rn_next_publish s) of None \<Rightarrow> 0 | Some x \<Rightarrow> rs_bytes x)"
  proof (cases "map_of (rn_ready s) (rn_next_publish s)")
    case None
    then have "overtaken s = rn_ready s" by (force simp: map_of_eq_None_iff intro!: filter_True)
    then show ?thesis using inv None by (simp add: buffer_inv_def)
  next
    case (Some x)
    then show ?thesis using inv result_bytes_erase [OF sorted Some] by (simp add: buffer_inv_def)
  qed
  then show ?thesis using inv length_overtaken [OF sorted] by (auto simp: buffer_inv_def flight_inv_def)
qed

lemma reorder_buffer_bounded_witness:
  "mt_peak_reorder_items (rn_metrics sample_end) \<le> 3 \<and> mt_peak_reserved_bytes (rn_metrics sample_end) \<le> 20"
  using reorder_buffer_bounded [OF sample_end_runs] by (simp add: sample_args_def worker_count_def)

text \<open>(C19) Every run ends: no schedule is longer than nine steps per item plus one per worker plus
  three, and no state before the end is stuck, so backpressure never deadlocks the publisher.\<close>

theorem runner_never_deadlocks:
  assumes "runs a n s"
  shows "n \<le> 9 * ra_count a + worker_count a + 3 \<and> (rn_phase s = Finished \<or> (\<exists>s'. runner_step a s s'))"
  using runs_inv [OF assms] runs_weight [OF assms] progress [of s a] by simp

lemma runner_never_deadlocks_witness:
  "16 \<le> 9 * ra_count sample_args + worker_count sample_args + 3 \<and> (\<exists>s. runner_step sample_args (runner_start sample_args) s)"
  using runner_never_deadlocks [OF sample_end_runs] runner_never_deadlocks [OF runs.begins [of sample_args]]
  by (simp add: runner_start_def)

text \<open>The executable turns of the worker body and of the publishing loop are exactly the steps of
  the relation.\<close>

theorem runner_step_iff_turn: "runner_step a s s' = (\<exists>t. take_turn a t s = Some s')"
proof
  show "\<exists>t. take_turn a t s = Some s' \<Longrightarrow> runner_step a s s'" by (blast intro: take_turn_step)
next
  assume "runner_step a s s'"
  then have "(\<exists>i. worker_turn a i s = Some s') \<or> (\<exists>c items st. publisher_turn a c items st s = Some s')"
    by (induction rule: runner_step.induct) (blast intro: worker_turns publisher_turns)+
  then show "\<exists>t. take_turn a t s = Some s'" by (metis take_turn.simps)
qed

end
