(* ===== verification/Canonical_Order.thy ===== *)
theory Canonical_Order
  imports Prelude "HOL-Library.Multiset"
begin

text \<open>
  Sorting records by a tuple of all their fields and dropping equal neighbours
  (\<^verbatim>\<open>std::ranges::sort\<close> with a \<^verbatim>\<open>std::tie\<close> projection, then \<^verbatim>\<open>unique\<close>/\<^verbatim>\<open>erase\<close>): the
  result depends on the set of the records only.
\<close>

definition sort_unique_by :: "('a \<Rightarrow> 'k::linorder) \<Rightarrow> 'a list \<Rightarrow> 'a list" where
  "sort_unique_by f xs = unique_runs (sort_key f xs)"

lemma map_sort_key: "map f (sort_key f xs) = sort (map f xs)"
  by (rule properties_for_sort [symmetric]) simp_all

lemma unique_runs_map: "inj f \<Longrightarrow> unique_runs (map f xs) = map f (unique_runs xs)"
  by (induction xs rule: unique_runs.induct) (auto dest: injD)

lemma map_sort_unique_by: "inj f \<Longrightarrow> map f (sort_unique_by f xs) = sort_unique (map f xs)"
  by (simp add: sort_unique_by_def sort_unique_def map_sort_key flip: unique_runs_map)

lemma set_sort_unique_by [simp]: "set (sort_unique_by f xs) = set xs"
  by (simp add: sort_unique_by_def)

lemma sort_unique_by_eq_iff:
  assumes "inj f"
  shows "sort_unique_by f xs = sort_unique_by f ys \<longleftrightarrow> set xs = set ys"
proof
  assume "set xs = set ys"
  then have "sort_unique (map f xs) = sort_unique (map f ys)" by (simp add: sort_unique_eq_iff)
  then show "sort_unique_by f xs = sort_unique_by f ys"
    using assms by (simp add: inj_map_eq_map flip: map_sort_unique_by [OF assms])
qed (metis set_sort_unique_by)

lemma sort_unique_by_idem: "inj f \<Longrightarrow> sort_unique_by f (sort_unique_by f xs) = sort_unique_by f xs"
  by (simp add: sort_unique_by_eq_iff)

lemma distinct_sort_unique_by: "inj f \<Longrightarrow> distinct (sort_unique_by f xs)"
  by (metis distinct_map distinct_sort_unique map_sort_unique_by)

lemma sorted_sort_unique_by: "inj f \<Longrightarrow> sorted (map f (sort_unique_by f xs))"
  by (simp add: map_sort_unique_by)

end
