(* ===== verification/Dependency_Planner.thy ===== *)
theory Dependency_Planner
  imports Path_Util Canonical_Order
begin

text \<open>
  Which translation units a change reaches (\<^verbatim>\<open>storage/tu_dependency_planner.hpp\<close>,
  \<^verbatim>\<open>tu_dependency_planner.cpp\<close>) and the canonical path both it and the fact cache
  key by (\<^verbatim>\<open>workspace/tu_fact_cache_identity.cpp\<close>). The working directory is an
  argument. Counters are naturals: they count vector elements.
\<close>

definition canonical_tu_cache_path :: "string \<Rightarrow> string \<Rightarrow> string" where
  "canonical_tu_cache_path cwd path = (if path = [] then [] else normpath (abspath cwd path))"

lemma canonical_path_stable:
  assumes "isabs cwd"
  shows "canonical_tu_cache_path cwd (canonical_tu_cache_path cwd p) = canonical_tu_cache_path cwd p"
  using abspath_stable [OF assms, of p] by (auto simp: canonical_tu_cache_path_def)

subsection \<open>Evidence\<close>

datatype DependencyEvidenceState = complete | incomplete | stale | corrupt | unavailable

datatype DependencyFallbackReason =
    no_fallback
  | incomplete_evidence
  | stale_evidence
  | corrupt_evidence
  | unavailable_evidence
  | missing_generation
  | unresolved_dependency

datatype TuDependencyKind = include_kind | macro_kind | generated_kind | toolchain_kind

record TuDependencyEdge =
  de_source :: string
  de_destination :: string
  de_destination_content_sha256 :: string
  de_conditional_context :: string
  de_provenance :: string
  de_kind :: TuDependencyKind
  de_resolved :: bool
  de_system :: bool

record TranslationUnitDependencyEvidence =
  ev_source :: string
  ev_configuration :: string
  ev_generation :: string
  ev_state :: DependencyEvidenceState
  ev_edges :: "TuDependencyEdge list"

text \<open>An affected unit is its source and its configuration, compared in this order.\<close>

type_synonym AffectedTranslationUnit = "string \<times> string"

record TuDependencyPlan =
  dp_affected :: "AffectedTranslationUnit list"
  dp_affected_count :: nat
  dp_proven_unaffected_count :: nat
  dp_visited_dependency_nodes :: nat
  dp_visited_dependency_edges :: nat
  dp_complete :: bool
  dp_fallback_reason :: DependencyFallbackReason

fun fallback_for :: "DependencyEvidenceState \<Rightarrow> DependencyFallbackReason" where
  "fallback_for complete = no_fallback"
| "fallback_for incomplete = incomplete_evidence"
| "fallback_for stale = stale_evidence"
| "fallback_for corrupt = corrupt_evidence"
| "fallback_for unavailable = unavailable_evidence"

fun fallback_reason_name :: "DependencyFallbackReason \<Rightarrow> string" where
  "fallback_reason_name no_fallback = ''none''"
| "fallback_reason_name incomplete_evidence = ''incomplete_evidence''"
| "fallback_reason_name stale_evidence = ''stale_evidence''"
| "fallback_reason_name corrupt_evidence = ''corrupt_evidence''"
| "fallback_reason_name unavailable_evidence = ''unavailable_evidence''"
| "fallback_reason_name missing_generation = ''missing_generation''"
| "fallback_reason_name unresolved_dependency = ''unresolved_dependency''"

fun dependency_kind_name :: "TuDependencyKind \<Rightarrow> string" where
  "dependency_kind_name include_kind = ''include''"
| "dependency_kind_name macro_kind = ''macro''"
| "dependency_kind_name generated_kind = ''generated''"
| "dependency_kind_name toolchain_kind = ''toolchain''"

definition all_targets :: "string \<Rightarrow> TranslationUnitDependencyEvidence list \<Rightarrow> AffectedTranslationUnit list" where
  "all_targets cwd evidence =
     sort_unique (map (\<lambda>unit. (canonical_tu_cache_path cwd (ev_source unit), ev_configuration unit)) evidence)"

definition fallback_plan ::
  "string \<Rightarrow> TranslationUnitDependencyEvidence list \<Rightarrow> DependencyFallbackReason \<Rightarrow> TuDependencyPlan" where
  "fallback_plan cwd evidence reason =
     (let affected = all_targets cwd evidence in
      \<lparr>dp_affected = affected, dp_affected_count = length affected, dp_proven_unaffected_count = 0,
       dp_visited_dependency_nodes = 0, dp_visited_dependency_edges = 0, dp_complete = False,
       dp_fallback_reason = reason\<rparr>)"

text \<open>Edges are ordered by all their fields, the kind by its enumerator, \<^verbatim>\<open>false\<close> before \<^verbatim>\<open>true\<close>.\<close>

fun kind_rank :: "TuDependencyKind \<Rightarrow> nat" where
  "kind_rank include_kind = 0" | "kind_rank macro_kind = 1" | "kind_rank generated_kind = 2" | "kind_rank toolchain_kind = 3"

definition edge_key :: "TuDependencyEdge \<Rightarrow> string \<times> string \<times> string \<times> string \<times> string \<times> nat \<times> bool \<times> bool" where
  "edge_key e = (de_source e, de_destination e, de_destination_content_sha256 e, de_conditional_context e,
     de_provenance e, kind_rank (de_kind e), de_resolved e, de_system e)"

definition canonical_edge :: "string \<Rightarrow> TuDependencyEdge \<Rightarrow> TuDependencyEdge" where
  "canonical_edge cwd e =
     e\<lparr>de_source := canonical_tu_cache_path cwd (de_source e),
       de_destination := canonical_tu_cache_path cwd (de_destination e)\<rparr>"

definition capture_translation_unit_dependency_evidence ::
  "string \<Rightarrow> string \<Rightarrow> string \<Rightarrow> string \<Rightarrow> TuDependencyEdge list \<Rightarrow> bool \<Rightarrow> TranslationUnitDependencyEvidence" where
  "capture_translation_unit_dependency_evidence cwd source configuration generation edges is_complete =
     (let edges' = sort_unique_by edge_key (map (canonical_edge cwd) edges) in
      \<lparr>ev_source = canonical_tu_cache_path cwd source, ev_configuration = configuration, ev_generation = generation,
       ev_state = (if is_complete \<and> list_all de_resolved edges' then complete else incomplete), ev_edges = edges'\<rparr>)"

subsection \<open>Planning\<close>

text \<open>The checks before any search: the first unusable unit decides the reason.\<close>

fun evidence_fault :: "TranslationUnitDependencyEvidence list \<Rightarrow> DependencyFallbackReason option" where
  "evidence_fault [] = None"
| "evidence_fault (unit # rest) =
     (if ev_state unit \<noteq> complete then Some (fallback_for (ev_state unit))
      else if ev_generation unit = [] then Some missing_generation
      else if list_ex (\<lambda>e. \<not> de_resolved e) (ev_edges unit) then Some unresolved_dependency
      else evidence_fault rest)"

definition push_source :: "string \<Rightarrow> (string \<times> string list) list \<Rightarrow> TuDependencyEdge \<Rightarrow> (string \<times> string list) list" where
  "push_source cwd m e =
     (let k = canonical_tu_cache_path cwd (de_destination e) in
      omap_insert k ((case map_of m k of None \<Rightarrow> [] | Some xs \<Rightarrow> xs) @ [canonical_tu_cache_path cwd (de_source e)]) m)"

definition reverse_edges :: "string \<Rightarrow> TuDependencyEdge list \<Rightarrow> (string \<times> string list) list" where
  "reverse_edges cwd edges = map (\<lambda>(k, v). (k, sort_unique v)) (foldl (push_source cwd) [] edges)"

text \<open>\<^verbatim>\<open>visited.insert(source).second\<close> over the incoming sources: the new visited set and the nodes
  appended to the queue.\<close>

fun push_new :: "string list \<Rightarrow> string set \<Rightarrow> string list \<times> string set" where
  "push_new [] visited = ([], visited)"
| "push_new (x # xs) visited =
     (if x \<in> visited then push_new xs visited
      else let (new, visited') = push_new xs (insert x visited) in (x # new, visited'))"

lemma push_new_props:
  "push_new xs visited = (new, visited') \<Longrightarrow>
     visited' = visited \<union> set xs \<and> set new = set xs - visited \<and> distinct new"
  by (induction xs arbitrary: visited new) (auto split: if_splits prod.splits)

text \<open>The queue loop; \<open>pending\<close> is the part of the vector not yet visited.\<close>

function reverse_closure ::
  "(string \<times> string list) list \<Rightarrow> string list \<Rightarrow> string set \<Rightarrow> nat \<times> nat \<Rightarrow> string set \<times> nat \<times> nat" where
  "reverse_closure incoming [] visited counts = (visited, counts)"
| "reverse_closure incoming (node # pending) visited (nodes, edges) =
     (case map_of incoming node of
        None \<Rightarrow> reverse_closure incoming pending visited (nodes + 1, edges)
      | Some sources \<Rightarrow>
          let (new, visited') = push_new sources visited
          in reverse_closure incoming (pending @ new) visited' (nodes + 1, edges + length sources))"
  by pat_completeness auto
termination
proof (relation "measure (\<lambda>(incoming, pending, visited, _). card ((\<Union>(_, v) \<in> set incoming. set v) - visited) + length pending)",
    goal_cases)
  case (3 incoming node pending visited nodes edges sources p new visited')
  let ?U = "\<Union>(_, v) \<in> set incoming. set v"
  have p: "visited' = visited \<union> set sources" "set new = set sources - visited" "distinct new"
    using push_new_props [of sources visited new visited'] 3(2,3) by auto
  have "set sources \<subseteq> ?U" using map_of_SomeD [OF 3(1)] by force
  then have sub: "set new \<subseteq> ?U - visited" "?U - visited' = ?U - visited - set new" using p by auto
  have fin: "finite (?U - visited)" by auto
  have "card (?U - visited') + length new = card (?U - visited)"
    using sub card_Diff_subset [OF _ sub(1)] card_mono [OF fin sub(1)] distinct_card [OF p(3)] by simp
  then show ?case by simp
qed auto

definition unit_step ::
  "string \<Rightarrow> string set \<Rightarrow> AffectedTranslationUnit list \<times> nat \<times> nat \<Rightarrow> TranslationUnitDependencyEvidence
   \<Rightarrow> AffectedTranslationUnit list \<times> nat \<times> nat" where
  "unit_step cwd changed acc unit =
     (let (affected, nodes, edges) = acc;
          (visited, nodes', edges') =
            reverse_closure (reverse_edges cwd (ev_edges unit)) (sorted_list_of_set changed) changed (nodes, edges);
          source = canonical_tu_cache_path cwd (ev_source unit)
      in (if source \<in> visited then affected @ [(source, ev_configuration unit)] else affected, nodes', edges'))"

definition plan_affected_translation_units ::
  "string \<Rightarrow> string list \<Rightarrow> TranslationUnitDependencyEvidence list \<Rightarrow> TuDependencyPlan" where
  "plan_affected_translation_units cwd changed_dependencies evidence =
     (if evidence = [] then fallback_plan cwd evidence unavailable_evidence
      else case evidence_fault evidence of
        Some reason \<Rightarrow> fallback_plan cwd evidence reason
      | None \<Rightarrow>
          let changed = set (map (canonical_tu_cache_path cwd) changed_dependencies);
              (found, nodes, edges) = foldl (unit_step cwd changed) ([], 0, 0) evidence;
              affected = sort_unique found
          in \<lparr>dp_affected = affected, dp_affected_count = length affected,
              dp_proven_unaffected_count = length (all_targets cwd evidence) - length affected,
              dp_visited_dependency_nodes = nodes, dp_visited_dependency_edges = edges, dp_complete = True,
              dp_fallback_reason = no_fallback\<rparr>)"

subsection \<open>The closure of one unit\<close>

definition lookup_all :: "(string \<times> string list) list \<Rightarrow> string \<Rightarrow> string list" where
  "lookup_all m k = (case map_of m k of None \<Rightarrow> [] | Some xs \<Rightarrow> xs)"

lemma lookup_all_push:
  "lookup_all (foldl (push_source cwd) m es) k
     = lookup_all m k @ map (\<lambda>e. canonical_tu_cache_path cwd (de_source e))
         (filter (\<lambda>e. canonical_tu_cache_path cwd (de_destination e) = k) es)"
proof (induction es arbitrary: m)
  case (Cons e es)
  have "lookup_all (push_source cwd m e) k
      = lookup_all m k @ (if canonical_tu_cache_path cwd (de_destination e) = k
          then [canonical_tu_cache_path cwd (de_source e)] else [])"
    by (auto simp: lookup_all_def push_source_def Let_def)
  then show ?case using Cons by simp
qed simp

lemma lookup_all_reverse_edges:
  "set (lookup_all (reverse_edges cwd es) k)
     = (\<lambda>e. canonical_tu_cache_path cwd (de_source e))
         ` {e \<in> set es. canonical_tu_cache_path cwd (de_destination e) = k}"
proof -
  have "map_of (map (\<lambda>(k, v). (k, sort_unique v)) m) k = map_option sort_unique (map_of m k)"
    for m :: "(string \<times> string list) list" by (induction m) auto
  then have "set (lookup_all (reverse_edges cwd es) k) = set (lookup_all (foldl (push_source cwd) [] es) k)"
    by (auto simp: reverse_edges_def lookup_all_def split: option.splits)
  then show ?thesis unfolding lookup_all_push by (auto simp: lookup_all_def)
qed

text \<open>The dependency relation of a unit, from a file to the files that depend on it directly.\<close>

definition dependents :: "string \<Rightarrow> TranslationUnitDependencyEvidence \<Rightarrow> (string \<times> string) set" where
  "dependents cwd unit =
     (\<lambda>e. (canonical_tu_cache_path cwd (de_destination e), canonical_tu_cache_path cwd (de_source e))) ` set (ev_edges unit)"

definition successors :: "(string \<times> string list) list \<Rightarrow> (string \<times> string) set" where
  "successors m = {(k, x). x \<in> set (lookup_all m k)}"

lemma successors_reverse_edges: "successors (reverse_edges cwd (ev_edges unit)) = dependents cwd unit"
  by (auto simp: successors_def dependents_def lookup_all_reverse_edges)

definition closure_inv :: "(string \<times> string) set \<Rightarrow> string set \<Rightarrow> string list \<Rightarrow> string set \<Rightarrow> bool" where
  "closure_inv R start pending visited \<longleftrightarrow>
     start \<subseteq> visited \<and> set pending \<subseteq> visited \<and> visited \<subseteq> R\<^sup>* `` start
     \<and> R `` (visited - set pending) \<subseteq> visited"

lemma closure_inv_final:
  assumes "closure_inv R start [] visited"
  shows "visited = R\<^sup>* `` start"
proof -
  have "y \<in> visited" if "(x, y) \<in> R\<^sup>*" "x \<in> visited" for x y
    using that assms by (induction rule: rtrancl_induct) (auto simp: closure_inv_def)
  then show ?thesis using assms by (auto simp: closure_inv_def)
qed

lemma closure_inv_expand:
  assumes "closure_inv R start (node # pending) visited" "set new = R `` {node} - visited"
  shows "closure_inv R start (pending @ new) (visited \<union> R `` {node})"
proof -
  have "node \<in> R\<^sup>* `` start" using assms by (auto simp: closure_inv_def)
  then have "R `` {node} \<subseteq> R\<^sup>* `` start" by (auto intro: rtrancl_into_rtrancl)
  then show ?thesis using assms unfolding closure_inv_def by auto
qed

lemma reverse_closure_correct:
  assumes "reverse_closure incoming pending visited (nodes, edges) = (visited', nodes', edges')"
    "closure_inv (successors incoming) start pending visited" "finite visited"
  shows "visited' = (successors incoming)\<^sup>* `` start \<and> nodes' + card visited = nodes + card visited' + length pending"
  using assms
proof (induction incoming pending visited "(nodes, edges)" arbitrary: nodes edges rule: reverse_closure.induct)
  case (1 incoming visited)
  then show ?case using closure_inv_final by auto
next
  case (2 incoming node pending visited nodes edges)
  have succ: "successors incoming `` {node} = set (lookup_all incoming node)" by (auto simp: successors_def)
  show ?case
  proof (cases "map_of incoming node")
    case None
    then have "closure_inv (successors incoming) start pending visited"
      using closure_inv_expand [OF 2(4), of "[]"] succ by (simp add: lookup_all_def)
    then show ?thesis using 2(1) [OF None] 2(3,5) None by simp
  next
    case (Some sources)
    obtain new visited1 where pn: "push_new sources visited = (new, visited1)" by fastforce
    note p = push_new_props [OF pn]
    have "closure_inv (successors incoming) start (pending @ new) visited1"
      using closure_inv_expand [OF 2(4), of new] succ Some p by (simp add: lookup_all_def)
    then have IH: "visited' = (successors incoming)\<^sup>* `` start
        \<and> nodes' + card visited1 = nodes + 1 + card visited' + length (pending @ new)"
      using 2(2) [OF Some refl] 2(3,5) Some pn p by simp
    have new: "visited1 = visited \<union> set new" "visited \<inter> set new = {}" using p by auto
    have "card visited1 = card visited + card (set new)"
      unfolding new(1) using 2(5) new(2) by (intro card_Un_disjoint) auto
    moreover have "card (set new) = length new" using p distinct_card by blast
    moreover have "length (pending @ new) = length pending + length new" by simp
    moreover have "length (node # pending) = length pending + 1" by simp
    ultimately show ?thesis using IH by linarith
  qed
qed

subsection \<open>The whole plan\<close>

definition reached :: "string \<Rightarrow> string set \<Rightarrow> TranslationUnitDependencyEvidence \<Rightarrow> string set" where
  "reached cwd changed unit = (dependents cwd unit)\<^sup>* `` changed"

abbreviation unit_target :: "string \<Rightarrow> TranslationUnitDependencyEvidence \<Rightarrow> AffectedTranslationUnit" where
  "unit_target cwd unit \<equiv> (canonical_tu_cache_path cwd (ev_source unit), ev_configuration unit)"

lemma unit_step_eq:
  assumes "finite changed"
  shows "\<exists>edges'. unit_step cwd changed (affected, nodes, edges) unit
    = (affected @ (if fst (unit_target cwd unit) \<in> reached cwd changed unit then [unit_target cwd unit] else []),
       nodes + card (reached cwd changed unit), edges')"
proof -
  let ?inc = "reverse_edges cwd (ev_edges unit)"
  obtain v n e where r: "reverse_closure ?inc (sorted_list_of_set changed) changed (nodes, edges) = (v, n, e)"
    by (cases "reverse_closure ?inc (sorted_list_of_set changed) changed (nodes, edges)") auto
  have "closure_inv (successors ?inc) changed (sorted_list_of_set changed) changed"
    using assms by (auto simp: closure_inv_def)
  from reverse_closure_correct [OF r this assms] have "v = reached cwd changed unit" "n = nodes + card v"
    using assms by (auto simp: reached_def successors_reverse_edges)
  then show ?thesis using r by (simp add: unit_step_def)
qed

lemma fold_unit_step:
  assumes "finite changed"
  shows "\<exists>edges'. foldl (unit_step cwd changed) (affected, nodes, edges) evidence
    = (affected @ map (unit_target cwd) (filter (\<lambda>u. fst (unit_target cwd u) \<in> reached cwd changed u) evidence),
       nodes + sum_list (map (card \<circ> reached cwd changed) evidence), edges')"
proof (induction evidence arbitrary: affected nodes edges)
  case (Cons u evidence)
  obtain edges1 where "unit_step cwd changed (affected, nodes, edges) u
    = (affected @ (if fst (unit_target cwd u) \<in> reached cwd changed u then [unit_target cwd u] else []),
       nodes + card (reached cwd changed u), edges1)" using unit_step_eq [OF assms] by blast
  then show ?case
    using Cons.IH [of "affected @ (if fst (unit_target cwd u) \<in> reached cwd changed u then [unit_target cwd u] else [])"
        "nodes + card (reached cwd changed u)" edges1] by (auto simp: add.assoc)
qed simp

lemma evidence_fault_reason: "evidence_fault evidence = Some r \<Longrightarrow> r \<noteq> no_fallback"
proof (induction evidence)
  case (Cons u evidence)
  then show ?case by (cases "ev_state u") (auto split: if_splits)
qed simp

text \<open>(C17) On usable evidence the plan lists exactly the units whose source reaches a changed file
  through the recorded edges, in order and without repetition, the remaining units are counted as
  proven unaffected, and the visited nodes are those of the closures. On anything else it falls back
  to every unit, never reports completeness and always names a reason.\<close>

theorem plan_affected_exact:
  "let p = plan_affected_translation_units cwd changed evidence in
   if evidence \<noteq> [] \<and> evidence_fault evidence = None then
     dp_complete p \<and> dp_fallback_reason p = no_fallback
     \<and> sorted (dp_affected p) \<and> distinct (dp_affected p)
     \<and> set (dp_affected p) = unit_target cwd ` {u \<in> set evidence. canonical_tu_cache_path cwd (ev_source u)
          \<in> (dependents cwd u)\<^sup>* `` (canonical_tu_cache_path cwd ` set changed)}
     \<and> dp_affected_count p = length (dp_affected p)
     \<and> dp_affected_count p + dp_proven_unaffected_count p = card (unit_target cwd ` set evidence)
     \<and> dp_visited_dependency_nodes p
       = (\<Sum>u\<leftarrow>evidence. card ((dependents cwd u)\<^sup>* `` (canonical_tu_cache_path cwd ` set changed)))
   else
     \<not> dp_complete p \<and> dp_fallback_reason p \<noteq> no_fallback
     \<and> set (dp_affected p) = unit_target cwd ` set evidence \<and> dp_proven_unaffected_count p = 0"
proof (cases "evidence \<noteq> [] \<and> evidence_fault evidence = None")
  case True
  let ?c = "canonical_tu_cache_path cwd ` set changed"
  obtain e where f: "foldl (unit_step cwd ?c) ([], 0, 0) evidence
      = (map (unit_target cwd) (filter (\<lambda>u. fst (unit_target cwd u) \<in> reached cwd ?c u) evidence),
         sum_list (map (card \<circ> reached cwd ?c) evidence), e)"
    using fold_unit_step [of ?c cwd "[]" 0 0 evidence] by auto
  let ?hit = "{u \<in> set evidence. canonical_tu_cache_path cwd (ev_source u) \<in> (dependents cwd u)\<^sup>* `` ?c}"
  let ?found = "map (unit_target cwd) (filter (\<lambda>u. fst (unit_target cwd u) \<in> reached cwd ?c u) evidence)"
  have found: "set ?found = unit_target cwd ` ?hit" by (auto simp: reached_def)
  have len: "length (sort_unique ?found) = card (unit_target cwd ` ?hit)"
    "length (all_targets cwd evidence) = card (unit_target cwd ` set evidence)"
    unfolding all_targets_def length_sort_unique found by simp_all
  have le: "card (unit_target cwd ` ?hit) \<le> card (unit_target cwd ` set evidence)"
    by (intro card_mono image_mono) auto
  have p: "plan_affected_translation_units cwd changed evidence =
      \<lparr>dp_affected = sort_unique ?found, dp_affected_count = length (sort_unique ?found),
       dp_proven_unaffected_count = length (all_targets cwd evidence) - length (sort_unique ?found),
       dp_visited_dependency_nodes = sum_list (map (card \<circ> reached cwd ?c) evidence),
       dp_visited_dependency_edges = e, dp_complete = True, dp_fallback_reason = no_fallback\<rparr>"
    using True f by (simp add: plan_affected_translation_units_def Let_def)
  have nodes: "sum_list (map (card \<circ> reached cwd ?c) evidence) = (\<Sum>u\<leftarrow>evidence. card ((dependents cwd u)\<^sup>* `` ?c))"
    by (simp add: comp_def reached_def)
  show ?thesis unfolding p Let_def if_P [OF True] using le
    by (simp only: TuDependencyPlan.simps found len set_sort_unique sorted_sort_unique distinct_sort_unique
        nodes le_add_diff_inverse simp_thms)
next
  case False
  then show ?thesis
    by (auto simp: plan_affected_translation_units_def fallback_plan_def all_targets_def Let_def
        dest: evidence_fault_reason split: option.splits)
qed

subsection \<open>Capture\<close>

lemma inj_edge_key: "inj edge_key"
proof (rule injI)
  fix e f assume "edge_key e = edge_key f"
  moreover have "kind_rank k = kind_rank l \<Longrightarrow> k = l" for k l by (cases k; cases l) auto
  ultimately show "e = f" by (simp add: edge_key_def)
qed

lemma canonical_edge_stable: "isabs cwd \<Longrightarrow> canonical_edge cwd (canonical_edge cwd e) = canonical_edge cwd e"
  by (simp add: canonical_edge_def canonical_path_stable)

lemma resolved_canonical_edge [simp]: "de_resolved (canonical_edge cwd e) = de_resolved e"
  by (simp add: canonical_edge_def)

lemma capture_again:
  assumes "isabs cwd"
  shows "sort_unique_by edge_key (map (canonical_edge cwd) (sort_unique_by edge_key (map (canonical_edge cwd) es)))
    = sort_unique_by edge_key (map (canonical_edge cwd) es)"
  using canonical_edge_stable [OF assms] by (simp add: sort_unique_by_eq_iff [OF inj_edge_key] image_image)

text \<open>Captured evidence is canonical: it depends on the set of canonical edges only, holds each
  edge once and is not changed by capturing it again; it is complete exactly when the caller says so
  and every edge is resolved; and it leads the planner over the same dependency relation.\<close>

theorem capture_canonical:
  assumes "isabs cwd" "canonical_edge cwd ` set es = canonical_edge cwd ` set es'"
  shows "let u = capture_translation_unit_dependency_evidence cwd src cfg gen es whole in
    u = capture_translation_unit_dependency_evidence cwd src cfg gen es' whole
    \<and> distinct (ev_edges u)
    \<and> capture_translation_unit_dependency_evidence cwd (ev_source u) (ev_configuration u) (ev_generation u) (ev_edges u) whole = u
    \<and> (ev_state u = complete) = (whole \<and> list_all de_resolved es)
    \<and> dependents cwd u = (\<lambda>e. (canonical_tu_cache_path cwd (de_destination e), canonical_tu_cache_path cwd (de_source e))) ` set es"
proof -
  let ?es = "sort_unique_by edge_key (map (canonical_edge cwd) es)"
  have same: "sort_unique_by edge_key (map (canonical_edge cwd) es') = ?es"
    using assms(2) by (simp add: sort_unique_by_eq_iff [OF inj_edge_key])
  have resolved: "list_all de_resolved ?es = list_all de_resolved es" by (simp add: list_all_iff)
  show ?thesis
    using distinct_sort_unique_by [OF inj_edge_key, of "map (canonical_edge cwd) es"] resolved canonical_path_stable [OF assms(1)]
    by (simp add: capture_translation_unit_dependency_evidence_def Let_def same capture_again [OF assms(1)]
        dependents_def image_image canonical_edge_def)
qed

definition sample_edge :: "string \<Rightarrow> TuDependencyEdge" where
  "sample_edge src = \<lparr>de_source = src, de_destination = ''/w/b.h'', de_destination_content_sha256 = ''0'',
     de_conditional_context = [], de_provenance = [], de_kind = include_kind, de_resolved = True, de_system = False\<rparr>"

lemma capture_canonical_witness:
  "ev_state (capture_translation_unit_dependency_evidence ''/w'' ''a.cpp'' [] ''g''
     [sample_edge ''a.cpp'', sample_edge ''/w/./a.cpp''] True) = complete
   \<and> distinct (ev_edges (capture_translation_unit_dependency_evidence ''/w'' ''a.cpp'' [] ''g''
     [sample_edge ''a.cpp'', sample_edge ''/w/./a.cpp''] True))"
proof -
  let ?es = "[sample_edge ''a.cpp'', sample_edge ''/w/./a.cpp'']"
  have wd: "isabs ''/w''" by code_simp
  have "canonical_edge ''/w'' (sample_edge ''a.cpp'') = canonical_edge ''/w'' (sample_edge ''/w/./a.cpp'')"
    by code_simp
  then have "canonical_edge ''/w'' ` set ?es = canonical_edge ''/w'' ` set [sample_edge ''a.cpp'']" by simp
  note canonical = capture_canonical [OF wd this, of "''a.cpp''" "[]" "''g''" True]
  have "list_all de_resolved ?es" by (simp add: sample_edge_def)
  with canonical show ?thesis unfolding Let_def by blast
qed

end
