(* ===== verification/Hashing.thy ===== *)
theory Hashing
  imports Prelude "HOL-Library.Word"
begin

unbundle bit_operations_syntax

text \<open>
  The SHA-256 context of \<^verbatim>\<open>util/hashing.cpp\<close> on 32-bit words, its hex digests and the
  loops that hash an open descriptor. The block buffer, the number of buffered bytes
  and the 64-bit length counter are kept as the class keeps them; \<^verbatim>\<open>update\<close> is a loop
  that could spin on a full buffer, so it is a partial function, shown to return. The
  results of \<^verbatim>\<open>pread\<close> are a script. MD5 and SHA-1 are vendored C code.
\<close>

type_synonym byte = "8 word"
type_synonym u32 = "32 word"

record Sha256 =
  sh_state :: "u32 list"
  sh_block :: "byte list"
  sh_buffered :: nat
  sh_bit_count :: "64 word"

definition kRoundConstants :: "u32 list" where
  "kRoundConstants =
     concat
      [[0x428a2f98, 0x71374491, 0xb5c0fbcf, 0xe9b5dba5, 0x3956c25b, 0x59f111f1],
       [0x923f82a4, 0xab1c5ed5, 0xd807aa98, 0x12835b01, 0x243185be, 0x550c7dc3],
       [0x72be5d74, 0x80deb1fe, 0x9bdc06a7, 0xc19bf174, 0xe49b69c1, 0xefbe4786],
       [0x0fc19dc6, 0x240ca1cc, 0x2de92c6f, 0x4a7484aa, 0x5cb0a9dc, 0x76f988da],
       [0x983e5152, 0xa831c66d, 0xb00327c8, 0xbf597fc7, 0xc6e00bf3, 0xd5a79147],
       [0x06ca6351, 0x14292967, 0x27b70a85, 0x2e1b2138, 0x4d2c6dfc, 0x53380d13],
       [0x650a7354, 0x766a0abb, 0x81c2c92e, 0x92722c85, 0xa2bfe8a1, 0xa81a664b],
       [0xc24b8b70, 0xc76c51a3, 0xd192e819, 0xd6990624, 0xf40e3585, 0x106aa070],
       [0x19a4c116, 0x1e376c08, 0x2748774c, 0x34b0bcb5, 0x391c0cb3, 0x4ed8aa4a],
       [0x5b9cca4f, 0x682e6ff3, 0x748f82ee, 0x78a5636f, 0x84c87814, 0x8cc70208],
       [0x90befffa, 0xa4506ceb, 0xbef9a3f7, 0xc67178f2]]"

definition initial_state :: "u32 list" where
  "initial_state = [0x6a09e667, 0xbb67ae85, 0x3c6ef372, 0xa54ff53a, 0x510e527f, 0x9b05688c, 0x1f83d9ab, 0x5be0cd19]"

definition new_context :: Sha256 where
  "new_context = \<lparr>sh_state = initial_state, sh_block = replicate 64 0, sh_buffered = 0, sh_bit_count = 0\<rparr>"

definition rotate_right :: "u32 \<Rightarrow> nat \<Rightarrow> u32" where
  "rotate_right value shift = drop_bit shift value OR push_bit (32 - shift) value"

subsection \<open>The compression function\<close>

definition big_endian32 :: "byte list \<Rightarrow> nat \<Rightarrow> u32" where
  "big_endian32 block offset =
     push_bit 24 (ucast (block ! offset)) OR push_bit 16 (ucast (block ! (offset + 1)))
     OR push_bit 8 (ucast (block ! (offset + 2))) OR ucast (block ! (offset + 3))"

fun extend_schedule :: "nat \<Rightarrow> u32 list \<Rightarrow> u32 list" where
  "extend_schedule 0 schedule = schedule"
| "extend_schedule (Suc n) schedule =
     (let i = length schedule; a = schedule ! (i - 15); b = schedule ! (i - 2);
          s0 = rotate_right a 7 XOR rotate_right a 18 XOR drop_bit 3 a;
          s1 = rotate_right b 17 XOR rotate_right b 19 XOR drop_bit 10 b
      in extend_schedule n (schedule @ [schedule ! (i - 16) + s0 + schedule ! (i - 7) + s1]))"

definition message_schedule :: "byte list \<Rightarrow> u32 list" where
  "message_schedule block = extend_schedule 48 (map (\<lambda>i. big_endian32 block (i * 4)) [0 ..< 16])"

definition round_step :: "u32 list \<Rightarrow> u32 \<times> u32 \<Rightarrow> u32 list" where
  "round_step working kw =
     (let (k, w) = kw; a = working ! 0; b = working ! 1; c = working ! 2; e = working ! 4; f = working ! 5; g = working ! 6;
          s1 = rotate_right e 6 XOR rotate_right e 11 XOR rotate_right e 25;
          chosen = (e AND f) XOR (NOT e AND g);
          temp1 = working ! 7 + s1 + chosen + k + w;
          s0 = rotate_right a 2 XOR rotate_right a 13 XOR rotate_right a 22;
          majority = (a AND b) XOR (a AND c) XOR (b AND c);
          temp2 = s0 + majority
      in [temp1 + temp2, a, b, c, working ! 3 + temp1, e, f, g])"

definition transform :: "u32 list \<Rightarrow> byte list \<Rightarrow> u32 list" where
  "transform state block =
     map2 (+) state (foldl round_step state (zip kRoundConstants (message_schedule block)))"

subsection \<open>Streaming\<close>

partial_function (option) update_loop :: "byte list \<Rightarrow> Sha256 \<Rightarrow> Sha256 option" where
  "update_loop bytes c =
     (if bytes = [] then Some c
      else let count = min (length bytes) (64 - sh_buffered c);
               block = take (sh_buffered c) (sh_block c) @ take count bytes @ drop (sh_buffered c + count) (sh_block c);
               buffered = sh_buffered c + count
           in update_loop (drop count bytes)
                (if buffered = 64 then c\<lparr>sh_state := transform (sh_state c) block, sh_block := block, sh_buffered := 0\<rparr>
                 else c\<lparr>sh_block := block, sh_buffered := buffered\<rparr>))"

declare update_loop.simps [code]

definition update :: "byte list \<Rightarrow> Sha256 \<Rightarrow> Sha256 option" where
  "update bytes c = update_loop bytes (c\<lparr>sh_bit_count := sh_bit_count c + of_nat (length bytes) * 8\<rparr>)"

definition length_bytes :: "64 word \<Rightarrow> byte list" where
  "length_bytes n = map (\<lambda>i. ucast (drop_bit (56 - 8 * i) n AND 0xff)) [0 ..< 8]"

definition final :: "Sha256 \<Rightarrow> u32 list" where
  "final c =
     (let block = (sh_block c)[sh_buffered c := 0x80]; buffered = sh_buffered c + 1;
          (state, block, buffered) =
            (if buffered > 56
             then let full = take buffered block @ replicate (64 - buffered) 0 in (transform (sh_state c) full, full, 0)
             else (sh_state c, block, buffered));
          last_block = take buffered block @ replicate (56 - buffered) 0 @ length_bytes (sh_bit_count c)
      in transform state last_block)"

subsection \<open>Hex digests\<close>

definition kHex :: string where
  "kHex = ''0123456789abcdef''"

definition word_hex :: "u32 \<Rightarrow> string" where
  "word_hex word = map (\<lambda>i. kHex ! unat (drop_bit (28 - 4 * i) word AND 0x0f)) [0 ..< 8]"

definition digest_to_hex_32 :: "u32 list \<Rightarrow> string" where
  "digest_to_hex_32 digest = concat (map word_hex digest)"

definition digest_to_hex :: "byte list \<Rightarrow> string" where
  "digest_to_hex digest = concat (map (\<lambda>byte. [kHex ! unat (drop_bit 4 byte), kHex ! unat (byte AND 0x0F)]) digest)"

definition string_bytes :: "string \<Rightarrow> byte list" where
  "string_bytes s = map (\<lambda>c. word_of_nat (of_char c)) s"

definition tagged :: "Sha256 \<Rightarrow> string" where
  "tagged c = ''sha256:'' @ digest_to_hex_32 (final c)"

definition sha256_bytes_hex :: "byte list \<Rightarrow> string option" where
  "sha256_bytes_hex data = map_option tagged (update data new_context)"

definition sha256_hex :: "string \<Rightarrow> string option" where
  "sha256_hex data = sha256_bytes_hex (string_bytes data)"

subsection \<open>Hashing a descriptor\<close>

text \<open>One result of \<^verbatim>\<open>pread\<close>: bytes, an interrupted call, or a failure; no bytes mean end of file.
  The loop runs over the results the calls will have; it is still running when they are used up.\<close>

datatype pread_result = Pread "byte list" | Eintr | Eerror

datatype 'a outcome = Running | Returned 'a

record file_stat =
  fs_ok :: bool
  fs_regular :: bool
  fs_size :: int

fun pread_loop :: "nat \<Rightarrow> pread_result list \<Rightarrow> nat \<Rightarrow> Sha256 \<Rightarrow> string option outcome" where
  "pread_loop limit [] offset c = (if offset < limit then Running else Returned (Some (tagged c)))"
| "pread_loop limit (r # script) offset c =
     (if offset < limit then
        case r of
          Eintr \<Rightarrow> pread_loop limit script offset c
        | Eerror \<Rightarrow> Returned None
        | Pread bytes \<Rightarrow>
            if bytes = [] then Returned None
            else (case update bytes c of
                None \<Rightarrow> Running
              | Some c' \<Rightarrow> pread_loop limit script (offset + length bytes) c')
      else Returned (Some (tagged c)))"

definition sha256_of_fd :: "int \<Rightarrow> file_stat \<Rightarrow> pread_result list \<Rightarrow> string option outcome" where
  "sha256_of_fd fd st script =
     (if fd < 0 \<or> \<not> fs_ok st \<or> \<not> fs_regular st \<or> fs_size st < 0 then Returned None
      else pread_loop (nat (fs_size st)) script 0 new_context)"

definition sha256_of_fd_prefix :: "int \<Rightarrow> file_stat \<Rightarrow> nat \<Rightarrow> pread_result list \<Rightarrow> string option outcome" where
  "sha256_of_fd_prefix fd st byte_count script =
     (if fd < 0 \<or> \<not> fs_ok st \<or> \<not> fs_regular st \<or> fs_size st < 0 \<or> fs_size st < int byte_count then Returned None
      else pread_loop byte_count script 0 new_context)"

subsection \<open>The reference: padding and blocks of the whole message\<close>

function blocks64 :: "byte list \<Rightarrow> byte list list" where
  "blocks64 xs = (if length xs < 64 then [] else take 64 xs # blocks64 (drop 64 xs))"
  by pat_completeness auto
termination by (relation "measure length") auto

declare blocks64.simps [simp del]

definition pad :: "byte list \<Rightarrow> byte list" where
  "pad msg = msg @ [0x80] @ replicate ((119 - length msg mod 64) mod 64) 0 @ length_bytes (of_nat (length msg) * 8)"

definition sha256_reference :: "byte list \<Rightarrow> u32 list" where
  "sha256_reference msg = foldl transform initial_state (blocks64 (pad msg))"

lemma blocks64_short: "length xs < 64 \<Longrightarrow> blocks64 xs = []"
  by (simp add: blocks64.simps)

lemma blocks64_one: "length xs = 64 \<Longrightarrow> blocks64 xs = [xs]"
  by (subst blocks64.simps) (simp add: blocks64_short)

lemma blocks64_append: "64 dvd length xs \<Longrightarrow> blocks64 (xs @ ys) = blocks64 xs @ blocks64 ys"
proof (induction xs rule: blocks64.induct)
  case (1 xs)
  show ?case
  proof (cases "xs = []")
    case False
    then have len: "64 \<le> length xs" using 1(2) by (auto dest: dvd_imp_le)
    then have "blocks64 (drop 64 xs @ ys) = blocks64 (drop 64 xs) @ blocks64 ys"
      using 1 by (simp add: dvd_minus_self)
    then show ?thesis using len by (subst (1 2) blocks64.simps) simp
  qed (simp add: blocks64_short)
qed

text \<open>A context has absorbed a message: its whole blocks are compressed, the rest is buffered.\<close>

definition absorbed :: "Sha256 \<Rightarrow> byte list \<Rightarrow> bool" where
  "absorbed c msg \<longleftrightarrow>
     (\<exists>pre. msg = pre @ take (sh_buffered c) (sh_block c) \<and> 64 dvd length pre
        \<and> sh_state c = foldl transform initial_state (blocks64 pre))
     \<and> sh_buffered c < 64 \<and> length (sh_block c) = 64"

lemma absorbed_new: "absorbed new_context []"
  by (simp add: absorbed_def new_context_def blocks64_short)

lemma absorb_chunk:
  assumes "absorbed c msg" "chunk \<noteq> []" "length chunk \<le> 64 - sh_buffered c"
  defines "block \<equiv> take (sh_buffered c) (sh_block c) @ chunk @ drop (sh_buffered c + length chunk) (sh_block c)"
    and "buffered \<equiv> sh_buffered c + length chunk"
  shows "absorbed (if buffered = 64 then c\<lparr>sh_state := transform (sh_state c) block, sh_block := block, sh_buffered := 0\<rparr>
                   else c\<lparr>sh_block := block, sh_buffered := buffered\<rparr>) (msg @ chunk)"
proof -
  obtain pre where pre: "msg = pre @ take (sh_buffered c) (sh_block c)" "64 dvd length pre"
    "sh_state c = foldl transform initial_state (blocks64 pre)" using assms(1) by (auto simp: absorbed_def)
  have len: "sh_buffered c < 64" "length (sh_block c) = 64" using assms(1) by (auto simp: absorbed_def)
  have block: "length block = 64" "take buffered block = take (sh_buffered c) (sh_block c) @ chunk"
    using len assms(3) by (auto simp: block_def buffered_def)
  show ?thesis
  proof (cases "buffered = 64")
    case True
    then have "msg @ chunk = pre @ block" using pre(1) block by simp
    moreover have "blocks64 (pre @ block) = blocks64 pre @ [block]"
      using blocks64_append [OF pre(2)] blocks64_one [OF block(1)] by simp
    ultimately show ?thesis using True pre(2,3) block(1) by (auto simp: absorbed_def)
  next
    case False
    then have "buffered < 64" using assms(3) len(1) by (simp add: buffered_def)
    then show ?thesis using False pre block by (auto simp: absorbed_def)
  qed
qed

lemma bit_count_step:
  "sh_bit_count (if b then c\<lparr>sh_state := s, sh_block := bl, sh_buffered := 0\<rparr> else c\<lparr>sh_block := bl, sh_buffered := n\<rparr>)
     = sh_bit_count c"
  by simp

lemma update_loop_absorbs:
  "absorbed c msg \<Longrightarrow>
     \<exists>c'. update_loop bytes c = Some c' \<and> absorbed c' (msg @ bytes) \<and> sh_bit_count c' = sh_bit_count c"
proof (induction "length bytes" arbitrary: bytes c msg rule: less_induct)
  case less
  show ?case
  proof (cases "bytes = []")
    case True
    then show ?thesis using less.prems by (simp add: update_loop.simps)
  next
    case False
    let ?n = "min (length bytes) (64 - sh_buffered c)"
    let ?block = "take (sh_buffered c) (sh_block c) @ take ?n bytes @ drop (sh_buffered c + ?n) (sh_block c)"
    let ?c = "if sh_buffered c + ?n = 64
      then c\<lparr>sh_state := transform (sh_state c) ?block, sh_block := ?block, sh_buffered := 0\<rparr>
      else c\<lparr>sh_block := ?block, sh_buffered := sh_buffered c + ?n\<rparr>"
    have n: "0 < ?n" "length (take ?n bytes) = ?n" "take ?n bytes \<noteq> []"
      using False less.prems by (auto simp: absorbed_def)
    then have "length (take ?n bytes) \<le> 64 - sh_buffered c" by simp
    from absorb_chunk [OF less.prems n(3) this] have "absorbed ?c (msg @ take ?n bytes)" unfolding n(2) .
    moreover have "length (drop ?n bytes) < length bytes" using n(1) False by simp
    ultimately obtain c' where c': "update_loop (drop ?n bytes) ?c = Some c'"
      "absorbed c' ((msg @ take ?n bytes) @ drop ?n bytes)" "sh_bit_count c' = sh_bit_count ?c"
      using less.hyps by blast
    have "update_loop bytes c = Some c'"
      by (subst update_loop.simps) (simp only: False if_False Let_def c'(1))
    then show ?thesis using c'(2,3) unfolding bit_count_step by (intro exI [of _ c']) simp
  qed
qed

lemma update_absorbs:
  assumes "absorbed c msg" "sh_bit_count c = of_nat (length msg) * 8"
  obtains c' where "update bytes c = Some c'" "absorbed c' (msg @ bytes)" "sh_bit_count c' = of_nat (length (msg @ bytes)) * 8"
proof -
  have "absorbed (c\<lparr>sh_bit_count := n\<rparr>) msg" for n using assms(1) by (simp add: absorbed_def)
  from update_loop_absorbs [OF this] show ?thesis
    using that assms(2) unfolding update_def by (fastforce simp: distrib_right)
qed

lemma length_length_bytes [simp]: "length (length_bytes n) = 8"
  by (simp add: length_bytes_def)

lemma final_reference:
  assumes "absorbed c msg" "sh_bit_count c = of_nat (length msg) * 8"
  shows "final c = sha256_reference msg"
proof -
  let ?b = "sh_buffered c"
  define len_bytes where "len_bytes = length_bytes (of_nat (length msg) * 8)"
  have len8: "length len_bytes = 8" by (simp add: len_bytes_def)
  obtain pre where pre: "msg = pre @ take ?b (sh_block c)" "64 dvd length pre"
    "sh_state c = foldl transform initial_state (blocks64 pre)" using assms(1) by (auto simp: absorbed_def)
  have len: "?b < 64" "length (sh_block c) = 64" using assms(1) by (auto simp: absorbed_def)
  have rest: "length msg mod 64 = ?b" using pre(1,2) len by (auto simp: dvd_eq_mod_eq_0 mod_simps)
  have mark: "take (?b + 1) ((sh_block c)[?b := 0x80]) = take ?b (sh_block c) @ [0x80]"
    using len by (simp add: take_Suc_conv_app_nth)
  show ?thesis
  proof (cases "?b + 1 > 56")
    case True
    let ?full = "take ?b (sh_block c) @ [0x80] @ replicate (63 - ?b) 0"
    let ?last = "replicate 56 0 @ len_bytes"
    have "(119 - ?b) mod 64 = 119 - ?b" using True len(1) by simp
    moreover have "119 - ?b = (63 - ?b) + 56" using len(1) by simp
    ultimately have zeros: "(119 - ?b) mod 64 = (63 - ?b) + 56" by (rule trans)
    have "pad msg = pre @ ?full @ ?last" unfolding pad_def len_bytes_def [symmetric] rest zeros replicate_add using pre(1) by simp
    moreover have full: "length ?full = 64" and last: "length ?last = 64" using len len8 by auto
    have "64 dvd length ?full" unfolding full by simp
    with blocks64_one [OF full] blocks64_one [OF last] have "blocks64 (pre @ ?full @ ?last) = blocks64 pre @ [?full, ?last]"
      by (simp only: blocks64_append [OF pre(2)] blocks64_append append.simps)
    moreover have "final c = transform (transform (sh_state c) ?full) ?last"
      using True len mark by (simp add: final_def Let_def assms(2) len_bytes_def)
    ultimately show ?thesis using pre(3) by (simp add: sha256_reference_def)
  next
    case False
    let ?last = "take ?b (sh_block c) @ [0x80] @ replicate (55 - ?b) 0 @ len_bytes"
    have "(119 - ?b) mod 64 = (64 + (55 - ?b)) mod 64" using False by simp
    also have "\<dots> = 55 - ?b" using False by (simp only: mod_add_self1) simp
    finally have "(119 - ?b) mod 64 = 55 - ?b" .
    then have "pad msg = pre @ ?last" unfolding pad_def len_bytes_def [symmetric] rest using pre(1) by simp
    moreover have "length ?last = 64" using False len len8 by auto
    then have "blocks64 (pre @ ?last) = blocks64 pre @ [?last]"
      by (simp add: blocks64_append [OF pre(2)] blocks64_one)
    moreover have "final c = transform (sh_state c) ?last"
      using False len mark by (simp add: final_def Let_def assms(2) len_bytes_def)
    ultimately show ?thesis using pre(3) by (simp add: sha256_reference_def)
  qed
qed

lemma sha256_bytes_reference: "sha256_bytes_hex msg = Some (''sha256:'' @ digest_to_hex_32 (sha256_reference msg))"
proof -
  have "sh_bit_count new_context = of_nat (length []) * 8" by (simp add: new_context_def)
  from update_absorbs [OF absorbed_new this, of msg] obtain c where
    "update msg new_context = Some c" "absorbed c msg" "sh_bit_count c = of_nat (length msg) * 8" by auto
  then show ?thesis by (simp add: sha256_bytes_hex_def tagged_def final_reference)
qed

subsection \<open>Properties\<close>

text \<open>Feeding a context piece by piece.\<close>

definition absorb_all :: "byte list list \<Rightarrow> Sha256 option" where
  "absorb_all chunks = foldl (\<lambda>c bytes. Option.bind c (update bytes)) (Some new_context) chunks"

text \<open>(C20) However a message is cut into pieces, the streaming context returns after each piece, and
  its digest is the one of the padded message compressed block by block.\<close>

theorem streaming_sha256_reference:
  "map_option final (absorb_all chunks) = Some (sha256_reference (concat chunks))"
proof -
  have "\<exists>c. absorb_all chunks = Some c \<and> absorbed c (concat chunks)
      \<and> sh_bit_count c = of_nat (length (concat chunks)) * 8"
  proof (induction chunks rule: rev_induct)
    case Nil
    show ?case using absorbed_new by (simp add: absorb_all_def) (simp add: new_context_def)
  next
    case (snoc bytes chunks)
    then obtain c where c: "absorb_all chunks = Some c" "absorbed c (concat chunks)"
      "sh_bit_count c = of_nat (length (concat chunks)) * 8" by blast
    obtain c' where "update bytes c = Some c'" "absorbed c' (concat chunks @ bytes)"
      "sh_bit_count c' = of_nat (length (concat chunks @ bytes)) * 8"
      using update_absorbs [OF c(2,3)] by blast
    then show ?case using c(1) by (simp add: absorb_all_def)
  qed
  then show ?thesis using final_reference by auto
qed

text \<open>The bytes a script of reads delivers belong to the content at the offset they were asked for.\<close>

fun honest :: "byte list \<Rightarrow> nat \<Rightarrow> pread_result list \<Rightarrow> bool" where
  "honest content offset [] = True"
| "honest content offset (Pread bytes # script) =
     (bytes = take (length bytes) (drop offset content) \<and> honest content (offset + length bytes) script)"
| "honest content offset (_ # script) = honest content offset script"

fun delivered :: "pread_result list \<Rightarrow> nat" where
  "delivered [] = 0"
| "delivered (Pread bytes # script) = length bytes + delivered script"
| "delivered (_ # script) = delivered script"

definition clean :: "pread_result list \<Rightarrow> bool" where
  "clean script = list_all (\<lambda>r. r \<noteq> Eerror \<and> r \<noteq> Pread []) script"

lemma pread_loop_content:
  assumes "absorbed c (take offset content)" "sh_bit_count c = of_nat offset * 8" "offset \<le> length content"
    "honest content offset script"
  shows "pread_loop (length content) script offset c
      \<in> {Running, Returned None, Returned (sha256_bytes_hex content)}
    \<and> (clean script \<and> offset + delivered script = length content \<longrightarrow>
       pread_loop (length content) script offset c = Returned (sha256_bytes_hex content))"
  using assms
proof (induction "length content" script offset c rule: pread_loop.induct)
  case (1 offset c)
  then show ?case using final_reference [of c content] by (auto simp: sha256_bytes_reference tagged_def)
next
  case (2 r script offset c)
  have done_now: "offset = length content \<Longrightarrow> tagged c = ''sha256:'' @ digest_to_hex_32 (sha256_reference content)"
    using 2(3,4) final_reference [of c content] by (simp add: tagged_def)
  show ?case
  proof (cases "offset < length content")
    case False
    then show ?thesis using done_now 2(5) by (simp add: sha256_bytes_reference)
  next
    case more: True
    show ?thesis
    proof (cases r)
      case Eintr
      then show ?thesis using 2 more by (simp add: clean_def)
    next
      case Eerror
      then show ?thesis using more by (simp add: clean_def)
    next
      case (Pread bytes)
      show ?thesis
      proof (cases "bytes = []")
        case True
        then show ?thesis using Pread more by (simp add: clean_def)
      next
        case False
        have eq: "bytes = take (length bytes) (drop offset content)" using 2(6) Pread by simp
        have "length bytes \<le> length (drop offset content)" by (metis eq length_take min.cobounded1)
        then have le: "offset + length bytes \<le> length content" using more by simp
        have grow: "take offset content @ bytes = take (offset + length bytes) content"
          using eq by (simp add: take_add)
        have "sh_bit_count c = of_nat (length (take offset content)) * 8" using 2(4,5) by simp
        from update_absorbs [OF 2(3) this, of bytes] obtain c' where c': "update bytes c = Some c'"
          "absorbed c' (take offset content @ bytes)"
          "sh_bit_count c' = of_nat (length (take offset content @ bytes)) * 8" .
        then have "absorbed c' (take (offset + length bytes) content)" "sh_bit_count c' = of_nat (offset + length bytes) * 8"
          using grow le by simp_all
        then show ?thesis
          using 2(1) [OF more Pread False c'(1)] le 2(6) more Pread False c'(1) by (simp add: clean_def add.assoc)
      qed
    qed
  qed
qed

text \<open>Hashing an open descriptor gives the digest of the content whatever the sizes of the reads
  and however often they are interrupted: reads that stay within the content either fail, are still
  under way, or lead to that digest, and reads without a failure that deliver all of it do lead there.\<close>

theorem descriptor_hash_correct:
  assumes "honest content 0 script" "0 \<le> fd" "fs_ok st" "fs_regular st" "fs_size st = int (length content)"
  shows "sha256_of_fd fd st script \<in> {Running, Returned None, Returned (sha256_bytes_hex content)}
    \<and> (clean script \<and> delivered script = length content \<longrightarrow>
       sha256_of_fd fd st script = Returned (sha256_bytes_hex content))"
  using assms pread_loop_content [of new_context 0 content script] absorbed_new
  by (simp add: sha256_of_fd_def new_context_def)

lemma descriptor_hash_correct_witness:
  "sha256_of_fd 3 \<lparr>fs_ok = True, fs_regular = True, fs_size = 3\<rparr> [Pread [97], Eintr, Pread [98, 99]]
     = Returned (sha256_bytes_hex [97, 98, 99])"
  using descriptor_hash_correct [of "[97, 98, 99]" "[Pread [97], Eintr, Pread [98, 99]]" 3
      "\<lparr>fs_ok = True, fs_regular = True, fs_size = 3\<rparr>"] by (simp add: clean_def)

text \<open>Hashing a prefix of an open descriptor, with requests that never go past it, gives the
  digest of exactly these bytes; a shorter file is refused.\<close>

theorem descriptor_prefix_hash_correct:
  assumes "honest (take n content) 0 script" "0 \<le> fd" "fs_ok st" "fs_regular st" "fs_size st = int (length content)"
  shows "if length content < n then sha256_of_fd_prefix fd st n script = Returned None
    else sha256_of_fd_prefix fd st n script \<in> {Running, Returned None, Returned (sha256_bytes_hex (take n content))}
      \<and> (clean script \<and> delivered script = n \<longrightarrow>
         sha256_of_fd_prefix fd st n script = Returned (sha256_bytes_hex (take n content)))"
proof (cases "length content < n")
  case True
  then show ?thesis using assms by (simp add: sha256_of_fd_prefix_def)
next
  case False
  then have "length (take n content) = n" by simp
  then show ?thesis using False assms pread_loop_content [of new_context 0 "take n content" script] absorbed_new
    by (simp add: sha256_of_fd_prefix_def new_context_def)
qed

lemma descriptor_prefix_hash_correct_witness:
  "sha256_of_fd_prefix 3 \<lparr>fs_ok = True, fs_regular = True, fs_size = 3\<rparr> 2 [Pread [97], Eintr, Pread [98]]
     = Returned (sha256_bytes_hex [97, 98])"
  using descriptor_prefix_hash_correct [of 2 "[97, 98, 99]" "[Pread [97], Eintr, Pread [98]]" 3
      "\<lparr>fs_ok = True, fs_regular = True, fs_size = 3\<rparr>"] by (simp add: clean_def)

end
