(* ===== verification/Delimited.thy ===== *)
theory Delimited
  imports Prelude
begin

text \<open>
  Renderings that can be read back without a separator: what follows the rendering of
  a value never changes which value it is. Decimal numbers before a mark, and the
  length-prefixed fields of the stable identity strings.
\<close>

locale delimited =
  fixes enc :: "'a \<Rightarrow> string"
  assumes unique: "enc a @ x = enc b @ y \<Longrightarrow> a = b"
begin

lemma append_eq: "enc a @ x = enc b @ y \<longleftrightarrow> a = b \<and> x = y"
  using unique [of a x b y] by auto

lemma inject: "enc a = enc b \<longleftrightarrow> a = b"
  using append_eq [of a "[]" b "[]"] by simp

lemma concat_eq:
  "length xs = length ys \<Longrightarrow> concat (map enc xs) @ x = concat (map enc ys) @ y \<longleftrightarrow> xs = ys \<and> x = y"
  by (induction xs ys rule: list_induct2) (auto simp: append_eq)

end

definition numeric :: "char set" where
  "numeric = set ''-0123456789''"

lemma is_digit_numeric: "is_digit d \<Longrightarrow> d \<in> numeric"
proof -
  assume "is_digit d"
  then have "48 \<le> (of_char d :: nat)" "(of_char d :: nat) < 58" by (simp_all add: is_digit_def less_eq_char_def)
  then have "of_char d \<in> set [48 ..< 58 :: nat]" by (simp only: set_upt atLeastLessThan_iff simp_thms)
  then have "d \<in> char_of ` set [48 ..< 58 :: nat]" by (metis char_of_char imageI)
  moreover have "char_of ` set [48 ..< 58 :: nat] = set ''0123456789''" by code_simp
  ultimately show ?thesis by (auto simp: numeric_def)
qed

lemma show_nat_numeric: "d \<in> set (show_nat n) \<Longrightarrow> d \<in> numeric"
  using is_digit_numeric show_nat_digits by blast

lemma show_int_numeric: "d \<in> set (show_int i) \<Longrightarrow> d \<in> numeric"
proof -
  have "CHR ''-'' \<in> numeric" by (simp add: numeric_def)
  then show "d \<in> set (show_int i) \<Longrightarrow> ?thesis"
    using show_nat_numeric by (auto simp: show_int_def split: if_splits)
qed

lemma numeric_prefix:
  assumes "c \<notin> numeric" "\<And>d. d \<in> set s \<Longrightarrow> d \<in> numeric"
  shows "takeWhile (\<lambda>d. d \<in> numeric) (s @ c # x) = s"
  using assms by (subst takeWhile_append2) auto

lemma show_int_delimited:
  assumes "c \<notin> numeric" "d \<notin> numeric"
  shows "show_int i @ c # x = show_int j @ d # y \<longleftrightarrow> i = j \<and> c = d \<and> x = y"
proof -
  have span: "e \<notin> numeric \<Longrightarrow> takeWhile (\<lambda>d. d \<in> numeric) (show_int k @ e # z) = show_int k" for e k z
    by (rule numeric_prefix) (auto intro: show_int_numeric)
  have "show_int i = show_int j" if "show_int i @ c # x = show_int j @ d # y"
    using span [OF assms(1), of i x] span [OF assms(2), of j y] that by simp
  then show ?thesis by auto
qed

lemma show_nat_delimited:
  assumes "c \<notin> numeric" "d \<notin> numeric"
  shows "show_nat m @ c # x = show_nat n @ d # y \<longleftrightarrow> m = n \<and> c = d \<and> x = y"
proof -
  have span: "e \<notin> numeric \<Longrightarrow> takeWhile (\<lambda>d. d \<in> numeric) (show_nat k @ e # z) = show_nat k" for e k z
    by (rule numeric_prefix) (auto intro: show_nat_numeric)
  have "show_nat m = show_nat n" if "show_nat m @ c # x = show_nat n @ d # y"
    using span [OF assms(1), of m x] span [OF assms(2), of n y] that by simp
  then show ?thesis by auto
qed

lemma punctuation [simp]:
  "CHR '','' \<notin> numeric" "CHR ''}'' \<notin> numeric" "CHR '':'' \<notin> numeric" "CHR '';'' \<notin> numeric" "CHR ''|'' \<notin> numeric"
  by (simp_all add: numeric_def)

end
