(* ===== verification/Cache_Identity.thy ===== *)
theory Cache_Identity
  imports Dependency_Planner Hashing Delimited
begin

text \<open>
  The identity of a cached translation unit (\<^verbatim>\<open>workspace/tu_fact_cache_identity.hpp\<close>,
  \<^verbatim>\<open>tu_fact_cache_identity.cpp\<close>): the input brought to a canonical form, rendered as JSON
  text and hashed. A locale states what makes a rendering decodable; it is shown for
  strings, for both kinds of array element and, once, for every array.
\<close>

definition kTuFactCacheIdentityVersion :: string where
  "kTuFactCacheIdentityVersion = ''tu-fact-cache/v1''"

record TuFactDependencyIdentity =
  fd_path :: string
  fd_content_sha256 :: string
  fd_kind :: string
  fd_conditional_context :: string

record TuFactEnvironmentIdentity =
  fe_name :: string
  fe_value_sha256 :: string

record TuFactCacheVersionIdentity =
  fv_product_version :: string
  fv_artifact_version :: int
  fv_extractor_version :: int
  fv_pass_version :: int
  fv_storage_schema_version :: int
  fv_catalog_version :: int
  fv_catalog_hash :: string

record TuFactCacheIdentityInput =
  fi_main_source_path :: string
  fi_main_source_sha256 :: string
  fi_translation_unit_descriptor :: string
  fi_clang_identity :: string
  fi_front_end_reuse_identity :: string
  fi_versions :: TuFactCacheVersionIdentity
  fi_environment :: "TuFactEnvironmentIdentity list"
  fi_dependencies :: "TuFactDependencyIdentity list"

record TuFactCacheIdentity =
  id_version :: string
  id_canonical_bytes :: string
  id_sha256 :: string

subsection \<open>Rendering\<close>

definition quote :: char where "quote = CHR 0x22"
definition backslash :: char where "backslash = CHR 0x5C"

definition json_char :: "char \<Rightarrow> string" where
  "json_char ch =
     (if ch = quote then [backslash, quote]
      else if ch = backslash then [backslash, backslash]
      else if of_char ch = (8 :: nat) then [backslash, CHR ''b'']
      else if of_char ch = (12 :: nat) then [backslash, CHR ''f'']
      else if of_char ch = (10 :: nat) then [backslash, CHR ''n'']
      else if of_char ch = (13 :: nat) then [backslash, CHR ''r'']
      else if of_char ch = (9 :: nat) then [backslash, CHR ''t'']
      else if of_char ch < (32 :: nat)
        then [backslash, CHR ''u'', CHR ''0'', CHR ''0'', kHex ! (of_char ch div 16), kHex ! (of_char ch mod 16)]
      else [ch])"

definition json_string :: "string \<Rightarrow> string" where
  "json_string value = quote # concat (map json_char value) @ [quote]"

definition key :: "string \<Rightarrow> string" where
  "key name = quote # name @ [quote, CHR '':'']"

definition dependency_json :: "TuFactDependencyIdentity \<Rightarrow> string" where
  "dependency_json d =
     ''{'' @ key ''conditional_context'' @ json_string (fd_conditional_context d)
     @ '','' @ key ''content_sha256'' @ json_string (fd_content_sha256 d)
     @ '','' @ key ''kind'' @ json_string (fd_kind d)
     @ '','' @ key ''path'' @ json_string (fd_path d) @ ''}''"

definition environment_json :: "TuFactEnvironmentIdentity \<Rightarrow> string" where
  "environment_json e =
     ''{'' @ key ''name'' @ json_string (fe_name e) @ '','' @ key ''value_sha256'' @ json_string (fe_value_sha256 e) @ ''}''"

fun json_items :: "('a \<Rightarrow> string) \<Rightarrow> 'a list \<Rightarrow> string" where
  "json_items enc [] = []"
| "json_items enc (x # xs) = enc x @ concat (map (\<lambda>y. '','' @ enc y) xs)"

definition json_array :: "('a \<Rightarrow> string) \<Rightarrow> 'a list \<Rightarrow> string" where
  "json_array enc xs = ''['' @ json_items enc xs @ '']''"

subsection \<open>The canonical form\<close>

definition dependency_key :: "TuFactDependencyIdentity \<Rightarrow> string \<times> string \<times> string \<times> string" where
  "dependency_key d = (fd_path d, fd_kind d, fd_conditional_context d, fd_content_sha256 d)"

definition environment_key :: "TuFactEnvironmentIdentity \<Rightarrow> string \<times> string" where
  "environment_key e = (fe_name e, fe_value_sha256 e)"

definition canonical_dependency :: "string \<Rightarrow> TuFactDependencyIdentity \<Rightarrow> TuFactDependencyIdentity" where
  "canonical_dependency cwd d = d\<lparr>fd_path := canonical_tu_cache_path cwd (fd_path d)\<rparr>"

definition canonical_input :: "string \<Rightarrow> TuFactCacheIdentityInput \<Rightarrow> TuFactCacheIdentityInput" where
  "canonical_input cwd i =
     i\<lparr>fi_main_source_path := canonical_tu_cache_path cwd (fi_main_source_path i),
       fi_dependencies := sort_unique_by dependency_key (map (canonical_dependency cwd) (fi_dependencies i)),
       fi_environment := sort_unique_by environment_key (fi_environment i)\<rparr>"

definition versions_json :: "TuFactCacheVersionIdentity \<Rightarrow> string" where
  "versions_json v =
     ''{'' @ key ''artifact'' @ show_int (fv_artifact_version v)
     @ '','' @ key ''catalog'' @ show_int (fv_catalog_version v)
     @ '','' @ key ''catalog_hash'' @ json_string (fv_catalog_hash v)
     @ '','' @ key ''extractor'' @ show_int (fv_extractor_version v)
     @ '','' @ key ''pass'' @ show_int (fv_pass_version v)
     @ '','' @ key ''product'' @ json_string (fv_product_version v)
     @ '','' @ key ''storage_schema'' @ show_int (fv_storage_schema_version v) @ ''}''"

definition identity_json :: "TuFactCacheIdentityInput \<Rightarrow> string" where
  "identity_json i =
     ''{'' @ key ''clang_identity'' @ json_string (fi_clang_identity i)
     @ '','' @ key ''dependencies'' @ json_array dependency_json (fi_dependencies i)
     @ '','' @ key ''environment'' @ json_array environment_json (fi_environment i)
     @ '','' @ key ''front_end_reuse_identity'' @ json_string (fi_front_end_reuse_identity i)
     @ '','' @ key ''main_source'' @ ''{'' @ key ''content_sha256'' @ json_string (fi_main_source_sha256 i)
     @ '','' @ key ''path'' @ json_string (fi_main_source_path i) @ ''}''
     @ '','' @ key ''translation_unit_descriptor'' @ json_string (fi_translation_unit_descriptor i)
     @ '','' @ key ''version'' @ json_string kTuFactCacheIdentityVersion
     @ '','' @ key ''versions'' @ versions_json (fi_versions i) @ ''}''"

definition make_tu_fact_cache_identity :: "string \<Rightarrow> TuFactCacheIdentityInput \<Rightarrow> TuFactCacheIdentity option" where
  "make_tu_fact_cache_identity cwd input =
     (let canonical = identity_json (canonical_input cwd input) in
      map_option (\<lambda>digest. \<lparr>id_version = kTuFactCacheIdentityVersion, id_canonical_bytes = canonical, id_sha256 = digest\<rparr>)
        (sha256_hex canonical))"

subsection \<open>Renderings that can be read back\<close>

locale self_delimiting = delimited enc for enc :: "'a \<Rightarrow> string" +
  assumes opens: "\<exists>c s. enc a = c # s \<and> c \<noteq> CHR '']''"
begin

lemma tail_eq:
  "concat (map (\<lambda>y. '','' @ enc y) xs) @ '']'' @ x = concat (map (\<lambda>y. '','' @ enc y) ys) @ '']'' @ y \<Longrightarrow> xs = ys \<and> x = y"
proof (induction xs arbitrary: ys)
  case Nil
  then show ?case by (cases ys) simp_all
next
  case (Cons a xs)
  then show ?case by (cases ys) (auto simp: append_eq)
qed

lemma array_eq: "json_array enc xs @ x = json_array enc ys @ y \<longleftrightarrow> xs = ys \<and> x = y"
proof
  assume eq: "json_array enc xs @ x = json_array enc ys @ y"
  show "xs = ys \<and> x = y"
  proof (cases xs; cases ys)
    fix b ys' assume "xs = []" "ys = b # ys'"
    with eq opens [of b] show ?thesis by (auto simp: json_array_def)
  next
    fix a xs' assume "xs = a # xs'" "ys = []"
    with eq opens [of a] show ?thesis by (auto simp: json_array_def)
  next
    fix a xs' b ys' assume "xs = a # xs'" "ys = b # ys'"
    with eq tail_eq [of xs' x ys' y] show ?thesis by (simp add: json_array_def append_eq)
  qed (use eq in \<open>simp add: json_array_def\<close>)
qed simp

end

text \<open>Reading one character back decides every escape.\<close>

definition hex_value :: "char \<Rightarrow> nat" where
  "hex_value h = (if of_char h \<le> (57 :: nat) then of_char h - 48 else of_char h - 87)"

fun read_char :: "string \<Rightarrow> char" where
  "read_char (b # e # rest) =
     (if b \<noteq> backslash then b
      else if e = CHR ''b'' then char_of (8 :: nat)
      else if e = CHR ''f'' then char_of (12 :: nat)
      else if e = CHR ''n'' then char_of (10 :: nat)
      else if e = CHR ''r'' then char_of (13 :: nat)
      else if e = CHR ''t'' then char_of (9 :: nat)
      else if e = CHR ''u'' then char_of (16 * hex_value (rest ! 2) + hex_value (rest ! 3))
      else e)"
| "read_char _ = quote"

lemma hex_value_digit: "n < 16 \<Longrightarrow> hex_value (kHex ! n) = n"
proof -
  have "list_all (\<lambda>n. hex_value (kHex ! n) = n) [0 ..< 16]" by code_simp
  then show "n < 16 \<Longrightarrow> ?thesis" by (simp add: list_all_iff)
qed

lemma char_of_eq: "of_char ch = (n :: nat) \<Longrightarrow> char_of n = ch"
  by (metis char_of_char)

lemma read_json_char: "x \<noteq> [] \<Longrightarrow> read_char (json_char ch @ x) = ch"
proof -
  assume "x \<noteq> []"
  then obtain e rest where x: "x = e # rest" by (cases x) auto
  have names: "quote \<noteq> backslash" "quote \<notin> set ''bfnrtu''" "backslash \<notin> set ''bfnrtu''"
    by (simp_all add: quote_def backslash_def)
  have "of_char ch < (32 :: nat) \<Longrightarrow> hex_value (kHex ! (of_char ch div 16)) = of_char ch div 16
      \<and> hex_value (kHex ! (of_char ch mod 16)) = of_char ch mod 16"
    by (intro conjI hex_value_digit) auto
  moreover have "16 * (of_char ch div 16) + of_char ch mod 16 = (of_char ch :: nat)" by simp
  ultimately show ?thesis using names x by (auto simp: json_char_def char_of_eq)
qed

lemma json_char_first: "\<exists>c s. json_char ch = c # s \<and> c \<noteq> quote"
  by (simp add: json_char_def quote_def backslash_def)

lemma json_body_eq:
  "concat (map json_char a) @ quote # x = concat (map json_char b) @ quote # y \<Longrightarrow> a = b"
proof (induction a arbitrary: b)
  case Nil
  show ?case
  proof (cases b)
    case (Cons c b')
    with Nil json_char_first [of c] show ?thesis by auto
  qed simp
next
  case (Cons c a)
  show ?case
  proof (cases b)
    case Nil
    with Cons.prems json_char_first [of c] show ?thesis by auto
  next
    case b: (Cons d b')
    have "c = d" using arg_cong [OF Cons.prems, of read_char] by (simp add: b read_json_char)
    with Cons b show ?thesis by simp
  qed
qed

interpretation strings: self_delimiting json_string
proof
  show "json_string a @ x = json_string b @ y \<Longrightarrow> a = b" for a b x y
    using json_body_eq [of a x b y] by (simp add: json_string_def)
  show "\<exists>c s. json_string a = c # s \<and> c \<noteq> CHR '']''" for a by (simp add: json_string_def quote_def)
qed

interpretation dependencies: self_delimiting dependency_json
proof
  show "dependency_json a @ x = dependency_json b @ y \<Longrightarrow> a = b" for a b x y
    by (simp add: dependency_json_def strings.append_eq)
  show "\<exists>c s. dependency_json a = c # s \<and> c \<noteq> CHR '']''" for a by (simp add: dependency_json_def)
qed

interpretation environments: self_delimiting environment_json
proof
  show "environment_json a @ x = environment_json b @ y \<Longrightarrow> a = b" for a b x y
    by (simp add: environment_json_def strings.append_eq)
  show "\<exists>c s. environment_json a = c # s \<and> c \<noteq> CHR '']''" for a by (simp add: environment_json_def)
qed

lemma versions_json_eq: "versions_json v @ x = versions_json w @ y \<longleftrightarrow> v = w \<and> x = y"
  by (auto simp: versions_json_def strings.append_eq show_int_delimited)

lemma versions_json_inject: "versions_json v = versions_json w \<longleftrightarrow> v = w"
  using versions_json_eq [of v "[]" w "[]"] by simp

lemma identity_json_inject: "identity_json i = identity_json j \<longleftrightarrow> i = j"
  by (auto simp: identity_json_def strings.append_eq dependencies.array_eq environments.array_eq versions_json_inject)

lemma inj_dependency_key: "inj dependency_key"
  by (rule injI) (simp add: dependency_key_def)

lemma inj_environment_key: "inj environment_key"
  by (rule injI) (simp add: environment_key_def)

text \<open>(C18) Cache identities are exact: every input has one, and two inputs have the same canonical bytes
  if and only if they agree on the compiler, the configuration, the versions, the main source by its
  canonical path and content, and on the sets of environment values and of dependencies by canonical
  path, whatever their order and multiplicity.\<close>

theorem cache_identity_exact:
  "(\<exists>a b. make_tu_fact_cache_identity cwd i = Some a \<and> make_tu_fact_cache_identity cwd j = Some b
     \<and> (id_canonical_bytes a = id_canonical_bytes b)
       = (canonical_tu_cache_path cwd (fi_main_source_path i) = canonical_tu_cache_path cwd (fi_main_source_path j)
          \<and> fi_main_source_sha256 i = fi_main_source_sha256 j
          \<and> fi_translation_unit_descriptor i = fi_translation_unit_descriptor j
          \<and> fi_clang_identity i = fi_clang_identity j
          \<and> fi_front_end_reuse_identity i = fi_front_end_reuse_identity j
          \<and> fi_versions i = fi_versions j
          \<and> set (fi_environment i) = set (fi_environment j)
          \<and> canonical_dependency cwd ` set (fi_dependencies i) = canonical_dependency cwd ` set (fi_dependencies j)))"
proof -
  have some: "\<exists>a. make_tu_fact_cache_identity cwd i = Some a \<and> id_canonical_bytes a = identity_json (canonical_input cwd i)" for i
    by (simp add: make_tu_fact_cache_identity_def Let_def sha256_hex_def sha256_bytes_reference)
  have same: "canonical_input cwd i = canonical_input cwd j \<longleftrightarrow>
      (canonical_tu_cache_path cwd (fi_main_source_path i) = canonical_tu_cache_path cwd (fi_main_source_path j)
          \<and> fi_main_source_sha256 i = fi_main_source_sha256 j
          \<and> fi_translation_unit_descriptor i = fi_translation_unit_descriptor j
          \<and> fi_clang_identity i = fi_clang_identity j
          \<and> fi_front_end_reuse_identity i = fi_front_end_reuse_identity j
          \<and> fi_versions i = fi_versions j
          \<and> set (fi_environment i) = set (fi_environment j)
          \<and> canonical_dependency cwd ` set (fi_dependencies i) = canonical_dependency cwd ` set (fi_dependencies j))"
    by (cases i, cases j)
      (auto simp: canonical_input_def sort_unique_by_eq_iff [OF inj_dependency_key] sort_unique_by_eq_iff [OF inj_environment_key])
  obtain a b where a: "make_tu_fact_cache_identity cwd i = Some a" "id_canonical_bytes a = identity_json (canonical_input cwd i)"
    and b: "make_tu_fact_cache_identity cwd j = Some b" "id_canonical_bytes b = identity_json (canonical_input cwd j)"
    using some [of i] some [of j] by blast
  have "(id_canonical_bytes a = id_canonical_bytes b) = (canonical_input cwd i = canonical_input cwd j)"
    unfolding a(2) b(2) by (rule identity_json_inject)
  with a(1) b(1) same show ?thesis by (intro exI [of _ a] exI [of _ b]) simp
qed

end
