(* ===== verification/Fact_Identity.thy ===== *)
theory Fact_Identity
  imports Delimited "HOL-Library.Word"
begin

unbundle bit_operations_syntax

text \<open>
  Portable identities of facts (\<^verbatim>\<open>ast/fact_identity.hpp\<close>, \<^verbatim>\<open>fact_identity.cpp\<close>): natural keys
  rendered as stable strings, and the index that hands out collision-safe handles for
  them. The primary hash is an argument, as in the constructor. The search for a free
  handle has no bound in the code, so it is a partial function; it is shown to return
  exactly when some attempt finds a handle that no other key holds.
\<close>

record PortableFileIdentity =
  pf_component_path :: string
  pf_directory_path :: string
  pf_file_name :: string

record PortableConfigurationContent =
  cc_driver :: "string option"
  cc_working_dir :: "string option"
  cc_arguments :: "string list"
  cc_lang_mode :: "string option"
  cc_resource_dir :: "string option"

record ConfigurationIdentity =
  ci_semantic_universe :: string
  ci_translation_unit :: string
  ci_normalized_configuration :: string
  ci_identity_source :: string
  ci_content :: PortableConfigurationContent

record FactPartitionKey =
  pk_file :: PortableFileIdentity
  pk_configuration :: ConfigurationIdentity

record SymbolNaturalKey =
  sk_partition :: FactPartitionKey
  sk_usr :: string
  sk_local_anchor :: "string option"
  sk_linkage :: "string option"

record TypeNaturalKey =
  tk_partition :: FactPartitionKey
  tk_type_key :: string

record RelationNaturalKey =
  rk_source :: SymbolNaturalKey
  rk_destination :: SymbolNaturalKey
  rk_kind :: int
  rk_base_access :: "int option"
  rk_is_virtual :: "int option"

subsection \<open>Stable strings\<close>

definition append_field :: "string \<Rightarrow> string" where
  "append_field field = show_nat (length field) @ '':'' @ field"

fun append_optional :: "string option \<Rightarrow> string" where
  "append_optional None = ''-;''"
| "append_optional (Some field) = ''+'' @ append_field field @ '';''"

fun append_optional_int :: "int option \<Rightarrow> string" where
  "append_optional_int None = ''-;''"
| "append_optional_int (Some i) = ''+'' @ show_int i @ '';''"

definition portable_path :: "PortableFileIdentity \<Rightarrow> string" where
  "portable_path f =
     (let r1 = pf_component_path f @ (if pf_component_path f \<noteq> [] \<and> pf_directory_path f \<noteq> [] then ''/'' else [])
            @ pf_directory_path f
      in r1 @ (if r1 \<noteq> [] \<and> pf_file_name f \<noteq> [] then ''/'' else []) @ pf_file_name f)"

definition partition_string :: "FactPartitionKey \<Rightarrow> string" where
  "partition_string k =
     (let f = pk_file k; c = pk_configuration k; t = ci_content c in
      append_field (pf_component_path f) @ append_field (pf_directory_path f) @ append_field (pf_file_name f)
      @ append_field (ci_semantic_universe c) @ append_field (ci_translation_unit c)
      @ append_field (ci_normalized_configuration c) @ append_field (ci_identity_source c)
      @ append_optional (cc_driver t) @ append_optional (cc_working_dir t)
      @ show_nat (length (cc_arguments t)) @ '';'' @ concat (map append_field (cc_arguments t))
      @ append_optional (cc_lang_mode t) @ append_optional (cc_resource_dir t))"

definition is_local :: "SymbolNaturalKey \<Rightarrow> bool" where
  "is_local k \<longleftrightarrow> sk_linkage k = Some ''internal'' \<or> sk_linkage k = Some ''no-linkage''"

definition symbol_string :: "SymbolNaturalKey \<Rightarrow> string" where
  "symbol_string k =
     (let c = pk_configuration (sk_partition k) in
      append_field (ci_semantic_universe c)
      @ (if is_local k
         then append_field ''local'' @ append_field (ci_translation_unit c) @ append_field (ci_identity_source c)
              @ append_optional (sk_local_anchor k)
         else [])
      @ append_field (sk_usr k))"

definition type_string :: "TypeNaturalKey \<Rightarrow> string" where
  "type_string k = partition_string (tk_partition k) @ append_field (tk_type_key k)"

definition relation_string :: "RelationNaturalKey \<Rightarrow> string" where
  "relation_string k =
     symbol_string (rk_source k) @ append_field (symbol_string (rk_destination k))
     @ show_int (rk_kind k) @ '';'' @ append_optional_int (rk_base_access k) @ append_optional_int (rk_is_virtual k)"

subsection \<open>Handles\<close>

definition stable_fact_hash :: "string \<Rightarrow> 64 word" where
  "stable_fact_hash value =
     foldl (\<lambda>hash byte. (hash XOR word_of_nat (of_char byte)) * 1099511628211) 1469598103934665603 value"

record CollisionSafeHandleIndex =
  hi_handles_by_key :: "(string \<times> int) list"
  hi_keys_by_handle :: "(int \<times> string) list"

definition new_index :: CollisionSafeHandleIndex where
  "new_index = \<lparr>hi_handles_by_key = [], hi_keys_by_handle = []\<rparr>"

definition handle_mask :: "64 word" where
  "handle_mask = 0x7fffffffffffffff"

definition candidate_for :: "(string \<Rightarrow> 64 word) \<Rightarrow> string \<Rightarrow> 64 word \<Rightarrow> int" where
  "candidate_for primary key attempt =
     (let salted = key @ ''#'' @ show_nat (unat attempt);
          mixed = primary key XOR word_rotl 23 (stable_fact_hash salted)
      in uint ((mixed AND handle_mask) OR 1))"

text \<open>The attempt that finds a handle which is free or already this key's.\<close>

partial_function (option) find_candidate ::
  "(string \<Rightarrow> 64 word) \<Rightarrow> (int \<times> string) list \<Rightarrow> string \<Rightarrow> 64 word \<Rightarrow> int option" where
  "find_candidate primary occupied key attempt =
     (let candidate = candidate_for primary key attempt in
      case map_of occupied candidate of
        None \<Rightarrow> Some candidate
      | Some other \<Rightarrow> if other \<noteq> key then find_candidate primary occupied key (attempt + 1) else Some candidate)"

declare find_candidate.simps [code]

definition find_or_insert ::
  "(string \<Rightarrow> 64 word) \<Rightarrow> string \<Rightarrow> CollisionSafeHandleIndex \<Rightarrow> (int \<times> CollisionSafeHandleIndex) option" where
  "find_or_insert primary key ix =
     (case map_of (hi_handles_by_key ix) key of
        Some handle \<Rightarrow> Some (handle, ix)
      | None \<Rightarrow>
          map_option (\<lambda>candidate.
            (candidate,
             \<lparr>hi_handles_by_key = (key, candidate) # hi_handles_by_key ix,
              hi_keys_by_handle =
                (if candidate \<in> fst ` set (hi_keys_by_handle ix) then hi_keys_by_handle ix
                 else omap_insert candidate key (hi_keys_by_handle ix))\<rparr>))
            (find_candidate primary (hi_keys_by_handle ix) key 0))"

definition find :: "CollisionSafeHandleIndex \<Rightarrow> string \<Rightarrow> int option" where
  "find ix key = map_of (hi_handles_by_key ix) key"

definition key_for :: "CollisionSafeHandleIndex \<Rightarrow> int \<Rightarrow> string option" where
  "key_for ix handle = map_of (hi_keys_by_handle ix) handle"

subsection \<open>Keys are exact\<close>

interpretation field: delimited append_field
proof
  fix a b x y assume eq: "append_field a @ x = append_field b @ y"
  then have "length a = length b \<and> a @ x = b @ y" by (simp add: append_field_def show_nat_delimited)
  then show "a = b" by (metis append_eq_append_conv)
qed

interpretation optional_field: delimited append_optional
proof
  show "append_optional a @ x = append_optional b @ y \<Longrightarrow> a = b" for a b x y
    by (cases a; cases b) (auto simp: field.append_eq)
qed

interpretation optional_int: delimited append_optional_int
proof
  show "append_optional_int a @ x = append_optional_int b @ y \<Longrightarrow> a = b" for a b x y
    by (cases a; cases b) (auto simp: show_int_delimited)
qed

interpretation part: delimited partition_string
proof
  show "partition_string a @ x = partition_string b @ y \<Longrightarrow> a = b" for a b x y
    unfolding partition_string_def Let_def append_assoc
    by (cases a; cases b)
      (auto simp: field.append_eq optional_field.append_eq show_nat_delimited field.concat_eq
        intro!: FactPartitionKey.equality PortableFileIdentity.equality ConfigurationIdentity.equality
          PortableConfigurationContent.equality)
qed

text \<open>What identifies a symbol: its universe and its name, and for symbols without external linkage the
  unit, the identity source and the anchor as well.\<close>

definition symbol_identity :: "SymbolNaturalKey \<Rightarrow> string \<times> (string \<times> string \<times> string option) option \<times> string" where
  "symbol_identity k =
     (let c = pk_configuration (sk_partition k) in
      (ci_semantic_universe c,
       if is_local k then Some (ci_translation_unit c, ci_identity_source c, sk_local_anchor k) else None,
       sk_usr k))"

lemma field_not_Nil: "append_field s \<noteq> []"
  by (simp add: append_field_def)

lemma field_end: "append_field a = append_field b @ y \<longleftrightarrow> a = b \<and> y = []"
  using field.append_eq [of a "[]" b y] by auto

lemma field_end': "append_field b @ y = append_field a \<longleftrightarrow> a = b \<and> y = []"
  using field_end [of a b y] by metis

lemma symbol_string_inject: "symbol_string a = symbol_string b \<longleftrightarrow> symbol_identity a = symbol_identity b"
  by (auto simp: symbol_string_def symbol_identity_def Let_def field.append_eq field.inject field_end field_end' optional_field.append_eq field_not_Nil split: if_splits)

lemma field_then_number: "append_field s @ x = show_int i @ '';'' @ y \<longleftrightarrow> False"
proof -
  have "show_nat n = show_int (int n)" for n by (simp add: show_int_def)
  then show ?thesis by (simp add: append_field_def show_int_delimited)
qed

text \<open>A symbol string is read back when a field and a number follow, as they do in a relation.\<close>

lemma symbol_string_delimited:
  "symbol_string a @ append_field d @ show_int i @ '';'' @ x = symbol_string b @ append_field e @ show_int j @ '';'' @ y
     \<longleftrightarrow> symbol_identity a = symbol_identity b \<and> d = e \<and> i = j \<and> x = y"
proof -
  have number: "show_int i @ '';'' @ x = append_field s @ z \<longleftrightarrow> False" for i x s z
    using field_then_number [of s z i x] by metis
  show ?thesis
    by (auto simp: symbol_string_def symbol_identity_def Let_def field.append_eq optional_field.append_eq
        number [simplified] field_then_number [simplified] show_int_delimited split: if_splits)
qed

text \<open>(C24) Stable strings are exact: two types have the same string only if they are the same key, two
  symbols if and only if they agree on what identifies them, and two relations if and only if
  their ends do and kind, access and virtuality are equal.\<close>

theorem stable_strings_exact:
  "(type_string t = type_string t') = (t = t')
   \<and> (symbol_string a = symbol_string b) = (symbol_identity a = symbol_identity b)
   \<and> (relation_string r = relation_string r')
     = (symbol_identity (rk_source r) = symbol_identity (rk_source r')
        \<and> symbol_identity (rk_destination r) = symbol_identity (rk_destination r')
        \<and> rk_kind r = rk_kind r' \<and> rk_base_access r = rk_base_access r' \<and> rk_is_virtual r = rk_is_virtual r')"
proof (intro conjI)
  show "(type_string t = type_string t') = (t = t')"
    by (cases t; cases t') (simp add: type_string_def part.append_eq field.inject)
  show "(symbol_string a = symbol_string b) = (symbol_identity a = symbol_identity b)"
    by (rule symbol_string_inject)
  show "(relation_string r = relation_string r') = (symbol_identity (rk_source r) = symbol_identity (rk_source r')
        \<and> symbol_identity (rk_destination r) = symbol_identity (rk_destination r')
        \<and> rk_kind r = rk_kind r' \<and> rk_base_access r = rk_base_access r' \<and> rk_is_virtual r = rk_is_virtual r')"
    unfolding relation_string_def symbol_string_delimited
    by (auto simp: symbol_string_inject optional_int.append_eq optional_int.inject)
qed

subsection \<open>Handles are collision safe\<close>

lemma take_bit_bound:
  fixes w :: "64 word"
  assumes "take_bit 63 w = w"
  shows "uint w < 2 ^ 63"
proof -
  have "uint (take_bit 63 w) = take_bit 63 (uint w)" by (rule unsigned_take_bit_eq)
  then show ?thesis unfolding assms using take_bit_int_less_exp [of 63 "uint w"] by simp
qed

lemma candidate_range: "odd (candidate_for primary key attempt)" "0 < candidate_for primary key attempt"
  "candidate_for primary key attempt < 2 ^ 63"
proof -
  let ?m = "primary key XOR word_rotl 23 (stable_fact_hash (key @ ''#'' @ show_nat (unat attempt)))"
  let ?w = "(?m AND handle_mask) OR 1"
  have cand: "candidate_for primary key attempt = uint ?w" by (simp add: candidate_for_def Let_def)
  have mask: "handle_mask = mask 63" by (simp add: handle_mask_def mask_eq_exp_minus_1)
  have "take_bit 63 ?w = ?w"
    by (rule bit_word_eqI) (auto simp: mask bit_simps)
  then have "uint ?w < 2 ^ 63" by (rule take_bit_bound)
  moreover have "bit (uint ?w) 0" by (simp add: bit_uint_iff bit_simps)
  then have "odd (uint ?w)" by (simp add: bit_0)
  moreover from this have "uint ?w \<noteq> 0" by auto
  then have "0 < uint ?w" by (simp add: order_less_le)
  ultimately show "odd (candidate_for primary key attempt)" "0 < candidate_for primary key attempt"
    "candidate_for primary key attempt < 2 ^ 63" unfolding cand by simp_all
qed

definition free_for :: "(int \<times> string) list \<Rightarrow> string \<Rightarrow> int \<Rightarrow> bool" where
  "free_for occupied key h \<longleftrightarrow> map_of occupied h = None \<or> map_of occupied h = Some key"

lemma find_candidate_sound:
  assumes "find_candidate primary occupied key attempt = Some h"
  shows "free_for occupied key h \<and> (\<exists>a. h = candidate_for primary key a)"
proof (rule find_candidate.raw_induct
    [where P = "\<lambda>primary occupied key attempt h. free_for occupied key h \<and> (\<exists>a. h = candidate_for primary key a)", OF _ assms])
  fix rec primary occupied key attempt h
  assume IH: "\<And>primary occupied key attempt h. rec primary occupied key attempt = Some h \<Longrightarrow>
      free_for occupied key h \<and> (\<exists>a. h = candidate_for primary key a)"
    and body: "(let candidate = candidate_for primary key attempt in
      case map_of occupied candidate of None \<Rightarrow> Some candidate
      | Some other \<Rightarrow> if other \<noteq> key then rec primary occupied key (attempt + 1) else Some candidate) = Some (h :: int)"
  show "free_for occupied key h \<and> (\<exists>a. h = candidate_for primary key a)"
  proof (cases "free_for occupied key (candidate_for primary key attempt)")
    case True
    with body have "h = candidate_for primary key attempt" by (auto simp: Let_def free_for_def)
    with True show ?thesis by blast
  next
    case False
    with body have "rec primary occupied key (attempt + 1) = Some h"
      by (auto simp: Let_def free_for_def split: option.splits)
    then show ?thesis by (rule IH)
  qed
qed

lemma find_candidate_returns:
  "free_for occupied key (candidate_for primary key (attempt + of_nat n)) \<Longrightarrow>
     find_candidate primary occupied key attempt \<noteq> None"
proof (induction n arbitrary: attempt)
  case 0
  then show ?case
    by (subst find_candidate.simps) (auto simp: free_for_def Let_def split: option.splits)
next
  case (Suc n)
  then have "find_candidate primary occupied key (attempt + 1) \<noteq> None" by (simp add: add.assoc)
  then show ?case by (subst find_candidate.simps) (auto simp: Let_def split: option.splits)
qed

text \<open>The indexes that calls of \<^verbatim>\<open>find_or_insert\<close> build.\<close>

inductive indexed :: "(string \<Rightarrow> 64 word) \<Rightarrow> CollisionSafeHandleIndex \<Rightarrow> bool" for primary where
  fresh_index: "indexed primary new_index"
| interned: "indexed primary ix \<Longrightarrow> find_or_insert primary key ix = Some (h, ix') \<Longrightarrow> indexed primary ix'"

definition index_wf :: "CollisionSafeHandleIndex \<Rightarrow> bool" where
  "index_wf ix \<longleftrightarrow>
     omap_sorted (hi_keys_by_handle ix)
     \<and> (\<forall>key h. (map_of (hi_handles_by_key ix) key = Some h) = (map_of (hi_keys_by_handle ix) h = Some key))"

lemma find_or_insert_cases:
  assumes "find_or_insert primary key ix = Some (h, ix')" "index_wf ix"
  obtains (known) "map_of (hi_handles_by_key ix) key = Some h" "ix' = ix"
  | (new) "map_of (hi_handles_by_key ix) key = None" "map_of (hi_keys_by_handle ix) h = None"
      "hi_handles_by_key ix' = (key, h) # hi_handles_by_key ix"
      "hi_keys_by_handle ix' = omap_insert h key (hi_keys_by_handle ix)"
      "\<exists>a. h = candidate_for primary key a"
proof (cases "map_of (hi_handles_by_key ix) key")
  case (Some h')
  with assms(1) have "h' = h" "ix' = ix" by (simp_all add: find_or_insert_def)
  with Some known show ?thesis by blast
next
  case None
  with assms(1) have cand: "find_candidate primary (hi_keys_by_handle ix) key 0 = Some h"
    and ix': "ix' = \<lparr>hi_handles_by_key = (key, h) # hi_handles_by_key ix,
      hi_keys_by_handle = (if h \<in> fst ` set (hi_keys_by_handle ix) then hi_keys_by_handle ix
        else omap_insert h key (hi_keys_by_handle ix))\<rparr>"
    by (auto simp: find_or_insert_def)
  have "map_of (hi_keys_by_handle ix) h \<noteq> Some key" using None assms(2) by (metis index_wf_def option.distinct(1))
  then have free: "map_of (hi_keys_by_handle ix) h = None"
    using find_candidate_sound [OF cand] by (auto simp: free_for_def)
  then have "h \<notin> fst ` set (hi_keys_by_handle ix)" by (simp add: map_of_eq_None_iff)
  with new [OF None free] ix' find_candidate_sound [OF cand] show ?thesis by simp
qed

lemma find_or_insert_wf:
  assumes "find_or_insert primary key ix = Some (h, ix')" "index_wf ix"
  shows "index_wf ix'"
  using assms
proof (cases rule: find_or_insert_cases)
  case new
  have "map_of (hi_keys_by_handle ix) h' \<noteq> Some key" for h' using new(1) assms(2) by (metis index_wf_def option.distinct(1))
  then show ?thesis using new(1-4) assms(2) by (auto simp: index_wf_def)
qed (use assms in simp)

lemma indexed_wf: "indexed primary ix \<Longrightarrow> index_wf ix"
proof (induction rule: indexed.induct)
  case fresh_index
  show ?case by (simp add: index_wf_def new_index_def)
qed (rule find_or_insert_wf)

text \<open>(C35) Handles are collision safe whatever the primary hash: interning a key makes it and its handle
  find each other, leaves every other key as it was, and the handle is odd, positive and below
  \<open>2 ^ 63\<close>; distinct keys never share one. Interning returns if and only if the key is known or some
  attempt hits a handle nobody holds.\<close>

theorem handles_collision_safe:
  assumes "indexed primary ix"
  shows "(case find_or_insert primary key ix of
       None \<Rightarrow> find ix key = None \<and> (\<nexists>a. key_for ix (candidate_for primary key a) = None)
     | Some (h, ix') \<Rightarrow> find ix' key = Some h \<and> key_for ix' h = Some key
         \<and> (find ix key = Some h \<or> odd h \<and> 0 < h \<and> h < 2 ^ 63)
         \<and> (\<forall>k. k = key \<or> find ix' k = find ix k)
         \<and> (\<forall>k. k = key \<or> find ix' k \<noteq> Some h))"
proof (cases "find_or_insert primary key ix")
  case None
  then have nf: "find ix key = None" and loop: "find_candidate primary (hi_keys_by_handle ix) key 0 = None"
    by (auto simp: find_or_insert_def find_def split: option.splits)
  have "key_for ix (candidate_for primary key a) \<noteq> None" for a
  proof
    assume "key_for ix (candidate_for primary key a) = None"
    then have "free_for (hi_keys_by_handle ix) key (candidate_for primary key (0 + of_nat (unat a)))"
      by (simp add: key_for_def free_for_def)
    from find_candidate_returns [OF this] loop show False by simp
  qed
  with None nf show ?thesis by simp
next
  case (Some r)
  then obtain h ix' where r: "find_or_insert primary key ix = Some (h, ix')" by (cases r) auto
  note wf = indexed_wf [OF assms] and wf' = find_or_insert_wf [OF r indexed_wf [OF assms]]
  from r wf show ?thesis
  proof (cases rule: find_or_insert_cases)
    case known
    then show ?thesis using r wf by (auto simp: find_def key_for_def index_wf_def)
  next
    case new
    then have "find ix' key = Some h" "key_for ix' h = Some key" by (simp_all add: find_def key_for_def)
    moreover have "odd h \<and> 0 < h \<and> h < 2 ^ 63" using new(5) candidate_range by auto
    moreover have "k = key \<or> find ix' k = find ix k" for k using new(3) by (simp add: find_def)
    moreover have "k = key \<or> find ix' k \<noteq> Some h" for k
      using wf' new by (auto simp: find_def index_wf_def)
    ultimately show ?thesis using r by simp
  qed
qed

lemma handles_collision_safe_witness:
  "\<exists>h ix. find_or_insert (\<lambda>_. 0) ''k'' new_index = Some (h, ix) \<and> find ix ''k'' = Some h \<and> key_for ix h = Some ''k''"
proof -
  have none: "key_for new_index h = None" for h by (simp add: key_for_def new_index_def)
  from handles_collision_safe [OF indexed.fresh_index [of "\<lambda>_. 0"], of "''k''"] show ?thesis
    by (cases "find_or_insert (\<lambda>_. 0) ''k'' new_index") (auto simp: none)
qed

end
