(* ===== verification/Owned_Header_Plan.thy ===== *)
theory Owned_Header_Plan
  imports Fact_Identity Canonical_Order
begin

text \<open>
  The routing plan of a run (\<^verbatim>\<open>ast/owned_header_plan.hpp\<close>, \<^verbatim>\<open>owned_header_plan.cpp\<close>): every
  translation unit is routed, every header is owned by its first discoverer. An
  invalid candidate is an error; \<open>None\<close> stands for a handle search that does not return.
  Modification times are bit patterns, they are only copied. Candidates that agree on
  the whole sort key keep their order here; the code leaves it open.
\<close>

datatype PlannedFileRole = translation_unit_role | owned_header_role

record PlannedSourceSnapshot =
  ss_mtime :: "64 word option"
  ss_md5 :: "string option"

record OwnedHeaderRouteCandidate =
  oc_role :: PlannedFileRole
  oc_translation_unit :: string
  oc_translation_unit_file_id :: int
  oc_path :: string
  oc_discovery_ordinal :: nat
  oc_existing_file_id :: "int option"
  oc_snapshot :: PlannedSourceSnapshot
  oc_compile_options :: "string list option"
  oc_driver :: "string option"
  oc_cleanup_symbols :: bool
  oc_partition :: FactPartitionKey

record FactRoutePartition =
  rp_partition :: FactPartitionKey
  rp_transient_file_handle :: "int option"

record SerialFactRoute =
  sr_partitions :: "FactRoutePartition list"
  sr_main_partition :: nat

record PlannedFileRoute =
  ro_role :: PlannedFileRole
  ro_translation_unit :: string
  ro_translation_unit_file_id :: int
  ro_path :: string
  ro_discovery_ordinal :: nat
  ro_existing_file_id :: "int option"
  ro_snapshot :: PlannedSourceSnapshot
  ro_compile_options :: "string list option"
  ro_driver :: "string option"
  ro_cleanup_symbols :: bool
  ro_extraction :: FactRoutePartition

record OwnedHeaderRoutePlan =
  hp_generation :: string
  hp_token :: string
  hp_routes :: "PlannedFileRoute list"

definition nul :: char where "nul = CHR 0x00"

definition candidate_order :: "OwnedHeaderRouteCandidate \<Rightarrow> string \<times> nat \<times> string" where
  "candidate_order c = (oc_translation_unit c, oc_discovery_ordinal c, oc_path c)"

fun role_number :: "PlannedFileRole \<Rightarrow> nat" where
  "role_number translation_unit_role = 0" | "role_number owned_header_role = 1"

definition route_material :: "PlannedFileRoute \<Rightarrow> string" where
  "route_material r =
     [nul] @ show_nat (role_number (ro_role r)) @ [nul] @ ro_translation_unit r @ [nul] @ ro_path r
     @ [nul] @ (case ss_md5 (ro_snapshot r) of None \<Rightarrow> ''<missing>'' | Some md5 \<Rightarrow> md5)
     @ [nul] @ partition_string (rp_partition (ro_extraction r))"

definition plan_token :: "string \<Rightarrow> PlannedFileRoute list \<Rightarrow> string" where
  "plan_token generation routes =
     show_nat (unat (stable_fact_hash (generation @ concat (map route_material routes))))"

definition handle_key :: "OwnedHeaderRouteCandidate \<Rightarrow> string" where
  "handle_key c = oc_translation_unit c @ [nul] @ oc_path c @ [nul] @ partition_string (oc_partition c)"

definition route_of :: "OwnedHeaderRouteCandidate \<Rightarrow> int \<Rightarrow> PlannedFileRoute" where
  "route_of c h =
     \<lparr>ro_role = oc_role c, ro_translation_unit = oc_translation_unit c,
      ro_translation_unit_file_id = oc_translation_unit_file_id c, ro_path = oc_path c,
      ro_discovery_ordinal = oc_discovery_ordinal c, ro_existing_file_id = oc_existing_file_id c,
      ro_snapshot = oc_snapshot c, ro_compile_options = oc_compile_options c, ro_driver = oc_driver c,
      ro_cleanup_symbols = oc_cleanup_symbols c,
      ro_extraction = \<lparr>rp_partition = oc_partition c, rp_transient_file_handle = Some h\<rparr>\<rparr>"

definition planned_route ::
  "OwnedHeaderRouteCandidate \<Rightarrow> CollisionSafeHandleIndex \<Rightarrow> (PlannedFileRoute \<times> CollisionSafeHandleIndex) option" where
  "planned_route c handles =
     map_option (\<lambda>(h, handles'). (route_of c h, handles'))
       (find_or_insert stable_fact_hash (handle_key c) handles)"

fun serial_route_loop :: "string \<Rightarrow> PlannedFileRoute list \<Rightarrow> SerialFactRoute \<Rightarrow> SerialFactRoute" where
  "serial_route_loop tu [] result = result"
| "serial_route_loop tu (r # rs) result =
     (if ro_translation_unit r \<noteq> tu then serial_route_loop tu rs result
      else serial_route_loop tu rs
        \<lparr>sr_partitions = sr_partitions result @ [ro_extraction r],
         sr_main_partition = (if ro_role r = translation_unit_role then length (sr_partitions result)
                              else sr_main_partition result)\<rparr>)"

definition serial_route :: "OwnedHeaderRoutePlan \<Rightarrow> string \<Rightarrow> SerialFactRoute" where
  "serial_route plan tu = serial_route_loop tu (hp_routes plan) \<lparr>sr_partitions = [], sr_main_partition = 0\<rparr>"

type_synonym selection = "OwnedHeaderRouteCandidate list \<times> (string \<times> OwnedHeaderRouteCandidate) list"

datatype route_error = Missing_identities

fun select_candidates :: "OwnedHeaderRouteCandidate list \<Rightarrow> selection \<Rightarrow> route_error + selection" where
  "select_candidates [] s = Inr s"
| "select_candidates (c # cs) (selected, headers) =
     (if oc_translation_unit c = [] \<or> oc_path c = [] then Inl Missing_identities
      else if oc_role c = translation_unit_role then select_candidates cs (selected @ [c], headers)
      else select_candidates cs
        (selected,
         case map_of headers (oc_path c) of
           None \<Rightarrow> omap_insert (oc_path c) c headers
         | Some found \<Rightarrow> if candidate_order c < candidate_order found then omap_insert (oc_path c) c headers else headers))"

definition route_key :: "OwnedHeaderRouteCandidate \<Rightarrow> string \<times> nat \<times> nat \<times> string" where
  "route_key c = (oc_translation_unit c, role_number (oc_role c), oc_discovery_ordinal c, oc_path c)"

fun intern_routes :: "OwnedHeaderRouteCandidate list \<Rightarrow> CollisionSafeHandleIndex \<Rightarrow> PlannedFileRoute list option" where
  "intern_routes [] handles = Some []"
| "intern_routes (c # cs) handles =
     Option.bind (planned_route c handles) (\<lambda>(r, handles'). map_option (\<lambda>rs. r # rs) (intern_routes cs handles'))"

definition plan_owned_header_routes ::
  "string \<Rightarrow> OwnedHeaderRouteCandidate list \<Rightarrow> route_error + OwnedHeaderRoutePlan option" where
  "plan_owned_header_routes generation candidates =
     bindE (select_candidates candidates ([], [])) (\<lambda>(selected, headers).
       let ordered = sort_key route_key (selected @ map snd headers) in
       Inr (map_option (\<lambda>routes. \<lparr>hp_generation = generation, hp_token = plan_token generation routes, hp_routes = routes\<rparr>)
         (intern_routes ordered new_index)))"

subsection \<open>Selection\<close>

abbreviation is_tu :: "OwnedHeaderRouteCandidate \<Rightarrow> bool" where
  "is_tu c \<equiv> oc_role c = translation_unit_role"

definition valid_candidate :: "OwnedHeaderRouteCandidate \<Rightarrow> bool" where
  "valid_candidate c \<longleftrightarrow> oc_translation_unit c \<noteq> [] \<and> oc_path c \<noteq> []"

fun earlier :: "OwnedHeaderRouteCandidate option \<Rightarrow> OwnedHeaderRouteCandidate \<Rightarrow> OwnedHeaderRouteCandidate option" where
  "earlier None c = Some c"
| "earlier (Some b) c = (if candidate_order c < candidate_order b then Some c else Some b)"

abbreviation headers_at :: "string \<Rightarrow> OwnedHeaderRouteCandidate list \<Rightarrow> OwnedHeaderRouteCandidate list" where
  "headers_at p cs \<equiv> filter (\<lambda>c. \<not> is_tu c \<and> oc_path c = p) cs"

lemma select_candidates_error:
  "(\<exists>e. select_candidates cs s = Inl e) \<longleftrightarrow> \<not> list_all valid_candidate cs"
proof (induction cs s rule: select_candidates.induct)
  case (2 c cs selected headers)
  then show ?case by (auto simp: valid_candidate_def split: option.splits)
qed simp

lemma select_candidates_result:
  "select_candidates cs (selected, headers) = Inr (selected', headers') \<Longrightarrow> omap_sorted headers \<Longrightarrow>
     selected' = selected @ filter is_tu cs \<and> omap_sorted headers'
     \<and> (\<forall>p. map_of headers' p = foldl earlier (map_of headers p) (headers_at p cs))"
proof (induction cs arbitrary: selected headers)
  case (Cons c cs)
  show ?case
  proof (cases "is_tu c")
    case True
    then show ?thesis using Cons.prems Cons.IH [of "selected @ [c]" headers] by (simp split: if_splits)
  next
    case False
    let ?h = "case map_of headers (oc_path c) of None \<Rightarrow> omap_insert (oc_path c) c headers
      | Some found \<Rightarrow> if candidate_order c < candidate_order found then omap_insert (oc_path c) c headers else headers"
    have "select_candidates cs (selected, ?h) = Inr (selected', headers')"
      using Cons.prems(1) False by (simp split: if_splits)
    moreover have "omap_sorted ?h" using Cons.prems(2) by (simp split: option.splits)
    moreover have "map_of ?h p = (if oc_path c = p then earlier (map_of headers p) c else map_of headers p)" for p
      by (auto split: option.splits)
    ultimately show ?thesis using Cons.IH [of selected ?h] False by auto
  qed
qed simp

lemma foldl_earlier:
  "foldl earlier b cs = Some m \<Longrightarrow>
     (m \<in> set cs \<or> b = Some m) \<and> (\<forall>c \<in> set cs. candidate_order m \<le> candidate_order c)
     \<and> (\<forall>c. b = Some c \<longrightarrow> candidate_order m \<le> candidate_order c)"
proof (induction cs arbitrary: b)
  case (Cons c cs)
  have "earlier b c \<noteq> None" by (cases b) auto
  then obtain m' where m': "earlier b c = Some m'" by blast
  have "(m' = c \<or> b = Some m') \<and> candidate_order m' \<le> candidate_order c
      \<and> (\<forall>d. b = Some d \<longrightarrow> candidate_order m' \<le> candidate_order d)"
    using m' by (cases b) (auto split: if_splits simp: not_less intro: less_imp_le)
  moreover have "foldl earlier (Some m') cs = Some m" using Cons.prems m' by simp
  ultimately show ?case using Cons.IH [of "Some m'"] by (auto intro: order_trans)
qed simp

lemma foldl_earlier_Some: "foldl earlier (Some b) cs \<noteq> None"
  by (induction cs arbitrary: b) auto

lemma foldl_earlier_None: "foldl earlier None cs = None \<longleftrightarrow> cs = []"
  using foldl_earlier_Some by (cases cs) auto

text \<open>The owner of a header: the candidate that comes first.\<close>

definition owner :: "OwnedHeaderRouteCandidate list \<Rightarrow> string \<Rightarrow> OwnedHeaderRouteCandidate option" where
  "owner cs p = foldl earlier None (headers_at p cs)"

lemma owner_first:
  assumes "owner cs p = Some m"
  shows "m \<in> set cs" "\<not> is_tu m" "oc_path m = p"
    "c \<in> set cs \<Longrightarrow> \<not> is_tu c \<Longrightarrow> oc_path c = p \<Longrightarrow> candidate_order m \<le> candidate_order c"
  using foldl_earlier [OF assms [unfolded owner_def]] by auto

lemma owner_None: "owner cs p = None \<longleftrightarrow> (\<forall>c \<in> set cs. is_tu c \<or> oc_path c \<noteq> p)"
  by (auto simp: owner_def foldl_earlier_None filter_empty_conv)

lemma owner_same:
  assumes "set cs = set cs'" "inj_on route_key (set cs)"
  shows "owner cs p = owner cs' p"
proof (cases "owner cs p")
  case None
  then have "owner cs' p = None" unfolding owner_None using assms(1) by simp
  with None show ?thesis by simp
next
  case (Some m)
  then have "owner cs' p \<noteq> None" using owner_None [of cs p] owner_None [of cs' p] assms(1) by auto
  then obtain m' where m': "owner cs' p = Some m'" by blast
  note a = owner_first [OF Some] and b = owner_first [OF m']
  have "candidate_order m = candidate_order m'"
    using a(4) [of m'] b(4) [of m] a(1-3) b(1-3) assms(1) by (intro order_antisym) simp_all
  moreover have "oc_role m = oc_role m'" using a(2) b(2) by (cases "oc_role m"; cases "oc_role m'") auto
  ultimately have "route_key m = route_key m'" by (simp add: candidate_order_def route_key_def)
  then have "m = m'" using inj_onD [OF assms(2)] a(1) b(1) assms(1) by blast
  with Some m' show ?thesis by simp
qed

lemma select_candidates_spec:
  assumes "list_all valid_candidate cs"
  obtains headers where "select_candidates cs ([], []) = Inr (filter is_tu cs, headers)" "omap_sorted headers"
    "\<And>p. map_of headers p = owner cs p"
proof -
  obtain selected headers where r: "select_candidates cs ([], []) = Inr (selected, headers)"
    using select_candidates_error [of cs "([], [])"] assms by (cases "select_candidates cs ([], [])") auto
  from select_candidates_result [OF r] that r show ?thesis by (simp add: owner_def)
qed

lemma omap_entry: "omap_sorted m \<Longrightarrow> map_of m k = Some v \<longleftrightarrow> (k, v) \<in> set m"
  by (metis map_of_SomeD map_of_is_SomeI strict_sorted_iff)

lemma omap_by_keys: "omap_sorted m \<Longrightarrow> m = map (\<lambda>k. (k, the (map_of m k))) (map fst m)"
proof -
  assume sorted: "omap_sorted m"
  have "(fst e, the (map_of m (fst e))) = e" if "e \<in> set m" for e
    using omap_entry [OF sorted, of "fst e" "snd e"] that by (metis option.sel prod.collapse)
  then have "map (\<lambda>e. (fst e, the (map_of m (fst e)))) m = m" by (intro map_idI) blast
  then show ?thesis by (simp add: comp_def)
qed

lemma omap_ext:
  assumes "omap_sorted m" "omap_sorted m'" "map_of m = map_of m'"
  shows "m = m'"
proof -
  have "set (map fst m) = set (map fst m')" using arg_cong [OF assms(3), of dom] by (simp add: dom_map_of_conv_image_fst)
  then have "map fst m = map fst m'" using assms(1,2) by (metis sorted_distinct_set_unique strict_sorted_iff)
  with omap_by_keys [OF assms(1)] omap_by_keys [OF assms(2)] assms(3) show ?thesis by metis
qed

subsection \<open>Routes\<close>

lemma intern_routes_handles:
  "intern_routes cs ix = Some rs \<Longrightarrow> indexed stable_fact_hash ix \<Longrightarrow>
     \<exists>ix'. indexed stable_fact_hash ix' \<and> (\<forall>k h. find ix k = Some h \<longrightarrow> find ix' k = Some h)
       \<and> list_all2 (\<lambda>c r. \<exists>h. r = route_of c h \<and> find ix' (handle_key c) = Some h) cs rs"
proof (induction cs arbitrary: ix rs)
  case (Cons c cs)
  from Cons.prems(1) obtain h ix1 rs1 where step: "find_or_insert stable_fact_hash (handle_key c) ix = Some (h, ix1)"
    "intern_routes cs ix1 = Some rs1" "rs = route_of c h # rs1"
    by (auto simp: planned_route_def bind_eq_Some_conv)
  have ix1: "indexed stable_fact_hash ix1" using indexed.interned [OF Cons.prems(2) step(1)] .
  from step(1) indexed_wf [OF Cons.prems(2)] have own: "find ix1 (handle_key c) = Some h"
    and keep: "find ix k = Some g \<Longrightarrow> find ix1 k = Some g" for k g
    by (cases rule: find_or_insert_cases; auto simp: find_def)+
  from Cons.IH [OF step(2) ix1] obtain ix' where "indexed stable_fact_hash ix'"
    "\<And>k h. find ix1 k = Some h \<Longrightarrow> find ix' k = Some h"
    "list_all2 (\<lambda>c r. \<exists>h. r = route_of c h \<and> find ix' (handle_key c) = Some h) cs rs1" by blast
  then show ?case using own keep step(3) by (intro exI [of _ ix']) auto
qed auto

definition key_of_route :: "PlannedFileRoute \<Rightarrow> string \<times> nat \<times> nat \<times> string" where
  "key_of_route r = (ro_translation_unit r, role_number (ro_role r), ro_discovery_ordinal r, ro_path r)"

lemma key_of_route_of [simp]: "key_of_route (route_of c h) = route_key c"
  by (simp add: key_of_route_def route_of_def route_key_def)

lemma plan_routes:
  assumes "plan_owned_header_routes g cs = Inr (Some plan)"
  obtains headers ix where "list_all valid_candidate cs" "omap_sorted headers" "\<And>p. map_of headers p = owner cs p"
    "indexed stable_fact_hash ix"
    "list_all2 (\<lambda>c r. \<exists>h. r = route_of c h \<and> find ix (handle_key c) = Some h)
       (sort_key route_key (filter is_tu cs @ map snd headers)) (hp_routes plan)"
proof -
  from assms obtain sel where "select_candidates cs ([], []) = Inr sel"
    by (auto simp: plan_owned_header_routes_def bindE_Inr_iff)
  then have valid: "list_all valid_candidate cs" using select_candidates_error [of cs "([], [])"] by auto
  then obtain headers where h: "select_candidates cs ([], []) = Inr (filter is_tu cs, headers)" "omap_sorted headers"
    "\<And>p. map_of headers p = owner cs p" by (rule select_candidates_spec) blast
  from assms h(1) obtain rs where
    "intern_routes (sort_key route_key (filter is_tu cs @ map snd headers)) new_index = Some rs" "hp_routes plan = rs"
    by (auto simp: plan_owned_header_routes_def Let_def)
  with intern_routes_handles [OF _ indexed.fresh_index] that [OF valid h(2,3)] show ?thesis by blast
qed

abbreviation owners :: "OwnedHeaderRouteCandidate list \<Rightarrow> OwnedHeaderRouteCandidate set" where
  "owners cs \<equiv> {c. owner cs (oc_path c) = Some c}"

lemma header_values:
  assumes "omap_sorted headers" "\<And>p. map_of headers p = owner cs p"
  shows "set (map snd headers) = owners cs" "map oc_path (map snd headers) = map fst headers"
    "filter is_tu (map snd headers) = []" "filter (\<lambda>c. \<not> is_tu c) (map snd headers) = map snd headers"
proof -
  have entry: "oc_path c = p \<and> \<not> is_tu c \<and> owner cs p = Some c" if "(p, c) \<in> set headers" for p c
    using that omap_entry [OF assms(1)] assms(2) owner_first by metis
  have found: "(oc_path c, c) \<in> set headers" if "owner cs (oc_path c) = Some c" for c
    using that omap_entry [OF assms(1)] assms(2) by metis
  show "set (map snd headers) = owners cs"
  proof (intro equalityI subsetI)
    fix c assume "c \<in> set (map snd headers)"
    then obtain p where "(p, c) \<in> set headers" by auto
    from entry [OF this] show "c \<in> owners cs" by simp
  next
    fix c assume "c \<in> owners cs"
    then have "(oc_path c, c) \<in> set headers" by (intro found) simp
    then show "c \<in> set (map snd headers)" by force
  qed
  show "map oc_path (map snd headers) = map fst headers" using entry by auto
  show "filter is_tu (map snd headers) = []" "filter (\<lambda>c. \<not> is_tu c) (map snd headers) = map snd headers"
    using entry by (auto simp: filter_empty_conv filter_id_conv)
qed

lemma mset_filter_sort_key: "mset (filter P (sort_key f xs)) = mset (filter P xs)"
  by simp

definition handles_match :: "(OwnedHeaderRouteCandidate \<times> PlannedFileRoute) list \<Rightarrow> bool" where
  "handles_match routed = list_all (\<lambda>(c, r). list_all (\<lambda>(c', r').
     (rp_transient_file_handle (ro_extraction r) = rp_transient_file_handle (ro_extraction r'))
     = (handle_key c = handle_key c')) routed) routed"

lemma handles_match_routes:
  assumes "list_all2 (\<lambda>c r. \<exists>h. r = route_of c h \<and> find ix (handle_key c) = Some h) cs rs"
    "indexed stable_fact_hash ix"
  shows "handles_match (zip cs rs)"
proof -
  have routed: "\<exists>h. r = route_of c h \<and> find ix (handle_key c) = Some h" if "(c, r) \<in> set (zip cs rs)" for c r
    using assms(1) that by (auto simp: list_all2_iff)
  have same: "h = h' \<longleftrightarrow> k = k'" if "find ix k = Some h" "find ix k' = Some h'" for k k' h h'
    using indexed_wf [OF assms(2)] that unfolding index_wf_def find_def by (metis option.inject)
  have "(rp_transient_file_handle (ro_extraction r) = rp_transient_file_handle (ro_extraction r')) = (handle_key c = handle_key c')"
    if "(c, r) \<in> set (zip cs rs)" "(c', r') \<in> set (zip cs rs)" for c r c' r'
    using routed [OF that(1)] routed [OF that(2)] same by (auto simp: route_of_def)
  then show ?thesis by (auto simp: handles_match_def list_all_iff)
qed

lemma owner_covers:
  assumes "c \<in> set cs"
  shows "is_tu c \<or> (\<exists>m \<in> owners cs. oc_path m = oc_path c \<and> candidate_order m \<le> candidate_order c)"
proof (cases "is_tu c")
  case False
  then obtain m where "owner cs (oc_path c) = Some m" using owner_None [of cs "oc_path c"] assms by auto
  note m = this owner_first [OF this]
  then have "m \<in> owners cs" "oc_path m = oc_path c" "candidate_order m \<le> candidate_order c" using False assms by simp_all
  then show ?thesis by blast
qed simp

text \<open>(C22) In every plan the routes follow an ordering of chosen candidates by unit, role, discovery and
  path: all translation units, and for each header path exactly one candidate, its owner, than
  which no candidate for this path comes earlier. Two routes share a transient handle if and only if
  unit, path and partition render to the same key.\<close>

theorem owned_headers_once:
  assumes "plan_owned_header_routes g cs = Inr (Some plan)"
  shows "(\<exists>chosen. sorted (map route_key chosen)
      \<and> mset (filter is_tu chosen) = mset (filter is_tu cs)
      \<and> set (filter (\<lambda>c. \<not> is_tu c) chosen) = owners cs
      \<and> distinct (map oc_path (filter (\<lambda>c. \<not> is_tu c) chosen))
      \<and> list_all2 (\<lambda>c r. \<exists>h. r = route_of c h) chosen (hp_routes plan)
      \<and> handles_match (zip chosen (hp_routes plan)))
    \<and> (\<forall>c \<in> set cs. is_tu c \<or> (\<exists>m \<in> owners cs. oc_path m = oc_path c \<and> candidate_order m \<le> candidate_order c))"
proof -
  from assms obtain headers ix where h: "omap_sorted headers" "\<And>p. map_of headers p = owner cs p"
    and ix: "indexed stable_fact_hash ix"
    and rs: "list_all2 (\<lambda>c r. \<exists>h. r = route_of c h \<and> find ix (handle_key c) = Some h)
       (sort_key route_key (filter is_tu cs @ map snd headers)) (hp_routes plan)" by (rule plan_routes) blast
  let ?chosen = "sort_key route_key (filter is_tu cs @ map snd headers)"
  note v = header_values [OF h]
  have tus: "mset (filter is_tu ?chosen) = mset (filter is_tu cs)"
    unfolding mset_filter_sort_key filter_append v(3) by simp
  have heads: "mset (filter (\<lambda>c. \<not> is_tu c) ?chosen) = mset (map snd headers)"
    unfolding mset_filter_sort_key filter_append v(4) by simp
  then have set_heads: "set (filter (\<lambda>c. \<not> is_tu c) ?chosen) = owners cs" using v(1) by (metis set_mset_mset)
  have "mset (map oc_path (filter (\<lambda>c. \<not> is_tu c) ?chosen)) = mset (map oc_path (map snd headers))"
    unfolding mset_map heads ..
  then have dist: "distinct (map oc_path (filter (\<lambda>c. \<not> is_tu c) ?chosen))"
    unfolding v(2) using h(1) by (metis mset_eq_imp_distinct_iff strict_sorted_iff)
  have handles: "handles_match (zip ?chosen (hp_routes plan))" using rs ix by (rule handles_match_routes)
  have "list_all2 (\<lambda>c r. \<exists>h. r = route_of c h) ?chosen (hp_routes plan)" using rs by (rule list_all2_mono) blast
  with tus set_heads dist handles have "sorted (map route_key ?chosen)
      \<and> mset (filter is_tu ?chosen) = mset (filter is_tu cs) \<and> set (filter (\<lambda>c. \<not> is_tu c) ?chosen) = owners cs
      \<and> distinct (map oc_path (filter (\<lambda>c. \<not> is_tu c) ?chosen))
      \<and> list_all2 (\<lambda>c r. \<exists>h. r = route_of c h) ?chosen (hp_routes plan) \<and> handles_match (zip ?chosen (hp_routes plan))"
    by (intro conjI sorted_sort_key)
  moreover have "is_tu c \<or> (\<exists>m \<in> owners cs. oc_path m = oc_path c \<and> candidate_order m \<le> candidate_order c)"
    if "c \<in> set cs" for c using owner_covers [OF that] .
  ultimately show ?thesis by blast
qed

definition sample_candidate :: "string \<Rightarrow> OwnedHeaderRouteCandidate" where
  "sample_candidate tu =
     \<lparr>oc_role = owned_header_role, oc_translation_unit = tu, oc_translation_unit_file_id = 1, oc_path = ''a.h'',
      oc_discovery_ordinal = 0, oc_existing_file_id = None, oc_snapshot = \<lparr>ss_mtime = None, ss_md5 = None\<rparr>,
      oc_compile_options = None, oc_driver = None, oc_cleanup_symbols = False,
      oc_partition = \<lparr>pk_file = \<lparr>pf_component_path = [], pf_directory_path = [], pf_file_name = ''a.h''\<rparr>,
        pk_configuration = \<lparr>ci_semantic_universe = [], ci_translation_unit = tu, ci_normalized_configuration = [],
          ci_identity_source = [], ci_content = \<lparr>cc_driver = None, cc_working_dir = None, cc_arguments = [],
            cc_lang_mode = None, cc_resource_dir = None\<rparr>\<rparr>\<rparr>\<rparr>"

lemma sample_selection:
  "select_candidates [sample_candidate ''2.cpp'', sample_candidate ''1.cpp''] ([], [])
     = Inr ([], [(''a.h'', sample_candidate ''1.cpp'')])"
  by (simp add: sample_candidate_def candidate_order_def)

lemma owned_headers_once_witness:
  "\<exists>plan. plan_owned_header_routes ''g'' [sample_candidate ''2.cpp'', sample_candidate ''1.cpp''] = Inr (Some plan)
     \<and> (\<exists>chosen. list_all2 (\<lambda>c r. \<exists>h. r = route_of c h) chosen (hp_routes plan))"
proof -
  have "intern_routes [sample_candidate ''1.cpp''] new_index \<noteq> None"
    by (simp add: planned_route_def find_or_insert_def new_index_def find_candidate.simps)
  then obtain plan where
    "plan_owned_header_routes ''g'' [sample_candidate ''2.cpp'', sample_candidate ''1.cpp''] = Inr (Some plan)"
    unfolding plan_owned_header_routes_def sample_selection by auto
  with owned_headers_once [OF this] show ?thesis by blast
qed

text \<open>The plan does not depend on the order in which candidates were discovered: lists with the
  same candidates, no two of which agree on the whole sort key, give the same plan or the same
  refusal.\<close>

theorem plan_order_independent:
  assumes "mset cs = mset cs'" "inj_on route_key (set cs)"
  shows "plan_owned_header_routes g cs = plan_owned_header_routes g cs'"
proof -
  have set: "set cs = set cs'" using assms(1) by (metis set_mset_mset)
  show ?thesis
  proof (cases "list_all valid_candidate cs")
    case False
    then have "\<exists>e. select_candidates cs ([], []) = Inl e" "\<exists>e. select_candidates cs' ([], []) = Inl e"
      using set by (simp_all add: select_candidates_error list_all_iff)
    then have "select_candidates cs ([], []) = Inl Missing_identities" "select_candidates cs' ([], []) = Inl Missing_identities"
      using route_error.exhaust by metis+
    then show ?thesis by (simp add: plan_owned_header_routes_def)
  next
    case True
    then have True': "list_all valid_candidate cs'" using set by (simp add: list_all_iff)
    obtain h where h: "select_candidates cs ([], []) = Inr (filter is_tu cs, h)" "omap_sorted h" "\<And>p. map_of h p = owner cs p"
      using select_candidates_spec [OF True] by metis
    obtain h' where h': "select_candidates cs' ([], []) = Inr (filter is_tu cs', h')" "omap_sorted h'" "\<And>p. map_of h' p = owner cs' p"
      using select_candidates_spec [OF True'] by metis
    have "owner cs p = owner cs' p" for p by (rule owner_same [OF set assms(2)])
    then have "h = h'" using h h' by (intro omap_ext) auto
    moreover have "mset (filter is_tu cs @ map snd h) = mset (filter is_tu cs' @ map snd h)"
      using assms(1) by simp
    moreover have "set (filter is_tu cs @ map snd h) \<subseteq> set cs"
      using header_values(1) [OF h(2,3)] owner_first(1) by fastforce
    then have "inj_on route_key (set (filter is_tu cs @ map snd h))" using assms(2) by (rule inj_on_subset [rotated])
    ultimately have "sort_key route_key (filter is_tu cs @ map snd h) = sort_key route_key (filter is_tu cs' @ map snd h')"
      by (intro sort_key_inj_key_eq) simp_all
    then show ?thesis using h(1) h'(1) by (simp add: plan_owned_header_routes_def Let_def)
  qed
qed

lemma plan_order_independent_witness:
  "plan_owned_header_routes ''g'' [sample_candidate ''2.cpp'', sample_candidate ''1.cpp'']
     = plan_owned_header_routes ''g'' [sample_candidate ''1.cpp'', sample_candidate ''2.cpp'']"
  by (rule plan_order_independent) (simp_all add: sample_candidate_def route_key_def add_mset_commute)

end
