(* ===== verification/Pass_Registry.thy ===== *)
theory Pass_Registry
  imports Delimited Canonical_Order
begin

text \<open>
  Registry, plans and budgets of extraction passes (\<^verbatim>\<open>ast/pass_registry.hpp\<close>,
  \<^verbatim>\<open>pass_registry.cpp\<close>, \<^verbatim>\<open>indexing_plan.hpp\<close>). A runner is the sequence of operations it
  performs on its metrics and on its ports, in the order it performs them; it may catch
  an exception of a single operation. The ports behind the budgeted ones are a
  parameter acting on a world. Times are left out, counters are naturals.
\<close>

subsection \<open>Descriptors\<close>

datatype FrontendCapability = cap_ast | cap_preprocessor | cap_cfg | cap_templates

datatype PassScope = scope_translation_unit | scope_main_file | scope_owned_header

datatype TraversalMode = traverse_declaration | traverse_body | traverse_preprocessing | traverse_lifecycle

datatype FactCompleteness = fact_complete | fact_partial | fact_unknown | fact_error

datatype FactTrust = trust_trusted | trust_provisional | trust_inferred

record PassBudget =
  bg_max_visited_constructs :: nat
  bg_max_emitted_facts :: nat
  bg_max_diagnostics :: nat
  bg_max_whole_tu_traversals :: nat
  bg_declared :: bool

record ExtractionPassDescriptor =
  pd_id :: string
  pd_version :: nat
  pd_required_capabilities :: "FrontendCapability list"
  pd_consumed_fact_families :: "string list"
  pd_produced_fact_families :: "string list"
  pd_catalog_versions :: "nat list"
  pd_dependencies :: "string list"
  pd_scope :: PassScope
  pd_traversal :: TraversalMode
  pd_completeness :: FactCompleteness
  pd_trust :: FactTrust
  pd_budget :: PassBudget

fun capability_number :: "FrontendCapability \<Rightarrow> nat" where
  "capability_number cap_ast = 0" | "capability_number cap_preprocessor = 1"
| "capability_number cap_cfg = 2" | "capability_number cap_templates = 3"

fun scope_number :: "PassScope \<Rightarrow> nat" where
  "scope_number scope_translation_unit = 0" | "scope_number scope_main_file = 1" | "scope_number scope_owned_header = 2"

fun traversal_number :: "TraversalMode \<Rightarrow> nat" where
  "traversal_number traverse_declaration = 0" | "traversal_number traverse_body = 1"
| "traversal_number traverse_preprocessing = 2" | "traversal_number traverse_lifecycle = 3"

fun completeness_number :: "FactCompleteness \<Rightarrow> nat" where
  "completeness_number fact_complete = 0" | "completeness_number fact_partial = 1"
| "completeness_number fact_unknown = 2" | "completeness_number fact_error = 3"

fun trust_number :: "FactTrust \<Rightarrow> nat" where
  "trust_number trust_trusted = 0" | "trust_number trust_provisional = 1" | "trust_number trust_inferred = 2"

definition append_number_keys :: "nat list \<Rightarrow> string" where
  "append_number_keys values = show_nat (length values) @ '':'' @ concat (map (\<lambda>v. show_nat v @ '';'') values)"

definition append_string_keys :: "string list \<Rightarrow> string" where
  "append_string_keys values =
     show_nat (length values) @ '':'' @ concat (map (\<lambda>v. show_nat (length v) @ '':'' @ v @ '';'') values)"

definition budget_key :: "PassBudget \<Rightarrow> string" where
  "budget_key b =
     show_nat (bg_max_visited_constructs b) @ '','' @ show_nat (bg_max_emitted_facts b) @ '',''
     @ show_nat (bg_max_diagnostics b) @ '','' @ show_nat (bg_max_whole_tu_traversals b) @ '',''
     @ show_nat (if bg_declared b then 1 else 0)"

definition stable_key :: "ExtractionPassDescriptor \<Rightarrow> string" where
  "stable_key d =
     ''id='' @ show_nat (length (pd_id d)) @ '':'' @ pd_id d
     @ ''|version='' @ show_nat (pd_version d)
     @ ''|capabilities='' @ append_number_keys (map capability_number (pd_required_capabilities d))
     @ ''|inputs='' @ append_string_keys (pd_consumed_fact_families d)
     @ ''|facts='' @ append_string_keys (pd_produced_fact_families d)
     @ ''|catalog='' @ append_number_keys (pd_catalog_versions d)
     @ ''|dependencies='' @ append_string_keys (pd_dependencies d)
     @ ''|scope='' @ show_nat (scope_number (pd_scope d))
     @ ''|traversal='' @ show_nat (traversal_number (pd_traversal d))
     @ ''|completeness='' @ show_nat (completeness_number (pd_completeness d))
     @ ''|trust='' @ show_nat (trust_number (pd_trust d))
     @ ''|budget='' @ budget_key (pd_budget d)"

subsection \<open>Plans\<close>

datatype pass_error =
    Budget_exceeded string string
  | Capability_unavailable string FrontendCapability
  | Session_required string
  | Invalid_argument string
  | Port_failure string

type_synonym IndexingPlan = "string list"

definition plan_add :: "string \<Rightarrow> IndexingPlan \<Rightarrow> IndexingPlan" where
  "plan_add pass_id steps = steps @ [pass_id]"

fun insert_at :: "string \<Rightarrow> string \<Rightarrow> IndexingPlan \<Rightarrow> IndexingPlan option" where
  "insert_at anchor pass_id [] = None"
| "insert_at anchor pass_id (s # steps) =
     (if s = anchor then Some (pass_id # s # steps) else map_option ((#) s) (insert_at anchor pass_id steps))"

definition insert_before :: "string \<Rightarrow> string \<Rightarrow> IndexingPlan \<Rightarrow> pass_error + IndexingPlan" where
  "insert_before anchor pass_id steps =
     (case insert_at anchor pass_id steps of
        None \<Rightarrow> Inl (Invalid_argument (''plan anchor is not registered: '' @ anchor))
      | Some steps' \<Rightarrow> Inr steps')"

definition plan_contains :: "IndexingPlan \<Rightarrow> string \<Rightarrow> bool" where
  "plan_contains steps pass_id = list_ex (\<lambda>s. s = pass_id) steps"

subsection \<open>Metrics\<close>

record FactFamily =
  ff_attempted :: nat
  ff_persisted :: nat
  ff_duplicates :: nat

record PassMetrics =
  pm_visited_constructs :: nat
  pm_emitted_facts :: nat
  pm_unknown_constructs :: nat
  pm_duplicates :: nat
  pm_diagnostics :: nat
  pm_whole_tu_traversals :: nat
  pm_budget_exhausted :: bool
  pm_diagnostic_messages :: "string list"
  pm_fact_families :: "(string \<times> FactFamily) list"
  pm_pass_id :: string
  pm_budget :: PassBudget

definition bound_metrics :: "string \<Rightarrow> PassBudget \<Rightarrow> PassMetrics" where
  "bound_metrics pass_id budget =
     \<lparr>pm_visited_constructs = 0, pm_emitted_facts = 0, pm_unknown_constructs = 0, pm_duplicates = 0,
      pm_diagnostics = 0, pm_whole_tu_traversals = 0, pm_budget_exhausted = False, pm_diagnostic_messages = [],
      pm_fact_families = [], pm_pass_id = pass_id, pm_budget = budget\<rparr>"

text \<open>A metric update may throw after it has changed the metrics.\<close>

type_synonym noted = "pass_error option \<times> PassMetrics"

definition enforce :: "nat \<Rightarrow> nat \<Rightarrow> string \<Rightarrow> PassMetrics \<Rightarrow> noted" where
  "enforce value limit dimension m =
     (if limit \<noteq> 0 \<and> value > limit
      then (Some (Budget_exceeded (pm_pass_id m) dimension),
            m\<lparr>pm_budget_exhausted := True,
              pm_diagnostic_messages := pm_diagnostic_messages m @ [''budget exceeded: '' @ dimension]\<rparr>)
      else (None, m))"

definition note_visited :: "nat \<Rightarrow> PassMetrics \<Rightarrow> noted" where
  "note_visited n m =
     (let m' = m\<lparr>pm_visited_constructs := pm_visited_constructs m + n\<rparr>
      in enforce (pm_visited_constructs m') (bg_max_visited_constructs (pm_budget m')) ''visited'' m')"

definition note_emitted :: "nat \<Rightarrow> PassMetrics \<Rightarrow> noted" where
  "note_emitted n m =
     (let m' = m\<lparr>pm_emitted_facts := pm_emitted_facts m + n\<rparr>
      in enforce (pm_emitted_facts m') (bg_max_emitted_facts (pm_budget m')) ''emitted'' m')"

definition note_unknown :: "nat \<Rightarrow> PassMetrics \<Rightarrow> PassMetrics" where
  "note_unknown n m = m\<lparr>pm_unknown_constructs := pm_unknown_constructs m + n\<rparr>"

definition note_duplicate :: "nat \<Rightarrow> PassMetrics \<Rightarrow> PassMetrics" where
  "note_duplicate n m = m\<lparr>pm_duplicates := pm_duplicates m + n\<rparr>"

definition note_fact_family :: "string \<Rightarrow> nat \<Rightarrow> nat \<Rightarrow> nat \<Rightarrow> PassMetrics \<Rightarrow> PassMetrics" where
  "note_fact_family family attempted persisted duplicates m =
     (let counts = (case map_of (pm_fact_families m) family of
          None \<Rightarrow> \<lparr>ff_attempted = 0, ff_persisted = 0, ff_duplicates = 0\<rparr> | Some c \<Rightarrow> c)
      in m\<lparr>pm_fact_families := omap_insert family
          \<lparr>ff_attempted = ff_attempted counts + attempted, ff_persisted = ff_persisted counts + persisted,
           ff_duplicates = ff_duplicates counts + duplicates\<rparr> (pm_fact_families m)\<rparr>)"

definition note_diagnostic :: "string \<Rightarrow> PassMetrics \<Rightarrow> noted" where
  "note_diagnostic message m =
     (let m' = m\<lparr>pm_diagnostics := pm_diagnostics m + 1,
                 pm_diagnostic_messages := pm_diagnostic_messages m @ [message]\<rparr>
      in enforce (pm_diagnostics m') (bg_max_diagnostics (pm_budget m')) ''diagnostics'' m')"

definition note_whole_tu_traversal :: "nat \<Rightarrow> PassMetrics \<Rightarrow> noted" where
  "note_whole_tu_traversal n m =
     (let m' = m\<lparr>pm_whole_tu_traversals := pm_whole_tu_traversals m + n\<rparr>
      in if pm_whole_tu_traversals m' > bg_max_whole_tu_traversals (pm_budget m')
         then (Some (Budget_exceeded (pm_pass_id m') ''whole_tu_traversals''), m'\<lparr>pm_budget_exhausted := True\<rparr>)
         else (None, m'))"

subsection \<open>Budgeted ports\<close>

text \<open>The calls of the ports, each with the facts it stands for and its family; lookups are free.\<close>

datatype port_call =
    Lookup
  | Mint_symbol
  | Add_edge
  | Ensure_edge
  | Add_edge_site
  | Add_call_arg
  | Add_template_param
  | Add_template_arg
  | Intern_type_node
  | Add_type_edge
  | Replace_parameters nat
  | Add_symbol_type
  | Emit_evidence
  | Emit_intent
  | Get_or_create_definition
  | Add_def_edge
  | Copy_body_edges nat

fun call_facts :: "port_call \<Rightarrow> nat" where
  "call_facts Lookup = 0"
| "call_facts (Replace_parameters n) = n"
| "call_facts (Copy_body_edges n) = n"
| "call_facts _ = 1"

fun call_family :: "port_call \<Rightarrow> string option" where
  "call_family Lookup = None"
| "call_family Mint_symbol = Some ''symbols''"
| "call_family Add_edge = Some ''relations''"
| "call_family Ensure_edge = Some ''relations''"
| "call_family Add_edge_site = Some ''relations''"
| "call_family Add_call_arg = Some ''relations''"
| "call_family Add_template_param = Some ''types''"
| "call_family Add_template_arg = Some ''types''"
| "call_family Intern_type_node = Some ''types''"
| "call_family Add_type_edge = Some ''types''"
| "call_family (Replace_parameters _) = Some ''types''"
| "call_family Add_symbol_type = Some ''types''"
| "call_family Emit_evidence = Some ''evidence''"
| "call_family Emit_intent = Some ''presentation_intents''"
| "call_family Get_or_create_definition = Some ''definitions''"
| "call_family Add_def_edge = Some ''relations''"
| "call_family (Copy_body_edges _) = Some ''relations''"

type_synonym 'w port = "port_call \<Rightarrow> 'w \<Rightarrow> string option \<times> 'w"

text \<open>The state of a running pass: its metrics, the world behind the ports and the calls that reached
  them.\<close>

record 'w pass_state =
  ps_metrics :: PassMetrics
  ps_world :: 'w
  ps_delivered :: "port_call list"

definition port_through :: "'w port \<Rightarrow> port_call \<Rightarrow> 'w pass_state \<Rightarrow> pass_error option \<times> 'w pass_state" where
  "port_through port call s =
     (let (failure, w) = port call (ps_world s)
      in (map_option Port_failure failure, s\<lparr>ps_world := w, ps_delivered := ps_delivered s @ [call]\<rparr>))"

definition budgeted_call :: "'w port \<Rightarrow> port_call \<Rightarrow> 'w pass_state \<Rightarrow> pass_error option \<times> 'w pass_state" where
  "budgeted_call port call s =
     (case call_family call of
        None \<Rightarrow> port_through port call s
      | Some family \<Rightarrow>
          (case note_emitted (call_facts call) (ps_metrics s) of
             (Some e, m) \<Rightarrow> (Some e, s\<lparr>ps_metrics := m\<rparr>)
           | (None, m) \<Rightarrow>
               (case port_through port call (s\<lparr>ps_metrics := m\<rparr>) of
                  (Some e, s') \<Rightarrow> (Some e, s')
                | (None, s') \<Rightarrow>
                    (None, s'\<lparr>ps_metrics := note_fact_family family (call_facts call) (call_facts call) 0 (ps_metrics s')\<rparr>))))"

subsection \<open>Runners\<close>

datatype pass_op =
    Visit nat
  | Unknown nat
  | Duplicate nat
  | Diagnose string
  | Traverse nat
  | Port port_call
  | Caught pass_op

definition noting :: "noted \<Rightarrow> 'w pass_state \<Rightarrow> pass_error option \<times> 'w pass_state" where
  "noting r s = (fst r, s\<lparr>ps_metrics := snd r\<rparr>)"

fun exec_op :: "'w port \<Rightarrow> pass_op \<Rightarrow> 'w pass_state \<Rightarrow> pass_error option \<times> 'w pass_state" where
  "exec_op port (Visit n) s = noting (note_visited n (ps_metrics s)) s"
| "exec_op port (Unknown n) s = (None, s\<lparr>ps_metrics := note_unknown n (ps_metrics s)\<rparr>)"
| "exec_op port (Duplicate n) s = (None, s\<lparr>ps_metrics := note_duplicate n (ps_metrics s)\<rparr>)"
| "exec_op port (Diagnose msg) s = noting (note_diagnostic msg (ps_metrics s)) s"
| "exec_op port (Traverse n) s = noting (note_whole_tu_traversal n (ps_metrics s)) s"
| "exec_op port (Port call) s = budgeted_call port call s"
| "exec_op port (Caught op) s = (None, snd (exec_op port op s))"

fun exec_ops :: "'w port \<Rightarrow> pass_op list \<Rightarrow> 'w pass_state \<Rightarrow> pass_error option \<times> 'w pass_state" where
  "exec_ops port [] s = (None, s)"
| "exec_ops port (op # ops) s =
     (case exec_op port op s of (Some e, s') \<Rightarrow> (Some e, s') | (None, s') \<Rightarrow> exec_ops port ops s')"

subsection \<open>Registry\<close>

record FrontendSession =
  se_ast_context :: bool
  se_preprocessor :: bool
  se_cfg_builder :: bool
  se_template_arguments :: bool
  se_budget_overrides :: "(string \<times> PassBudget) list"

fun supports :: "FrontendSession \<Rightarrow> FrontendCapability \<Rightarrow> bool" where
  "supports se cap_ast = se_ast_context se"
| "supports se cap_preprocessor = se_preprocessor se"
| "supports se cap_cfg = se_cfg_builder se"
| "supports se cap_templates = (se_ast_context se \<and> se_template_arguments se)"

type_synonym runner = "FrontendSession option \<Rightarrow> pass_op list"
type_synonym registry = "(ExtractionPassDescriptor \<times> runner) list"

definition complete_metadata :: "ExtractionPassDescriptor \<Rightarrow> bool" where
  "complete_metadata d \<longleftrightarrow>
     pd_id d \<noteq> [] \<and> pd_version d \<noteq> 0 \<and> pd_produced_fact_families d \<noteq> [] \<and> pd_catalog_versions d \<noteq> []
     \<and> bg_declared (pd_budget d)
     \<and> \<not> list_ex (\<lambda>f. f = []) (pd_consumed_fact_families d) \<and> \<not> list_ex (\<lambda>f. f = []) (pd_produced_fact_families d)"

definition register_pass :: "ExtractionPassDescriptor \<Rightarrow> runner option \<Rightarrow> registry \<Rightarrow> pass_error + registry" where
  "register_pass d r entries =
     (case r of
        None \<Rightarrow> Inl (Invalid_argument ''invalid extraction pass registration: incomplete metadata'')
      | Some runner \<Rightarrow>
          if \<not> complete_metadata d
          then Inl (Invalid_argument ''invalid extraction pass registration: incomplete metadata'')
          else if list_ex (\<lambda>(d', _). pd_id d' = pd_id d) entries
          then Inl (Invalid_argument (''duplicate extraction pass: '' @ pd_id d))
          else Inr (entries @ [(d, runner)]))"

definition find_entry :: "string \<Rightarrow> registry \<Rightarrow> (ExtractionPassDescriptor \<times> runner) option" where
  "find_entry pass_id entries = List.find (\<lambda>(d, _). pd_id d = pass_id) entries"

definition descriptor :: "registry \<Rightarrow> string \<Rightarrow> pass_error + ExtractionPassDescriptor" where
  "descriptor entries pass_id =
     (case find_entry pass_id entries of
        None \<Rightarrow> Inl (Invalid_argument (''unknown extraction pass: '' @ pass_id))
      | Some (d, _) \<Rightarrow> Inr d)"

definition descriptors :: "registry \<Rightarrow> ExtractionPassDescriptor list" where
  "descriptors entries = sort_key stable_key (map fst entries)"

type_synonym report = "(ExtractionPassDescriptor \<times> PassMetrics) list"

definition reported :: "string \<Rightarrow> report \<Rightarrow> bool" where
  "reported pass_id report = list_ex (\<lambda>(d, _). pd_id d = pass_id) report"

definition over_budget :: "PassBudget \<Rightarrow> PassMetrics \<Rightarrow> bool" where
  "over_budget b m \<longleftrightarrow>
     (bg_max_visited_constructs b \<noteq> 0 \<and> pm_visited_constructs m > bg_max_visited_constructs b)
     \<or> (bg_max_emitted_facts b \<noteq> 0 \<and> pm_emitted_facts m > bg_max_emitted_facts b)
     \<or> (bg_max_diagnostics b \<noteq> 0 \<and> pm_diagnostics m > bg_max_diagnostics b)
     \<or> pm_whole_tu_traversals m > bg_max_whole_tu_traversals b"

definition step_check :: "ExtractionPassDescriptor \<Rightarrow> FrontendSession option \<Rightarrow> report \<Rightarrow> pass_error option" where
  "step_check d session report =
     (case List.find (\<lambda>dep. \<not> reported dep report) (pd_dependencies d) of
        Some dep \<Rightarrow> Some (Invalid_argument (''pass dependency is not ordered: '' @ pd_id d @ '' -> '' @ dep))
      | None \<Rightarrow>
          if reported (pd_id d) report then Some (Invalid_argument (''extraction pass appears twice: '' @ pd_id d))
          else case session of
            None \<Rightarrow> if pd_required_capabilities d \<noteq> [] then Some (Session_required (pd_id d)) else None
          | Some se \<Rightarrow> map_option (Capability_unavailable (pd_id d))
              (List.find (\<lambda>c. \<not> supports se c) (pd_required_capabilities d)))"

definition effective_budget :: "ExtractionPassDescriptor \<Rightarrow> FrontendSession option \<Rightarrow> PassBudget" where
  "effective_budget d session =
     (case session of None \<Rightarrow> pd_budget d
      | Some se \<Rightarrow> (case map_of (se_budget_overrides se) (pd_id d) of None \<Rightarrow> pd_budget d | Some b \<Rightarrow> b))"

definition run_pass ::
  "'w port \<Rightarrow> ExtractionPassDescriptor \<Rightarrow> runner \<Rightarrow> FrontendSession option \<Rightarrow> 'w \<Rightarrow> pass_error option \<times> 'w pass_state" where
  "run_pass port d runner session w =
     (let budget = effective_budget d session in
      case exec_ops port (runner session) \<lparr>ps_metrics = bound_metrics (pd_id d) budget, ps_world = w, ps_delivered = []\<rparr> of
        (Some e, s) \<Rightarrow> (Some e, s)
      | (None, s) \<Rightarrow>
          if over_budget budget (ps_metrics s)
          then noting (note_diagnostic ''deterministic pass budget exceeded''
                 ((ps_metrics s)\<lparr>pm_budget_exhausted := True\<rparr>)) s
          else (None, s))"

fun run_steps :: "'w port \<Rightarrow> registry \<Rightarrow> FrontendSession option \<Rightarrow> IndexingPlan \<Rightarrow> report \<Rightarrow> 'w
    \<Rightarrow> (pass_error + report) \<times> 'w" where
  "run_steps port entries session [] report w = (Inr report, w)"
| "run_steps port entries session (step # steps) report w =
     (case find_entry step entries of
        None \<Rightarrow> (Inl (Invalid_argument (''plan references unknown extraction pass: '' @ step)), w)
      | Some (d, runner) \<Rightarrow>
          (case step_check d session report of
             Some e \<Rightarrow> (Inl e, w)
           | None \<Rightarrow>
               (case run_pass port d runner session w of
                  (Some e, s) \<Rightarrow> (Inl e, ps_world s)
                | (None, s) \<Rightarrow> run_steps port entries session steps (report @ [(d, ps_metrics s)]) (ps_world s))))"

definition run :: "'w port \<Rightarrow> registry \<Rightarrow> IndexingPlan \<Rightarrow> FrontendSession option \<Rightarrow> 'w \<Rightarrow> (pass_error + report) \<times> 'w" where
  "run port entries plan session w =
     (if plan = [] then (Inl (Invalid_argument ''an extraction plan must contain a pass''), w)
      else run_steps port entries session plan [] w)"

subsection \<open>Budgets hold\<close>

definition delivered_facts :: "'w pass_state \<Rightarrow> nat" where
  "delivered_facts s = sum_list (map call_facts (ps_delivered s))"

definition pass_inv :: "PassBudget \<Rightarrow> 'w pass_state \<Rightarrow> bool" where
  "pass_inv b s \<longleftrightarrow>
     pm_budget (ps_metrics s) = b \<and> delivered_facts s \<le> pm_emitted_facts (ps_metrics s)
     \<and> (bg_max_emitted_facts b = 0 \<or> delivered_facts s \<le> bg_max_emitted_facts b)
     \<and> (over_budget b (ps_metrics s) \<longrightarrow> pm_budget_exhausted (ps_metrics s))"

lemmas note_defs = note_visited_def note_emitted_def note_diagnostic_def note_whole_tu_traversal_def enforce_def
  note_unknown_def note_duplicate_def note_fact_family_def Let_def

lemma noting_inv:
  assumes "pass_inv b s"
  shows "pass_inv b (snd (noting (note_visited n (ps_metrics s)) s))"
    "pass_inv b (snd (noting (note_diagnostic msg (ps_metrics s)) s))"
    "pass_inv b (snd (noting (note_whole_tu_traversal n (ps_metrics s)) s))"
    "pass_inv b (s\<lparr>ps_metrics := note_unknown n (ps_metrics s)\<rparr>)"
    "pass_inv b (s\<lparr>ps_metrics := note_duplicate n (ps_metrics s)\<rparr>)"
    "pass_inv b (s\<lparr>ps_metrics := note_fact_family f n n k (ps_metrics s)\<rparr>)"
  using assms by (auto simp: pass_inv_def noting_def note_defs over_budget_def delivered_facts_def)

lemma port_through_cases:
  obtains e w where "port_through port call s = (e, s\<lparr>ps_world := w, ps_delivered := ps_delivered s @ [call]\<rparr>)"
  by (cases "port call (ps_world s)") (auto simp: port_through_def)

lemma call_family_None: "call_family call = None \<Longrightarrow> call_facts call = 0"
  by (cases call) auto

lemma note_emitted_ok:
  assumes "note_emitted n m = (None, m')"
  shows "m' = m\<lparr>pm_emitted_facts := pm_emitted_facts m + n\<rparr>"
    "bg_max_emitted_facts (pm_budget m) = 0 \<or> pm_emitted_facts m + n \<le> bg_max_emitted_facts (pm_budget m)"
  using assms by (auto simp: note_emitted_def enforce_def Let_def not_less split: if_splits)

lemma over_budget_emitted:
  assumes "over_budget b (m\<lparr>pm_emitted_facts := n\<rparr>)" "bg_max_emitted_facts b = 0 \<or> n \<le> bg_max_emitted_facts b"
  shows "over_budget b m"
  using assms unfolding over_budget_def by simp linarith

lemma deliver_inv:
  fixes s :: "'w pass_state"
  assumes "pass_inv b s" "note_emitted (call_facts call) (ps_metrics s) = (None, m)"
  shows "pass_inv b (s\<lparr>ps_metrics := m, ps_world := w, ps_delivered := ps_delivered s @ [call]\<rparr>)"
proof -
  note m = note_emitted_ok [OF assms(2)]
  have b: "pm_budget (ps_metrics s) = b" using assms(1) by (simp add: pass_inv_def)
  have "over_budget b m \<longrightarrow> over_budget b (ps_metrics s)"
    using over_budget_emitted [of b "pm_emitted_facts (ps_metrics s) + call_facts call" "ps_metrics s"] m unfolding b by simp
  moreover have "delivered_facts (s\<lparr>ps_metrics := m, ps_world := w, ps_delivered := ps_delivered s @ [call]\<rparr>)
      = delivered_facts s + call_facts call" by (simp add: delivered_facts_def)
  ultimately show ?thesis using assms(1) m b unfolding pass_inv_def by auto
qed

lemma budgeted_call_inv:
  assumes "pass_inv b s"
  shows "pass_inv b (snd (budgeted_call port call s))"
proof (cases "call_family call")
  case None
  then show ?thesis using assms call_family_None [OF None]
    by (cases rule: port_through_cases [of port call s])
      (auto simp: budgeted_call_def pass_inv_def delivered_facts_def)
next
  case (Some family)
  obtain e m where emitted: "note_emitted (call_facts call) (ps_metrics s) = (e, m)" by fastforce
  show ?thesis
  proof (cases e)
    case (Some err)
    then show ?thesis using assms emitted \<open>call_family call = Some family\<close>
      by (auto simp: budgeted_call_def pass_inv_def note_defs over_budget_def delivered_facts_def split: if_splits)
  next
    case None
    obtain e' w where pt: "port_through port call (s\<lparr>ps_metrics := m\<rparr>)
        = (e', (s\<lparr>ps_metrics := m\<rparr>)\<lparr>ps_world := w, ps_delivered := ps_delivered (s\<lparr>ps_metrics := m\<rparr>) @ [call]\<rparr>)"
      by (rule port_through_cases)
    let ?s = "(s\<lparr>ps_metrics := m\<rparr>)\<lparr>ps_world := w, ps_delivered := ps_delivered (s\<lparr>ps_metrics := m\<rparr>) @ [call]\<rparr>"
    have inv: "pass_inv b ?s" using deliver_inv [OF assms, of call m w] emitted None by simp
    show ?thesis
    proof (cases e')
      case (Some err)
      then show ?thesis using inv emitted \<open>e = None\<close> \<open>call_family call = Some family\<close> pt by (simp add: budgeted_call_def)
    next
      case ok: None
      have "snd (budgeted_call port call s)
          = ?s\<lparr>ps_metrics := note_fact_family family (call_facts call) (call_facts call) 0 (ps_metrics ?s)\<rparr>"
        using emitted \<open>e = None\<close> \<open>call_family call = Some family\<close> pt ok by (simp add: budgeted_call_def)
      then show ?thesis using noting_inv(6) [OF inv] by metis
    qed
  qed
qed

lemma exec_op_inv: "pass_inv b s \<Longrightarrow> pass_inv b (snd (exec_op port op s))"
  by (induction port op s rule: exec_op.induct) (simp_all add: noting_inv budgeted_call_inv)

lemma exec_ops_inv: "pass_inv b s \<Longrightarrow> pass_inv b (snd (exec_ops port ops s))"
proof (induction ops arbitrary: s)
  case (Cons op ops)
  have "pass_inv b (snd (exec_op port op s))" using Cons.prems by (rule exec_op_inv)
  then show ?case using Cons.IH by (auto split: prod.splits option.splits)
qed simp

lemma run_pass_inv: "pass_inv (effective_budget d session) (snd (run_pass port d runner session w))"
proof -
  let ?b = "effective_budget d session"
  let ?s0 = "\<lparr>ps_metrics = bound_metrics (pd_id d) ?b, ps_world = w, ps_delivered = []\<rparr>"
  obtain e s where ops: "exec_ops port (runner session) ?s0 = (e, s)" by fastforce
  have "pass_inv ?b ?s0" by (simp add: pass_inv_def bound_metrics_def delivered_facts_def over_budget_def)
  then have s: "pass_inv ?b s" using exec_ops_inv [of ?b ?s0 port "runner session"] ops by simp
  then have "pass_inv ?b (s\<lparr>ps_metrics := (ps_metrics s)\<lparr>pm_budget_exhausted := True\<rparr>\<rparr>)"
    by (simp add: pass_inv_def over_budget_def delivered_facts_def)
  from noting_inv(2) [OF this, of "''deterministic pass budget exceeded''"] s ops show ?thesis
    by (simp add: run_pass_def noting_def split: option.splits)
qed

text \<open>A pass never gets more facts through its ports than its budget allows, however it handles
  the exception that stops it, and when it is over its budget in any dimension its metrics say so.\<close>

theorem pass_budget_enforced:
  "let (e, s) = run_pass port d runner session w; b = effective_budget d session in
     (bg_max_emitted_facts b = 0 \<or> sum_list (map call_facts (ps_delivered s)) \<le> bg_max_emitted_facts b)
     \<and> (pm_budget_exhausted (ps_metrics s) \<or> \<not> over_budget b (ps_metrics s))"
  using run_pass_inv [of d session port runner w]
  by (auto simp: pass_inv_def delivered_facts_def split: prod.splits)

definition sample_descriptor :: ExtractionPassDescriptor where
  "sample_descriptor =
     \<lparr>pd_id = ''p'', pd_version = 1, pd_required_capabilities = [], pd_consumed_fact_families = [],
      pd_produced_fact_families = [''symbols''], pd_catalog_versions = [1], pd_dependencies = [],
      pd_scope = scope_main_file, pd_traversal = traverse_body, pd_completeness = fact_complete,
      pd_trust = trust_trusted,
      pd_budget = \<lparr>bg_max_visited_constructs = 0, bg_max_emitted_facts = 2, bg_max_diagnostics = 0,
        bg_max_whole_tu_traversals = 1, bg_declared = True\<rparr>\<rparr>"

lemma pass_budget_enforced_witness:
  "\<exists>e s. run_pass (\<lambda>_ w. (None, Suc w)) sample_descriptor
       (\<lambda>_. [Port Mint_symbol, Port Mint_symbol, Caught (Port Mint_symbol)]) None (0 :: nat) = (e, s)
     \<and> sum_list (map call_facts (ps_delivered s)) \<le> 2
     \<and> over_budget (pd_budget sample_descriptor) (ps_metrics s) \<and> pm_budget_exhausted (ps_metrics s)"
proof -
  let ?run = "run_pass (\<lambda>_ w. (None, Suc w)) sample_descriptor
       (\<lambda>_. [Port Mint_symbol, Port Mint_symbol, Caught (Port Mint_symbol)]) None (0 :: nat)"
  obtain e s where run: "?run = (e, s)" by fastforce
  have "over_budget (pd_budget sample_descriptor) (ps_metrics (snd ?run))" by code_simp
  with run have "over_budget (pd_budget sample_descriptor) (ps_metrics s)" by simp
  moreover have "effective_budget sample_descriptor None = pd_budget sample_descriptor"
    and "bg_max_emitted_facts (pd_budget sample_descriptor) = 2" by code_simp+
  ultimately show ?thesis
    using pass_budget_enforced [of "\<lambda>_ w. (None, Suc w)" sample_descriptor
        "\<lambda>_. [Port Mint_symbol, Port Mint_symbol, Caught (Port Mint_symbol)]" None "0 :: nat"] run by simp
qed

subsection \<open>Runs respect the plan\<close>

definition report_ok :: "registry \<Rightarrow> FrontendSession option \<Rightarrow> report \<Rightarrow> bool" where
  "report_ok entries session report \<longleftrightarrow>
     distinct (map (pd_id \<circ> fst) report)
     \<and> (\<forall>i < length report. case report ! i of (d, m) \<Rightarrow>
          d \<in> fst ` set entries
          \<and> set (pd_dependencies d) \<subseteq> set (take i (map (pd_id \<circ> fst) report))
          \<and> (case session of None \<Rightarrow> pd_required_capabilities d = []
             | Some se \<Rightarrow> list_all (supports se) (pd_required_capabilities d))
          \<and> (pm_budget_exhausted m \<or> \<not> over_budget (effective_budget d session) m))"

lemma reported_iff: "reported pass_id report \<longleftrightarrow> pass_id \<in> set (map (pd_id \<circ> fst) report)"
  by (force simp: reported_def list_ex_iff)

lemma find_entry_Some: "find_entry pass_id entries = Some (d, r) \<Longrightarrow> pd_id d = pass_id \<and> (d, r) \<in> set entries"
  by (auto simp: find_entry_def find_Some_iff) (metis fst_conv nth_mem)

lemma step_check_None:
  assumes "step_check d session report = None"
  shows "set (pd_dependencies d) \<subseteq> set (map (pd_id \<circ> fst) report)" "pd_id d \<notin> set (map (pd_id \<circ> fst) report)"
    "case session of None \<Rightarrow> pd_required_capabilities d = []
     | Some se \<Rightarrow> list_all (supports se) (pd_required_capabilities d)"
  using assms unfolding step_check_def reported_iff
  by (auto simp: find_None_iff list_all_iff split: option.splits if_splits)

lemma report_ok_snoc:
  assumes "report_ok entries session report" "step_check d session report = None" "d \<in> fst ` set entries"
    "pm_budget_exhausted m \<or> \<not> over_budget (effective_budget d session) m"
  shows "report_ok entries session (report @ [(d, m)])"
  using assms step_check_None [OF assms(2)] unfolding report_ok_def
  by (auto simp: nth_append less_Suc_eq split: prod.splits)

lemma run_steps_report:
  "run_steps port entries session steps report w = (Inr report', w') \<Longrightarrow> report_ok entries session report \<Longrightarrow>
     report_ok entries session report' \<and> map (pd_id \<circ> fst) report' = map (pd_id \<circ> fst) report @ steps"
proof (induction steps arbitrary: report w)
  case (Cons step steps)
  obtain d r where e: "find_entry step entries = Some (d, r)"
    using Cons.prems(1) by (auto split: option.splits prod.splits)
  note entry = find_entry_Some [OF e]
  have chk: "step_check d session report = None" using Cons.prems(1) e by (auto split: option.splits prod.splits)
  obtain s where rp: "run_pass port d r session w = (None, s)"
    using Cons.prems(1) e chk by (auto split: option.splits prod.splits)
  have "report_ok entries session (report @ [(d, ps_metrics s)])"
    using Cons.prems(2) chk entry run_pass_inv [of d session port r w] rp
    by (intro report_ok_snoc) (auto simp: pass_inv_def intro: rev_image_eqI)
  moreover have "run_steps port entries session steps (report @ [(d, ps_metrics s)]) (ps_world s) = (Inr report', w')"
    using Cons.prems(1) e chk rp by simp
  ultimately show ?case using Cons.IH [of "report @ [(d, ps_metrics s)]" "ps_world s"] entry by simp
qed simp

text \<open>(C23) A run that succeeds has executed exactly the passes of its plan in this order, each once, each
  registered, after all its dependencies, with every capability it requires, and with its metrics
  within the budget or marked as exhausted.\<close>

theorem run_respects_plan:
  assumes "run port entries plan session w = (Inr report, w')"
  shows "map (pd_id \<circ> fst) report = plan \<and> report_ok entries session report"
proof -
  have "report_ok entries session []" by (simp add: report_ok_def)
  then show ?thesis using assms run_steps_report [of port entries session plan "[]" w report w']
    by (auto simp: run_def split: if_splits)
qed

definition sample_registry :: registry where
  "sample_registry = [(sample_descriptor, \<lambda>_. [Traverse 1, Port Mint_symbol, Port Mint_symbol, Caught (Port Mint_symbol)])]"

lemma run_respects_plan_witness:
  "\<exists>report w. run (\<lambda>_ w. (None, Suc w)) sample_registry [''p''] None (0 :: nat) = (Inr report, w)
     \<and> w = 2 \<and> map (pd_id \<circ> fst) report = [''p''] \<and> report_ok sample_registry None report"
proof -
  let ?run = "run (\<lambda>_ w. (None, Suc w)) sample_registry [''p''] None (0 :: nat)"
  have "isl (fst ?run) = False \<and> snd ?run = 2" by code_simp
  then obtain report where "?run = (Inr report, 2)" by (metis isl_def old.sum.exhaust prod.collapse)
  with run_respects_plan [OF this] show ?thesis by (intro exI [of _ report] exI [of _ 2]) simp
qed

subsection \<open>Registrations and stable keys\<close>

inductive registered :: "registry \<Rightarrow> bool" where
  no_passes: "registered []"
| one_more: "registered entries \<Longrightarrow> register_pass d r entries = Inr entries' \<Longrightarrow> registered entries'"

lemma registered_wf:
  "registered entries \<Longrightarrow> distinct (map (pd_id \<circ> fst) entries) \<and> list_all (complete_metadata \<circ> fst) entries"
proof (induction rule: registered.induct)
  case (one_more entries d r entries')
  then show ?case by (force simp: register_pass_def list_ex_iff split: option.splits if_splits)
qed simp

lemma number_keys_eq: "append_number_keys xs @ x = append_number_keys ys @ y \<longleftrightarrow> xs = ys \<and> x = y"
proof -
  have "concat (map (\<lambda>v. show_nat v @ '';'') xs) @ x = concat (map (\<lambda>v. show_nat v @ '';'') ys) @ y \<longleftrightarrow> xs = ys \<and> x = y"
    if "length xs = length ys" for xs ys :: "nat list" and x y
    using that by (induction xs ys rule: list_induct2) (auto simp: show_nat_delimited)
  then show ?thesis by (auto simp: append_number_keys_def show_nat_delimited)
qed

lemma string_key_eq:
  "show_nat (length v) @ '':'' @ v @ '';'' @ x = show_nat (length w) @ '':'' @ w @ '';'' @ y \<longleftrightarrow> v = w \<and> x = y"
  by (auto simp: show_nat_delimited)

lemma string_keys_eq: "append_string_keys xs @ x = append_string_keys ys @ y \<longleftrightarrow> xs = ys \<and> x = y"
proof -
  have "concat (map (\<lambda>v. show_nat (length v) @ '':'' @ v @ '';'') xs) @ x
      = concat (map (\<lambda>v. show_nat (length v) @ '':'' @ v @ '';'') ys) @ y \<longleftrightarrow> xs = ys \<and> x = y"
    if "length xs = length ys" for xs ys :: "string list" and x y
    using that by (induction xs ys rule: list_induct2) (auto simp: show_nat_delimited)
  then show ?thesis by (auto simp: append_string_keys_def show_nat_delimited)
qed

lemma enum_numbers_inject:
  "capability_number a = capability_number b \<longleftrightarrow> a = b"
  "scope_number c = scope_number d \<longleftrightarrow> c = d"
  "traversal_number e = traversal_number f \<longleftrightarrow> e = f"
  "completeness_number g = completeness_number h \<longleftrightarrow> g = h"
  "trust_number i = trust_number j \<longleftrightarrow> i = j"
proof -
  show "capability_number a = capability_number b \<longleftrightarrow> a = b" by (cases a; cases b) simp_all
  show "scope_number c = scope_number d \<longleftrightarrow> c = d" by (cases c; cases d) simp_all
  show "traversal_number e = traversal_number f \<longleftrightarrow> e = f" by (cases e; cases f) simp_all
  show "completeness_number g = completeness_number h \<longleftrightarrow> g = h" by (cases g; cases h) simp_all
  show "trust_number i = trust_number j \<longleftrightarrow> i = j" by (cases i; cases j) simp_all
qed

lemma budget_key_inject: "budget_key b = budget_key c \<longleftrightarrow> b = c"
  by (auto simp: budget_key_def show_nat_delimited intro: PassBudget.equality split: if_splits)

lemma map_capability_inject: "map capability_number xs = map capability_number ys \<longleftrightarrow> xs = ys"
  by (rule inj_map_eq_map) (auto simp: inj_def enum_numbers_inject)

lemma stable_key_inject: "stable_key d = stable_key e \<longleftrightarrow> d = e"
  by (auto simp: stable_key_def show_nat_delimited number_keys_eq string_keys_eq enum_numbers_inject budget_key_inject
      map_capability_inject intro: ExtractionPassDescriptor.equality)

text \<open>The list of descriptors does not depend on the order of registration: registries that were
  built by registering the same descriptors in any order list them identically, every one has complete
  metadata, and no identifier occurs twice.\<close>

theorem descriptors_deterministic:
  assumes "registered entries" "registered entries'" "fst ` set entries = fst ` set entries'"
  shows "descriptors entries = descriptors entries'
    \<and> list_all complete_metadata (descriptors entries) \<and> distinct (map pd_id (descriptors entries))"
proof -
  note wf = registered_wf [OF assms(1)] and wf' = registered_wf [OF assms(2)]
  have "distinct (map fst entries)" "distinct (map fst entries')"
    using wf wf' by (metis distinct_map map_map)+
  then have "mset (map fst entries) = mset (map fst entries')"
    using assms(3) by (simp only: set_eq_iff_mset_eq_distinct [symmetric] set_map)
  then have "descriptors entries = descriptors entries'" unfolding descriptors_def
    by (intro sort_key_inj_key_eq) (auto simp: inj_on_def stable_key_inject)
  moreover have "list_all complete_metadata (descriptors entries)" using wf by (auto simp: descriptors_def list_all_iff)
  moreover have "distinct (map pd_id (descriptors entries))"
  proof -
    have "mset (map pd_id (descriptors entries)) = mset (map (pd_id \<circ> fst) entries)"
      by (simp add: descriptors_def multiset.map_comp)
    then show ?thesis using wf by (metis mset_eq_imp_distinct_iff)
  qed
  ultimately show ?thesis by blast
qed

lemma descriptors_deterministic_witness:
  "descriptors sample_registry = descriptors sample_registry \<and> list_all complete_metadata (descriptors sample_registry)"
proof -
  have "register_pass sample_descriptor
      (Some (\<lambda>_. [Traverse 1, Port Mint_symbol, Port Mint_symbol, Caught (Port Mint_symbol)])) [] = Inr sample_registry"
    by (simp add: register_pass_def sample_registry_def sample_descriptor_def complete_metadata_def)
  then have "registered sample_registry" by (rule registered.one_more [OF registered.no_passes])
  from descriptors_deterministic [OF this this] show ?thesis by simp
qed

end
