(* ===== verification/Include_Analysis.thy ===== *)
theory Include_Analysis
  imports Plan_Executor Canonical_Order
begin

text \<open>
  Classification of include directives (\<^verbatim>\<open>include_hygiene/analysis.cpp\<close>): references of the
  owners of a file, the verdict of one directive under one configuration, the merge over
  configurations and the report. The database queries, the disk and SHA-1 are
  parameters, gathered in a record; the counts of the index are integers.
\<close>

record IncludeSite =
  is_id :: int
  is_edge_id :: int
  is_line :: int
  is_col :: int
  is_begin_offset :: int
  is_end_offset :: int
  is_spelling :: string
  is_angled_form :: bool
  is_directive :: int
  is_cond_fingerprint :: string
  is_resolved :: bool
  is_guarded :: bool

text \<open>A symbol is its qualified name, if any, and its spelling.\<close>

record analysis_db =
  an_include_graph_populated :: bool
  an_files :: "(int \<times> string) list"
  an_get_file :: "string \<Rightarrow> int option"
  an_include_tier_covers_file :: "int \<Rightarrow> bool"
  an_all_include_edges :: "bool \<Rightarrow> IncludeEdge list"
  an_config_digest :: "int \<Rightarrow> string option"
  an_include_sites_for :: "int \<Rightarrow> IncludeSite list"
  an_symbol_ids_for_file :: "int \<Rightarrow> int list"
  an_lookup_symbol :: "int \<Rightarrow> (string option \<times> string) option"
  an_edge_targets_from :: "int list \<Rightarrow> int list"
  an_def_edge_targets_for_file :: "int \<Rightarrow> int list"
  an_type_ids_used_by :: "int list \<Rightarrow> int list"
  an_symbols_named_by_types :: "int list \<Rightarrow> int list"
  an_graph_edges_out :: "int \<Rightarrow> (int \<times> int) list"
  an_edge_kinds :: "(string \<times> int) list"
  an_include_macro_uses :: "int \<Rightarrow> string \<Rightarrow> string list"
  an_disk :: disk
  an_sha1_hex :: "string \<Rightarrow> string"
  an_cwd :: string

definition kIncludeDirectiveIncludeNext :: int where "kIncludeDirectiveIncludeNext = 2"
definition kIncludeDirectiveImport :: int where "kIncludeDirectiveImport = 3"
definition kIncludeDirectiveIncludeMacros :: int where "kIncludeDirectiveIncludeMacros = 4"

definition candidate_id :: "analysis_db \<Rightarrow> string \<Rightarrow> int \<Rightarrow> string" where
  "candidate_id db src_path begin_offset = take 12 (an_sha1_hex db (src_path @ [CHR 0x00] @ show_int begin_offset))"

definition display_name_of :: "string option \<times> string \<Rightarrow> string" where
  "display_name_of s = (case fst s of None \<Rightarrow> snd s | Some q \<Rightarrow> if q \<noteq> [] then q else snd s)"

definition read_range :: "disk \<Rightarrow> string \<Rightarrow> int \<Rightarrow> int \<Rightarrow> string" where
  "read_range disk path from_pos to_pos =
     (case disk path of
        None \<Rightarrow> []
      | Some content \<Rightarrow>
          if from_pos < 0 \<or> to_pos < from_pos then [] else take (nat (to_pos - from_pos)) (drop (nat from_pos) content))"

definition names_of :: "analysis_db \<Rightarrow> int list \<Rightarrow> string list" where
  "names_of db ids = sort_unique (concat (map (\<lambda>i. case an_lookup_symbol db i of None \<Rightarrow> [] | Some s \<Rightarrow> [display_name_of s]) ids))"

record SourceContext =
  sc_owners :: "int list"
  sc_owner_names :: "string list"
  sc_refs :: "int set"

definition build_source_context :: "analysis_db \<Rightarrow> int \<Rightarrow> SourceContext" where
  "build_source_context db src_file_id =
     (let owners = an_symbol_ids_for_file db src_file_id in
      \<lparr>sc_owners = owners, sc_owner_names = names_of db owners,
       sc_refs = set (an_edge_targets_from db owners) \<union> set (an_def_edge_targets_for_file db src_file_id)
         \<union> set (an_symbols_named_by_types db (an_type_ids_used_by db owners))\<rparr>)"

definition owner_name :: "analysis_db \<Rightarrow> int \<Rightarrow> string" where
  "owner_name db i = (case an_lookup_symbol db i of None \<Rightarrow> [] | Some s \<Rightarrow> display_name_of s)"

definition edge_kind_name :: "analysis_db \<Rightarrow> int \<Rightarrow> string" where
  "edge_kind_name db ekind = (case List.find (\<lambda>(_, i). i = ekind) (an_edge_kinds db) of None \<Rightarrow> ''edge'' | Some (name, _) \<Rightarrow> name)"

fun relation_search :: "analysis_db \<Rightarrow> int list \<Rightarrow> int \<Rightarrow> (string \<times> string) option" where
  "relation_search db [] target = None"
| "relation_search db (o1 # os) target =
     (case List.find (\<lambda>(dst, _). dst = target) (an_graph_edges_out db o1) of
        Some (_, ekind) \<Rightarrow> Some (edge_kind_name db ekind, owner_name db o1)
      | None \<Rightarrow> relation_search db os target)"

definition relation_for :: "analysis_db \<Rightarrow> int list \<Rightarrow> int \<Rightarrow> string \<times> string" where
  "relation_for db owners target =
     (case relation_search db owners target of
        Some r \<Rightarrow> r
      | None \<Rightarrow> (''type'', if owners = [] then [] else owner_name db (hd owners)))"

subsection \<open>One directive\<close>

definition site_caveats :: "IncludeEdge \<Rightarrow> IncludeSite \<Rightarrow> string list" where
  "site_caveats e s =
     (if \<not> is_resolved s then [''directive did not resolve to a file''] else [])
     @ (if is_directive s = kIncludeDirectiveIncludeNext then [''#include_next depends on search-path position'']
        else if is_directive s = kIncludeDirectiveImport then [''#import has no multiple-include contract here'']
        else if is_directive s = kIncludeDirectiveIncludeMacros
          then [''__include_macros is a preprocessor-internal directive'']
        else [])
     @ (if is_cond_fingerprint s \<noteq> [] then [''inside a conditional region: only proven for this configuration''] else [])
     @ (if ie_is_system e then [''system header: its internals are not indexed''] else [])
     @ (if ie_dst_file_id e = None then [''target is not owned by any component: its symbols are not indexed''] else [])"

definition evidence_key :: "Evidence \<Rightarrow> string \<times> string \<times> string" where
  "evidence_key ev = (evd_owner ev, evd_target ev, evd_relation ev)"

definition hit_evidence :: "analysis_db \<Rightarrow> SourceContext \<Rightarrow> int list \<Rightarrow> Evidence list" where
  "hit_evidence db ctx hit =
     sort_key evidence_key (concat (map (\<lambda>i. case an_lookup_symbol db i of
         None \<Rightarrow> []
       | Some sy \<Rightarrow>
           let (relation, owner) = relation_for db (sc_owners ctx) i
           in [\<lparr>evd_owner = owner, evd_target = display_name_of sy, evd_relation = relation\<rparr>]) hit))"

definition classify ::
  "analysis_db \<Rightarrow> IncludeGraph \<Rightarrow> SourceContext \<Rightarrow> IncludeEdge \<Rightarrow> IncludeSite \<Rightarrow> bool \<Rightarrow> IncludeCandidate \<Rightarrow> IncludeCandidate" where
  "classify db graph ctx e s is_repeat c0 =
     (let macro_uses = sort (an_include_macro_uses db (ie_src_file_id e) (ie_dst_path e));
          caveats = site_caveats e s
            @ (if macro_uses \<noteq> [] then [''source expands macro(s) defined in this header''] else []);
          c = c0\<lparr>ca_owners := sc_owner_names ctx, ca_macro_uses := macro_uses, ca_caveats := caveats\<rparr>
      in if \<not> is_guarded s \<and> ie_count e > 1 then
           c\<lparr>ca_cls := Class_ManualReview,
             ca_caveats := caveats @ [''UNGUARDED header included '' @ show_int (ie_count e)
               @ '' times in this file: re-inclusion is intentional (X-macro), so no occurrence can be removed automatically'']\<rparr>
         else if is_repeat then c\<lparr>ca_cls := Duplicate\<rparr>
         else
           let header_symbols = (case ie_dst_file_id e of None \<Rightarrow> [] | Some f \<Rightarrow> an_symbol_ids_for_file db f);
               hit = filter (\<lambda>i. i \<in> sc_refs ctx) header_symbols;
               c' = c\<lparr>ca_header_symbols := names_of db header_symbols, ca_intersection_count := int (length hit)\<rparr>
           in if hit \<noteq> [] then c'\<lparr>ca_cls := Used, ca_evidence := hit_evidence db ctx hit\<rparr>
              else
                let caveats' = caveats
                  @ (if list_ex (\<lambda>i. i \<in> set (sc_owners ctx)) header_symbols
                     then [''this file defines symbol(s) this header declares (its own header): removal cannot be proven safe automatically'']
                     else [])
                in c'\<lparr>ca_caveats := caveats', ca_cls := (if caveats' = [] then UnusedByReference else Class_ManualReview),
                     ca_reverse_dependants := transitive_to graph (ca_src_path c0) 0\<rparr>)"

subsection \<open>Merging configurations\<close>

definition combine_class :: "Classification \<Rightarrow> Classification \<Rightarrow> Classification" where
  "combine_class a b =
     (if a = Used \<or> b = Used then Used
      else if a = Class_ManualReview \<or> b = Class_ManualReview then Class_ManualReview
      else if a = b then a
      else Class_ManualReview)"

definition merge_into_candidate :: "IncludeCandidate \<Rightarrow> IncludeCandidate \<Rightarrow> IncludeCandidate" where
  "merge_into_candidate d c =
     d\<lparr>ca_cls := combine_class (ca_cls d) (ca_cls c),
       ca_intersection_count := max (ca_intersection_count d) (ca_intersection_count c),
       ca_guarded := (ca_guarded d \<and> ca_guarded c), ca_configs := ca_configs d @ ca_configs c,
       ca_caveats := ca_caveats d @ ca_caveats c, ca_macro_uses := ca_macro_uses d @ ca_macro_uses c,
       ca_owners := ca_owners d @ ca_owners c, ca_header_symbols := ca_header_symbols d @ ca_header_symbols c,
       ca_reverse_dependants := ca_reverse_dependants d @ ca_reverse_dependants c,
       ca_evidence := ca_evidence d @ ca_evidence c\<rparr>"

definition merge_candidate :: "(string \<times> IncludeCandidate) list \<Rightarrow> IncludeCandidate \<Rightarrow> (string \<times> IncludeCandidate) list" where
  "merge_candidate into c =
     (case map_of into (ca_id c) of
        None \<Rightarrow> omap_insert (ca_id c) c into
      | Some d \<Rightarrow> omap_insert (ca_id c) (merge_into_candidate d c) into)"

definition finalize_merged :: "IncludeCandidate \<Rightarrow> IncludeCandidate" where
  "finalize_merged c =
     c\<lparr>ca_configs := sort_unique (ca_configs c), ca_caveats := sort_unique (ca_caveats c),
       ca_macro_uses := sort_unique (ca_macro_uses c), ca_owners := sort_unique (ca_owners c),
       ca_header_symbols := sort_unique (ca_header_symbols c),
       ca_reverse_dependants := sort_unique (ca_reverse_dependants c),
       ca_evidence := sort_unique_by evidence_key (ca_evidence c)\<rparr>"

subsection \<open>The report\<close>

record AnalysisOptions =
  ao_scope_paths :: "string list"
  ao_want_duplicates :: bool
  ao_want_unused :: bool

record AnalysisResult =
  ar_candidates :: "IncludeCandidate list"
  ar_include_graph_empty :: bool
  ar_uncovered_scope :: "string list"

definition site_candidate :: "analysis_db \<Rightarrow> string \<Rightarrow> IncludeEdge \<Rightarrow> IncludeSite \<Rightarrow> IncludeCandidate" where
  "site_candidate db src_path e s =
     \<lparr>ca_id = candidate_id db src_path (is_begin_offset s), ca_src_path = src_path, ca_dst_path = ie_dst_path e,
      ca_spelling = is_spelling s, ca_is_angled = is_angled_form s, ca_line = is_line s, ca_col = is_col s,
      ca_begin_offset = is_begin_offset s, ca_end_offset = is_end_offset s,
      ca_directive_text = read_range (an_disk db) src_path (is_begin_offset s) (is_end_offset s),
      ca_cond_fingerprint = is_cond_fingerprint s, ca_guarded = is_guarded s, ca_directive_kind = is_directive s,
      ca_cls = Class_ManualReview, ca_caveats = [], ca_owners = [], ca_header_symbols = [], ca_intersection_count = 0,
      ca_evidence = [], ca_macro_uses = [], ca_reverse_dependants = [],
      ca_configs = (case an_config_digest db (ie_config_id e) of None \<Rightarrow> [] | Some d \<Rightarrow> [d])\<rparr>"

type_synonym file_state = "(string \<times> int \<times> string) set \<times> (string \<times> IncludeCandidate) list"

definition directive_step ::
  "analysis_db \<Rightarrow> IncludeGraph \<Rightarrow> SourceContext \<Rightarrow> string \<Rightarrow> file_state \<Rightarrow> IncludeEdge \<times> IncludeSite \<Rightarrow> file_state" where
  "directive_step db graph ctx src_path st es =
     (let (seen, merged) = st; (e, s) = es;
          site = (ie_dst_path e, ie_config_id e, is_cond_fingerprint s)
      in (insert site seen,
          merge_candidate merged (classify db graph ctx e s (site \<in> seen) (site_candidate db src_path e s))))"

definition occurrences :: "analysis_db \<Rightarrow> IncludeEdge list \<Rightarrow> (IncludeEdge \<times> IncludeSite) list" where
  "occurrences db es = concat (map (\<lambda>e. map (Pair e) (an_include_sites_for db (ie_id e))) es)"

definition kept :: "AnalysisOptions \<Rightarrow> IncludeCandidate \<Rightarrow> bool" where
  "kept opts c \<longleftrightarrow> (if ca_cls c = Duplicate then ao_want_duplicates opts else ao_want_unused opts) \<or> ca_cls c = Used"

definition file_candidates ::
  "analysis_db \<Rightarrow> IncludeGraph \<Rightarrow> AnalysisOptions \<Rightarrow> int \<Rightarrow> string \<Rightarrow> IncludeEdge list \<Rightarrow> IncludeCandidate list" where
  "file_candidates db graph opts src_id src_path es =
     (let ctx = build_source_context db src_id;
          (_, merged) = foldl (directive_step db graph ctx src_path) ({}, []) (occurrences db es)
      in filter (kept opts) (map (finalize_merged \<circ> snd) merged))"

definition in_scope :: "analysis_db \<Rightarrow> string set \<Rightarrow> IncludeEdge \<Rightarrow> bool" where
  "in_scope db scope e \<longleftrightarrow>
     (case map_of (an_files db) (ie_src_file_id e) of None \<Rightarrow> False | Some p \<Rightarrow> scope = {} \<or> p \<in> scope)"

definition group_by_source :: "IncludeEdge list \<Rightarrow> (int \<times> IncludeEdge list) list" where
  "group_by_source es =
     foldl (\<lambda>m e. omap_insert (ie_src_file_id e)
              ((case map_of m (ie_src_file_id e) of None \<Rightarrow> [] | Some fs \<Rightarrow> fs) @ [e]) m) [] es"

definition uncovered :: "analysis_db \<Rightarrow> string \<Rightarrow> bool" where
  "uncovered db p \<longleftrightarrow> (case an_get_file db p of None \<Rightarrow> True | Some f \<Rightarrow> \<not> an_include_tier_covers_file db f)"

definition analyze :: "analysis_db \<Rightarrow> AnalysisOptions \<Rightarrow> AnalysisResult" where
  "analyze db opts =
     (if \<not> an_include_graph_populated db
      then \<lparr>ar_candidates = [], ar_include_graph_empty = True, ar_uncovered_scope = []\<rparr>
      else
        let graph = load (an_files db) (an_config_digest db) (an_all_include_edges db False);
            scope = map (abspath (an_cwd db)) (ao_scope_paths opts);
            by_src = group_by_source (filter (in_scope db (set scope)) (an_all_include_edges db True));
            candidates = concat (map (\<lambda>(src_id, es).
              file_candidates db graph opts src_id (the (map_of (an_files db) src_id)) es) by_src)
        in \<lparr>ar_candidates = sort_key (\<lambda>c. (ca_src_path c, ca_begin_offset c, ca_configs c)) candidates,
            ar_include_graph_empty = False, ar_uncovered_scope = sort_unique (filter (uncovered db) scope)\<rparr>)"

subsection \<open>Verdicts\<close>

text \<open>Removable verdicts are the two that a cleanup plan may execute.\<close>

definition removable :: "Classification \<Rightarrow> bool" where
  "removable cls \<longleftrightarrow> cls = Duplicate \<or> cls = UnusedByReference"

definition site_key :: "IncludeEdge \<times> IncludeSite \<Rightarrow> string \<times> int \<times> string" where
  "site_key es = (ie_dst_path (fst es), ie_config_id (fst es), is_cond_fingerprint (snd es))"

definition occ_id :: "analysis_db \<Rightarrow> string \<Rightarrow> IncludeEdge \<times> IncludeSite \<Rightarrow> string" where
  "occ_id db src_path es = candidate_id db src_path (is_begin_offset (snd es))"

definition own_symbols :: "analysis_db \<Rightarrow> IncludeEdge \<Rightarrow> int set" where
  "own_symbols db e = (case ie_dst_file_id e of None \<Rightarrow> {} | Some f \<Rightarrow> set (an_symbol_ids_for_file db f))"

text \<open>Nothing the index knows of speaks for this occurrence of the directive.\<close>

definition unneeded :: "analysis_db \<Rightarrow> SourceContext \<Rightarrow> IncludeEdge \<times> IncludeSite \<Rightarrow> bool" where
  "unneeded db ctx es \<longleftrightarrow>
     (case es of (e, s) \<Rightarrow>
        is_resolved s \<and> is_directive s \<notin> {2, 3, 4} \<and> is_cond_fingerprint s = [] \<and> \<not> ie_is_system e
        \<and> ie_dst_file_id e \<noteq> None \<and> an_include_macro_uses db (ie_src_file_id e) (ie_dst_path e) = []
        \<and> own_symbols db e \<inter> sc_refs ctx = {} \<and> own_symbols db e \<inter> set (sc_owners ctx) = {})"

definition no_x_macro :: "IncludeEdge \<times> IncludeSite \<Rightarrow> bool" where
  "no_x_macro es \<longleftrightarrow> is_guarded (snd es) \<or> ie_count (fst es) \<le> 1"

lemma classify_keeps [simp]:
  "ca_id (classify db graph ctx e s is_repeat c) = ca_id c"
  "ca_src_path (classify db graph ctx e s is_repeat c) = ca_src_path c"
  "ca_begin_offset (classify db graph ctx e s is_repeat c) = ca_begin_offset c"
  by (simp_all add: classify_def Let_def)

lemma site_caveats_Nil:
  "site_caveats e s = [] \<longleftrightarrow> is_resolved s \<and> is_directive s \<notin> {2, 3, 4} \<and> is_cond_fingerprint s = []
     \<and> \<not> ie_is_system e \<and> ie_dst_file_id e \<noteq> None"
  by (auto simp: site_caveats_def kIncludeDirectiveIncludeNext_def kIncludeDirectiveImport_def
      kIncludeDirectiveIncludeMacros_def)

lemma classify_Duplicate:
  "ca_cls (classify db graph ctx e s is_repeat c) = Duplicate \<longleftrightarrow> no_x_macro (e, s) \<and> is_repeat"
  by (auto simp: classify_def Let_def no_x_macro_def)

lemma classify_Used:
  "ca_cls (classify db graph ctx e s is_repeat c) = Used \<longleftrightarrow>
     no_x_macro (e, s) \<and> \<not> is_repeat \<and> own_symbols db e \<inter> sc_refs ctx \<noteq> {}"
  by (auto simp: classify_def Let_def no_x_macro_def own_symbols_def filter_empty_conv split: option.splits)

lemma sort_Nil_iff [simp]: "sort xs = [] \<longleftrightarrow> xs = []"
  by (metis set_empty set_sort)

lemma classify_Unused:
  "ca_cls (classify db graph ctx e s is_repeat c) = UnusedByReference \<longleftrightarrow>
     no_x_macro (e, s) \<and> \<not> is_repeat \<and> unneeded db ctx (e, s)"
proof (cases "no_x_macro (e, s) \<and> \<not> is_repeat \<and> own_symbols db e \<inter> sc_refs ctx = {}")
  case True
  let ?h = "case ie_dst_file_id e of None \<Rightarrow> [] | Some f \<Rightarrow> an_symbol_ids_for_file db f"
  have h: "set ?h = own_symbols db e" by (simp add: own_symbols_def split: option.splits)
  with True have "filter (\<lambda>i. i \<in> sc_refs ctx) ?h = []" by (auto simp: filter_empty_conv)
  with True h have "ca_cls (classify db graph ctx e s is_repeat c) = UnusedByReference \<longleftrightarrow>
      site_caveats e s = [] \<and> an_include_macro_uses db (ie_src_file_id e) (ie_dst_path e) = []
      \<and> own_symbols db e \<inter> set (sc_owners ctx) = {}"
    by (auto simp: classify_def Let_def no_x_macro_def list_ex_iff)
  with True show ?thesis by (simp add: site_caveats_Nil unneeded_def)
next
  case False
  then show ?thesis
  proof (cases "no_x_macro (e, s) \<and> \<not> is_repeat")
    case True
    with False classify_Used [of db graph ctx e s is_repeat c] show ?thesis by (auto simp: unneeded_def)
  qed (auto simp: classify_def Let_def no_x_macro_def)
qed

subsection \<open>Merged verdicts\<close>

interpretation verdict: semilattice combine_class
  by unfold_locales (auto simp: combine_class_def)

definition agreed :: "Classification set \<Rightarrow> Classification" where
  "agreed V = (if Used \<in> V then Used else if V = {Duplicate} then Duplicate
     else if V = {UnusedByReference} then UnusedByReference else Class_ManualReview)"

lemma agreed_single [simp]: "agreed {v} = v"
  by (cases v) (auto simp: agreed_def)

lemma agreed_insert: "V \<noteq> {} \<Longrightarrow> agreed (insert v V) = combine_class (agreed V) v"
  by (cases v; auto simp: agreed_def combine_class_def)

lemma removable_agreed: "removable (agreed V) \<Longrightarrow> V = {agreed V}"
  by (auto simp: agreed_def removable_def split: if_splits)


definition verdict_at ::
  "analysis_db \<Rightarrow> IncludeGraph \<Rightarrow> SourceContext \<Rightarrow> string \<Rightarrow> (IncludeEdge \<times> IncludeSite) list \<Rightarrow> nat \<Rightarrow> Classification" where
  "verdict_at db graph ctx p occs i =
     ca_cls (classify db graph ctx (fst (occs ! i)) (snd (occs ! i)) (site_key (occs ! i) \<in> site_key ` set (take i occs))
       (site_candidate db p (fst (occs ! i)) (snd (occs ! i))))"

definition verdicts ::
  "analysis_db \<Rightarrow> IncludeGraph \<Rightarrow> SourceContext \<Rightarrow> string \<Rightarrow> (IncludeEdge \<times> IncludeSite) list \<Rightarrow> string \<Rightarrow> Classification set" where
  "verdicts db graph ctx p occs k = verdict_at db graph ctx p occs ` {i. i < length occs \<and> occ_id db p (occs ! i) = k}"

lemma verdict_at_append: "i < length occs \<Longrightarrow> verdict_at db graph ctx p (occs @ ys) i = verdict_at db graph ctx p occs i"
  by (simp add: verdict_at_def nth_append)

lemma verdicts_Nil [simp]: "verdicts db graph ctx p [] k = {}"
  by (simp add: verdicts_def)

lemma verdicts_snoc:
  "verdicts db graph ctx p (occs @ [es]) k =
     (if occ_id db p es = k
      then insert (verdict_at db graph ctx p (occs @ [es]) (length occs)) (verdicts db graph ctx p occs k)
      else verdicts db graph ctx p occs k)"
proof -
  have "{i. i < length (occs @ [es]) \<and> occ_id db p ((occs @ [es]) ! i) = k}
      = {i. i < length occs \<and> occ_id db p (occs ! i) = k} \<union> {i. i = length occs \<and> occ_id db p es = k}"
    by (auto simp: nth_append less_Suc_eq)
  then show ?thesis unfolding verdicts_def
    by (auto simp: image_Un verdict_at_append intro!: image_eqI)
qed

definition merged_inv ::
  "analysis_db \<Rightarrow> IncludeGraph \<Rightarrow> SourceContext \<Rightarrow> string \<Rightarrow> (IncludeEdge \<times> IncludeSite) list \<Rightarrow> file_state \<Rightarrow> bool" where
  "merged_inv db graph ctx p occs st \<longleftrightarrow>
     fst st = site_key ` set occs \<and> omap_sorted (snd st)
     \<and> (\<forall>k. case map_of (snd st) k of
            None \<Rightarrow> verdicts db graph ctx p occs k = {}
          | Some c \<Rightarrow> verdicts db graph ctx p occs k \<noteq> {} \<and> ca_id c = k \<and> ca_src_path c = p
              \<and> ca_cls c = agreed (verdicts db graph ctx p occs k))"

lemma merged_inv_entry:
  assumes "merged_inv db graph ctx p occs st" "map_of (snd st) k = Some c"
  shows "verdicts db graph ctx p occs k \<noteq> {} \<and> ca_id c = k \<and> ca_src_path c = p
    \<and> ca_cls c = agreed (verdicts db graph ctx p occs k)"
  using assms unfolding merged_inv_def by (auto dest!: spec [of _ k])

lemma merged_inv_complete:
  assumes "merged_inv db graph ctx p occs st" "es \<in> set occs"
  obtains c where "map_of (snd st) (occ_id db p es) = Some c"
proof -
  from assms(2) obtain i where "i < length occs" "occs ! i = es" by (metis in_set_conv_nth)
  then have "verdicts db graph ctx p occs (occ_id db p es) \<noteq> {}" by (auto simp: verdicts_def)
  with assms(1) that show thesis unfolding merged_inv_def by (auto dest!: spec [of _ "occ_id db p es"] split: option.splits)
qed

lemma directive_step_eq:
  "directive_step db graph ctx p st es =
     (insert (site_key es) (fst st),
      merge_candidate (snd st) (classify db graph ctx (fst es) (snd es) (site_key es \<in> fst st) (site_candidate db p (fst es) (snd es))))"
  by (simp add: directive_step_def site_key_def Let_def split: prod.splits)

lemma merged_inv_step:
  assumes "merged_inv db graph ctx p occs st"
  shows "merged_inv db graph ctx p (occs @ [es]) (directive_step db graph ctx p st es)"
proof -
  let ?c = "classify db graph ctx (fst es) (snd es) (site_key es \<in> fst st) (site_candidate db p (fst es) (snd es))"
  let ?v = "verdict_at db graph ctx p (occs @ [es]) (length occs)"
  have id: "ca_id ?c = occ_id db p es" "ca_src_path ?c = p" by (simp_all add: site_candidate_def occ_id_def)
  have v: "ca_cls ?c = ?v" using assms by (simp add: merged_inv_def verdict_at_def)
  have k: "case map_of (merge_candidate (snd st) ?c) k of
      None \<Rightarrow> verdicts db graph ctx p (occs @ [es]) k = {}
    | Some c \<Rightarrow> verdicts db graph ctx p (occs @ [es]) k \<noteq> {} \<and> ca_id c = k \<and> ca_src_path c = p
        \<and> ca_cls c = agreed (verdicts db graph ctx p (occs @ [es]) k)" for k
  proof -
    have "case map_of (snd st) k of None \<Rightarrow> verdicts db graph ctx p occs k = {}
      | Some c \<Rightarrow> verdicts db graph ctx p occs k \<noteq> {} \<and> ca_id c = k \<and> ca_src_path c = p
        \<and> ca_cls c = agreed (verdicts db graph ctx p occs k)"
      using assms by (simp add: merged_inv_def)
    then show ?thesis using id v
      by (cases "map_of (snd st) k")
         (auto simp: verdicts_snoc merge_candidate_def merge_into_candidate_def agreed_insert split: option.splits)
  qed
  have "omap_sorted (merge_candidate (snd st) ?c)"
    using assms by (simp add: merged_inv_def merge_candidate_def split: option.splits)
  with k assms show ?thesis by (simp add: merged_inv_def directive_step_eq)
qed

lemma merged_inv_fold: "merged_inv db graph ctx p occs (foldl (directive_step db graph ctx p) ({}, []) occs)"
proof (induction occs rule: rev_induct)
  case Nil
  show ?case by (simp add: merged_inv_def)
next
  case (snoc es occs)
  then show ?case by (simp add: merged_inv_step)
qed

subsection \<open>Grouping by source file\<close>

lemma map_of_group_by_source:
  "map_of (group_by_source es) k =
     (let fs = filter (\<lambda>e. ie_src_file_id e = k) es in if fs = [] then None else Some fs)"
proof (induction es rule: rev_induct)
  case Nil
  show ?case by (simp add: group_by_source_def)
next
  case (snoc e es)
  then show ?case by (auto simp: group_by_source_def Let_def split: option.splits if_splits)
qed

lemma omap_sorted_group_by_source: "omap_sorted (group_by_source es)"
  by (induction es rule: rev_induct) (simp_all add: group_by_source_def)

text \<open>The occurrences of the directives of one source file, in the order of the index.\<close>

definition file_occurrences :: "analysis_db \<Rightarrow> int \<Rightarrow> (IncludeEdge \<times> IncludeSite) list" where
  "file_occurrences db src_id = occurrences db (filter (\<lambda>e. ie_src_file_id e = src_id) (an_all_include_edges db True))"

definition analysis_graph :: "analysis_db \<Rightarrow> IncludeGraph" where
  "analysis_graph db = load (an_files db) (an_config_digest db) (an_all_include_edges db False)"

lemma finalize_keeps [simp]:
  "ca_id (finalize_merged c) = ca_id c" "ca_src_path (finalize_merged c) = ca_src_path c"
  "ca_cls (finalize_merged c) = ca_cls c"
  by (simp_all add: finalize_merged_def)

lemma file_candidates_verdict:
  assumes "c \<in> set (file_candidates db graph opts src_id p es)"
  shows "ca_src_path c = p \<and> kept opts c
    \<and> verdicts db graph (build_source_context db src_id) p (occurrences db es) (ca_id c) \<noteq> {}
    \<and> ca_cls c = agreed (verdicts db graph (build_source_context db src_id) p (occurrences db es) (ca_id c))"
proof -
  let ?ctx = "build_source_context db src_id"
  obtain seen merged where st: "foldl (directive_step db graph ?ctx p) ({}, []) (occurrences db es) = (seen, merged)"
    by fastforce
  with assms obtain k d where d: "(k, d) \<in> set merged" "c = finalize_merged d" "kept opts c"
    by (auto simp: file_candidates_def)
  have inv: "merged_inv db graph ?ctx p (occurrences db es) (seen, merged)" using merged_inv_fold [of db graph ?ctx p] st by metis
  then have "map_of merged k = Some d" using d(1) by (simp add: merged_inv_def omap_sorted_map_of)
  with merged_inv_entry [OF inv, of k d] d show ?thesis by simp
qed

lemma analyze_candidate:
  assumes "c \<in> set (ar_candidates (analyze db opts))"
  obtains src_id where "map_of (an_files db) src_id = Some (ca_src_path c)"
    "ao_scope_paths opts = [] \<or> ca_src_path c \<in> set (map (abspath (an_cwd db)) (ao_scope_paths opts))"
    "kept opts c"
    "verdicts db (analysis_graph db) (build_source_context db src_id) (ca_src_path c) (file_occurrences db src_id) (ca_id c) \<noteq> {}"
    "ca_cls c = agreed (verdicts db (analysis_graph db) (build_source_context db src_id) (ca_src_path c)
       (file_occurrences db src_id) (ca_id c))"
proof -
  let ?scope = "set (map (abspath (an_cwd db)) (ao_scope_paths opts))"
  let ?es = "filter (in_scope db ?scope) (an_all_include_edges db True)"
  from assms obtain src_id es where g: "(src_id, es) \<in> set (group_by_source ?es)"
    and c: "c \<in> set (file_candidates db (analysis_graph db) opts src_id (the (map_of (an_files db) src_id)) es)"
    by (auto simp: analyze_def Let_def analysis_graph_def split: if_splits)
  from g have "map_of (group_by_source ?es) src_id = Some es"
    by (simp add: omap_sorted_map_of omap_sorted_group_by_source)
  then have es: "es = filter (\<lambda>e. ie_src_file_id e = src_id) ?es" "es \<noteq> []"
    by (simp_all add: map_of_group_by_source Let_def split: if_splits)
  then have "hd es \<in> set (filter (\<lambda>e. ie_src_file_id e = src_id) ?es)" using list.set_sel(1) by metis
  then have "in_scope db ?scope (hd es)" "ie_src_file_id (hd es) = src_id" by auto
  then obtain p where p: "map_of (an_files db) src_id = Some p" "?scope = {} \<or> p \<in> ?scope"
    by (auto simp: in_scope_def split: option.splits)
  have "filter (\<lambda>e. ie_src_file_id e = src_id) ?es = filter (\<lambda>e. ie_src_file_id e = src_id) (an_all_include_edges db True)"
    unfolding filter_filter by (rule filter_cong) (use p in \<open>auto simp: in_scope_def\<close>)
  with es have "occurrences db es = file_occurrences db src_id" by (simp add: file_occurrences_def)
  with file_candidates_verdict [OF c] p that [of src_id] show thesis by simp
qed

lemma nth_verdict:
  "i < length occs \<Longrightarrow> verdict_at db graph ctx p occs i \<in> verdicts db graph ctx p occs (occ_id db p (occs ! i))"
  by (auto simp: verdicts_def)

lemma removable_verdict_at:
  assumes "ca_cls c = agreed (verdicts db graph ctx p occs (ca_id c))" "removable (ca_cls c)"
    and "i < length occs" "occ_id db p (occs ! i) = ca_id c"
  shows "verdict_at db graph ctx p occs i = ca_cls c"
  using removable_agreed [of "verdicts db graph ctx p occs (ca_id c)"] nth_verdict [of i occs db graph ctx p] assms by auto

lemma removable_occurrence:
  assumes "ca_cls c = agreed (verdicts db graph ctx p occs (ca_id c))" "removable (ca_cls c)"
    and "es \<in> set occs" "occ_id db p es = ca_id c"
  shows "no_x_macro es \<and> (ca_cls c = UnusedByReference \<longrightarrow> unneeded db ctx es)"
proof -
  from assms(3) obtain i where i: "i < length occs" "occs ! i = es" by (metis in_set_conv_nth)
  then have "verdict_at db graph ctx p occs i = ca_cls c" using removable_verdict_at [OF assms(1,2)] assms(4) by simp
  then show ?thesis using assms(2) i
    by (auto simp: verdict_at_def removable_def classify_Duplicate classify_Unused)
qed

text \<open>(C5) A directive reported as removable is removable in every configuration that sees it: no occurrence of it
  re-includes an unguarded header, and when it is reported unused then every occurrence resolves, is an
  unconditional \<^verbatim>\<open>#include\<close> of an indexed non-system header whose macros the file does not expand, and the
  header declares nothing that the file refers to or defines.\<close>

theorem removable_in_every_configuration:
  assumes "c \<in> set (ar_candidates (analyze db opts))" "removable (ca_cls c)"
  shows "\<exists>src_id. map_of (an_files db) src_id = Some (ca_src_path c)
    \<and> (\<exists>es\<in>set (file_occurrences db src_id). occ_id db (ca_src_path c) es = ca_id c)
    \<and> (\<forall>es\<in>set (file_occurrences db src_id). occ_id db (ca_src_path c) es = ca_id c \<longrightarrow>
         no_x_macro es \<and> (ca_cls c = UnusedByReference \<longrightarrow> unneeded db (build_source_context db src_id) es))"
proof -
  obtain src_id where c: "map_of (an_files db) src_id = Some (ca_src_path c)"
    "verdicts db (analysis_graph db) (build_source_context db src_id) (ca_src_path c) (file_occurrences db src_id) (ca_id c) \<noteq> {}"
    "ca_cls c = agreed (verdicts db (analysis_graph db) (build_source_context db src_id) (ca_src_path c)
       (file_occurrences db src_id) (ca_id c))"
    using analyze_candidate [OF assms(1)] by metis
  from c(2) have "\<exists>es\<in>set (file_occurrences db src_id). occ_id db (ca_src_path c) es = ca_id c"
    by (auto simp: verdicts_def)
  with c(1) removable_occurrence [OF c(3) assms(2)] show ?thesis by blast
qed

lemma file_candidates_complete:
  assumes "es \<in> set (occurrences db fs)" "ao_want_duplicates opts" "ao_want_unused opts"
  shows "occ_id db p es \<in> ca_id ` set (file_candidates db graph opts src_id p fs)"
proof -
  let ?ctx = "build_source_context db src_id"
  obtain seen merged where st: "foldl (directive_step db graph ?ctx p) ({}, []) (occurrences db fs) = (seen, merged)"
    by fastforce
  have inv: "merged_inv db graph ?ctx p (occurrences db fs) (seen, merged)" using merged_inv_fold [of db graph ?ctx p] st by metis
  then obtain c where c: "map_of merged (occ_id db p es) = Some c" using merged_inv_complete [OF inv assms(1)] by auto
  then have "ca_id c = occ_id db p es" using merged_inv_entry [OF inv] by simp
  moreover have "finalize_merged c \<in> set (file_candidates db graph opts src_id p fs)"
    using st map_of_SomeD [OF c] assms(2,3) by (force simp: file_candidates_def kept_def)
  ultimately show ?thesis by (metis finalize_keeps(1) imageI)
qed

text \<open>With both kinds of finding requested, every directive of every file in scope has a candidate in the
  report.\<close>

theorem every_directive_reported:
  assumes "an_include_graph_populated db" "ao_want_duplicates opts" "ao_want_unused opts"
    and "es \<in> set (file_occurrences db src_id)" "map_of (an_files db) src_id = Some p"
    and "ao_scope_paths opts = [] \<or> p \<in> set (map (abspath (an_cwd db)) (ao_scope_paths opts))"
  shows "\<exists>c\<in>set (ar_candidates (analyze db opts)). ca_src_path c = p \<and> ca_id c = occ_id db p es"
proof -
  let ?scope = "set (map (abspath (an_cwd db)) (ao_scope_paths opts))"
  let ?es = "filter (in_scope db ?scope) (an_all_include_edges db True)"
  let ?fs = "filter (\<lambda>e. ie_src_file_id e = src_id) (an_all_include_edges db True)"
  have fs: "filter (\<lambda>e. ie_src_file_id e = src_id) ?es = ?fs"
    unfolding filter_filter by (rule filter_cong) (use assms(5,6) in \<open>auto simp: in_scope_def\<close>)
  have "?fs \<noteq> []" using assms(4) by (auto simp: file_occurrences_def occurrences_def filter_empty_conv)
  with fs have "map_of (group_by_source ?es) src_id = Some ?fs" by (simp add: map_of_group_by_source)
  then have g: "(src_id, ?fs) \<in> set (group_by_source ?es)" by (rule map_of_SomeD)
  have "occ_id db p es \<in> ca_id ` set (file_candidates db (analysis_graph db) opts src_id p ?fs)"
    using file_candidates_complete [OF _ assms(2,3)] assms(4) by (simp add: file_occurrences_def)
  then obtain c where c: "c \<in> set (file_candidates db (analysis_graph db) opts src_id p ?fs)" "ca_id c = occ_id db p es"
    by auto
  then have "c \<in> set (ar_candidates (analyze db opts))"
    using g assms(1,5) by (force simp: analyze_def Let_def analysis_graph_def)
  with c file_candidates_verdict [OF c(1)] show ?thesis by auto
qed

subsection \<open>Duplicates keep a first copy\<close>

lemma first_of_site:
  assumes "es \<in> set occs"
  obtains i where "i < length occs" "site_key (occs ! i) = site_key es"
    "site_key (occs ! i) \<notin> site_key ` set (take i occs)"
proof -
  let ?P = "\<lambda>i. i < length occs \<and> site_key (occs ! i) = site_key es"
  define i where "i = (LEAST i. ?P i)"
  have "\<exists>i. ?P i" using assms by (metis in_set_conv_nth)
  then have i: "?P i" unfolding i_def by (rule LeastI_ex)
  have before: "\<not> ?P j" if "j < i" for j using that not_less_Least unfolding i_def by blast
  have "site_key es \<notin> site_key ` set (take i occs)"
  proof
    assume "site_key es \<in> site_key ` set (take i occs)"
    then obtain x where x: "x \<in> set (take i occs)" "site_key x = site_key es" by force
    then obtain j where "j < i" "occs ! j = x" by (metis in_set_conv_nth length_take min_less_iff_conj nth_take)
    with x before [of j] i show False by (metis less_trans)
  qed
  with i that [of i] show thesis by simp
qed

text \<open>(C33) Removing every reported duplicate of a file leaves an include of its target: for each directive reported
  as a duplicate there is an occurrence of the same target under the same configuration and conditions whose
  own candidate is not reported as a duplicate.\<close>

theorem duplicates_keep_a_copy:
  assumes "distinct (map snd (an_files db))"
    and "c \<in> set (ar_candidates (analyze db opts))" "ca_cls c = Duplicate"
  shows "\<exists>src_id es es'. map_of (an_files db) src_id = Some (ca_src_path c)
    \<and> es \<in> set (file_occurrences db src_id) \<and> occ_id db (ca_src_path c) es = ca_id c
    \<and> es' \<in> set (file_occurrences db src_id) \<and> site_key es' = site_key es
    \<and> (\<forall>c'\<in>set (ar_candidates (analyze db opts)).
         ca_src_path c' = ca_src_path c \<and> ca_id c' = occ_id db (ca_src_path c) es' \<longrightarrow> ca_cls c' \<noteq> Duplicate)"
proof -
  obtain src_id where c: "map_of (an_files db) src_id = Some (ca_src_path c)"
    "verdicts db (analysis_graph db) (build_source_context db src_id) (ca_src_path c) (file_occurrences db src_id) (ca_id c) \<noteq> {}"
    using analyze_candidate [OF assms(2)] by metis
  let ?p = "ca_src_path c"
  let ?occs = "file_occurrences db src_id"
  from c(2) obtain es where es: "es \<in> set ?occs" "occ_id db ?p es = ca_id c"
    unfolding verdicts_def using nth_mem by blast
  obtain i where i: "i < length ?occs" "site_key (?occs ! i) = site_key es" "site_key (?occs ! i) \<notin> site_key ` set (take i ?occs)"
    using first_of_site [OF es(1)] by metis
  have "ca_cls c' \<noteq> Duplicate"
    if c': "c' \<in> set (ar_candidates (analyze db opts))" "ca_src_path c' = ?p" "ca_id c' = occ_id db ?p (?occs ! i)" for c'
  proof
    assume dup: "ca_cls c' = Duplicate"
    obtain src_id' where s': "map_of (an_files db) src_id' = Some (ca_src_path c')"
      "ca_cls c' = agreed (verdicts db (analysis_graph db) (build_source_context db src_id') (ca_src_path c')
         (file_occurrences db src_id') (ca_id c'))"
      using analyze_candidate [OF c'(1)] by metis
    have "src_id' = src_id"
      using assms(1) map_of_SomeD [OF s'(1)] map_of_SomeD [OF c(1)] c'(2) 
      by (simp add: distinct_map) (metis inj_onD prod.inject snd_conv)
    then have "ca_cls c' = agreed (verdicts db (analysis_graph db) (build_source_context db src_id) ?p ?occs (ca_id c'))"
      using s'(2) c'(2) by simp
    then have "verdict_at db (analysis_graph db) (build_source_context db src_id) ?p ?occs i = Duplicate"
      using removable_verdict_at [OF _ _ i(1) c'(3) [symmetric]] dup by (metis removable_def)
    with i(3) show False by (simp add: verdict_at_def classify_Duplicate)
  qed
  with c(1) es i show ?thesis by (metis nth_mem)
qed

subsection \<open>A file with a repeated and an unused include\<close>

definition sample_site :: "int \<Rightarrow> IncludeSite" where
  "sample_site off = \<lparr>is_id = off, is_edge_id = 1, is_line = 1, is_col = 1, is_begin_offset = off, is_end_offset = off + 2, is_spelling = ''h'',
     is_angled_form = False, is_directive = 1, is_cond_fingerprint = [], is_resolved = True, is_guarded = True\<rparr>"

definition sample_include :: "int \<Rightarrow> IncludeEdge" where
  "sample_include i = \<lparr>ie_id = i, ie_src_file_id = 1, ie_config_id = 1, ie_dst_path = ''/h'', ie_dst_file_id = Some 2,
     ie_is_system = False, ie_is_generated = False, ie_count = 2\<rparr>"

definition sample_index :: analysis_db where
  "sample_index = \<lparr>an_include_graph_populated = True, an_files = [(1, ''/m''), (2, ''/h'')], an_get_file = (\<lambda>_. Some 1),
     an_include_tier_covers_file = (\<lambda>_. True), an_all_include_edges = (\<lambda>_. [sample_include 1]),
     an_config_digest = (\<lambda>_. Some ''d''), an_include_sites_for = (\<lambda>_. [sample_site 0, sample_site 5]),
     an_symbol_ids_for_file = (\<lambda>f. if f = 2 then [7] else []), an_lookup_symbol = (\<lambda>_. None),
     an_edge_targets_from = (\<lambda>_. []), an_def_edge_targets_for_file = (\<lambda>_. []), an_type_ids_used_by = (\<lambda>_. []),
     an_symbols_named_by_types = (\<lambda>_. []), an_graph_edges_out = (\<lambda>_. []), an_edge_kinds = [],
     an_include_macro_uses = (\<lambda>_ _. []), an_disk = (\<lambda>_. None), an_sha1_hex = (\<lambda>s. s), an_cwd = ''/''\<rparr>"

abbreviation both_kinds :: AnalysisOptions where
  "both_kinds \<equiv> \<lparr>ao_scope_paths = [], ao_want_duplicates = True, ao_want_unused = True\<rparr>"

lemma sample_report:
  "map ca_cls (ar_candidates (analyze sample_index both_kinds)) = [UnusedByReference, Duplicate]"
  by code_simp

lemma sample_candidates:
  obtains u d where "ar_candidates (analyze sample_index both_kinds) = [u, d]" "ca_cls u = UnusedByReference" "ca_cls d = Duplicate"
  using sample_report by (auto simp: map_eq_Cons_conv)

lemma removable_in_every_configuration_witness:
  "\<exists>c\<in>set (ar_candidates (analyze sample_index both_kinds)). ca_cls c = UnusedByReference
     \<and> (\<exists>src_id. map_of (an_files sample_index) src_id = Some (ca_src_path c)
        \<and> (\<exists>es\<in>set (file_occurrences sample_index src_id).
             no_x_macro es \<and> unneeded sample_index (build_source_context sample_index src_id) es))"
proof -
  obtain u d where s: "ar_candidates (analyze sample_index both_kinds) = [u, d]" "ca_cls u = UnusedByReference"
    using sample_candidates by metis
  then have "u \<in> set (ar_candidates (analyze sample_index both_kinds))" "removable (ca_cls u)" by (simp_all add: removable_def)
  from removable_in_every_configuration [OF this] this(1) s(2) show ?thesis by blast
qed

lemma duplicates_keep_a_copy_witness:
  "\<exists>c\<in>set (ar_candidates (analyze sample_index both_kinds)). ca_cls c = Duplicate
     \<and> (\<exists>src_id es es'. map_of (an_files sample_index) src_id = Some (ca_src_path c)
        \<and> es \<in> set (file_occurrences sample_index src_id) \<and> es' \<in> set (file_occurrences sample_index src_id)
        \<and> site_key es' = site_key es)"
proof -
  obtain u d where s: "ar_candidates (analyze sample_index both_kinds) = [u, d]" "ca_cls d = Duplicate"
    using sample_candidates by metis
  then have d: "d \<in> set (ar_candidates (analyze sample_index both_kinds))" by simp
  have "distinct (map snd (an_files sample_index))" by (simp add: sample_index_def)
  from duplicates_keep_a_copy [OF this d s(2)] d s(2) show ?thesis by blast
qed

lemma every_directive_reported_witness:
  "\<exists>c\<in>set (ar_candidates (analyze sample_index both_kinds)).
     ca_src_path c = ''/m'' \<and> ca_id c = occ_id sample_index ''/m'' (sample_include 1, sample_site 5)"
proof -
  have "(sample_include 1, sample_site 5) \<in> set (file_occurrences sample_index 1)"
    by (simp add: file_occurrences_def occurrences_def sample_index_def sample_include_def)
  then show ?thesis by (intro every_directive_reported [of _ _ _ 1]) (simp_all add: sample_index_def)
qed

end
