(* ===== verification/Query_Plan.thy ===== *)
theory Query_Plan
  imports Prelude
begin

text \<open>
  The intermediate form of a graph query (\<^verbatim>\<open>query/plan.hpp\<close>, \<^verbatim>\<open>plan.cpp\<close>): views, the
  relation catalog, predicate trees, stages and plans with their builders. The generated
  tables of the catalog are a parameter, a record of their rows; a \<^verbatim>\<open>PlanError\<close> is its
  code and its text. Structures that contain themselves are datatypes with the fields of
  the structure.
\<close>

subsection \<open>Views\<close>

datatype View =
    View_Symbol | View_Entity | View_Parameter | View_TemplateParameter | View_TemplateArgument
  | View_SignatureSlot | View_CallArgument | View_Edge | View_Site | View_Evidence | View_Type | View_TypeLayer

fun view_name :: "View \<Rightarrow> string" where
  "view_name View_Symbol = ''symbol''"
| "view_name View_Entity = ''entity''"
| "view_name View_Parameter = ''parameter''"
| "view_name View_TemplateParameter = ''template_parameter''"
| "view_name View_TemplateArgument = ''template_argument''"
| "view_name View_SignatureSlot = ''signature_slot''"
| "view_name View_CallArgument = ''call_argument''"
| "view_name View_Edge = ''edge''"
| "view_name View_Site = ''site''"
| "view_name View_Evidence = ''evidence''"
| "view_name View_Type = ''type''"
| "view_name View_TypeLayer = ''type_layer''"

definition all_views :: "View list" where
  "all_views = [View_Symbol, View_Entity, View_Parameter, View_TemplateParameter, View_TemplateArgument,
     View_SignatureSlot, View_CallArgument, View_Edge, View_Site, View_Evidence, View_Type, View_TypeLayer]"

abbreviation dot :: char where "dot \<equiv> CHR ''.''"

definition view_from_domain :: "string \<Rightarrow> View" where
  "view_from_domain domain =
     (let name = takeWhile (\<lambda>c. c \<noteq> dot) domain
      in case List.find (\<lambda>v. name = view_name v) all_views of None \<Rightarrow> View_Symbol | Some v \<Rightarrow> v)"

subsection \<open>Relation catalog\<close>

record catalog_relation =
  cr_id :: int
  cr_name :: string
  cr_layer :: View
  cr_source :: string
  cr_target :: string
  cr_inverse :: string
  cr_traversal :: string
  cr_evidence :: string
  cr_evidence_capabilities :: string
  cr_completeness :: string
  cr_virtual_relation :: bool

record FieldDesc =
  fd_name :: string
  fd_filterable :: bool
  fd_is_string :: bool

record catalog =
  ct_relations :: "catalog_relation list"
  ct_fields :: "FieldDesc list"
  ct_entity_kinds :: "string list"
  ct_symbol_kinds :: "string list"

record RelationDesc =
  rd_name :: string
  rd_layer :: View
  rd_kind_id :: int
  rd_source :: string
  rd_target :: string
  rd_inverse :: string
  rd_traversal :: string
  rd_evidence :: string
  rd_evidence_capabilities :: string
  rd_completeness :: string
  rd_virtual_relation :: bool
  rd_target_view :: View

definition relation_catalog :: "catalog \<Rightarrow> RelationDesc list" where
  "relation_catalog cat = map (\<lambda>r.
     \<lparr>rd_name = cr_name r, rd_layer = cr_layer r, rd_kind_id = cr_id r, rd_source = cr_source r,
      rd_target = cr_target r, rd_inverse = cr_inverse r, rd_traversal = cr_traversal r,
      rd_evidence = cr_evidence r, rd_evidence_capabilities = cr_evidence_capabilities r,
      rd_completeness = cr_completeness r, rd_virtual_relation = cr_virtual_relation r,
      rd_target_view = view_from_domain (cr_target r)\<rparr>) (ct_relations cat)"

definition forced_view :: "string \<Rightarrow> View option" where
  "forced_view name = List.find (\<lambda>v. starts_with name (view_name v @ [dot])) all_views"

definition bare_name :: "string \<Rightarrow> string" where
  "bare_name name = (case forced_view name of None \<Rightarrow> name | Some v \<Rightarrow> drop (length (view_name v) + 1) name)"

definition relation_matches :: "View option \<Rightarrow> View \<Rightarrow> bool \<Rightarrow> RelationDesc \<Rightarrow> bool" where
  "relation_matches forced active inbound r =
     (if inbound then (case forced of None \<Rightarrow> True | Some v \<Rightarrow> rd_layer r = v) \<and> rd_target_view r = active
      else rd_layer r = (case forced of None \<Rightarrow> active | Some v \<Rightarrow> v))"

definition resolve_relation :: "catalog \<Rightarrow> string \<Rightarrow> View \<Rightarrow> bool \<Rightarrow> RelationDesc option" where
  "resolve_relation cat name active inbound =
     List.find (\<lambda>r. relation_matches (forced_view name) active inbound r \<and> rd_name r = bare_name name)
       (relation_catalog cat)"

fun resolve_in_views :: "RelationDesc list \<Rightarrow> string \<Rightarrow> View list \<Rightarrow> RelationDesc option" where
  "resolve_in_views rs qualified [] = None"
| "resolve_in_views rs qualified (v # vs) =
     (if \<not> starts_with qualified (view_name v @ [dot]) then resolve_in_views rs qualified vs
      else case List.find (\<lambda>r. rd_layer r = v \<and> rd_name r = drop (length (view_name v) + 1) qualified) rs of
             Some r \<Rightarrow> Some r
           | None \<Rightarrow> resolve_in_views rs qualified vs)"

definition resolve_qualified_relation :: "catalog \<Rightarrow> string \<Rightarrow> RelationDesc option" where
  "resolve_qualified_relation cat qualified = resolve_in_views (relation_catalog cat) qualified all_views"

definition qualified_name :: "RelationDesc \<Rightarrow> string" where
  "qualified_name r = view_name (rd_layer r) @ [dot] @ rd_name r"

definition is_entity_kind :: "catalog \<Rightarrow> string \<Rightarrow> bool" where
  "is_entity_kind cat name \<longleftrightarrow> name \<in> set (ct_entity_kinds cat)"

definition is_symbol_kind :: "catalog \<Rightarrow> string \<Rightarrow> bool" where
  "is_symbol_kind cat name \<longleftrightarrow> name \<in> set (ct_symbol_kinds cat)"

fun index_of :: "string \<Rightarrow> string list \<Rightarrow> nat option" where
  "index_of x [] = None"
| "index_of x (y # ys) = (if x = y then Some 0 else map_option Suc (index_of x ys))"

definition entity_kind_id :: "catalog \<Rightarrow> string \<Rightarrow> int" where
  "entity_kind_id cat name = (case index_of name (ct_entity_kinds cat) of None \<Rightarrow> - 1 | Some i \<Rightarrow> int i)"

definition field_desc :: "catalog \<Rightarrow> string \<Rightarrow> FieldDesc option" where
  "field_desc cat name =
     (if name = ''name_length'' then Some \<lparr>fd_name = ''name_length'', fd_filterable = False, fd_is_string = False\<rparr>
      else if name = ''file'' then Some \<lparr>fd_name = ''file'', fd_filterable = True, fd_is_string = False\<rparr>
      else if name = ''multi_def'' then Some \<lparr>fd_name = ''multi_def'', fd_filterable = True, fd_is_string = False\<rparr>
      else if name = ''negative_multi_def''
        then Some \<lparr>fd_name = ''negative_multi_def'', fd_filterable = False, fd_is_string = False\<rparr>
      else List.find (\<lambda>f. name = fd_name f) (ct_fields cat))"

subsection \<open>Predicates\<close>

datatype UnknownPolicy = Unknown_Exclude | Unknown_Include | Unknown_Error

datatype PredOp =
    Op_AllOf | Op_AnyOf | Op_Not | Op_Eq | Op_Ne | Op_Glob | Op_In
  | Op_Exists | Op_None | Op_All | Op_AtLeast | Op_Exactly

datatype Pred =
  Pred (pr_op: PredOp) (pr_kids: "Pred list") (pr_field: string) (pr_str_values: "string list")
       (pr_int_value: "int option") (pr_relation: string) (pr_target: "Pred option")
       (pr_min_depth: int) (pr_max_depth: int) (pr_threshold: int) (pr_inbound: bool)

definition bool_pred :: "PredOp \<Rightarrow> Pred list \<Rightarrow> Pred" where
  "bool_pred op kids = Pred op kids [] [] None [] None 1 1 0 False"

definition all_of :: "Pred list \<Rightarrow> Pred" where "all_of preds = bool_pred Op_AllOf preds"
definition any_of :: "Pred list \<Rightarrow> Pred" where "any_of preds = bool_pred Op_AnyOf preds"
definition not_pred :: "Pred \<Rightarrow> Pred" where "not_pred inner = bool_pred Op_Not [inner]"

definition cmp_pred :: "PredOp \<Rightarrow> string \<Rightarrow> string list \<Rightarrow> int option \<Rightarrow> Pred" where
  "cmp_pred op field strs ival = Pred op [] field strs ival [] None 1 1 0 False"

definition eq_str :: "string \<Rightarrow> string \<Rightarrow> Pred" where "eq_str field v = cmp_pred Op_Eq field [v] None"
definition eq_int :: "string \<Rightarrow> int \<Rightarrow> Pred" where "eq_int field v = cmp_pred Op_Eq field [] (Some v)"
definition eq_bool :: "string \<Rightarrow> bool \<Rightarrow> Pred" where "eq_bool field v = eq_int field (if v then 1 else 0)"
definition ne_str :: "string \<Rightarrow> string \<Rightarrow> Pred" where "ne_str field v = cmp_pred Op_Ne field [v] None"
definition glob_pred :: "string \<Rightarrow> string \<Rightarrow> Pred" where "glob_pred field v = cmp_pred Op_Glob field [v] None"
definition in_list :: "string \<Rightarrow> string list \<Rightarrow> Pred" where "in_list field vs = cmp_pred Op_In field vs None"

definition relation_pred :: "PredOp \<Rightarrow> string \<Rightarrow> Pred option \<Rightarrow> int \<Rightarrow> int \<Rightarrow> bool \<Rightarrow> int \<Rightarrow> Pred" where
  "relation_pred op relation target min_depth max_depth inbound threshold =
     Pred op [] [] [] None relation target min_depth max_depth threshold inbound"

definition exists_pred :: "string \<Rightarrow> Pred option \<Rightarrow> int \<Rightarrow> int \<Rightarrow> bool \<Rightarrow> Pred" where
  "exists_pred relation target mn mx inbound = relation_pred Op_Exists relation target mn mx inbound 0"
definition none_pred :: "string \<Rightarrow> Pred option \<Rightarrow> int \<Rightarrow> int \<Rightarrow> bool \<Rightarrow> Pred" where
  "none_pred relation target mn mx inbound = relation_pred Op_None relation target mn mx inbound 0"
definition all_pred :: "string \<Rightarrow> Pred option \<Rightarrow> int \<Rightarrow> int \<Rightarrow> bool \<Rightarrow> Pred" where
  "all_pred relation target mn mx inbound = relation_pred Op_All relation target mn mx inbound 0"
definition at_least :: "int \<Rightarrow> string \<Rightarrow> Pred option \<Rightarrow> int \<Rightarrow> int \<Rightarrow> bool \<Rightarrow> Pred" where
  "at_least threshold relation target mn mx inbound = relation_pred Op_AtLeast relation target mn mx inbound threshold"
definition exactly :: "int \<Rightarrow> string \<Rightarrow> Pred option \<Rightarrow> int \<Rightarrow> int \<Rightarrow> bool \<Rightarrow> Pred" where
  "exactly threshold relation target mn mx inbound = relation_pred Op_Exactly relation target mn mx inbound threshold"

subsection \<open>Semantic helpers\<close>

datatype target_kind = Target_Any | Target_All | Target_None

record TargetSet =
  ts_kind :: target_kind
  ts_refs :: "string list"

definition any_target :: "string list \<Rightarrow> TargetSet" where "any_target refs = \<lparr>ts_kind = Target_Any, ts_refs = refs\<rparr>"
definition all_targets :: "string list \<Rightarrow> TargetSet" where "all_targets refs = \<lparr>ts_kind = Target_All, ts_refs = refs\<rparr>"
definition no_targets :: "string list \<Rightarrow> TargetSet" where "no_targets refs = \<lparr>ts_kind = Target_None, ts_refs = refs\<rparr>"

definition target_ref :: "string \<Rightarrow> Pred" where
  "target_ref ref = any_of [eq_str ''usr'' ref, eq_str ''qual_name'' ref, eq_str ''spelling'' ref]"

definition target_set_pred :: "string \<Rightarrow> TargetSet \<Rightarrow> bool \<Rightarrow> int \<Rightarrow> int \<Rightarrow> Pred" where
  "target_set_pred relation targets inbound mn mx =
     (let parts = map (\<lambda>ref. exists_pred relation (Some (target_ref ref)) mn mx inbound) (ts_refs targets)
      in if ts_refs targets = [] then (if ts_kind targets = Target_Any then any_of [] else all_of [])
         else case ts_kind targets of
           Target_Any \<Rightarrow> if length parts = 1 then hd parts else any_of parts
         | Target_All \<Rightarrow> if length parts = 1 then hd parts else all_of parts
         | Target_None \<Rightarrow> none_pred relation (Some (any_of (map target_ref (ts_refs targets)))) mn mx inbound)"

definition relation_target :: "string \<Rightarrow> string \<Rightarrow> bool \<Rightarrow> int \<Rightarrow> int \<Rightarrow> Pred" where
  "relation_target relation target inbound mn mx = exists_pred relation (Some (target_ref target)) mn mx inbound"

definition inherits_from :: "string \<Rightarrow> bool \<Rightarrow> Pred" where
  "inherits_from target transitive = relation_target ''inherits'' target False 1 (if transitive then 32 else 1)"
definition inherits_from_set :: "TargetSet \<Rightarrow> bool \<Rightarrow> Pred" where
  "inherits_from_set targets transitive = target_set_pred ''inherits'' targets False 1 (if transitive then 32 else 1)"
definition implements :: "string \<Rightarrow> Pred" where
  "implements target = relation_target ''implements'' target False 1 1"
definition implements_set :: "TargetSet \<Rightarrow> Pred" where
  "implements_set targets = target_set_pred ''implements'' targets False 1 1"
definition has_ancestor :: "string \<Rightarrow> bool \<Rightarrow> Pred" where
  "has_ancestor target transitive = inherits_from target transitive"
definition has_member :: "Pred option \<Rightarrow> Pred" where "has_member target = exists_pred ''field_of'' target 1 1 True"
definition has_method :: "Pred option \<Rightarrow> Pred" where "has_method target = exists_pred ''method_of'' target 1 1 True"
definition has_field :: "Pred option \<Rightarrow> Pred" where "has_field target = has_member target"
definition has_nested :: "Pred option \<Rightarrow> Pred" where "has_nested target = exists_pred ''contains'' target 1 1 False"
definition has_template_arg :: "Pred option \<Rightarrow> Pred" where
  "has_template_arg target = exists_pred ''instantiates'' target 1 1 False"
definition is_specialization_of :: "string \<Rightarrow> Pred" where
  "is_specialization_of target = relation_target ''specializes'' target False 1 1"
definition is_instantiation_of :: "string \<Rightarrow> Pred" where
  "is_instantiation_of target = relation_target ''instantiates'' target False 1 1"
definition calls :: "Pred option \<Rightarrow> Pred" where "calls target = exists_pred ''calls'' target 1 1 False"
definition called_by :: "Pred option \<Rightarrow> Pred" where "called_by target = exists_pred ''calls'' target 1 1 True"
definition uses_pred :: "Pred option \<Rightarrow> Pred" where "uses_pred target = exists_pred ''uses'' target 1 1 False"
definition used_by :: "Pred option \<Rightarrow> Pred" where "used_by target = exists_pred ''uses'' target 1 1 True"
definition is_abstract :: Pred where
  "is_abstract = in_list ''entity_type'' [''abstract_class'', ''abstract_class_template'']"
definition is_interface :: Pred where "is_interface = in_list ''entity_type'' [''interface'', ''interface_template'']"
definition is_pure :: Pred where "is_pure = eq_bool ''is_pure'' True"
definition is_static :: Pred where "is_static = eq_bool ''is_static'' True"
definition is_template :: Pred where "is_template = in_list ''kind'' [''class-template'', ''function-template'']"
definition is_instance :: Pred where "is_instance = exists_pred ''instantiates'' None 1 1 False"

subsection \<open>Stages and plans\<close>

datatype StageOp =
    Stage_Nodes | Stage_ChangeView | Stage_Where | Stage_Out | Stage_In | Stage_Sites | Stage_Union | Stage_Intersect
  | Stage_Except | Stage_Select | Stage_Count | Stage_Distinct | Stage_OrderBy | Stage_Limit | Stage_Path | Stage_Rank
  | Stage_ReverseTypeUse

fun stage_op_name :: "StageOp \<Rightarrow> string" where
  "stage_op_name Stage_Nodes = ''nodes''"
| "stage_op_name Stage_ChangeView = ''view''"
| "stage_op_name Stage_Where = ''where''"
| "stage_op_name Stage_Out = ''out''"
| "stage_op_name Stage_In = ''in''"
| "stage_op_name Stage_Sites = ''sites''"
| "stage_op_name Stage_Union = ''union''"
| "stage_op_name Stage_Intersect = ''intersect''"
| "stage_op_name Stage_Except = ''except''"
| "stage_op_name Stage_Select = ''select''"
| "stage_op_name Stage_Count = ''count''"
| "stage_op_name Stage_Distinct = ''distinct''"
| "stage_op_name Stage_OrderBy = ''order_by''"
| "stage_op_name Stage_Limit = ''limit''"
| "stage_op_name Stage_Path = ''path''"
| "stage_op_name Stage_Rank = ''rank''"
| "stage_op_name Stage_ReverseTypeUse = ''reverse_type_use''"

datatype TraversalMode = Mode_Static | Mode_Devirtualized

fun traversal_mode_name :: "TraversalMode \<Rightarrow> string" where
  "traversal_mode_name Mode_Devirtualized = ''devirtualized''"
| "traversal_mode_name Mode_Static = ''static''"

fun unknown_policy_name :: "UnknownPolicy \<Rightarrow> string" where
  "unknown_policy_name Unknown_Exclude = ''exclude''"
| "unknown_policy_name Unknown_Include = ''include''"
| "unknown_policy_name Unknown_Error = ''error''"

datatype SourceKind = Source_Codebase | Source_Symbol | Source_Entity

record Source =
  so_kind :: SourceKind
  so_ref :: string

datatype Stage =
    Stage (sg_op: StageOp) (sg_pred: "Pred option") (sg_level: View) (sg_relation: string) (sg_mode: TraversalMode)
          (sg_min_depth: int) (sg_max_depth: int) (sg_operand: "Plan option") (sg_fields: "string list") (sg_n: int)
          (sg_unknown: UnknownPolicy) (sg_inbound: bool)
and Plan = Plan (pl_source: Source) (pl_stages: "Stage list")

definition codebase :: Source where "codebase = \<lparr>so_kind = Source_Codebase, so_ref = []\<rparr>"
definition symbol_source :: "string \<Rightarrow> Source" where "symbol_source ref = \<lparr>so_kind = Source_Symbol, so_ref = ref\<rparr>"
definition entity_source :: "string \<Rightarrow> Source" where "entity_source ref = \<lparr>so_kind = Source_Entity, so_ref = ref\<rparr>"

definition pipe :: "Plan \<Rightarrow> Stage \<Rightarrow> Plan" where "pipe q s = Plan (pl_source q) (pl_stages q @ [s])"

definition nodes_stage :: Stage where
  "nodes_stage = Stage Stage_Nodes None View_Symbol [] Mode_Static 1 1 None [] 0 Unknown_Exclude False"
definition nodes_where_stage :: "Pred \<Rightarrow> UnknownPolicy \<Rightarrow> Stage" where
  "nodes_where_stage p unknown = Stage Stage_Nodes (Some p) View_Symbol [] Mode_Static 1 1 None [] 0 unknown False"
definition view_stage :: "View \<Rightarrow> Stage" where
  "view_stage level = Stage Stage_ChangeView None level [] Mode_Static 1 1 None [] 0 Unknown_Exclude False"
definition where_stage :: "Pred \<Rightarrow> UnknownPolicy \<Rightarrow> Stage" where
  "where_stage p unknown = Stage Stage_Where (Some p) View_Symbol [] Mode_Static 1 1 None [] 0 unknown False"
definition out_stage :: "string \<Rightarrow> int \<Rightarrow> int \<Rightarrow> TraversalMode \<Rightarrow> Stage" where
  "out_stage relation mn mx mode = Stage Stage_Out None View_Symbol relation mode mn mx None [] 0 Unknown_Exclude False"
definition in_stage :: "string \<Rightarrow> int \<Rightarrow> int \<Rightarrow> Stage" where
  "in_stage relation mn mx = Stage Stage_In None View_Symbol relation Mode_Static mn mx None [] 0 Unknown_Exclude False"
definition sites_stage :: Stage where
  "sites_stage = Stage Stage_Sites None View_Symbol [] Mode_Static 1 1 None [] 0 Unknown_Exclude False"
definition set_stage :: "StageOp \<Rightarrow> Plan \<Rightarrow> Stage" where
  "set_stage op operand = Stage op None View_Symbol [] Mode_Static 1 1 (Some operand) [] 0 Unknown_Exclude False"
definition union_stage :: "Plan \<Rightarrow> Stage" where "union_stage operand = set_stage Stage_Union operand"
definition intersect_stage :: "Plan \<Rightarrow> Stage" where "intersect_stage operand = set_stage Stage_Intersect operand"
definition except_stage :: "Plan \<Rightarrow> Stage" where "except_stage operand = set_stage Stage_Except operand"
definition select_stage :: "string list \<Rightarrow> Stage" where
  "select_stage fs = Stage Stage_Select None View_Symbol [] Mode_Static 1 1 None fs 0 Unknown_Exclude False"
definition count_stage :: Stage where
  "count_stage = Stage Stage_Count None View_Symbol [] Mode_Static 1 1 None [] 0 Unknown_Exclude False"
definition distinct_stage :: Stage where
  "distinct_stage = Stage Stage_Distinct None View_Symbol [] Mode_Static 1 1 None [] 0 Unknown_Exclude False"
definition order_by_stage :: "string list \<Rightarrow> Stage" where
  "order_by_stage fs = Stage Stage_OrderBy None View_Symbol [] Mode_Static 1 1 None fs 0 Unknown_Exclude False"
definition limit_stage :: "int \<Rightarrow> Stage" where
  "limit_stage n = Stage Stage_Limit None View_Symbol [] Mode_Static 1 1 None [] n Unknown_Exclude False"
definition path_stage :: "Plan \<Rightarrow> string \<Rightarrow> int \<Rightarrow> int \<Rightarrow> int \<Rightarrow> bool \<Rightarrow> Stage" where
  "path_stage to_plan relation mn mx shortest inbound =
     Stage Stage_Path None View_Symbol relation Mode_Static mn mx (Some to_plan) [] shortest Unknown_Exclude inbound"
definition rank_stage :: "int \<Rightarrow> Stage" where
  "rank_stage top_n = Stage Stage_Rank None View_Symbol [] Mode_Static 1 1 None [] top_n Unknown_Exclude False"
definition reverse_type_use_stage :: "int \<Rightarrow> Stage" where
  "reverse_type_use_stage mx =
     Stage Stage_ReverseTypeUse None View_Symbol [] Mode_Static 1 mx None [] 0 Unknown_Exclude False"

end
