(* ===== verification/Query_Validate.thy ===== *)
theory Query_Validate
  imports Query_Plan
begin

text \<open>
  Validation and normalisation of query plans (\<^verbatim>\<open>query/plan.cpp\<close>): the fields each view
  offers, the checks of a comparison, normal forms of predicates and the walk over the
  stages with its state of view, shape and selection.
\<close>

datatype plan_error = PlanError string string

definition fail :: "string \<Rightarrow> string \<Rightarrow> plan_error + 'a" where
  "fail code what = Inl (PlanError code what)"

lemma fail_not_Inr [simp]: "fail code what \<noteq> Inr x" "(fail code what = Inr x) = False"
  by (simp_all add: fail_def)

abbreviation logical :: "View \<Rightarrow> bool" where
  "logical v \<equiv> v = View_Symbol \<or> v = View_Entity"

subsection \<open>Fields of a view\<close>

fun typed_fields :: "View \<Rightarrow> string list" where
  "typed_fields View_Parameter =
     [''owner_id'', ''position'', ''pack_index'', ''name'', ''type_id'', ''declared_type_id'', ''adjusted_type_id'',
      ''default_text'', ''default_origin'', ''reference_semantics'', ''file_id'', ''line'', ''col'']"
| "typed_fields View_TemplateParameter =
     [''owner_id'', ''position'', ''param_kind'', ''name'', ''default_txt'', ''type_id'', ''default_type_id'',
      ''default_ref_id'']"
| "typed_fields View_TemplateArgument =
     [''owner_id'', ''position'', ''pack_index'', ''arg_kind'', ''ref_id'', ''literal'', ''type_id'']"
| "typed_fields View_CallArgument =
     [''edge_id'', ''file_id'', ''line'', ''col'', ''position'', ''src_kind'', ''type_usr'', ''decl_usr'',
      ''callee_usr'', ''type_id'', ''decl_id'', ''callee_id'', ''type_is_value'']"
| "typed_fields View_Edge =
     [''edge_id'', ''src_id'', ''dst_id'', ''kind'', ''count'', ''negative_count'', ''effective_count'',
      ''base_access'', ''is_virtual'', ''vtable_slot'', ''relation'', ''source'', ''target'', ''evidence'',
      ''status'', ''partial'', ''unknown'']"
| "typed_fields View_Site =
     [''edge_id'', ''file_id'', ''file'', ''line'', ''col'', ''src_id'', ''dst_id'', ''relation'', ''source'',
      ''target'', ''evidence'', ''status'', ''partial'', ''unknown'']"
| "typed_fields View_Evidence =
     [''owner_id'', ''position'', ''default_txt'', ''default_type_id'', ''default_ref_id'', ''edge_id'', ''file_id'',
      ''line'', ''col'', ''conditional'', ''args_sig'', ''recv_src_kind'', ''recv_type_usr'', ''recv_decl_usr'',
      ''recv_type_id'', ''recv_decl_id'', ''recv_param_pos'', ''recv_type_is_value'', ''relation'', ''source'',
      ''target'', ''evidence'', ''status'', ''partial'', ''unknown'']"
| "typed_fields View_Type =
     [''type_key'', ''spelling'', ''kind'', ''is_const'', ''is_volatile'', ''is_restrict'', ''cv_qualifiers'',
      ''decl_usr'', ''decl_id'', ''canonical_id'', ''extent'']"
| "typed_fields View_SignatureSlot =
     [''owner_id'', ''position'', ''pack_index'', ''slot_kind'', ''name'', ''type_id'', ''declared_type_id'',
      ''adjusted_type_id'', ''default_text'', ''default_origin'', ''reference_semantics'', ''mode'', ''value_kind'',
      ''named_decl'']"
| "typed_fields View_TypeLayer =
     [''root_id'', ''path'', ''relation'', ''position'', ''depth'', ''status'', ''type_id'', ''spelling'', ''kind'',
      ''extent'', ''element_type'', ''decl_usr'', ''canonical_id'', ''is_const'', ''is_volatile'', ''is_restrict'']"
| "typed_fields _ = []"

definition field_available :: "catalog \<Rightarrow> View \<Rightarrow> string \<Rightarrow> bool" where
  "field_available cat v name =
     (if logical v then field_desc cat name \<noteq> None
      else name = ''id'' \<or> name = ''identity_key'' \<or> name \<in> set (typed_fields v))"

definition typed_strings :: "string list" where
  "typed_strings =
     [''identity_key'', ''name'', ''spelling'', ''type_key'', ''default_text'', ''default_origin'', ''default_txt'',
      ''reference_semantics'', ''literal'', ''src_kind'', ''type_usr'', ''decl_usr'', ''callee_usr'', ''args_sig'',
      ''recv_src_kind'', ''recv_type_usr'', ''recv_decl_usr'', ''slot_kind'', ''path'', ''relation'', ''source'',
      ''target'', ''evidence'', ''status'', ''extent'', ''kind'', ''mode'', ''value_kind'', ''named_decl'']"

subsection \<open>Comparisons\<close>

definition bad_arity :: "Pred \<Rightarrow> bool" where
  "bad_arity p = (if pr_op p = Op_In then pr_str_values p = [] else length (pr_str_values p) \<noteq> 1)"

definition in_quotes :: "string \<Rightarrow> string" where
  "in_quotes s = CHR 0x27 # s @ [CHR 0x27]"

definition check_string :: "Pred \<Rightarrow> plan_error + unit" where
  "check_string p =
     (if pr_int_value p \<noteq> None then fail ''E_FIELD'' (''field '' @ in_quotes (pr_field p) @ '' takes a string value'')
      else if bad_arity p then fail ''E_FIELD'' (''bad value arity for field '' @ in_quotes (pr_field p))
      else Inr ())"

definition check_integer :: "bool \<Rightarrow> Pred \<Rightarrow> plan_error + unit" where
  "check_integer unsupported p =
     (if unsupported then fail ''E_FIELD'' (''field '' @ in_quotes (pr_field p) @ '' supports eq/ne only'')
      else if pr_int_value p = None then fail ''E_FIELD'' (''field '' @ in_quotes (pr_field p) @ '' takes an integer value'')
      else Inr ())"

definition check_typed :: "Pred \<Rightarrow> View \<Rightarrow> plan_error + unit" where
  "check_typed p active =
     (if pr_op p = Op_Glob then fail ''E_FIELD'' ''glob predicates are not supported for typed views''
      else if pr_field p \<in> set typed_strings
              \<and> \<not> (active = View_Edge \<and> pr_field p = ''kind'' \<and> pr_int_value p \<noteq> None)
      then check_string p
      else check_integer (pr_op p = Op_In) p)"

definition check_kinds :: "string \<Rightarrow> (string \<Rightarrow> bool) \<Rightarrow> string list \<Rightarrow> plan_error + unit" where
  "check_kinds what known vs =
     (case List.find (\<lambda>v. \<not> known v) vs of
        Some v \<Rightarrow> fail ''E_KIND'' (''unknown '' @ what @ '' '' @ in_quotes v)
      | None \<Rightarrow> Inr ())"

definition check_logical :: "catalog \<Rightarrow> Pred \<Rightarrow> plan_error + unit" where
  "check_logical cat p =
     (case field_desc cat (pr_field p) of
        None \<Rightarrow> fail ''E_FIELD'' (''unknown field '' @ in_quotes (pr_field p))
      | Some f \<Rightarrow>
          if \<not> fd_filterable f then fail ''E_FIELD'' (''field '' @ in_quotes (pr_field p) @ '' is select-only'')
          else bindE (if fd_is_string f then check_string p
                      else check_integer (pr_op p = Op_Glob \<or> pr_op p = Op_In) p) (\<lambda>_.
            if (pr_field p = ''kind'' \<or> pr_field p = ''entity_type'') \<and> pr_op p = Op_Glob
            then fail ''E_FIELD'' (''field '' @ in_quotes (pr_field p) @ '' does not support glob'')
            else if pr_field p = ''kind'' then check_kinds ''symbol kind'' (is_symbol_kind cat) (pr_str_values p)
            else if pr_field p = ''entity_type'' then check_kinds ''entity_type'' (is_entity_kind cat) (pr_str_values p)
            else Inr ()))"

definition check_cmp :: "catalog \<Rightarrow> Pred \<Rightarrow> View \<Rightarrow> plan_error + unit" where
  "check_cmp cat p active =
     (if \<not> field_available cat active (pr_field p)
      then fail ''E_FIELD'' (''field '' @ in_quotes (pr_field p) @ '' is unavailable in '' @ view_name active @ '' view'')
      else if \<not> logical active then check_typed p active
      else check_logical cat p)"

subsection \<open>Normal forms of predicates\<close>

definition unknown_relation :: "string \<Rightarrow> View \<Rightarrow> plan_error + 'a" where
  "unknown_relation name active =
     fail ''E_RELATION'' (''unknown relation '' @ in_quotes name @ '' in '' @ view_name active @ '' view'')"

definition bad_depth :: "int \<Rightarrow> int \<Rightarrow> bool" where
  "bad_depth mn mx \<longleftrightarrow> mn < 1 \<or> mn > mx \<or> mx > 32"

definition depth_error :: "plan_error + 'a" where
  "depth_error = fail ''E_DEPTH'' ''depth bounds must satisfy 1 <= min <= max <= 32''"

definition splice :: "PredOp \<Rightarrow> Pred \<Rightarrow> Pred list" where
  "splice op nk = (if pr_op nk = op then pr_kids nk else [nk])"

definition collapse :: "PredOp \<Rightarrow> Pred list \<Rightarrow> Pred" where
  "collapse op ks = (if length ks = 1 then hd ks else bool_pred op ks)"

text \<open>The inner predicate of a normalised negation is its first child.\<close>

definition negate :: "Pred \<Rightarrow> Pred" where
  "negate nk = (if pr_op nk = Op_Not then hd (pr_kids nk) else bool_pred Op_Not [nk])"

definition is_bool :: "PredOp \<Rightarrow> bool" where "is_bool op \<longleftrightarrow> op = Op_AllOf \<or> op = Op_AnyOf"
definition is_cmp :: "PredOp \<Rightarrow> bool" where "is_cmp op \<longleftrightarrow> op \<in> {Op_Eq, Op_Ne, Op_Glob, Op_In}"
definition is_counting :: "PredOp \<Rightarrow> bool" where "is_counting op \<longleftrightarrow> op = Op_AtLeast \<or> op = Op_Exactly"

fun norm_pred :: "catalog \<Rightarrow> View \<Rightarrow> Pred \<Rightarrow> plan_error + Pred"
  and norm_kids :: "catalog \<Rightarrow> PredOp \<Rightarrow> View \<Rightarrow> Pred list \<Rightarrow> plan_error + Pred list"
  and norm_target :: "catalog \<Rightarrow> View \<Rightarrow> Pred option \<Rightarrow> plan_error + Pred option" where
  "norm_pred cat active (Pred op kids field strs ival rel target mn mx thr inb) =
     (if is_bool op then
        (if kids = [] then fail ''E_FIELD'' ''empty boolean combinator''
         else bindE (norm_kids cat op active kids) (\<lambda>ks. Inr (collapse op ks)))
      else if op = Op_Not then
        (case kids of
           [k] \<Rightarrow> bindE (norm_pred cat active k) (\<lambda>nk. Inr (negate nk))
         | _ \<Rightarrow> fail ''E_FIELD'' ''not() takes exactly one predicate'')
      else if is_cmp op then
        bindE (check_cmp cat (Pred op kids field strs ival rel target mn mx thr inb) active)
          (\<lambda>_. Inr (Pred op kids field strs ival rel target mn mx thr inb))
      else
        (case resolve_relation cat rel active False of
           None \<Rightarrow> unknown_relation rel active
         | Some r \<Rightarrow>
             if bad_depth mn mx then depth_error
             else if is_counting op \<and> thr < 0 then fail ''E_LIMIT'' ''quantifier threshold must be >= 0''
             else bindE (norm_target cat (rd_layer r) target)
               (\<lambda>t. Inr (Pred op kids field strs ival (qualified_name r) t mn mx thr inb))))"
| "norm_kids cat op active [] = Inr []"
| "norm_kids cat op active (k # ks) =
     bindE (norm_pred cat active k) (\<lambda>nk. bindE (norm_kids cat op active ks) (\<lambda>nks. Inr (splice op nk @ nks)))"
| "norm_target cat v None = Inr None"
| "norm_target cat v (Some t) = bindE (norm_pred cat v t) (\<lambda>nt. Inr (Some nt))"

subsection \<open>The walk\<close>

datatype Shape = Shape_Nodes | Shape_Rows | Shape_Scalar | Shape_Path

record WalkState =
  wk_active :: View
  wk_shape :: Shape
  wk_codebase_unenumerated :: bool
  wk_selected :: "string list"

definition fresh_walk :: WalkState where
  "fresh_walk = \<lparr>wk_active = View_Symbol, wk_shape = Shape_Nodes, wk_codebase_unenumerated = False, wk_selected = []\<rparr>"

definition is_known_view :: "View \<Rightarrow> bool" where
  "is_known_view v \<longleftrightarrow> v \<in> set all_views"

definition unenumerated :: "plan_error + 'a" where
  "unenumerated = fail ''E_STAGE'' ''codebase() must be enumerated with nodes() first''"

definition consume :: "WalkState \<Rightarrow> plan_error + 'a \<Rightarrow> plan_error + 'a" where
  "consume st k = (if wk_codebase_unenumerated st then unenumerated else k)"

type_synonym walked = "plan_error + Stage \<times> WalkState"

definition with_pred :: "Pred option \<Rightarrow> Stage \<Rightarrow> Stage" where
  "with_pred p s = Stage (sg_op s) p (sg_level s) (sg_relation s) (sg_mode s) (sg_min_depth s) (sg_max_depth s)
     (sg_operand s) (sg_fields s) (sg_n s) (sg_unknown s) (sg_inbound s)"

definition with_relation :: "string \<Rightarrow> Stage \<Rightarrow> Stage" where
  "with_relation rel s = Stage (sg_op s) (sg_pred s) (sg_level s) rel (sg_mode s) (sg_min_depth s) (sg_max_depth s)
     (sg_operand s) (sg_fields s) (sg_n s) (sg_unknown s) (sg_inbound s)"

definition with_operand :: "Plan \<Rightarrow> Stage \<Rightarrow> Stage" where
  "with_operand p s = Stage (sg_op s) (sg_pred s) (sg_level s) (sg_relation s) (sg_mode s) (sg_min_depth s) (sg_max_depth s)
     (Some p) (sg_fields s) (sg_n s) (sg_unknown s) (sg_inbound s)"

definition walk_nodes :: "catalog \<Rightarrow> Stage \<Rightarrow> WalkState \<Rightarrow> walked" where
  "walk_nodes cat s st =
     (if \<not> wk_codebase_unenumerated st then fail ''E_STAGE'' ''nodes() requires an unenumerated codebase() source''
      else bindE (norm_target cat (wk_active st) (sg_pred s)) (\<lambda>np.
        Inr (with_pred np s, st\<lparr>wk_codebase_unenumerated := False\<rparr>)))"

definition walk_view :: "Stage \<Rightarrow> WalkState \<Rightarrow> walked" where
  "walk_view s st =
     (if wk_shape st \<noteq> Shape_Nodes then fail ''E_STAGE'' ''view() applies to a node stream''
      else if \<not> is_known_view (sg_level s) then fail ''E_VIEW'' (''unknown view '' @ in_quotes (view_name (sg_level s)))
      else if \<not> wk_codebase_unenumerated st \<and> sg_level s \<noteq> wk_active st
              \<and> \<not> (logical (wk_active st) \<and> logical (sg_level s))
      then fail ''E_VIEW'' (''cannot change view from '' @ view_name (wk_active st) @ '' to '' @ view_name (sg_level s))
      else Inr (s, st\<lparr>wk_active := sg_level s\<rparr>))"

definition walk_where :: "catalog \<Rightarrow> Stage \<Rightarrow> WalkState \<Rightarrow> walked" where
  "walk_where cat s st =
     (if wk_shape st \<noteq> Shape_Nodes then fail ''E_STAGE'' ''where() applies to a node stream''
      else if sg_pred s = None then fail ''E_FIELD'' ''where() requires a predicate''
      else consume st (bindE (norm_target cat (wk_active st) (sg_pred s)) (\<lambda>np. Inr (with_pred np s, st))))"

definition is_typed :: "RelationDesc \<Rightarrow> View \<Rightarrow> bool" where
  "is_typed r active \<longleftrightarrow> rd_virtual_relation r \<or> \<not> logical active \<or> \<not> logical (rd_target_view r)"

definition walk_traverse :: "catalog \<Rightarrow> Stage \<Rightarrow> WalkState \<Rightarrow> walked" where
  "walk_traverse cat s st =
     consume st
       (if wk_shape st \<noteq> Shape_Nodes then fail ''E_STAGE'' ''traversal applies to a node stream''
        else
          let inbound = (sg_op s = Stage_In) in
          case resolve_relation cat (sg_relation s) (wk_active st) inbound of
            None \<Rightarrow> unknown_relation (sg_relation s) (wk_active st)
          | Some r \<Rightarrow>
              if bad_depth (sg_min_depth s) (sg_max_depth s) then depth_error
              else if is_typed r (wk_active st) \<and> (sg_min_depth s \<noteq> 1 \<or> sg_max_depth s \<noteq> 1)
              then fail ''E_DEPTH'' ''typed traversal currently supports only depth 1..1''
              else if sg_mode s = Mode_Devirtualized
                      \<and> (sg_op s \<noteq> Stage_Out \<or> rd_layer r \<noteq> View_Symbol \<or> rd_name r \<noteq> ''calls'')
              then fail ''E_STAGE'' ''devirtualized mode requires an outbound symbol.calls traversal''
              else Inr (with_relation (qualified_name r) s,
                        st\<lparr>wk_active := (if inbound then rd_layer r else rd_target_view r)\<rparr>))"

definition walk_sites :: "Stage \<Rightarrow> WalkState \<Rightarrow> walked" where
  "walk_sites s st =
     consume st
       (if wk_shape st \<noteq> Shape_Nodes then fail ''E_STAGE'' ''sites() applies to a node stream''
        else if wk_active st \<noteq> View_Edge then fail ''E_VIEW'' ''sites() requires an edge node stream''
        else Inr (s, st\<lparr>wk_active := View_Site\<rparr>))"

definition check_field :: "catalog \<Rightarrow> View \<Rightarrow> string \<Rightarrow> plan_error + unit" where
  "check_field cat v f =
     (if \<not> field_available cat v f
      then fail ''E_FIELD'' (''field '' @ in_quotes f @ '' is unavailable in '' @ view_name v @ '' view'')
      else Inr ())"

definition walk_select :: "catalog \<Rightarrow> Stage \<Rightarrow> WalkState \<Rightarrow> walked" where
  "walk_select cat s st =
     consume st
       (if wk_shape st \<noteq> Shape_Nodes then fail ''E_STAGE'' ''select() applies to a node stream''
        else if sg_fields s = [] then fail ''E_FIELD'' ''select() requires at least one field''
        else bindE (mapE (check_field cat (wk_active st)) (sg_fields s)) (\<lambda>_.
          Inr (s, st\<lparr>wk_shape := Shape_Rows, wk_selected := sg_fields s\<rparr>)))"

definition check_order :: "catalog \<Rightarrow> WalkState \<Rightarrow> string \<Rightarrow> plan_error + unit" where
  "check_order cat st f =
     bindE (check_field cat (wk_active st) f) (\<lambda>_.
       if wk_shape st = Shape_Rows \<and> f \<notin> set (wk_selected st)
       then fail ''E_FIELD'' (''order_by field '' @ in_quotes f @ '' is not selected'')
       else Inr ())"

definition walk_order_by :: "catalog \<Rightarrow> Stage \<Rightarrow> WalkState \<Rightarrow> walked" where
  "walk_order_by cat s st =
     consume st
       (if wk_shape st = Shape_Path
        then fail ''E_STAGE'' ''order_by() does not apply to a path stream; use rank()''
        else if sg_fields s = [] then fail ''E_FIELD'' ''order_by() requires at least one field''
        else bindE (mapE (check_order cat st) (sg_fields s)) (\<lambda>_. Inr (s, st)))"

definition walk_limit :: "Stage \<Rightarrow> WalkState \<Rightarrow> walked" where
  "walk_limit s st = consume st (if sg_n s < 1 then fail ''E_LIMIT'' ''limit must be >= 1'' else Inr (s, st))"

definition walk_rank :: "Stage \<Rightarrow> WalkState \<Rightarrow> walked" where
  "walk_rank s st =
     consume st
       (if wk_shape st \<noteq> Shape_Path then fail ''E_STAGE'' ''rank() applies to a path stream''
        else if sg_n s < 0 then fail ''E_LIMIT'' ''rank() top_n must be >= 0''
        else Inr (s, st))"

definition walk_reverse_type_use :: "Stage \<Rightarrow> WalkState \<Rightarrow> walked" where
  "walk_reverse_type_use s st =
     consume st
       (if wk_shape st \<noteq> Shape_Nodes then fail ''E_STAGE'' ''reverse_type_use() applies to a node stream''
        else if wk_active st \<noteq> View_Type \<and> wk_active st \<noteq> View_TypeLayer
        then fail ''E_VIEW'' ''reverse_type_use() requires a type or type_layer node stream''
        else if sg_max_depth s < 1 \<or> sg_max_depth s > 32
        then fail ''E_DEPTH'' ''max_depth must satisfy 1 <= max_depth <= 32''
        else Inr (s, st\<lparr>wk_shape := Shape_Path\<rparr>))"

text \<open>What precedes and follows the walk of an operand plan.\<close>

definition set_before :: "WalkState \<Rightarrow> plan_error + unit" where
  "set_before st =
     consume st
       (if wk_shape st \<noteq> Shape_Nodes then fail ''E_STAGE'' ''set operations apply to node streams'' else Inr ())"

definition path_before :: "catalog \<Rightarrow> Stage \<Rightarrow> WalkState \<Rightarrow> plan_error + RelationDesc" where
  "path_before cat s st =
     consume st
       (if wk_shape st \<noteq> Shape_Nodes then fail ''E_STAGE'' ''path() applies to a node stream''
        else if \<not> logical (wk_active st) then fail ''E_VIEW'' ''path() requires a symbol or entity node stream''
        else case resolve_relation cat (sg_relation s) (wk_active st) (sg_inbound s) of
            None \<Rightarrow> unknown_relation (sg_relation s) (wk_active st)
          | Some r \<Rightarrow>
              if rd_virtual_relation r \<or> \<not> logical (rd_target_view r)
              then fail ''E_RELATION'' ''path() requires a non-typed symbol/entity relation''
              else if bad_depth (sg_min_depth s) (sg_max_depth s) then depth_error
              else if sg_n s < 0 then fail ''E_LIMIT'' ''path() shortest cap must be >= 0''
              else Inr r)"

definition operand_check :: "string \<Rightarrow> WalkState \<Rightarrow> WalkState \<Rightarrow> plan_error + unit" where
  "operand_check what st sub =
     (if wk_shape sub \<noteq> Shape_Nodes then fail ''E_SETOP'' (what @ ''operand must yield a node stream'')
      else if wk_active sub \<noteq> wk_active st then fail ''E_SETOP'' (what @ ''operand view mismatch'')
      else Inr ())"

definition start_walk :: "Source \<Rightarrow> WalkState \<Rightarrow> plan_error + WalkState" where
  "start_walk src st =
     (if so_kind src \<noteq> Source_Codebase \<and> so_ref src = [] then fail ''E_SOURCE'' ''empty source ref''
      else Inr (st\<lparr>wk_codebase_unenumerated := (so_kind src = Source_Codebase \<or> wk_codebase_unenumerated st),
                  wk_active := (if so_kind src = Source_Entity then View_Entity else View_Symbol)\<rparr>))"

fun validate_walk :: "catalog \<Rightarrow> Plan \<Rightarrow> WalkState \<Rightarrow> plan_error + Plan \<times> WalkState"
  and walk_stages :: "catalog \<Rightarrow> Stage list \<Rightarrow> WalkState \<Rightarrow> plan_error + Stage list \<times> WalkState"
  and walk_stage :: "catalog \<Rightarrow> Stage \<Rightarrow> WalkState \<Rightarrow> walked"
  and walk_operand :: "catalog \<Rightarrow> string \<Rightarrow> Plan option \<Rightarrow> WalkState \<Rightarrow> plan_error + Plan" where
  "validate_walk cat (Plan src stages) st =
     bindE (start_walk src st) (\<lambda>st0. bindE (walk_stages cat stages st0) (\<lambda>(ss, st').
       if wk_codebase_unenumerated st' then unenumerated else Inr (Plan src ss, st')))"
| "walk_stages cat [] st = Inr ([], st)"
| "walk_stages cat (s # ss) st =
     bindE (walk_stage cat s st) (\<lambda>(ns, st'). bindE (walk_stages cat ss st') (\<lambda>(nss, st''). Inr (ns # nss, st'')))"
| "walk_stage cat (Stage op pred level rel mode mn mx operand fs n unknown inb) st =
     (let s = Stage op pred level rel mode mn mx operand fs n unknown inb in
      if wk_shape st = Shape_Scalar then fail ''E_STAGE'' ''no stage may follow count()''
      else case op of
          Stage_Nodes \<Rightarrow> walk_nodes cat s st
        | Stage_ChangeView \<Rightarrow> walk_view s st
        | Stage_Where \<Rightarrow> walk_where cat s st
        | Stage_Out \<Rightarrow> walk_traverse cat s st
        | Stage_In \<Rightarrow> walk_traverse cat s st
        | Stage_Sites \<Rightarrow> walk_sites s st
        | Stage_Select \<Rightarrow> walk_select cat s st
        | Stage_Count \<Rightarrow> consume st (Inr (s, st\<lparr>wk_shape := Shape_Scalar\<rparr>))
        | Stage_Distinct \<Rightarrow> consume st (Inr (s, st))
        | Stage_OrderBy \<Rightarrow> walk_order_by cat s st
        | Stage_Limit \<Rightarrow> walk_limit s st
        | Stage_Path \<Rightarrow> bindE (path_before cat s st) (\<lambda>r. bindE (walk_operand cat ''path() '' operand st) (\<lambda>nop.
            Inr (with_operand nop (with_relation (qualified_name r) s), st\<lparr>wk_shape := Shape_Path\<rparr>)))
        | Stage_Rank \<Rightarrow> walk_rank s st
        | Stage_ReverseTypeUse \<Rightarrow> walk_reverse_type_use s st
        | _ \<Rightarrow> bindE (set_before st) (\<lambda>_. bindE (walk_operand cat [] operand st) (\<lambda>nop. Inr (with_operand nop s, st))))"
| "walk_operand cat what None st =
     fail ''E_SETOP'' (if what = [] then ''missing operand plan'' else ''path() requires a to= operand plan'')"
| "walk_operand cat what (Some p) st =
     bindE (validate_walk cat p fresh_walk) (\<lambda>(nop, sub). bindE (operand_check what st sub) (\<lambda>_. Inr nop))"

definition validate :: "catalog \<Rightarrow> Plan \<Rightarrow> plan_error + Plan" where
  "validate cat plan = bindE (validate_walk cat plan fresh_walk) (\<lambda>(p, st). Inr p)"

definition final_view :: "catalog \<Rightarrow> Plan \<Rightarrow> plan_error + View" where
  "final_view cat plan = bindE (validate_walk cat plan fresh_walk) (\<lambda>(p, st). Inr (wk_active st))"

definition final_shape :: "catalog \<Rightarrow> Plan \<Rightarrow> plan_error + Shape" where
  "final_shape cat plan = bindE (validate_walk cat plan fresh_walk) (\<lambda>(p, st). Inr (wk_shape st))"

end
