(* ===== verification/Query_Text.thy ===== *)
theory Query_Text
  imports Query_Validate
begin

text \<open>
  The textual form of queries (\<^verbatim>\<open>query/cxq.cpp\<close>): a parser without a token stream, which
  splits text at delimiters outside quotes and brackets and looks for keywords between
  spaces. Errors are the \<^verbatim>\<open>E_PARSE\<close> plan errors of the source.
\<close>

subsection \<open>Pieces of text\<close>

definition parse_fail :: "string \<Rightarrow> plan_error + 'a" where
  "parse_fail message = fail ''E_PARSE'' message"

lemma parse_fail_not_Inr [simp]: "parse_fail m \<noteq> Inr x" "(parse_fail m = Inr x) = False"
  by (simp_all add: parse_fail_def)

abbreviation dquote :: char where "dquote \<equiv> CHR 0x22"
abbreviation squote :: char where "squote \<equiv> CHR 0x27"
abbreviation backslash_char :: char where "backslash_char \<equiv> CHR 0x5C"

definition is_space :: "char \<Rightarrow> bool" where
  "is_space c \<longleftrightarrow> c \<in> {CHR 0x09, CHR 0x0A, CHR 0x0B, CHR 0x0C, CHR 0x0D, CHR 0x20}"

definition trim :: "string \<Rightarrow> string" where
  "trim s = rev (dropWhile is_space (rev (dropWhile is_space s)))"

definition quoted :: "string \<Rightarrow> bool" where
  "quoted s \<longleftrightarrow> length s \<ge> 2 \<and> (hd s = dquote \<and> last s = dquote \<or> hd s = squote \<and> last s = squote)"

definition atom :: "string \<Rightarrow> string" where
  "atom s = (let r = trim s in if quoted r then butlast (tl r) else r)"

text \<open>Both scanners of the source keep the previous character, the open quote and the nesting of
  parentheses and brackets.\<close>

record lexer =
  lx_prev :: "char option"
  lx_quote :: "char option"
  lx_parens :: int
  lx_brackets :: int

definition lex0 :: lexer where
  "lex0 = \<lparr>lx_prev = None, lx_quote = None, lx_parens = 0, lx_brackets = 0\<rparr>"

definition special :: "char \<Rightarrow> bool" where
  "special c \<longleftrightarrow> c \<in> {squote, dquote, CHR ''('', CHR '')'', CHR ''['', CHR '']''}"

definition lex_step :: "char \<Rightarrow> lexer \<Rightarrow> lexer" where
  "lex_step ch st =
     (case lx_quote st of
        Some q \<Rightarrow> st\<lparr>lx_prev := Some ch,
                     lx_quote := (if ch = q \<and> lx_prev st \<noteq> Some backslash_char then None else Some q)\<rparr>
      | None \<Rightarrow>
          if ch = squote \<or> ch = dquote then st\<lparr>lx_prev := Some ch, lx_quote := Some ch\<rparr>
          else if ch = CHR ''('' then st\<lparr>lx_prev := Some ch, lx_parens := lx_parens st + 1\<rparr>
          else if ch = CHR '')'' then st\<lparr>lx_prev := Some ch, lx_parens := lx_parens st - 1\<rparr>
          else if ch = CHR ''['' then st\<lparr>lx_prev := Some ch, lx_brackets := lx_brackets st + 1\<rparr>
          else if ch = CHR '']'' then st\<lparr>lx_prev := Some ch, lx_brackets := lx_brackets st - 1\<rparr>
          else st\<lparr>lx_prev := Some ch\<rparr>)"

text \<open>An ordinary character outside quotes and brackets.\<close>

definition at_top :: "lexer \<Rightarrow> char \<Rightarrow> bool" where
  "at_top st ch \<longleftrightarrow> lx_quote st = None \<and> \<not> special ch \<and> lx_parens st = 0 \<and> lx_brackets st = 0"

fun split_loop :: "char \<Rightarrow> lexer \<Rightarrow> string \<Rightarrow> string \<Rightarrow> plan_error + string list" where
  "split_loop d st cur [] =
     (if lx_quote st \<noteq> None \<or> lx_parens st \<noteq> 0 \<or> lx_brackets st \<noteq> 0
      then parse_fail ''unbalanced quotes or delimiters'' else Inr [trim cur])"
| "split_loop d st cur (ch # rest) =
     (if at_top st ch \<and> ch = d then bindE (split_loop d (lex_step ch st) [] rest) (\<lambda>parts. Inr (trim cur # parts))
      else split_loop d (lex_step ch st) (cur @ [ch]) rest)"

definition split_top_level :: "string \<Rightarrow> char \<Rightarrow> plan_error + string list" where
  "split_top_level s d = split_loop d lex0 [] s"

definition ends_with_char :: "string \<Rightarrow> char \<Rightarrow> bool" where
  "ends_with_char s c \<longleftrightarrow> s \<noteq> [] \<and> last s = c"

definition call_parts :: "string \<Rightarrow> string \<Rightarrow> plan_error + string list" where
  "call_parts token expected =
     (let v = trim token in
      if \<not> starts_with v (expected @ ''('') \<or> \<not> ends_with_char v (CHR '')'') \<or> length v \<le> length expected + 1
      then parse_fail (''expected '' @ expected @ ''(...)'')
      else
        let inside = take (length v - length expected - 2) (drop (length expected + 1) v) in
        if trim inside = [] then Inr [] else split_top_level inside (CHR '',''))"

definition keyword_here :: "string \<Rightarrow> lexer \<Rightarrow> string \<Rightarrow> bool" where
  "keyword_here kw st s \<longleftrightarrow>
     (case lx_prev st of None \<Rightarrow> True | Some c \<Rightarrow> is_space c)
     \<and> (drop (length kw) s = [] \<or> is_space (hd (drop (length kw) s))) \<and> take (length kw) s = kw"

fun keyword_loop :: "string \<Rightarrow> lexer \<Rightarrow> nat \<Rightarrow> string \<Rightarrow> nat option" where
  "keyword_loop kw st i [] = None"
| "keyword_loop kw st i (ch # rest) =
     (if length (ch # rest) < length kw then None
      else if at_top st ch \<and> keyword_here kw st (ch # rest) then Some i
      else keyword_loop kw (lex_step ch st) (i + 1) rest)"

definition find_top_level_keyword :: "string \<Rightarrow> string \<Rightarrow> nat option" where
  "find_top_level_keyword s kw = keyword_loop kw lex0 0 s"

text \<open>\<^verbatim>\<open>std::from_chars\<close> on a 64-bit integer that must consume the whole text.\<close>

definition whole_int :: "string \<Rightarrow> int option" where
  "whole_int s =
     (let neg = (s \<noteq> [] \<and> hd s = CHR ''-''); ds = (if neg then tl s else s) in
      if ds = [] \<or> \<not> list_all is_digit ds then None
      else let v = (if neg then - int (read_nat ds) else int (read_nat ds)) in
        if - (2 ^ 63) \<le> v \<and> v < 2 ^ 63 then Some v else None)"

definition integer :: "string \<Rightarrow> int option" where
  "integer s = whole_int (trim s)"

subsection \<open>Predicates\<close>

definition list_values :: "string \<Rightarrow> plan_error + string list" where
  "list_values s =
     (let t = trim s in
      if length t < 2 \<or> hd t \<noteq> CHR ''['' \<or> last t \<noteq> CHR '']'' then parse_fail ''expected a bracketed value list''
      else let inside = butlast (tl t) in
        if trim inside = [] then parse_fail ''value list must not be empty''
        else bindE (split_top_level inside (CHR '','')) (\<lambda>parts. Inr (map atom parts)))"

fun find_text :: "string \<Rightarrow> string \<Rightarrow> nat option" where
  "find_text pat [] = (if pat = [] then Some 0 else None)"
| "find_text pat (c # s) = (if starts_with (c # s) pat then Some 0 else map_option Suc (find_text pat s))"

text \<open>A comparison with a literal, positive or negated: truth values and integers first.\<close>

definition literal_pred :: "bool \<Rightarrow> string \<Rightarrow> string \<Rightarrow> Pred" where
  "literal_pred positive field v =
     (if v = ''true'' \<or> v = ''false''
      then (if positive then eq_bool field (v = ''true'') else not_pred (eq_bool field (v = ''true'')))
      else case integer v of
          Some n \<Rightarrow> if positive then eq_int field n else not_pred (eq_int field n)
        | None \<Rightarrow> if positive then eq_str field v else ne_str field v)"

fun comparison_ops :: "string list \<Rightarrow> string \<Rightarrow> plan_error + Pred" where
  "comparison_ops [] t = parse_fail (''unsupported predicate '' @ in_quotes t)"
| "comparison_ops (op # ops) t =
     (case find_text op t of
        None \<Rightarrow> comparison_ops ops t
      | Some at \<Rightarrow>
          let field = trim (take at t); rhs = drop (at + length op) t in
          if field = [] then parse_fail ''missing predicate field''
          else if op = '' in '' then bindE (list_values rhs) (\<lambda>vs. Inr (in_list field vs))
          else if op = ''~='' then Inr (glob_pred field (atom rhs))
          else Inr (literal_pred (op = ''='') field (atom rhs)))"

definition comparison :: "string \<Rightarrow> plan_error + Pred" where
  "comparison expression = comparison_ops [''!='', ''~='', ''='', '' in ''] (trim expression)"

lemma length_trim: "length (trim s) \<le> length s"
proof -
  have "length (trim s) \<le> length (dropWhile is_space s)"
    unfolding trim_def using length_dropWhile_le [of is_space "rev (dropWhile is_space s)"] by simp
  then show ?thesis using length_dropWhile_le [of is_space s] by linarith
qed

function strip_parens :: "string \<Rightarrow> plan_error + string" where
  "strip_parens t =
     (if length t \<ge> 2 \<and> hd t = CHR ''('' \<and> last t = CHR '')''
      then bindE (split_top_level (butlast (tl t)) (CHR '','')) (\<lambda>parts.
        if length parts \<noteq> 1 then Inr t else strip_parens (trim (butlast (tl t))))
      else Inr t)"
  by pat_completeness auto
termination
  by (relation "measure length") (auto intro: le_less_trans [OF length_trim])

declare strip_parens.simps [simp del]

lemma strip_parens_shorter: "strip_parens t = Inr u \<Longrightarrow> length u \<le> length t"
proof (induction t rule: strip_parens.induct)
  case (1 t)
  show ?case
  proof (cases "u = t")
    case False
    with "1.prems" obtain parts where p: "length t \<ge> 2 \<and> hd t = CHR ''('' \<and> last t = CHR '')''"
        "split_top_level (butlast (tl t)) (CHR '','') = Inr parts" "\<not> length parts \<noteq> 1"
        "strip_parens (trim (butlast (tl t))) = Inr u"
      by (subst (asm) strip_parens.simps) (auto simp: bindE_Inr_iff split: if_splits)
    from "1.IH" [OF p] length_trim [of "butlast (tl t)"] show ?thesis by simp
  qed simp
qed

lemma keyword_loop_bound: "keyword_loop kw st i s = Some k \<Longrightarrow> i \<le> k \<and> k - i + length kw \<le> length s"
proof (induction kw st i s rule: keyword_loop.induct)
  case (2 kw st i ch rest)
  show ?case
  proof (cases "at_top st ch \<and> keyword_here kw st (ch # rest)")
    case True
    with "2.prems" show ?thesis by (auto split: if_splits)
  next
    case False
    with "2.prems" have "\<not> length (ch # rest) < length kw" "keyword_loop kw (lex_step ch st) (i + 1) rest = Some k"
      by (auto split: if_splits)
    with "2.IH" [OF this(1) False this(2)] show ?thesis by auto
  qed
qed simp

lemma cut_shorter:
  assumes "strip_parens (trim e) = Inr t" "find_top_level_keyword t kw = Some at" "kw \<noteq> []"
  shows "length (take at t) < length e" "length (drop (at + length kw) t) < length e"
proof -
  have "at + length kw \<le> length t"
    using keyword_loop_bound [of kw lex0 0 t at] assms(2) by (simp add: find_top_level_keyword_def)
  moreover have "length t \<le> length e"
    using strip_parens_shorter [OF assms(1)] length_trim [of e] by linarith
  moreover have "0 < length kw" using assms(3) by simp
  ultimately have *: "at < length e" "length t - (at + length kw) < length e" by linarith+
  show "length (take at t) < length e" unfolding length_take using *(1) by linarith
  show "length (drop (at + length kw) t) < length e" unfolding length_drop by (rule *(2))
qed

lemma not_shorter: "strip_parens (trim e) = Inr t \<Longrightarrow> starts_with t ''not '' \<Longrightarrow> length (drop 4 t) < length e"
  using strip_parens_shorter [of "trim e" t] length_trim [of e] by (auto simp: starts_with_iff)

lemmas predicate_shorter = not_shorter cut_shorter [where kw = "''or''", simplified] cut_shorter [where kw = "''and''", simplified]

definition call_pred :: "string \<Rightarrow> string \<Rightarrow> plan_error + Pred" where
  "call_pred name t =
     bindE (call_parts t name) (\<lambda>args.
       if name = ''in'' then
         (if length args \<noteq> 2 then parse_fail ''in() requires a field and list''
          else bindE (list_values (args ! 1)) (\<lambda>vs. Inr (in_list (atom (args ! 0)) vs)))
       else if length args \<noteq> 2 then parse_fail (name @ ''() requires a field and value'')
       else
         let field = atom (args ! 0); v = atom (args ! 1) in
         Inr (if name = ''glob'' then glob_pred field v else literal_pred (name = ''eq'') field v))"

function predicate :: "string \<Rightarrow> plan_error + Pred" where
  "predicate expression =
     bindE (strip_parens (trim expression)) (\<lambda>t.
       if starts_with t ''not '' then bindE (predicate (drop 4 t)) (\<lambda>p. Inr (not_pred p))
       else case find_top_level_keyword t ''or'' of
           Some at \<Rightarrow> bindE (predicate (take at t)) (\<lambda>p. bindE (predicate (drop (at + 2) t)) (\<lambda>q. Inr (any_of [p, q])))
         | None \<Rightarrow>
       (case find_top_level_keyword t ''and'' of
           Some at \<Rightarrow> bindE (predicate (take at t)) (\<lambda>p. bindE (predicate (drop (at + 3) t)) (\<lambda>q. Inr (all_of [p, q])))
         | None \<Rightarrow>
            (case List.find (\<lambda>name. starts_with t (name @ ''('')) [''eq'', ''ne'', ''glob'', ''in''] of
               Some name \<Rightarrow> call_pred name t
             | None \<Rightarrow> comparison t)))"
  by pat_completeness auto
termination
  by (relation "measure length") (auto dest: predicate_shorter)

declare predicate.simps [simp del]

subsection \<open>Stages and queries\<close>

definition depth_args :: "string list \<Rightarrow> plan_error + int \<times> int" where
  "depth_args args =
     (if length args = 1 then Inr (1, 1)
      else if length args = 2 \<and> starts_with (args ! 1) ''depth='' then
        (let v = drop 6 (args ! 1); bad = parse_fail ''depth must be written as depth=min..max'' in
         case find_text ''..'' v of
           None \<Rightarrow> bad
         | Some dots \<Rightarrow>
             (case (integer (take dots v), integer (drop (dots + 2) v)) of
                (Some mn, Some mx) \<Rightarrow> Inr (mn, mx)
              | _ \<Rightarrow> bad))
      else if length args = 2 then
        (case integer (args ! 1) of
           None \<Rightarrow> parse_fail ''depth must be an integer or depth=min..max''
         | Some depth \<Rightarrow> Inr (depth, depth))
      else if length args = 3 then
        (case (integer (args ! 1), integer (args ! 2)) of
           (Some mn, Some mx) \<Rightarrow> Inr (mn, mx)
         | _ \<Rightarrow> parse_fail ''depth must be written as depth=min..max'')
      else parse_fail ''traversal accepts relation and at most two depth arguments'')"

text \<open>The stages that hold no query of their own.\<close>

definition plain_stage :: "string \<Rightarrow> string list \<Rightarrow> plan_error + Stage" where
  "plain_stage name args =
     (if name = ''nodes'' then
        (if length args > 1 then parse_fail ''nodes() takes zero or one predicate''
         else if args = [] then Inr nodes_stage
         else bindE (predicate (hd args)) (\<lambda>p. Inr (nodes_where_stage p Unknown_Exclude)))
      else if name = ''view'' then
        (if length args \<noteq> 1 then parse_fail ''view() requires one level''
         else let level = atom (hd args) in
           if level = ''symbol'' then Inr (view_stage View_Symbol)
           else if level = ''entity'' then Inr (view_stage View_Entity)
           else parse_fail (''unknown view '' @ in_quotes level))
      else if name = ''where'' then
        (if length args \<noteq> 1 then parse_fail ''where() requires one expression''
         else bindE (predicate (hd args)) (\<lambda>p. Inr (where_stage p Unknown_Exclude)))
      else if name = ''sites'' then
        (if args \<noteq> [] then parse_fail ''sites() takes no arguments'' else Inr sites_stage)
      else if name = ''out'' \<or> name = ''in'' then
        (if args = [] then parse_fail (name @ ''() requires a relation'')
         else bindE (depth_args args) (\<lambda>(mn, mx).
           Inr (if name = ''out'' then out_stage (atom (hd args)) mn mx Mode_Static
                else in_stage (atom (hd args)) mn mx)))
      else if name = ''select'' \<or> name = ''order_by'' then
        (let fs = map atom args in
         if fs = [] then parse_fail (name @ ''() requires fields'')
         else Inr (if name = ''select'' then select_stage fs else order_by_stage fs))
      else if name = ''count'' then
        (if args \<noteq> [] then parse_fail ''count() takes no arguments'' else Inr count_stage)
      else if name = ''distinct'' then
        (if args \<noteq> [] then parse_fail ''distinct() takes no arguments'' else Inr distinct_stage)
      else
        (case (length args, integer (hd args)) of
           (Suc 0, Some n) \<Rightarrow> Inr (limit_stage n)
         | _ \<Rightarrow> parse_fail ''limit() requires one integer''))"

definition stage_names :: "string list" where
  "stage_names = [''nodes'', ''view'', ''where'', ''out'', ''in'', ''sites'', ''union'', ''intersect'', ''except'',
     ''select'', ''count'', ''distinct'', ''order_by'', ''limit'']"

definition query_source :: "string \<Rightarrow> plan_error + Source" where
  "query_source first =
     (if starts_with first ''codebase('' then
        bindE (call_parts first ''codebase'') (\<lambda>args.
          if args \<noteq> [] then parse_fail ''codebase() takes no arguments'' else Inr codebase)
      else if starts_with first ''symbol('' then
        bindE (call_parts first ''symbol'') (\<lambda>args.
          if length args \<noteq> 1 then parse_fail ''symbol() requires one reference''
          else Inr (symbol_source (atom (hd args))))
      else if starts_with first ''entity('' then
        bindE (call_parts first ''entity'') (\<lambda>args.
          if length args \<noteq> 1 then parse_fail ''entity() requires one reference''
          else Inr (entity_source (atom (hd args))))
      else parse_fail ''query must start with codebase(), symbol(), or entity()'')"

lemma split_loop_shorter:
  "split_loop d st cur s = Inr parts \<Longrightarrow> p \<in> set parts \<Longrightarrow> length p \<le> length cur + length s"
proof (induction d st cur s arbitrary: parts rule: split_loop.induct)
  case (1 d st cur)
  then show ?case using length_trim [of cur] by (auto split: if_splits)
next
  case (2 d st cur ch rest)
  show ?case
  proof (cases "at_top st ch \<and> ch = d")
    case True
    with "2.prems"(1) obtain ps where ps: "split_loop d (lex_step ch st) [] rest = Inr ps" "parts = trim cur # ps"
      by (auto simp: bindE_Inr_iff)
    with "2.IH"(1) [OF True ps(1)] "2.prems"(2) length_trim [of cur] show ?thesis by auto
  next
    case False
    with "2.prems" "2.IH"(2) [OF False] show ?thesis by auto
  qed
qed

lemma call_parts_shorter:
  assumes "call_parts token name = Inr args" "p \<in> set args"
  shows "length p < length token"
proof -
  define v where "v = trim token"
  from assms have *: "starts_with v (name @ ''('')"
      "split_top_level (take (length v - length name - 2) (drop (length name + 1) v)) (CHR '','') = Inr args"
    by (auto simp: call_parts_def Let_def v_def split: if_splits)
  from split_loop_shorter [OF *(2) [unfolded split_top_level_def] assms(2)]
  have "length p \<le> length v - length name - 2" by simp
  moreover have "0 < length v" using *(1) by (auto simp: starts_with_iff)
  ultimately show ?thesis using length_trim [of token] unfolding v_def by linarith
qed

function stage :: "string \<Rightarrow> plan_error + Stage"
  and parse_cxq :: "string \<Rightarrow> plan_error + Plan" where
  "stage token =
     (let v = trim token in
      if starts_with v ''rank('' then parse_fail ''rank() is not available in v1''
      else case List.find (\<lambda>name. starts_with v (name @ ''('')) stage_names of
          None \<Rightarrow> parse_fail (''unknown stage '' @ in_quotes v)
        | Some name \<Rightarrow> bindE (call_parts v name) (\<lambda>args.
            if name = ''union'' \<or> name = ''intersect'' \<or> name = ''except'' then
              if length args \<noteq> 1 then parse_fail (name @ ''() requires one query'')
              else bindE (parse_cxq (hd args)) (\<lambda>parsed.
                let query = foldl pipe (Plan (pl_source parsed) []) (pl_stages parsed) in
                Inr (if name = ''union'' then union_stage query
                     else if name = ''intersect'' then intersect_stage query else except_stage query))
            else plain_stage name args))"
| "parse_cxq cxq =
     bindE (split_top_level cxq (CHR ''|'')) (\<lambda>parts.
       if parts = [] \<or> hd parts = [] then parse_fail ''query is empty''
       else bindE (query_source (trim (hd parts))) (\<lambda>source.
         bindE (mapE stage (tl parts)) (\<lambda>stages. Inr (foldl pipe (Plan source []) stages))))"
  by pat_completeness auto
termination
proof (relation "measure (case_sum (\<lambda>t. 2 * length t) (\<lambda>t. 2 * length t + 1))", goal_cases)
  case 1
  show ?case by simp
next
  case (2 token v name args)
  from 2(6) have "hd args \<in> set args" by (cases args) auto
  from call_parts_shorter [OF _ this] 2 length_trim [of token] show ?case by fastforce
next
  case (3 cxq parts source p)
  then have "p \<in> set parts" by (cases parts) auto
  from split_loop_shorter [OF 3(1) [unfolded split_top_level_def] this] show ?case by simp
qed

declare stage.simps [simp del] parse_cxq.simps [simp del]

lemma foldl_pipe: "foldl pipe (Plan src ss) ts = Plan src (ss @ ts)"
  by (induction ts arbitrary: ss) (simp_all add: pipe_def)

subsection \<open>Two misreadings\<close>

text \<open>Outer parentheses are stripped without checking that they match each other: a disjunction of two
  groups becomes one comparison with a long value.\<close>

lemma grouped_predicate_misread:
  "predicate ''(name = \"a\") or (name = \"b\")'' = Inr (eq_str ''name'' ''a\") or (name = \"b'')"
  by code_simp

text \<open>Comparison operators are searched inside quotes too.\<close>

lemma quoted_operator_misread:
  "predicate ''name = \"operator!=\"'' = Inr (ne_str ''name = \"operator'' [dquote])"
  by code_simp

end
