(* ===== verification/Query_Normal.thy ===== *)
theory Query_Normal
  imports Query_Validate
begin

text \<open>
  What validation promises: the normal form of predicates and plans, its stability, the
  bounds it enforces and that normalising a predicate keeps its meaning for every
  interpretation of the fields and relations, with unknown results.
\<close>

subsection \<open>Qualified names\<close>

lemma forced_view_qualified [simp]: "forced_view (qualified_name r) = Some (rd_layer r)"
  by (cases "rd_layer r") (simp_all add: forced_view_def all_views_def qualified_name_def starts_with_def)

lemma bare_name_qualified [simp]: "bare_name (qualified_name r) = rd_name r"
  by (simp add: bare_name_def) (simp add: qualified_name_def)

lemma find_narrow:
  assumes "List.find P xs = Some x" "Q x" "\<And>y. Q y \<Longrightarrow> P y"
  shows "List.find Q xs = Some x"
  using assms by (induction xs) (auto split: if_splits)

lemma resolve_qualified:
  assumes "resolve_relation cat name active inbound = Some r"
  shows "resolve_relation cat (qualified_name r) active inbound = Some r"
proof -
  let ?P = "\<lambda>r'. relation_matches (forced_view name) active inbound r' \<and> rd_name r' = bare_name name"
  from assms have f: "List.find ?P (relation_catalog cat) = Some r" by (simp add: resolve_relation_def)
  then have r: "?P r" by (auto simp: find_Some_iff)
  show ?thesis unfolding resolve_relation_def
    by (rule find_narrow [OF f])
       (use r in \<open>auto simp: relation_matches_def split: if_splits option.splits\<close>)
qed

lemma is_known_view [simp]: "is_known_view v"
  by (cases v) (simp_all add: is_known_view_def all_views_def)

subsection \<open>Normal predicates\<close>

fun normal :: "catalog \<Rightarrow> View \<Rightarrow> Pred \<Rightarrow> bool"
  and normal_kids :: "catalog \<Rightarrow> PredOp \<Rightarrow> View \<Rightarrow> Pred list \<Rightarrow> bool"
  and normal_target :: "catalog \<Rightarrow> View \<Rightarrow> Pred option \<Rightarrow> bool" where
  "normal cat active (Pred op kids field strs ival rel target mn mx thr inb) =
     (if is_bool op then
        2 \<le> length kids \<and> normal_kids cat op active kids
        \<and> Pred op kids field strs ival rel target mn mx thr inb = bool_pred op kids
      else if op = Op_Not then
        length kids = 1 \<and> normal_kids cat op active kids
        \<and> Pred op kids field strs ival rel target mn mx thr inb = bool_pred op kids
      else if is_cmp op then check_cmp cat (Pred op kids field strs ival rel target mn mx thr inb) active = Inr ()
      else
        (case resolve_relation cat rel active False of
           None \<Rightarrow> False
         | Some r \<Rightarrow> rel = qualified_name r \<and> 1 \<le> mn \<and> mn \<le> mx \<and> mx \<le> 32 \<and> (is_counting op \<longrightarrow> 0 \<le> thr)
             \<and> normal_target cat (rd_layer r) target))"
| "normal_kids cat op active [] = True"
| "normal_kids cat op active (k # ks) = (normal cat active k \<and> pr_op k \<noteq> op \<and> normal_kids cat op active ks)"
| "normal_target cat v None = True"
| "normal_target cat v (Some t) = normal cat v t"

lemma normal_kids_append [simp]:
  "normal_kids cat op active (ks @ ls) \<longleftrightarrow> normal_kids cat op active ks \<and> normal_kids cat op active ls"
  by (induction ks) auto

lemma normal_bool_pred:
  "normal cat active (bool_pred op ks) \<longleftrightarrow>
     (is_bool op \<and> 2 \<le> length ks \<and> normal_kids cat op active ks)
     \<or> (op = Op_Not \<and> length ks = 1 \<and> normal_kids cat op active ks)" if "is_bool op \<or> op = Op_Not"
  using that by (auto simp: bool_pred_def is_bool_def)

lemma normal_op:
  assumes "normal cat active k" "pr_op k = op" "is_bool op \<or> op = Op_Not"
  shows "normal_kids cat op active (pr_kids k) \<and> (if op = Op_Not then length (pr_kids k) = 1 else 2 \<le> length (pr_kids k))"
  using assms by (cases k) (auto simp: is_bool_def split: if_splits)

lemma normal_splice: "normal cat active k \<Longrightarrow> is_bool op \<Longrightarrow> normal_kids cat op active (splice op k) \<and> splice op k \<noteq> []"
  using normal_op [of cat active k op] by (auto simp: splice_def is_bool_def split: if_splits)

lemma normal_collapse:
  "normal_kids cat op active ks \<Longrightarrow> ks \<noteq> [] \<Longrightarrow> is_bool op \<Longrightarrow> normal cat active (collapse op ks)"
  by (cases ks; cases "tl ks") (auto simp: collapse_def normal_bool_pred)

lemma normal_negate: "normal cat active k \<Longrightarrow> normal cat active (negate k)"
proof (cases "pr_op k = Op_Not")
  case True
  assume "normal cat active k"
  from normal_op [OF this True] obtain j where "pr_kids k = [j]" "normal cat active j"
    by (auto simp: length_Suc_conv)
  with True show ?thesis by (simp add: negate_def)
qed (simp add: negate_def normal_bool_pred is_bool_def)

lemma norm_normal:
  "norm_pred cat active p = Inr q \<Longrightarrow> normal cat active q"
  "norm_kids cat op active ks = Inr qs \<Longrightarrow> is_bool op \<Longrightarrow> normal_kids cat op active qs \<and> (ks \<noteq> [] \<longrightarrow> qs \<noteq> [])"
  "norm_target cat active t = Inr u \<Longrightarrow> normal_target cat active u \<and> (u = None \<longleftrightarrow> t = None)"
proof (induction cat active p and cat op active ks and cat active t arbitrary: q and qs and u
    rule: norm_pred_norm_kids_norm_target.induct)
  case (1 cat active op kids field strs ival rel target mn mx thr inb)
  consider (bool) "is_bool op" | (neg) "op = Op_Not" | (cmp) "is_cmp op" "\<not> is_bool op" "op \<noteq> Op_Not"
    | (quant) "\<not> is_bool op" "op \<noteq> Op_Not" "\<not> is_cmp op" by blast
  then show ?case
  proof cases
    case bool
    with 1 show ?thesis by (auto simp: bindE_Inr_iff normal_collapse split: if_splits)
  next
    case neg
    with 1 show ?thesis by (auto simp: bindE_Inr_iff normal_negate is_bool_def split: list.splits)
  next
    case cmp
    with 1 show ?thesis by (auto simp: bindE_Inr_iff)
  next
    case quant
    with "1.prems" obtain r u where r: "resolve_relation cat rel active False = Some r" "\<not> bad_depth mn mx"
        "\<not> (is_counting op \<and> thr < 0)" "norm_target cat (rd_layer r) target = Inr u"
        "q = Pred op kids field strs ival (qualified_name r) u mn mx thr inb"
      by (auto simp: bindE_Inr_iff unknown_relation_def depth_error_def split: option.splits if_splits)
    with "1.IH"(3) quant have "normal_target cat (rd_layer r) u" by blast
    with r quant resolve_qualified [OF r(1)] show ?thesis by (auto simp: bad_depth_def)
  qed
next
  case (3 cat op active k ks)
  then show ?case by (auto simp: bindE_Inr_iff normal_splice)
qed (auto simp: bindE_Inr_iff)

lemma normal_fixed:
  "normal cat active p \<Longrightarrow> norm_pred cat active p = Inr p"
  "normal_kids cat op active ks \<Longrightarrow> norm_kids cat op active ks = Inr ks"
  "normal_target cat active t \<Longrightarrow> norm_target cat active t = Inr t"
proof (induction cat active p and cat op active ks and cat active t rule: norm_pred_norm_kids_norm_target.induct)
  case (1 cat active op kids field strs ival rel target mn mx thr inb)
  consider (bool) "is_bool op" | (neg) "op = Op_Not" | (cmp) "is_cmp op" "\<not> is_bool op" "op \<noteq> Op_Not"
    | (quant) "\<not> is_bool op" "op \<noteq> Op_Not" "\<not> is_cmp op" by blast
  then show ?case
  proof cases
    case bool
    with 1 show ?thesis by (auto simp: collapse_def bool_pred_def)
  next
    case neg
    with "1.prems" obtain k where k: "kids = [k]" "normal cat active k" "pr_op k \<noteq> Op_Not"
      "Pred op kids field strs ival rel target mn mx thr inb = bool_pred op kids"
      by (auto simp: is_bool_def length_Suc_conv)
    with "1.IH"(2) neg have "norm_pred cat active k = Inr k" by (auto simp: is_bool_def)
    with k neg show ?thesis by (simp add: negate_def is_bool_def bool_pred_def)
  next
    case cmp
    with 1 show ?thesis by simp
  next
    case quant
    with "1.prems" obtain r where r: "resolve_relation cat rel active False = Some r" "rel = qualified_name r"
        "\<not> bad_depth mn mx" "\<not> (is_counting op \<and> thr < 0)" "normal_target cat (rd_layer r) target"
      by (auto simp: bad_depth_def split: option.splits)
    with "1.IH"(3) quant have "norm_target cat (rd_layer r) target = Inr target" by blast
    with r quant show ?thesis by simp
  qed
qed (auto simp: splice_def)

lemmas norm_pred_stable = normal_fixed(1) [OF norm_normal(1)]

lemma norm_target_stable: "norm_target cat active t = Inr u \<Longrightarrow> norm_target cat active u = Inr u"
  using norm_normal(3) normal_fixed(3) by blast

subsection \<open>Normal plans\<close>

lemma stage_parts [simp]:
  "with_pred q (Stage op pred level rel mode mn mx operand fs n unknown inb) = Stage op q level rel mode mn mx operand fs n unknown inb"
  "with_relation rel' (Stage op pred level rel mode mn mx operand fs n unknown inb) = Stage op pred level rel' mode mn mx operand fs n unknown inb"
  "with_operand p (Stage op pred level rel mode mn mx operand fs n unknown inb) = Stage op pred level rel mode mn mx (Some p) fs n unknown inb"
  by (simp_all add: with_pred_def with_relation_def with_operand_def)

lemmas refusals = consume_def unenumerated_def unknown_relation_def depth_error_def

lemma consume_Inr [simp]: "consume st k = Inr x \<longleftrightarrow> \<not> wk_codebase_unenumerated st \<and> k = Inr x"
  by (simp add: refusals)

lemma walk_nodes_stable: "walk_nodes cat s st = Inr (ns, st') \<Longrightarrow> walk_nodes cat ns st = Inr (ns, st')"
  by (cases s) (auto simp: walk_nodes_def bindE_Inr_iff dest: norm_target_stable split: if_splits)

lemma walk_where_stable: "walk_where cat s st = Inr (ns, st') \<Longrightarrow> walk_where cat ns st = Inr (ns, st')"
  using norm_normal(3)
  by (cases s) (auto simp: walk_where_def bindE_Inr_iff dest: norm_target_stable split: if_splits)

lemma walk_traverse_stable: "walk_traverse cat s st = Inr (ns, st') \<Longrightarrow> walk_traverse cat ns st = Inr (ns, st')"
  by (cases s) (auto simp: walk_traverse_def Let_def unknown_relation_def depth_error_def resolve_qualified
      split: if_splits option.splits)

lemma path_before_stable:
  "path_before cat s st = Inr r \<Longrightarrow> path_before cat (with_relation (qualified_name r) s) st = Inr r"
  by (cases s) (auto simp: path_before_def unknown_relation_def depth_error_def resolve_qualified
      split: if_splits option.splits)

lemma path_before_operand [simp]: "path_before cat (with_operand p s) st = path_before cat s st"
  by (simp only: path_before_def with_operand_def Stage.sel)

lemma walk_stage_eq:
  "walk_stage cat s st =
     (if wk_shape st = Shape_Scalar then fail ''E_STAGE'' ''no stage may follow count()''
      else case sg_op s of
          Stage_Nodes \<Rightarrow> walk_nodes cat s st
        | Stage_ChangeView \<Rightarrow> walk_view s st
        | Stage_Where \<Rightarrow> walk_where cat s st
        | Stage_Out \<Rightarrow> walk_traverse cat s st
        | Stage_In \<Rightarrow> walk_traverse cat s st
        | Stage_Sites \<Rightarrow> walk_sites s st
        | Stage_Select \<Rightarrow> walk_select cat s st
        | Stage_Count \<Rightarrow> consume st (Inr (s, st\<lparr>wk_shape := Shape_Scalar\<rparr>))
        | Stage_Distinct \<Rightarrow> consume st (Inr (s, st))
        | Stage_OrderBy \<Rightarrow> walk_order_by cat s st
        | Stage_Limit \<Rightarrow> walk_limit s st
        | Stage_Path \<Rightarrow> bindE (path_before cat s st) (\<lambda>r. bindE (walk_operand cat ''path() '' (sg_operand s) st) (\<lambda>nop.
            Inr (with_operand nop (with_relation (qualified_name r) s), st\<lparr>wk_shape := Shape_Path\<rparr>)))
        | Stage_Rank \<Rightarrow> walk_rank s st
        | Stage_ReverseTypeUse \<Rightarrow> walk_reverse_type_use s st
        | _ \<Rightarrow> bindE (set_before st) (\<lambda>_. bindE (walk_operand cat [] (sg_operand s) st)
            (\<lambda>nop. Inr (with_operand nop s, st))))"
  by (cases s) (simp only: walk_stage.simps Let_def Stage.sel)

lemma walk_keeps_op:
  "walk_nodes cat s st = Inr (ns, st') \<Longrightarrow> sg_op ns = sg_op s"
  "walk_where cat s st = Inr (ns, st') \<Longrightarrow> sg_op ns = sg_op s"
  "walk_traverse cat s st = Inr (ns, st') \<Longrightarrow> sg_op ns = sg_op s"
  by (auto simp: walk_nodes_def walk_where_def walk_traverse_def bindE_Inr_iff with_pred_def with_relation_def Let_def
      unknown_relation_def depth_error_def split: if_splits option.splits)

lemma walk_keeps_stage:
  "walk_view s st = Inr (ns, st') \<Longrightarrow> ns = s"
  "walk_sites s st = Inr (ns, st') \<Longrightarrow> ns = s"
  "walk_select cat s st = Inr (ns, st') \<Longrightarrow> ns = s"
  "walk_order_by cat s st = Inr (ns, st') \<Longrightarrow> ns = s"
  "walk_limit s st = Inr (ns, st') \<Longrightarrow> ns = s"
  "walk_rank s st = Inr (ns, st') \<Longrightarrow> ns = s"
  "walk_reverse_type_use s st = Inr (ns, st') \<Longrightarrow> ns = s"
  by (auto simp: walk_view_def walk_sites_def walk_select_def walk_order_by_def walk_limit_def walk_rank_def
      walk_reverse_type_use_def bindE_Inr_iff split: if_splits)

lemma walk_stage_cases [consumes 1, case_names nodes filter traverse set_op path other]:
  assumes "walk_stage cat s st = Inr (ns, st')"
  obtains
    "sg_op s = Stage_Nodes" "walk_nodes cat s st = Inr (ns, st')"
  | "sg_op s = Stage_Where" "walk_where cat s st = Inr (ns, st')"
  | "sg_op s = Stage_Out \<or> sg_op s = Stage_In" "walk_traverse cat s st = Inr (ns, st')"
  | np where "sg_op s = Stage_Union \<or> sg_op s = Stage_Intersect \<or> sg_op s = Stage_Except" "set_before st = Inr ()"
      "walk_operand cat [] (sg_operand s) st = Inr np" "ns = with_operand np s" "st' = st"
  | r np where "sg_op s = Stage_Path" "path_before cat s st = Inr r"
      "walk_operand cat ''path() '' (sg_operand s) st = Inr np"
      "ns = with_operand np (with_relation (qualified_name r) s)" "st' = st\<lparr>wk_shape := Shape_Path\<rparr>"
  | "ns = s" "sg_op s \<in> {Stage_ChangeView, Stage_Sites, Stage_Select, Stage_Count, Stage_Distinct, Stage_OrderBy,
      Stage_Limit, Stage_Rank, Stage_ReverseTypeUse}"
proof (cases "sg_op s")
  case Stage_Path
  with assms that(5) show thesis by (auto simp: walk_stage_eq bindE_Inr_iff split: if_splits)
next
  case Stage_Union
  with assms that(4) show thesis by (auto simp: walk_stage_eq bindE_Inr_iff split: if_splits)
next
  case Stage_Intersect
  with assms that(4) show thesis by (auto simp: walk_stage_eq bindE_Inr_iff split: if_splits)
next
  case Stage_Except
  with assms that(4) show thesis by (auto simp: walk_stage_eq bindE_Inr_iff split: if_splits)
qed (use assms that walk_keeps_stage in \<open>auto simp: walk_stage_eq split: if_splits\<close>)

lemma walk_stage_not_scalar: "walk_stage cat s st = Inr x \<Longrightarrow> wk_shape st \<noteq> Shape_Scalar"
  by (auto simp: walk_stage_eq)

lemma walk_stable:
  "validate_walk cat p st = Inr (q, st') \<Longrightarrow> validate_walk cat q st = Inr (q, st')"
  "walk_stages cat ss st = Inr (nss, st') \<Longrightarrow> walk_stages cat nss st = Inr (nss, st')"
  "walk_stage cat s st = Inr (ns, st') \<Longrightarrow> walk_stage cat ns st = Inr (ns, st')"
  "walk_operand cat what po st = Inr np \<Longrightarrow> walk_operand cat what (Some np) st = Inr np"
proof (induction cat p st and cat ss st and cat s st and cat what po st
    arbitrary: q st' and nss st' and ns st' and np rule: validate_walk_walk_stages_walk_stage_walk_operand.induct)
  case (1 cat src stages st)
  from "1.prems" obtain st0 ss where w: "start_walk src st = Inr st0" "walk_stages cat stages st0 = Inr (ss, st')"
      "\<not> wk_codebase_unenumerated st'" "q = Plan src ss"
    by (auto simp: bindE_Inr_iff unenumerated_def split: if_splits)
  with "1.IH" [OF w(1,2)] show ?case by simp
next
  case (3 cat s ss st)
  from "3.prems" obtain ns st1 ms where w: "walk_stage cat s st = Inr (ns, st1)" "walk_stages cat ss st1 = Inr (ms, st')"
      "nss = ns # ms"
    by (auto simp: bindE_Inr_iff)
  with "3.IH"(1) [OF w(1)] "3.IH"(2) [OF w(1) refl w(2)] show ?case by simp
next
  case (4 cat op pred level rel mode mn mx operand fs n unknown inb st)
  let ?s = "Stage op pred level rel mode mn mx operand fs n unknown inb"
  note sh = walk_stage_not_scalar [OF "4.prems"]
  from "4.prems" show ?case
  proof (cases rule: walk_stage_cases)
    case nodes
    with walk_keeps_op(1) [OF nodes(2)] walk_nodes_stable [OF nodes(2)] sh show ?thesis by (simp add: walk_stage_eq)
  next
    case filter
    with walk_keeps_op(2) [OF filter(2)] walk_where_stable [OF filter(2)] sh show ?thesis by (simp add: walk_stage_eq)
  next
    case traverse
    with walk_keeps_op(3) [OF traverse(2)] walk_traverse_stable [OF traverse(2)] sh show ?thesis
      by (auto simp: walk_stage_eq)
  next
    case (set_op np)
    then have "walk_operand cat [] (Some np) st = Inr np" using "4.IH"(1-3) [OF refl sh _ set_op(2)] by auto
    with set_op sh show ?thesis by (auto simp: walk_stage_eq)
  next
    case (path r np)
    have "path_before cat ns st = Inr r" using path_before_stable [OF path(2)] path(4) by (simp del: stage_parts)
    moreover have "walk_operand cat ''path() '' (Some np) st = Inr np"
      using "4.IH"(4) [OF refl sh _ path(2)] path(1,3) by simp
    ultimately show ?thesis using path sh by (simp add: walk_stage_eq)
  next
    case other
    with "4.prems" show ?thesis by simp
  qed
next
  case (6 cat what p st)
  from "6.prems" obtain sub where w: "validate_walk cat p fresh_walk = Inr (np, sub)" "operand_check what st sub = Inr ()"
    by (auto simp: bindE_Inr_iff)
  with "6.IH" [OF w(1)] show ?case by simp
qed auto

text \<open>(C14) Validation is stable: the plan it returns is accepted unchanged, with the same final view and the
  same final shape as the plan it was made from.\<close>

theorem validate_stable:
  assumes "validate cat p = Inr q"
  shows "validate cat q = Inr q \<and> final_view cat q = final_view cat p \<and> final_shape cat q = final_shape cat p"
proof -
  from assms obtain st where st: "validate_walk cat p fresh_walk = Inr (q, st)" by (auto simp: validate_def bindE_Inr_iff)
  from walk_stable(1) [OF this] st show ?thesis by (simp add: validate_def final_view_def final_shape_def)
qed

subsection \<open>Meaning of predicates\<close>

text \<open>Truth values with an unknown, conjunction and disjunction in the strong sense.\<close>

type_synonym truth = "bool option"

definition and3 :: "truth \<Rightarrow> truth \<Rightarrow> truth" where
  "and3 a b = (if a = Some False \<or> b = Some False then Some False else if a = None \<or> b = None then None else Some True)"

definition or3 :: "truth \<Rightarrow> truth \<Rightarrow> truth" where
  "or3 a b = (if a = Some True \<or> b = Some True then Some True else if a = None \<or> b = None then None else Some False)"

definition not3 :: "truth \<Rightarrow> truth" where
  "not3 = map_option Not"

interpretation and3: comm_monoid and3 "Some True"
  by unfold_locales (auto simp: and3_def)

interpretation or3: comm_monoid or3 "Some False"
  by unfold_locales (auto simp: or3_def)

lemma not3_not3 [simp]: "not3 (not3 a) = a"
  by (simp add: not3_def option.map_comp comp_def option.map_ident)

definition fold3 :: "PredOp \<Rightarrow> truth list \<Rightarrow> truth" where
  "fold3 op ts = (if op = Op_AllOf then foldr and3 ts (Some True) else foldr or3 ts (Some False))"

lemma fold3_append:
  "fold3 op (ts @ us) = (if op = Op_AllOf then and3 (fold3 op ts) (fold3 op us) else or3 (fold3 op ts) (fold3 op us))"
  by (induction ts) (auto simp: fold3_def and3.assoc or3.assoc)

lemma fold3_Nil_Cons:
  "fold3 op [] = (if op = Op_AllOf then Some True else Some False)"
  "fold3 op (t # ts) = (if op = Op_AllOf then and3 t (fold3 op ts) else or3 t (fold3 op ts))"
  by (simp_all add: fold3_def)

text \<open>An interpretation gives the value of a comparison at a node of a view, and of a quantifier over a
  relation from the values of the target predicate at the nodes; no target is a target that always
  holds.\<close>

record 'n semantics =
  sem_cmp :: "View \<Rightarrow> Pred \<Rightarrow> 'n \<Rightarrow> truth"
  sem_quant :: "RelationDesc \<Rightarrow> PredOp \<Rightarrow> bool \<Rightarrow> int \<Rightarrow> int \<Rightarrow> int \<Rightarrow> ('n \<Rightarrow> truth) \<Rightarrow> 'n \<Rightarrow> truth"

fun meaning :: "catalog \<Rightarrow> 'n semantics \<Rightarrow> View \<Rightarrow> Pred \<Rightarrow> 'n \<Rightarrow> truth"
  and meanings :: "catalog \<Rightarrow> 'n semantics \<Rightarrow> View \<Rightarrow> Pred list \<Rightarrow> 'n \<Rightarrow> truth list"
  and target_meaning :: "catalog \<Rightarrow> 'n semantics \<Rightarrow> View \<Rightarrow> Pred option \<Rightarrow> 'n \<Rightarrow> truth" where
  "meaning cat sem active (Pred op kids field strs ival rel target mn mx thr inb) =
     (if is_bool op then (\<lambda>x. fold3 op (meanings cat sem active kids x))
      else if op = Op_Not then (\<lambda>x. not3 (fold3 Op_AllOf (meanings cat sem active kids x)))
      else if is_cmp op then sem_cmp sem active (Pred op kids field strs ival rel target mn mx thr inb)
      else
        (case resolve_relation cat rel active False of
           None \<Rightarrow> (\<lambda>x. None)
         | Some r \<Rightarrow> sem_quant sem r op inb mn mx thr (target_meaning cat sem (rd_layer r) target)))"
| "meanings cat sem active [] = (\<lambda>x. [])"
| "meanings cat sem active (k # ks) = (\<lambda>x. meaning cat sem active k x # meanings cat sem active ks x)"
| "target_meaning cat sem v None = (\<lambda>x. Some True)"
| "target_meaning cat sem v (Some t) = meaning cat sem v t"

lemma meanings_append: "meanings cat sem active (ks @ ls) x = meanings cat sem active ks x @ meanings cat sem active ls x"
  by (induction ks) simp_all

lemma meaning_op:
  assumes "pr_op k = op" "is_bool op"
  shows "meaning cat sem active k x = fold3 op (meanings cat sem active (pr_kids k) x)"
  using assms by (cases k) simp

lemma meaning_splice:
  assumes "is_bool op"
  shows "fold3 op (meanings cat sem active (splice op k @ ks) x)
    = (if op = Op_AllOf then and3 (meaning cat sem active k x) (fold3 op (meanings cat sem active ks x))
       else or3 (meaning cat sem active k x) (fold3 op (meanings cat sem active ks x)))"
proof (cases "pr_op k = op")
  case True
  then show ?thesis by (simp add: splice_def meaning_op [OF True assms] meanings_append fold3_append)
qed (simp add: splice_def fold3_Nil_Cons)

lemma meaning_collapse:
  assumes "is_bool op" "ks \<noteq> []"
  shows "meaning cat sem active (collapse op ks) x = fold3 op (meanings cat sem active ks x)"
  using assms by (cases ks; cases "tl ks") (auto simp: collapse_def bool_pred_def fold3_Nil_Cons)

lemma meaning_negate:
  assumes "normal cat active k"
  shows "meaning cat sem active (negate k) x = not3 (meaning cat sem active k x)"
proof (cases "pr_op k = Op_Not")
  case True
  from normal_op [OF assms True] obtain j where "pr_kids k = [j]" by (auto simp: length_Suc_conv)
  with True show ?thesis by (cases k) (simp add: negate_def is_bool_def fold3_Nil_Cons)
qed (simp add: negate_def bool_pred_def is_bool_def fold3_Nil_Cons)

lemma norm_meaning:
  "norm_pred cat active p = Inr q \<Longrightarrow> meaning cat sem active q = meaning cat sem active p"
  "norm_kids cat op active ks = Inr qs \<Longrightarrow> is_bool op \<Longrightarrow>
     (\<forall>x. fold3 op (meanings cat sem active qs x) = fold3 op (meanings cat sem active ks x))"
  "norm_target cat active t = Inr u \<Longrightarrow> target_meaning cat sem active u = target_meaning cat sem active t"
proof (induction cat active p and cat op active ks and cat active t arbitrary: q and qs and u
    rule: norm_pred_norm_kids_norm_target.induct)
  case (1 cat active op kids field strs ival rel target mn mx thr inb)
  consider (bool) "is_bool op" | (neg) "op = Op_Not" | (cmp) "is_cmp op" "\<not> is_bool op" "op \<noteq> Op_Not"
    | (quant) "\<not> is_bool op" "op \<noteq> Op_Not" "\<not> is_cmp op" by blast
  then show ?case
  proof cases
    case bool
    with "1.prems" obtain ks where ks: "kids \<noteq> []" "norm_kids cat op active kids = Inr ks" "q = collapse op ks"
      by (auto simp: bindE_Inr_iff split: if_splits)
    with "1.IH"(1) [OF bool _ ks(2)] norm_normal(2) [OF ks(2) bool] bool show ?thesis
      by (auto simp: meaning_collapse fun_eq_iff)
  next
    case neg
    with "1.prems" obtain k nk where k: "kids = [k]" "norm_pred cat active k = Inr nk" "q = negate nk"
      by (auto simp: bindE_Inr_iff is_bool_def split: list.splits)
    with "1.IH"(2) neg have "meaning cat sem active nk = meaning cat sem active k" by (auto simp: is_bool_def)
    with k neg show ?thesis
      by (auto simp: fun_eq_iff is_bool_def fold3_Nil_Cons meaning_negate [OF norm_normal(1) [OF k(2)]])
  next
    case cmp
    with "1.prems" show ?thesis by (auto simp: bindE_Inr_iff)
  next
    case quant
    with "1.prems" obtain r u where r: "resolve_relation cat rel active False = Some r"
        "\<not> bad_depth mn mx" "\<not> (is_counting op \<and> thr < 0)" "norm_target cat (rd_layer r) target = Inr u"
        "q = Pred op kids field strs ival (qualified_name r) u mn mx thr inb"
      by (auto simp: bindE_Inr_iff unknown_relation_def depth_error_def split: option.splits if_splits)
    with "1.IH"(3) quant have "target_meaning cat sem (rd_layer r) u = target_meaning cat sem (rd_layer r) target" by blast
    with r quant resolve_qualified [OF r(1)] show ?thesis by simp
  qed
next
  case (3 cat op active k ks)
  then show ?case by (auto simp: bindE_Inr_iff meaning_splice fold3_Nil_Cons)
qed (auto simp: bindE_Inr_iff)

text \<open>(C13) Normalising a predicate keeps its meaning: for every interpretation of comparisons and of
  quantifiers over relations, the flattened, reduced and qualified predicate has the same truth value at
  every node as the predicate that was written, unknown included.\<close>

theorem norm_pred_keeps_meaning:
  assumes "norm_pred cat active p = Inr q"
  shows "meaning cat sem active q x = meaning cat sem active p x"
  by (simp add: norm_meaning(1) [OF assms])

subsection \<open>Bounds\<close>

text \<open>Every traversal of a validated plan, at any depth of nesting, is bounded.\<close>

definition depth_ok :: "int \<Rightarrow> int \<Rightarrow> bool" where
  "depth_ok mn mx \<longleftrightarrow> 1 \<le> mn \<and> mn \<le> mx \<and> mx \<le> 32"

fun pred_bounded :: "Pred \<Rightarrow> bool"
  and preds_bounded :: "Pred list \<Rightarrow> bool"
  and target_bounded :: "Pred option \<Rightarrow> bool" where
  "pred_bounded (Pred op kids field strs ival rel target mn mx thr inb) =
     (if is_bool op \<or> op = Op_Not then preds_bounded kids
      else is_cmp op \<or> depth_ok mn mx \<and> (\<not> is_counting op \<or> 0 \<le> thr) \<and> target_bounded target)"
| "preds_bounded [] = True"
| "preds_bounded (k # ks) = (pred_bounded k \<and> preds_bounded ks)"
| "target_bounded None = True"
| "target_bounded (Some t) = pred_bounded t"

lemma normal_bounded:
  "normal cat active p \<Longrightarrow> pred_bounded p"
  "normal_kids cat op active ks \<Longrightarrow> preds_bounded ks"
  "normal_target cat active t \<Longrightarrow> target_bounded t"
  by (induction cat active p and cat op active ks and cat active t rule: normal_normal_kids_normal_target.induct)
     (auto simp: depth_ok_def split: if_splits option.splits)

fun stage_bounded :: "Stage \<Rightarrow> bool" where
  "stage_bounded (Stage op pred level rel mode mn mx operand fs n unknown inb) =
     (if op = Stage_Nodes then target_bounded pred
      else if op = Stage_Where then pred \<noteq> None \<and> target_bounded pred
      else if op \<in> {Stage_Out, Stage_In} then depth_ok mn mx
      else if op \<in> {Stage_Union, Stage_Intersect, Stage_Except} then operand \<noteq> None
      else if op = Stage_Path then depth_ok mn mx \<and> 0 \<le> n \<and> operand \<noteq> None
      else if op = Stage_Limit then 1 \<le> n
      else if op = Stage_Rank then 0 \<le> n
      else if op = Stage_ReverseTypeUse then 1 \<le> mx \<and> mx \<le> 32
      else True)"

definition has_operand :: "StageOp \<Rightarrow> bool" where
  "has_operand op \<longleftrightarrow> op \<in> {Stage_Union, Stage_Intersect, Stage_Except, Stage_Path}"

text \<open>A property of every stage of a plan and of the operand plans of its stages.\<close>

fun all_stages :: "(Stage \<Rightarrow> bool) \<Rightarrow> Plan \<Rightarrow> bool"
  and all_in :: "(Stage \<Rightarrow> bool) \<Rightarrow> Stage list \<Rightarrow> bool"
  and all_at :: "(Stage \<Rightarrow> bool) \<Rightarrow> Stage \<Rightarrow> bool"
  and all_operand :: "(Stage \<Rightarrow> bool) \<Rightarrow> Plan option \<Rightarrow> bool" where
  "all_stages P (Plan src stages) = all_in P stages"
| "all_in P [] = True"
| "all_in P (s # ss) = (all_at P s \<and> all_in P ss)"
| "all_at P (Stage op pred level rel mode mn mx operand fs n unknown inb) =
     (P (Stage op pred level rel mode mn mx operand fs n unknown inb) \<and> (has_operand op \<longrightarrow> all_operand P operand))"
| "all_operand P None = True"
| "all_operand P (Some p) = all_stages P p"

lemma all_at_eq: "all_at P s \<longleftrightarrow> P s \<and> (has_operand (sg_op s) \<longrightarrow> all_operand P (sg_operand s))"
  by (cases s) simp

lemma all_stages_mono:
  "all_stages P p \<Longrightarrow> (\<And>s. P s \<Longrightarrow> Q s) \<Longrightarrow> all_stages Q p"
  "all_in P ss \<Longrightarrow> (\<And>s. P s \<Longrightarrow> Q s) \<Longrightarrow> all_in Q ss"
  "all_at P s \<Longrightarrow> (\<And>s. P s \<Longrightarrow> Q s) \<Longrightarrow> all_at Q s"
  "all_operand P po \<Longrightarrow> (\<And>s. P s \<Longrightarrow> Q s) \<Longrightarrow> all_operand Q po"
  by (induction P p and P ss and P s and P po rule: all_stages_all_in_all_at_all_operand.induct) auto

definition accepted :: "catalog \<Rightarrow> Stage \<Rightarrow> bool" where
  "accepted cat s \<longleftrightarrow> (\<exists>st st'. walk_stage cat s st = Inr (s, st'))"

lemma walk_accepted:
  "validate_walk cat p st = Inr (q, st') \<Longrightarrow> all_stages (accepted cat) q"
  "walk_stages cat ss st = Inr (nss, st') \<Longrightarrow> all_in (accepted cat) nss"
  "walk_stage cat s st = Inr (ns, st') \<Longrightarrow> all_at (accepted cat) ns"
  "walk_operand cat what po st = Inr np \<Longrightarrow> all_stages (accepted cat) np"
proof (induction cat p st and cat ss st and cat s st and cat what po st
    arbitrary: q st' and nss st' and ns st' and np rule: validate_walk_walk_stages_walk_stage_walk_operand.induct)
  case (1 cat src stages st)
  from "1.prems" obtain st0 ss where w: "start_walk src st = Inr st0" "walk_stages cat stages st0 = Inr (ss, st')" "q = Plan src ss"
    by (auto simp: bindE_Inr_iff unenumerated_def split: if_splits)
  with "1.IH" [OF w(1,2)] show ?case by simp
next
  case (3 cat s ss st)
  from "3.prems" obtain ns st1 ms where w: "walk_stage cat s st = Inr (ns, st1)" "walk_stages cat ss st1 = Inr (ms, st')"
      "nss = ns # ms"
    by (auto simp: bindE_Inr_iff)
  with "3.IH"(1) [OF w(1)] "3.IH"(2) [OF w(1) refl w(2)] show ?case by simp
next
  case (4 cat op pred level rel mode mn mx operand fs n unknown inb st)
  let ?s = "Stage op pred level rel mode mn mx operand fs n unknown inb"
  note sh = walk_stage_not_scalar [OF "4.prems"]
  have "accepted cat ns" using walk_stable(3) [OF "4.prems"] by (auto simp: accepted_def)
  moreover have "has_operand (sg_op ns) \<longrightarrow> all_operand (accepted cat) (sg_operand ns)"
    using "4.prems"
  proof (cases rule: walk_stage_cases)
    case (set_op np)
    then have "all_stages (accepted cat) np" using "4.IH"(1-3) [OF refl sh _ set_op(2)] by auto
    with set_op show ?thesis by simp
  next
    case (path r np)
    then have "all_stages (accepted cat) np" using "4.IH"(4) [OF refl sh _ path(2)] by simp
    with path show ?thesis by simp
  qed (auto simp: has_operand_def dest: walk_keeps_op)
  ultimately show ?case by (simp add: all_at_eq)
next
  case (6 cat what p st)
  from "6.prems" obtain sub where w: "validate_walk cat p fresh_walk = Inr (np, sub)" by (auto simp: bindE_Inr_iff)
  with "6.IH" [OF w(1)] show ?case by simp
qed auto

lemma validate_accepted: "validate cat p = Inr q \<Longrightarrow> all_stages (accepted cat) q"
  using walk_accepted(1) by (auto simp: validate_def bindE_Inr_iff)

lemma pred_bounded_norm: "norm_pred cat active t = Inr u \<Longrightarrow> pred_bounded u"
  using norm_normal(1) normal_bounded(1) by blast

lemma target_bounded_norm: "norm_target cat active t = Inr u \<Longrightarrow> target_bounded u"
  using norm_normal(3) normal_bounded(3) by blast

lemma accepted_bounded:
  assumes "accepted cat s"
  shows "stage_bounded s"
proof -
  from assms obtain st st' where w: "walk_stage cat s st = Inr (s, st')" by (auto simp: accepted_def)
  then show ?thesis
  proof (cases rule: walk_stage_cases)
    case nodes
    then show ?thesis by (cases s) (auto simp: walk_nodes_def bindE_Inr_iff target_bounded_norm split: if_splits)
  next
    case filter
    then show ?thesis by (cases s) (auto simp: walk_where_def bindE_Inr_iff pred_bounded_norm split: if_splits)
  next
    case traverse
    then show ?thesis
      by (cases s) (auto simp: walk_traverse_def Let_def unknown_relation_def depth_error_def bad_depth_def depth_ok_def
          split: if_splits option.splits)
  next
    case (set_op np)
    then show ?thesis by (cases s) auto
  next
    case (path r np)
    then show ?thesis
      by (cases s) (auto simp: path_before_def unknown_relation_def depth_error_def bad_depth_def depth_ok_def
          split: if_splits option.splits)
  next
    case other
    have "(sg_op s = Stage_Limit \<longrightarrow> 1 \<le> sg_n s) \<and> (sg_op s = Stage_Rank \<longrightarrow> 0 \<le> sg_n s)
        \<and> (sg_op s = Stage_ReverseTypeUse \<longrightarrow> 1 \<le> sg_max_depth s \<and> sg_max_depth s \<le> 32)"
      using w by (auto simp: walk_stage_eq walk_limit_def walk_rank_def walk_reverse_type_use_def split: if_splits)
    with other(2) show ?thesis by (cases s) auto
  qed
qed

text \<open>(C30) Every traversal of a validated plan is bounded, however deeply it is nested in operand plans and
  quantifiers: depths satisfy 1 <= min <= max <= 32, limits are positive, caps and thresholds are not
  negative, and every set operation has its operand.\<close>

theorem validated_plan_bounded:
  assumes "validate cat p = Inr q"
  shows "all_stages stage_bounded q"
  by (rule all_stages_mono(1) [OF validate_accepted [OF assms] accepted_bounded])

subsection \<open>Shapes\<close>

text \<open>The order of stages that the query language allows, by the shape of the stream.\<close>

inductive shapes :: "Shape \<Rightarrow> StageOp list \<Rightarrow> Shape \<Rightarrow> bool" where
  stop: "shapes sh [] sh"
| on_nodes: "op \<in> {Stage_Nodes, Stage_ChangeView, Stage_Where, Stage_Out, Stage_In, Stage_Sites, Stage_Union, Stage_Intersect,
      Stage_Except} \<Longrightarrow> shapes Shape_Nodes ops sh \<Longrightarrow> shapes Shape_Nodes (op # ops) sh"
| to_rows: "shapes Shape_Rows ops sh \<Longrightarrow> shapes Shape_Nodes (Stage_Select # ops) sh"
| to_paths: "op \<in> {Stage_Path, Stage_ReverseTypeUse} \<Longrightarrow> shapes Shape_Path ops sh \<Longrightarrow> shapes Shape_Nodes (op # ops) sh"
| to_scalar: "sh0 \<noteq> Shape_Scalar \<Longrightarrow> shapes Shape_Scalar ops sh \<Longrightarrow> shapes sh0 (Stage_Count # ops) sh"
| keep: "sh0 \<noteq> Shape_Scalar \<Longrightarrow> op \<in> {Stage_Distinct, Stage_Limit} \<Longrightarrow> shapes sh0 ops sh \<Longrightarrow> shapes sh0 (op # ops) sh"
| sort: "sh0 \<noteq> Shape_Scalar \<Longrightarrow> sh0 \<noteq> Shape_Path \<Longrightarrow> shapes sh0 ops sh \<Longrightarrow> shapes sh0 (Stage_OrderBy # ops) sh"
| rank: "shapes Shape_Path ops sh \<Longrightarrow> shapes Shape_Path (Stage_Rank # ops) sh"

inductive_simps after_count: "shapes Shape_Scalar ops sh"

text \<open>Until a codebase is enumerated its stream has the shape of nodes.\<close>

definition wk_ok :: "WalkState \<Rightarrow> bool" where
  "wk_ok st \<longleftrightarrow> (wk_codebase_unenumerated st \<longrightarrow> wk_shape st = Shape_Nodes)"

lemma walk_stage_shape:
  assumes "walk_stage cat s st = Inr (ns, st')" "wk_ok st" "shapes (wk_shape st') ops sh"
  shows "wk_ok st' \<and> shapes (wk_shape st) (sg_op s # ops) sh"
  using assms(1)
proof (cases rule: walk_stage_cases)
  case nodes
  then have "wk_shape st = Shape_Nodes" "wk_shape st' = Shape_Nodes" "\<not> wk_codebase_unenumerated st'"
    using assms(2) by (auto simp: walk_nodes_def wk_ok_def bindE_Inr_iff split: if_splits)
  with nodes assms(3) show ?thesis by (auto simp: wk_ok_def intro: shapes.on_nodes)
next
  case filter
  then have "wk_shape st = Shape_Nodes" "st' = st" by (auto simp: walk_where_def bindE_Inr_iff split: if_splits)
  with filter assms(2,3) show ?thesis by (auto intro: shapes.on_nodes)
next
  case traverse
  then have "wk_shape st = Shape_Nodes" "wk_shape st' = Shape_Nodes"
    by (auto simp: walk_traverse_def Let_def unknown_relation_def depth_error_def split: if_splits option.splits)
  with traverse assms(3) show ?thesis by (auto simp: wk_ok_def intro: shapes.on_nodes)
next
  case (set_op np)
  then have "wk_shape st = Shape_Nodes" by (auto simp: set_before_def split: if_splits)
  with set_op assms(2,3) show ?thesis by (auto intro: shapes.on_nodes)
next
  case (path r np)
  then have "wk_shape st = Shape_Nodes" "\<not> wk_codebase_unenumerated st" by (auto simp: path_before_def split: if_splits)
  with path assms(3) show ?thesis by (auto simp: wk_ok_def intro: shapes.to_paths)
next
  case other
  from other(2) assms show ?thesis
    by (elim insertE emptyE;
        auto simp: walk_stage_eq walk_view_def walk_sites_def walk_select_def walk_order_by_def walk_limit_def walk_rank_def
          walk_reverse_type_use_def wk_ok_def bindE_Inr_iff intro: shapes.intros split: if_splits)
qed

lemma walk_stages_shape:
  "walk_stages cat ss st = Inr (nss, st') \<Longrightarrow> wk_ok st \<Longrightarrow> shapes (wk_shape st) (map sg_op ss) (wk_shape st')"
proof (induction ss arbitrary: st nss)
  case Nil
  then show ?case by (auto intro: shapes.stop)
next
  case (Cons s ss)
  then obtain ns st1 ms where w: "walk_stage cat s st = Inr (ns, st1)" "walk_stages cat ss st1 = Inr (ms, st')"
    by (auto simp: bindE_Inr_iff)
  have "wk_ok st1" using walk_stage_shape [OF w(1) Cons.prems(2) shapes.stop] by simp
  from walk_stage_shape [OF w(1) Cons.prems(2) Cons.IH [OF w(2) this]] show ?case by simp
qed

text \<open>(C31) The stages of a validated plan follow the order of shapes that the query language documents:
  node stages first, then rows or paths with their own stages, at most one count and nothing after it; the
  final shape is the one the order gives.\<close>

theorem validated_plan_shapes:
  assumes "final_shape cat p = Inr sh"
  shows "shapes Shape_Nodes (map sg_op (pl_stages p)) sh"
proof -
  obtain src ss where p: "p = Plan src ss" by (cases p)
  with assms obtain st0 nss st where w: "start_walk src fresh_walk = Inr st0" "walk_stages cat ss st0 = Inr (nss, st)" "sh = wk_shape st"
    by (auto simp: final_shape_def bindE_Inr_iff unenumerated_def split: if_splits)
  then have "wk_ok st0" "wk_shape st0 = Shape_Nodes"
    by (auto simp: start_walk_def fresh_walk_def wk_ok_def split: if_splits)
  with walk_stages_shape [OF w(2)] w(3) p show ?thesis by simp
qed

subsection \<open>A small catalog\<close>

definition sample_catalog :: catalog where
  "sample_catalog = \<lparr>ct_relations =
       [\<lparr>cr_id = 1, cr_name = ''calls'', cr_layer = View_Symbol, cr_source = ''symbol.callable'', cr_target = ''symbol.callable'',
         cr_inverse = ''called_by'', cr_traversal = ''out|in'', cr_evidence = ''call_site'',
         cr_evidence_capabilities = ''call_site|declaration'', cr_completeness = ''partial'', cr_virtual_relation = False\<rparr>],
     ct_fields = [\<lparr>fd_name = ''name'', fd_filterable = True, fd_is_string = True\<rparr>,
       \<lparr>fd_name = ''kind'', fd_filterable = True, fd_is_string = True\<rparr>],
     ct_entity_kinds = [''class''], ct_symbol_kinds = [''function'']\<rparr>"

definition sample_pred :: Pred where
  "sample_pred = all_of [all_of [eq_str ''kind'' ''function'', calls None], not_pred (not_pred (glob_pred ''name'' ''f*''))]"

definition sample_query :: Plan where
  "sample_query = pipe (pipe (pipe (Plan codebase [nodes_where_stage sample_pred Unknown_Exclude])
     (out_stage ''calls'' 1 3 Mode_Static)) (select_stage [''name''])) (limit_stage 10)"

lemma sample_query_valid:
  obtains q where "validate sample_catalog sample_query = Inr q" "map sg_relation (pl_stages q) = [[], ''symbol.calls'', [], []]"
proof -
  have "case validate sample_catalog sample_query of Inl _ \<Rightarrow> False
      | Inr q \<Rightarrow> map sg_relation (pl_stages q) = [[], ''symbol.calls'', [], []]" by code_simp
  with that show thesis by (auto split: sum.splits)
qed

lemma validate_stable_witness:
  "\<exists>q. validate sample_catalog sample_query = Inr q \<and> validate sample_catalog q = Inr q \<and> q \<noteq> sample_query"
proof -
  obtain q where q: "validate sample_catalog sample_query = Inr q" "map sg_relation (pl_stages q) = [[], ''symbol.calls'', [], []]"
    using sample_query_valid by metis
  have "map sg_relation (pl_stages sample_query) \<noteq> [[], ''symbol.calls'', [], []]" by code_simp
  with q(2) have "q \<noteq> sample_query" by metis
  with q(1) validate_stable [OF q(1)] show ?thesis by blast
qed

lemma validated_plan_bounded_witness: "\<exists>q. validate sample_catalog sample_query = Inr q \<and> all_stages stage_bounded q"
  using sample_query_valid validated_plan_bounded by metis

lemma validated_plan_shapes_witness:
  "shapes Shape_Nodes [Stage_Nodes, Stage_Out, Stage_Select, Stage_Limit] Shape_Rows"
proof -
  have "final_shape sample_catalog sample_query = Inr Shape_Rows" by code_simp
  from validated_plan_shapes [OF this] show ?thesis
    by (simp add: sample_query_def pipe_def nodes_where_stage_def out_stage_def select_stage_def limit_stage_def)
qed

definition sample_semantics :: "nat semantics" where
  "sample_semantics = \<lparr>sem_cmp = (\<lambda>v p x. if pr_op p = Op_Eq then Some (x = 0) else None),
     sem_quant = (\<lambda>r op inb mn mx thr t x. t (x + 1))\<rparr>"

lemma norm_pred_keeps_meaning_witness:
  "\<exists>q. norm_pred sample_catalog View_Symbol sample_pred = Inr q \<and> length (pr_kids q) = 3
     \<and> meaning sample_catalog sample_semantics View_Symbol q 0 = meaning sample_catalog sample_semantics View_Symbol sample_pred 0"
proof -
  have "case norm_pred sample_catalog View_Symbol sample_pred of Inl _ \<Rightarrow> False | Inr q \<Rightarrow> length (pr_kids q) = 3" by code_simp
  then obtain q where "norm_pred sample_catalog View_Symbol sample_pred = Inr q" "length (pr_kids q) = 3"
    by (auto split: sum.splits)
  with norm_pred_keeps_meaning [OF this(1), of sample_semantics 0] show ?thesis by blast
qed

end
