(* ===== verification/Query_Json.thy ===== *)
theory Query_Json
  imports Query_Normal Json_Roundtrip
begin

text \<open>
  The canonical JSON of a query plan (\<^verbatim>\<open>query/plan.cpp\<close>). Reading the first element of an
  empty vector or through an empty pointer has no defined result in the source; such a
  rendering is \<open>None\<close> here, and validated plans are shown never to reach it.
\<close>

subsection \<open>Rendering\<close>

fun pred_op_name :: "PredOp \<Rightarrow> string" where
  "pred_op_name Op_AllOf = ''all_of''"
| "pred_op_name Op_AnyOf = ''any_of''"
| "pred_op_name Op_Not = ''not''"
| "pred_op_name Op_Eq = ''eq''"
| "pred_op_name Op_Ne = ''ne''"
| "pred_op_name Op_Glob = ''glob''"
| "pred_op_name Op_In = ''in''"
| "pred_op_name Op_Exists = ''exists''"
| "pred_op_name Op_None = ''none''"
| "pred_op_name Op_All = ''all''"
| "pred_op_name Op_AtLeast = ''at_least''"
| "pred_op_name Op_Exactly = ''exactly''"

type_synonym members = "(string \<times> jvalue) list"

definition op_object :: "string \<Rightarrow> members \<Rightarrow> jvalue" where
  "op_object name rest = JObj ((''op'', JStr name) # rest)"

definition cmp_value :: "int option \<Rightarrow> string list \<Rightarrow> jvalue option" where
  "cmp_value ival strs =
     (case ival of Some i \<Rightarrow> Some (JInt i) | None \<Rightarrow> (case strs of [] \<Rightarrow> None | v # _ \<Rightarrow> Some (JStr v)))"

definition quant_members :: "PredOp \<Rightarrow> string \<Rightarrow> bool \<Rightarrow> int \<Rightarrow> int \<Rightarrow> int \<Rightarrow> members \<Rightarrow> members" where
  "quant_members op rel inb mn mx thr t =
     [(''relation'', JStr rel)] @ (if inb then [(''direction'', JStr ''in'')] else [])
     @ [(''min_depth'', JInt mn), (''max_depth'', JInt mx)] @ (if is_counting op then [(''threshold'', JInt thr)] else []) @ t"

fun pred_to_json :: "Pred \<Rightarrow> jvalue option"
  and preds_to_json :: "Pred list \<Rightarrow> jvalue list option"
  and target_to_json :: "Pred option \<Rightarrow> members option" where
  "pred_to_json (Pred op kids field strs ival rel target mn mx thr inb) =
     map_option (op_object (pred_op_name op))
       (if is_bool op then map_option (\<lambda>ks. [(''preds'', JArr ks)]) (preds_to_json kids)
        else if op = Op_Not then
          (case kids of [] \<Rightarrow> None | k # _ \<Rightarrow> map_option (\<lambda>v. [(''pred'', v)]) (pred_to_json k))
        else if op = Op_In then Some [(''field'', JStr field), (''values'', JArr (map JStr strs))]
        else if is_cmp op then map_option (\<lambda>v. [(''field'', JStr field), (''value'', v)]) (cmp_value ival strs)
        else map_option (quant_members op rel inb mn mx thr) (target_to_json target))"
| "preds_to_json [] = Some []"
| "preds_to_json (k # ks) =
     Option.bind (pred_to_json k) (\<lambda>v. map_option ((#) v) (preds_to_json ks))"
| "target_to_json None = Some []"
| "target_to_json (Some t) = map_option (\<lambda>v. [(''pred'', v)]) (pred_to_json t)"

definition unknown_member :: "UnknownPolicy \<Rightarrow> members" where
  "unknown_member unknown =
     (if unknown \<noteq> Unknown_Exclude then [(''unknown'', JStr (unknown_policy_name unknown))] else [])"

definition depth_members :: "int \<Rightarrow> int \<Rightarrow> members" where
  "depth_members mn mx = [(''min_depth'', JInt mn), (''max_depth'', JInt mx)]"

definition count_member :: "string \<Rightarrow> int \<Rightarrow> members" where
  "count_member name n = (if n \<noteq> 0 then [(name, JInt n)] else [])"

definition source_to_json :: "Source \<Rightarrow> jvalue" where
  "source_to_json src =
     JObj ((''kind'', JStr (case so_kind src of Source_Codebase \<Rightarrow> ''codebase'' | Source_Symbol \<Rightarrow> ''symbol''
               | Source_Entity \<Rightarrow> ''entity''))
           # (if so_kind src \<noteq> Source_Codebase then [(''ref'', JStr (so_ref src))] else []))"

fun plan_to_json_normalized :: "Plan \<Rightarrow> jvalue option"
  and stages_to_json :: "Stage list \<Rightarrow> jvalue list option"
  and stage_to_json :: "Stage \<Rightarrow> jvalue option"
  and operand_to_json :: "Plan option \<Rightarrow> jvalue option" where
  "plan_to_json_normalized (Plan src stages) =
     map_option (\<lambda>ss. JObj [(''cxq'', JInt 1), (''source'', source_to_json src), (''stages'', JArr ss)])
       (stages_to_json stages)"
| "stages_to_json [] = Some []"
| "stages_to_json (s # ss) = Option.bind (stage_to_json s) (\<lambda>v. map_option ((#) v) (stages_to_json ss))"
| "stage_to_json (Stage op pred level rel mode mn mx operand fs n unknown inb) =
     map_option (op_object (stage_op_name op))
       (case op of
          Stage_Nodes \<Rightarrow> map_option (\<lambda>t. t @ unknown_member unknown) (target_to_json pred)
        | Stage_ChangeView \<Rightarrow> Some [(''level'', JStr (view_name level))]
        | Stage_Where \<Rightarrow> (case pred of None \<Rightarrow> None
            | Some p \<Rightarrow> map_option (\<lambda>t. t @ unknown_member unknown) (target_to_json (Some p)))
        | Stage_Sites \<Rightarrow> Some []
        | Stage_Select \<Rightarrow> Some [(''fields'', JArr (map JStr fs))]
        | Stage_OrderBy \<Rightarrow> Some [(''fields'', JArr (map JStr fs))]
        | Stage_Count \<Rightarrow> Some []
        | Stage_Distinct \<Rightarrow> Some []
        | Stage_Limit \<Rightarrow> Some [(''n'', JInt n)]
        | Stage_Path \<Rightarrow> map_option (\<lambda>v. [(''relation'', JStr rel)] @ (if inb then [(''direction'', JStr ''in'')] else [])
              @ depth_members mn mx @ count_member ''shortest'' n @ [(''to'', v)]) (operand_to_json operand)
        | Stage_Rank \<Rightarrow> Some (count_member ''top_n'' n)
        | Stage_ReverseTypeUse \<Rightarrow> Some [(''max_depth'', JInt mx)]
        | Stage_Union \<Rightarrow> map_option (\<lambda>v. [(''plan'', v)]) (operand_to_json operand)
        | Stage_Intersect \<Rightarrow> map_option (\<lambda>v. [(''plan'', v)]) (operand_to_json operand)
        | Stage_Except \<Rightarrow> map_option (\<lambda>v. [(''plan'', v)]) (operand_to_json operand)
        | _ \<Rightarrow> Some ([(''relation'', JStr rel)]
              @ (if mode \<noteq> Mode_Static then [(''mode'', JStr (traversal_mode_name mode))] else [])
              @ depth_members mn mx))"
| "operand_to_json None = None"
| "operand_to_json (Some p) = plan_to_json_normalized p"

definition plan_to_json :: "catalog \<Rightarrow> Plan \<Rightarrow> plan_error + jvalue option" where
  "plan_to_json cat plan = bindE (validate cat plan) (\<lambda>q. Inr (plan_to_json_normalized q))"

definition canonical_json :: "catalog \<Rightarrow> Plan \<Rightarrow> plan_error + string option" where
  "canonical_json cat plan = bindE (plan_to_json cat plan) (\<lambda>v. Inr (map_option dumps_indent2 v))"

subsection \<open>Validated plans are rendered\<close>

lemma check_cmp_value:
  assumes "check_cmp cat p active = Inr ()" "pr_op p \<noteq> Op_In"
  shows "cmp_value (pr_int_value p) (pr_str_values p) \<noteq> None"
proof -
  have s: "check_string p = Inr () \<Longrightarrow> pr_str_values p \<noteq> []"
    using assms(2) by (auto simp: check_string_def bad_arity_def split: if_splits)
  have i: "check_integer b p = Inr () \<Longrightarrow> pr_int_value p \<noteq> None" for b by (auto simp: check_integer_def split: if_splits)
  from assms(1) have "(\<exists>b. check_integer b p = Inr ()) \<or> check_string p = Inr ()"
    by (auto simp: check_cmp_def check_typed_def check_logical_def bindE_Inr_iff split: if_splits option.splits)
  with s i show ?thesis by (auto simp: cmp_value_def split: option.splits list.splits)
qed

lemma normal_rendered:
  "normal cat active p \<Longrightarrow> pred_to_json p \<noteq> None"
  "normal_kids cat op active ks \<Longrightarrow> preds_to_json ks \<noteq> None"
  "normal_target cat active t \<Longrightarrow> target_to_json t \<noteq> None"
proof (induction cat active p and cat op active ks and cat active t rule: normal_normal_kids_normal_target.induct)
  case (1 cat active op kids field strs ival rel target mn mx thr inb)
  let ?p = "Pred op kids field strs ival rel target mn mx thr inb"
  consider (bool) "is_bool op" | (neg) "op = Op_Not" | (cmp) "is_cmp op" "\<not> is_bool op" "op \<noteq> Op_Not"
    | (quant) "\<not> is_bool op" "op \<noteq> Op_Not" "\<not> is_cmp op" by blast
  then show ?case
  proof cases
    case bool
    with 1 show ?thesis by (auto simp: bool_pred_def)
  next
    case neg
    with 1 show ?thesis by (auto simp: is_bool_def bool_pred_def length_Suc_conv bind_eq_Some_conv split: option.splits)
  next
    case cmp
    with "1.prems" check_cmp_value [of cat ?p active] show ?thesis by auto
  next
    case quant
    then have "op \<noteq> Op_In" by (auto simp: is_cmp_def)
    with quant 1 show ?thesis by (auto split: option.splits)
  qed
qed auto

lemma norm_target_rendered: "norm_target cat active t = Inr u \<Longrightarrow> target_to_json u \<noteq> None"
  using norm_normal(3) normal_rendered(3) by blast

lemma accepted_rendered:
  assumes "accepted cat s" "has_operand (sg_op s) \<Longrightarrow> operand_to_json (sg_operand s) \<noteq> None"
  shows "stage_to_json s \<noteq> None"
proof -
  from assms(1) obtain st st' where w: "walk_stage cat s st = Inr (s, st')" by (auto simp: accepted_def)
  then show ?thesis
  proof (cases rule: walk_stage_cases)
    case nodes
    then have "target_to_json (sg_pred s) \<noteq> None"
      by (cases s) (auto simp: walk_nodes_def bindE_Inr_iff dest: norm_target_rendered split: if_splits)
    with nodes(1) show ?thesis by (cases s) simp
  next
    case filter
    then have "target_to_json (sg_pred s) \<noteq> None" "sg_pred s \<noteq> None"
      by (cases s; auto simp: walk_where_def bindE_Inr_iff simp del: norm_target.simps dest: norm_target_rendered split: if_splits)+
    with filter(1) show ?thesis by (cases s) auto
  qed (use assms(2) in \<open>cases s; auto simp: has_operand_def\<close>)+
qed

lemma accepted_operand: "accepted cat s \<Longrightarrow> has_operand (sg_op s) \<Longrightarrow> sg_operand s \<noteq> None"
  using accepted_bounded [of cat s] by (cases s) (auto simp: has_operand_def)

lemma all_accepted_rendered:
  "all_stages (accepted cat) p \<Longrightarrow> plan_to_json_normalized p \<noteq> None"
  "all_in (accepted cat) ss \<Longrightarrow> stages_to_json ss \<noteq> None"
  "all_at (accepted cat) s \<Longrightarrow> stage_to_json s \<noteq> None"
  "all_operand (accepted cat) po \<Longrightarrow> po \<noteq> None \<Longrightarrow> operand_to_json po \<noteq> None"
proof (induction p and ss and s and po rule: plan_to_json_normalized_stages_to_json_stage_to_json_operand_to_json.induct)
  case (4 op pred level rel mode mn mx operand fs n unknown inb)
  let ?s = "Stage op pred level rel mode mn mx operand fs n unknown inb"
  from "4.prems" have acc: "accepted cat ?s" by simp
  have "operand_to_json operand \<noteq> None" if "has_operand op"
    using that "4.IH" "4.prems" accepted_operand [OF acc] by (auto simp: has_operand_def)
  then show ?case using accepted_rendered [OF acc] by simp
qed auto

text \<open>The canonical JSON of a plan that validates is always defined: it never reads an empty vector of
  operands or values and never follows an empty pointer, however the plan was put together.\<close>

theorem canonical_json_defined:
  assumes "validate cat p = Inr q"
  shows "\<exists>t. canonical_json cat p = Inr (Some t)"
  using all_accepted_rendered(1) [OF validate_accepted [OF assms]] assms
  by (auto simp: canonical_json_def plan_to_json_def)

subsection \<open>Canonical JSON identifies a plan\<close>

text \<open>The predicates and stages that the builders produce: fields an operation does not use keep
  their defaults.\<close>

fun clean_pred :: "Pred \<Rightarrow> bool"
  and clean_preds :: "Pred list \<Rightarrow> bool"
  and clean_target :: "Pred option \<Rightarrow> bool" where
  "clean_pred (Pred op kids field strs ival rel target mn mx thr inb) =
     (if is_bool op then Pred op kids field strs ival rel target mn mx thr inb = bool_pred op kids \<and> clean_preds kids
      else if op = Op_Not then
        Pred op kids field strs ival rel target mn mx thr inb = bool_pred op kids \<and> length kids = 1 \<and> clean_preds kids
      else if is_cmp op then
        Pred op kids field strs ival rel target mn mx thr inb = cmp_pred op field strs ival
        \<and> (if op = Op_In then ival = None else if ival = None then length strs = 1 else strs = [])
      else
        Pred op kids field strs ival rel target mn mx thr inb = relation_pred op rel target mn mx inb thr
        \<and> (if is_counting op then True else thr = 0) \<and> clean_target target)"
| "clean_preds [] = True"
| "clean_preds (k # ks) = (clean_pred k \<and> clean_preds ks)"
| "clean_target None = True"
| "clean_target (Some t) = clean_pred t"

lemma pred_op_name_inject [simp]: "pred_op_name a = pred_op_name b \<longleftrightarrow> a = b"
  by (cases a; cases b) simp_all

lemma op_object_inject [simp]: "op_object a r = op_object b t \<longleftrightarrow> a = b \<and> r = t"
  by (simp add: op_object_def)

lemma map_option_op_object:
  "map_option (op_object a) x = map_option (op_object b) y \<Longrightarrow> x \<noteq> None \<Longrightarrow> a = b \<and> x = y"
  by (cases x; cases y) auto

lemma map_JStr_inject [simp]: "map JStr a = map JStr b \<longleftrightarrow> a = b"
  by (simp add: inj_map_eq_map inj_def)

lemma quant_members_inject:
  "quant_members op rel inb mn mx thr t = quant_members op rel' inb' mn' mx' thr' t' \<longleftrightarrow>
     rel' = rel \<and> inb' = inb \<and> mn' = mn \<and> mx' = mx \<and> (is_counting op \<longrightarrow> thr' = thr) \<and> t' = t"
  by (cases inb; cases inb'; cases "is_counting op") (auto simp: quant_members_def)

lemma pred_json_op: "pred_to_json p = Some v \<Longrightarrow> \<exists>r. v = op_object (pred_op_name (pr_op p)) r"
  by (cases p) (auto simp del: op_object_inject)

lemma pred_json_inject:
  "clean_pred p \<Longrightarrow> clean_pred q \<Longrightarrow> pred_to_json p = Some v \<Longrightarrow> pred_to_json q = Some v \<Longrightarrow> p = q"
  "clean_preds ks \<Longrightarrow> clean_preds ls \<Longrightarrow> preds_to_json ks = Some vs \<Longrightarrow> preds_to_json ls = Some vs \<Longrightarrow> ks = ls"
  "clean_target t \<Longrightarrow> clean_target u \<Longrightarrow> target_to_json t = Some ms \<Longrightarrow> target_to_json u = Some ms \<Longrightarrow> t = u"
proof (induction p and ks and t arbitrary: q v and ls vs and u ms rule: pred_to_json_preds_to_json_target_to_json.induct)
  case (1 op kids field strs ival rel target mn mx thr inb)
  obtain op' kids' field' strs' ival' rel' target' mn' mx' thr' inb'
    where q: "q = Pred op' kids' field' strs' ival' rel' target' mn' mx' thr' inb'" by (cases q)
  have op: "op' = op" using pred_json_op [OF "1.prems"(3)] pred_json_op [OF "1.prems"(4)] q by auto
  consider (bool) "is_bool op" | (neg) "op = Op_Not" | (cmp) "is_cmp op" "\<not> is_bool op" "op \<noteq> Op_Not"
    | (quant) "\<not> is_bool op" "op \<noteq> Op_Not" "\<not> is_cmp op" by blast
  then show ?case
  proof cases
    case bool
    with "1.prems" q op obtain ks where ks: "preds_to_json kids = Some ks" "preds_to_json kids' = Some ks"
        "Pred op kids field strs ival rel target mn mx thr inb = bool_pred op kids" "q = bool_pred op kids'"
        "clean_preds kids" "clean_preds kids'"
      by (auto simp: bool_pred_def split: if_splits)
    from "1.IH"(1) [OF bool ks(5,6,1,2)] ks(3,4) show ?thesis by simp
  next
    case neg
    with "1.prems" q op obtain k k' u where k: "kids = [k]" "kids' = [k']" "pred_to_json k = Some u" "pred_to_json k' = Some u"
        "Pred op kids field strs ival rel target mn mx thr inb = bool_pred op kids" "q = bool_pred op kids'"
        "clean_pred k" "clean_pred k'"
      by (auto simp: bool_pred_def is_bool_def length_Suc_conv)
    with "1.IH"(2) neg have "k = k'" by (auto simp: is_bool_def)
    with k show ?thesis by simp
  next
    case cmp
    with "1.prems" q op show ?thesis
      by (auto simp: cmp_pred_def cmp_value_def length_Suc_conv split: if_splits option.splits list.splits)
  next
    case quant
    then have "op \<noteq> Op_In" by (auto simp: is_cmp_def)
    with quant "1.prems"(3,4) q op obtain ms ms' where
        t: "target_to_json target = Some ms" "target_to_json target' = Some ms'"
        and eq: "quant_members op rel inb mn mx thr ms = quant_members op rel' inb' mn' mx' thr' ms'"
      by auto
    from quant "1.prems"(1,2) q op have c: "clean_target target" "clean_target target'"
        "if is_counting op then True else thr = 0" "if is_counting op then True else thr' = 0"
        "Pred op kids field strs ival rel target mn mx thr inb = relation_pred op rel target mn mx inb thr"
        "q = relation_pred op rel' target' mn' mx' inb' thr'"
      by simp_all
    have "target = target'" using "1.IH"(3) quant \<open>op \<noteq> Op_In\<close> c(1,2) t eq unfolding quant_members_inject by blast
    with c eq show ?thesis unfolding quant_members_inject by (cases "is_counting op") auto
  qed
next
  case (2 ls vs)
  then show ?case by (cases ls) (auto simp: bind_eq_Some_conv)
next
  case (3 k ks)
  from "3.prems"(3) obtain w ws where w: "pred_to_json k = Some w" "preds_to_json ks = Some ws" "vs = w # ws"
    by (auto simp: bind_eq_Some_conv)
  with "3.prems"(4) obtain l ls' where l: "ls = l # ls'" "pred_to_json l = Some w" "preds_to_json ls' = Some ws"
    by (cases ls) (auto simp: bind_eq_Some_conv)
  from l w "3.prems"(1,2) "3.IH"(1) [of l w] "3.IH"(2) [OF w(1), of ls' ws] show ?case by simp
next
  case (4 u ms)
  then show ?case by (cases u) auto
next
  case (5 t)
  from "5.prems"(3) obtain w where w: "pred_to_json t = Some w" "ms = [(''pred'', w)]" by auto
  with "5.prems"(4) obtain t' where t': "u = Some t'" "pred_to_json t' = Some w" by (cases u) auto
  with "5.IH" [of t' w] "5.prems"(1,2) w show ?case by simp
qed

subsection \<open>Clean plans\<close>

fun clean_plan :: "Plan \<Rightarrow> bool"
  and clean_stages :: "Stage list \<Rightarrow> bool"
  and clean_stage :: "Stage \<Rightarrow> bool"
  and clean_operand :: "Plan option \<Rightarrow> bool" where
  "clean_plan (Plan src stages) = ((if so_kind src = Source_Codebase then so_ref src = [] else True) \<and> clean_stages stages)"
| "clean_stages [] = True"
| "clean_stages (s # ss) = (clean_stage s \<and> clean_stages ss)"
| "clean_stage (Stage op pred level rel mode mn mx operand fs n unknown inb) =
     (clean_target pred
      \<and> (if has_operand op then operand \<noteq> None \<and> clean_operand operand else operand = None)
      \<and> (if op = Stage_Nodes then True else if op = Stage_Where then pred \<noteq> None else pred = None \<and> unknown = Unknown_Exclude)
      \<and> (if op = Stage_ChangeView then True else level = View_Symbol)
      \<and> (if op \<in> {Stage_Out, Stage_In, Stage_Path} then True else rel = [] \<and> mn = 1)
      \<and> (if op \<in> {Stage_Out, Stage_In} then True else mode = Mode_Static)
      \<and> (if op \<in> {Stage_Out, Stage_In, Stage_Path, Stage_ReverseTypeUse} then True else mx = 1)
      \<and> (if op \<in> {Stage_Select, Stage_OrderBy} then True else fs = [])
      \<and> (if op \<in> {Stage_Limit, Stage_Path, Stage_Rank} then True else n = 0)
      \<and> (if op = Stage_Path then True else \<not> inb))"
| "clean_operand None = True"
| "clean_operand (Some p) = clean_plan p"

lemma stage_op_name_inject [simp]: "stage_op_name a = stage_op_name b \<longleftrightarrow> a = b"
  by (cases a; cases b) simp_all

lemma view_name_inject [simp]: "view_name a = view_name b \<longleftrightarrow> a = b"
  by (cases a; cases b) simp_all

lemma unknown_member_inject: "unknown_member a = unknown_member b \<Longrightarrow> a = b"
  by (cases a; cases b) (simp_all add: unknown_member_def)

lemma mode_member_inject: "traversal_mode_name a = traversal_mode_name b \<longleftrightarrow> a = b"
  by (cases a; cases b) simp_all

lemma count_member_inject [simp]: "count_member k m = count_member k n \<longleftrightarrow> m = n"
  by (simp add: count_member_def)

lemma target_member_cases: "target_to_json t = Some ms \<Longrightarrow> (t = None \<and> ms = []) \<or> (\<exists>v. t \<noteq> None \<and> ms = [(''pred'', v)])"
  by (cases t) auto

lemma target_unknown_inject:
  assumes "target_to_json t = Some ms" "target_to_json t' = Some ms'" "ms @ unknown_member a = ms' @ unknown_member b"
  shows "ms = ms' \<and> a = b"
proof -
  have "\<And>u v. unknown_member u \<noteq> (''pred'', v) # unknown_member w" for w by (simp add: unknown_member_def)
  with assms target_member_cases [OF assms(1)] target_member_cases [OF assms(2)] show ?thesis
    by (auto dest: unknown_member_inject) (auto simp: unknown_member_def split: if_splits)
qed

lemma source_json_inject:
  assumes "source_to_json a = source_to_json b" "so_kind a = Source_Codebase \<Longrightarrow> so_ref a = []"
    "so_kind b = Source_Codebase \<Longrightarrow> so_ref b = []"
  shows "a = b"
  using assms by (cases "so_kind a"; cases "so_kind b") (auto simp: source_to_json_def)

lemma stage_json_op: "stage_to_json s = Some v \<Longrightarrow> \<exists>r. v = op_object (stage_op_name (sg_op s)) r"
  by (cases s) (auto simp del: op_object_inject)

lemma plain_stage_inject:
  assumes "clean_stage s" "clean_stage s'" "stage_to_json s = Some v" "stage_to_json s' = Some v"
    and "sg_op s' = sg_op s" "\<not> has_operand (sg_op s)"
  shows "s = s'"
proof -
  obtain op pred level rel mode mn mx operand fs n unknown inb
    where s: "s = Stage op pred level rel mode mn mx operand fs n unknown inb" by (cases s)
  obtain pred' level' rel' mode' mn' mx' operand' fs' n' unknown' inb'
    where s': "s' = Stage op pred' level' rel' mode' mn' mx' operand' fs' n' unknown' inb'"
    using assms(5) s by (cases s') auto
  note facts = assms(1-4,6) [unfolded s s']
  show ?thesis
  proof (cases "op = Stage_Nodes \<or> op = Stage_Where")
    case True
    with facts(3,4) obtain ms ms' where m: "target_to_json pred = Some ms" "target_to_json pred' = Some ms'"
        "ms @ unknown_member unknown = ms' @ unknown_member unknown'"
      by (auto split: option.splits)
    from target_unknown_inject [OF m] have eq: "ms' = ms" "unknown' = unknown" by auto
    have "pred = pred'" using pred_json_inject(3) [OF _ _ m(1) m(2) [unfolded eq]] facts(1,2) by simp
    with True facts(1,2,5) eq s s' show ?thesis by (auto simp: has_operand_def)
  next
    case False
    with facts s s' show ?thesis
      by (cases op) (auto simp: has_operand_def depth_members_def mode_member_inject split: if_splits)
  qed
qed

lemma plan_json_inject:
  "clean_plan p \<Longrightarrow> clean_plan q \<Longrightarrow> plan_to_json_normalized p = Some v \<Longrightarrow> plan_to_json_normalized q = Some v \<Longrightarrow> p = q"
  "clean_stages ss \<Longrightarrow> clean_stages ts \<Longrightarrow> stages_to_json ss = Some vs \<Longrightarrow> stages_to_json ts = Some vs \<Longrightarrow> ss = ts"
  "clean_stage s \<Longrightarrow> clean_stage t \<Longrightarrow> stage_to_json s = Some v \<Longrightarrow> stage_to_json t = Some v \<Longrightarrow> s = t"
  "clean_operand po \<Longrightarrow> clean_operand qo \<Longrightarrow> operand_to_json po = Some v \<Longrightarrow> operand_to_json qo = Some v \<Longrightarrow> po = qo"
proof (induction p and ss and s and po arbitrary: q v and ts vs and t v and qo v
    rule: plan_to_json_normalized_stages_to_json_stage_to_json_operand_to_json.induct)
  case (1 src stages)
  obtain src' stages' where q: "q = Plan src' stages'" by (cases q)
  with "1.prems" obtain vs where vs: "stages_to_json stages = Some vs" "stages_to_json stages' = Some vs"
      "source_to_json src = source_to_json src'"
    by auto
  with source_json_inject [OF vs(3)] "1.IH" [OF _ _ vs(1,2)] "1.prems"(1,2) q show ?case by (auto split: if_splits)
next
  case 2
  then show ?case by (cases ts) (auto simp: bind_eq_Some_conv)
next
  case (3 s ss)
  from "3.prems"(3) obtain w ws where w: "stage_to_json s = Some w" "stages_to_json ss = Some ws" "vs = w # ws"
    by (auto simp: bind_eq_Some_conv)
  with "3.prems"(4) obtain l ls where l: "ts = l # ls" "stage_to_json l = Some w" "stages_to_json ls = Some ws"
    by (cases ts) (auto simp: bind_eq_Some_conv)
  from l w "3.prems"(1,2) "3.IH"(1) [of l w] "3.IH"(2) [OF w(1), of ls ws] show ?case by simp
next
  case (4 op pred level rel mode mn mx operand fs n unknown inb)
  let ?s = "Stage op pred level rel mode mn mx operand fs n unknown inb"
  have op: "sg_op t = sg_op ?s" using stage_json_op [OF "4.prems"(3)] stage_json_op [OF "4.prems"(4)] by auto
  show ?case
  proof (cases "has_operand op")
    case False
    with plain_stage_inject [OF "4.prems" op] show ?thesis by simp
  next
    case True
    then obtain pred' level' rel' mode' mn' mx' operand' fs' n' unknown' inb'
      where t: "t = Stage op pred' level' rel' mode' mn' mx' operand' fs' n' unknown' inb'"
      using op by (cases t) auto
    show ?thesis
    proof (cases "op = Stage_Path")
      case path: True
      with "4.prems"(3,4) t obtain w w' where w: "operand_to_json operand = Some w" "operand_to_json operand' = Some w'"
        and eq: "[(''relation'', JStr rel)] @ (if inb then [(''direction'', JStr ''in'')] else []) @ depth_members mn mx
            @ count_member ''shortest'' n @ [(''to'', w)]
          = [(''relation'', JStr rel')] @ (if inb' then [(''direction'', JStr ''in'')] else []) @ depth_members mn' mx'
            @ count_member ''shortest'' n' @ [(''to'', w')]"
        by auto
      from eq have e: "rel' = rel" "inb' = inb" "mn' = mn" "mx' = mx" "n' = n" "w' = w"
        by (cases inb; cases inb'; cases "n = 0"; cases "n' = 0"; simp add: depth_members_def count_member_def)+
      have c: "clean_operand operand" "clean_operand operand'" using "4.prems"(1,2) t True by simp_all
      have "operand = operand'" using "4.IH"(4) [OF path c w(1)] w(2) e by simp
      with "4.prems"(1,2) t path True e show ?thesis by simp
    next
      case False
      with True have ops: "op = Stage_Union \<or> op = Stage_Intersect \<or> op = Stage_Except" by (auto simp: has_operand_def)
      with "4.prems"(3,4) t obtain w where w: "operand_to_json operand = Some w" "operand_to_json operand' = Some w" by auto
      have c: "clean_operand operand" "clean_operand operand'" using "4.prems"(1,2) t True by simp_all
      have "operand = operand'"
        using "4.IH"(1) [OF _ c w] "4.IH"(2) [OF _ c w] "4.IH"(3) [OF _ c w] ops by blast
      with "4.prems"(1,2) t ops True show ?thesis by auto
    qed
  qed
next
  case (6 p)
  then obtain q where "qo = Some q" by (cases qo) auto
  with 6 show ?case by auto
qed (auto elim: operand_to_json.elims)

subsection \<open>Validation keeps plans clean\<close>

lemma clean_preds_append [simp]: "clean_preds (ks @ ls) \<longleftrightarrow> clean_preds ks \<and> clean_preds ls"
  by (induction ks) auto

lemma clean_bool_pred:
  "clean_preds ks \<Longrightarrow> is_bool op \<or> op = Op_Not \<and> length ks = 1 \<Longrightarrow> clean_pred (bool_pred op ks)"
  by (auto simp: bool_pred_def is_bool_def)

lemma clean_kids: "clean_pred k \<Longrightarrow> is_bool (pr_op k) \<or> pr_op k = Op_Not \<Longrightarrow> clean_preds (pr_kids k)"
  by (cases k) (auto simp: is_bool_def split: if_splits)

lemma clean_splice: "clean_pred k \<Longrightarrow> is_bool op \<Longrightarrow> clean_preds (splice op k)"
  using clean_kids [of k] by (auto simp: splice_def)

lemma clean_collapse: "clean_preds ks \<Longrightarrow> is_bool op \<Longrightarrow> clean_pred (collapse op ks)"
  by (cases ks) (auto simp: collapse_def clean_bool_pred)

lemma clean_negate:
  assumes "clean_pred k"
  shows "clean_pred (negate k)"
proof (cases "pr_op k = Op_Not")
  case True
  have "clean_preds (pr_kids k)" using clean_kids [OF assms] True by simp
  moreover have "length (pr_kids k) = 1" using assms True by (cases k) (auto simp: is_bool_def bool_pred_def)
  ultimately show ?thesis using True by (auto simp: negate_def length_Suc_conv)
next
  case False
  with assms show ?thesis by (simp add: negate_def clean_bool_pred)
qed

lemma norm_clean:
  "norm_pred cat active p = Inr q \<Longrightarrow> clean_pred p \<Longrightarrow> clean_pred q"
  "norm_kids cat op active ks = Inr qs \<Longrightarrow> is_bool op \<Longrightarrow> clean_preds ks \<Longrightarrow> clean_preds qs"
  "norm_target cat active t = Inr u \<Longrightarrow> clean_target t \<Longrightarrow> clean_target u"
proof (induction cat active p and cat op active ks and cat active t arbitrary: q and qs and u
    rule: norm_pred_norm_kids_norm_target.induct)
  case (1 cat active op kids field strs ival rel target mn mx thr inb)
  consider (bool) "is_bool op" | (neg) "op = Op_Not" | (cmp) "is_cmp op" "\<not> is_bool op" "op \<noteq> Op_Not"
    | (quant) "\<not> is_bool op" "op \<noteq> Op_Not" "\<not> is_cmp op" by blast
  then show ?case
  proof cases
    case bool
    with "1.prems" obtain ks where ks: "kids \<noteq> []" "norm_kids cat op active kids = Inr ks" "q = collapse op ks" "clean_preds kids"
      by (auto simp: bindE_Inr_iff split: if_splits)
    with "1.IH"(1) [OF bool ks(1,2) bool ks(4)] bool show ?thesis by (simp add: clean_collapse)
  next
    case neg
    with "1.prems" obtain k nk where k: "kids = [k]" "norm_pred cat active k = Inr nk" "q = negate nk" "clean_pred k"
      by (auto simp: bindE_Inr_iff is_bool_def split: list.splits)
    with "1.IH"(2) neg have "clean_pred nk" by (auto simp: is_bool_def)
    with k show ?thesis by (simp add: clean_negate)
  next
    case cmp
    with "1.prems" show ?thesis by (auto simp: bindE_Inr_iff)
  next
    case quant
    with "1.prems"(1) obtain r u where r: "resolve_relation cat rel active False = Some r" "\<not> bad_depth mn mx"
        "\<not> (is_counting op \<and> thr < 0)" "norm_target cat (rd_layer r) target = Inr u"
        "q = Pred op kids field strs ival (qualified_name r) u mn mx thr inb"
      by (auto simp: bindE_Inr_iff unknown_relation_def depth_error_def split: option.splits if_splits)
    from quant "1.prems"(2) have c: "clean_target target" by simp
    have "clean_target u" using "1.IH"(3) quant r c by blast
    with r quant "1.prems"(2) show ?thesis by (auto simp: relation_pred_def)
  qed
next
  case (3 cat op active k ks)
  then show ?case by (auto simp: bindE_Inr_iff clean_splice)
qed (auto simp: bindE_Inr_iff)

lemma walk_stage_clean:
  assumes "walk_stage cat s st = Inr (ns, st')" "clean_stage s"
    and "\<And>what np. walk_operand cat what (sg_operand s) st = Inr np \<Longrightarrow> has_operand (sg_op s) \<Longrightarrow> clean_plan np"
  shows "clean_stage ns"
  using assms(1)
proof (cases rule: walk_stage_cases)
  case nodes
  with assms(2) show ?thesis
    by (cases s) (auto simp: walk_nodes_def bindE_Inr_iff has_operand_def dest: norm_clean(3) split: if_splits)
next
  case filter
  with assms(2) show ?thesis
    by (cases s) (auto simp: walk_where_def bindE_Inr_iff has_operand_def dest: norm_clean(1) split: if_splits)
next
  case traverse
  with assms(2) show ?thesis
    by (cases s) (auto simp: walk_traverse_def Let_def unknown_relation_def depth_error_def has_operand_def
        split: if_splits option.splits)
next
  case (set_op np)
  with assms(2,3) show ?thesis by (cases s) (auto simp: has_operand_def)
next
  case (path r np)
  with assms(2,3) show ?thesis by (cases s) (auto simp: has_operand_def)
qed (use assms(2) in simp)

lemma walk_clean:
  "validate_walk cat p st = Inr (q, st') \<Longrightarrow> clean_plan p \<Longrightarrow> clean_plan q"
  "walk_stages cat ss st = Inr (nss, st') \<Longrightarrow> clean_stages ss \<Longrightarrow> clean_stages nss"
  "walk_stage cat s st = Inr (ns, st') \<Longrightarrow> clean_stage s \<Longrightarrow> clean_stage ns"
  "walk_operand cat what po st = Inr np \<Longrightarrow> clean_operand po \<Longrightarrow> clean_plan np"
proof (induction cat p st and cat ss st and cat s st and cat what po st
    arbitrary: q st' and nss st' and ns st' and np rule: validate_walk_walk_stages_walk_stage_walk_operand.induct)
  case (1 cat src stages st)
  from "1.prems" obtain st0 ss where w: "start_walk src st = Inr st0" "walk_stages cat stages st0 = Inr (ss, st')" "q = Plan src ss"
    by (auto simp: bindE_Inr_iff unenumerated_def split: if_splits)
  with "1.IH" [OF w(1,2)] "1.prems"(2) show ?case by simp
next
  case (3 cat s ss st)
  from "3.prems"(1) obtain ns st1 ms where w: "walk_stage cat s st = Inr (ns, st1)" "walk_stages cat ss st1 = Inr (ms, st')"
      "nss = ns # ms"
    by (auto simp: bindE_Inr_iff)
  with "3.IH"(1) [OF w(1)] "3.IH"(2) [OF w(1) refl w(2)] "3.prems"(2) show ?case by simp
next
  case (4 cat op pred level rel mode mn mx operand fs n unknown inb st)
  let ?s = "Stage op pred level rel mode mn mx operand fs n unknown inb"
  note sh = walk_stage_not_scalar [OF "4.prems"(1)]
  have c: "has_operand op \<Longrightarrow> clean_operand operand" using "4.prems"(2) by simp
  show ?case
  proof (cases "has_operand op")
    case False
    with walk_stage_clean [OF "4.prems"] show ?thesis by simp
  next
    case True
    show ?thesis using "4.prems"(1)
    proof (cases rule: walk_stage_cases)
      case (set_op np)
      then have "clean_plan np" using "4.IH"(1-3) [OF refl sh _ set_op(2)] c [OF True] by auto
      with set_op "4.prems"(2) True show ?thesis by (auto simp: has_operand_def)
    next
      case (path r np)
      then have "clean_plan np" using "4.IH"(4) [OF refl sh _ path(2)] c [OF True] by simp
      with path "4.prems"(2) True show ?thesis by auto
    qed (use True "4.prems"(2) in \<open>auto simp: has_operand_def\<close>)
  qed
next
  case (6 cat what p st)
  from "6.prems"(1) obtain sub where w: "validate_walk cat p fresh_walk = Inr (np, sub)" by (auto simp: bindE_Inr_iff)
  with "6.IH" [OF w(1)] "6.prems"(2) show ?case by simp
qed auto

lemma validate_clean: "validate cat p = Inr q \<Longrightarrow> clean_plan p \<Longrightarrow> clean_plan q"
  using walk_clean(1) by (auto simp: validate_def bindE_Inr_iff)

definition printable :: "catalog \<Rightarrow> Plan \<Rightarrow> bool" where
  "printable cat p \<longleftrightarrow>
     (case plan_to_json cat p of Inr (Some v) \<Rightarrow> json_ok v \<and> nesting v \<le> 100 | _ \<Rightarrow> False)"

text \<open>(C15) Canonical JSON identifies a plan: two plans made by the builders have the same canonical text
  exactly when validation normalises them to the same plan, as long as their strings are UTF-8, their
  numbers fit in 64 bits and they nest at most 100 deep.\<close>

theorem canonical_json_identifies:
  assumes "clean_plan p" "clean_plan q" "printable cat p" "printable cat q"
  shows "canonical_json cat p = canonical_json cat q \<longleftrightarrow> validate cat p = validate cat q"
proof
  assume eq: "canonical_json cat p = canonical_json cat q"
  from assms(3) obtain p' v where p: "validate cat p = Inr p'" "plan_to_json_normalized p' = Some v" "json_ok v" "nesting v \<le> 100"
    by (auto simp: printable_def plan_to_json_def bindE_Inr_iff split: sum.splits option.splits)
  from assms(4) obtain q' w where q: "validate cat q = Inr q'" "plan_to_json_normalized q' = Some w" "json_ok w" "nesting w \<le> 100"
    by (auto simp: printable_def plan_to_json_def bindE_Inr_iff split: sum.splits option.splits)
  have "canonical_json cat p = Inr (Some (dumps_indent2 v))" using p(1,2) by (simp add: canonical_json_def plan_to_json_def)
  moreover have "canonical_json cat q = Inr (Some (dumps_indent2 w))" using q(1,2) by (simp add: canonical_json_def plan_to_json_def)
  ultimately have "dumps_indent2 v = dumps_indent2 w" using eq by simp
  with parse_dumps_indent2 [OF p(3,4)] parse_dumps_indent2 [OF q(3,4)] have "v = w" by (metis sum.inject(2))
  then have "p' = q'"
    using plan_json_inject(1) [OF validate_clean [OF p(1) assms(1)] validate_clean [OF q(1) assms(2)] p(2)] q(2) by blast
  with p(1) q(1) show "validate cat p = validate cat q" by simp
qed (simp add: canonical_json_def plan_to_json_def)

lemma canonical_json_defined_witness: "\<exists>t. canonical_json sample_catalog sample_query = Inr (Some t)"
  using sample_query_valid canonical_json_defined by metis

text \<open>Two spellings of one query.\<close>

lemma canonical_json_identifies_witness:
  "canonical_json sample_catalog (Plan (symbol_source ''f'') [out_stage ''calls'' 1 1 Mode_Static])
     = canonical_json sample_catalog (Plan (symbol_source ''f'') [out_stage ''symbol.calls'' 1 1 Mode_Static])
   \<longleftrightarrow> validate sample_catalog (Plan (symbol_source ''f'') [out_stage ''calls'' 1 1 Mode_Static])
     = validate sample_catalog (Plan (symbol_source ''f'') [out_stage ''symbol.calls'' 1 1 Mode_Static])"
proof (rule canonical_json_identifies)
  show "clean_plan (Plan (symbol_source ''f'') [out_stage ''calls'' 1 1 Mode_Static])"
    "clean_plan (Plan (symbol_source ''f'') [out_stage ''symbol.calls'' 1 1 Mode_Static])" by code_simp+
  let ?v = "JObj [(''cxq'', JInt 1), (''source'', JObj [(''kind'', JStr ''symbol''), (''ref'', JStr ''f'')]),
    (''stages'', JArr [JObj [(''op'', JStr ''out''), (''relation'', JStr ''symbol.calls''), (''min_depth'', JInt 1),
      (''max_depth'', JInt 1)]])]"
  have ok: "json_ok ?v" "nesting ?v \<le> 100" by (simp_all add: ascii_valid_utf8 int64_def)
  have "plan_to_json sample_catalog (Plan (symbol_source ''f'') [out_stage ''calls'' 1 1 Mode_Static]) = Inr (Some ?v)"
    "plan_to_json sample_catalog (Plan (symbol_source ''f'') [out_stage ''symbol.calls'' 1 1 Mode_Static]) = Inr (Some ?v)"
    by code_simp+
  with ok show "printable sample_catalog (Plan (symbol_source ''f'') [out_stage ''calls'' 1 1 Mode_Static])"
    "printable sample_catalog (Plan (symbol_source ''f'') [out_stage ''symbol.calls'' 1 1 Mode_Static])"
    by (simp_all only: printable_def sum.case option.case simp_thms)
qed

end
