(* ===== verification/Query_Grammar.thy ===== *)
theory Query_Grammar
  imports Query_Text Query_Json
begin

text \<open>
  The plans that the parser of the textual form returns satisfy \<open>clean_plan\<close>, the condition on builder-shaped
  plans under which canonical JSON identifies a plan (\<^verbatim>\<open>Query_Json\<close>): the fields that a predicate or stage
  does not use have their defaults, at every level of nesting.
\<close>

subsection \<open>What the parser builds\<close>

lemma clean_leaf:
  "clean_pred (eq_str f v)" "clean_pred (ne_str f v)" "clean_pred (eq_int f n)" "clean_pred (eq_bool f b)"
  "clean_pred (glob_pred f v)" "clean_pred (in_list f vs)"
  by (simp_all add: eq_str_def ne_str_def eq_int_def eq_bool_def glob_pred_def in_list_def cmp_pred_def is_cmp_def is_bool_def)

lemma clean_node:
  "clean_pred p \<Longrightarrow> clean_pred (not_pred p)"
  "clean_pred p \<Longrightarrow> clean_pred q \<Longrightarrow> clean_pred (any_of [p, q])"
  "clean_pred p \<Longrightarrow> clean_pred q \<Longrightarrow> clean_pred (all_of [p, q])"
  by (simp_all add: not_pred_def any_of_def all_of_def clean_bool_pred is_bool_def)

lemma literal_clean: "clean_pred (literal_pred b f v)"
  by (auto simp only: literal_pred_def clean_leaf clean_node split: option.splits if_splits)

lemma comparison_clean: "comparison t = Inr p \<Longrightarrow> clean_pred p"
proof -
  have "comparison_ops ops u = Inr p \<Longrightarrow> clean_pred p" for ops u
    by (induction ops u rule: comparison_ops.induct)
      (auto simp: Let_def clean_leaf literal_clean bindE_Inr_iff split: option.splits if_splits)
  then show "comparison t = Inr p \<Longrightarrow> clean_pred p" unfolding comparison_def .
qed

lemma call_pred_clean: "call_pred name t = Inr p \<Longrightarrow> clean_pred p"
  by (auto simp: call_pred_def Let_def clean_leaf literal_clean bindE_Inr_iff split: if_splits)

text \<open>Every predicate the parser returns is built by negation, disjunction and conjunction from calls
  and comparisons.\<close>

lemma predicate_Inr_induct [consumes 1, case_names Not Or And Call Cmp]:
  assumes "predicate e = Inr p" and neg: "\<And>q. P q \<Longrightarrow> P (not_pred q)"
    and disj: "\<And>q r. P q \<Longrightarrow> P r \<Longrightarrow> P (any_of [q, r])" and conj: "\<And>q r. P q \<Longrightarrow> P r \<Longrightarrow> P (all_of [q, r])"
    and call: "\<And>name t q. call_pred name t = Inr q \<Longrightarrow> P q" and cmp: "\<And>t q. comparison t = Inr q \<Longrightarrow> P q"
  shows "P p"
  using assms(1)
proof (induction "length e" arbitrary: e p rule: less_induct)
  case less
  from less.prems obtain t where t: "strip_parens (trim e) = Inr t"
    by (subst (asm) predicate.simps) (auto simp: bindE_Inr_iff)
  from less.prems consider
      (neg) q where "starts_with t ''not ''" "predicate (drop 4 t) = Inr q" "p = not_pred q"
    | (disj) at q r where "find_top_level_keyword t ''or'' = Some at"
        "predicate (take at t) = Inr q" "predicate (drop (at + 2) t) = Inr r" "p = any_of [q, r]"
    | (conj) at q r where "find_top_level_keyword t ''and'' = Some at"
        "predicate (take at t) = Inr q" "predicate (drop (at + 3) t) = Inr r" "p = all_of [q, r]"
    | (leaf) "(\<exists>name. call_pred name t = Inr p) \<or> comparison t = Inr p"
    by (subst (asm) predicate.simps) (auto simp: t bindE_Inr_iff split: if_splits option.splits)
  then show ?case
  proof cases
    case neg
    from less.hyps [OF not_shorter [OF t neg(1)] neg(2)] neg(3) assms(2) show ?thesis by simp
  next
    case disj
    note sh = cut_shorter [OF t disj(1)]
    from less.hyps [OF sh(1) disj(2)] less.hyps [OF _ disj(3)] sh(2) disj(4) assms(3) show ?thesis by simp
  next
    case conj
    note sh = cut_shorter [OF t conj(1)]
    from less.hyps [OF sh(1) conj(2)] less.hyps [OF _ conj(3)] sh(2) conj(4) assms(4) show ?thesis by simp
  next
    case leaf
    with call cmp show ?thesis by blast
  qed
qed

lemma predicate_clean: "predicate e = Inr p \<Longrightarrow> clean_pred p"
  by (induction rule: predicate_Inr_induct) (simp_all add: clean_node call_pred_clean comparison_clean)

lemma clean_stages_append [simp]: "clean_stages (xs @ ys) \<longleftrightarrow> clean_stages xs \<and> clean_stages ys"
  by (induction xs) auto

lemma clean_builders:
  "clean_stage nodes_stage" "clean_stage sites_stage" "clean_stage count_stage" "clean_stage distinct_stage"
  "clean_stage (view_stage v)" "clean_stage (out_stage r mn mx m)" "clean_stage (in_stage r mn mx)"
  "clean_stage (select_stage fs)" "clean_stage (order_by_stage fs)" "clean_stage (limit_stage n)"
  "clean_pred p \<Longrightarrow> clean_stage (nodes_where_stage p u)" "clean_pred p \<Longrightarrow> clean_stage (where_stage p u)"
  by (simp_all add: has_operand_def nodes_stage_def nodes_where_stage_def view_stage_def where_stage_def sites_stage_def
      out_stage_def in_stage_def select_stage_def order_by_stage_def count_stage_def distinct_stage_def limit_stage_def)

lemma if_branches: "(if b then x else y) = Inr s \<Longrightarrow> (x = Inr s \<Longrightarrow> Q) \<Longrightarrow> (y = Inr s \<Longrightarrow> Q) \<Longrightarrow> Q"
  by (simp split: if_splits)

lemma plain_stage_clean: "plain_stage name args = Inr s \<Longrightarrow> clean_stage s"
  unfolding plain_stage_def Let_def
  by (elim if_branches)
    (auto simp: bindE_Inr_iff predicate_clean clean_builders split: option.splits nat.splits)

lemma clean_stages_iff: "clean_stages ss \<longleftrightarrow> (\<forall>s\<in>set ss. clean_stage s)"
  by (induction ss) auto

lemma query_source_clean: "query_source t = Inr src \<Longrightarrow> so_kind src = Source_Codebase \<Longrightarrow> so_ref src = []"
  by (auto simp: query_source_def bindE_Inr_iff codebase_def symbol_source_def entity_source_def split: if_splits)

lemma parse_clean:
  "stage token = Inr s \<Longrightarrow> clean_stage s"
  "parse_cxq t = Inr p \<Longrightarrow> clean_plan p"
proof (induction token and t arbitrary: s and p rule: stage_parse_cxq.induct)
  case (1 token)
  from "1.prems" obtain name args where n: "\<not> starts_with (trim token) ''rank(''"
      "List.find (\<lambda>name. starts_with (trim token) (name @ ''('')) stage_names = Some name"
      "call_parts (trim token) name = Inr args"
    by (subst (asm) stage.simps) (auto simp: Let_def bindE_Inr_iff split: if_splits option.splits)
  show ?case
  proof (cases "name = ''union'' \<or> name = ''intersect'' \<or> name = ''except''")
    case True
    with "1.prems" n obtain q where q: "\<not> length args \<noteq> 1" "parse_cxq (hd args) = Inr q"
        "\<exists>op. has_operand op \<and> op \<notin> {Stage_Path} \<and> s = set_stage op (foldl pipe (Plan (pl_source q) []) (pl_stages q))"
      by (subst (asm) stage.simps)
        (auto simp: Let_def bindE_Inr_iff union_stage_def intersect_stage_def except_stage_def has_operand_def split: if_splits)
    with "1.IH" [OF refl n True q(1,2)] show ?thesis
      by (cases q) (auto simp: foldl_pipe set_stage_def has_operand_def)
  next
    case False
    with "1.prems" n plain_stage_clean show ?thesis
      by (subst (asm) stage.simps) (auto simp: Let_def)
  qed
next
  case (2 t)
  from "2.prems" obtain parts src ss where p: "split_top_level t (CHR ''|'') = Inr parts" "\<not> (parts = [] \<or> hd parts = [])"
      "query_source (trim (hd parts)) = Inr src" "mapE stage (tl parts) = Inr ss" "p = Plan src ss"
    by (subst (asm) parse_cxq.simps) (auto simp: bindE_Inr_iff foldl_pipe split: if_splits)
  have "clean_stages ss" unfolding clean_stages_iff using mapE_Inr_set [OF p(4)] "2.IH" [OF p(1-3)] by blast
  with p(5) query_source_clean [OF p(3)] show ?case by simp
qed

end
