(* ===== verification/Query_Render.thy ===== *)
theory Query_Render
  imports Query_Text Json_Roundtrip
begin

text \<open>
  Texts of queries and what they parse to: a printer for queries whose values need no escapes,
  and the proof that \<^const>\<open>parse_cxq\<close> reads every printed query back.
\<close>

subsection \<open>Balanced texts\<close>

text \<open>Texts with balanced quotes and brackets whose ordinary characters outside them satisfy a
  predicate.\<close>

inductive flat :: "(char \<Rightarrow> bool) \<Rightarrow> string \<Rightarrow> bool" where
  flat_nil: "flat P []"
| flat_plain: "\<not> special c \<Longrightarrow> P c \<Longrightarrow> flat P s \<Longrightarrow> flat P (c # s)"
| flat_quote: "dquote \<notin> set body \<Longrightarrow> backslash_char \<notin> set body \<Longrightarrow> flat P s \<Longrightarrow> flat P (dquote # body @ dquote # s)"
| flat_parens: "flat (\<lambda>_. True) t \<Longrightarrow> flat P s \<Longrightarrow> flat P (CHR ''('' # t @ CHR '')'' # s)"
| flat_brackets: "flat (\<lambda>_. True) t \<Longrightarrow> flat P s \<Longrightarrow> flat P (CHR ''['' # t @ CHR '']'' # s)"

lemma flat_append: "flat P s \<Longrightarrow> flat P t \<Longrightarrow> flat P (s @ t)"
  by (induction rule: flat.induct) (auto intro: flat.intros)

lemma flat_mono: "flat P s \<Longrightarrow> (\<And>c. P c \<Longrightarrow> Q c) \<Longrightarrow> flat Q s"
  by (induction rule: flat.induct) (auto intro: flat.intros)

lemma flat_word: "\<forall>c\<in>set s. \<not> special c \<and> P c \<Longrightarrow> flat P s"
  by (induction s) (auto intro: flat.intros)

definition outside :: "lexer \<Rightarrow> bool" where
  "outside st \<longleftrightarrow> lx_quote st = None \<and> 0 \<le> lx_parens st \<and> 0 \<le> lx_brackets st"

definition level0 :: "lexer \<Rightarrow> bool" where
  "level0 st \<longleftrightarrow> lx_parens st = 0 \<and> lx_brackets st = 0"

text \<open>Running the scanner over a text: the state and whether a delimiter occurs at the top.\<close>

fun top_free :: "(char \<Rightarrow> bool) \<Rightarrow> lexer \<Rightarrow> string \<Rightarrow> bool" where
  "top_free P st [] = True"
| "top_free P st (c # s) = ((at_top st c \<longrightarrow> P c) \<and> top_free P (lex_step c st) s)"

lemma top_free_append: "top_free P st (s @ t) \<longleftrightarrow> top_free P st s \<and> top_free P (fold lex_step s st) t"
  by (induction s arbitrary: st) auto

lemma in_quote_body:
  assumes "lx_quote st = Some dquote" "lx_prev st \<noteq> Some backslash_char" "dquote \<notin> set body" "backslash_char \<notin> set body"
  shows "top_free P st body \<and> lx_quote (fold lex_step body st) = Some dquote
    \<and> lx_prev (fold lex_step body st) \<noteq> Some backslash_char
    \<and> lx_parens (fold lex_step body st) = lx_parens st \<and> lx_brackets (fold lex_step body st) = lx_brackets st"
  using assms
proof (induction body arbitrary: st)
  case (Cons c body)
  have s: "lex_step c st = st\<lparr>lx_prev := Some c\<rparr>" using Cons.prems by (cases st) (auto simp: lex_step_def)
  have "top_free P (lex_step c st) body \<and> lx_quote (fold lex_step body (lex_step c st)) = Some dquote
    \<and> lx_prev (fold lex_step body (lex_step c st)) \<noteq> Some backslash_char
    \<and> lx_parens (fold lex_step body (lex_step c st)) = lx_parens (lex_step c st)
    \<and> lx_brackets (fold lex_step body (lex_step c st)) = lx_brackets (lex_step c st)"
    by (rule Cons.IH) (use Cons.prems in \<open>auto simp: s\<close>)
  with Cons.prems(1) show ?case by (simp add: s at_top_def)
qed simp

lemma flat_scan:
  assumes "flat P s" "outside st" "level0 st \<Longrightarrow> \<forall>c. P c \<longrightarrow> Q c"
  shows "top_free Q st s \<and> lx_quote (fold lex_step s st) = None
    \<and> lx_parens (fold lex_step s st) = lx_parens st \<and> lx_brackets (fold lex_step s st) = lx_brackets st"
  using assms
proof (induction P s arbitrary: st rule: flat.induct)
  case (flat_plain c P s)
  have "lex_step c st = st\<lparr>lx_prev := Some c\<rparr>"
    using flat_plain.hyps(1) flat_plain.prems(1) by (auto simp: lex_step_def special_def outside_def)
  with flat_plain.IH [of "lex_step c st"] flat_plain.prems flat_plain.hyps(2) show ?case
    by (auto simp: outside_def level0_def at_top_def)
next
  case (flat_quote body P s)
  define q where "q = lex_step dquote st"
  have q: "lx_quote q = Some dquote" "lx_prev q = Some dquote" "lx_parens q = lx_parens st" "lx_brackets q = lx_brackets st"
    using flat_quote.prems(1) by (auto simp: q_def lex_step_def outside_def)
  define r where "r = fold lex_step body q"
  have r: "top_free Q q body" "lx_quote r = Some dquote" "lx_prev r \<noteq> Some backslash_char"
    "lx_parens r = lx_parens st" "lx_brackets r = lx_brackets st"
    using in_quote_body [of q body Q] q flat_quote.hyps by (auto simp: r_def)
  have n: "lx_quote (lex_step dquote r) = None" "lx_parens (lex_step dquote r) = lx_parens st"
    "lx_brackets (lex_step dquote r) = lx_brackets st"
    using r by (auto simp: lex_step_def)
  from flat_quote.IH [of "lex_step dquote r"] n flat_quote.prems r(1,2) show ?case
    by (auto simp: top_free_append outside_def level0_def at_top_def special_def q_def r_def)
next
  case (flat_parens t P s)
  define q where "q = lex_step (CHR ''('') st"
  have q: "lx_quote q = None" "lx_parens q = lx_parens st + 1" "lx_brackets q = lx_brackets st"
    using flat_parens.prems(1) by (auto simp: q_def lex_step_def outside_def)
  define r where "r = fold lex_step t q"
  have r: "top_free Q q t" "lx_quote r = None" "lx_parens r = lx_parens st + 1" "lx_brackets r = lx_brackets st"
    using flat_parens.IH(1) [of q] q flat_parens.prems(1) by (auto simp: r_def outside_def level0_def)
  have n: "lx_quote (lex_step (CHR '')'') r) = None" "lx_parens (lex_step (CHR '')'') r) = lx_parens st"
    "lx_brackets (lex_step (CHR '')'') r) = lx_brackets st"
    using r by (auto simp: lex_step_def)
  from flat_parens.IH(2) [of "lex_step (CHR '')'') r"] n flat_parens.prems r(1,2) show ?case
    by (auto simp: top_free_append outside_def level0_def at_top_def special_def q_def r_def)
next
  case (flat_brackets t P s)
  define q where "q = lex_step (CHR ''['') st"
  have q: "lx_quote q = None" "lx_parens q = lx_parens st" "lx_brackets q = lx_brackets st + 1"
    using flat_brackets.prems(1) by (auto simp: q_def lex_step_def outside_def)
  define r where "r = fold lex_step t q"
  have r: "top_free Q q t" "lx_quote r = None" "lx_parens r = lx_parens st" "lx_brackets r = lx_brackets st + 1"
    using flat_brackets.IH(1) [of q] q flat_brackets.prems(1) by (auto simp: r_def outside_def level0_def)
  have n: "lx_quote (lex_step (CHR '']'') r) = None" "lx_parens (lex_step (CHR '']'') r) = lx_parens st"
    "lx_brackets (lex_step (CHR '']'') r) = lx_brackets st"
    using r by (auto simp: lex_step_def)
  from flat_brackets.IH(2) [of "lex_step (CHR '']'') r"] n flat_brackets.prems r(1,2) show ?case
    by (auto simp: top_free_append outside_def level0_def at_top_def special_def q_def r_def)
qed (simp add: outside_def)

subsection \<open>Splitting\<close>

lemma split_loop_skip:
  "top_free (\<lambda>c. c \<noteq> d) st s \<Longrightarrow> split_loop d st cur (s @ rest) = split_loop d (fold lex_step s st) (cur @ s) rest"
  by (induction s arbitrary: st cur) auto

definition neutral :: "lexer \<Rightarrow> bool" where
  "neutral st \<longleftrightarrow> lx_quote st = None \<and> lx_parens st = 0 \<and> lx_brackets st = 0"

lemma neutral_lex0 [simp]: "neutral lex0"
  by (simp add: neutral_def lex0_def)

lemma flat_neutral:
  assumes "flat P s" "neutral st" "\<And>c. P c \<Longrightarrow> Q c"
  shows "top_free Q st s" "neutral (fold lex_step s st)"
  using flat_scan [OF assms(1), of st Q] assms(2,3) by (auto simp: neutral_def outside_def level0_def)

lemma split_loop_flat:
  assumes "flat (\<lambda>c. c \<noteq> d) s" "neutral st" "\<not> special d"
  shows "split_loop d st cur s = Inr [trim (cur @ s)]"
    and "split_loop d st cur (s @ d # rest) =
      bindE (split_loop d (lex_step d (fold lex_step s st)) [] rest) (\<lambda>parts. Inr (trim (cur @ s) # parts))"
proof -
  have skip: "split_loop d st cur (s @ r) = split_loop d (fold lex_step s st) (cur @ s) r" for r
    by (rule split_loop_skip, rule flat_neutral(1) [OF assms(1,2)])
  have n: "neutral (fold lex_step s st)" by (rule flat_neutral(2) [OF assms(1,2)])
  show "split_loop d st cur s = Inr [trim (cur @ s)]" using skip [of "[]"] n by (simp add: neutral_def)
  have "at_top (fold lex_step s st) d" using n assms(3) by (simp add: neutral_def at_top_def)
  with skip [of "d # rest"] show "split_loop d st cur (s @ d # rest) =
      bindE (split_loop d (lex_step d (fold lex_step s st)) [] rest) (\<lambda>parts. Inr (trim (cur @ s) # parts))" by simp
qed

lemma neutral_step: "neutral st \<Longrightarrow> \<not> special d \<Longrightarrow> neutral (lex_step d st)"
  by (auto simp: neutral_def lex_step_def special_def)

text \<open>Joining flat pieces with a delimiter and splitting the result gives the pieces back,
  without the spaces around them.\<close>

fun join_with :: "string \<Rightarrow> string list \<Rightarrow> string" where
  "join_with d [] = []"
| "join_with d [s] = s"
| "join_with d (s # t # ss) = s @ d @ join_with d (t # ss)"

lemma split_join:
  assumes "\<not> special d" "neutral st" "\<forall>s\<in>set ss. flat (\<lambda>c. c \<noteq> d) s" "ss \<noteq> []"
  shows "split_loop d st [] (join_with [d] ss) = Inr (map trim ss)"
  using assms
proof (induction "[d]" ss arbitrary: st rule: join_with.induct)
  case (2 s)
  then show ?case using split_loop_flat(1) [of d s st "[]"] by simp
next
  case (3 s t ss)
  let ?n = "lex_step d (fold lex_step s st)"
  have n: "neutral ?n" using 3 flat_neutral(2) [of _ s st "\<lambda>_. True"] by (auto intro!: neutral_step)
  with 3 have "split_loop d ?n [] (join_with [d] (t # ss)) = Inr (map trim (t # ss))" by simp
  with 3 split_loop_flat(2) [of d s st "[]" "join_with [d] (t # ss)"] show ?case by simp
qed simp

subsection \<open>Trimming, values and calls\<close>

definition tight :: "string \<Rightarrow> bool" where
  "tight s \<longleftrightarrow> s \<noteq> [] \<and> \<not> is_space (hd s) \<and> \<not> is_space (last s)"

abbreviation blank :: "string \<Rightarrow> bool" where
  "blank s \<equiv> list_all is_space s"

lemma dropWhile_blank: "blank s \<Longrightarrow> dropWhile is_space (s @ t) = dropWhile is_space t"
  by (induction s) auto

lemma trim_pad: "blank a \<Longrightarrow> blank b \<Longrightarrow> tight s \<Longrightarrow> trim (a @ s @ b) = s"
proof -
  assume ab: "blank a" "blank b" and t: "tight s"
  then obtain c r where s: "s = c # r" by (cases s) (auto simp: tight_def)
  then have 1: "dropWhile is_space (a @ s @ b) = s @ b" using t ab by (simp add: dropWhile_blank tight_def)
  obtain m l where m: "s = m @ [l]" using s rev_exhaust [of s] by blast
  moreover have "blank (rev b)" using ab by (simp add: list_all_iff)
  ultimately have "dropWhile is_space (rev (s @ b)) = rev s" using t by (simp add: dropWhile_blank tight_def)
  with 1 show ?thesis by (simp add: trim_def)
qed

lemma trim_tight [simp]: "tight s \<Longrightarrow> trim s = s"
  using trim_pad [of "[]" "[]"] by simp

lemma trim_not_Nil: "c \<in> set s \<Longrightarrow> \<not> is_space c \<Longrightarrow> trim s \<noteq> []"
  unfolding trim_def by (auto simp: dropWhile_eq_Nil_conv) (metis Un_iff set_append set_dropWhileD set_takeWhileD takeWhile_dropWhile_id)

definition spaced :: "string \<Rightarrow> string \<Rightarrow> string" where
  "spaced sp s = sp @ s @ sp"

lemma trim_pad' [simp]: "blank sp \<Longrightarrow> tight s \<Longrightarrow> trim (spaced sp s) = s"
  by (simp add: spaced_def trim_pad)

lemma is_space_cases: "is_space c \<Longrightarrow> \<not> special c \<and> c \<noteq> CHR '','' \<and> c \<noteq> CHR ''|''"
  by (auto simp: is_space_def special_def)

lemma flat_blank: "blank s \<Longrightarrow> flat (\<lambda>c. c \<noteq> CHR '','' \<and> c \<noteq> CHR ''|'') s"
  by (rule flat_word) (use is_space_cases in \<open>auto simp: list_all_iff\<close>)

abbreviation piece :: "string \<Rightarrow> bool" where
  "piece \<equiv> flat (\<lambda>c. c \<noteq> CHR '','' \<and> c \<noteq> CHR ''|'')"

lemma piece_comma: "piece s \<Longrightarrow> flat (\<lambda>c. c \<noteq> CHR '','') s"
  and piece_pipe: "piece s \<Longrightarrow> flat (\<lambda>c. c \<noteq> CHR ''|'') s"
  and piece_any: "piece s \<Longrightarrow> flat (\<lambda>_. True) s"
  by (auto elim: flat_mono)

lemma flat_pad: "blank sp \<Longrightarrow> flat (\<lambda>c. c \<noteq> CHR '','') s \<Longrightarrow> flat (\<lambda>c. c \<noteq> CHR '','') (spaced sp s)"
  by (simp add: spaced_def flat_append piece_comma [OF flat_blank])

lemma flat_any: "flat P s \<Longrightarrow> flat (\<lambda>_. True) s"
  by (auto elim: flat_mono)

lemma flat_join: "\<not> special d \<Longrightarrow> \<forall>s\<in>set ss. flat (\<lambda>_. True) s \<Longrightarrow> flat (\<lambda>_. True) (join_with [d] ss)"
  by (induction "[d]" ss rule: join_with.induct) (auto intro!: flat_append flat_plain intro: flat.intros)

definition call_text :: "string \<Rightarrow> string \<Rightarrow> string list \<Rightarrow> string" where
  "call_text sp name args = name @ ''('' @ join_with '','' (map (spaced sp) args) @ '')''"

definition arg_ok :: "string \<Rightarrow> bool" where
  "arg_ok s \<longleftrightarrow> tight s \<and> flat (\<lambda>c. c \<noteq> CHR '','') s"

definition unit_ok :: "string \<Rightarrow> bool" where
  "unit_ok s \<longleftrightarrow> tight s \<and> piece s"

lemma unit_arg: "unit_ok s \<Longrightarrow> arg_ok s"
  by (simp add: unit_ok_def arg_ok_def piece_comma)

lemma special_separators [simp]: "\<not> special (CHR '','')" "\<not> special (CHR ''|'')"
  by (simp_all add: special_def)

lemma split_args:
  assumes "blank sp" "list_all arg_ok args" "args \<noteq> []"
  shows "split_top_level (join_with '','' (map (spaced sp) args)) (CHR '','') = Inr args"
proof -
  have "split_loop (CHR '','') lex0 [] (join_with '','' (map (spaced sp) args)) = Inr (map trim (map (spaced sp) args))"
    by (rule split_join) (use assms in \<open>auto simp: arg_ok_def list_all_iff intro!: flat_pad\<close>)
  also have "map trim (map (spaced sp) args) = args"
    using assms by (auto simp: arg_ok_def list_all_iff intro!: map_idI)
  finally show ?thesis by (simp add: split_top_level_def)
qed

lemma join_not_blank:
  assumes "list_all arg_ok args" "args \<noteq> []"
  shows "trim (join_with '','' (map (spaced sp) args)) \<noteq> []"
proof -
  obtain a as where a: "args = a # as" "tight a" using assms by (cases args) (auto simp: arg_ok_def)
  then have "hd a \<in> set (join_with '','' (map (spaced sp) args))" "\<not> is_space (hd a)"
    by (cases as; auto simp: spaced_def tight_def)+
  then show ?thesis by (rule trim_not_Nil)
qed

lemma tight_call: "tight name \<Longrightarrow> tight (call_text sp name args)"
  by (auto simp: tight_def call_text_def is_space_def)

lemma call_parts_text:
  assumes "blank sp" "list_all arg_ok args" "tight name"
  shows "call_parts (call_text sp name args) name = Inr args"
proof -
  define ins where "ins = join_with '','' (map (spaced sp) args)"
  have v: "call_text sp name args = name @ CHR ''('' # ins @ '')''" by (simp add: call_text_def ins_def)
  have "starts_with (name @ CHR ''('' # ins @ '')'') (name @ ''('')" by (auto simp: starts_with_iff)
  moreover have "take (length (name @ CHR ''('' # ins @ '')'') - length name - 2) (drop (length name + 1) (name @ CHR ''('' # ins @ '')'')) = ins"
    by simp
  moreover have "args = [] \<Longrightarrow> trim ins = []" by (simp add: ins_def trim_def)
  moreover have "args \<noteq> [] \<Longrightarrow> trim ins \<noteq> []" using join_not_blank [OF assms(2)] by (simp add: ins_def)
  moreover have "trim (name @ CHR ''('' # ins @ '')'') = name @ CHR ''('' # ins @ '')''"
    using trim_tight [OF tight_call [OF assms(3), of sp args]] by (simp add: v)
  moreover have "args \<noteq> [] \<Longrightarrow> split_top_level ins (CHR '','') = Inr args" using split_args [OF assms(1,2)] by (simp add: ins_def)
  ultimately show ?thesis
    unfolding call_parts_def v Let_def by (cases "args = []") (simp_all add: ends_with_char_def)
qed

lemma flat_call_args:
  assumes "blank sp" "list_all arg_ok args"
  shows "flat P (''('' @ join_with '','' (map (spaced sp) args) @ '')'')"
proof -
  have "flat (\<lambda>_. True) (join_with '','' (map (spaced sp) args))"
    by (rule flat_join) (use assms in \<open>auto simp: arg_ok_def list_all_iff intro!: flat_any [OF flat_pad]\<close>)
  from flat_parens [OF this flat_nil] show ?thesis by simp
qed

subsection \<open>Predicates as text\<close>

text \<open>Values are printed in double quotes; they may hold any character but the quote and the backslash.\<close>

definition plain :: "string \<Rightarrow> bool" where
  "plain v \<longleftrightarrow> dquote \<notin> set v \<and> backslash_char \<notin> set v"

definition qv :: "string \<Rightarrow> string" where
  "qv v = dquote # v @ [dquote]"

lemma qv_arg: "plain v \<Longrightarrow> arg_ok (qv v)"
  using flat_quote [OF _ _ flat_nil] by (auto simp: arg_ok_def tight_def qv_def plain_def is_space_def)

lemma atom_qv [simp]: "atom (qv v) = v"
proof -
  have "tight (qv v)" by (simp add: tight_def qv_def is_space_def)
  then show ?thesis by (simp add: atom_def quoted_def qv_def)
qed

lemma digit_plain: "is_digit c \<Longrightarrow> \<not> is_space c \<and> \<not> special c \<and> c \<noteq> CHR '','' \<and> c \<noteq> CHR ''|'' \<and> c \<noteq> CHR ''-'' \<and> c \<noteq> dquote \<and> c \<noteq> squote"
  by (auto simp: is_digit_def less_eq_char_def is_space_def special_def)

lemma show_int_chars: "c \<in> set (show_int n) \<Longrightarrow> is_digit c \<or> c = CHR ''-''"
  by (auto simp: show_int_def dest: show_nat_digits split: if_splits)

lemma show_int_not_Nil [simp]: "show_int n \<noteq> []"
  by (simp add: show_int_def)

lemma show_int_arg: "arg_ok (show_int n)"
proof -
  have c: "\<not> is_space c \<and> \<not> special c \<and> c \<noteq> CHR '','' \<and> c \<noteq> CHR ''|''" if "c \<in> set (show_int n)" for c
  proof (cases "is_digit c")
    case True
    then show ?thesis using digit_plain by blast
  next
    case False
    then have "c = CHR ''-''" using show_int_chars [OF that] by blast
    then show ?thesis by (simp add: is_space_def special_def)
  qed
  then have "tight (show_int n)" unfolding tight_def by (simp add: hd_in_set last_in_set)
  with c show ?thesis by (auto simp: arg_ok_def intro!: flat_word)
qed

lemma integer_show [simp]: "int64 n \<Longrightarrow> integer (show_int n) = Some n"
proof -
  assume n: "int64 n"
  have t: "trim (show_int n) = show_int n" using show_int_arg by (simp add: arg_ok_def)
  have d: "list_all is_digit (show_nat k)" for k using show_nat_digits by (auto simp: list_all_iff)
  have "hd (show_nat k) \<noteq> CHR ''-''" for k using d [of k] digit_plain by (cases "show_nat k") auto
  then have "whole_int (show_int n) = Some n"
    using n d by (cases "n < 0") (simp_all add: whole_int_def show_int_def int64_def)
  then show ?thesis by (simp add: integer_def t)
qed

lemma atom_show_int [simp]: "atom (show_int n) = show_int n"
proof -
  have "hd (show_int n) \<noteq> dquote" "hd (show_int n) \<noteq> squote"
    using show_int_chars [of "hd (show_int n)" n] digit_plain [of "hd (show_int n)"] by auto
  then show ?thesis using show_int_arg [of n] by (simp add: atom_def quoted_def arg_ok_def)
qed

lemma show_int_not_truth: "show_int n \<noteq> ''true''" "show_int n \<noteq> ''false''"
  using show_int_chars [of "hd (show_int n)" n] by (auto simp: is_digit_def less_eq_char_def)

datatype lit = L_Eq string string | L_Ne string string | L_Int string int | L_Glob string string | L_In string "string list"

definition word_value :: "string \<Rightarrow> bool" where
  "word_value v \<longleftrightarrow> plain v \<and> v \<noteq> ''true'' \<and> v \<noteq> ''false'' \<and> integer v = None"

fun lit_ok :: "lit \<Rightarrow> bool" where
  "lit_ok (L_Eq f v) \<longleftrightarrow> plain f \<and> word_value v"
| "lit_ok (L_Ne f v) \<longleftrightarrow> plain f \<and> word_value v"
| "lit_ok (L_Int f n) \<longleftrightarrow> plain f \<and> int64 n"
| "lit_ok (L_Glob f v) \<longleftrightarrow> plain f \<and> plain v"
| "lit_ok (L_In f vs) \<longleftrightarrow> plain f \<and> vs \<noteq> [] \<and> list_all plain vs"

fun lit_pred :: "lit \<Rightarrow> Pred" where
  "lit_pred (L_Eq f v) = eq_str f v"
| "lit_pred (L_Ne f v) = ne_str f v"
| "lit_pred (L_Int f n) = eq_int f n"
| "lit_pred (L_Glob f v) = glob_pred f v"
| "lit_pred (L_In f vs) = in_list f vs"

definition list_text :: "string \<Rightarrow> string list \<Rightarrow> string" where
  "list_text sp vs = ''['' @ join_with '','' (map (spaced sp) (map qv vs)) @ '']''"

fun lit_name :: "lit \<Rightarrow> string" where
  "lit_name (L_Eq f v) = ''eq''"
| "lit_name (L_Ne f v) = ''ne''"
| "lit_name (L_Int f n) = ''eq''"
| "lit_name (L_Glob f v) = ''glob''"
| "lit_name (L_In f vs) = ''in''"

fun lit_args :: "string \<Rightarrow> lit \<Rightarrow> string list" where
  "lit_args sp (L_Eq f v) = [qv f, qv v]"
| "lit_args sp (L_Ne f v) = [qv f, qv v]"
| "lit_args sp (L_Int f n) = [qv f, show_int n]"
| "lit_args sp (L_Glob f v) = [qv f, qv v]"
| "lit_args sp (L_In f vs) = [qv f, list_text sp vs]"

definition lit_text :: "string \<Rightarrow> lit \<Rightarrow> string" where
  "lit_text sp l = call_text sp (lit_name l) (lit_args sp l)"

lemma values_arg: "list_all plain vs \<Longrightarrow> list_all arg_ok (map qv vs)"
  by (auto simp: list_all_iff qv_arg)

lemma list_text_arg:
  assumes "blank sp" "list_all plain vs"
  shows "arg_ok (list_text sp vs)"
proof -
  have "flat (\<lambda>_. True) (join_with '','' (map (spaced sp) (map qv vs)))"
    by (rule flat_join) (use assms values_arg [OF assms(2)] in \<open>auto simp: arg_ok_def list_all_iff intro!: flat_any [OF flat_pad]\<close>)
  from flat_brackets [OF this flat_nil] show ?thesis by (simp add: list_text_def arg_ok_def tight_def is_space_def)
qed

lemma list_values_text:
  assumes "blank sp" "list_all plain vs" "vs \<noteq> []"
  shows "list_values (list_text sp vs) = Inr vs"
proof -
  define ins where "ins = join_with '','' (map (spaced sp) (map qv vs))"
  have t: "trim (list_text sp vs) = list_text sp vs" using list_text_arg [OF assms(1,2)] by (simp add: arg_ok_def)
  have v: "list_text sp vs = CHR ''['' # ins @ '']''" by (simp add: list_text_def ins_def)
  have "trim ins \<noteq> []" "split_top_level ins (CHR '','') = Inr (map qv vs)"
    using join_not_blank [OF values_arg] split_args [OF assms(1) values_arg] assms(2,3) by (simp_all add: ins_def del: map_map)
  then show ?thesis unfolding list_values_def Let_def t unfolding v by (simp add: comp_def)
qed

lemma lit_args_ok: "blank sp \<Longrightarrow> lit_ok l \<Longrightarrow> list_all arg_ok (lit_args sp l)"
  by (cases l) (auto simp: qv_arg list_text_arg show_int_arg word_value_def)

lemma lit_name_cases: "lit_name l \<in> {''eq'', ''ne'', ''glob'', ''in''}"
  by (cases l) auto

lemma tight_lit_name: "tight (lit_name l)"
  by (cases l) (auto simp: tight_def is_space_def)

lemma call_pred_lit:
  assumes "blank sp" "lit_ok l"
  shows "call_pred (lit_name l) (lit_text sp l) = Inr (lit_pred l)"
  using call_parts_text [OF assms(1) lit_args_ok [OF assms] tight_lit_name [of l]] assms
  by (cases l) (auto simp: call_pred_def lit_text_def literal_pred_def word_value_def list_values_text show_int_not_truth)

text \<open>Where the scanner for a keyword finds nothing.\<close>

fun kw_free :: "string \<Rightarrow> lexer \<Rightarrow> string \<Rightarrow> string \<Rightarrow> bool" where
  "kw_free kw st [] rest = True"
| "kw_free kw st (c # s) rest = (\<not> (at_top st c \<and> keyword_here kw st (c # s @ rest)) \<and> kw_free kw (lex_step c st) s rest)"

lemma kw_free_append: "kw_free kw st (s @ t) rest \<longleftrightarrow> kw_free kw st s (t @ rest) \<and> kw_free kw (fold lex_step s st) t rest"
  by (induction s arbitrary: st) auto

lemma keyword_none: "kw_free kw st s [] \<Longrightarrow> keyword_loop kw st i s = None"
  by (induction s arbitrary: st i) auto

lemma keyword_skip:
  "kw_free kw st s rest \<Longrightarrow> length kw \<le> length rest \<Longrightarrow>
    keyword_loop kw st i (s @ rest) = keyword_loop kw (fold lex_step s st) (i + length s) rest"
  by (induction s arbitrary: st i) auto

lemma kw_free_top: "top_free (\<lambda>_. False) st s \<Longrightarrow> kw_free kw st s rest"
  by (induction s arbitrary: st) auto

lemma kw_free_closed: "flat (\<lambda>_. False) s \<Longrightarrow> neutral st \<Longrightarrow> kw_free kw st s rest"
  using flat_neutral(1) [of "\<lambda>_. False" s st "\<lambda>_. False"] by (simp add: kw_free_top)

lemma kw_free_word:
  "lx_prev st = Some p \<Longrightarrow> \<not> is_space p \<Longrightarrow> \<forall>c\<in>set s. \<not> is_space c \<and> \<not> special c \<Longrightarrow> lx_quote st = None \<Longrightarrow> kw_free kw st s rest"
proof (induction s arbitrary: st p)
  case (Cons c s)
  have "lex_step c st = st\<lparr>lx_prev := Some c\<rparr>" using Cons.prems by (auto simp: lex_step_def special_def)
  with Cons show ?case by (simp add: keyword_here_def)
qed simp

text \<open>A call starts with a word, which is no keyword, and goes on with a bracketed text.\<close>

lemma kw_free_call:
  assumes "flat (\<lambda>_. False) seg" "\<forall>c\<in>set (n # name). \<not> is_space c \<and> \<not> special c" "k \<noteq> n"
  shows "kw_free (k # kw) lex0 ((n # name) @ seg) rest" "neutral (fold lex_step ((n # name) @ seg) lex0)"
proof -
  have st: "lex_step n lex0 = lex0\<lparr>lx_prev := Some n\<rparr>" using assms(2) by (auto simp: lex_step_def special_def lex0_def)
  have w: "neutral (fold lex_step (n # name) lex0)"
    by (rule flat_neutral(2) [where P = "\<lambda>_. True" and Q = "\<lambda>_. True"]) (use assms(2) in \<open>auto intro!: flat_word\<close>)
  have "kw_free (k # kw) lex0 (n # name) (seg @ rest)"
    using kw_free_word [of "lex_step n lex0" n name] assms(2,3) st by (simp add: keyword_here_def lex0_def)
  with kw_free_closed [OF assms(1) w] show "kw_free (k # kw) lex0 ((n # name) @ seg) rest"
    unfolding kw_free_append by blast
  from flat_neutral(2) [OF assms(1) w, of "\<lambda>_. True"] show "neutral (fold lex_step ((n # name) @ seg) lex0)" by simp
qed

lemma neutral_blank: "neutral st \<Longrightarrow> neutral (lex_step (CHR '' '') st)" "neutral st \<Longrightarrow> lx_prev (lex_step (CHR '' '') st) = Some (CHR '' '')"
  by (auto simp: neutral_def lex_step_def)

lemma keyword_found:
  assumes "neutral st" "k # kw \<noteq> []" "\<not> special k" "\<not> is_space k"
  shows "keyword_loop (k # kw) st i ('' '' @ (k # kw) @ '' '' @ rest) = Some (i + 1)"
proof -
  have "at_top (lex_step (CHR '' '') st) k" using neutral_blank(1) [OF assms(1)] assms(3) by (simp add: at_top_def neutral_def)
  moreover have "is_space (CHR '' '')" by (simp add: is_space_def)
  moreover have "keyword_here (k # kw) (lex_step (CHR '' '') st) ((k # kw) @ '' '' @ rest)"
    using neutral_blank(2) [OF assms(1)] by (simp add: keyword_here_def is_space_def)
  ultimately show ?thesis using assms(4) by (auto simp: keyword_here_def)
qed

lemma other_keyword: "neutral st \<Longrightarrow> kw_free ''or'' st '' and '' rest"
  by (simp add: keyword_here_def)

lemma predicate_trim: "trim s = trim t \<Longrightarrow> predicate s = predicate t"
  by (subst (1 2) predicate.simps) simp

lemma strip_parens_id: "hd t \<noteq> CHR ''('' \<Longrightarrow> strip_parens t = Inr t"
  by (subst strip_parens.simps) simp

lemma predicate_parens:
  assumes "tight t" "hd t \<noteq> CHR ''(''" "flat (\<lambda>c. c \<noteq> CHR '','') t"
  shows "predicate (''('' @ t @ '')'') = predicate t"
proof -
  have p: "tight (''('' @ t @ '')'')" by (simp add: tight_def is_space_def)
  have "split_top_level t (CHR '','') = Inr [t]"
    using split_loop_flat(1) [OF assms(3) neutral_lex0, of "[]"] assms(1) by (simp add: split_top_level_def)
  then have "strip_parens (''('' @ t @ '')'') = Inr t"
    by (subst strip_parens.simps) (use assms in \<open>simp add: strip_parens_id\<close>)
  with p assms(1,2) show ?thesis by (subst (1 2) predicate.simps) (simp add: strip_parens_id)
qed

datatype expr = E_Lit lit | E_And lit expr | E_Or lit expr | E_Not expr

fun expr_ok :: "expr \<Rightarrow> bool" where
  "expr_ok (E_Lit l) \<longleftrightarrow> lit_ok l"
| "expr_ok (E_And l e) \<longleftrightarrow> lit_ok l \<and> expr_ok e"
| "expr_ok (E_Or l e) \<longleftrightarrow> lit_ok l \<and> expr_ok e"
| "expr_ok (E_Not e) \<longleftrightarrow> expr_ok e"

fun expr_text :: "string \<Rightarrow> expr \<Rightarrow> string" where
  "expr_text sp (E_Lit l) = lit_text sp l"
| "expr_text sp (E_And l e) = lit_text sp l @ '' and '' @ ''('' @ expr_text sp e @ '')''"
| "expr_text sp (E_Or l e) = lit_text sp l @ '' or '' @ ''('' @ expr_text sp e @ '')''"
| "expr_text sp (E_Not e) = ''not '' @ ''('' @ expr_text sp e @ '')''"

fun expr_pred :: "expr \<Rightarrow> Pred" where
  "expr_pred (E_Lit l) = lit_pred l"
| "expr_pred (E_And l e) = all_of [lit_pred l, expr_pred e]"
| "expr_pred (E_Or l e) = any_of [lit_pred l, expr_pred e]"
| "expr_pred (E_Not e) = not_pred (expr_pred e)"

lemma starts_with_call:
  assumes "CHR ''('' \<notin> set m" "CHR ''('' \<notin> set n"
  shows "starts_with (n @ CHR ''('' # r) (m @ ''('') \<longleftrightarrow> m = n"
proof
  assume "starts_with (n @ CHR ''('' # r) (m @ ''('')"
  then obtain t where "n @ CHR ''('' # r = m @ CHR ''('' # t" by (auto simp: starts_with_iff)
  then have "takeWhile (\<lambda>c. c \<noteq> CHR ''('') (n @ CHR ''('' # r) = takeWhile (\<lambda>c. c \<noteq> CHR ''('') (m @ CHR ''('' # t)" by simp
  moreover have "takeWhile (\<lambda>c. c \<noteq> CHR ''('') (u @ CHR ''('' # v) = u" if "CHR ''('' \<notin> set u" for u v
    using that by (subst takeWhile_append2) auto
  ultimately show "m = n" using assms by simp
qed (auto simp: starts_with_iff)

lemma find_call:
  "m \<in> set names \<Longrightarrow> \<forall>n\<in>set names. CHR ''('' \<notin> set n \<Longrightarrow>
    List.find (\<lambda>n. starts_with (call_text sp m args) (n @ ''('')) names = Some m"
  by (induction names) (auto simp: call_text_def starts_with_call)

definition name_ok :: "string \<Rightarrow> bool" where
  "name_ok n \<longleftrightarrow> n \<noteq> [] \<and> (\<forall>c\<in>set n. \<not> is_space c \<and> \<not> special c \<and> c \<noteq> CHR '','' \<and> c \<noteq> CHR ''|'')"

lemma name_tight: "name_ok n \<Longrightarrow> tight n"
  by (simp add: name_ok_def tight_def)

lemma call_arg:
  assumes "blank sp" "name_ok n" "list_all arg_ok args"
  shows "unit_ok (call_text sp n args)"
proof -
  have "piece n" using assms(2) by (auto simp: name_ok_def intro!: flat_word)
  from flat_append [OF this flat_call_args [OF assms(1,3)]] tight_call [OF name_tight [OF assms(2)]]
  show ?thesis by (simp add: unit_ok_def call_text_def)
qed

lemma lit_name_ok: "name_ok (lit_name l)" "hd (lit_name l) \<notin> {CHR ''o'', CHR ''a'', CHR ''(''}"
    "\<not> starts_with (lit_name l @ CHR ''('' # r) ''not ''"
  by (cases l; simp add: name_ok_def is_space_def special_def starts_with_def)+

lemma hd_lit_text: "hd (lit_text sp l) = hd (lit_name l)"
  by (cases l) (simp_all add: lit_text_def call_text_def)

lemma lit_arg: "blank sp \<Longrightarrow> lit_ok l \<Longrightarrow> unit_ok (lit_text sp l)"
  unfolding lit_text_def by (intro call_arg lit_name_ok lit_args_ok)

lemma lit_no_keyword:
  assumes "blank sp" "lit_ok l" "k \<in> {CHR ''o'', CHR ''a''}"
  shows "kw_free (k # kw) lex0 (lit_text sp l) rest" "neutral (fold lex_step (lit_text sp l) lex0)"
proof -
  obtain n name where n: "lit_name l = n # name" using lit_name_ok(1) [of l] by (cases "lit_name l") (auto simp: name_ok_def)
  let ?seg = "''('' @ join_with '','' (map (spaced sp) (lit_args sp l)) @ '')''"
  have t: "lit_text sp l = (n # name) @ ?seg" by (simp add: lit_text_def call_text_def n)
  have h: "\<forall>c\<in>set (n # name). \<not> is_space c \<and> \<not> special c" "k \<noteq> n"
    using lit_name_ok(1,2) [of l] assms(3) unfolding n by (auto simp: name_ok_def)
  show "kw_free (k # kw) lex0 (lit_text sp l) rest" "neutral (fold lex_step (lit_text sp l) lex0)"
    unfolding t by (rule kw_free_call [OF flat_call_args [OF assms(1) lit_args_ok [OF assms(1,2)]] h])+
qed

lemma not_prefix_lit: "\<not> starts_with (lit_text sp l @ r) ''not ''"
  using lit_name_ok(3) by (simp add: lit_text_def call_text_def)

lemma predicate_lit:
  assumes "blank sp" "lit_ok l"
  shows "predicate (lit_text sp l) = Inr (lit_pred l)"
proof -
  have a: "trim (lit_text sp l) = lit_text sp l" using lit_arg [OF assms] by (simp add: unit_ok_def)
  have s: "strip_parens (lit_text sp l) = Inr (lit_text sp l)"
    by (rule strip_parens_id) (use lit_name_ok(2) [of l] in \<open>simp add: hd_lit_text\<close>)
  have k: "find_top_level_keyword (lit_text sp l) ''or'' = None" "find_top_level_keyword (lit_text sp l) ''and'' = None"
    unfolding find_top_level_keyword_def by (rule keyword_none, rule lit_no_keyword(1) [OF assms], simp)+
  have f: "List.find (\<lambda>n. starts_with (lit_text sp l) (n @ ''('')) [''eq'', ''ne'', ''glob'', ''in''] = Some (lit_name l)"
    unfolding lit_text_def by (rule find_call) (use lit_name_cases [of l] in auto)
  show ?thesis using not_prefix_lit [of sp l "[]"] call_pred_lit [OF assms]
    by (subst predicate.simps) (simp only: a s k f bindE_simps append_Nil2 if_False option.case)
qed

lemma closed_parens: "piece t \<Longrightarrow> flat P (CHR ''('' # t @ '')'')"
  using flat_parens [OF piece_any flat_nil] by simp

lemma flat_operator: "piece '' and ''" "piece '' or ''" "piece ''not ''"
  by (rule flat_word; simp add: special_def)+

lemma expr_arg:
  assumes "blank sp" "expr_ok e"
  shows "unit_ok (expr_text sp e) \<and> hd (expr_text sp e) \<noteq> CHR ''(''"
  using assms(2)
proof (induction e)
  case (E_Lit l)
  then show ?case using lit_arg [OF assms(1)] lit_name_ok(2) [of l] by (simp add: hd_lit_text)
next
  case (E_And l e)
  then have l: "tight (lit_text sp l)" "piece (lit_text sp l)" "hd (lit_text sp l) \<noteq> CHR ''(''"
    using lit_arg [OF assms(1)] lit_name_ok(2) [of l] by (auto simp: unit_ok_def hd_lit_text)
  from E_And have "piece (''('' @ expr_text sp e @ '')'')" by (simp add: unit_ok_def closed_parens)
  from flat_append [OF l(2) flat_append [OF flat_operator(1) this]] l show ?case by (simp add: unit_ok_def tight_def is_space_def)
next
  case (E_Or l e)
  then have l: "tight (lit_text sp l)" "piece (lit_text sp l)" "hd (lit_text sp l) \<noteq> CHR ''(''"
    using lit_arg [OF assms(1)] lit_name_ok(2) [of l] by (auto simp: unit_ok_def hd_lit_text)
  from E_Or have "piece (''('' @ expr_text sp e @ '')'')" by (simp add: unit_ok_def closed_parens)
  from flat_append [OF l(2) flat_append [OF flat_operator(2) this]] l show ?case by (simp add: unit_ok_def tight_def is_space_def)
next
  case (E_Not e)
  then have "piece (''('' @ expr_text sp e @ '')'')" by (simp add: unit_ok_def closed_parens)
  from flat_append [OF flat_operator(3) this] show ?case by (simp add: unit_ok_def tight_def is_space_def)
qed

lemma predicate_joined:
  assumes "blank sp" "lit_ok l" "expr_ok e" "kw \<in> {''or'', ''and''}"
  defines "t \<equiv> lit_text sp l @ '' '' @ kw @ '' '' @ ''('' @ expr_text sp e @ '')''"
  shows "predicate t = bindE (predicate (lit_text sp l)) (\<lambda>p. bindE (predicate (expr_text sp e)) (\<lambda>q.
    Inr (if kw = ''or'' then any_of [p, q] else all_of [p, q])))"
proof -
  define seg where "seg = ''('' @ expr_text sp e @ '')''"
  have t: "t = lit_text sp l @ '' '' @ kw @ '' '' @ seg" by (simp add: t_def seg_def)
  have l: "tight (lit_text sp l)" "hd (lit_text sp l) \<noteq> CHR ''(''"
    using lit_arg [OF assms(1,2)] lit_name_ok(2) [of l] by (auto simp: unit_ok_def hd_lit_text)
  have e: "tight (expr_text sp e)" "hd (expr_text sp e) \<noteq> CHR ''(''" "piece (expr_text sp e)"
    using expr_arg [OF assms(1,3)] by (auto simp: unit_ok_def)
  have tt: "tight t" "hd t \<noteq> CHR ''(''" using l by (auto simp: t_def tight_def is_space_def)
  have s: "strip_parens (trim t) = Inr t" using tt by (simp add: strip_parens_id)
  have seg: "flat (\<lambda>_. False) seg" using closed_parens [OF e(3)] by (simp add: seg_def)
  have found: "find_top_level_keyword t kw = Some (length (lit_text sp l) + 1)"
  proof -
    obtain k ks where k: "kw = k # ks" "k \<in> {CHR ''o'', CHR ''a''}" "\<not> special k" "\<not> is_space k"
      using assms(4) by (elim insertE emptyE) (simp_all add: is_space_def special_def)
    have f: "kw_free kw lex0 (lit_text sp l) r" "neutral (fold lex_step (lit_text sp l) lex0)" for r
      unfolding k(1) by (rule lit_no_keyword [OF assms(1,2) k(2)])+
    have "keyword_loop kw st i ('' '' @ kw @ '' '' @ seg) = Some (i + 1)" if "neutral st" for st i
      unfolding k(1) by (rule keyword_found [OF that _ k(3,4)]) simp
    then show ?thesis unfolding find_top_level_keyword_def t
      using keyword_skip [OF f(1), of "'' '' @ kw @ '' '' @ seg" 0] f(2) by simp
  qed
  have none: "find_top_level_keyword t ''or'' = None" if "kw = ''and''"
  proof -
    have n: "neutral (fold lex_step (lit_text sp l) lex0)" by (rule lit_no_keyword(2) [OF assms(1,2), where k = "CHR ''o''"]) simp
    have "neutral (fold lex_step '' and '' (fold lex_step (lit_text sp l) lex0))"
      by (rule flat_neutral(2) [OF flat_operator(1) n]) auto
    then have "kw_free ''or'' lex0 (lit_text sp l @ '' and '' @ seg) []"
      unfolding kw_free_append using lit_no_keyword(1) [OF assms(1,2)] other_keyword [OF n] kw_free_closed [OF seg] by auto
    then have "keyword_loop ''or'' lex0 0 (lit_text sp l @ '' and '' @ seg) = None" by (rule keyword_none)
    then show ?thesis unfolding find_top_level_keyword_def t that by simp
  qed
  have p: "predicate (take (length (lit_text sp l) + 1) t) = predicate (lit_text sp l)"
    by (rule predicate_trim) (use trim_pad [of "[]" "'' ''" "lit_text sp l"] l in \<open>simp add: t is_space_def\<close>)
  have q: "predicate (drop (length (lit_text sp l) + 1 + length kw) t) = predicate (expr_text sp e)"
  proof -
    have "tight seg" by (simp add: seg_def tight_def is_space_def)
    then have "trim ('' '' @ seg) = trim seg" using trim_pad [of "'' ''" "[]" seg] by (simp add: is_space_def)
    then show ?thesis using predicate_trim [of "'' '' @ seg" seg] predicate_parens [OF e(1,2) piece_comma [OF e(3)]]
      by (simp add: t seg_def)
  qed
  have nn: "\<not> starts_with t ''not ''" unfolding t_def by (rule not_prefix_lit)
  from assms(4) show ?thesis
  proof (elim insertE emptyE)
    assume k: "kw = ''or''"
    show ?thesis using p q found nn unfolding k by (subst predicate.simps) (simp add: s)
  next
    assume k: "kw = ''and''"
    show ?thesis using p q found nn none [OF k] unfolding k by (subst predicate.simps) (simp add: s eval_nat_numeral)
  qed
qed

lemma predicate_expr:
  assumes "blank sp" "expr_ok e"
  shows "predicate (expr_text sp e) = Inr (expr_pred e)"
  using assms(2)
proof (induction e)
  case (E_Lit l)
  then show ?case using predicate_lit [OF assms(1)] by simp
next
  case (E_And l e)
  then show ?case using predicate_joined [OF assms(1), of l e "''and''"] predicate_lit [OF assms(1), of l] by simp
next
  case (E_Or l e)
  then show ?case using predicate_joined [OF assms(1), of l e "''or''"] predicate_lit [OF assms(1), of l] by simp
next
  case (E_Not e)
  then have e: "tight (expr_text sp e)" "hd (expr_text sp e) \<noteq> CHR ''(''" "piece (expr_text sp e)"
    using expr_arg [OF assms(1)] by (auto simp: unit_ok_def)
  let ?t = "''not '' @ ''('' @ expr_text sp e @ '')''"
  have "tight ?t" "hd ?t \<noteq> CHR ''(''" by (simp_all add: tight_def is_space_def)
  then have s: "strip_parens (trim ?t) = Inr ?t" by (simp add: strip_parens_id)
  have d: "drop 4 ?t = ''('' @ expr_text sp e @ '')''" "starts_with ?t ''not ''" by (simp_all add: starts_with_def)
  have "predicate ?t = bindE (predicate (drop 4 ?t)) (\<lambda>p. Inr (not_pred p))"
    by (subst predicate.simps) (simp only: s d(2) bindE_simps if_True)
  then show ?case using predicate_parens [OF e(1,2) piece_comma [OF e(3)]] E_Not unfolding d(1) by simp
qed

subsection \<open>Queries as text\<close>

datatype set_op = S_Union | S_Intersect | S_Except

datatype qstage =
    Q_Nodes "expr option" | Q_View_Symbol | Q_View_Entity | Q_Where expr | Q_Out string int int | Q_In string int int
  | Q_Sites | Q_Set set_op query | Q_Select "string list" | Q_OrderBy "string list" | Q_Count | Q_Distinct | Q_Limit int
and query = Query Source "qstage list"

fun set_name :: "set_op \<Rightarrow> string" where
  "set_name S_Union = ''union''"
| "set_name S_Intersect = ''intersect''"
| "set_name S_Except = ''except''"

fun set_stage_of :: "set_op \<Rightarrow> Plan \<Rightarrow> Stage" where
  "set_stage_of S_Union p = union_stage p"
| "set_stage_of S_Intersect p = intersect_stage p"
| "set_stage_of S_Except p = except_stage p"

definition source_ok :: "Source \<Rightarrow> bool" where
  "source_ok src \<longleftrightarrow> (if so_kind src = Source_Codebase then so_ref src = [] else plain (so_ref src))"

fun stage_ok :: "qstage \<Rightarrow> bool"
  and query_ok :: "query \<Rightarrow> bool" where
  "stage_ok (Q_Nodes e) \<longleftrightarrow> (case e of None \<Rightarrow> True | Some x \<Rightarrow> expr_ok x)"
| "stage_ok Q_View_Symbol \<longleftrightarrow> True"
| "stage_ok Q_View_Entity \<longleftrightarrow> True"
| "stage_ok (Q_Where e) \<longleftrightarrow> expr_ok e"
| "stage_ok (Q_Out r mn mx) \<longleftrightarrow> plain r \<and> int64 mn \<and> int64 mx"
| "stage_ok (Q_In r mn mx) \<longleftrightarrow> plain r \<and> int64 mn \<and> int64 mx"
| "stage_ok Q_Sites \<longleftrightarrow> True"
| "stage_ok (Q_Set op q) \<longleftrightarrow> query_ok q"
| "stage_ok (Q_Select fs) \<longleftrightarrow> fs \<noteq> [] \<and> list_all plain fs"
| "stage_ok (Q_OrderBy fs) \<longleftrightarrow> fs \<noteq> [] \<and> list_all plain fs"
| "stage_ok Q_Count \<longleftrightarrow> True"
| "stage_ok Q_Distinct \<longleftrightarrow> True"
| "stage_ok (Q_Limit n) \<longleftrightarrow> int64 n"
| "query_ok (Query src ss) \<longleftrightarrow> source_ok src \<and> list_all stage_ok ss"

fun stage_name :: "qstage \<Rightarrow> string" where
  "stage_name (Q_Nodes e) = ''nodes''"
| "stage_name Q_View_Symbol = ''view''"
| "stage_name Q_View_Entity = ''view''"
| "stage_name (Q_Where e) = ''where''"
| "stage_name (Q_Out r mn mx) = ''out''"
| "stage_name (Q_In r mn mx) = ''in''"
| "stage_name Q_Sites = ''sites''"
| "stage_name (Q_Set op q) = set_name op"
| "stage_name (Q_Select fs) = ''select''"
| "stage_name (Q_OrderBy fs) = ''order_by''"
| "stage_name Q_Count = ''count''"
| "stage_name Q_Distinct = ''distinct''"
| "stage_name (Q_Limit n) = ''limit''"

definition source_text :: "string \<Rightarrow> Source \<Rightarrow> string" where
  "source_text sp src =
     (case so_kind src of
        Source_Codebase \<Rightarrow> call_text sp ''codebase'' []
      | Source_Symbol \<Rightarrow> call_text sp ''symbol'' [qv (so_ref src)]
      | Source_Entity \<Rightarrow> call_text sp ''entity'' [qv (so_ref src)])"

fun stage_args :: "string \<Rightarrow> qstage \<Rightarrow> string list"
  and query_text :: "string \<Rightarrow> query \<Rightarrow> string" where
  "stage_args sp (Q_Nodes e) = (case e of None \<Rightarrow> [] | Some x \<Rightarrow> [expr_text sp x])"
| "stage_args sp Q_View_Symbol = [qv ''symbol'']"
| "stage_args sp Q_View_Entity = [qv ''entity'']"
| "stage_args sp (Q_Where e) = [expr_text sp e]"
| "stage_args sp (Q_Out r mn mx) = [qv r, show_int mn, show_int mx]"
| "stage_args sp (Q_In r mn mx) = [qv r, show_int mn, show_int mx]"
| "stage_args sp Q_Sites = []"
| "stage_args sp (Q_Set op q) = [query_text sp q]"
| "stage_args sp (Q_Select fs) = map qv fs"
| "stage_args sp (Q_OrderBy fs) = map qv fs"
| "stage_args sp Q_Count = []"
| "stage_args sp Q_Distinct = []"
| "stage_args sp (Q_Limit n) = [show_int n]"
| "query_text sp (Query src ss) =
     source_text sp src @ concat (map (\<lambda>s. sp @ ''|'' @ sp @ call_text sp (stage_name s) (stage_args sp s)) ss)"

fun stage_of :: "qstage \<Rightarrow> Stage"
  and plan_of :: "query \<Rightarrow> Plan" where
  "stage_of (Q_Nodes e) = (case e of None \<Rightarrow> nodes_stage | Some x \<Rightarrow> nodes_where_stage (expr_pred x) Unknown_Exclude)"
| "stage_of Q_View_Symbol = view_stage View_Symbol"
| "stage_of Q_View_Entity = view_stage View_Entity"
| "stage_of (Q_Where e) = where_stage (expr_pred e) Unknown_Exclude"
| "stage_of (Q_Out r mn mx) = out_stage r mn mx Mode_Static"
| "stage_of (Q_In r mn mx) = in_stage r mn mx"
| "stage_of Q_Sites = sites_stage"
| "stage_of (Q_Set op q) = set_stage_of op (plan_of q)"
| "stage_of (Q_Select fs) = select_stage fs"
| "stage_of (Q_OrderBy fs) = order_by_stage fs"
| "stage_of Q_Count = count_stage"
| "stage_of Q_Distinct = distinct_stage"
| "stage_of (Q_Limit n) = limit_stage n"
| "plan_of (Query src ss) = Plan src (map stage_of ss)"

lemma join_concat: "join_with [d] (s # map f xs) = s @ concat (map (\<lambda>x. [d] @ f x) xs)"
proof (induction xs arbitrary: s)
  case (Cons x xs)
  from Cons.IH [of "f x"] show ?case by simp
qed simp

lemma set_names: "set_name op \<in> {''union'', ''intersect'', ''except''}"
  by (cases op) auto

lemma stage_name_ok: "name_ok (stage_name s)" "stage_name s \<in> set stage_names" "stage_name s \<noteq> ''rank''"
proof -
  have "name_ok n" if "n \<in> set stage_names" for n
    using that by (auto simp: stage_names_def name_ok_def is_space_def special_def)
  moreover show "stage_name s \<in> set stage_names"
    using set_names by (cases s rule: stage_name.cases) (auto simp: stage_names_def)
  ultimately show "name_ok (stage_name s)" .
  from \<open>stage_name s \<in> set stage_names\<close> show "stage_name s \<noteq> ''rank''" by (auto simp: stage_names_def)
qed

text \<open>Reading one printed stage, given that the queries inside it are read.\<close>

definition inner_read :: "string \<Rightarrow> qstage \<Rightarrow> bool" where
  "inner_read sp s \<longleftrightarrow> (case s of Q_Set op q \<Rightarrow> arg_ok (query_text sp q) \<and> parse_cxq (query_text sp q) = Inr (plan_of q) | _ \<Rightarrow> True)"

lemma stage_args_ok: "blank sp \<Longrightarrow> stage_ok s \<Longrightarrow> inner_read sp s \<Longrightarrow> list_all arg_ok (stage_args sp s)"
  by (cases s rule: stage_name.cases)
    (auto simp: qv_arg show_int_arg values_arg inner_read_def plain_def unit_arg expr_arg split: option.splits)

lemma plain_stage_read:
  assumes "blank sp" "stage_ok s" "\<And>op q. s \<noteq> Q_Set op q"
  shows "plain_stage (stage_name s) (stage_args sp s) = Inr (stage_of s)"
  using assms
  by (cases s rule: stage_name.cases)
    (auto simp: plain_stage_def depth_args_def predicate_expr comp_def split: option.splits)

lemma stage_read:
  assumes "blank sp" "stage_ok s" "inner_read sp s"
  shows "stage (call_text sp (stage_name s) (stage_args sp s)) = Inr (stage_of s)"
proof -
  let ?v = "call_text sp (stage_name s) (stage_args sp s)"
  have t: "trim ?v = ?v" using call_arg [OF assms(1) stage_name_ok(1) stage_args_ok [OF assms]] by (simp add: unit_ok_def)
  have names: "\<forall>n\<in>set (''rank'' # stage_names). CHR ''('' \<notin> set n" by (simp add: stage_names_def)
  then have r: "\<not> starts_with ?v ''rank(''"
    using starts_with_call [of "''rank''" "stage_name s"] stage_name_ok(2,3) [of s] by (auto simp: call_text_def)
  have f: "List.find (\<lambda>n. starts_with ?v (n @ ''('')) stage_names = Some (stage_name s)"
    by (rule find_call) (use names stage_name_ok(2) in auto)
  have c: "call_parts ?v (stage_name s) = Inr (stage_args sp s)"
    by (rule call_parts_text [OF assms(1) stage_args_ok [OF assms] name_tight [OF stage_name_ok(1)]])
  show ?thesis
  proof (cases "\<exists>op q. s = Q_Set op q")
    case True
    then obtain op q where s: "s = Q_Set op q" by blast
    then have "parse_cxq (query_text sp q) = Inr (plan_of q)" using assms(3) by (simp add: inner_read_def)
    moreover have "foldl pipe (Plan (pl_source p) []) (pl_stages p) = p" for p
      by (cases p) (simp add: foldl_pipe)
    ultimately show ?thesis using r f c t unfolding s by (subst stage.simps) (cases op; simp add: Let_def)
  next
    case False
    then have n: "stage_name s \<notin> {''union'', ''intersect'', ''except''}" by (cases s rule: stage_name.cases) auto
    from False have "plain_stage (stage_name s) (stage_args sp s) = Inr (stage_of s)"
      by (intro plain_stage_read [OF assms(1,2)]) auto
    with r f c n show ?thesis by (subst stage.simps) (simp add: Let_def t)
  qed
qed

lemma source_unit: "blank sp \<Longrightarrow> source_ok src \<Longrightarrow> unit_ok (source_text sp src)"
  by (cases "so_kind src")
    (auto simp: source_ok_def source_text_def qv_arg name_ok_def is_space_def special_def intro!: call_arg)

lemma source_read:
  assumes "blank sp" "source_ok src"
  shows "query_source (source_text sp src) = Inr src"
proof -
  have n: "tight ''codebase''" "tight ''symbol''" "tight ''entity''" by (simp_all add: tight_def is_space_def)
  have st: "starts_with (call_text sp n args) (m @ ''('') \<longleftrightarrow> m = n"
    if "n \<in> {''codebase'', ''symbol'', ''entity''}" "m \<in> {''codebase'', ''symbol'', ''entity''}" for n m args
    unfolding call_text_def using starts_with_call [of m n] that by auto
  have c: "call_parts (call_text sp ''codebase'' []) ''codebase'' = Inr []"
    "plain r \<Longrightarrow> call_parts (call_text sp ''symbol'' [qv r]) ''symbol'' = Inr [qv r]"
    "plain r \<Longrightarrow> call_parts (call_text sp ''entity'' [qv r]) ''entity'' = Inr [qv r]" for r
    using call_parts_text [OF assms(1) _ n(1), of "[]"] call_parts_text [OF assms(1) _ n(2), of "[qv r]"]
      call_parts_text [OF assms(1) _ n(3), of "[qv r]"] qv_arg [of r] by simp_all
  from assms(2) show ?thesis
    using st [of _ "''codebase''"] st [of _ "''symbol''"] st [of _ "''entity''"]
    by (cases src; cases "so_kind src")
      (simp_all add: source_ok_def source_text_def query_source_def c codebase_def symbol_source_def entity_source_def)
qed

definition stage_text :: "string \<Rightarrow> qstage \<Rightarrow> string" where
  "stage_text sp s = call_text sp (stage_name s) (stage_args sp s)"

text \<open>The pieces between the bars of a printed query.\<close>

fun pieces :: "string \<Rightarrow> string \<Rightarrow> string list \<Rightarrow> string list" where
  "pieces sp s [] = [s]"
| "pieces sp s (t # ts) = (s @ sp) # pieces sp (sp @ t) ts"

lemma join_Cons: "ss \<noteq> [] \<Longrightarrow> join_with d (s # ss) = s @ d @ join_with d ss"
  by (cases ss) auto

lemma pieces_not_Nil [simp]: "pieces sp s ts \<noteq> []"
  by (cases ts) auto

lemma join_pieces: "join_with ''|'' (pieces sp s ts) = s @ concat (map (\<lambda>t. sp @ ''|'' @ sp @ t) ts)"
  by (induction sp s ts rule: pieces.induct) (simp_all add: join_Cons)

lemma trim_pieces:
  "blank sp \<Longrightarrow> blank a \<Longrightarrow> tight s \<Longrightarrow> list_all tight ts \<Longrightarrow> map trim (pieces sp (a @ s) ts) = s # ts"
proof (induction ts arbitrary: a s)
  case Nil
  then show ?case using trim_pad [of a "[]" s] by simp
next
  case (Cons t ts)
  then show ?case using trim_pad [of a sp s] by simp
qed

lemma flat_pieces:
  "blank sp \<Longrightarrow> piece s \<Longrightarrow> list_all piece ts \<Longrightarrow> \<forall>p\<in>set (pieces sp s ts). flat (\<lambda>c. c \<noteq> CHR ''|'') p"
  by (induction sp s ts rule: pieces.induct) (auto simp: piece_pipe flat_append flat_blank)

lemma query_text_pieces: "query_text sp (Query src ss) = join_with ''|'' (pieces sp (source_text sp src) (map (stage_text sp) ss))"
  by (simp add: join_pieces stage_text_def comp_def)

lemma split_query:
  assumes "blank sp" "source_ok src" "\<forall>s\<in>set ss. unit_ok (stage_text sp s)"
  shows "split_top_level (query_text sp (Query src ss)) (CHR ''|'') = Inr (source_text sp src # map (stage_text sp) ss)"
proof -
  have src: "tight (source_text sp src)" "piece (source_text sp src)" using source_unit [OF assms(1,2)] by (simp_all add: unit_ok_def)
  have ts: "list_all tight (map (stage_text sp) ss)" "list_all piece (map (stage_text sp) ss)"
    using assms(3) by (auto simp: list_all_iff unit_ok_def)
  show ?thesis unfolding split_top_level_def query_text_pieces
    using split_join [OF special_separators(2) neutral_lex0 flat_pieces [OF assms(1) src(2) ts(2)]]
      trim_pieces [OF assms(1) _ src(1) ts(1), of "[]"] by simp
qed

text \<open>The text of a query is balanced, starts and ends tight, and holds no comma at the top.\<close>

lemma query_arg:
  assumes "blank sp" "source_ok src" "\<forall>s\<in>set ss. unit_ok (stage_text sp s)"
  shows "arg_ok (query_text sp (Query src ss))"
proof -
  let ?rest = "concat (map (\<lambda>s. sp @ ''|'' @ sp @ stage_text sp s) ss)"
  have src: "tight (source_text sp src)" "piece (source_text sp src)" using source_unit [OF assms(1,2)] by (simp_all add: unit_ok_def)
  have "flat (\<lambda>c. c \<noteq> CHR '','') ?rest \<and> (?rest \<noteq> [] \<longrightarrow> \<not> is_space (last ?rest))"
    using assms(3)
  proof (induction ss)
    case (Cons s ss)
    have b: "flat (\<lambda>c. c \<noteq> CHR '','') sp" by (rule piece_comma [OF flat_blank [OF assms(1)]])
    have "flat (\<lambda>c. c \<noteq> CHR '','') ''|''" by (rule flat_word) (simp add: special_def)
    from flat_append [OF b flat_append [OF this flat_append [OF b piece_comma]]] Cons.prems
    have "flat (\<lambda>c. c \<noteq> CHR '','') (sp @ ''|'' @ sp @ stage_text sp s)" by (simp add: unit_ok_def)
    from flat_append [OF this] Cons show ?case by (auto simp: unit_ok_def tight_def last_append)
  qed (simp add: flat_nil)
  then have "flat (\<lambda>c. c \<noteq> CHR '','') (source_text sp src @ ?rest)" "tight (source_text sp src @ ?rest)"
    using src flat_append [OF piece_comma [OF src(2)]] by (auto simp: tight_def last_append)
  then show ?thesis by (simp add: arg_ok_def stage_text_def)
qed

lemma stage_step:
  assumes "blank sp" "stage_ok s" "inner_read sp s"
  shows "unit_ok (stage_text sp s) \<and> stage (stage_text sp s) = Inr (stage_of s)"
  unfolding stage_text_def using call_arg [OF assms(1) stage_name_ok(1) stage_args_ok [OF assms]] stage_read [OF assms] by simp

lemma parse_read:
  "blank sp \<Longrightarrow> stage_ok s \<Longrightarrow> unit_ok (stage_text sp s) \<and> stage (stage_text sp s) = Inr (stage_of s)"
  "blank sp \<Longrightarrow> query_ok q \<Longrightarrow> arg_ok (query_text sp q) \<and> parse_cxq (query_text sp q) = Inr (plan_of q)"
proof (induction s and q)
  case (Query src ss)
  then have *: "source_ok src" "\<forall>s\<in>set ss. unit_ok (stage_text sp s) \<and> stage (stage_text sp s) = Inr (stage_of s)"
    by (auto simp: list_all_iff)
  have "mapE stage (map (stage_text sp) ss) = Inr (map stage_of ss)" using *(2) by (induction ss) auto
  moreover have "source_text sp src \<noteq> []" "trim (source_text sp src) = source_text sp src"
    using source_unit [OF Query.prems(1) *(1)] by (auto simp: unit_ok_def tight_def)
  ultimately have "parse_cxq (query_text sp (Query src ss)) = Inr (plan_of (Query src ss))"
    using split_query [OF Query.prems(1) *(1)] *(2) source_read [OF Query.prems(1) *(1)]
    by (subst parse_cxq.simps) (simp add: foldl_pipe del: query_text.simps)
  with query_arg [OF Query.prems(1) *(1)] *(2) show ?case by blast
qed (rule stage_step; simp add: inner_read_def)+

text \<open>(C16) Printed queries are read back: for every query of the printable grammar (all sources and stages,
  nested set operations, and predicates with calls, conjunction, disjunction and negation) and
  any white space between its parts, \<^verbatim>\<open>parse_cxq\<close> returns the plan that the builders make.\<close>

theorem parse_printed_query:
  assumes "list_all is_space sp" "query_ok q"
  shows "parse_cxq (query_text sp q) = Inr (plan_of q)"
  using parse_read(2) [OF assms] by blast

definition sample_printed :: query where
  "sample_printed = Query (symbol_source ''ns::f(int)'')
     [Q_Nodes (Some (E_And (L_Eq ''kind'' ''class'') (E_Or (L_Int ''line'' (- 3)) (E_Not (E_Lit (L_In ''name'' [''a,b'', ''x | y'']))))))
     , Q_Set S_Except (Query codebase [Q_Out ''calls'' 1 2]), Q_Select [''name''], Q_Limit 10]"

lemma parse_printed_query_witness:
  "parse_cxq (query_text '' '' sample_printed) = Inr (plan_of sample_printed)"
proof (rule parse_printed_query)
  show "list_all is_space '' ''" by code_simp
  show "query_ok sample_printed" by code_simp
qed

end
