(* ===== verification/Wire_Format.thy ===== *)
theory Wire_Format
  imports Hashing
begin

unbundle bit_operations_syntax

text \<open>
  The primitives of the fact batch wire format (\<^verbatim>\<open>ast/fact_batch_artifact.cpp\<close>, classes
  \<^verbatim>\<open>BinaryWriter\<close> and \<^verbatim>\<open>FactBatchArtifactInput\<close>). A writer is the bytes it appends; a
  reader takes the decode limits and the input, which is the unread payload and the number of
  collection entries granted so far. Signed integers are their bit patterns.
\<close>

type_synonym u64 = "64 word"
type_synonym i64 = "64 word"

datatype FactBatchArtifactErrorCode =
    artifact_missing | artifact_stale | artifact_corrupt | artifact_incompatible | artifact_partial | artifact_truncated
  | artifact_limit_exceeded | artifact_io_error | artifact_spill_failure | artifact_noncanonical

datatype artifact_error = ArtifactError FactBatchArtifactErrorCode string

fun error_code_name :: "FactBatchArtifactErrorCode \<Rightarrow> string" where
  "error_code_name artifact_missing = ''missing''"
| "error_code_name artifact_stale = ''stale''"
| "error_code_name artifact_corrupt = ''corrupt''"
| "error_code_name artifact_incompatible = ''incompatible''"
| "error_code_name artifact_partial = ''partial''"
| "error_code_name artifact_truncated = ''truncated''"
| "error_code_name artifact_limit_exceeded = ''limit_exceeded''"
| "error_code_name artifact_io_error = ''io_error''"
| "error_code_name artifact_spill_failure = ''spill_failure''"
| "error_code_name artifact_noncanonical = ''noncanonical''"

record FactBatchArtifactDecodeLimits =
  li_max_artifact_bytes :: u64
  li_max_string_bytes :: u64
  li_max_collection_entries :: u64
  li_max_total_entries :: u64

record input =
  in_rest :: "byte list"
  in_total :: u64

type_synonym 'a reader = "FactBatchArtifactDecodeLimits \<Rightarrow> input \<Rightarrow> artifact_error + 'a \<times> input"

subsection \<open>Writing\<close>

definition w_u8 :: "byte \<Rightarrow> byte list" where
  "w_u8 v = [v]"

definition w_u32 :: "u32 \<Rightarrow> byte list" where
  "w_u32 v = map (\<lambda>i. ucast (drop_bit (8 * i) v AND 0xff)) [0 ..< 4]"

definition w_u64 :: "u64 \<Rightarrow> byte list" where
  "w_u64 v = map (\<lambda>i. ucast (drop_bit (8 * i) v AND 0xff)) [0 ..< 8]"

definition w_i64 :: "i64 \<Rightarrow> byte list" where
  "w_i64 v = w_u64 v"

definition w_bool :: "bool \<Rightarrow> byte list" where
  "w_bool b = w_u8 (if b then 1 else 0)"

definition w_string :: "string \<Rightarrow> byte list" where
  "w_string s = w_u64 (word_of_nat (length s)) @ string_bytes s"

definition w_optional :: "('a \<Rightarrow> byte list) \<Rightarrow> 'a option \<Rightarrow> byte list" where
  "w_optional write v = w_bool (v \<noteq> None) @ (case v of None \<Rightarrow> [] | Some x \<Rightarrow> write x)"

definition w_vector :: "('a \<Rightarrow> byte list) \<Rightarrow> 'a list \<Rightarrow> byte list" where
  "w_vector write vs = w_u64 (word_of_nat (length vs)) @ concat (map write vs)"

subsection \<open>Reading\<close>

definition retR :: "'a \<Rightarrow> 'a reader" where
  "retR x = (\<lambda>L i. Inr (x, i))"

definition failR :: "FactBatchArtifactErrorCode \<Rightarrow> string \<Rightarrow> 'a reader" where
  "failR code message = (\<lambda>L i. Inl (ArtifactError code message))"

definition bindR :: "'a reader \<Rightarrow> ('a \<Rightarrow> 'b reader) \<Rightarrow> 'b reader" where
  "bindR m f = (\<lambda>L i. bindE (m L i) (\<lambda>(x, i'). f x L i'))"

definition read_exact :: "nat \<Rightarrow> byte list reader" where
  "read_exact n = (\<lambda>L i.
     if n > length (in_rest i)
     then Inl (ArtifactError artifact_truncated ''FactBatch artifact ended inside a declared field'')
     else Inr (take n (in_rest i), i\<lparr>in_rest := drop n (in_rest i)\<rparr>))"

definition r_u8 :: "byte reader" where
  "r_u8 = bindR (read_exact 1) (\<lambda>bytes. retR (hd bytes))"

definition r_u32 :: "u32 reader" where
  "r_u32 = bindR (read_exact 4) (\<lambda>bytes.
     retR (foldl (\<lambda>v i. v OR push_bit (8 * i) (ucast (bytes ! i))) 0 [0 ..< 4]))"

definition r_u64 :: "u64 reader" where
  "r_u64 = bindR (read_exact 8) (\<lambda>bytes.
     retR (foldl (\<lambda>v i. v OR push_bit (8 * i) (ucast (bytes ! i))) 0 [0 ..< 8]))"

definition r_i64 :: "i64 reader" where
  "r_i64 = r_u64"

definition r_bool :: "bool reader" where
  "r_bool = bindR r_u8 (\<lambda>v.
     if v > 1 then failR artifact_corrupt ''FactBatch artifact contains a non-boolean value'' else retR (v = 1))"

definition bytes_string :: "byte list \<Rightarrow> string" where
  "bytes_string bs = map (\<lambda>b. char_of (unat b)) bs"

definition r_string :: "string reader" where
  "r_string = bindR r_u64 (\<lambda>n L i.
     if n > li_max_string_bytes L
     then Inl (ArtifactError artifact_limit_exceeded ''FactBatch artifact string exceeds the configured limit'')
     else if unat n > length (in_rest i)
     then Inl (ArtifactError artifact_truncated ''FactBatch artifact string exceeds its remaining payload'')
     else bindR (read_exact (unat n)) (\<lambda>bytes. retR (bytes_string bytes)) L i)"

definition r_count :: "nat reader" where
  "r_count = bindR r_u64 (\<lambda>n L i.
     if n > li_max_collection_entries L \<or> n > li_max_total_entries L - in_total i
     then Inl (ArtifactError artifact_limit_exceeded ''FactBatch artifact collection exceeds the configured limit'')
     else if unat n > length (in_rest i)
     then Inl (ArtifactError artifact_truncated ''FactBatch artifact collection exceeds its remaining payload'')
     else Inr (unat n, i\<lparr>in_total := in_total i + n\<rparr>))"

definition r_optional :: "'a reader \<Rightarrow> 'a option reader" where
  "r_optional read = bindR r_bool (\<lambda>b. if \<not> b then retR None else bindR read (\<lambda>x. retR (Some x)))"

fun repeatR :: "nat \<Rightarrow> 'a reader \<Rightarrow> 'a list reader" where
  "repeatR 0 read = retR []"
| "repeatR (Suc n) read = bindR read (\<lambda>x. bindR (repeatR n read) (\<lambda>xs. retR (x # xs)))"

definition r_vector :: "'a reader \<Rightarrow> 'a list reader" where
  "r_vector read = bindR r_count (\<lambda>n. repeatR n read)"

subsection \<open>Words and bytes\<close>

lemma mask_byte: "(0xff :: 64 word) = mask 8" "(0xff :: 32 word) = mask 8"
  by (simp_all add: mask_eq_exp_minus_1)

lemma low_byte:
  "ucast (x AND mask 8) = (ucast x :: byte)" for x :: "'a::len word"
  by (rule bit_word_eqI) (auto simp: bit_simps dest: bit_imp_le_length)

lemma take_byte:
  "take_bit m w OR push_bit m (ucast (ucast (drop_bit m w) :: byte)) = take_bit (m + 8) w" for w :: "'a::len word"
  by (rule bit_word_eqI) (auto simp: bit_simps not_less)

lemma le_bytes:
  fixes w :: "'a::len word"
  shows "foldl (\<lambda>v i. v OR push_bit (8 * i) (ucast (ucast (drop_bit (8 * i) w) :: byte))) 0 [0 ..< n] = take_bit (8 * n) w"
proof (induction n)
  case (Suc n)
  then show ?case using take_byte [of "8 * n" w] by (simp add: add.commute)
qed simp

lemma w_u64_alt: "w_u64 w = map (\<lambda>i. ucast (drop_bit (8 * i) w)) [0 ..< 8]"
  and w_u32_alt: "w_u32 v = map (\<lambda>i. ucast (drop_bit (8 * i) v)) [0 ..< 4]"
  by (simp_all add: w_u64_def w_u32_def mask_byte low_byte)

lemma length_words [simp]: "length (w_u64 w) = 8" "length (w_u32 v) = 4"
  by (simp_all add: w_u64_def w_u32_def)

lemma foldl_cong_upt: "(\<And>i. i < n \<Longrightarrow> f i = g i) \<Longrightarrow> foldl (\<lambda>v i. v OR push_bit (8 * i) (f i)) a [0 ..< n] = foldl (\<lambda>v i. v OR push_bit (8 * i) (g i)) a [0 ..< n]"
  by (rule foldl_cong) auto

lemma u64_of_bytes: "foldl (\<lambda>v i. v OR push_bit (8 * i) (ucast (w_u64 w ! i))) 0 [0 ..< 8] = w"
proof -
  have "foldl (\<lambda>v i. v OR push_bit (8 * i) (ucast (w_u64 w ! i))) (0 :: u64) [0 ..< 8]
      = foldl (\<lambda>v i. v OR push_bit (8 * i) (ucast (ucast (drop_bit (8 * i) w) :: byte))) 0 [0 ..< 8]"
    by (rule foldl_cong_upt) (simp add: w_u64_alt)
  then show ?thesis using le_bytes [of w 8] by (simp add: take_bit_word_eq_self)
qed

lemma u32_of_bytes: "foldl (\<lambda>v i. v OR push_bit (8 * i) (ucast (w_u32 w ! i))) 0 [0 ..< 4] = w"
proof -
  have "foldl (\<lambda>v i. v OR push_bit (8 * i) (ucast (w_u32 w ! i))) (0 :: u32) [0 ..< 4]
      = foldl (\<lambda>v i. v OR push_bit (8 * i) (ucast (ucast (drop_bit (8 * i) w) :: byte))) 0 [0 ..< 4]"
    by (rule foldl_cong_upt) (simp add: w_u32_alt)
  then show ?thesis using le_bytes [of w 4] by (simp add: take_bit_word_eq_self)
qed

text \<open>Bytes are determined by the word they make.\<close>

lemma bit_of_fold:
  fixes bs :: "byte list"
  shows "bit (foldl (\<lambda>v i. v OR push_bit (8 * i) (ucast (bs ! i))) 0 [0 ..< n] :: 'a::len word) k \<longleftrightarrow>
    k < LENGTH('a) \<and> k div 8 < n \<and> bit (bs ! (k div 8)) (k mod 8)"
proof (induction n)
  case (Suc n)
  have "8 * n \<le> k \<and> bit (bs ! n) (k - 8 * n) \<longleftrightarrow> k div 8 = n \<and> bit (bs ! (k div 8)) (k mod 8)"
  proof
    assume a: "8 * n \<le> k \<and> bit (bs ! n) (k - 8 * n)"
    then have "k - 8 * n < 8" using bit_imp_le_length [of "bs ! n" "k - 8 * n"] by simp
    with a have "k div 8 = n" by linarith
    moreover from this a have "k mod 8 = k - 8 * n" by (simp add: modulo_nat_def)
    ultimately show "k div 8 = n \<and> bit (bs ! (k div 8)) (k mod 8)" using a by simp
  qed (auto simp: modulo_nat_def mult.commute)
  with Suc show ?case by (auto simp: bit_simps less_Suc_eq)
qed simp

lemma byte_of_fold:
  fixes bs :: "byte list"
  assumes "j < n" "8 * n \<le> LENGTH('a::len)"
  shows "(ucast (drop_bit (8 * j) (foldl (\<lambda>v i. v OR push_bit (8 * i) (ucast (bs ! i))) 0 [0 ..< n] :: 'a word)) :: byte) = bs ! j"
proof (rule bit_word_eqI)
  fix k assume "k < LENGTH(8)"
  then have k: "k < 8" by simp
  have "(8 * j + k) div 8 = j" "(8 * j + k) mod 8 = k" "8 * j + k < LENGTH('a)" using k assms by auto
  with k assms(1) show "bit (ucast (drop_bit (8 * j) (foldl (\<lambda>v i. v OR push_bit (8 * i) (ucast (bs ! i))) 0 [0 ..< n] :: 'a word)) :: byte) k
      = bit (bs ! j) k"
    by (simp add: bit_simps bit_of_fold)
qed

lemma bytes_of_u64: "length bs = 8 \<Longrightarrow> w_u64 (foldl (\<lambda>v i. v OR push_bit (8 * i) (ucast (bs ! i))) 0 [0 ..< 8]) = bs"
  by (rule nth_equalityI) (simp_all add: w_u64_alt byte_of_fold del: upt.simps)

lemma bytes_of_u32: "length bs = 4 \<Longrightarrow> w_u32 (foldl (\<lambda>v i. v OR push_bit (8 * i) (ucast (bs ! i))) 0 [0 ..< 4]) = bs"
  by (rule nth_equalityI) (simp_all add: w_u32_alt byte_of_fold del: upt.simps)

lemma bytes_string_inverse [simp]: "bytes_string (string_bytes s) = s"
  by (induction s) (simp_all add: bytes_string_def string_bytes_def unat_of_nat)

lemma string_bytes_inverse [simp]: "string_bytes (bytes_string bs) = bs"
proof -
  have "unat b mod 256 = unat b" for b :: byte using unsigned_less [of b, where ?'a = nat] by simp
  then show ?thesis by (induction bs) (simp_all add: bytes_string_def string_bytes_def)
qed

lemma length_string_bytes [simp]: "length (string_bytes s) = length s" "length (bytes_string bs) = length bs"
  by (simp_all add: string_bytes_def bytes_string_def)

subsection \<open>The contract of a reader and its writer\<close>

text \<open>Reading what was written gives the value back and leaves the rest, as long as the limits leave
  room for the written bytes; the entries granted on the way are fewer than the bytes.\<close>

definition within :: "FactBatchArtifactDecodeLimits \<Rightarrow> nat \<Rightarrow> bool" where
  "within L n \<longleftrightarrow> n \<le> unat (li_max_string_bytes L) \<and> n \<le> unat (li_max_collection_entries L)"

definition takes :: "nat \<Rightarrow> 'a reader \<Rightarrow> byte list \<Rightarrow> 'a \<Rightarrow> bool" where
  "takes n read bs v \<longleftrightarrow> (\<forall>L t r. within L (length bs) \<and> t + n \<le> unat (li_max_total_entries L) \<longrightarrow>
     read L \<lparr>in_rest = bs @ r, in_total = word_of_nat t\<rparr> = Inr (v, \<lparr>in_rest = r, in_total = word_of_nat (t + n)\<rparr>))"

lemma takesD:
  "takes n read bs v \<Longrightarrow> within L (length bs) \<Longrightarrow> t + n \<le> unat (li_max_total_entries L) \<Longrightarrow>
    read L \<lparr>in_rest = bs @ r, in_total = word_of_nat t\<rparr> = Inr (v, \<lparr>in_rest = r, in_total = word_of_nat (t + n)\<rparr>)"
  by (simp add: takes_def)

lemma takesI:
  "(\<And>L t r. within L (length bs) \<Longrightarrow> t + n \<le> unat (li_max_total_entries L) \<Longrightarrow>
    read L \<lparr>in_rest = bs @ r, in_total = word_of_nat t\<rparr> = Inr (v, \<lparr>in_rest = r, in_total = word_of_nat (t + n)\<rparr>)) \<Longrightarrow>
    takes n read bs v"
  by (simp add: takes_def)

definition reads :: "'a reader \<Rightarrow> byte list \<Rightarrow> 'a \<Rightarrow> bool" where
  "reads read bs v \<longleftrightarrow> (\<exists>n\<le>length bs. takes n read bs v)"

definition reads1 :: "'a reader \<Rightarrow> byte list \<Rightarrow> 'a \<Rightarrow> bool" where
  "reads1 rd bs v \<longleftrightarrow> (\<exists>n<length bs. takes n rd bs v)"

text \<open>A reader consumes exactly the bytes the writer gives for its result.\<close>

definition consumes :: "('a \<Rightarrow> byte list) \<Rightarrow> 'a reader \<Rightarrow> bool" where
  "consumes write read \<longleftrightarrow> (\<forall>L i v i'. read L i = Inr (v, i') \<longrightarrow> in_rest i = write v @ in_rest i')"

locale wire_codec =
  fixes wr :: "'a \<Rightarrow> byte list"
    and rd :: "'a reader"
  assumes reads_back: "reads1 rd (wr v) v"
    and exact: "consumes wr rd"
begin

lemma write_not_Nil: "wr v \<noteq> []"
  using reads_back [of v] by (auto simp: reads1_def)

text \<open>Written values are self-delimiting.\<close>

lemma prefix_free: 
  assumes "wr v @ r = wr v' @ r'" "length (wr v @ r) < 2 ^ 64"
  shows "v = v' \<and> r = r'"
proof -
  let ?L = "\<lparr>li_max_artifact_bytes = - 1, li_max_string_bytes = - 1, li_max_collection_entries = - 1, li_max_total_entries = - 1\<rparr> :: FactBatchArtifactDecodeLimits"
  have m: "unat (- 1 :: u64) = 2 ^ 64 - 1" by (simp add: unsigned_minus_1_eq_mask mask_eq_exp_minus_1)
  have "length (wr v' @ r') < 2 ^ 64" using assms by metis
  then have w: "within ?L (length (wr v))" "within ?L (length (wr v'))" 
    using assms(2) m by (auto simp: within_def)
  obtain n n' where n: "n < length (wr v)" "takes n rd (wr v) v" "n' < length (wr v')" "takes n' rd (wr v') v'"
    using reads_back by (meson reads1_def)
  have "rd ?L \<lparr>in_rest = wr v @ r, in_total = word_of_nat 0\<rparr> = Inr (v, \<lparr>in_rest = r, in_total = word_of_nat (0 + n)\<rparr>)"
    by (rule takesD [OF n(2) w(1)]) (use n(1) m assms(2) in auto)
  moreover have "rd ?L \<lparr>in_rest = wr v' @ r', in_total = word_of_nat 0\<rparr> = Inr (v', \<lparr>in_rest = r', in_total = word_of_nat (0 + n')\<rparr>)"
    by (rule takesD [OF n(4) w(2)]) (use n(3) m \<open>length (wr v' @ r') < 2 ^ 64\<close> in auto)
  ultimately show ?thesis using assms(1) by simp
qed

end

text \<open>How the contracts compose.\<close>

lemma takes_bind:
  assumes "takes m rd bs x" "takes n (f x) cs y"
  shows "takes (m + n) (bindR rd f) (bs @ cs) y"
proof (rule takesI)
  fix L t r
  assume w: "within L (length (bs @ cs))" "t + (m + n) \<le> unat (li_max_total_entries L)"
  then have "within L (length bs)" "within L (length cs)" "t + m \<le> unat (li_max_total_entries L)" "t + m + n \<le> unat (li_max_total_entries L)"
    by (auto simp: within_def)
  with takesD [OF assms(1), of L t "cs @ r"] takesD [OF assms(2), of L "t + m" r]
  show "bindR rd f L \<lparr>in_rest = (bs @ cs) @ r, in_total = word_of_nat t\<rparr> = Inr (y, \<lparr>in_rest = r, in_total = word_of_nat (t + (m + n))\<rparr>)"
    by (simp add: bindR_def add.assoc del: of_nat_add)
qed

lemma reads1_bind: "reads1 rd bs x \<Longrightarrow> reads (f x) cs y \<Longrightarrow> reads1 (bindR rd f) (bs @ cs) y"
  unfolding reads1_def reads_def by (metis add_less_le_mono length_append takes_bind)

lemma reads_reads1: "reads1 rd bs v \<Longrightarrow> reads rd bs v"
  unfolding reads1_def reads_def by (meson less_imp_le)

lemma reads_bind: "reads1 rd bs x \<Longrightarrow> reads (f x) cs y \<Longrightarrow> reads (bindR rd f) (bs @ cs) y"
  by (blast intro: reads_reads1 reads1_bind)

lemma takes_ret: "takes 0 (retR v) [] v"
  by (simp add: takes_def retR_def)

lemma reads_ret: "x = v \<Longrightarrow> reads (retR x) [] v"
  unfolding reads_def using takes_ret by fastforce

lemma reads1_map: "reads1 rd bs x \<Longrightarrow> g x = v \<Longrightarrow> reads1 (bindR rd (\<lambda>x. retR (g x))) bs v"
  using reads1_bind [of rd bs x "\<lambda>x. retR (g x)" "[]" v] reads_ret by (simp add: reads_ret)

lemma reads_map: "reads1 rd bs x \<Longrightarrow> g x = v \<Longrightarrow> reads (bindR rd (\<lambda>x. retR (g x))) bs v"
  by (blast intro: reads_reads1 reads1_map)

lemma bindR_Inr: "bindR rd f L i = Inr (v, i') \<longleftrightarrow> (\<exists>x j. rd L i = Inr (x, j) \<and> f x L j = Inr (v, i'))"
  by (auto simp: bindR_def bindE_Inr_iff)

lemma retR_Inr: "retR x L i = Inr (v, i') \<longleftrightarrow> v = x \<and> i' = i"
  by (auto simp: retR_def)

lemma failR_Inr [simp]: "failR c m L i \<noteq> Inr y"
  by (simp add: failR_def)

lemmas reader_Inr = bindR_Inr retR_Inr failR_Inr

subsection \<open>Codecs of the primitives\<close>

lemma read_exact_takes: "takes 0 (read_exact (length bs)) bs bs"
  by (simp add: takes_def read_exact_def)

lemma read_exact_Inr: "read_exact n L i = Inr (bs, i') \<longleftrightarrow> n \<le> length (in_rest i) \<and> bs = take n (in_rest i) \<and> i' = i\<lparr>in_rest := drop n (in_rest i)\<rparr>"
  by (auto simp: read_exact_def)

lemma takes_map: "takes n rd bs x \<Longrightarrow> g x = v \<Longrightarrow> takes n (bindR rd (\<lambda>x. retR (g x))) bs v"
  using takes_bind [OF _ takes_ret, of n rd bs x] by (auto simp: takes_def bindR_def retR_def)

lemma takes_u64: "takes 0 r_u64 (w_u64 v) v"
  unfolding r_u64_def by (rule takes_map [where x = "w_u64 v"]) (use read_exact_takes [of "w_u64 v"] u64_of_bytes in \<open>simp_all del: upt.simps upt_rec_numeral\<close>)

interpretation u64: wire_codec w_u64 r_u64
proof
  show "reads1 r_u64 (w_u64 v) v" for v using takes_u64 by (force simp: reads1_def)
  show "consumes w_u64 r_u64"
    unfolding consumes_def r_u64_def by (auto simp: reader_Inr read_exact_Inr bytes_of_u64 simp del: upt.simps upt_rec_numeral)
qed

lemma consumesD: "consumes w rd \<Longrightarrow> rd L i = Inr (v, i') \<Longrightarrow> in_rest i = w v @ in_rest i'"
  unfolding consumes_def by blast

lemma consumesI: "(\<And>L i v i'. rd L i = Inr (v, i') \<Longrightarrow> in_rest i = w v @ in_rest i') \<Longrightarrow> consumes w rd"
  unfolding consumes_def by blast

text \<open>The facts about parts from which the codec of a record follows: reading back, and exactness as a
  destruction rule.\<close>

named_theorems wire_reads
named_theorems wire_exact

lemmas [wire_reads] = u64.reads_back
lemmas [wire_exact] = u64.exact [THEN consumesD]

interpretation u8: wire_codec w_u8 r_u8
proof
  have "takes 0 r_u8 (w_u8 v) v" for v
    unfolding r_u8_def by (rule takes_map [where x = "[v]"]) (use read_exact_takes [of "[v]"] in \<open>simp_all add: w_u8_def\<close>)
  then show "reads1 r_u8 (w_u8 v) v" for v by (force simp: reads1_def w_u8_def)
  have "[hd (take 1 xs)] @ drop 1 xs = xs" if "1 \<le> length xs" for xs :: "byte list" using that by (cases xs) auto
  then show "consumes w_u8 r_u8"
    unfolding r_u8_def w_u8_def by (intro consumesI) (auto simp: reader_Inr read_exact_Inr)
qed

lemmas [wire_reads] = u8.reads_back
lemmas [wire_exact] = u8.exact [THEN consumesD]

interpretation u32: wire_codec w_u32 r_u32
proof
  have "takes 0 r_u32 (w_u32 v) v" for v
    unfolding r_u32_def by (rule takes_map [where x = "w_u32 v"]) (use read_exact_takes [of "w_u32 v"] u32_of_bytes in \<open>simp_all del: upt.simps upt_rec_numeral\<close>)
  then show "reads1 r_u32 (w_u32 v) v" for v by (force simp: reads1_def)
  show "consumes w_u32 r_u32"
    unfolding consumes_def r_u32_def by (auto simp: reader_Inr read_exact_Inr bytes_of_u32 simp del: upt.simps upt_rec_numeral)
qed

lemmas [wire_reads] = u32.reads_back
lemmas [wire_exact] = u32.exact [THEN consumesD]

interpretation i64: wire_codec w_i64 r_i64
  by unfold_locales (simp_all add: w_i64_def [abs_def] r_i64_def u64.reads_back u64.exact)

lemmas [wire_reads] = i64.reads_back
lemmas [wire_exact] = i64.exact [THEN consumesD]

text \<open>A reader with a check that the written value passes.\<close>

lemma reads1_check: "reads1 rd bs x \<Longrightarrow> \<not> bad x \<Longrightarrow> g x = v \<Longrightarrow> reads1 (bindR rd (\<lambda>x. if bad x then failR c m else retR (g x))) bs v"
  using reads1_bind [of rd bs x "\<lambda>x. if bad x then failR c m else retR (g x)" "[]" v] by (simp add: reads_ret)

interpretation boolean: wire_codec w_bool r_bool
proof
  show "reads1 r_bool (w_bool b) b" for b
    unfolding r_bool_def w_bool_def by (rule reads1_check [OF u8.reads_back]) auto
  have b: "v = 0" if "\<not> 1 < v" "v \<noteq> 1" for v :: byte
  proof -
    have "unat v = 0 \<or> unat v = 1" using that(1) by (auto simp: word_less_nat_alt)
    then show ?thesis using that(2) by (metis unat_eq_zero unsigned_1 word_unat_eq_iff)
  qed
  show "consumes w_bool r_bool" unfolding r_bool_def w_bool_def
    by (intro consumesI) (auto simp: reader_Inr dest!: wire_exact dest: b split: if_splits)
qed

lemmas [wire_reads] = boolean.reads_back
lemmas [wire_exact] = boolean.exact [THEN consumesD]

interpretation str: wire_codec w_string r_string
proof
  fix s
  have "takes 0 r_string (w_string s) s"
  proof (rule takesI)
    fix L t r
    assume w: "within L (length (w_string s))" "t + 0 \<le> unat (li_max_total_entries L)"
    have l: "length s \<le> unat (li_max_string_bytes L)" using w(1) by (simp add: within_def w_string_def)
    then have u: "unat (word_of_nat (length s) :: u64) = length s"
      using unsigned_less [of "li_max_string_bytes L", where ?'a = nat] by (simp add: unat_of_nat)
    then have "\<not> li_max_string_bytes L < word_of_nat (length s)" using l by (simp add: word_less_nat_alt)
    moreover have "r_u64 L \<lparr>in_rest = w_u64 (word_of_nat (length s)) @ string_bytes s @ r, in_total = word_of_nat t\<rparr>
        = Inr (word_of_nat (length s), \<lparr>in_rest = string_bytes s @ r, in_total = word_of_nat (t + 0)\<rparr>)"
      by (rule takesD [OF takes_u64]) (use w in \<open>auto simp: within_def w_string_def\<close>)
    ultimately show "r_string L \<lparr>in_rest = w_string s @ r, in_total = word_of_nat t\<rparr>
        = Inr (s, \<lparr>in_rest = r, in_total = word_of_nat (t + 0)\<rparr>)"
      by (simp add: r_string_def bindR_def w_string_def u read_exact_def retR_def)
  qed
  then show "reads1 r_string (w_string s) s" by (force simp: reads1_def w_string_def)
next
  show "consumes w_string r_string"
    unfolding r_string_def w_string_def
    by (intro consumesI) (auto simp: reader_Inr read_exact_Inr min_absorb2 dest!: wire_exact split: if_splits)
qed

lemmas [wire_reads] = str.reads_back
lemmas [wire_exact] = str.exact [THEN consumesD]

text \<open>Optional values and vectors of any codec.\<close>

lemma optional_codec:
  assumes "wire_codec w rd"
  shows "wire_codec (w_optional w) (r_optional rd)"
proof
  fix v
  show "reads1 (r_optional rd) (w_optional w v) v"
  proof (cases v)
    case None
    have "reads1 (bindR r_bool (\<lambda>b. if \<not> b then retR None else bindR rd (\<lambda>x. retR (Some x)))) (w_bool False @ []) None"
      by (rule reads1_bind [OF boolean.reads_back]) (simp add: reads_ret)
    then show ?thesis unfolding r_optional_def w_optional_def None by simp
  next
    case (Some x)
    have "reads1 (bindR r_bool (\<lambda>b. if \<not> b then retR None else bindR rd (\<lambda>x. retR (Some x)))) (w_bool True @ w x) (Some x)"
      by (rule reads1_bind [OF boolean.reads_back]) (simp add: reads_map [OF wire_codec.reads_back [OF assms]])
    then show ?thesis unfolding r_optional_def w_optional_def Some by simp
  qed
next
  show "consumes (w_optional w) (r_optional rd)"
    unfolding r_optional_def w_optional_def
    by (intro consumesI) (auto simp: reader_Inr dest!: wire_exact wire_codec.exact [OF assms, THEN consumesD] split: if_splits)
qed

lemma repeatR_takes:
  assumes "\<forall>x\<in>set xs. reads1 rd (w x) x"
  shows "\<exists>n. n + length xs \<le> length (concat (map w xs)) \<and> takes n (repeatR (length xs) rd) (concat (map w xs)) xs"
  using assms
proof (induction xs)
  case Nil
  then show ?case by (simp add: takes_ret)
next
  case (Cons x xs)
  then obtain n where n: "n + length xs \<le> length (concat (map w xs))" "takes n (repeatR (length xs) rd) (concat (map w xs)) xs" by auto
  from Cons.prems obtain m where m: "m < length (w x)" "takes m rd (w x) x" by (auto simp: reads1_def)
  have "takes (m + n) (repeatR (length (x # xs)) rd) (concat (map w (x # xs))) (x # xs)"
    using takes_bind [OF m(2), of n "\<lambda>x. bindR (repeatR (length xs) rd) (\<lambda>xs. retR (x # xs))"]
      takes_map [OF n(2), where g = "\<lambda>xs. x # xs"] by simp
  moreover have "m + n + length (x # xs) \<le> length (concat (map w (x # xs)))" using m(1) n(1) by simp
  ultimately show ?case by blast
qed

text \<open>Reading a count grants that many entries.\<close>

lemma count_takes:
  assumes "within L (8 + length body)" "k \<le> length body" "t + k \<le> unat (li_max_total_entries L)"
  shows "r_count L \<lparr>in_rest = w_u64 (word_of_nat k) @ body @ r, in_total = word_of_nat t\<rparr>
    = Inr (k, \<lparr>in_rest = body @ r, in_total = word_of_nat (t + k)\<rparr>)"
proof -
  have k: "k \<le> unat (li_max_collection_entries L)" using assms(1,2) by (simp add: within_def)
  have u: "unat (word_of_nat k :: u64) = k"
    using k unsigned_less [of "li_max_collection_entries L", where ?'a = nat] by (simp add: unat_of_nat)
  have ut: "unat (word_of_nat t :: u64) = t"
    using assms(3) unsigned_less [of "li_max_total_entries L", where ?'a = nat] by (simp add: unat_of_nat)
  have "\<not> li_max_collection_entries L < word_of_nat k" using k u by (simp add: word_less_nat_alt)
  moreover have "\<not> li_max_total_entries L - word_of_nat t < word_of_nat k"
  proof -
    have "(word_of_nat t :: u64) \<le> li_max_total_entries L" using assms(3) ut by (simp add: word_le_nat_alt)
    then have "unat (li_max_total_entries L - word_of_nat t) = unat (li_max_total_entries L) - t"
      using ut by (simp add: unat_sub)
    then show ?thesis using assms(3) u by (simp add: word_less_nat_alt)
  qed
  moreover have "r_u64 L \<lparr>in_rest = w_u64 (word_of_nat k) @ body @ r, in_total = word_of_nat t\<rparr>
      = Inr (word_of_nat k, \<lparr>in_rest = body @ r, in_total = word_of_nat (t + 0)\<rparr>)"
    by (rule takesD [OF takes_u64]) (use assms in \<open>auto simp: within_def\<close>)
  ultimately show ?thesis using assms(2) u by (simp add: r_count_def bindR_def)
qed

lemma counted_reads1:
  assumes "takes n (f k) body v" "n + k \<le> length body"
  shows "reads1 (bindR r_count f) (w_u64 (word_of_nat k) @ body) v"
proof -
  have "takes (k + n) (bindR r_count f) (w_u64 (word_of_nat k) @ body) v"
  proof (rule takesI)
    fix L t r
    assume w: "within L (length (w_u64 (word_of_nat k) @ body))" "t + (k + n) \<le> unat (li_max_total_entries L)"
    have "f k L \<lparr>in_rest = body @ r, in_total = word_of_nat (t + k)\<rparr> = Inr (v, \<lparr>in_rest = r, in_total = word_of_nat (t + k + n)\<rparr>)"
      by (rule takesD [OF assms(1)]) (use w in \<open>auto simp: within_def\<close>)
    moreover have "r_count L \<lparr>in_rest = w_u64 (word_of_nat k) @ body @ r, in_total = word_of_nat t\<rparr>
        = Inr (k, \<lparr>in_rest = body @ r, in_total = word_of_nat (t + k)\<rparr>)"
      by (rule count_takes) (use w assms(2) in \<open>auto simp: within_def\<close>)
    ultimately show "bindR r_count f L \<lparr>in_rest = (w_u64 (word_of_nat k) @ body) @ r, in_total = word_of_nat t\<rparr>
        = Inr (v, \<lparr>in_rest = r, in_total = word_of_nat (t + (k + n))\<rparr>)"
      by (simp add: bindR_def add.assoc del: of_nat_add)
  qed
  moreover have "k + n < length (w_u64 (word_of_nat k) @ body)" using assms(2) by simp
  ultimately show ?thesis unfolding reads1_def by blast
qed

lemma r_count_exact:
  "r_count L i = Inr (n, i') \<Longrightarrow> in_rest i = w_u64 (word_of_nat n) @ in_rest i'"
  unfolding r_count_def by (auto simp: reader_Inr dest!: wire_exact split: if_splits)

lemma repeatR_exact:
  assumes "consumes w rd"
  shows "repeatR n rd L i = Inr (xs, i') \<Longrightarrow> length xs = n \<and> in_rest i = concat (map w xs) @ in_rest i'"
proof (induction n arbitrary: i xs)
  case 0
  then show ?case by (simp add: retR_Inr)
next
  case (Suc n)
  from Suc.prems obtain x j ys where s: "rd L i = Inr (x, j)" "repeatR n rd L j = Inr (ys, i')" "xs = x # ys"
    by (auto simp: reader_Inr)
  from Suc.IH [OF s(2)] consumesD [OF assms s(1)] s(3) show ?case by simp
qed

lemma vector_codec:
  assumes "wire_codec w rd"
  shows "wire_codec (w_vector w) (r_vector rd)"
proof
  fix vs
  obtain n where "n + length vs \<le> length (concat (map w vs))" "takes n (repeatR (length vs) rd) (concat (map w vs)) vs"
    using repeatR_takes [of vs rd w] wire_codec.reads_back [OF assms] by blast
  then show "reads1 (r_vector rd) (w_vector w vs) vs"
    unfolding r_vector_def w_vector_def by (intro counted_reads1)
next
  show "consumes (w_vector w) (r_vector rd)"
    unfolding r_vector_def w_vector_def
    by (intro consumesI) (auto simp: reader_Inr dest!: r_count_exact repeatR_exact [OF wire_codec.exact [OF assms]])
qed

interpretation opt_str: wire_codec "w_optional w_string" "r_optional r_string"
  by (rule optional_codec) (rule str.wire_codec_axioms)

interpretation opt_i64: wire_codec "w_optional w_i64" "r_optional r_i64"
  by (rule optional_codec) (rule i64.wire_codec_axioms)

interpretation strs: wire_codec "w_vector w_string" "r_vector r_string"
  by (rule vector_codec) (rule str.wire_codec_axioms)

lemmas [wire_reads] = opt_str.reads_back opt_i64.reads_back strs.reads_back
lemmas [wire_exact] = opt_str.exact [THEN consumesD] opt_i64.exact [THEN consumesD] strs.exact [THEN consumesD]

end
