(* ===== verification/Fact_Records.thy ===== *)
theory Fact_Records
  imports Fact_Identity Pass_Registry Wire_Format
begin

text \<open>
  The records that extraction passes on to storage: \<^verbatim>\<open>ast/symbol_record.hpp\<close>,
  \<^verbatim>\<open>ast/edge_records.hpp\<close>, \<^verbatim>\<open>ast/fact_records.hpp\<close>, and the batch that holds them
  (\<^verbatim>\<open>ast/fact_batch.hpp\<close>). 64-bit integers are words, read as signed where the code compares
  them; a \<^verbatim>\<open>std::map\<close> is its list of entries in key order.
\<close>

subsection \<open>Enumerations\<close>

datatype IncludeDirectiveKind = directive_include | directive_include_next | directive_import | directive_include_macros | directive_unknown

fun directive_number :: "IncludeDirectiveKind \<Rightarrow> nat" where
  "directive_number directive_include = 1"
| "directive_number directive_include_next = 2"
| "directive_number directive_import = 3"
| "directive_number directive_include_macros = 4"
| "directive_number directive_unknown = 5"

datatype DiagnosticSeverity = severity_remark | severity_warning | severity_error | severity_fatal

fun severity_number :: "DiagnosticSeverity \<Rightarrow> nat" where
  "severity_number severity_remark = 0"
| "severity_number severity_warning = 1"
| "severity_number severity_error = 2"
| "severity_number severity_fatal = 3"

datatype LifecycleCleanupKind = cleanup_relations | cleanup_definitions | cleanup_diagnostics | cleanup_includes | cleanup_applicability

fun cleanup_number :: "LifecycleCleanupKind \<Rightarrow> nat" where
  "cleanup_number cleanup_relations = 0"
| "cleanup_number cleanup_definitions = 1"
| "cleanup_number cleanup_diagnostics = 2"
| "cleanup_number cleanup_includes = 3"
| "cleanup_number cleanup_applicability = 4"

datatype ApplicabilityRole = role_translation_unit | role_header

fun role_number :: "ApplicabilityRole \<Rightarrow> nat" where
  "role_number role_translation_unit = 0"
| "role_number role_header = 1"

datatype ApplicabilityState = state_registered | state_unregistered | state_ambiguous | state_stale | state_unavailable

fun state_number :: "ApplicabilityState \<Rightarrow> nat" where
  "state_number state_registered = 0"
| "state_number state_unregistered = 1"
| "state_number state_ambiguous = 2"
| "state_number state_stale = 3"
| "state_number state_unavailable = 4"

datatype FactFamily =
    fam_symbols | fam_declaration_sites | fam_relations | fam_edge_sites | fam_call_arguments | fam_template_parameters
  | fam_template_arguments | fam_types | fam_type_edges | fam_parameters | fam_symbol_types | fam_definitions
  | fam_definition_edges | fam_includes | fam_macros | fam_diagnostics | fam_evidence | fam_presentation_intents
  | fam_lifecycle_cleanup | fam_applicability

definition all_families :: "FactFamily list" where
  "all_families =
     [fam_symbols, fam_declaration_sites, fam_relations, fam_edge_sites, fam_call_arguments, fam_template_parameters,
      fam_template_arguments, fam_types, fam_type_edges, fam_parameters, fam_symbol_types, fam_definitions,
      fam_definition_edges, fam_includes, fam_macros, fam_diagnostics, fam_evidence, fam_presentation_intents,
      fam_lifecycle_cleanup, fam_applicability]"

fun family_number :: "FactFamily \<Rightarrow> nat" where
  "family_number fam_symbols = 0"
| "family_number fam_declaration_sites = 1"
| "family_number fam_relations = 2"
| "family_number fam_edge_sites = 3"
| "family_number fam_call_arguments = 4"
| "family_number fam_template_parameters = 5"
| "family_number fam_template_arguments = 6"
| "family_number fam_types = 7"
| "family_number fam_type_edges = 8"
| "family_number fam_parameters = 9"
| "family_number fam_symbol_types = 10"
| "family_number fam_definitions = 11"
| "family_number fam_definition_edges = 12"
| "family_number fam_includes = 13"
| "family_number fam_macros = 14"
| "family_number fam_diagnostics = 15"
| "family_number fam_evidence = 16"
| "family_number fam_presentation_intents = 17"
| "family_number fam_lifecycle_cleanup = 18"
| "family_number fam_applicability = 19"

subsection \<open>Records\<close>

record FactGenerationKey =
  fg_token :: string

record SymbolRecord =
  sr_file :: string
  sr_usr :: string
  sr_spelling :: string
  sr_kind :: "32 word"
  sr_qual_name :: "string option"
  sr_display_name :: "string option"
  sr_type_info :: "string option"
  sr_line :: i64
  sr_col :: i64
  sr_end_line :: i64
  sr_end_col :: i64
  sr_decl_line :: "i64 option"
  sr_decl_col :: "i64 option"
  sr_decl_path :: "string option"
  sr_is_definition :: bool
  sr_is_pure :: bool
  sr_is_static :: bool
  sr_is_instantiation :: bool
  sr_is_named_instance :: bool
  sr_callable_kind :: "string option"
  sr_template_origin :: "string option"
  sr_template_form :: "string option"
  sr_linkage :: "string option"
  sr_access :: "string option"
  sr_parent_usr :: "string option"
  sr_const_value :: "string option"
  sr_resolved :: bool
  sr_semantic_universe :: string
  sr_normalized_configuration :: string
  sr_identity_source :: "string option"
  sr_identity_translation_unit :: "string option"
  sr_local_anchor :: "string option"
  sr_kind_name :: string

record EdgeRecord =
  er_src_id :: i64
  er_dst_id :: i64
  er_kind :: i64
  er_count :: i64
  er_base_access :: "i64 option"
  er_is_virtual :: "i64 option"

record TemplateParamRecord =
  tp_owner_id :: i64
  tp_position :: i64
  tp_param_kind :: i64
  tp_name :: "string option"
  tp_default_txt :: "string option"
  tp_type_id :: "i64 option"
  tp_default_type_id :: "i64 option"
  tp_default_ref_id :: "i64 option"

record TemplateArgRecord =
  ta_owner_id :: i64
  ta_position :: i64
  ta_pack_index :: i64
  ta_arg_kind :: i64
  ta_ref_id :: "i64 option"
  ta_literal :: "string option"
  ta_type_id :: "i64 option"

record TypeNodeRecord =
  tn_type_key :: string
  tn_spelling :: string
  tn_kind :: i64
  tn_is_const :: bool
  tn_is_volatile :: bool
  tn_is_restrict :: bool
  tn_decl_usr :: "string option"
  tn_canonical_id :: "i64 option"
  tn_extent :: "string option"

record ParameterRecord =
  pr_position :: i64
  pr_pack_index :: i64
  pr_name :: "string option"
  pr_type_id :: "i64 option"
  pr_declared_type_id :: "i64 option"
  pr_adjusted_type_id :: "i64 option"
  pr_default_text :: "string option"
  pr_default_origin :: "string option"
  pr_reference_semantics :: "string option"
  pr_file_id :: "i64 option"
  pr_line :: "i64 option"
  pr_col :: "i64 option"

record EdgeSiteRecord =
  es_edge_id :: i64
  es_file_id :: i64
  es_line :: i64
  es_col :: i64
  es_conditional :: i64
  es_recv_src_kind :: "string option"
  es_recv_type_usr :: "string option"
  es_recv_decl_usr :: "string option"
  es_recv_param_pos :: "i64 option"
  es_recv_type_is_value :: "i64 option"

record CallArgRecord =
  ca_edge_id :: i64
  ca_file_id :: i64
  ca_line :: i64
  ca_col :: i64
  ca_position :: i64
  ca_src_kind :: string
  ca_type_usr :: "string option"
  ca_decl_usr :: "string option"
  ca_callee_usr :: "string option"
  ca_type_is_value :: "i64 option"

record LegacyApplyOrderKey =
  ao_component_path :: string
  ao_directory_path :: string
  ao_file_name :: string
  ao_first_seen :: u64
  ao_conflict_ordinal :: u64

record EvidenceRecord =
  ev_producer :: string
  ev_construct :: string
  ev_file :: string
  ev_line :: i64
  ev_col :: i64
  ev_completeness :: FactCompleteness
  ev_trust :: FactTrust
  ev_detail :: string

record PresentationIntent =
  pi_symbol_id :: i64
  pi_display_args :: "string list"

record SymbolEmissionMetadata =
  em_symbol :: SymbolNaturalKey
  em_apply_order :: LegacyApplyOrderKey
  em_record_key :: string
  em_first_seen :: u64
  em_last_seen :: u64

record DeclarationSiteRecord =
  ds_symbol :: SymbolNaturalKey
  ds_partition :: FactPartitionKey
  ds_line :: i64
  ds_col :: i64
  ds_end_line :: i64
  ds_end_col :: i64
  ds_is_definition :: bool

record IncludeDirectiveRecord =
  dr_partition :: FactPartitionKey
  dr_source :: PortableFileIdentity
  dr_destination :: "PortableFileIdentity option"
  dr_destination_path :: string
  dr_spelling :: string
  dr_directive :: IncludeDirectiveKind
  dr_line :: i64
  dr_col :: i64
  dr_begin_offset :: i64
  dr_end_offset :: i64
  dr_conditional_fingerprint :: string
  dr_is_angled :: bool
  dr_resolved :: bool
  dr_is_system :: bool
  dr_guarded :: bool

record MacroUseRecord =
  mu_partition :: FactPartitionKey
  mu_source :: PortableFileIdentity
  mu_definition :: "PortableFileIdentity option"
  mu_definition_path :: string
  mu_name :: string
  mu_count :: i64

record DiagnosticFactRecord =
  dg_partition :: FactPartitionKey
  dg_severity :: DiagnosticSeverity
  dg_spelling :: string
  dg_location_file :: "PortableFileIdentity option"
  dg_line :: "i64 option"
  dg_col :: "i64 option"

record LifecycleCleanupIntent =
  lc_partition :: FactPartitionKey
  lc_kind :: LifecycleCleanupKind
  lc_target :: PortableFileIdentity
  lc_prior_generation :: FactGenerationKey

record ApplicabilityOwnershipRecord =
  ap_partition :: FactPartitionKey
  ap_file :: PortableFileIdentity
  ap_role :: ApplicabilityRole
  ap_state :: ApplicabilityState
  ap_reason :: "string option"
  ap_generation :: FactGenerationKey

record TypeEdgeRecord =
  te_src_id :: i64
  te_kind :: i64
  te_position :: i64
  te_dst_id :: i64

record SymbolTypeRecord =
  st_symbol_id :: i64
  st_kind :: i64
  st_type_id :: i64

record ParameterFactRecord =
  pp_owner_id :: i64
  pp_parameter :: ParameterRecord

record DefinitionFactRecord =
  df_id :: i64
  df_symbol_id :: i64
  df_file_id :: i64
  df_line :: i64
  df_col :: i64
  df_end_line :: i64
  df_end_col :: i64
  df_init_text :: "string option"

record DefinitionEdgeRecord =
  de_definition_id :: i64
  de_destination_id :: i64
  de_kind :: i64

subsection \<open>Batches\<close>

record FactRecords =
  fr_symbols :: "SymbolRecord list"
  fr_declaration_sites :: "DeclarationSiteRecord list"
  fr_relations :: "EdgeRecord list"
  fr_edge_sites :: "EdgeSiteRecord list"
  fr_call_args :: "CallArgRecord list"
  fr_template_params :: "TemplateParamRecord list"
  fr_template_args :: "TemplateArgRecord list"
  fr_type_nodes :: "TypeNodeRecord list"
  fr_type_edges :: "TypeEdgeRecord list"
  fr_parameters :: "ParameterFactRecord list"
  fr_symbol_types :: "SymbolTypeRecord list"
  fr_definitions :: "DefinitionFactRecord list"
  fr_definition_edges :: "DefinitionEdgeRecord list"
  fr_includes :: "IncludeDirectiveRecord list"
  fr_macros :: "MacroUseRecord list"
  fr_diagnostics :: "DiagnosticFactRecord list"
  fr_evidence :: "EvidenceRecord list"
  fr_presentation_intents :: "PresentationIntent list"
  fr_lifecycle_cleanup :: "LifecycleCleanupIntent list"
  fr_applicability :: "ApplicabilityOwnershipRecord list"
  fr_symbol_order :: "SymbolEmissionMetadata list"

record FileFactPartition =
  fp_key :: FactPartitionKey
  fp_members :: "(FactFamily \<times> u64 list) list"

record PendingSymbolReference =
  ps_handle :: i64
  ps_usr :: string
  ps_identity_source :: string
  ps_semantic_universe :: string
  ps_translation_unit :: string

record FactBatch =
  fb_producer :: string
  fb_producer_version :: u32
  fb_completeness :: FactCompleteness
  fb_canonical :: bool
  fb_records :: FactRecords
  fb_partitions :: "FileFactPartition list"
  fb_symbol_keys :: "(i64 \<times> string) list"
  fb_relation_keys :: "(i64 \<times> string) list"
  fb_type_keys :: "(i64 \<times> string) list"
  fb_definition_keys :: "(i64 \<times> string) list"
  fb_file_keys :: "(i64 \<times> FactPartitionKey) list"
  fb_pending_symbol_references :: "PendingSymbolReference list"

end
