(* ===== verification/Fact_Codec.thy ===== *)
theory Fact_Codec
  imports Fact_Records
begin

text \<open>
  The wire form of every record of a fact batch (\<^verbatim>\<open>ast/fact_batch_artifact.cpp\<close>, the
  \<^verbatim>\<open>write_*\<close> and \<^verbatim>\<open>read_*\<close> functions). Each pair is an instance of \<^verbatim>\<open>wire_codec\<close>: what is
  written is read back, and what is read was written.
\<close>

subsection \<open>Enumerations\<close>

definition w_enum :: "('a \<Rightarrow> nat) \<Rightarrow> 'a \<Rightarrow> byte list" where
  "w_enum number v = w_u8 (word_of_nat (number v))"

definition r_enum :: "nat \<Rightarrow> nat \<Rightarrow> string \<Rightarrow> 'a list \<Rightarrow> 'a reader" where
  "r_enum minimum maximum name values = bindR r_u8 (\<lambda>v.
     if unat v < minimum \<or> maximum < unat v
     then failR artifact_corrupt (''FactBatch artifact contains an invalid '' @ name)
     else retR (values ! (unat v - minimum)))"

lemma enum_codec:
  assumes "map number values = [minimum ..< Suc maximum]" "\<And>v. v \<in> set values" "maximum < 256"
  shows "wire_codec (w_enum number) (r_enum minimum maximum name values)"
proof -
  have len: "length values = Suc maximum - minimum" using assms(1) by (metis length_map length_upt)
  have at: "number (values ! k) = minimum + k" if "k < length values" for k
    using assms(1) that len by (metis nth_map nth_upt add_less_cancel_left le_add_diff_inverse length_map less_diff_conv2 nat_le_linear not_less_eq_eq nth_map_upt)
  have num: "\<exists>k<length values. v = values ! k \<and> number v = minimum + k" for v
    using assms(2) [of v] at by (metis in_set_conv_nth)
  show ?thesis
  proof
    fix v
    obtain k where k: "k < length values" "v = values ! k" "number v = minimum + k" using num by blast
    then have m: "number v \<le> maximum" using len by auto
    then have "number v < 256" using assms(3) by linarith
    then have u: "unat (word_of_nat (number v) :: byte) = number v" by (simp add: unat_of_nat)
    show "reads1 (r_enum minimum maximum name values) (w_enum number v) v"
      unfolding r_enum_def w_enum_def by (rule reads1_check [OF u8.reads_back]) (use k m u in auto)
  next
    show "consumes (w_enum number) (r_enum minimum maximum name values)"
      unfolding r_enum_def w_enum_def
      by (intro consumesI) (auto simp: reader_Inr at len dest!: wire_exact split: if_splits)
  qed
qed

definition r_completeness :: "string \<Rightarrow> FactCompleteness reader" where
  "r_completeness name = r_enum 0 3 name [fact_complete, fact_partial, fact_unknown, fact_error]"

definition r_trust :: "string \<Rightarrow> FactTrust reader" where
  "r_trust name = r_enum 0 2 name [trust_trusted, trust_provisional, trust_inferred]"

definition r_directive :: "IncludeDirectiveKind reader" where
  "r_directive = r_enum 1 5 ''include directive kind''
     [directive_include, directive_include_next, directive_import, directive_include_macros, directive_unknown]"

definition r_severity :: "DiagnosticSeverity reader" where
  "r_severity = r_enum 0 3 ''diagnostic severity'' [severity_remark, severity_warning, severity_error, severity_fatal]"

definition r_cleanup_kind :: "LifecycleCleanupKind reader" where
  "r_cleanup_kind = r_enum 0 4 ''cleanup kind''
     [cleanup_relations, cleanup_definitions, cleanup_diagnostics, cleanup_includes, cleanup_applicability]"

definition r_role :: "ApplicabilityRole reader" where
  "r_role = r_enum 0 1 ''applicability role'' [role_translation_unit, role_header]"

definition r_state :: "ApplicabilityState reader" where
  "r_state = r_enum 0 4 ''applicability state''
     [state_registered, state_unregistered, state_ambiguous, state_stale, state_unavailable]"

definition r_family :: "FactFamily reader" where
  "r_family = r_enum 0 19 ''fact family'' all_families"

interpretation completeness: wire_codec "w_enum completeness_number" "r_completeness name" for name
  unfolding r_completeness_def
proof (rule enum_codec)
  fix v :: FactCompleteness
  show "v \<in> set ([fact_complete, fact_partial, fact_unknown, fact_error])" by (cases v) simp_all
qed (simp_all add: upt_rec)

interpretation trust: wire_codec "w_enum trust_number" "r_trust name" for name
  unfolding r_trust_def
proof (rule enum_codec)
  fix v :: FactTrust
  show "v \<in> set ([trust_trusted, trust_provisional, trust_inferred])" by (cases v) simp_all
qed (simp_all add: upt_rec)

interpretation directive: wire_codec "w_enum directive_number" r_directive
  unfolding r_directive_def
proof (rule enum_codec)
  fix v :: IncludeDirectiveKind
  show "v \<in> set ([directive_include, directive_include_next, directive_import, directive_include_macros, directive_unknown])" by (cases v) simp_all
qed (simp_all add: upt_rec)

interpretation severity: wire_codec "w_enum severity_number" r_severity
  unfolding r_severity_def
proof (rule enum_codec)
  fix v :: DiagnosticSeverity
  show "v \<in> set ([severity_remark, severity_warning, severity_error, severity_fatal])" by (cases v) simp_all
qed (simp_all add: upt_rec)

interpretation cleanup_kind: wire_codec "w_enum cleanup_number" r_cleanup_kind
  unfolding r_cleanup_kind_def
proof (rule enum_codec)
  fix v :: LifecycleCleanupKind
  show "v \<in> set ([cleanup_relations, cleanup_definitions, cleanup_diagnostics, cleanup_includes, cleanup_applicability])" by (cases v) simp_all
qed (simp_all add: upt_rec)

interpretation role: wire_codec "w_enum role_number" r_role
  unfolding r_role_def
proof (rule enum_codec)
  fix v :: ApplicabilityRole
  show "v \<in> set ([role_translation_unit, role_header])" by (cases v) simp_all
qed (simp_all add: upt_rec)

interpretation state: wire_codec "w_enum state_number" r_state
  unfolding r_state_def
proof (rule enum_codec)
  fix v :: ApplicabilityState
  show "v \<in> set ([state_registered, state_unregistered, state_ambiguous, state_stale, state_unavailable])" by (cases v) simp_all
qed (simp_all add: upt_rec)

interpretation family: wire_codec "w_enum family_number" r_family
  unfolding r_family_def
proof (rule enum_codec)
  fix v :: FactFamily
  show "v \<in> set (all_families)" by (cases v) (simp_all add: all_families_def)
qed (simp_all add: all_families_def upt_rec)

lemmas [wire_reads] = completeness.reads_back trust.reads_back directive.reads_back severity.reads_back
  cleanup_kind.reads_back role.reads_back state.reads_back family.reads_back

lemmas [wire_exact] = completeness.exact [THEN consumesD] trust.exact [THEN consumesD] directive.exact [THEN consumesD]
  severity.exact [THEN consumesD] cleanup_kind.exact [THEN consumesD] role.exact [THEN consumesD] state.exact [THEN consumesD]
  family.exact [THEN consumesD]

subsection \<open>Identities\<close>

definition write_file_identity :: "PortableFileIdentity \<Rightarrow> byte list" where
  "write_file_identity v =
     w_string (pf_component_path v) @ w_string (pf_directory_path v) @ w_string (pf_file_name v)"

definition read_file_identity :: "PortableFileIdentity reader" where
  "read_file_identity =
     bindR r_string (\<lambda>component_path. bindR r_string (\<lambda>directory_path.
     bindR r_string (\<lambda>file_name.
     retR \<lparr>pf_component_path = component_path, pf_directory_path = directory_path, pf_file_name =
     file_name\<rparr>)))"

interpretation c_file_identity: wire_codec write_file_identity read_file_identity
proof
  show "reads1 read_file_identity (write_file_identity v) v" for v
    unfolding read_file_identity_def write_file_identity_def
    by (rule reads1_bind, rule wire_reads, ((rule reads_bind, rule wire_reads)+)?, rule reads_map, rule wire_reads) simp
  show "consumes write_file_identity read_file_identity"
    unfolding read_file_identity_def write_file_identity_def by (intro consumesI) (auto simp: reader_Inr dest!: wire_exact)
qed

lemmas [wire_reads] = c_file_identity.reads_back
lemmas [wire_exact] = c_file_identity.exact [THEN consumesD]

interpretation opt_file: wire_codec "w_optional write_file_identity" "r_optional read_file_identity"
  by (rule optional_codec) (rule c_file_identity.wire_codec_axioms)

lemmas [wire_reads] = opt_file.reads_back
lemmas [wire_exact] = opt_file.exact [THEN consumesD]

definition write_configuration_content :: "PortableConfigurationContent \<Rightarrow> byte list" where
  "write_configuration_content v =
     w_optional w_string (cc_driver v) @ w_optional w_string (cc_working_dir v) @ w_vector w_string (cc_arguments v)
     @ w_optional w_string (cc_lang_mode v) @ w_optional w_string (cc_resource_dir v)"

definition read_configuration_content :: "PortableConfigurationContent reader" where
  "read_configuration_content =
     bindR (r_optional r_string) (\<lambda>driver. bindR (r_optional r_string) (\<lambda>working_dir.
     bindR (r_vector r_string) (\<lambda>arguments. bindR (r_optional r_string) (\<lambda>lang_mode.
     bindR (r_optional r_string) (\<lambda>resource_dir.
     retR \<lparr>cc_driver = driver, cc_working_dir = working_dir, cc_arguments = arguments, cc_lang_mode =
     lang_mode, cc_resource_dir = resource_dir\<rparr>)))))"

interpretation c_configuration_content: wire_codec write_configuration_content read_configuration_content
proof
  show "reads1 read_configuration_content (write_configuration_content v) v" for v
    unfolding read_configuration_content_def write_configuration_content_def
    by (rule reads1_bind, rule wire_reads, ((rule reads_bind, rule wire_reads)+)?, rule reads_map, rule wire_reads) simp
  show "consumes write_configuration_content read_configuration_content"
    unfolding read_configuration_content_def write_configuration_content_def by (intro consumesI) (auto simp: reader_Inr dest!: wire_exact)
qed

lemmas [wire_reads] = c_configuration_content.reads_back
lemmas [wire_exact] = c_configuration_content.exact [THEN consumesD]

definition write_configuration_identity :: "ConfigurationIdentity \<Rightarrow> byte list" where
  "write_configuration_identity v =
     w_string (ci_semantic_universe v) @ w_string (ci_translation_unit v) @ w_string (ci_normalized_configuration v)
     @ w_string (ci_identity_source v) @ write_configuration_content (ci_content v)"

definition read_configuration_identity :: "ConfigurationIdentity reader" where
  "read_configuration_identity =
     bindR r_string (\<lambda>semantic_universe. bindR r_string (\<lambda>translation_unit.
     bindR r_string (\<lambda>normalized_configuration. bindR r_string (\<lambda>identity_source.
     bindR read_configuration_content (\<lambda>content.
     retR \<lparr>ci_semantic_universe = semantic_universe, ci_translation_unit = translation_unit,
     ci_normalized_configuration = normalized_configuration, ci_identity_source = identity_source, ci_content =
     content\<rparr>)))))"

interpretation c_configuration_identity: wire_codec write_configuration_identity read_configuration_identity
proof
  show "reads1 read_configuration_identity (write_configuration_identity v) v" for v
    unfolding read_configuration_identity_def write_configuration_identity_def
    by (rule reads1_bind, rule wire_reads, ((rule reads_bind, rule wire_reads)+)?, rule reads_map, rule wire_reads) simp
  show "consumes write_configuration_identity read_configuration_identity"
    unfolding read_configuration_identity_def write_configuration_identity_def by (intro consumesI) (auto simp: reader_Inr dest!: wire_exact)
qed

lemmas [wire_reads] = c_configuration_identity.reads_back
lemmas [wire_exact] = c_configuration_identity.exact [THEN consumesD]

definition write_partition_key :: "FactPartitionKey \<Rightarrow> byte list" where
  "write_partition_key v =
     write_file_identity (pk_file v) @ write_configuration_identity (pk_configuration v)"

definition read_partition_key :: "FactPartitionKey reader" where
  "read_partition_key =
     bindR read_file_identity (\<lambda>file. bindR read_configuration_identity (\<lambda>configuration.
     retR \<lparr>pk_file = file, pk_configuration = configuration\<rparr>))"

interpretation c_partition_key: wire_codec write_partition_key read_partition_key
proof
  show "reads1 read_partition_key (write_partition_key v) v" for v
    unfolding read_partition_key_def write_partition_key_def
    by (rule reads1_bind, rule wire_reads, ((rule reads_bind, rule wire_reads)+)?, rule reads_map, rule wire_reads) simp
  show "consumes write_partition_key read_partition_key"
    unfolding read_partition_key_def write_partition_key_def by (intro consumesI) (auto simp: reader_Inr dest!: wire_exact)
qed

lemmas [wire_reads] = c_partition_key.reads_back
lemmas [wire_exact] = c_partition_key.exact [THEN consumesD]

definition write_symbol_key :: "SymbolNaturalKey \<Rightarrow> byte list" where
  "write_symbol_key v =
     write_partition_key (sk_partition v) @ w_string (sk_usr v) @ w_optional w_string (sk_local_anchor v)
     @ w_optional w_string (sk_linkage v)"

definition read_symbol_key :: "SymbolNaturalKey reader" where
  "read_symbol_key =
     bindR read_partition_key (\<lambda>partition. bindR r_string (\<lambda>usr.
     bindR (r_optional r_string) (\<lambda>local_anchor. bindR (r_optional r_string) (\<lambda>linkage.
     retR \<lparr>sk_partition = partition, sk_usr = usr, sk_local_anchor = local_anchor, sk_linkage =
     linkage\<rparr>))))"

interpretation c_symbol_key: wire_codec write_symbol_key read_symbol_key
proof
  show "reads1 read_symbol_key (write_symbol_key v) v" for v
    unfolding read_symbol_key_def write_symbol_key_def
    by (rule reads1_bind, rule wire_reads, ((rule reads_bind, rule wire_reads)+)?, rule reads_map, rule wire_reads) simp
  show "consumes write_symbol_key read_symbol_key"
    unfolding read_symbol_key_def write_symbol_key_def by (intro consumesI) (auto simp: reader_Inr dest!: wire_exact)
qed

lemmas [wire_reads] = c_symbol_key.reads_back
lemmas [wire_exact] = c_symbol_key.exact [THEN consumesD]

definition write_apply_order :: "LegacyApplyOrderKey \<Rightarrow> byte list" where
  "write_apply_order v =
     w_string (ao_component_path v) @ w_string (ao_directory_path v) @ w_string (ao_file_name v)
     @ w_u64 (ao_first_seen v) @ w_u64 (ao_conflict_ordinal v)"

definition read_apply_order :: "LegacyApplyOrderKey reader" where
  "read_apply_order =
     bindR r_string (\<lambda>component_path. bindR r_string (\<lambda>directory_path.
     bindR r_string (\<lambda>file_name. bindR r_u64 (\<lambda>first_seen. bindR r_u64 (\<lambda>conflict_ordinal.
     retR \<lparr>ao_component_path = component_path, ao_directory_path = directory_path, ao_file_name = file_name,
     ao_first_seen = first_seen, ao_conflict_ordinal = conflict_ordinal\<rparr>)))))"

interpretation c_apply_order: wire_codec write_apply_order read_apply_order
proof
  show "reads1 read_apply_order (write_apply_order v) v" for v
    unfolding read_apply_order_def write_apply_order_def
    by (rule reads1_bind, rule wire_reads, ((rule reads_bind, rule wire_reads)+)?, rule reads_map, rule wire_reads) simp
  show "consumes write_apply_order read_apply_order"
    unfolding read_apply_order_def write_apply_order_def by (intro consumesI) (auto simp: reader_Inr dest!: wire_exact)
qed

lemmas [wire_reads] = c_apply_order.reads_back
lemmas [wire_exact] = c_apply_order.exact [THEN consumesD]

subsection \<open>Symbols\<close>

definition write_symbol_location :: "SymbolRecord \<Rightarrow> byte list" where
  "write_symbol_location v =
     w_string (sr_file v) @ w_string (sr_usr v) @ w_string (sr_spelling v) @ w_i64 (scast (sr_kind v))
     @ w_optional w_string (sr_qual_name v) @ w_optional w_string (sr_display_name v) @ w_optional w_string (sr_type_info v)
     @ w_i64 (sr_line v) @ w_i64 (sr_col v) @ w_i64 (sr_end_line v) @ w_i64 (sr_end_col v)
     @ w_optional w_i64 (sr_decl_line v) @ w_optional w_i64 (sr_decl_col v) @ w_optional w_string (sr_decl_path v)
     @ w_bool (sr_is_definition v) @ w_bool (sr_is_pure v) @ w_bool (sr_is_static v)
     @ w_bool (sr_is_instantiation v) @ w_bool (sr_is_named_instance v)"

definition write_symbol_identity :: "SymbolRecord \<Rightarrow> byte list" where
  "write_symbol_identity v =
     w_optional w_string (sr_callable_kind v) @ w_optional w_string (sr_template_origin v) @ w_optional w_string (sr_template_form v)
     @ w_optional w_string (sr_linkage v) @ w_optional w_string (sr_access v) @ w_optional w_string (sr_parent_usr v)
     @ w_optional w_string (sr_const_value v) @ w_bool (sr_resolved v) @ w_string (sr_semantic_universe v)
     @ w_string (sr_normalized_configuration v) @ w_optional w_string (sr_identity_source v)
     @ w_optional w_string (sr_identity_translation_unit v) @ w_optional w_string (sr_local_anchor v) @ w_string (sr_kind_name v)"

definition write_symbol_record :: "SymbolRecord \<Rightarrow> byte list" where
  "write_symbol_record v = write_symbol_location v @ write_symbol_identity v"

text \<open>The kind is an \<^verbatim>\<open>int\<close> written as 64 bits; values outside its range are refused.\<close>

definition read_kind :: "32 word reader" where
  "read_kind = bindR r_i64 (\<lambda>kind.
     if sint kind < - (2 ^ 31) \<or> sint kind > 2 ^ 31 - 1
     then failR artifact_corrupt ''FactBatch symbol kind is outside the supported integer range''
     else retR (scast kind))"

definition read_symbol_location :: "SymbolRecord \<Rightarrow> SymbolRecord reader" where
  "read_symbol_location v =
     bindR r_string (\<lambda>file. bindR r_string (\<lambda>usr. bindR r_string (\<lambda>spelling. bindR read_kind (\<lambda>kind.
     bindR (r_optional r_string) (\<lambda>qual_name. bindR (r_optional r_string) (\<lambda>display_name. bindR (r_optional r_string) (\<lambda>type_info.
     bindR r_i64 (\<lambda>line. bindR r_i64 (\<lambda>col. bindR r_i64 (\<lambda>end_line. bindR r_i64 (\<lambda>end_col.
     bindR (r_optional r_i64) (\<lambda>decl_line. bindR (r_optional r_i64) (\<lambda>decl_col. bindR (r_optional r_string) (\<lambda>decl_path.
     bindR r_bool (\<lambda>is_definition. bindR r_bool (\<lambda>is_pure. bindR r_bool (\<lambda>is_static.
     bindR r_bool (\<lambda>is_instantiation. bindR r_bool (\<lambda>is_named_instance.
     retR (v\<lparr>sr_file := file, sr_usr := usr, sr_spelling := spelling, sr_kind := kind, sr_qual_name := qual_name,
       sr_display_name := display_name, sr_type_info := type_info, sr_line := line, sr_col := col, sr_end_line := end_line,
       sr_end_col := end_col, sr_decl_line := decl_line, sr_decl_col := decl_col, sr_decl_path := decl_path,
       sr_is_definition := is_definition, sr_is_pure := is_pure, sr_is_static := is_static,
       sr_is_instantiation := is_instantiation, sr_is_named_instance := is_named_instance\<rparr>))))))))))))))))))))"

definition read_symbol_identity :: "SymbolRecord \<Rightarrow> SymbolRecord reader" where
  "read_symbol_identity v =
     bindR (r_optional r_string) (\<lambda>callable_kind. bindR (r_optional r_string) (\<lambda>template_origin.
     bindR (r_optional r_string) (\<lambda>template_form. bindR (r_optional r_string) (\<lambda>linkage.
     bindR (r_optional r_string) (\<lambda>access. bindR (r_optional r_string) (\<lambda>parent_usr.
     bindR (r_optional r_string) (\<lambda>const_value. bindR r_bool (\<lambda>resolved. bindR r_string (\<lambda>semantic_universe.
     bindR r_string (\<lambda>normalized_configuration. bindR (r_optional r_string) (\<lambda>identity_source.
     bindR (r_optional r_string) (\<lambda>identity_translation_unit. bindR (r_optional r_string) (\<lambda>local_anchor.
     bindR r_string (\<lambda>kind_name.
     retR (v\<lparr>sr_callable_kind := callable_kind, sr_template_origin := template_origin, sr_template_form := template_form,
       sr_linkage := linkage, sr_access := access, sr_parent_usr := parent_usr, sr_const_value := const_value,
       sr_resolved := resolved, sr_semantic_universe := semantic_universe,
       sr_normalized_configuration := normalized_configuration, sr_identity_source := identity_source,
       sr_identity_translation_unit := identity_translation_unit, sr_local_anchor := local_anchor,
       sr_kind_name := kind_name\<rparr>)))))))))))))))"

text \<open>A default constructed record; both readers together set every field.\<close>

definition blank_symbol :: SymbolRecord where
  "blank_symbol = \<lparr>sr_file = [], sr_usr = [], sr_spelling = [], sr_kind = - 1, sr_qual_name = None, sr_display_name = None,
     sr_type_info = None, sr_line = 0, sr_col = 0, sr_end_line = 0, sr_end_col = 0, sr_decl_line = None, sr_decl_col = None,
     sr_decl_path = None, sr_is_definition = False, sr_is_pure = False, sr_is_static = False, sr_is_instantiation = False,
     sr_is_named_instance = False, sr_callable_kind = None, sr_template_origin = None, sr_template_form = None,
     sr_linkage = None, sr_access = None, sr_parent_usr = None, sr_const_value = None, sr_resolved = False,
     sr_semantic_universe = [], sr_normalized_configuration = [], sr_identity_source = None,
     sr_identity_translation_unit = None, sr_local_anchor = None, sr_kind_name = []\<rparr>"

definition read_symbol_record :: "SymbolRecord reader" where
  "read_symbol_record = bindR (read_symbol_location blank_symbol) read_symbol_identity"

lemma kind_up: "sint (scast k :: i64) = sint (k :: 32 word)" "scast (scast k :: i64) = k"
  by (rule sint_up_scast, simp add: is_up) (rule scast_up_scast_id, simp add: is_up)

lemma kind_down:
  assumes "- (2 ^ 31) \<le> sint w" "sint w \<le> 2 ^ 31 - 1"
  shows "scast (scast w :: 32 word) = (w :: i64)"
proof (rule signed_word_eqI)
  have "sint (scast w :: 32 word) = signed_take_bit 31 (sint w)" by (simp add: signed_scast_eq)
  also have "\<dots> = sint w" by (rule signed_take_bit_int_eq_self) (use assms in auto)
  finally show "sint (scast (scast w :: 32 word) :: i64) = sint w" by (simp add: kind_up)
qed

interpretation kind: wire_codec "\<lambda>k. w_i64 (scast k)" read_kind
proof
  have "- (2 ^ 31) \<le> sint k" "sint k \<le> 2 ^ 31 - 1" for k :: "32 word"
    using sint_greater_eq [of k] sint_less [of k] by simp_all
  then show "reads1 read_kind (w_i64 (scast k)) k" for k
    unfolding read_kind_def by (intro reads1_check [OF i64.reads_back]) (simp_all add: kind_up not_less)
  show "consumes (\<lambda>k. w_i64 (scast k)) read_kind"
    unfolding read_kind_def by (intro consumesI) (auto simp: reader_Inr kind_down not_less dest!: wire_exact split: if_splits)
qed

lemmas [wire_reads] = kind.reads_back
lemmas [wire_exact] = kind.exact [THEN consumesD]

lemma symbol_location_reads:
  "reads1 (read_symbol_location u) (write_symbol_location v)
     (u\<lparr>sr_file := sr_file v, sr_usr := sr_usr v, sr_spelling := sr_spelling v, sr_kind := sr_kind v
       , sr_qual_name := sr_qual_name v, sr_display_name := sr_display_name v, sr_type_info := sr_type_info v
       , sr_line := sr_line v, sr_col := sr_col v, sr_end_line := sr_end_line v, sr_end_col := sr_end_col v
       , sr_decl_line := sr_decl_line v, sr_decl_col := sr_decl_col v, sr_decl_path := sr_decl_path v
       , sr_is_definition := sr_is_definition v, sr_is_pure := sr_is_pure v, sr_is_static := sr_is_static v
       , sr_is_instantiation := sr_is_instantiation v, sr_is_named_instance := sr_is_named_instance v\<rparr>)"
  unfolding read_symbol_location_def write_symbol_location_def
  by (rule reads1_bind, rule wire_reads, (rule reads_bind, rule wire_reads)+, rule reads_map, rule wire_reads) simp

lemma symbol_identity_reads:
  "reads (read_symbol_identity u) (write_symbol_identity v)
     (u\<lparr>sr_callable_kind := sr_callable_kind v, sr_template_origin := sr_template_origin v
       , sr_template_form := sr_template_form v, sr_linkage := sr_linkage v, sr_access := sr_access v
       , sr_parent_usr := sr_parent_usr v, sr_const_value := sr_const_value v, sr_resolved := sr_resolved v
       , sr_semantic_universe := sr_semantic_universe v, sr_normalized_configuration := sr_normalized_configuration v
       , sr_identity_source := sr_identity_source v, sr_identity_translation_unit := sr_identity_translation_unit v
       , sr_local_anchor := sr_local_anchor v, sr_kind_name := sr_kind_name v\<rparr>)"
  unfolding read_symbol_identity_def write_symbol_identity_def
  by ((rule reads_bind, rule wire_reads)+, rule reads_map, rule wire_reads) simp

lemma symbol_location_exact:
  "read_symbol_location u L i = Inr (x, j) \<Longrightarrow> in_rest i = write_symbol_location x @ in_rest j"
  unfolding read_symbol_location_def write_symbol_location_def by (auto simp: reader_Inr dest!: wire_exact)

lemma symbol_identity_exact:
  "read_symbol_identity x L j = Inr (v, k) \<Longrightarrow>
    in_rest j = write_symbol_identity v @ in_rest k \<and> write_symbol_location v = write_symbol_location x"
  unfolding read_symbol_identity_def write_symbol_identity_def write_symbol_location_def by (auto simp: reader_Inr dest!: wire_exact)

interpretation c_symbol_record: wire_codec write_symbol_record read_symbol_record
proof
  show "reads1 read_symbol_record (write_symbol_record v) v" for v
    unfolding read_symbol_record_def write_symbol_record_def
    by (rule reads1_bind [OF symbol_location_reads])
      (rule back_subst [of "reads _ _", OF symbol_identity_reads [of _ v]], rule SymbolRecord.equality, simp_all)
  show "consumes write_symbol_record read_symbol_record"
    unfolding read_symbol_record_def write_symbol_record_def
    by (intro consumesI) (auto simp: bindR_Inr dest!: symbol_location_exact symbol_identity_exact)
qed

lemmas [wire_reads] = c_symbol_record.reads_back
lemmas [wire_exact] = c_symbol_record.exact [THEN consumesD]

subsection \<open>The other records\<close>

definition write_token :: "FactGenerationKey \<Rightarrow> byte list" where
  "write_token v = w_string (fg_token v)"

definition read_token :: "FactGenerationKey reader" where
  "read_token = bindR r_string (\<lambda>token. retR \<lparr>fg_token = token\<rparr>)"

interpretation c_token: wire_codec write_token read_token
proof
  show "reads1 read_token (write_token v) v" for v
    unfolding read_token_def write_token_def by (rule reads1_map [OF str.reads_back]) simp
  show "consumes write_token read_token"
    unfolding read_token_def write_token_def by (intro consumesI) (auto simp: reader_Inr dest!: wire_exact)
qed

lemmas [wire_reads] = c_token.reads_back
lemmas [wire_exact] = c_token.exact [THEN consumesD]

definition write_edge :: "EdgeRecord \<Rightarrow> byte list" where
  "write_edge v =
     w_i64 (er_src_id v) @ w_i64 (er_dst_id v) @ w_i64 (er_kind v) @ w_i64 (er_count v)
     @ w_optional w_i64 (er_base_access v) @ w_optional w_i64 (er_is_virtual v)"

definition read_edge :: "EdgeRecord reader" where
  "read_edge =
     bindR r_i64 (\<lambda>src_id. bindR r_i64 (\<lambda>dst_id. bindR r_i64 (\<lambda>kind.
     bindR r_i64 (\<lambda>count. bindR (r_optional r_i64) (\<lambda>base_access.
     bindR (r_optional r_i64) (\<lambda>is_virtual.
     retR \<lparr>er_src_id = src_id, er_dst_id = dst_id, er_kind = kind, er_count = count, er_base_access =
     base_access, er_is_virtual = is_virtual\<rparr>))))))"

interpretation c_edge: wire_codec write_edge read_edge
proof
  show "reads1 read_edge (write_edge v) v" for v
    unfolding read_edge_def write_edge_def
    by (rule reads1_bind, rule wire_reads, ((rule reads_bind, rule wire_reads)+)?, rule reads_map, rule wire_reads) simp
  show "consumes write_edge read_edge"
    unfolding read_edge_def write_edge_def by (intro consumesI) (auto simp: reader_Inr dest!: wire_exact)
qed

lemmas [wire_reads] = c_edge.reads_back
lemmas [wire_exact] = c_edge.exact [THEN consumesD]

definition write_edge_site :: "EdgeSiteRecord \<Rightarrow> byte list" where
  "write_edge_site v =
     w_i64 (es_edge_id v) @ w_i64 (es_file_id v) @ w_i64 (es_line v) @ w_i64 (es_col v) @ w_i64 (es_conditional v)
     @ w_optional w_string (es_recv_src_kind v) @ w_optional w_string (es_recv_type_usr v)
     @ w_optional w_string (es_recv_decl_usr v) @ w_optional w_i64 (es_recv_param_pos v)
     @ w_optional w_i64 (es_recv_type_is_value v)"

definition read_edge_site :: "EdgeSiteRecord reader" where
  "read_edge_site =
     bindR r_i64 (\<lambda>edge_id. bindR r_i64 (\<lambda>file_id. bindR r_i64 (\<lambda>line.
     bindR r_i64 (\<lambda>col. bindR r_i64 (\<lambda>conditional.
     bindR (r_optional r_string) (\<lambda>recv_src_kind. bindR (r_optional r_string) (\<lambda>recv_type_usr.
     bindR (r_optional r_string) (\<lambda>recv_decl_usr. bindR (r_optional r_i64) (\<lambda>recv_param_pos.
     bindR (r_optional r_i64) (\<lambda>recv_type_is_value.
     retR \<lparr>es_edge_id = edge_id, es_file_id = file_id, es_line = line, es_col = col, es_conditional =
     conditional, es_recv_src_kind = recv_src_kind, es_recv_type_usr = recv_type_usr, es_recv_decl_usr =
     recv_decl_usr, es_recv_param_pos = recv_param_pos, es_recv_type_is_value = recv_type_is_value\<rparr>))))))))))"

interpretation c_edge_site: wire_codec write_edge_site read_edge_site
proof
  show "reads1 read_edge_site (write_edge_site v) v" for v
    unfolding read_edge_site_def write_edge_site_def
    by (rule reads1_bind, rule wire_reads, ((rule reads_bind, rule wire_reads)+)?, rule reads_map, rule wire_reads) simp
  show "consumes write_edge_site read_edge_site"
    unfolding read_edge_site_def write_edge_site_def by (intro consumesI) (auto simp: reader_Inr dest!: wire_exact)
qed

lemmas [wire_reads] = c_edge_site.reads_back
lemmas [wire_exact] = c_edge_site.exact [THEN consumesD]

definition write_call_arg :: "CallArgRecord \<Rightarrow> byte list" where
  "write_call_arg v =
     w_i64 (ca_edge_id v) @ w_i64 (ca_file_id v) @ w_i64 (ca_line v) @ w_i64 (ca_col v) @ w_i64 (ca_position v)
     @ w_string (ca_src_kind v) @ w_optional w_string (ca_type_usr v) @ w_optional w_string (ca_decl_usr v)
     @ w_optional w_string (ca_callee_usr v) @ w_optional w_i64 (ca_type_is_value v)"

definition read_call_arg :: "CallArgRecord reader" where
  "read_call_arg =
     bindR r_i64 (\<lambda>edge_id. bindR r_i64 (\<lambda>file_id. bindR r_i64 (\<lambda>line.
     bindR r_i64 (\<lambda>col. bindR r_i64 (\<lambda>position. bindR r_string (\<lambda>src_kind.
     bindR (r_optional r_string) (\<lambda>type_usr. bindR (r_optional r_string) (\<lambda>decl_usr.
     bindR (r_optional r_string) (\<lambda>callee_usr. bindR (r_optional r_i64) (\<lambda>type_is_value.
     retR \<lparr>ca_edge_id = edge_id, ca_file_id = file_id, ca_line = line, ca_col = col, ca_position = position,
     ca_src_kind = src_kind, ca_type_usr = type_usr, ca_decl_usr = decl_usr, ca_callee_usr = callee_usr,
     ca_type_is_value = type_is_value\<rparr>))))))))))"

interpretation c_call_arg: wire_codec write_call_arg read_call_arg
proof
  show "reads1 read_call_arg (write_call_arg v) v" for v
    unfolding read_call_arg_def write_call_arg_def
    by (rule reads1_bind, rule wire_reads, ((rule reads_bind, rule wire_reads)+)?, rule reads_map, rule wire_reads) simp
  show "consumes write_call_arg read_call_arg"
    unfolding read_call_arg_def write_call_arg_def by (intro consumesI) (auto simp: reader_Inr dest!: wire_exact)
qed

lemmas [wire_reads] = c_call_arg.reads_back
lemmas [wire_exact] = c_call_arg.exact [THEN consumesD]

definition write_template_param :: "TemplateParamRecord \<Rightarrow> byte list" where
  "write_template_param v =
     w_i64 (tp_owner_id v) @ w_i64 (tp_position v) @ w_i64 (tp_param_kind v) @ w_optional w_string (tp_name v)
     @ w_optional w_string (tp_default_txt v) @ w_optional w_i64 (tp_type_id v)
     @ w_optional w_i64 (tp_default_type_id v) @ w_optional w_i64 (tp_default_ref_id v)"

definition read_template_param :: "TemplateParamRecord reader" where
  "read_template_param =
     bindR r_i64 (\<lambda>owner_id. bindR r_i64 (\<lambda>position. bindR r_i64 (\<lambda>param_kind.
     bindR (r_optional r_string) (\<lambda>name. bindR (r_optional r_string) (\<lambda>default_txt.
     bindR (r_optional r_i64) (\<lambda>type_id. bindR (r_optional r_i64) (\<lambda>default_type_id.
     bindR (r_optional r_i64) (\<lambda>default_ref_id.
     retR \<lparr>tp_owner_id = owner_id, tp_position = position, tp_param_kind = param_kind, tp_name = name,
     tp_default_txt = default_txt, tp_type_id = type_id, tp_default_type_id = default_type_id, tp_default_ref_id =
     default_ref_id\<rparr>))))))))"

interpretation c_template_param: wire_codec write_template_param read_template_param
proof
  show "reads1 read_template_param (write_template_param v) v" for v
    unfolding read_template_param_def write_template_param_def
    by (rule reads1_bind, rule wire_reads, ((rule reads_bind, rule wire_reads)+)?, rule reads_map, rule wire_reads) simp
  show "consumes write_template_param read_template_param"
    unfolding read_template_param_def write_template_param_def by (intro consumesI) (auto simp: reader_Inr dest!: wire_exact)
qed

lemmas [wire_reads] = c_template_param.reads_back
lemmas [wire_exact] = c_template_param.exact [THEN consumesD]

definition write_template_arg :: "TemplateArgRecord \<Rightarrow> byte list" where
  "write_template_arg v =
     w_i64 (ta_owner_id v) @ w_i64 (ta_position v) @ w_i64 (ta_pack_index v) @ w_i64 (ta_arg_kind v)
     @ w_optional w_i64 (ta_ref_id v) @ w_optional w_string (ta_literal v) @ w_optional w_i64 (ta_type_id v)"

definition read_template_arg :: "TemplateArgRecord reader" where
  "read_template_arg =
     bindR r_i64 (\<lambda>owner_id. bindR r_i64 (\<lambda>position. bindR r_i64 (\<lambda>pack_index.
     bindR r_i64 (\<lambda>arg_kind. bindR (r_optional r_i64) (\<lambda>ref_id.
     bindR (r_optional r_string) (\<lambda>literal. bindR (r_optional r_i64) (\<lambda>type_id.
     retR \<lparr>ta_owner_id = owner_id, ta_position = position, ta_pack_index = pack_index, ta_arg_kind = arg_kind,
     ta_ref_id = ref_id, ta_literal = literal, ta_type_id = type_id\<rparr>)))))))"

interpretation c_template_arg: wire_codec write_template_arg read_template_arg
proof
  show "reads1 read_template_arg (write_template_arg v) v" for v
    unfolding read_template_arg_def write_template_arg_def
    by (rule reads1_bind, rule wire_reads, ((rule reads_bind, rule wire_reads)+)?, rule reads_map, rule wire_reads) simp
  show "consumes write_template_arg read_template_arg"
    unfolding read_template_arg_def write_template_arg_def by (intro consumesI) (auto simp: reader_Inr dest!: wire_exact)
qed

lemmas [wire_reads] = c_template_arg.reads_back
lemmas [wire_exact] = c_template_arg.exact [THEN consumesD]

definition write_type_node :: "TypeNodeRecord \<Rightarrow> byte list" where
  "write_type_node v =
     w_string (tn_type_key v) @ w_string (tn_spelling v) @ w_i64 (tn_kind v) @ w_bool (tn_is_const v)
     @ w_bool (tn_is_volatile v) @ w_bool (tn_is_restrict v) @ w_optional w_string (tn_decl_usr v)
     @ w_optional w_i64 (tn_canonical_id v) @ w_optional w_string (tn_extent v)"

definition read_type_node :: "TypeNodeRecord reader" where
  "read_type_node =
     bindR r_string (\<lambda>type_key. bindR r_string (\<lambda>spelling. bindR r_i64 (\<lambda>kind.
     bindR r_bool (\<lambda>is_const. bindR r_bool (\<lambda>is_volatile. bindR r_bool (\<lambda>is_restrict.
     bindR (r_optional r_string) (\<lambda>decl_usr. bindR (r_optional r_i64) (\<lambda>canonical_id.
     bindR (r_optional r_string) (\<lambda>extent.
     retR \<lparr>tn_type_key = type_key, tn_spelling = spelling, tn_kind = kind, tn_is_const = is_const,
     tn_is_volatile = is_volatile, tn_is_restrict = is_restrict, tn_decl_usr = decl_usr, tn_canonical_id =
     canonical_id, tn_extent = extent\<rparr>)))))))))"

interpretation c_type_node: wire_codec write_type_node read_type_node
proof
  show "reads1 read_type_node (write_type_node v) v" for v
    unfolding read_type_node_def write_type_node_def
    by (rule reads1_bind, rule wire_reads, ((rule reads_bind, rule wire_reads)+)?, rule reads_map, rule wire_reads) simp
  show "consumes write_type_node read_type_node"
    unfolding read_type_node_def write_type_node_def by (intro consumesI) (auto simp: reader_Inr dest!: wire_exact)
qed

lemmas [wire_reads] = c_type_node.reads_back
lemmas [wire_exact] = c_type_node.exact [THEN consumesD]

definition write_type_edge :: "TypeEdgeRecord \<Rightarrow> byte list" where
  "write_type_edge v =
     w_i64 (te_src_id v) @ w_i64 (te_kind v) @ w_i64 (te_position v) @ w_i64 (te_dst_id v)"

definition read_type_edge :: "TypeEdgeRecord reader" where
  "read_type_edge =
     bindR r_i64 (\<lambda>src_id. bindR r_i64 (\<lambda>kind. bindR r_i64 (\<lambda>position.
     bindR r_i64 (\<lambda>dst_id.
     retR \<lparr>te_src_id = src_id, te_kind = kind, te_position = position, te_dst_id = dst_id\<rparr>))))"

interpretation c_type_edge: wire_codec write_type_edge read_type_edge
proof
  show "reads1 read_type_edge (write_type_edge v) v" for v
    unfolding read_type_edge_def write_type_edge_def
    by (rule reads1_bind, rule wire_reads, ((rule reads_bind, rule wire_reads)+)?, rule reads_map, rule wire_reads) simp
  show "consumes write_type_edge read_type_edge"
    unfolding read_type_edge_def write_type_edge_def by (intro consumesI) (auto simp: reader_Inr dest!: wire_exact)
qed

lemmas [wire_reads] = c_type_edge.reads_back
lemmas [wire_exact] = c_type_edge.exact [THEN consumesD]

definition write_parameter :: "ParameterRecord \<Rightarrow> byte list" where
  "write_parameter v =
     w_i64 (pr_position v) @ w_i64 (pr_pack_index v) @ w_optional w_string (pr_name v)
     @ w_optional w_i64 (pr_type_id v) @ w_optional w_i64 (pr_declared_type_id v)
     @ w_optional w_i64 (pr_adjusted_type_id v) @ w_optional w_string (pr_default_text v)
     @ w_optional w_string (pr_default_origin v) @ w_optional w_string (pr_reference_semantics v)
     @ w_optional w_i64 (pr_file_id v) @ w_optional w_i64 (pr_line v) @ w_optional w_i64 (pr_col v)"

definition read_parameter :: "ParameterRecord reader" where
  "read_parameter =
     bindR r_i64 (\<lambda>position. bindR r_i64 (\<lambda>pack_index. bindR (r_optional r_string) (\<lambda>name.
     bindR (r_optional r_i64) (\<lambda>type_id. bindR (r_optional r_i64) (\<lambda>declared_type_id.
     bindR (r_optional r_i64) (\<lambda>adjusted_type_id. bindR (r_optional r_string) (\<lambda>default_text.
     bindR (r_optional r_string) (\<lambda>default_origin. bindR (r_optional r_string) (\<lambda>reference_semantics.
     bindR (r_optional r_i64) (\<lambda>file_id. bindR (r_optional r_i64) (\<lambda>line.
     bindR (r_optional r_i64) (\<lambda>col.
     retR \<lparr>pr_position = position, pr_pack_index = pack_index, pr_name = name, pr_type_id = type_id,
     pr_declared_type_id = declared_type_id, pr_adjusted_type_id = adjusted_type_id, pr_default_text = default_text,
     pr_default_origin = default_origin, pr_reference_semantics = reference_semantics, pr_file_id = file_id, pr_line =
     line, pr_col = col\<rparr>))))))))))))"

interpretation c_parameter: wire_codec write_parameter read_parameter
proof
  show "reads1 read_parameter (write_parameter v) v" for v
    unfolding read_parameter_def write_parameter_def
    by (rule reads1_bind, rule wire_reads, ((rule reads_bind, rule wire_reads)+)?, rule reads_map, rule wire_reads) simp
  show "consumes write_parameter read_parameter"
    unfolding read_parameter_def write_parameter_def by (intro consumesI) (auto simp: reader_Inr dest!: wire_exact)
qed

lemmas [wire_reads] = c_parameter.reads_back
lemmas [wire_exact] = c_parameter.exact [THEN consumesD]

definition write_parameter_fact :: "ParameterFactRecord \<Rightarrow> byte list" where
  "write_parameter_fact v =
     w_i64 (pp_owner_id v) @ write_parameter (pp_parameter v)"

definition read_parameter_fact :: "ParameterFactRecord reader" where
  "read_parameter_fact =
     bindR r_i64 (\<lambda>owner_id. bindR read_parameter (\<lambda>parameter.
     retR \<lparr>pp_owner_id = owner_id, pp_parameter = parameter\<rparr>))"

interpretation c_parameter_fact: wire_codec write_parameter_fact read_parameter_fact
proof
  show "reads1 read_parameter_fact (write_parameter_fact v) v" for v
    unfolding read_parameter_fact_def write_parameter_fact_def
    by (rule reads1_bind, rule wire_reads, ((rule reads_bind, rule wire_reads)+)?, rule reads_map, rule wire_reads) simp
  show "consumes write_parameter_fact read_parameter_fact"
    unfolding read_parameter_fact_def write_parameter_fact_def by (intro consumesI) (auto simp: reader_Inr dest!: wire_exact)
qed

lemmas [wire_reads] = c_parameter_fact.reads_back
lemmas [wire_exact] = c_parameter_fact.exact [THEN consumesD]

definition write_symbol_type :: "SymbolTypeRecord \<Rightarrow> byte list" where
  "write_symbol_type v =
     w_i64 (st_symbol_id v) @ w_i64 (st_kind v) @ w_i64 (st_type_id v)"

definition read_symbol_type :: "SymbolTypeRecord reader" where
  "read_symbol_type =
     bindR r_i64 (\<lambda>symbol_id. bindR r_i64 (\<lambda>kind. bindR r_i64 (\<lambda>type_id.
     retR \<lparr>st_symbol_id = symbol_id, st_kind = kind, st_type_id = type_id\<rparr>)))"

interpretation c_symbol_type: wire_codec write_symbol_type read_symbol_type
proof
  show "reads1 read_symbol_type (write_symbol_type v) v" for v
    unfolding read_symbol_type_def write_symbol_type_def
    by (rule reads1_bind, rule wire_reads, ((rule reads_bind, rule wire_reads)+)?, rule reads_map, rule wire_reads) simp
  show "consumes write_symbol_type read_symbol_type"
    unfolding read_symbol_type_def write_symbol_type_def by (intro consumesI) (auto simp: reader_Inr dest!: wire_exact)
qed

lemmas [wire_reads] = c_symbol_type.reads_back
lemmas [wire_exact] = c_symbol_type.exact [THEN consumesD]

definition write_definition :: "DefinitionFactRecord \<Rightarrow> byte list" where
  "write_definition v =
     w_i64 (df_id v) @ w_i64 (df_symbol_id v) @ w_i64 (df_file_id v) @ w_i64 (df_line v) @ w_i64 (df_col v)
     @ w_i64 (df_end_line v) @ w_i64 (df_end_col v) @ w_optional w_string (df_init_text v)"

definition read_definition :: "DefinitionFactRecord reader" where
  "read_definition =
     bindR r_i64 (\<lambda>id. bindR r_i64 (\<lambda>symbol_id. bindR r_i64 (\<lambda>file_id.
     bindR r_i64 (\<lambda>line. bindR r_i64 (\<lambda>col. bindR r_i64 (\<lambda>end_line.
     bindR r_i64 (\<lambda>end_col. bindR (r_optional r_string) (\<lambda>init_text.
     retR \<lparr>df_id = id, df_symbol_id = symbol_id, df_file_id = file_id, df_line = line, df_col = col,
     df_end_line = end_line, df_end_col = end_col, df_init_text = init_text\<rparr>))))))))"

interpretation c_definition: wire_codec write_definition read_definition
proof
  show "reads1 read_definition (write_definition v) v" for v
    unfolding read_definition_def write_definition_def
    by (rule reads1_bind, rule wire_reads, ((rule reads_bind, rule wire_reads)+)?, rule reads_map, rule wire_reads) simp
  show "consumes write_definition read_definition"
    unfolding read_definition_def write_definition_def by (intro consumesI) (auto simp: reader_Inr dest!: wire_exact)
qed

lemmas [wire_reads] = c_definition.reads_back
lemmas [wire_exact] = c_definition.exact [THEN consumesD]

definition write_definition_edge :: "DefinitionEdgeRecord \<Rightarrow> byte list" where
  "write_definition_edge v =
     w_i64 (de_definition_id v) @ w_i64 (de_destination_id v) @ w_i64 (de_kind v)"

definition read_definition_edge :: "DefinitionEdgeRecord reader" where
  "read_definition_edge =
     bindR r_i64 (\<lambda>definition_id. bindR r_i64 (\<lambda>destination_id. bindR r_i64 (\<lambda>kind.
     retR \<lparr>de_definition_id = definition_id, de_destination_id = destination_id, de_kind = kind\<rparr>)))"

interpretation c_definition_edge: wire_codec write_definition_edge read_definition_edge
proof
  show "reads1 read_definition_edge (write_definition_edge v) v" for v
    unfolding read_definition_edge_def write_definition_edge_def
    by (rule reads1_bind, rule wire_reads, ((rule reads_bind, rule wire_reads)+)?, rule reads_map, rule wire_reads) simp
  show "consumes write_definition_edge read_definition_edge"
    unfolding read_definition_edge_def write_definition_edge_def by (intro consumesI) (auto simp: reader_Inr dest!: wire_exact)
qed

lemmas [wire_reads] = c_definition_edge.reads_back
lemmas [wire_exact] = c_definition_edge.exact [THEN consumesD]

definition write_declaration_site :: "DeclarationSiteRecord \<Rightarrow> byte list" where
  "write_declaration_site v =
     write_symbol_key (ds_symbol v) @ write_partition_key (ds_partition v) @ w_i64 (ds_line v) @ w_i64 (ds_col v)
     @ w_i64 (ds_end_line v) @ w_i64 (ds_end_col v) @ w_bool (ds_is_definition v)"

definition read_declaration_site :: "DeclarationSiteRecord reader" where
  "read_declaration_site =
     bindR read_symbol_key (\<lambda>symbol. bindR read_partition_key (\<lambda>partition. bindR r_i64 (\<lambda>line.
     bindR r_i64 (\<lambda>col. bindR r_i64 (\<lambda>end_line. bindR r_i64 (\<lambda>end_col.
     bindR r_bool (\<lambda>is_definition.
     retR \<lparr>ds_symbol = symbol, ds_partition = partition, ds_line = line, ds_col = col, ds_end_line = end_line,
     ds_end_col = end_col, ds_is_definition = is_definition\<rparr>)))))))"

interpretation c_declaration_site: wire_codec write_declaration_site read_declaration_site
proof
  show "reads1 read_declaration_site (write_declaration_site v) v" for v
    unfolding read_declaration_site_def write_declaration_site_def
    by (rule reads1_bind, rule wire_reads, ((rule reads_bind, rule wire_reads)+)?, rule reads_map, rule wire_reads) simp
  show "consumes write_declaration_site read_declaration_site"
    unfolding read_declaration_site_def write_declaration_site_def by (intro consumesI) (auto simp: reader_Inr dest!: wire_exact)
qed

lemmas [wire_reads] = c_declaration_site.reads_back
lemmas [wire_exact] = c_declaration_site.exact [THEN consumesD]

definition write_include :: "IncludeDirectiveRecord \<Rightarrow> byte list" where
  "write_include v =
     write_partition_key (dr_partition v) @ write_file_identity (dr_source v)
     @ w_optional write_file_identity (dr_destination v) @ w_string (dr_destination_path v) @ w_string (dr_spelling v)
     @ w_enum directive_number (dr_directive v) @ w_i64 (dr_line v) @ w_i64 (dr_col v) @ w_i64 (dr_begin_offset v)
     @ w_i64 (dr_end_offset v) @ w_string (dr_conditional_fingerprint v) @ w_bool (dr_is_angled v)
     @ w_bool (dr_resolved v) @ w_bool (dr_is_system v) @ w_bool (dr_guarded v)"

definition read_include :: "IncludeDirectiveRecord reader" where
  "read_include =
     bindR read_partition_key (\<lambda>partition. bindR read_file_identity (\<lambda>source.
     bindR (r_optional read_file_identity) (\<lambda>destination. bindR r_string (\<lambda>destination_path.
     bindR r_string (\<lambda>spelling. bindR r_directive (\<lambda>directive. bindR r_i64 (\<lambda>line.
     bindR r_i64 (\<lambda>col. bindR r_i64 (\<lambda>begin_offset. bindR r_i64 (\<lambda>end_offset.
     bindR r_string (\<lambda>conditional_fingerprint. bindR r_bool (\<lambda>is_angled.
     bindR r_bool (\<lambda>resolved. bindR r_bool (\<lambda>is_system. bindR r_bool (\<lambda>guarded.
     retR \<lparr>dr_partition = partition, dr_source = source, dr_destination = destination, dr_destination_path =
     destination_path, dr_spelling = spelling, dr_directive = directive, dr_line = line, dr_col = col, dr_begin_offset
     = begin_offset, dr_end_offset = end_offset, dr_conditional_fingerprint = conditional_fingerprint, dr_is_angled =
     is_angled, dr_resolved = resolved, dr_is_system = is_system, dr_guarded = guarded\<rparr>)))))))))))))))"

interpretation c_include: wire_codec write_include read_include
proof
  show "reads1 read_include (write_include v) v" for v
    unfolding read_include_def write_include_def
    by (rule reads1_bind, rule wire_reads, ((rule reads_bind, rule wire_reads)+)?, rule reads_map, rule wire_reads) simp
  show "consumes write_include read_include"
    unfolding read_include_def write_include_def by (intro consumesI) (auto simp: reader_Inr dest!: wire_exact)
qed

lemmas [wire_reads] = c_include.reads_back
lemmas [wire_exact] = c_include.exact [THEN consumesD]

definition write_macro :: "MacroUseRecord \<Rightarrow> byte list" where
  "write_macro v =
     write_partition_key (mu_partition v) @ write_file_identity (mu_source v)
     @ w_optional write_file_identity (mu_definition v) @ w_string (mu_definition_path v) @ w_string (mu_name v)
     @ w_i64 (mu_count v)"

definition read_macro :: "MacroUseRecord reader" where
  "read_macro =
     bindR read_partition_key (\<lambda>partition. bindR read_file_identity (\<lambda>source.
     bindR (r_optional read_file_identity) (\<lambda>definition. bindR r_string (\<lambda>definition_path.
     bindR r_string (\<lambda>name. bindR r_i64 (\<lambda>count.
     retR \<lparr>mu_partition = partition, mu_source = source, mu_definition = definition, mu_definition_path =
     definition_path, mu_name = name, mu_count = count\<rparr>))))))"

interpretation c_macro: wire_codec write_macro read_macro
proof
  show "reads1 read_macro (write_macro v) v" for v
    unfolding read_macro_def write_macro_def
    by (rule reads1_bind, rule wire_reads, ((rule reads_bind, rule wire_reads)+)?, rule reads_map, rule wire_reads) simp
  show "consumes write_macro read_macro"
    unfolding read_macro_def write_macro_def by (intro consumesI) (auto simp: reader_Inr dest!: wire_exact)
qed

lemmas [wire_reads] = c_macro.reads_back
lemmas [wire_exact] = c_macro.exact [THEN consumesD]

definition write_diagnostic :: "DiagnosticFactRecord \<Rightarrow> byte list" where
  "write_diagnostic v =
     write_partition_key (dg_partition v) @ w_enum severity_number (dg_severity v) @ w_string (dg_spelling v)
     @ w_optional write_file_identity (dg_location_file v) @ w_optional w_i64 (dg_line v)
     @ w_optional w_i64 (dg_col v)"

definition read_diagnostic :: "DiagnosticFactRecord reader" where
  "read_diagnostic =
     bindR read_partition_key (\<lambda>partition. bindR r_severity (\<lambda>severity.
     bindR r_string (\<lambda>spelling. bindR (r_optional read_file_identity) (\<lambda>location_file.
     bindR (r_optional r_i64) (\<lambda>line. bindR (r_optional r_i64) (\<lambda>col.
     retR \<lparr>dg_partition = partition, dg_severity = severity, dg_spelling = spelling, dg_location_file =
     location_file, dg_line = line, dg_col = col\<rparr>))))))"

interpretation c_diagnostic: wire_codec write_diagnostic read_diagnostic
proof
  show "reads1 read_diagnostic (write_diagnostic v) v" for v
    unfolding read_diagnostic_def write_diagnostic_def
    by (rule reads1_bind, rule wire_reads, ((rule reads_bind, rule wire_reads)+)?, rule reads_map, rule wire_reads) simp
  show "consumes write_diagnostic read_diagnostic"
    unfolding read_diagnostic_def write_diagnostic_def by (intro consumesI) (auto simp: reader_Inr dest!: wire_exact)
qed

lemmas [wire_reads] = c_diagnostic.reads_back
lemmas [wire_exact] = c_diagnostic.exact [THEN consumesD]

definition write_evidence :: "EvidenceRecord \<Rightarrow> byte list" where
  "write_evidence v =
     w_string (ev_producer v) @ w_string (ev_construct v) @ w_string (ev_file v) @ w_i64 (ev_line v)
     @ w_i64 (ev_col v) @ w_enum completeness_number (ev_completeness v) @ w_enum trust_number (ev_trust v)
     @ w_string (ev_detail v)"

definition read_evidence :: "EvidenceRecord reader" where
  "read_evidence =
     bindR r_string (\<lambda>producer. bindR r_string (\<lambda>construct. bindR r_string (\<lambda>file.
     bindR r_i64 (\<lambda>line. bindR r_i64 (\<lambda>col.
     bindR (r_completeness ''fact completeness'') (\<lambda>completeness.
     bindR (r_trust ''fact trust'') (\<lambda>trust. bindR r_string (\<lambda>detail.
     retR \<lparr>ev_producer = producer, ev_construct = construct, ev_file = file, ev_line = line, ev_col = col,
     ev_completeness = completeness, ev_trust = trust, ev_detail = detail\<rparr>))))))))"

interpretation c_evidence: wire_codec write_evidence read_evidence
proof
  show "reads1 read_evidence (write_evidence v) v" for v
    unfolding read_evidence_def write_evidence_def
    by (rule reads1_bind, rule wire_reads, ((rule reads_bind, rule wire_reads)+)?, rule reads_map, rule wire_reads) simp
  show "consumes write_evidence read_evidence"
    unfolding read_evidence_def write_evidence_def by (intro consumesI) (auto simp: reader_Inr dest!: wire_exact)
qed

lemmas [wire_reads] = c_evidence.reads_back
lemmas [wire_exact] = c_evidence.exact [THEN consumesD]

definition write_presentation :: "PresentationIntent \<Rightarrow> byte list" where
  "write_presentation v =
     w_i64 (pi_symbol_id v) @ w_vector w_string (pi_display_args v)"

definition read_presentation :: "PresentationIntent reader" where
  "read_presentation =
     bindR r_i64 (\<lambda>symbol_id. bindR (r_vector r_string) (\<lambda>display_args.
     retR \<lparr>pi_symbol_id = symbol_id, pi_display_args = display_args\<rparr>))"

interpretation c_presentation: wire_codec write_presentation read_presentation
proof
  show "reads1 read_presentation (write_presentation v) v" for v
    unfolding read_presentation_def write_presentation_def
    by (rule reads1_bind, rule wire_reads, ((rule reads_bind, rule wire_reads)+)?, rule reads_map, rule wire_reads) simp
  show "consumes write_presentation read_presentation"
    unfolding read_presentation_def write_presentation_def by (intro consumesI) (auto simp: reader_Inr dest!: wire_exact)
qed

lemmas [wire_reads] = c_presentation.reads_back
lemmas [wire_exact] = c_presentation.exact [THEN consumesD]

definition write_cleanup :: "LifecycleCleanupIntent \<Rightarrow> byte list" where
  "write_cleanup v =
     write_partition_key (lc_partition v) @ w_enum cleanup_number (lc_kind v) @ write_file_identity (lc_target v)
     @ write_token (lc_prior_generation v)"

definition read_cleanup :: "LifecycleCleanupIntent reader" where
  "read_cleanup =
     bindR read_partition_key (\<lambda>partition. bindR r_cleanup_kind (\<lambda>kind.
     bindR read_file_identity (\<lambda>target. bindR read_token (\<lambda>prior_generation.
     retR \<lparr>lc_partition = partition, lc_kind = kind, lc_target = target, lc_prior_generation =
     prior_generation\<rparr>))))"

interpretation c_cleanup: wire_codec write_cleanup read_cleanup
proof
  show "reads1 read_cleanup (write_cleanup v) v" for v
    unfolding read_cleanup_def write_cleanup_def
    by (rule reads1_bind, rule wire_reads, ((rule reads_bind, rule wire_reads)+)?, rule reads_map, rule wire_reads) simp
  show "consumes write_cleanup read_cleanup"
    unfolding read_cleanup_def write_cleanup_def by (intro consumesI) (auto simp: reader_Inr dest!: wire_exact)
qed

lemmas [wire_reads] = c_cleanup.reads_back
lemmas [wire_exact] = c_cleanup.exact [THEN consumesD]

definition write_applicability :: "ApplicabilityOwnershipRecord \<Rightarrow> byte list" where
  "write_applicability v =
     write_partition_key (ap_partition v) @ write_file_identity (ap_file v) @ w_enum role_number (ap_role v)
     @ w_enum state_number (ap_state v) @ w_optional w_string (ap_reason v) @ write_token (ap_generation v)"

definition read_applicability :: "ApplicabilityOwnershipRecord reader" where
  "read_applicability =
     bindR read_partition_key (\<lambda>partition. bindR read_file_identity (\<lambda>file.
     bindR r_role (\<lambda>role. bindR r_state (\<lambda>state. bindR (r_optional r_string) (\<lambda>reason.
     bindR read_token (\<lambda>generation.
     retR \<lparr>ap_partition = partition, ap_file = file, ap_role = role, ap_state = state, ap_reason = reason,
     ap_generation = generation\<rparr>))))))"

interpretation c_applicability: wire_codec write_applicability read_applicability
proof
  show "reads1 read_applicability (write_applicability v) v" for v
    unfolding read_applicability_def write_applicability_def
    by (rule reads1_bind, rule wire_reads, ((rule reads_bind, rule wire_reads)+)?, rule reads_map, rule wire_reads) simp
  show "consumes write_applicability read_applicability"
    unfolding read_applicability_def write_applicability_def by (intro consumesI) (auto simp: reader_Inr dest!: wire_exact)
qed

lemmas [wire_reads] = c_applicability.reads_back
lemmas [wire_exact] = c_applicability.exact [THEN consumesD]

definition write_symbol_order :: "SymbolEmissionMetadata \<Rightarrow> byte list" where
  "write_symbol_order v =
     write_symbol_key (em_symbol v) @ write_apply_order (em_apply_order v) @ w_string (em_record_key v)
     @ w_u64 (em_first_seen v) @ w_u64 (em_last_seen v)"

definition read_symbol_order :: "SymbolEmissionMetadata reader" where
  "read_symbol_order =
     bindR read_symbol_key (\<lambda>symbol. bindR read_apply_order (\<lambda>apply_order.
     bindR r_string (\<lambda>record_key. bindR r_u64 (\<lambda>first_seen. bindR r_u64 (\<lambda>last_seen.
     retR \<lparr>em_symbol = symbol, em_apply_order = apply_order, em_record_key = record_key, em_first_seen =
     first_seen, em_last_seen = last_seen\<rparr>)))))"

interpretation c_symbol_order: wire_codec write_symbol_order read_symbol_order
proof
  show "reads1 read_symbol_order (write_symbol_order v) v" for v
    unfolding read_symbol_order_def write_symbol_order_def
    by (rule reads1_bind, rule wire_reads, ((rule reads_bind, rule wire_reads)+)?, rule reads_map, rule wire_reads) simp
  show "consumes write_symbol_order read_symbol_order"
    unfolding read_symbol_order_def write_symbol_order_def by (intro consumesI) (auto simp: reader_Inr dest!: wire_exact)
qed

lemmas [wire_reads] = c_symbol_order.reads_back
lemmas [wire_exact] = c_symbol_order.exact [THEN consumesD]

end
