(* ===== verification/Fact_Batch.thy ===== *)
theory Fact_Batch
  imports Fact_Records
begin

text \<open>
  Sort keys of the records and the canonical layout of a batch (\<^verbatim>\<open>ast/fact_batch.cpp\<close>):
  partitions strictly ordered, every family split into runs that the partitions list in order
  and that are strictly ordered by key, records filed under their own partition, and
  the emission order of symbols in groups.
\<close>

subsection \<open>Keys\<close>

abbreviation unit_sep :: string where "unit_sep \<equiv> [CHR 0x1F]"

fun optional_text :: "string option \<Rightarrow> string" where
  "optional_text None = ''-''"
| "optional_text (Some s) = show_nat (length s) @ '':'' @ s"

fun optional_text_int :: "i64 option \<Rightarrow> string" where
  "optional_text_int None = ''-''"
| "optional_text_int (Some i) = show_int (sint i)"

definition bool_text :: "bool \<Rightarrow> string" where
  "bool_text b = (if b then ''1'' else ''0'')"

definition to_string :: "i64 \<Rightarrow> string" where
  "to_string i = show_int (sint i)"

definition portable_file_key :: "PortableFileIdentity \<Rightarrow> string" where
  "portable_file_key f = pf_component_path f @ unit_sep @ pf_directory_path f @ unit_sep @ pf_file_name f"

fun optional_file_key :: "PortableFileIdentity option \<Rightarrow> string" where
  "optional_file_key None = ''-''"
| "optional_file_key (Some f) = portable_file_key f"

definition symbol_record_key :: "SymbolRecord \<Rightarrow> string" where
  "symbol_record_key r =
     sr_file r @ unit_sep @ sr_usr r @ unit_sep @ sr_spelling r @ unit_sep
     @ show_int (sint (sr_kind r)) @ unit_sep @ sr_kind_name r @ unit_sep
     @ optional_text (sr_qual_name r) @ unit_sep @ optional_text (sr_display_name r) @ unit_sep
     @ optional_text (sr_type_info r) @ unit_sep
     @ to_string (sr_line r) @ '':'' @ to_string (sr_col r) @ '':'' @ to_string (sr_end_line r) @ '':''
     @ to_string (sr_end_col r) @ '':'' @ optional_text_int (sr_decl_line r) @ '':''
     @ optional_text_int (sr_decl_col r) @ '':'' @ optional_text (sr_decl_path r) @ '':''
     @ bool_text (sr_is_definition r) @ bool_text (sr_is_pure r) @ bool_text (sr_is_static r)
     @ bool_text (sr_is_instantiation r) @ bool_text (sr_is_named_instance r) @ unit_sep
     @ optional_text (sr_linkage r) @ unit_sep @ optional_text (sr_access r) @ unit_sep
     @ optional_text (sr_parent_usr r) @ unit_sep @ optional_text (sr_const_value r) @ unit_sep
     @ bool_text (sr_resolved r)"

definition declaration_site_key :: "DeclarationSiteRecord \<Rightarrow> string" where
  "declaration_site_key r =
     symbol_string (ds_symbol r) @ '':'' @ to_string (ds_line r) @ '':'' @ to_string (ds_col r) @ '':''
     @ to_string (ds_end_line r) @ '':'' @ to_string (ds_end_col r) @ '':'' @ bool_text (ds_is_definition r)"

definition edge_record_key :: "EdgeRecord \<Rightarrow> string" where
  "edge_record_key r =
     to_string (er_src_id r) @ '':'' @ to_string (er_dst_id r) @ '':'' @ to_string (er_kind r) @ '':''
     @ to_string (er_count r) @ '':'' @ optional_text_int (er_base_access r) @ '':'' @ optional_text_int (er_is_virtual r)"

definition edge_site_key :: "EdgeSiteRecord \<Rightarrow> string" where
  "edge_site_key r =
     to_string (es_edge_id r) @ '':'' @ to_string (es_file_id r) @ '':'' @ to_string (es_line r) @ '':''
     @ to_string (es_col r) @ '':'' @ to_string (es_conditional r) @ '':'' @ optional_text (es_recv_src_kind r) @ '':''
     @ optional_text (es_recv_type_usr r) @ '':'' @ optional_text (es_recv_decl_usr r) @ '':''
     @ optional_text_int (es_recv_param_pos r) @ '':'' @ optional_text_int (es_recv_type_is_value r)"

definition call_arg_key :: "CallArgRecord \<Rightarrow> string" where
  "call_arg_key r =
     to_string (ca_edge_id r) @ '':'' @ to_string (ca_position r) @ '':'' @ to_string (ca_file_id r) @ '':''
     @ to_string (ca_line r) @ '':'' @ to_string (ca_col r) @ '':'' @ ca_src_kind r @ '':''
     @ optional_text (ca_type_usr r) @ '':'' @ optional_text (ca_decl_usr r) @ '':''
     @ optional_text (ca_callee_usr r) @ '':'' @ optional_text_int (ca_type_is_value r)"

definition template_param_key :: "TemplateParamRecord \<Rightarrow> string" where
  "template_param_key r =
     to_string (tp_owner_id r) @ '':'' @ to_string (tp_position r) @ '':'' @ to_string (tp_param_kind r) @ '':''
     @ optional_text (tp_name r) @ '':'' @ optional_text (tp_default_txt r) @ '':'' @ optional_text_int (tp_type_id r) @ '':''
     @ optional_text_int (tp_default_type_id r) @ '':'' @ optional_text_int (tp_default_ref_id r)"

definition template_arg_key :: "TemplateArgRecord \<Rightarrow> string" where
  "template_arg_key r =
     to_string (ta_owner_id r) @ '':'' @ to_string (ta_position r) @ '':'' @ to_string (ta_pack_index r) @ '':''
     @ to_string (ta_arg_kind r) @ '':'' @ optional_text_int (ta_ref_id r) @ '':'' @ optional_text (ta_literal r) @ '':''
     @ optional_text_int (ta_type_id r)"

definition type_node_key :: "TypeNodeRecord \<Rightarrow> string" where
  "type_node_key r =
     tn_type_key r @ unit_sep @ tn_spelling r @ unit_sep @ to_string (tn_kind r) @ '':''
     @ bool_text (tn_is_const r) @ bool_text (tn_is_volatile r) @ bool_text (tn_is_restrict r) @ '':''
     @ optional_text (tn_decl_usr r) @ '':'' @ optional_text_int (tn_canonical_id r) @ '':'' @ optional_text (tn_extent r)"

definition type_edge_key :: "TypeEdgeRecord \<Rightarrow> string" where
  "type_edge_key r =
     to_string (te_src_id r) @ '':'' @ to_string (te_kind r) @ '':'' @ to_string (te_position r) @ '':'' @ to_string (te_dst_id r)"

definition parameter_key :: "ParameterFactRecord \<Rightarrow> string" where
  "parameter_key r = (let p = pp_parameter r in
     to_string (pp_owner_id r) @ '':'' @ to_string (pr_position p) @ '':'' @ to_string (pr_pack_index p) @ '':''
     @ optional_text (pr_name p) @ '':'' @ optional_text_int (pr_type_id p) @ '':'' @ optional_text_int (pr_declared_type_id p) @ '':''
     @ optional_text_int (pr_adjusted_type_id p) @ '':'' @ optional_text (pr_default_text p) @ '':''
     @ optional_text (pr_default_origin p) @ '':'' @ optional_text (pr_reference_semantics p) @ '':''
     @ optional_text_int (pr_file_id p) @ '':'' @ optional_text_int (pr_line p) @ '':'' @ optional_text_int (pr_col p))"

definition symbol_type_key :: "SymbolTypeRecord \<Rightarrow> string" where
  "symbol_type_key r = to_string (st_symbol_id r) @ '':'' @ to_string (st_kind r) @ '':'' @ to_string (st_type_id r)"

definition definition_key :: "DefinitionFactRecord \<Rightarrow> string" where
  "definition_key r =
     to_string (df_id r) @ '':'' @ to_string (df_symbol_id r) @ '':'' @ to_string (df_file_id r) @ '':''
     @ to_string (df_line r) @ '':'' @ to_string (df_col r) @ '':'' @ to_string (df_end_line r) @ '':''
     @ to_string (df_end_col r) @ '':'' @ optional_text (df_init_text r)"

definition definition_edge_key :: "DefinitionEdgeRecord \<Rightarrow> string" where
  "definition_edge_key r = to_string (de_definition_id r) @ '':'' @ to_string (de_destination_id r) @ '':'' @ to_string (de_kind r)"

definition evidence_key :: "EvidenceRecord \<Rightarrow> string" where
  "evidence_key r =
     ev_producer r @ unit_sep @ ev_construct r @ unit_sep @ ev_file r @ unit_sep @ to_string (ev_line r) @ '':''
     @ to_string (ev_col r) @ '':'' @ show_nat (completeness_number (ev_completeness r)) @ '':''
     @ show_nat (trust_number (ev_trust r)) @ unit_sep @ ev_detail r"

definition include_key :: "IncludeDirectiveRecord \<Rightarrow> string" where
  "include_key r =
     partition_string (dr_partition r) @ '':'' @ portable_file_key (dr_source r) @ '':''
     @ optional_file_key (dr_destination r) @ '':'' @ dr_destination_path r @ '':'' @ dr_spelling r @ '':''
     @ show_nat (directive_number (dr_directive r)) @ '':'' @ to_string (dr_line r) @ '':'' @ to_string (dr_col r) @ '':''
     @ to_string (dr_begin_offset r) @ '':'' @ to_string (dr_end_offset r) @ '':'' @ dr_conditional_fingerprint r @ '':''
     @ bool_text (dr_is_angled r) @ bool_text (dr_resolved r) @ bool_text (dr_is_system r) @ bool_text (dr_guarded r)"

definition macro_key :: "MacroUseRecord \<Rightarrow> string" where
  "macro_key r =
     partition_string (mu_partition r) @ '':'' @ portable_file_key (mu_source r) @ '':''
     @ optional_file_key (mu_definition r) @ '':'' @ mu_definition_path r @ '':'' @ mu_name r @ '':'' @ to_string (mu_count r)"

definition diagnostic_key :: "DiagnosticFactRecord \<Rightarrow> string" where
  "diagnostic_key r =
     partition_string (dg_partition r) @ '':'' @ show_nat (severity_number (dg_severity r)) @ '':'' @ dg_spelling r @ '':''
     @ optional_file_key (dg_location_file r) @ '':'' @ optional_text_int (dg_line r) @ '':'' @ optional_text_int (dg_col r)"

definition presentation_key :: "PresentationIntent \<Rightarrow> string" where
  "presentation_key r =
     to_string (pi_symbol_id r)
     @ concat (map (\<lambda>argument. '':'' @ show_nat (length argument) @ '':'' @ argument) (pi_display_args r))"

definition cleanup_key :: "LifecycleCleanupIntent \<Rightarrow> string" where
  "cleanup_key r =
     partition_string (lc_partition r) @ '':'' @ show_nat (cleanup_number (lc_kind r)) @ '':''
     @ portable_path (lc_target r) @ '':'' @ fg_token (lc_prior_generation r)"

definition applicability_key :: "ApplicabilityOwnershipRecord \<Rightarrow> string" where
  "applicability_key r =
     partition_string (ap_partition r) @ '':'' @ portable_path (ap_file r) @ '':'' @ show_nat (role_number (ap_role r)) @ '':''
     @ show_nat (state_number (ap_state r)) @ '':'' @ optional_text (ap_reason r) @ '':'' @ fg_token (ap_generation r)"

subsection \<open>Order of partitions\<close>

text \<open>The defaulted comparison of partition keys is the lexicographic order of their fields; an absent
  field is smaller than a present one.\<close>

definition opt_order :: "string option \<Rightarrow> string list" where
  "opt_order v = (case v of None \<Rightarrow> [] | Some s \<Rightarrow> [s])"

type_synonym partition_order = "string list \<times> string list list"

definition partition_rank :: "FactPartitionKey \<Rightarrow> partition_order" where
  "partition_rank k =
     (let f = pk_file k; c = pk_configuration k; t = ci_content c in
      ([pf_component_path f, pf_directory_path f, pf_file_name f, ci_semantic_universe c, ci_translation_unit c,
        ci_normalized_configuration c, ci_identity_source c],
       [opt_order (cc_driver t), opt_order (cc_working_dir t), cc_arguments t, opt_order (cc_lang_mode t),
        opt_order (cc_resource_dir t)]))"

fun strictly_increasing :: "'a::linorder list \<Rightarrow> bool" where
  "strictly_increasing [] = True"
| "strictly_increasing [x] = True"
| "strictly_increasing (x # y # xs) = (x < y \<and> strictly_increasing (y # xs))"

definition partitions_are_strictly_ordered :: "FileFactPartition list \<Rightarrow> bool" where
  "partitions_are_strictly_ordered ps = strictly_increasing (map (\<lambda>p. partition_rank (fp_key p)) ps)"

subsection \<open>Canonical families\<close>

fun members_canonical :: "('a \<Rightarrow> string) \<Rightarrow> 'a list \<Rightarrow> string option \<Rightarrow> nat \<Rightarrow> u64 list \<Rightarrow> nat option" where
  "members_canonical key rs prev expected [] = Some expected"
| "members_canonical key rs prev expected (index # rest) =
     (if unat index \<noteq> expected \<or> unat index \<ge> length rs then None
      else let current = key (rs ! unat index) in
        if (case prev of None \<Rightarrow> False | Some p \<Rightarrow> p \<ge> current) then None
        else members_canonical key rs (Some current) (expected + 1) rest)"

fun family_loop :: "('a \<Rightarrow> string) \<Rightarrow> 'a list \<Rightarrow> FactFamily \<Rightarrow> nat \<Rightarrow> FileFactPartition list \<Rightarrow> nat option" where
  "family_loop key rs family expected [] = Some expected"
| "family_loop key rs family expected (p # ps) =
     (case map_of (fp_members p) family of
        None \<Rightarrow> family_loop key rs family expected ps
      | Some members \<Rightarrow>
          if members = [] then None
          else (case members_canonical key rs None expected members of
                  None \<Rightarrow> None
                | Some next \<Rightarrow> family_loop key rs family next ps))"

definition family_is_canonical :: "'a list \<Rightarrow> FileFactPartition list \<Rightarrow> FactFamily \<Rightarrow> ('a \<Rightarrow> string) \<Rightarrow> bool" where
  "family_is_canonical rs ps family key \<longleftrightarrow> family_loop key rs family 0 ps = Some (length rs)"

definition family_ownership_is_canonical ::
  "'a list \<Rightarrow> FileFactPartition list \<Rightarrow> FactFamily \<Rightarrow> ('a \<Rightarrow> FactPartitionKey) \<Rightarrow> bool" where
  "family_ownership_is_canonical rs ps family part \<longleftrightarrow>
     list_all (\<lambda>p. case map_of (fp_members p) family of
        None \<Rightarrow> True
      | Some members \<Rightarrow> list_all (\<lambda>index. unat index < length rs \<and> part (rs ! unat index) = fp_key p) members) ps"

subsection \<open>Emission order of symbols\<close>

definition emission_file :: "SymbolEmissionMetadata \<Rightarrow> string \<times> string \<times> string" where
  "emission_file e = (ao_component_path (em_apply_order e), ao_directory_path (em_apply_order e), ao_file_name (em_apply_order e))"

definition natural_of :: "SymbolEmissionMetadata \<Rightarrow> string" where
  "natural_of e = symbol_string (em_symbol e)"

fun group_loop :: "string \<Rightarrow> nat \<Rightarrow> string \<times> string \<times> string \<Rightarrow> SymbolEmissionMetadata list \<Rightarrow>
    ((string \<times> string \<times> string) \<times> SymbolEmissionMetadata list) option" where
  "group_loop natural index minimum [] = Some (minimum, [])"
| "group_loop natural index minimum (e # es) =
     (if natural_of e \<noteq> natural then Some (minimum, e # es)
      else if unat (em_first_seen e) \<noteq> index \<or> unat (em_last_seen e) \<noteq> index
        \<or> unat (ao_first_seen (em_apply_order e)) \<noteq> index \<or> unat (ao_conflict_ordinal (em_apply_order e)) \<noteq> index then None
      else group_loop natural (index + 1) (min minimum (emission_file e)) es)"

lemma group_loop_shorter: "group_loop natural index minimum es = Some (m, rest) \<Longrightarrow> length rest \<le> length es"
  by (induction natural index minimum es rule: group_loop.induct) (auto split: if_splits)

function order_loop :: "((string \<times> string \<times> string) \<times> string) option \<Rightarrow> string list \<Rightarrow> SymbolEmissionMetadata list \<Rightarrow> bool" where
  "order_loop prev seen [] = True"
| "order_loop prev seen (e # es) =
     (let natural = natural_of e in
      if natural \<in> set seen then False
      else case group_loop natural 0 (emission_file e) (e # es) of
          None \<Rightarrow> False
        | Some (minimum, rest) \<Rightarrow>
            if (case prev of None \<Rightarrow> False | Some p \<Rightarrow> p \<ge> (minimum, natural)) then False
            else order_loop (Some (minimum, natural)) (natural # seen) rest)"
  by pat_completeness auto
termination
  by (relation "measure (\<lambda>(_, _, es). length es)")
    (auto dest!: group_loop_shorter split: if_splits)

definition symbol_order_is_canonical :: "SymbolEmissionMetadata list \<Rightarrow> bool" where
  "symbol_order_is_canonical es = order_loop None [] es"

subsection \<open>Canonical layout\<close>

definition has_canonical_layout :: "FactBatch \<Rightarrow> bool" where
  "has_canonical_layout b \<longleftrightarrow>
     (let rs = fb_records b; ps = fb_partitions b in
      fb_canonical b \<and> partitions_are_strictly_ordered ps
      \<and> family_is_canonical (fr_symbols rs) ps fam_symbols symbol_record_key
      \<and> family_is_canonical (fr_declaration_sites rs) ps fam_declaration_sites declaration_site_key
      \<and> family_ownership_is_canonical (fr_declaration_sites rs) ps fam_declaration_sites ds_partition
      \<and> family_is_canonical (fr_relations rs) ps fam_relations edge_record_key
      \<and> family_is_canonical (fr_edge_sites rs) ps fam_edge_sites edge_site_key
      \<and> family_is_canonical (fr_call_args rs) ps fam_call_arguments call_arg_key
      \<and> family_is_canonical (fr_template_params rs) ps fam_template_parameters template_param_key
      \<and> family_is_canonical (fr_template_args rs) ps fam_template_arguments template_arg_key
      \<and> family_is_canonical (fr_type_nodes rs) ps fam_types type_node_key
      \<and> family_is_canonical (fr_type_edges rs) ps fam_type_edges type_edge_key
      \<and> family_is_canonical (fr_parameters rs) ps fam_parameters parameter_key
      \<and> family_is_canonical (fr_symbol_types rs) ps fam_symbol_types symbol_type_key
      \<and> family_is_canonical (fr_definitions rs) ps fam_definitions definition_key
      \<and> family_is_canonical (fr_definition_edges rs) ps fam_definition_edges definition_edge_key
      \<and> family_is_canonical (fr_includes rs) ps fam_includes include_key
      \<and> family_ownership_is_canonical (fr_includes rs) ps fam_includes dr_partition
      \<and> family_is_canonical (fr_macros rs) ps fam_macros macro_key
      \<and> family_ownership_is_canonical (fr_macros rs) ps fam_macros mu_partition
      \<and> family_is_canonical (fr_diagnostics rs) ps fam_diagnostics diagnostic_key
      \<and> family_ownership_is_canonical (fr_diagnostics rs) ps fam_diagnostics dg_partition
      \<and> family_is_canonical (fr_evidence rs) ps fam_evidence evidence_key
      \<and> family_is_canonical (fr_presentation_intents rs) ps fam_presentation_intents presentation_key
      \<and> family_is_canonical (fr_lifecycle_cleanup rs) ps fam_lifecycle_cleanup cleanup_key
      \<and> family_ownership_is_canonical (fr_lifecycle_cleanup rs) ps fam_lifecycle_cleanup lc_partition
      \<and> family_is_canonical (fr_applicability rs) ps fam_applicability applicability_key
      \<and> family_ownership_is_canonical (fr_applicability rs) ps fam_applicability ap_partition
      \<and> symbol_order_is_canonical (fr_symbol_order rs))"

definition is_canonical :: "FactBatch \<Rightarrow> bool" where
  "is_canonical b \<longleftrightarrow> fb_canonical b \<and> has_canonical_layout b"

text \<open>Members of a canonical family are positions of it.\<close>

lemma members_canonical_range:
  "members_canonical key rs prev expected ms = Some e \<Longrightarrow> \<forall>index\<in>set ms. unat index < length rs"
  by (induction key rs prev expected ms rule: members_canonical.induct) (auto simp: Let_def split: if_splits)

lemma family_loop_range:
  "family_loop key rs family expected ps = Some e \<Longrightarrow> p \<in> set ps \<Longrightarrow> map_of (fp_members p) family = Some ms \<Longrightarrow>
    \<forall>index\<in>set ms. unat index < length rs"
  by (induction key rs family expected ps arbitrary: e rule: family_loop.induct)
    (auto dest: members_canonical_range split: option.splits if_splits)

end
