(* ===== verification/Fact_Body.thy ===== *)
theory Fact_Body
  imports Fact_Codec Fact_Batch
begin

text \<open>
  The payload of a fact batch artifact after its header (\<^verbatim>\<open>ast/fact_batch_artifact.cpp\<close>): the record
  families, the partitions, the handle maps and the deferred references. A map is written in the
  order of its keys, and its reader refuses keys out of order.
\<close>

subsection \<open>Codecs of well-formed values\<close>

locale checked_codec =
  fixes wr :: "'a \<Rightarrow> byte list"
    and rd :: "'a reader"
    and ok :: "'a \<Rightarrow> bool"
  assumes reads_ok: "ok v \<Longrightarrow> reads1 rd (wr v) v"
    and exact_ok: "rd L i = Inr (v, i') \<Longrightarrow> ok v \<and> in_rest i = wr v @ in_rest i'"

sublocale wire_codec \<subseteq> every: checked_codec wr rd "\<lambda>_. True"
  by unfold_locales (use reads_back consumesD [OF exact] in auto)

lemma repeatR_exact_ok:
  assumes "checked_codec w rd ok"
  shows "repeatR n rd L i = Inr (xs, i') \<Longrightarrow> length xs = n \<and> list_all ok xs \<and> in_rest i = concat (map w xs) @ in_rest i'"
proof (induction n arbitrary: i xs)
  case 0
  then show ?case by (simp add: retR_Inr)
next
  case (Suc n)
  from Suc.prems obtain x j ys where s: "rd L i = Inr (x, j)" "repeatR n rd L j = Inr (ys, i')" "xs = x # ys"
    by (auto simp: reader_Inr)
  from Suc.IH [OF s(2)] checked_codec.exact_ok [OF assms s(1)] s(3) show ?case by simp
qed

lemma vector_checked:
  assumes "checked_codec w rd ok"
  shows "checked_codec (w_vector w) (r_vector rd) (list_all ok)"
proof
  fix vs
  assume "list_all ok vs"
  then have "\<forall>x\<in>set vs. reads1 rd (w x) x" using checked_codec.reads_ok [OF assms] by (auto simp: list_all_iff)
  from repeatR_takes [OF this] show "reads1 (r_vector rd) (w_vector w vs) vs"
    unfolding r_vector_def w_vector_def by (blast intro: counted_reads1)
next
  fix L i v i'
  assume "r_vector rd L i = Inr (v, i')"
  then show "list_all ok v \<and> in_rest i = w_vector w v @ in_rest i'"
    unfolding r_vector_def w_vector_def by (auto simp: reader_Inr dest!: r_count_exact repeatR_exact_ok [OF assms])
qed

subsection \<open>Entries in ascending order\<close>

text \<open>The loops over ordered collections: every entry is read with the key of the one before it.\<close>

fun chainR :: "('k option \<Rightarrow> 'a reader) \<Rightarrow> ('a \<Rightarrow> 'k) \<Rightarrow> 'k option \<Rightarrow> nat \<Rightarrow> 'a list reader" where
  "chainR rd key prev 0 = retR []"
| "chainR rd key prev (Suc n) = bindR (rd prev) (\<lambda>x. bindR (chainR rd key (Some (key x)) n) (\<lambda>xs. retR (x # xs)))"

definition out_of_order :: "('k \<Rightarrow> 'r::linorder) \<Rightarrow> 'k option \<Rightarrow> 'k \<Rightarrow> bool" where
  "out_of_order rank prev k \<longleftrightarrow> (case prev of None \<Rightarrow> False | Some p \<Rightarrow> rank k \<le> rank p)"

fun ascending_from :: "('k \<Rightarrow> 'r::linorder) \<Rightarrow> ('a \<Rightarrow> 'k) \<Rightarrow> 'k option \<Rightarrow> 'a list \<Rightarrow> bool" where
  "ascending_from rank key prev [] = True"
| "ascending_from rank key prev (x # xs) = (\<not> out_of_order rank prev (key x) \<and> ascending_from rank key (Some (key x)) xs)"

definition ascending :: "('k \<Rightarrow> 'r::linorder) \<Rightarrow> ('a \<Rightarrow> 'k) \<Rightarrow> 'a list \<Rightarrow> bool" where
  "ascending rank key xs = ascending_from rank key None xs"

lemma ascending_from_sorted:
  "ascending_from rank key prev xs \<longleftrightarrow>
    sorted_wrt (<) (map (rank \<circ> key) xs) \<and> (\<forall>x\<in>set xs. \<not> out_of_order rank prev (key x))"
proof (induction xs arbitrary: prev)
  case (Cons x xs)
  then show ?case by (auto simp: out_of_order_def not_le split: option.splits dest: less_trans)
qed simp

lemma ascending_sorted: "ascending rank key xs \<longleftrightarrow> sorted_wrt (<) (map (rank \<circ> key) xs)"
  by (simp add: ascending_def ascending_from_sorted out_of_order_def)

lemma ascending_distinct: "ascending rank key xs \<Longrightarrow> distinct (map key xs)"
  unfolding ascending_sorted strict_sorted_iff by (metis distinct_map map_map)

locale entry_codec =
  fixes wr :: "'a \<Rightarrow> byte list"
    and rd :: "'k option \<Rightarrow> 'a reader"
    and rank :: "'k \<Rightarrow> 'r::linorder"
    and key :: "'a \<Rightarrow> 'k"
  assumes entry_back: "\<not> out_of_order rank prev (key x) \<Longrightarrow> reads1 (rd prev) (wr x) x"
    and entry_exact: "rd prev L i = Inr (x, i') \<Longrightarrow> \<not> out_of_order rank prev (key x) \<and> in_rest i = wr x @ in_rest i'"
begin

lemma chain_takes:
  "ascending_from rank key prev xs \<Longrightarrow>
    \<exists>n. n + length xs \<le> length (concat (map wr xs)) \<and> takes n (chainR rd key prev (length xs)) (concat (map wr xs)) xs"
proof (induction xs arbitrary: prev)
  case Nil
  then show ?case by (simp add: takes_ret)
next
  case (Cons x xs)
  then obtain n where n: "n + length xs \<le> length (concat (map wr xs))"
      "takes n (chainR rd key (Some (key x)) (length xs)) (concat (map wr xs)) xs" by fastforce
  from Cons.prems obtain m where m: "m < length (wr x)" "takes m (rd prev) (wr x) x"
    using entry_back [of prev x] by (auto simp: reads1_def)
  have "takes (m + n) (chainR rd key prev (length (x # xs))) (concat (map wr (x # xs))) (x # xs)"
    using takes_bind [OF m(2), of n "\<lambda>x. bindR (chainR rd key (Some (key x)) (length xs)) (\<lambda>xs. retR (x # xs))"]
      takes_map [OF n(2), where g = "\<lambda>xs. x # xs"] by simp
  moreover have "m + n + length (x # xs) \<le> length (concat (map wr (x # xs)))" using m(1) n(1) by simp
  ultimately show ?case by blast
qed

lemma chain_exact:
  "chainR rd key prev n L i = Inr (xs, i') \<Longrightarrow>
    length xs = n \<and> ascending_from rank key prev xs \<and> in_rest i = concat (map wr xs) @ in_rest i'"
proof (induction n arbitrary: prev i xs)
  case 0
  then show ?case by (simp add: retR_Inr)
next
  case (Suc n)
  from Suc.prems obtain x j ys where s: "rd prev L i = Inr (x, j)" "chainR rd key (Some (key x)) n L j = Inr (ys, i')" "xs = x # ys"
    by (auto simp: reader_Inr)
  from Suc.IH [OF s(2)] entry_exact [OF s(1)] s(3) show ?case by simp
qed

lemma chain_codec:
  "checked_codec (w_vector wr) (bindR r_count (chainR rd key None)) (ascending rank key)"
proof
  fix v
  assume "ascending rank key v"
  with chain_takes [of None v] show "reads1 (bindR r_count (chainR rd key None)) (w_vector wr v) v"
    unfolding w_vector_def by (auto intro: counted_reads1 simp: ascending_def)
next
  fix L i v i'
  assume "bindR r_count (chainR rd key None) L i = Inr (v, i')"
  then show "ascending rank key v \<and> in_rest i = w_vector wr v @ in_rest i'"
    unfolding w_vector_def ascending_def by (auto simp: reader_Inr dest!: r_count_exact chain_exact)
qed

end


subsection \<open>Handle maps\<close>

abbreviation handle_rank :: "i64 \<Rightarrow> int" where "handle_rank \<equiv> sint"

definition write_string_map :: "(i64 \<times> string) list \<Rightarrow> byte list" where
  "write_string_map = w_vector (\<lambda>(key, value). w_i64 key @ w_string value)"

definition read_string_entry :: "i64 option \<Rightarrow> (i64 \<times> string) reader" where
  "read_string_entry prev = bindR r_i64 (\<lambda>key.
     if out_of_order handle_rank prev key
     then failR artifact_corrupt ''FactBatch artifact handle keys are not canonically ordered''
     else bindR r_string (\<lambda>value. retR (key, value)))"

definition read_string_map :: "(i64 \<times> string) list reader" where
  "read_string_map = bindR r_count (chainR read_string_entry fst None)"

definition write_file_map :: "(i64 \<times> FactPartitionKey) list \<Rightarrow> byte list" where
  "write_file_map = w_vector (\<lambda>(key, value). w_i64 key @ write_partition_key value)"

definition read_file_entry :: "i64 option \<Rightarrow> (i64 \<times> FactPartitionKey) reader" where
  "read_file_entry prev = bindR r_i64 (\<lambda>key.
     if out_of_order handle_rank prev key
     then failR artifact_corrupt ''FactBatch file handle keys are not canonically ordered''
     else bindR read_partition_key (\<lambda>value. retR (key, value)))"

definition read_file_map :: "(i64 \<times> FactPartitionKey) list reader" where
  "read_file_map = bindR r_count (chainR read_file_entry fst None)"

text \<open>An entry is a key, which is checked, and a value.\<close>

lemma keyed_entry:
  assumes "wire_codec wk rk" "wire_codec wv rv"
  shows "entry_codec (\<lambda>(k, v). wk k @ wv v)
    (\<lambda>prev. bindR rk (\<lambda>k. if out_of_order rank prev k then failR c m else bindR rv (\<lambda>v. retR (k, v)))) rank fst"
proof
  fix prev :: "'a option" and x :: "'a \<times> 'b"
  assume "\<not> out_of_order rank prev (fst x)"
  then have "reads (if out_of_order rank prev (fst x) then failR c m else bindR rv (\<lambda>v. retR (fst x, v))) (wv (snd x)) x"
    by (simp add: reads_map [OF wire_codec.reads_back [OF assms(2)]])
  from reads1_bind [OF wire_codec.reads_back [OF assms(1), of "fst x"], of "\<lambda>k. if out_of_order rank prev k then failR c m else bindR rv (\<lambda>v. retR (k, v))", OF this]
  show "reads1 (bindR rk (\<lambda>k. if out_of_order rank prev k then failR c m else bindR rv (\<lambda>v. retR (k, v))))
      (case x of (k, v) \<Rightarrow> wk k @ wv v) x"
    by (simp add: case_prod_beta)
next
  fix prev L i x i'
  assume "bindR rk (\<lambda>k. if out_of_order rank prev k then failR c m else bindR rv (\<lambda>v. retR (k, v))) L i = Inr (x, i')"
  then show "\<not> out_of_order rank prev (fst x) \<and> in_rest i = (case x of (k, v) \<Rightarrow> wk k @ wv v) @ in_rest i'"
    by (auto simp: reader_Inr split: if_splits
        dest!: wire_codec.exact [OF assms(1), THEN consumesD] wire_codec.exact [OF assms(2), THEN consumesD])
qed

interpretation string_entry: entry_codec "\<lambda>(key, value). w_i64 key @ w_string value" read_string_entry handle_rank fst
  unfolding read_string_entry_def by (rule keyed_entry [OF i64.wire_codec_axioms str.wire_codec_axioms])

interpretation file_entry: entry_codec "\<lambda>(key, value). w_i64 key @ write_partition_key value" read_file_entry handle_rank fst
  unfolding read_file_entry_def by (rule keyed_entry [OF i64.wire_codec_axioms c_partition_key.wire_codec_axioms])

interpretation string_map: checked_codec write_string_map read_string_map "ascending handle_rank fst"
  unfolding write_string_map_def read_string_map_def by (rule string_entry.chain_codec)

interpretation file_map: checked_codec write_file_map read_file_map "ascending handle_rank fst"
  unfolding write_file_map_def read_file_map_def by (rule file_entry.chain_codec)

subsection \<open>Deferred references\<close>

definition reference_rank :: "PendingSymbolReference \<Rightarrow> int \<times> string \<times> string \<times> string \<times> string" where
  "reference_rank r = (sint (ps_handle r), ps_usr r, ps_identity_source r, ps_semantic_universe r, ps_translation_unit r)"

definition write_pending_reference :: "PendingSymbolReference \<Rightarrow> byte list" where
  "write_pending_reference r =
     w_i64 (ps_handle r) @ w_string (ps_usr r) @ w_string (ps_identity_source r) @ w_string (ps_semantic_universe r)
     @ w_string (ps_translation_unit r)"

definition write_pending_references :: "PendingSymbolReference list \<Rightarrow> byte list" where
  "write_pending_references = w_vector write_pending_reference"

definition read_pending_reference :: "PendingSymbolReference option \<Rightarrow> PendingSymbolReference reader" where
  "read_pending_reference prev =
     bindR r_i64 (\<lambda>handle. bindR r_string (\<lambda>usr. bindR r_string (\<lambda>identity_source.
     bindR r_string (\<lambda>semantic_universe. bindR r_string (\<lambda>translation_unit.
       let reference = \<lparr>ps_handle = handle, ps_usr = usr, ps_identity_source = identity_source,
             ps_semantic_universe = semantic_universe, ps_translation_unit = translation_unit\<rparr> in
       if out_of_order reference_rank prev reference
       then failR artifact_corrupt ''FactBatch deferred symbol references are not canonically ordered''
       else retR reference)))))"

definition read_pending_references :: "PendingSymbolReference list reader" where
  "read_pending_references = bindR r_count (chainR read_pending_reference id None)"

interpretation reference_entry: entry_codec write_pending_reference read_pending_reference reference_rank id
proof
  fix prev x
  assume a: "\<not> out_of_order reference_rank prev (id x)"
  show "reads1 (read_pending_reference prev) (write_pending_reference x) x"
    unfolding read_pending_reference_def write_pending_reference_def Let_def
    by (rule reads1_bind, rule wire_reads, (rule reads_bind, rule wire_reads)+,
        rule reads_reads1, rule reads1_check, rule wire_reads) (cases x; use a in simp)+
next
  fix prev L i x i'
  assume "read_pending_reference prev L i = Inr (x, i')"
  then show "\<not> out_of_order reference_rank prev (id x) \<and> in_rest i = write_pending_reference x @ in_rest i'"
    unfolding read_pending_reference_def write_pending_reference_def
    by (auto simp: reader_Inr Let_def split: if_splits dest!: wire_exact)
qed

interpretation references: checked_codec write_pending_references read_pending_references "ascending reference_rank id"
  unfolding write_pending_references_def read_pending_references_def by (rule reference_entry.chain_codec)

subsection \<open>Partitions\<close>

definition write_partition_members :: "u64 list \<Rightarrow> byte list" where
  "write_partition_members = w_vector w_u64"

definition read_partition_members :: "u64 list reader" where
  "read_partition_members = r_vector r_u64"

definition write_partition :: "FileFactPartition \<Rightarrow> byte list" where
  "write_partition p = write_partition_key (fp_key p)
     @ w_vector (\<lambda>(family, members). w_enum family_number family @ write_partition_members members) (fp_members p)"

definition write_partitions :: "FileFactPartition list \<Rightarrow> byte list" where
  "write_partitions = w_vector write_partition"

definition read_family_entry :: "FactFamily option \<Rightarrow> (FactFamily \<times> u64 list) reader" where
  "read_family_entry prev = bindR r_family (\<lambda>family.
     if out_of_order family_number prev family
     then failR artifact_corrupt ''FactBatch partition families are not canonically ordered''
     else bindR read_partition_members (\<lambda>members. retR (family, members)))"

definition read_partition :: "FileFactPartition reader" where
  "read_partition = bindR read_partition_key (\<lambda>key.
     bindR (bindR r_count (chainR read_family_entry fst None)) (\<lambda>members.
     retR \<lparr>fp_key = key, fp_members = members\<rparr>))"

definition read_partitions :: "FileFactPartition list reader" where
  "read_partitions = r_vector read_partition"

interpretation members: wire_codec write_partition_members read_partition_members
  unfolding write_partition_members_def read_partition_members_def by (rule vector_codec [OF u64.wire_codec_axioms])

interpretation family_entry: entry_codec
  "\<lambda>(family, members). w_enum family_number family @ write_partition_members members" read_family_entry family_number fst
  unfolding read_family_entry_def by (rule keyed_entry [OF family.wire_codec_axioms members.wire_codec_axioms])

definition families_ascend :: "FileFactPartition \<Rightarrow> bool" where
  "families_ascend p = ascending family_number fst (fp_members p)"

interpretation partition: checked_codec write_partition read_partition families_ascend
proof
  fix p
  assume "families_ascend p"
  then have "ascending family_number fst (fp_members p)" by (simp add: families_ascend_def)
  from checked_codec.reads_ok [OF family_entry.chain_codec this]
  show "reads1 read_partition (write_partition p) p"
    unfolding read_partition_def write_partition_def
    by (rule reads1_bind [OF c_partition_key.reads_back reads_map]) simp
next
  fix L i p i'
  assume "read_partition L i = Inr (p, i')"
  then show "families_ascend p \<and> in_rest i = write_partition p @ in_rest i'"
    unfolding read_partition_def write_partition_def families_ascend_def bindR_Inr [of read_partition_key] bindR_Inr [of "bindR r_count r" for r]
    by (auto simp: retR_Inr dest!: wire_exact checked_codec.exact_ok [OF family_entry.chain_codec])
qed

interpretation partitions: checked_codec write_partitions read_partitions "list_all families_ascend"
  unfolding write_partitions_def read_partitions_def by (rule vector_checked [OF partition.checked_codec_axioms])

subsection \<open>Record families\<close>

definition write_fact_records :: "FactRecords \<Rightarrow> byte list" where
  "write_fact_records r =
     w_vector write_symbol_record (fr_symbols r)
     @ w_vector write_declaration_site (fr_declaration_sites r)
     @ w_vector write_edge (fr_relations r)
     @ w_vector write_edge_site (fr_edge_sites r)
     @ w_vector write_call_arg (fr_call_args r)
     @ w_vector write_template_param (fr_template_params r)
     @ w_vector write_template_arg (fr_template_args r)
     @ w_vector write_type_node (fr_type_nodes r)
     @ w_vector write_type_edge (fr_type_edges r)
     @ w_vector write_parameter_fact (fr_parameters r)
     @ w_vector write_symbol_type (fr_symbol_types r)
     @ w_vector write_definition (fr_definitions r)
     @ w_vector write_definition_edge (fr_definition_edges r)
     @ w_vector write_include (fr_includes r)
     @ w_vector write_macro (fr_macros r)
     @ w_vector write_diagnostic (fr_diagnostics r)
     @ w_vector write_evidence (fr_evidence r)
     @ w_vector write_presentation (fr_presentation_intents r)
     @ w_vector write_cleanup (fr_lifecycle_cleanup r)
     @ w_vector write_applicability (fr_applicability r)
     @ w_vector write_symbol_order (fr_symbol_order r)"

definition read_fact_records :: "FactRecords reader" where
  "read_fact_records =
     bindR (r_vector read_symbol_record) (\<lambda>symbols.
     bindR (r_vector read_declaration_site) (\<lambda>declaration_sites.
     bindR (r_vector read_edge) (\<lambda>relations.
     bindR (r_vector read_edge_site) (\<lambda>edge_sites.
     bindR (r_vector read_call_arg) (\<lambda>call_args.
     bindR (r_vector read_template_param) (\<lambda>template_params.
     bindR (r_vector read_template_arg) (\<lambda>template_args.
     bindR (r_vector read_type_node) (\<lambda>type_nodes.
     bindR (r_vector read_type_edge) (\<lambda>type_edges.
     bindR (r_vector read_parameter_fact) (\<lambda>parameters.
     bindR (r_vector read_symbol_type) (\<lambda>symbol_types.
     bindR (r_vector read_definition) (\<lambda>definitions.
     bindR (r_vector read_definition_edge) (\<lambda>definition_edges.
     bindR (r_vector read_include) (\<lambda>include_directives.
     bindR (r_vector read_macro) (\<lambda>macros.
     bindR (r_vector read_diagnostic) (\<lambda>diagnostics.
     bindR (r_vector read_evidence) (\<lambda>evidence.
     bindR (r_vector read_presentation) (\<lambda>presentation_intents.
     bindR (r_vector read_cleanup) (\<lambda>lifecycle_cleanup.
     bindR (r_vector read_applicability) (\<lambda>applicability.
     bindR (r_vector read_symbol_order) (\<lambda>symbol_order.
     retR \<lparr>fr_symbols = symbols, fr_declaration_sites = declaration_sites, fr_relations = relations,
       fr_edge_sites = edge_sites, fr_call_args = call_args, fr_template_params = template_params,
       fr_template_args = template_args, fr_type_nodes = type_nodes, fr_type_edges = type_edges,
       fr_parameters = parameters, fr_symbol_types = symbol_types, fr_definitions = definitions,
       fr_definition_edges = definition_edges, fr_includes = include_directives, fr_macros = macros,
       fr_diagnostics = diagnostics, fr_evidence = evidence, fr_presentation_intents = presentation_intents,
       fr_lifecycle_cleanup = lifecycle_cleanup, fr_applicability = applicability, fr_symbol_order = symbol_order\<rparr>)))))))))))))))))))))"

interpretation v_symbols: wire_codec "w_vector write_symbol_record" "r_vector read_symbol_record"
  by (rule vector_codec) (rule c_symbol_record.wire_codec_axioms)

interpretation v_declaration_sites: wire_codec "w_vector write_declaration_site" "r_vector read_declaration_site"
  by (rule vector_codec) (rule c_declaration_site.wire_codec_axioms)

interpretation v_relations: wire_codec "w_vector write_edge" "r_vector read_edge"
  by (rule vector_codec) (rule c_edge.wire_codec_axioms)

interpretation v_edge_sites: wire_codec "w_vector write_edge_site" "r_vector read_edge_site"
  by (rule vector_codec) (rule c_edge_site.wire_codec_axioms)

interpretation v_call_args: wire_codec "w_vector write_call_arg" "r_vector read_call_arg"
  by (rule vector_codec) (rule c_call_arg.wire_codec_axioms)

interpretation v_template_params: wire_codec "w_vector write_template_param" "r_vector read_template_param"
  by (rule vector_codec) (rule c_template_param.wire_codec_axioms)

interpretation v_template_args: wire_codec "w_vector write_template_arg" "r_vector read_template_arg"
  by (rule vector_codec) (rule c_template_arg.wire_codec_axioms)

interpretation v_type_nodes: wire_codec "w_vector write_type_node" "r_vector read_type_node"
  by (rule vector_codec) (rule c_type_node.wire_codec_axioms)

interpretation v_type_edges: wire_codec "w_vector write_type_edge" "r_vector read_type_edge"
  by (rule vector_codec) (rule c_type_edge.wire_codec_axioms)

interpretation v_parameters: wire_codec "w_vector write_parameter_fact" "r_vector read_parameter_fact"
  by (rule vector_codec) (rule c_parameter_fact.wire_codec_axioms)

interpretation v_symbol_types: wire_codec "w_vector write_symbol_type" "r_vector read_symbol_type"
  by (rule vector_codec) (rule c_symbol_type.wire_codec_axioms)

interpretation v_definitions: wire_codec "w_vector write_definition" "r_vector read_definition"
  by (rule vector_codec) (rule c_definition.wire_codec_axioms)

interpretation v_definition_edges: wire_codec "w_vector write_definition_edge" "r_vector read_definition_edge"
  by (rule vector_codec) (rule c_definition_edge.wire_codec_axioms)

interpretation v_includes: wire_codec "w_vector write_include" "r_vector read_include"
  by (rule vector_codec) (rule c_include.wire_codec_axioms)

interpretation v_macros: wire_codec "w_vector write_macro" "r_vector read_macro"
  by (rule vector_codec) (rule c_macro.wire_codec_axioms)

interpretation v_diagnostics: wire_codec "w_vector write_diagnostic" "r_vector read_diagnostic"
  by (rule vector_codec) (rule c_diagnostic.wire_codec_axioms)

interpretation v_evidence: wire_codec "w_vector write_evidence" "r_vector read_evidence"
  by (rule vector_codec) (rule c_evidence.wire_codec_axioms)

interpretation v_presentation_intents: wire_codec "w_vector write_presentation" "r_vector read_presentation"
  by (rule vector_codec) (rule c_presentation.wire_codec_axioms)

interpretation v_lifecycle_cleanup: wire_codec "w_vector write_cleanup" "r_vector read_cleanup"
  by (rule vector_codec) (rule c_cleanup.wire_codec_axioms)

interpretation v_applicability: wire_codec "w_vector write_applicability" "r_vector read_applicability"
  by (rule vector_codec) (rule c_applicability.wire_codec_axioms)

interpretation v_symbol_order: wire_codec "w_vector write_symbol_order" "r_vector read_symbol_order"
  by (rule vector_codec) (rule c_symbol_order.wire_codec_axioms)

lemmas [wire_reads] =
  v_symbols.reads_back v_declaration_sites.reads_back v_relations.reads_back v_edge_sites.reads_back
  v_call_args.reads_back v_template_params.reads_back v_template_args.reads_back v_type_nodes.reads_back
  v_type_edges.reads_back v_parameters.reads_back v_symbol_types.reads_back v_definitions.reads_back
  v_definition_edges.reads_back v_includes.reads_back v_macros.reads_back v_diagnostics.reads_back
  v_evidence.reads_back v_presentation_intents.reads_back v_lifecycle_cleanup.reads_back v_applicability.reads_back
  v_symbol_order.reads_back

lemmas [wire_exact] =
  v_symbols.exact [THEN consumesD] v_declaration_sites.exact [THEN consumesD] v_relations.exact [THEN consumesD]
  v_edge_sites.exact [THEN consumesD] v_call_args.exact [THEN consumesD] v_template_params.exact [THEN consumesD]
  v_template_args.exact [THEN consumesD] v_type_nodes.exact [THEN consumesD] v_type_edges.exact [THEN consumesD]
  v_parameters.exact [THEN consumesD] v_symbol_types.exact [THEN consumesD] v_definitions.exact [THEN consumesD]
  v_definition_edges.exact [THEN consumesD] v_includes.exact [THEN consumesD] v_macros.exact [THEN consumesD]
  v_diagnostics.exact [THEN consumesD] v_evidence.exact [THEN consumesD] v_presentation_intents.exact [THEN consumesD]
  v_lifecycle_cleanup.exact [THEN consumesD] v_applicability.exact [THEN consumesD] v_symbol_order.exact [THEN consumesD]

interpretation records: wire_codec write_fact_records read_fact_records
proof
  show "reads1 read_fact_records (write_fact_records v) v" for v
    unfolding read_fact_records_def write_fact_records_def
    by (rule reads1_bind, rule wire_reads, ((rule reads_bind, rule wire_reads)+)?, rule reads_map, rule wire_reads) simp
  show "consumes write_fact_records read_fact_records"
    unfolding read_fact_records_def write_fact_records_def by (intro consumesI) (auto simp: reader_Inr dest!: wire_exact)
qed

subsection \<open>One family only\<close>

fun discardR :: "nat \<Rightarrow> 'a reader \<Rightarrow> unit reader" where
  "discardR 0 rd = retR ()"
| "discardR (Suc n) rd = bindR rd (\<lambda>_. discardR n rd)"

definition discard_records :: "'a reader \<Rightarrow> unit reader" where
  "discard_records rd = bindR r_count (\<lambda>n. discardR n rd)"

definition read_selected :: "bool \<Rightarrow> 'a reader \<Rightarrow> 'a list reader" where
  "read_selected chosen rd = (if chosen then r_vector rd else bindR (discard_records rd) (\<lambda>_. retR []))"

definition read_fact_records_family :: "FactFamily \<Rightarrow> FactRecords reader" where
  "read_fact_records_family selected =
     bindR (read_selected (fam_symbols = selected) read_symbol_record) (\<lambda>symbols.
     bindR (read_selected (fam_declaration_sites = selected) read_declaration_site) (\<lambda>declaration_sites.
     bindR (read_selected (fam_relations = selected) read_edge) (\<lambda>relations.
     bindR (read_selected (fam_edge_sites = selected) read_edge_site) (\<lambda>edge_sites.
     bindR (read_selected (fam_call_arguments = selected) read_call_arg) (\<lambda>call_args.
     bindR (read_selected (fam_template_parameters = selected) read_template_param) (\<lambda>template_params.
     bindR (read_selected (fam_template_arguments = selected) read_template_arg) (\<lambda>template_args.
     bindR (read_selected (fam_types = selected) read_type_node) (\<lambda>type_nodes.
     bindR (read_selected (fam_type_edges = selected) read_type_edge) (\<lambda>type_edges.
     bindR (read_selected (fam_parameters = selected) read_parameter_fact) (\<lambda>parameters.
     bindR (read_selected (fam_symbol_types = selected) read_symbol_type) (\<lambda>symbol_types.
     bindR (read_selected (fam_definitions = selected) read_definition) (\<lambda>definitions.
     bindR (read_selected (fam_definition_edges = selected) read_definition_edge) (\<lambda>definition_edges.
     bindR (read_selected (fam_includes = selected) read_include) (\<lambda>include_directives.
     bindR (read_selected (fam_macros = selected) read_macro) (\<lambda>macros.
     bindR (read_selected (fam_diagnostics = selected) read_diagnostic) (\<lambda>diagnostics.
     bindR (read_selected (fam_evidence = selected) read_evidence) (\<lambda>evidence.
     bindR (read_selected (fam_presentation_intents = selected) read_presentation) (\<lambda>presentation_intents.
     bindR (read_selected (fam_lifecycle_cleanup = selected) read_cleanup) (\<lambda>lifecycle_cleanup.
     bindR (read_selected (fam_applicability = selected) read_applicability) (\<lambda>applicability.
     bindR (read_selected (fam_symbols = selected) read_symbol_order) (\<lambda>symbol_order.
     retR \<lparr>fr_symbols = symbols, fr_declaration_sites = declaration_sites, fr_relations = relations,
       fr_edge_sites = edge_sites, fr_call_args = call_args, fr_template_params = template_params,
       fr_template_args = template_args, fr_type_nodes = type_nodes, fr_type_edges = type_edges,
       fr_parameters = parameters, fr_symbol_types = symbol_types, fr_definitions = definitions,
       fr_definition_edges = definition_edges, fr_includes = include_directives, fr_macros = macros,
       fr_diagnostics = diagnostics, fr_evidence = evidence, fr_presentation_intents = presentation_intents,
       fr_lifecycle_cleanup = lifecycle_cleanup, fr_applicability = applicability, fr_symbol_order = symbol_order\<rparr>)))))))))))))))))))))"

text \<open>The part of the records that belongs to a family; the emission order goes with the symbols.\<close>

definition family_records :: "FactFamily \<Rightarrow> FactRecords \<Rightarrow> FactRecords" where
  "family_records f r = 
    \<lparr>fr_symbols = (if fam_symbols = f then fr_symbols r else []),
     fr_declaration_sites = (if fam_declaration_sites = f then fr_declaration_sites r else []),
     fr_relations = (if fam_relations = f then fr_relations r else []),
     fr_edge_sites = (if fam_edge_sites = f then fr_edge_sites r else []),
     fr_call_args = (if fam_call_arguments = f then fr_call_args r else []),
     fr_template_params = (if fam_template_parameters = f then fr_template_params r else []),
     fr_template_args = (if fam_template_arguments = f then fr_template_args r else []),
     fr_type_nodes = (if fam_types = f then fr_type_nodes r else []),
     fr_type_edges = (if fam_type_edges = f then fr_type_edges r else []),
     fr_parameters = (if fam_parameters = f then fr_parameters r else []),
     fr_symbol_types = (if fam_symbol_types = f then fr_symbol_types r else []),
     fr_definitions = (if fam_definitions = f then fr_definitions r else []),
     fr_definition_edges = (if fam_definition_edges = f then fr_definition_edges r else []),
     fr_includes = (if fam_includes = f then fr_includes r else []),
     fr_macros = (if fam_macros = f then fr_macros r else []),
     fr_diagnostics = (if fam_diagnostics = f then fr_diagnostics r else []),
     fr_evidence = (if fam_evidence = f then fr_evidence r else []),
     fr_presentation_intents = (if fam_presentation_intents = f then fr_presentation_intents r else []),
     fr_lifecycle_cleanup = (if fam_lifecycle_cleanup = f then fr_lifecycle_cleanup r else []),
     fr_applicability = (if fam_applicability = f then fr_applicability r else []),
     fr_symbol_order = (if fam_symbols = f then fr_symbol_order r else [])\<rparr>"

lemma bindR_assoc: "bindR (bindR m f) g = bindR m (\<lambda>x. bindR (f x) g)"
  unfolding bindR_def by (auto simp: fun_eq_iff bindE_def split: sum.splits)

lemma bindR_ret: "bindR (retR x) f = f x"
  by (simp add: bindR_def retR_def fun_eq_iff)

lemma discardR_repeatR: "discardR n rd = bindR (repeatR n rd) (\<lambda>_. retR ())"
  by (induction n) (simp_all add: bindR_ret bindR_assoc)

lemma read_selected_vector: "read_selected chosen rd = bindR (r_vector rd) (\<lambda>xs. retR (if chosen then xs else []))"
proof (cases chosen)
  case True
  then show ?thesis by (auto simp: read_selected_def bindR_def retR_def fun_eq_iff bindE_def split: sum.splits)
next
  case False
  then show ?thesis by (simp add: read_selected_def discard_records_def discardR_repeatR r_vector_def bindR_assoc bindR_ret)
qed

lemma family_reader: "read_fact_records_family f = bindR read_fact_records (\<lambda>r. retR (family_records f r))"
  unfolding read_fact_records_family_def read_fact_records_def family_records_def read_selected_vector
  by (simp only: bindR_assoc bindR_ret FactRecords.select_convs)

end
