(* ===== verification/Fact_Artifact.thy ===== *)
theory Fact_Artifact
  imports Fact_Body
begin

text \<open>
  Fact batch artifacts (\<^verbatim>\<open>ast/fact_batch_artifact.cpp\<close>, class \<^verbatim>\<open>FactBatchArtifactCodec\<close>): a magic,
  the header, the payload of \<^verbatim>\<open>Fact_Body\<close> and a footer with the digest of all of it. An artifact is
  its bytes, \<^const>\<open>None\<close> for an empty handle; the bytes are the same whether the sink spills them to
  a file or not, and the failures of that file are left out. The one failure of hashing that is kept
  is the missing digest.
\<close>

subsection \<open>Headers\<close>

definition kFactBatchArtifactWireVersion :: u32 where
  "kFactBatchArtifactWireVersion = 3"

record FactBatchArtifactMetadata =
  am_pass_version :: u32
  am_extractor_version :: u32
  am_storage_schema_version :: u32
  am_catalog_version :: i64
  am_catalog_hash :: string
  am_trust :: FactTrust
  am_truncated :: bool
  am_dependency_identities :: "string list"

record FactBatchArtifactInfo =
  ai_wire_version :: u32
  ai_producer :: string
  ai_producer_version :: u32
  ai_pass_version :: u32
  ai_extractor_version :: u32
  ai_storage_schema_version :: u32
  ai_catalog_version :: i64
  ai_catalog_hash :: string
  ai_completeness :: FactCompleteness
  ai_trust :: FactTrust
  ai_truncated :: bool
  ai_dependency_identities :: "string list"
  ai_content_digest :: string
  ai_byte_size :: u64

record FactBatchArtifactEncodeOptions =
  eo_metadata :: FactBatchArtifactMetadata
  eo_max_artifact_bytes :: u64

record FactBatchArtifactCompatibility =
  co_wire_version :: u32
  co_producer :: "string option"
  co_producer_version :: "u32 option"
  co_pass_version :: u32
  co_extractor_version :: u32
  co_storage_schema_version :: u32
  co_catalog_version :: i64
  co_catalog_hash :: string
  co_dependency_identities :: "string list option"
  co_allow_partial :: bool
  co_allow_truncated :: bool
  co_require_trusted :: bool
  co_limits :: FactBatchArtifactDecodeLimits

definition canonical_dependencies :: "string list \<Rightarrow> string list" where
  "canonical_dependencies dependencies = unique_runs (sort dependencies)"

definition write_info :: "FactBatch \<Rightarrow> FactBatchArtifactMetadata \<Rightarrow> byte list" where
  "write_info batch metadata =
     w_u32 kFactBatchArtifactWireVersion @ w_string (fb_producer batch) @ w_u32 (fb_producer_version batch)
     @ w_u32 (am_pass_version metadata) @ w_u32 (am_extractor_version metadata)
     @ w_u32 (am_storage_schema_version metadata) @ w_i64 (am_catalog_version metadata)
     @ w_string (am_catalog_hash metadata) @ w_enum completeness_number (fb_completeness batch)
     @ w_enum trust_number (am_trust metadata) @ w_bool (am_truncated metadata)
     @ w_vector w_string (canonical_dependencies (am_dependency_identities metadata))"

fun adjacent_equal :: "'a list \<Rightarrow> bool" where
  "adjacent_equal (x # y # xs) = (x = y \<or> adjacent_equal (y # xs))"
| "adjacent_equal xs = False"

definition read_info :: "FactBatchArtifactInfo reader" where
  "read_info =
     bindR r_u32 (\<lambda>wire_version. bindR r_string (\<lambda>producer. bindR r_u32 (\<lambda>producer_version.
     bindR r_u32 (\<lambda>pass_version. bindR r_u32 (\<lambda>extractor_version. bindR r_u32 (\<lambda>storage_schema_version.
     bindR r_i64 (\<lambda>catalog_version. bindR r_string (\<lambda>catalog_hash.
     bindR (r_completeness ''artifact completeness'') (\<lambda>completeness. bindR (r_trust ''artifact trust'') (\<lambda>trust.
     bindR r_bool (\<lambda>truncated. bindR (r_vector r_string) (\<lambda>dependencies.
       if \<not> sorted dependencies \<or> adjacent_equal dependencies
       then failR artifact_corrupt ''FactBatch dependency identities are not canonical''
       else retR \<lparr>ai_wire_version = wire_version, ai_producer = producer, ai_producer_version = producer_version,
         ai_pass_version = pass_version, ai_extractor_version = extractor_version,
         ai_storage_schema_version = storage_schema_version, ai_catalog_version = catalog_version,
         ai_catalog_hash = catalog_hash, ai_completeness = completeness, ai_trust = trust, ai_truncated = truncated,
         ai_dependency_identities = dependencies, ai_content_digest = [], ai_byte_size = 0\<rparr>))))))))))))"

text \<open>The header that \<^const>\<open>write_info\<close> describes.\<close>

definition artifact_info :: "FactBatch \<Rightarrow> FactBatchArtifactMetadata \<Rightarrow> FactBatchArtifactInfo" where
  "artifact_info batch metadata =
     \<lparr>ai_wire_version = kFactBatchArtifactWireVersion, ai_producer = fb_producer batch,
      ai_producer_version = fb_producer_version batch, ai_pass_version = am_pass_version metadata,
      ai_extractor_version = am_extractor_version metadata,
      ai_storage_schema_version = am_storage_schema_version metadata,
      ai_catalog_version = am_catalog_version metadata, ai_catalog_hash = am_catalog_hash metadata,
      ai_completeness = fb_completeness batch, ai_trust = am_trust metadata, ai_truncated = am_truncated metadata,
      ai_dependency_identities = canonical_dependencies (am_dependency_identities metadata),
      ai_content_digest = [], ai_byte_size = 0\<rparr>"

definition info_bytes :: "FactBatchArtifactInfo \<Rightarrow> byte list" where
  "info_bytes i =
     w_u32 (ai_wire_version i) @ w_string (ai_producer i) @ w_u32 (ai_producer_version i)
     @ w_u32 (ai_pass_version i) @ w_u32 (ai_extractor_version i) @ w_u32 (ai_storage_schema_version i)
     @ w_i64 (ai_catalog_version i) @ w_string (ai_catalog_hash i) @ w_enum completeness_number (ai_completeness i)
     @ w_enum trust_number (ai_trust i) @ w_bool (ai_truncated i) @ w_vector w_string (ai_dependency_identities i)"

definition info_canonical :: "FactBatchArtifactInfo \<Rightarrow> bool" where
  "info_canonical i \<longleftrightarrow> canonical_dependencies (ai_dependency_identities i) = ai_dependency_identities i
     \<and> ai_content_digest i = [] \<and> ai_byte_size i = 0"

lemma write_info_bytes: "write_info batch metadata = info_bytes (artifact_info batch metadata)"
  by (simp add: write_info_def info_bytes_def artifact_info_def)

lemma adjacent_sorted: "sorted xs \<Longrightarrow> adjacent_equal xs \<longleftrightarrow> \<not> distinct xs"
  by (induction xs rule: adjacent_equal.induct) (auto simp: antisym)

lemma canonical_dependencies_sort_unique: "canonical_dependencies = sort_unique"
  by (simp add: fun_eq_iff canonical_dependencies_def sort_unique_def)

lemma dependencies_fixed: "canonical_dependencies ds = ds \<longleftrightarrow> sorted ds \<and> \<not> adjacent_equal ds"
  unfolding canonical_dependencies_sort_unique
  by (metis adjacent_sorted distinct_sort_unique sorted_sort_unique sorted_distinct_set_unique set_sort_unique)

lemma artifact_info_canonical: "info_canonical (artifact_info batch metadata)"
  by (simp add: info_canonical_def artifact_info_def canonical_dependencies_sort_unique sort_unique_eq_iff)

interpretation info: checked_codec info_bytes read_info info_canonical
proof
  fix v
  assume a: "info_canonical v"
  then have "\<not> (\<not> sorted (ai_dependency_identities v) \<or> adjacent_equal (ai_dependency_identities v))"
    by (simp add: info_canonical_def dependencies_fixed)
  with a show "reads1 read_info (info_bytes v) v"
    unfolding read_info_def info_bytes_def
    by - (rule reads1_bind, rule wire_reads, (rule reads_bind, rule wire_reads)+, rule reads_reads1, rule reads1_check, rule wire_reads,
        assumption, simp add: info_canonical_def)
next
  fix L i v i'
  assume "read_info L i = Inr (v, i')"
  then show "info_canonical v \<and> in_rest i = info_bytes v @ in_rest i'"
    unfolding read_info_def info_bytes_def info_canonical_def
    by (auto simp: reader_Inr dependencies_fixed split: if_splits dest!: wire_exact)
qed

subsection \<open>The layout of an artifact\<close>

definition kMagic :: "byte list" where
  "kMagic = string_bytes ''CIDXFB01''"

definition kDigestMagic :: "byte list" where
  "kDigestMagic = string_bytes ''FBDIG001''"

definition kDigestTextSize :: nat where
  "kDigestTextSize = 71"

definition kFooterSize :: nat where
  "kFooterSize = length kDigestMagic + kDigestTextSize"

definition write_body :: "FactBatch \<Rightarrow> byte list" where
  "write_body batch =
     write_fact_records (fb_records batch) @ write_partitions (fb_partitions batch)
     @ write_string_map (fb_symbol_keys batch) @ write_string_map (fb_relation_keys batch)
     @ write_string_map (fb_type_keys batch) @ write_string_map (fb_definition_keys batch)
     @ write_file_map (fb_file_keys batch) @ write_pending_references (fb_pending_symbol_references batch)"

definition payload_bytes :: "FactBatch \<Rightarrow> FactBatchArtifactMetadata \<Rightarrow> byte list" where
  "payload_bytes batch metadata = kMagic @ write_info batch metadata @ write_body batch"

definition footer_bytes :: "string \<Rightarrow> byte list" where
  "footer_bytes digest = kDigestMagic @ string_bytes digest"

definition explicit_versions :: "FactBatch \<Rightarrow> FactBatchArtifactMetadata \<Rightarrow> bool" where
  "explicit_versions batch metadata \<longleftrightarrow>
     \<not> (fb_producer batch = [] \<or> fb_producer_version batch = 0 \<or> am_pass_version metadata = 0
        \<or> am_extractor_version metadata = 0 \<or> am_storage_schema_version metadata = 0
        \<or> sint (am_catalog_version metadata) \<le> 0 \<or> am_catalog_hash metadata = [])"

definition encode_fact_batch_artifact :: "FactBatch \<Rightarrow> FactBatchArtifactEncodeOptions \<Rightarrow> artifact_error + byte list" where
  "encode_fact_batch_artifact batch options =
     (if \<not> has_canonical_layout batch
      then Inl (ArtifactError artifact_noncanonical ''FactBatch artifacts require canonical_batch() input'')
      else if \<not> explicit_versions batch (eo_metadata options)
      then Inl (ArtifactError artifact_incompatible ''FactBatch artifact version identities must be explicit'')
      else if [] \<in> set (am_dependency_identities (eo_metadata options))
      then Inl (ArtifactError artifact_incompatible ''FactBatch dependency identities must be non-empty'')
      else let payload = payload_bytes batch (eo_metadata options) in
        if length payload > unat (eo_max_artifact_bytes options)
        then Inl (ArtifactError artifact_limit_exceeded ''byte artifact exceeds the configured encode limit'')
        else (case sha256_bytes_hex payload of
            None \<Rightarrow> Inl (ArtifactError artifact_spill_failure ''cannot hash the byte artifact spill file'')
          | Some digest \<Rightarrow>
              let bytes = payload @ footer_bytes digest in
              if length bytes > unat (eo_max_artifact_bytes options)
              then Inl (ArtifactError artifact_limit_exceeded ''byte artifact exceeds the configured encode limit'')
              else Inr bytes))"

subsection \<open>Checks of the bytes\<close>

definition digest_digit :: "char \<Rightarrow> bool" where
  "digest_digit c \<longleftrightarrow> (CHR ''0'' \<le> c \<and> c \<le> CHR ''9'') \<or> (CHR ''a'' \<le> c \<and> c \<le> CHR ''f'')"

definition verify_footer :: "byte list \<Rightarrow> artifact_error + nat \<times> string" where
  "verify_footer bytes =
     (if length bytes < kFooterSize
      then Inl (ArtifactError artifact_truncated ''FactBatch artifact is shorter than its digest footer'')
      else let payload_size = length bytes - kFooterSize; footer = drop payload_size bytes in
        if take (length kDigestMagic) footer \<noteq> kDigestMagic
        then Inl (ArtifactError artifact_corrupt ''FactBatch artifact digest footer magic is invalid'')
        else let expected = bytes_string (drop (length kDigestMagic) footer) in
          if take 7 expected \<noteq> ''sha256:'' \<or> \<not> list_all digest_digit (drop 7 expected)
          then Inl (ArtifactError artifact_corrupt ''FactBatch artifact digest footer is malformed'')
          else (case sha256_bytes_hex (take payload_size bytes) of
              None \<Rightarrow> Inl (ArtifactError artifact_io_error ''cannot hash the FactBatch artifact payload'')
            | Some actual \<Rightarrow>
                if actual \<noteq> expected
                then Inl (ArtifactError artifact_corrupt ''FactBatch artifact content digest does not match its payload'')
                else Inr (payload_size, expected)))"

definition validate_wire_preamble :: "byte list \<Rightarrow> artifact_error + unit" where
  "validate_wire_preamble bytes =
     (if length bytes < length kMagic + 4
      then Inl (ArtifactError artifact_truncated ''byte artifact read exceeds its captured extent'')
      else let preamble = take (length kMagic + 4) bytes in
        if take (length kMagic) preamble \<noteq> kMagic
        then Inl (ArtifactError artifact_incompatible ''FactBatch artifact wire magic is unsupported'')
        else let wire_version = foldl (\<lambda>v i. v OR push_bit (8 * i) (ucast (preamble ! (length kMagic + i)))) (0 :: u32) [0 ..< 4] in
          if wire_version \<noteq> kFactBatchArtifactWireVersion
          then Inl (ArtifactError artifact_incompatible ''FactBatch artifact wire version is unsupported'')
          else Inr ())"

definition incompatible :: "string \<Rightarrow> artifact_error + unit" where
  "incompatible dimension = Inl (ArtifactError artifact_incompatible (''FactBatch artifact has an incompatible '' @ dimension))"

definition validate_compatibility :: "FactBatchArtifactInfo \<Rightarrow> FactBatchArtifactCompatibility \<Rightarrow> artifact_error + unit" where
  "validate_compatibility i c =
     (if ai_wire_version i \<noteq> co_wire_version c then incompatible ''wire version''
      else if (case co_producer c of None \<Rightarrow> False | Some p \<Rightarrow> ai_producer i \<noteq> p) then incompatible ''producer identity''
      else if (case co_producer_version c of None \<Rightarrow> False | Some v \<Rightarrow> ai_producer_version i \<noteq> v)
      then incompatible ''producer version''
      else if ai_pass_version i \<noteq> co_pass_version c then incompatible ''pass version''
      else if ai_extractor_version i \<noteq> co_extractor_version c then incompatible ''extractor version''
      else if ai_storage_schema_version i \<noteq> co_storage_schema_version c then incompatible ''storage schema version''
      else if ai_catalog_version i \<noteq> co_catalog_version c \<or> ai_catalog_hash i \<noteq> co_catalog_hash c
      then incompatible ''catalog identity''
      else if co_require_trusted c \<and> ai_trust i \<noteq> trust_trusted then incompatible ''trust level''
      else if (case co_dependency_identities c of None \<Rightarrow> False
          | Some ds \<Rightarrow> ai_dependency_identities i \<noteq> canonical_dependencies ds)
      then Inl (ArtifactError artifact_stale ''FactBatch artifact dependency identities are stale'')
      else if ai_truncated i \<and> \<not> co_allow_truncated c
      then Inl (ArtifactError artifact_truncated ''FactBatch artifact is marked truncated'')
      else if ai_completeness i \<noteq> fact_complete \<and> \<not> co_allow_partial c
      then Inl (ArtifactError artifact_partial ''FactBatch artifact is not complete'')
      else Inr ())"

fun family_size :: "FactRecords \<Rightarrow> FactFamily \<Rightarrow> nat" where
  "family_size r fam_symbols = length (fr_symbols r)"
| "family_size r fam_declaration_sites = length (fr_declaration_sites r)"
| "family_size r fam_relations = length (fr_relations r)"
| "family_size r fam_edge_sites = length (fr_edge_sites r)"
| "family_size r fam_call_arguments = length (fr_call_args r)"
| "family_size r fam_template_parameters = length (fr_template_params r)"
| "family_size r fam_template_arguments = length (fr_template_args r)"
| "family_size r fam_types = length (fr_type_nodes r)"
| "family_size r fam_type_edges = length (fr_type_edges r)"
| "family_size r fam_parameters = length (fr_parameters r)"
| "family_size r fam_symbol_types = length (fr_symbol_types r)"
| "family_size r fam_definitions = length (fr_definitions r)"
| "family_size r fam_definition_edges = length (fr_definition_edges r)"
| "family_size r fam_includes = length (fr_includes r)"
| "family_size r fam_macros = length (fr_macros r)"
| "family_size r fam_diagnostics = length (fr_diagnostics r)"
| "family_size r fam_evidence = length (fr_evidence r)"
| "family_size r fam_presentation_intents = length (fr_presentation_intents r)"
| "family_size r fam_lifecycle_cleanup = length (fr_lifecycle_cleanup r)"
| "family_size r fam_applicability = length (fr_applicability r)"

definition members_in_range :: "FactRecords \<Rightarrow> FactFamily \<times> u64 list \<Rightarrow> bool" where
  "members_in_range r entry \<longleftrightarrow> list_all (\<lambda>index. unat index < family_size r (fst entry)) (snd entry)"

definition validate_partitions :: "FactRecords \<Rightarrow> FileFactPartition list \<Rightarrow> artifact_error + unit" where
  "validate_partitions r ps =
     (if list_all (\<lambda>p. list_all (members_in_range r) (fp_members p)) ps then Inr ()
      else Inl (ArtifactError artifact_corrupt ''FactBatch partition contains an out-of-range record index''))"

definition validate_partition_family :: "FactRecords \<Rightarrow> FileFactPartition list \<Rightarrow> FactFamily \<Rightarrow> artifact_error + unit" where
  "validate_partition_family r ps family =
     (if list_all (\<lambda>p. case map_of (fp_members p) family of None \<Rightarrow> True
            | Some members \<Rightarrow> list_all (\<lambda>index. unat index < family_size r family) members) ps
      then Inr ()
      else Inl (ArtifactError artifact_corrupt ''FactBatch partition contains an out-of-range record index''))"

subsection \<open>Decoding\<close>

definition read_magic :: "unit reader" where
  "read_magic = bindR (read_exact (length kMagic)) (\<lambda>magic.
     if magic \<noteq> kMagic then failR artifact_incompatible ''FactBatch artifact wire magic is unsupported'' else retR ())"

definition read_rest :: "FactBatchArtifactInfo \<Rightarrow> FactRecords \<Rightarrow> (FileFactPartition list \<Rightarrow> FileFactPartition list) \<Rightarrow> FactBatch reader" where
  "read_rest info records keep =
     bindR read_partitions (\<lambda>partitions. bindR read_string_map (\<lambda>symbol_keys. bindR read_string_map (\<lambda>relation_keys.
     bindR read_string_map (\<lambda>type_keys. bindR read_string_map (\<lambda>definition_keys. bindR read_file_map (\<lambda>file_keys.
     bindR read_pending_references (\<lambda>pending.
     retR \<lparr>fb_producer = ai_producer info, fb_producer_version = ai_producer_version info,
       fb_completeness = ai_completeness info, fb_canonical = True, fb_records = records,
       fb_partitions = keep partitions, fb_symbol_keys = symbol_keys, fb_relation_keys = relation_keys,
       fb_type_keys = type_keys, fb_definition_keys = definition_keys, fb_file_keys = file_keys,
       fb_pending_symbol_references = pending\<rparr>)))))))"

definition read_body :: "FactBatchArtifactInfo \<Rightarrow> FactBatch reader" where
  "read_body info = bindR read_fact_records (\<lambda>records. read_rest info records (\<lambda>ps. ps))"

definition drop_other_families :: "FactFamily \<Rightarrow> FileFactPartition \<Rightarrow> FileFactPartition" where
  "drop_other_families family p = p\<lparr>fp_members := filter (\<lambda>entry. fst entry = family) (fp_members p)\<rparr>"

definition no_trailing :: "input \<Rightarrow> artifact_error + unit" where
  "no_trailing i =
     (if in_rest i = [] then Inr ()
      else Inl (ArtifactError artifact_corrupt ''FactBatch artifact has unrecognized trailing payload bytes''))"

definition make_family_batch :: "FactBatchArtifactInfo \<Rightarrow> FactFamily \<Rightarrow> FactBatchArtifactDecodeLimits \<Rightarrow> input \<Rightarrow>
    artifact_error + FactBatch" where
  "make_family_batch info family L i =
     bindE (bindR (read_fact_records_family family) (\<lambda>records.
       read_rest info records (map (drop_other_families family))) L i) (\<lambda>(batch, i').
     bindE (no_trailing i') (\<lambda>_.
     bindE (validate_partition_family (fb_records batch) (fb_partitions batch) family) (\<lambda>_. Inr batch)))"

text \<open>What \<^verbatim>\<open>decode\<close> and \<^verbatim>\<open>decode_family\<close> do first: the checks of the bytes, the header and its
  compatibility. The result is the digest, the header and the input after it.\<close>

definition open_artifact :: "byte list option \<Rightarrow> FactBatchArtifactCompatibility \<Rightarrow>
    artifact_error + string \<times> FactBatchArtifactInfo \<times> input \<times> nat" where
  "open_artifact artifact c =
     (case artifact of
        None \<Rightarrow> Inl (ArtifactError artifact_missing ''FactBatch artifact handle is empty'')
      | Some bytes \<Rightarrow>
          if length bytes > unat (li_max_artifact_bytes (co_limits c))
          then Inl (ArtifactError artifact_limit_exceeded ''FactBatch artifact exceeds the configured byte limit'')
          else bindE (validate_wire_preamble bytes) (\<lambda>_. bindE (verify_footer bytes) (\<lambda>(payload_size, digest).
            bindE (bindR read_magic (\<lambda>_. read_info) (co_limits c) \<lparr>in_rest = take payload_size bytes, in_total = 0\<rparr>)
              (\<lambda>(info, i). bindE (validate_compatibility info c) (\<lambda>_. Inr (digest, info, i, length bytes))))))"

definition decode :: "byte list option \<Rightarrow> FactBatchArtifactCompatibility \<Rightarrow>
    artifact_error + FactBatch \<times> FactBatchArtifactInfo" where
  "decode artifact c = bindE (open_artifact artifact c) (\<lambda>(digest, info, i, byte_size).
     bindE (read_body info (co_limits c) i) (\<lambda>(batch, i').
     bindE (no_trailing i') (\<lambda>_.
     bindE (validate_partitions (fb_records batch) (fb_partitions batch)) (\<lambda>_.
       if \<not> has_canonical_layout batch
       then Inl (ArtifactError artifact_corrupt ''FactBatch artifact payload is not canonically ordered'')
       else Inr (batch, info\<lparr>ai_content_digest := digest, ai_byte_size := word_of_nat byte_size\<rparr>)))))"

definition decode_fact_batch_artifact_family :: "byte list option \<Rightarrow> FactFamily \<Rightarrow> FactBatchArtifactCompatibility \<Rightarrow>
    artifact_error + FactBatch" where
  "decode_fact_batch_artifact_family artifact family c = bindE (open_artifact artifact c) (\<lambda>(digest, info, i, byte_size).
     make_family_batch info family (co_limits c) i)"

record FactBatchArtifactDecodeResult =
  ar_batch :: "FactBatch option"
  ar_info :: "FactBatchArtifactInfo option"
  ar_diagnostics :: "artifact_error list"

definition decode_fact_batch_artifact :: "byte list option \<Rightarrow> FactBatchArtifactCompatibility \<Rightarrow> FactBatchArtifactDecodeResult" where
  "decode_fact_batch_artifact artifact c =
     (case decode artifact c of
        Inl e \<Rightarrow> \<lparr>ar_batch = None, ar_info = None, ar_diagnostics = [e]\<rparr>
      | Inr (batch, info) \<Rightarrow> \<lparr>ar_batch = Some batch, ar_info = Some info, ar_diagnostics = []\<rparr>)"

definition usable :: "FactBatchArtifactDecodeResult \<Rightarrow> bool" where
  "usable r \<longleftrightarrow> ar_batch r \<noteq> None \<and> ar_diagnostics r = []"

subsection \<open>Digests\<close>

lemma length_round_steps: "length ws = 8 \<Longrightarrow> length (foldl round_step ws kws) = 8"
  by (induction kws arbitrary: ws) (simp_all add: round_step_def Let_def case_prod_beta)

lemma length_transform: "length ws = 8 \<Longrightarrow> length (transform ws block) = 8"
  by (simp add: transform_def length_round_steps)

lemma length_reference: "length (sha256_reference msg) = 8"
proof -
  have "length ws = 8 \<Longrightarrow> length (foldl transform ws bs) = 8" for ws bs
    by (induction bs arbitrary: ws) (simp_all add: length_transform)
  then show ?thesis by (simp add: sha256_reference_def initial_state_def)
qed

lemma digest_digit_kHex: "n < 16 \<Longrightarrow> digest_digit (kHex ! n)"
proof -
  have "list_all digest_digit kHex" by code_simp
  then show "n < 16 \<Longrightarrow> digest_digit (kHex ! n)" by (simp add: list_all_length kHex_def)
qed

lemma hex_word: "list_all digest_digit (word_hex w)" "length (word_hex w) = 8"
proof -
  have "unat (v AND 0xf) < 16" for v :: u32
  proof -
    have "v AND 0xf = take_bit 4 v" by (simp add: take_bit_eq_mask mask_eq_exp_minus_1)
    then show ?thesis by (simp add: unsigned_take_bit_eq take_bit_nat_def)
  qed
  then show "list_all digest_digit (word_hex w)" by (simp add: word_hex_def list_all_iff digest_digit_kHex)
qed (simp add: word_hex_def)

lemma digest_text:
  assumes "sha256_bytes_hex p = Some d"
  shows "length d = kDigestTextSize" "take 7 d = ''sha256:''" "list_all digest_digit (drop 7 d)"
proof -
  let ?h = "digest_to_hex_32 (sha256_reference p)"
  have d: "d = ''sha256:'' @ ?h" using assms by (simp add: sha256_bytes_reference)
  have "length (concat (map word_hex ws)) = 8 * length ws" for ws by (induction ws) (simp_all add: hex_word)
  then have "length ?h = 64" by (simp add: digest_to_hex_32_def length_reference)
  then show "length d = kDigestTextSize" "take 7 d = ''sha256:''" by (simp_all add: d kDigestTextSize_def)
  have "list_all digest_digit ?h" by (simp add: digest_to_hex_32_def list_all_iff hex_word [unfolded list_all_iff])
  then show "list_all digest_digit (drop 7 d)" by (simp add: d)
qed

lemma length_magic: "length kMagic = 8" "length kDigestMagic = 8"
  by (simp_all add: kMagic_def kDigestMagic_def)

lemma footer_ok:
  assumes "sha256_bytes_hex p = Some d"
  shows "verify_footer (p @ footer_bytes d) = Inr (length p, d)"
  using assms digest_text [OF assms] by (simp add: verify_footer_def footer_bytes_def kFooterSize_def Let_def)

lemma footer_exact:
  assumes "verify_footer bytes = Inr (n, d)"
  shows "bytes = take n bytes @ footer_bytes d" "sha256_bytes_hex (take n bytes) = Some d" "n \<le> length bytes"
proof -
  let ?n = "length bytes - kFooterSize"
  from assms have s: "n = ?n" "take 8 (drop ?n bytes) = kDigestMagic" "d = bytes_string (drop 8 (drop ?n bytes))"
      "sha256_bytes_hex (take ?n bytes) = Some d"
    unfolding verify_footer_def by (auto simp: Let_def length_magic split: if_splits option.splits)
  have "take 8 (drop ?n bytes) @ drop 8 (drop ?n bytes) = drop ?n bytes" by (rule append_take_drop_id)
  with s(1-3) show "bytes = take n bytes @ footer_bytes d" by (simp add: footer_bytes_def)
  show "sha256_bytes_hex (take n bytes) = Some d" "n \<le> length bytes" using s by simp_all
qed

lemma preamble_ok:
  "validate_wire_preamble (kMagic @ w_u32 w @ r) = Inr () \<longleftrightarrow> w = kFactBatchArtifactWireVersion"
proof -
  have "foldl (\<lambda>v i. v OR push_bit (8 * i) (ucast (take 12 (kMagic @ w_u32 w @ r) ! (8 + i)))) (0 :: u32) [0 ..< 4] = w"
  proof -
    have "foldl (\<lambda>v i. v OR push_bit (8 * i) (ucast (take 12 (kMagic @ w_u32 w @ r) ! (8 + i)))) (0 :: u32) [0 ..< 4]
        = foldl (\<lambda>v i. v OR push_bit (8 * i) (ucast (w_u32 w ! i))) 0 [0 ..< 4]"
      by (rule foldl_cong_upt) (simp add: nth_append length_magic)
    then show ?thesis by (simp only: u32_of_bytes)
  qed
  moreover have "take 8 (kMagic @ x) = kMagic" for x by (simp add: length_magic)
  ultimately show ?thesis
    by (simp add: validate_wire_preamble_def length_magic Let_def del: upt_rec_numeral upt.simps take_append)
qed

subsection \<open>The body of an artifact\<close>

text \<open>What the types of the source promise of a batch: handle and family maps are maps, and the deferred references are in order.\<close>

definition maps_ordered :: "FactBatch \<Rightarrow> bool" where
  "maps_ordered b \<longleftrightarrow>
     list_all families_ascend (fb_partitions b)
     \<and> ascending handle_rank fst (fb_symbol_keys b) \<and> ascending handle_rank fst (fb_relation_keys b)
     \<and> ascending handle_rank fst (fb_type_keys b) \<and> ascending handle_rank fst (fb_definition_keys b)
     \<and> ascending handle_rank fst (fb_file_keys b)
     \<and> ascending reference_rank id (fb_pending_symbol_references b)"

definition describes :: "FactBatchArtifactInfo \<Rightarrow> FactBatch \<Rightarrow> bool" where
  "describes i b \<longleftrightarrow> ai_producer i = fb_producer b \<and> ai_producer_version i = fb_producer_version b
     \<and> ai_completeness i = fb_completeness b"

lemma body_reads:
  assumes "maps_ordered b" "describes info b" "fb_canonical b"
  shows "reads1 (read_body info) (write_body b) b"
proof -
  note ok = assms(1) [unfolded maps_ordered_def]
  note parts = partitions.reads_ok string_map.reads_ok file_map.reads_ok references.reads_ok
  have "reads (read_rest info (fb_records b) (\<lambda>ps. ps))
     (write_partitions (fb_partitions b)
     @ write_string_map (fb_symbol_keys b) @ write_string_map (fb_relation_keys b)
     @ write_string_map (fb_type_keys b) @ write_string_map (fb_definition_keys b)
     @ write_file_map (fb_file_keys b) @ write_pending_references (fb_pending_symbol_references b)) b"
    unfolding read_rest_def
    by ((rule reads_bind, rule parts, use ok in blast)+, rule reads_map, rule parts, use ok in blast)
      (use assms(2,3) in \<open>simp add: describes_def\<close>)
  then show ?thesis
    unfolding read_body_def write_body_def by (rule reads1_bind [OF records.reads_back])
qed

lemma body_exact:
  assumes "read_body info L i = Inr (b, i')"
  shows "in_rest i = write_body b @ in_rest i'" "maps_ordered b" "describes info b" "fb_canonical b"
proof -
  note parts = partitions.exact_ok string_map.exact_ok file_map.exact_ok references.exact_ok records.exact [THEN consumesD]
  from assms show "in_rest i = write_body b @ in_rest i'"
    unfolding read_body_def read_rest_def write_body_def by (auto simp: reader_Inr dest!: parts)
  from assms show "maps_ordered b"
    unfolding read_body_def read_rest_def maps_ordered_def by (auto simp: reader_Inr dest!: parts)
  from assms show "describes info b" "fb_canonical b"
    unfolding read_body_def read_rest_def describes_def by (auto simp: reader_Inr)
qed

lemma magic_takes: "takes 0 read_magic kMagic ()"
  using read_exact_takes [of kMagic] unfolding takes_def by (simp add: read_magic_def bindR_def retR_def)

lemma magic_exact: "read_magic L i = Inr (u, i') \<Longrightarrow> in_rest i = kMagic @ in_rest i'"
  unfolding read_magic_def by (auto simp: reader_Inr read_exact_Inr split: if_splits) (metis append_take_drop_id)

lemma head_reads:
  assumes "info_canonical info"
  shows "reads1 (bindR read_magic (\<lambda>_. read_info)) (kMagic @ info_bytes info) info"
proof -
  obtain n where n: "n < length (info_bytes info)" "takes n read_info (info_bytes info) info"
    using info.reads_ok [OF assms] by (auto simp: reads1_def)
  from takes_bind [OF magic_takes, of n "\<lambda>_. read_info", OF n(2)] n(1) show ?thesis
    unfolding reads1_def by (metis add.left_neutral length_append trans_less_add2)
qed

subsection \<open>Layout and ranges\<close>

definition family_in_range :: "nat \<Rightarrow> FileFactPartition list \<Rightarrow> FactFamily \<Rightarrow> bool" where
  "family_in_range n ps family \<longleftrightarrow>
     (\<forall>p\<in>set ps. \<forall>members. map_of (fp_members p) family = Some members \<longrightarrow> (\<forall>index\<in>set members. unat index < n))"

lemma canonical_in_range: "family_is_canonical rs ps family key \<Longrightarrow> family_in_range (length rs) ps family"
  unfolding family_is_canonical_def family_in_range_def using family_loop_range by blast

lemma layout_family: "has_canonical_layout b \<Longrightarrow> family_in_range (family_size (fb_records b) family) (fb_partitions b) family"
  unfolding has_canonical_layout_def Let_def
  by (elim conjE, cases family; simp only: family_size.simps; rule canonical_in_range, assumption)

lemma layout_in_range:
  assumes "has_canonical_layout b" "list_all families_ascend (fb_partitions b)"
  shows "validate_partitions (fb_records b) (fb_partitions b) = Inr ()"
proof -
  have "members_in_range (fb_records b) entry" if p: "p \<in> set (fb_partitions b)" "entry \<in> set (fp_members p)" for p entry
  proof -
    have "distinct (map fst (fp_members p))"
      using assms(2) p(1) ascending_distinct by (auto simp: list_all_iff families_ascend_def)
    then have "map_of (fp_members p) (fst entry) = Some (snd entry)" using p(2) by (simp add: map_of_is_SomeI)
    with layout_family [OF assms(1)] p(1) show ?thesis by (simp add: members_in_range_def family_in_range_def list_all_iff)
  qed
  then show ?thesis by (simp add: validate_partitions_def list_all_iff)
qed

lemma layout_canonical: "has_canonical_layout b \<Longrightarrow> fb_canonical b"
  by (simp add: has_canonical_layout_def Let_def)

subsection \<open>Encoding and decoding\<close>

definition artifact_fits :: "FactBatchArtifactDecodeLimits \<Rightarrow> byte list \<Rightarrow> bool" where
  "artifact_fits L bytes \<longleftrightarrow> length bytes \<le> unat (li_max_artifact_bytes L) \<and> length bytes \<le> unat (li_max_string_bytes L)
     \<and> length bytes \<le> unat (li_max_collection_entries L) \<and> length bytes \<le> unat (li_max_total_entries L)"

definition stored_info :: "FactBatch \<Rightarrow> FactBatchArtifactMetadata \<Rightarrow> string \<Rightarrow> byte list \<Rightarrow> FactBatchArtifactInfo" where
  "stored_info b m digest bytes = (artifact_info b m)\<lparr>ai_content_digest := digest, ai_byte_size := word_of_nat (length bytes)\<rparr>"

lemma open_encoded:
  assumes d: "sha256_bytes_hex (payload_bytes b m) = Some d"
    and compat: "validate_compatibility (artifact_info b m) c = Inr ()"
    and fits: "artifact_fits (co_limits c) (payload_bytes b m @ footer_bytes d)"
  shows "\<exists>n. n < length (kMagic @ write_info b m) \<and> open_artifact (Some (payload_bytes b m @ footer_bytes d)) c
    = Inr (d, artifact_info b m, \<lparr>in_rest = write_body b, in_total = word_of_nat n\<rparr>, length (payload_bytes b m @ footer_bytes d))"
proof -
  let ?bytes = "payload_bytes b m @ footer_bytes d"
  obtain n where n: "n < length (kMagic @ write_info b m)"
      "takes n (bindR read_magic (\<lambda>_. read_info)) (kMagic @ write_info b m) (artifact_info b m)"
    using head_reads [OF artifact_info_canonical] by (auto simp: reads1_def write_info_bytes)
  have w: "within (co_limits c) (length (kMagic @ write_info b m))"
    using fits by (auto simp: artifact_fits_def within_def payload_bytes_def)
  have "bindR read_magic (\<lambda>_. read_info) (co_limits c) \<lparr>in_rest = (kMagic @ write_info b m) @ write_body b, in_total = word_of_nat 0\<rparr>
      = Inr (artifact_info b m, \<lparr>in_rest = write_body b, in_total = word_of_nat (0 + n)\<rparr>)"
    by (rule takesD [OF n(2) w]) (use n(1) fits in \<open>auto simp: artifact_fits_def payload_bytes_def\<close>)
  moreover have "validate_wire_preamble ?bytes = Inr ()"
    using preamble_ok by (simp add: payload_bytes_def write_info_def)
  ultimately have "open_artifact (Some ?bytes) c
      = Inr (d, artifact_info b m, \<lparr>in_rest = write_body b, in_total = word_of_nat n\<rparr>, length ?bytes)"
    using fits compat footer_ok [OF d] by (simp add: open_artifact_def artifact_fits_def payload_bytes_def del: of_nat_add)
  with n(1) show ?thesis by blast
qed

lemma decode_encoded:
  assumes d: "sha256_bytes_hex (payload_bytes b m) = Some d"
    and layout: "has_canonical_layout b" "maps_ordered b"
    and compat: "validate_compatibility (artifact_info b m) c = Inr ()"
    and fits: "artifact_fits (co_limits c) (payload_bytes b m @ footer_bytes d)"
  shows "decode (Some (payload_bytes b m @ footer_bytes d)) c = Inr (b, stored_info b m d (payload_bytes b m @ footer_bytes d))"
proof -
  let ?bytes = "payload_bytes b m @ footer_bytes d"
  obtain n where n: "n < length (kMagic @ write_info b m)" "open_artifact (Some ?bytes) c
      = Inr (d, artifact_info b m, \<lparr>in_rest = write_body b, in_total = word_of_nat n\<rparr>, length ?bytes)"
    using open_encoded [OF d compat fits] by blast
  have "describes (artifact_info b m) b" by (simp add: describes_def artifact_info_def)
  from body_reads [OF layout(2) this layout_canonical [OF layout(1)]]
  obtain k where k: "k < length (write_body b)" "takes k (read_body (artifact_info b m)) (write_body b) b"
    by (auto simp: reads1_def)
  have "read_body (artifact_info b m) (co_limits c) \<lparr>in_rest = write_body b @ [], in_total = word_of_nat n\<rparr>
      = Inr (b, \<lparr>in_rest = [], in_total = word_of_nat (n + k)\<rparr>)"
    by (rule takesD [OF k(2)]) (use n(1) k(1) fits in \<open>auto simp: artifact_fits_def within_def payload_bytes_def\<close>)
  moreover have "validate_partitions (fb_records b) (fb_partitions b) = Inr ()"
    using layout by (intro layout_in_range) (simp_all add: maps_ordered_def)
  ultimately show ?thesis
    using n(2) layout(1) by (simp add: decode_def stored_info_def no_trailing_def del: of_nat_add)
qed

text \<open>The metadata that a header carries.\<close>

definition info_metadata :: "FactBatchArtifactInfo \<Rightarrow> FactBatchArtifactMetadata" where
  "info_metadata i = \<lparr>am_pass_version = ai_pass_version i, am_extractor_version = ai_extractor_version i,
     am_storage_schema_version = ai_storage_schema_version i, am_catalog_version = ai_catalog_version i,
     am_catalog_hash = ai_catalog_hash i, am_trust = ai_trust i, am_truncated = ai_truncated i,
     am_dependency_identities = ai_dependency_identities i\<rparr>"

lemma open_exact:
  assumes "open_artifact artifact c = Inr (d, info, i, n)"
  obtains bytes payload where "artifact = Some bytes" "n = length bytes" "n \<le> unat (li_max_artifact_bytes (co_limits c))"
    "bytes = payload @ footer_bytes d" "sha256_bytes_hex payload = Some d"
    "payload = kMagic @ info_bytes info @ in_rest i" "info_canonical info" "ai_wire_version info = kFactBatchArtifactWireVersion"
    "validate_compatibility info c = Inr ()"
proof -
  from assms obtain bytes p where b: "artifact = Some bytes" "n = length bytes" "n \<le> unat (li_max_artifact_bytes (co_limits c))"
      "validate_wire_preamble bytes = Inr ()" "verify_footer bytes = Inr (p, d)"
      "bindR read_magic (\<lambda>_. read_info) (co_limits c) \<lparr>in_rest = take p bytes, in_total = 0\<rparr> = Inr (info, i)"
      "validate_compatibility info c = Inr ()"
    unfolding open_artifact_def by (auto simp: bindE_Inr_iff split: option.splits if_splits)
  note f = footer_exact [OF b(5)]
  have "in_rest \<lparr>in_rest = take p bytes, in_total = 0\<rparr> = kMagic @ info_bytes info @ in_rest i" and c: "info_canonical info"
    using b(6) by (auto simp only: bindR_Inr dest!: magic_exact info.exact_ok)
  then have p: "take p bytes = kMagic @ info_bytes info @ in_rest i" by simp
  then have "bytes = kMagic @ w_u32 (ai_wire_version info) @ drop 4 (info_bytes info) @ in_rest i @ footer_bytes d"
    using f(1) by (simp add: info_bytes_def)
  then have "ai_wire_version info = kFactBatchArtifactWireVersion" using b(4) preamble_ok by metis
  with b(1-3,7) f(1,2) p c that show thesis by blast
qed

lemma decode_exact:
  assumes "decode (Some bytes) c = Inr (b, info)"
  obtains d where "sha256_bytes_hex (payload_bytes b (info_metadata info)) = Some d"
    "bytes = payload_bytes b (info_metadata info) @ footer_bytes d" "info = stored_info b (info_metadata info) d bytes"
    "maps_ordered b" "has_canonical_layout b" "validate_compatibility (artifact_info b (info_metadata info)) c = Inr ()"
    "length bytes \<le> unat (li_max_artifact_bytes (co_limits c))"
proof -
  from assms obtain d head i n j where s: "open_artifact (Some bytes) c = Inr (d, head, i, n)"
      "read_body head (co_limits c) i = Inr (b, j)" "in_rest j = []" "has_canonical_layout b"
      "info = head\<lparr>ai_content_digest := d, ai_byte_size := word_of_nat n\<rparr>"
    unfolding decode_def no_trailing_def by (auto simp: bindE_Inr_iff split: if_splits)
  from open_exact [OF s(1)] obtain payload where o: "n = length bytes" "n \<le> unat (li_max_artifact_bytes (co_limits c))"
      "bytes = payload @ footer_bytes d" "sha256_bytes_hex payload = Some d"
      "payload = kMagic @ info_bytes head @ in_rest i" "info_canonical head" "ai_wire_version head = kFactBatchArtifactWireVersion"
      "validate_compatibility head c = Inr ()" by blast
  note bd = body_exact [OF s(2)]
  have h: "artifact_info b (info_metadata info) = head"
    using bd(3) o(6,7) s(5) by (simp add: artifact_info_def info_metadata_def describes_def info_canonical_def)
  then have p: "payload = payload_bytes b (info_metadata info)"
    using o(5) bd(1) s(3) by (simp add: payload_bytes_def write_info_bytes)
  show thesis
  proof (rule that)
    show "info = stored_info b (info_metadata info) d bytes" unfolding stored_info_def h using s(5) o(1) by (simp only:)
    show "sha256_bytes_hex (payload_bytes b (info_metadata info)) = Some d" using o(4) p by (simp only:)
    show "bytes = payload_bytes b (info_metadata info) @ footer_bytes d" using o(3) p by (simp only:)
  qed (use o(1,2,8) h bd(2) s(4) in \<open>simp_all only:\<close>)
qed

lemma encode_Inr:
  "encode_fact_batch_artifact b options = Inr bytes \<longleftrightarrow>
    has_canonical_layout b \<and> explicit_versions b (eo_metadata options) \<and> [] \<notin> set (am_dependency_identities (eo_metadata options))
    \<and> (\<exists>d. sha256_bytes_hex (payload_bytes b (eo_metadata options)) = Some d
        \<and> bytes = payload_bytes b (eo_metadata options) @ footer_bytes d \<and> length bytes \<le> unat (eo_max_artifact_bytes options))"
  unfolding encode_fact_batch_artifact_def by (auto simp: Let_def sha256_bytes_reference)

lemma decoded_Some:
  "decode_fact_batch_artifact artifact c = \<lparr>ar_batch = Some b, ar_info = Some info, ar_diagnostics = []\<rparr> \<longleftrightarrow>
    decode artifact c = Inr (b, info)"
  by (auto simp: decode_fact_batch_artifact_def split: sum.splits)

subsection \<open>One family of an artifact\<close>

definition restrict_family :: "FactFamily \<Rightarrow> FactBatch \<Rightarrow> FactBatch" where
  "restrict_family f b = b\<lparr>fb_records := family_records f (fb_records b), fb_partitions := map (drop_other_families f) (fb_partitions b)\<rparr>"

lemma family_body:
  "bindR (read_fact_records_family f) (\<lambda>records. read_rest info records (map (drop_other_families f)))
    = bindR (read_body info) (\<lambda>b. retR (restrict_family f b))"
  unfolding family_reader read_body_def read_rest_def restrict_family_def
  by (simp only: bindR_assoc bindR_ret FactBatch.select_convs FactBatch.update_convs)

lemma family_size_restricted: "family_size (family_records f r) f = family_size r f"
  by (cases f) (simp_all add: family_records_def)

lemma map_of_dropped: "map_of (fp_members (drop_other_families f p)) f = map_of (fp_members p) f"
proof -
  have "map_of (filter (\<lambda>entry. fst entry = f) xs) f = map_of xs f" for xs :: "(FactFamily \<times> u64 list) list"
    by (induction xs) auto
  then show ?thesis by (simp add: drop_other_families_def)
qed

lemma restricted_in_range:
  assumes "has_canonical_layout b"
  shows "validate_partition_family (fb_records (restrict_family f b)) (fb_partitions (restrict_family f b)) f = Inr ()"
  using layout_family [OF assms, of f]
  by (auto simp: validate_partition_family_def restrict_family_def family_size_restricted map_of_dropped
      family_in_range_def list_all_iff split: option.splits)

lemma decode_family_restricts:
  assumes "decode artifact c = Inr (b, info)"
  shows "decode_fact_batch_artifact_family artifact f c = Inr (restrict_family f b)"
proof -
  from assms obtain d head i n j where s: "open_artifact artifact c = Inr (d, head, i, n)"
      "read_body head (co_limits c) i = Inr (b, j)" "in_rest j = []" "has_canonical_layout b"
    unfolding decode_def no_trailing_def by (auto simp: bindE_Inr_iff split: if_splits)
  have "bindR (read_body head) (\<lambda>b. retR (restrict_family f b)) (co_limits c) i = Inr (restrict_family f b, j)"
    using s(2) by (simp add: bindR_Inr retR_Inr)
  with s(1,3) restricted_in_range [OF s(4), of f] show ?thesis
    by (simp add: decode_fact_batch_artifact_family_def make_family_batch_def family_body no_trailing_def)
qed

end
