(* ===== verification/Artifact_Props.thy ===== *)
theory Artifact_Props
  imports Fact_Artifact
begin

text \<open>
  What the artifacts of \<^verbatim>\<open>Fact_Artifact\<close> guarantee: a batch that was encoded is decoded again, an
  artifact that is accepted is the encoding of what it gives, and a family read alone is that family
  of the whole.
\<close>

subsection \<open>A small batch\<close>

definition sample_partition :: FactPartitionKey where
  "sample_partition = \<lparr>pk_file = \<lparr>pf_component_path = ''lib'', pf_directory_path = ''src'', pf_file_name = ''a.cpp''\<rparr>,
     pk_configuration = \<lparr>ci_semantic_universe = ''u'', ci_translation_unit = ''src/a.cpp'', ci_normalized_configuration = ''c'',
       ci_identity_source = ''db'', ci_content = \<lparr>cc_driver = None, cc_working_dir = None, cc_arguments = [''-O2''],
         cc_lang_mode = None, cc_resource_dir = None\<rparr>\<rparr>\<rparr>"

definition no_records :: FactRecords where
  "no_records = \<lparr>fr_symbols = [], fr_declaration_sites = [], fr_relations = [], fr_edge_sites = [], fr_call_args = [],
     fr_template_params = [], fr_template_args = [], fr_type_nodes = [], fr_type_edges = [], fr_parameters = [],
     fr_symbol_types = [], fr_definitions = [], fr_definition_edges = [], fr_includes = [], fr_macros = [],
     fr_diagnostics = [], fr_evidence = [], fr_presentation_intents = [], fr_lifecycle_cleanup = [],
     fr_applicability = [], fr_symbol_order = []\<rparr>"

definition sample_relation :: EdgeRecord where
  "sample_relation = \<lparr>er_src_id = 1, er_dst_id = 2, er_kind = 3, er_count = 1, er_base_access = None, er_is_virtual = Some 1\<rparr>"

definition sample_batch :: FactBatch where
  "sample_batch = \<lparr>fb_producer = ''clang'', fb_producer_version = 1, fb_completeness = fact_complete, fb_canonical = True,
     fb_records = no_records\<lparr>fr_relations := [sample_relation],
       fr_type_edges := [\<lparr>te_src_id = 1, te_kind = 0, te_position = 0, te_dst_id = 2\<rparr>]\<rparr>,
     fb_partitions = [\<lparr>fp_key = sample_partition, fp_members = [(fam_relations, [0]), (fam_type_edges, [0])]\<rparr>],
     fb_symbol_keys = [(1, ''f''), (2, ''g'')], fb_relation_keys = [], fb_type_keys = [], fb_definition_keys = [],
     fb_file_keys = [(7, sample_partition)],
     fb_pending_symbol_references = [\<lparr>ps_handle = -1, ps_usr = ''h'', ps_identity_source = [], ps_semantic_universe = ''u'',
       ps_translation_unit = ''src/a.cpp''\<rparr>]\<rparr>"

definition sample_metadata :: FactBatchArtifactMetadata where
  "sample_metadata = \<lparr>am_pass_version = 1, am_extractor_version = 1, am_storage_schema_version = 40, am_catalog_version = 1,
     am_catalog_hash = ''h'', am_trust = trust_trusted, am_truncated = False, am_dependency_identities = [''b'', ''a'', ''b'']\<rparr>"

definition sample_options :: FactBatchArtifactEncodeOptions where
  "sample_options = \<lparr>eo_metadata = sample_metadata, eo_max_artifact_bytes = 536870912\<rparr>"

definition sample_compatibility :: FactBatchArtifactCompatibility where
  "sample_compatibility = \<lparr>co_wire_version = 3, co_producer = Some ''clang'', co_producer_version = None, co_pass_version = 1,
     co_extractor_version = 1, co_storage_schema_version = 40, co_catalog_version = 1, co_catalog_hash = ''h'',
     co_dependency_identities = Some [''a'', ''b''], co_allow_partial = False, co_allow_truncated = False,
     co_require_trusted = True, co_limits = \<lparr>li_max_artifact_bytes = 536870912, li_max_string_bytes = 16777216,
       li_max_collection_entries = 10000000, li_max_total_entries = 20000000\<rparr>\<rparr>"

lemma sample_layout: "has_canonical_layout sample_batch"
  by code_simp

lemma sample_ordered: "maps_ordered sample_batch"
  by code_simp

lemma sample_explicit: "explicit_versions sample_batch sample_metadata" "[] \<notin> set (am_dependency_identities sample_metadata)"
  by code_simp+

lemma sample_compatible: "validate_compatibility (artifact_info sample_batch sample_metadata) sample_compatibility = Inr ()"
  by code_simp

lemma sample_length: "length (payload_bytes sample_batch sample_metadata) = 726"
  by code_simp

lemma length_footer: "sha256_bytes_hex p = Some d \<Longrightarrow> length (footer_bytes d) = kFooterSize"
  by (simp add: footer_bytes_def kFooterSize_def digest_text)

lemma sample_artifact:
  obtains d where "sha256_bytes_hex (payload_bytes sample_batch sample_metadata) = Some d"
    "length (payload_bytes sample_batch sample_metadata @ footer_bytes d) = 805"
    "artifact_fits (co_limits sample_compatibility) (payload_bytes sample_batch sample_metadata @ footer_bytes d)"
    "encode_fact_batch_artifact sample_batch sample_options = Inr (payload_bytes sample_batch sample_metadata @ footer_bytes d)"
proof -
  obtain d where d: "sha256_bytes_hex (payload_bytes sample_batch sample_metadata) = Some d"
    by (simp add: sha256_bytes_reference)
  have l: "length (payload_bytes sample_batch sample_metadata @ footer_bytes d) = 805"
    using length_footer [OF d] by (simp add: sample_length kFooterSize_def kDigestTextSize_def length_magic)
  moreover have "artifact_fits (co_limits sample_compatibility) (payload_bytes sample_batch sample_metadata @ footer_bytes d)"
    unfolding artifact_fits_def l by (simp add: sample_compatibility_def)
  moreover have "encode_fact_batch_artifact sample_batch sample_options
      = Inr (payload_bytes sample_batch sample_metadata @ footer_bytes d)"
    unfolding encode_Inr using d l sample_layout sample_explicit by (simp add: sample_options_def)
  ultimately show thesis using that d by blast
qed

lemma sample_decoded:
  assumes "sha256_bytes_hex (payload_bytes sample_batch sample_metadata) = Some d"
    "artifact_fits (co_limits sample_compatibility) (payload_bytes sample_batch sample_metadata @ footer_bytes d)"
  shows "decode (Some (payload_bytes sample_batch sample_metadata @ footer_bytes d)) sample_compatibility
    = Inr (sample_batch, stored_info sample_batch sample_metadata d (payload_bytes sample_batch sample_metadata @ footer_bytes d))"
  by (rule decode_encoded [OF assms(1) sample_layout sample_ordered sample_compatible assms(2)])

subsection \<open>Properties\<close>

text \<open>(C8) Decoding an encoded batch gives the batch back with every field, and its header with the digest of the
  payload and the size, as long as the reader accepts the header and its limits leave room for the
  artifact.\<close>

theorem artifact_roundtrip:
  assumes "encode_fact_batch_artifact b options = Inr bytes"
    and "maps_ordered b"
    and "validate_compatibility (artifact_info b (eo_metadata options)) c = Inr ()"
    and "artifact_fits (co_limits c) bytes"
  shows "\<exists>digest. sha256_bytes_hex (payload_bytes b (eo_metadata options)) = Some digest \<and>
    decode_fact_batch_artifact (Some bytes) c
      = \<lparr>ar_batch = Some b, ar_info = Some (stored_info b (eo_metadata options) digest bytes), ar_diagnostics = []\<rparr>"
proof -
  from assms(1) obtain d where d: "sha256_bytes_hex (payload_bytes b (eo_metadata options)) = Some d"
      "bytes = payload_bytes b (eo_metadata options) @ footer_bytes d" "has_canonical_layout b"
    by (auto simp: encode_Inr)
  with decode_encoded [OF d(1,3) assms(2,3)] assms(4) show ?thesis by (simp add: decoded_Some)
qed

theorem artifact_roundtrip_witness:
  "\<exists>bytes. encode_fact_batch_artifact sample_batch sample_options = Inr bytes \<and> length bytes = 805
    \<and> ar_batch (decode_fact_batch_artifact (Some bytes) sample_compatibility) = Some sample_batch"
proof -
  have m: "eo_metadata sample_options = sample_metadata" by (simp add: sample_options_def)
  obtain d where "length (payload_bytes sample_batch sample_metadata @ footer_bytes d) = 805"
      "artifact_fits (co_limits sample_compatibility) (payload_bytes sample_batch sample_metadata @ footer_bytes d)"
      "encode_fact_batch_artifact sample_batch sample_options = Inr (payload_bytes sample_batch sample_metadata @ footer_bytes d)"
    by (rule sample_artifact)
  with artifact_roundtrip [OF this(3) sample_ordered _ this(2)] sample_compatible show ?thesis by (auto simp: m)
qed

text \<open>(C9) An artifact that is accepted was checked: the batch has the canonical layout and ordered maps, the header is
  compatible and, when the header states explicit versions and no empty dependency identity, encoding the batch
  again under it gives exactly these bytes: no other bytes are accepted as this batch under this header.\<close>

theorem accepted_artifact_is_encoding:
  assumes "decode_fact_batch_artifact (Some bytes) c = \<lparr>ar_batch = Some b, ar_info = Some info, ar_diagnostics = []\<rparr>"
  shows "has_canonical_layout b \<and> maps_ordered b \<and> validate_compatibility (artifact_info b (info_metadata info)) c = Inr ()
    \<and> length bytes \<le> unat (li_max_artifact_bytes (co_limits c))
    \<and> (explicit_versions b (info_metadata info) \<and> [] \<notin> set (ai_dependency_identities info) \<longrightarrow>
         encode_fact_batch_artifact b \<lparr>eo_metadata = info_metadata info, eo_max_artifact_bytes = li_max_artifact_bytes (co_limits c)\<rparr> = Inr bytes)"
proof -
  from assms have "decode (Some bytes) c = Inr (b, info)" by (simp add: decoded_Some)
  from decode_exact [OF this] obtain d where d: "sha256_bytes_hex (payload_bytes b (info_metadata info)) = Some d"
      "bytes = payload_bytes b (info_metadata info) @ footer_bytes d"
      "maps_ordered b" "has_canonical_layout b" "validate_compatibility (artifact_info b (info_metadata info)) c = Inr ()"
      "length bytes \<le> unat (li_max_artifact_bytes (co_limits c))" by blast
  have "am_dependency_identities (info_metadata info) = ai_dependency_identities info" by (simp add: info_metadata_def)
  with d show ?thesis unfolding encode_Inr by simp
qed

theorem accepted_artifact_is_encoding_witness:
  "\<exists>bytes info. ar_info (decode_fact_batch_artifact (Some bytes) sample_compatibility) = Some info
    \<and> encode_fact_batch_artifact sample_batch \<lparr>eo_metadata = info_metadata info,
        eo_max_artifact_bytes = li_max_artifact_bytes (co_limits sample_compatibility)\<rparr> = Inr bytes"
proof -
  obtain d where d: "sha256_bytes_hex (payload_bytes sample_batch sample_metadata) = Some d"
      "artifact_fits (co_limits sample_compatibility) (payload_bytes sample_batch sample_metadata @ footer_bytes d)"
    by (rule sample_artifact)
  let ?i = "stored_info sample_batch sample_metadata d (payload_bytes sample_batch sample_metadata @ footer_bytes d)"
  have r: "decode_fact_batch_artifact (Some (payload_bytes sample_batch sample_metadata @ footer_bytes d)) sample_compatibility
      = \<lparr>ar_batch = Some sample_batch, ar_info = Some ?i, ar_diagnostics = []\<rparr>"
    using sample_decoded [OF d] by (simp add: decoded_Some)
  have "explicit_versions sample_batch (info_metadata ?i)" "[] \<notin> set (ai_dependency_identities ?i)"
    by (simp_all add: stored_info_def artifact_info_def info_metadata_def explicit_versions_def sample_batch_def sample_metadata_def
        canonical_dependencies_sort_unique)
  with accepted_artifact_is_encoding [OF r] have "encode_fact_batch_artifact sample_batch \<lparr>eo_metadata = info_metadata ?i,
      eo_max_artifact_bytes = li_max_artifact_bytes (co_limits sample_compatibility)\<rparr>
    = Inr (payload_bytes sample_batch sample_metadata @ footer_bytes d)" by blast
  moreover have "ar_info (decode_fact_batch_artifact (Some (payload_bytes sample_batch sample_metadata @ footer_bytes d)) sample_compatibility)
    = Some ?i" by (simp add: r)
  ultimately show ?thesis by blast
qed

text \<open>(C26) Reading one family of an accepted artifact gives that family of the decoded batch: its records, its members
  in every partition, and the shared maps; the emission order comes with the symbols.\<close>

theorem family_view_is_restriction:
  assumes "decode_fact_batch_artifact (Some bytes) c = \<lparr>ar_batch = Some b, ar_info = Some info, ar_diagnostics = []\<rparr>"
  shows "decode_fact_batch_artifact_family (Some bytes) f c = Inr (restrict_family f b)"
  using assms decode_family_restricts by (simp add: decoded_Some)

theorem family_view_is_restriction_witness:
  "\<exists>bytes view. decode_fact_batch_artifact_family (Some bytes) fam_relations sample_compatibility = Inr view
    \<and> fr_relations (fb_records view) = [sample_relation] \<and> fr_type_edges (fb_records view) = []
    \<and> map fp_members (fb_partitions view) = [[(fam_relations, [0])]]"
proof -
  obtain d where d: "sha256_bytes_hex (payload_bytes sample_batch sample_metadata) = Some d"
      "artifact_fits (co_limits sample_compatibility) (payload_bytes sample_batch sample_metadata @ footer_bytes d)"
    by (rule sample_artifact)
  have r: "decode_fact_batch_artifact (Some (payload_bytes sample_batch sample_metadata @ footer_bytes d)) sample_compatibility
      = \<lparr>ar_batch = Some sample_batch, ar_info = Some (stored_info sample_batch sample_metadata d
          (payload_bytes sample_batch sample_metadata @ footer_bytes d)), ar_diagnostics = []\<rparr>"
    using sample_decoded [OF d] by (simp add: decoded_Some)
  have "fr_relations (fb_records (restrict_family fam_relations sample_batch)) = [sample_relation]"
      "fr_type_edges (fb_records (restrict_family fam_relations sample_batch)) = []"
      "map fp_members (fb_partitions (restrict_family fam_relations sample_batch)) = [[(fam_relations, [0])]]"
    by code_simp+
  with family_view_is_restriction [OF r, of fam_relations] show ?thesis by (intro exI conjI) assumption+
qed

end
