(* ===== verification/Batch_Runs.thy ===== *)
theory Batch_Runs
  imports Fact_Artifact
begin

text \<open>
  Sorting routed records into partitions (\<^verbatim>\<open>ast/fact_batch.cpp\<close>, \<^verbatim>\<open>append_records\<close> and the membership
  maps): records sorted by partition and key, without repetitions, are filed under their partition in
  runs of consecutive positions, which is what the canonical layout asks for.
\<close>

subsection \<open>Ordered maps of buckets\<close>

text \<open>\<^verbatim>\<open>m[k] = f(m[k])\<close> on a \<^verbatim>\<open>std::map\<close>, with the default \<^verbatim>\<open>d\<close> for a new key.\<close>

fun bucket :: "('k \<Rightarrow> 'r::linorder) \<Rightarrow> 'k \<Rightarrow> ('v \<Rightarrow> 'v) \<Rightarrow> 'v \<Rightarrow> ('k \<times> 'v) list \<Rightarrow> ('k \<times> 'v) list" where
  "bucket rank k f d [] = [(k, f d)]"
| "bucket rank k f d ((k', v) # m) =
     (if rank k < rank k' then (k, f d) # (k', v) # m
      else if rank k = rank k' then (k', f v) # m
      else (k', v) # bucket rank k f d m)"

definition slot :: "('k \<times> 'v) list \<Rightarrow> 'v \<Rightarrow> 'k \<Rightarrow> 'v" where
  "slot m d k = (case map_of m k of None \<Rightarrow> d | Some v \<Rightarrow> v)"

lemma map_of_bucket:
  assumes "inj rank" "ascending rank fst m"
  shows "map_of (bucket rank k f d m) = (map_of m)(k \<mapsto> f (slot m d k))"
  using assms(2)
proof (induction m)
  case (Cons a m)
  obtain k' v where a: "a = (k', v)" by (cases a)
  have asc: "ascending rank fst m" and above: "\<forall>x\<in>set m. rank k' < rank (fst x)"
    using Cons.prems by (auto simp: ascending_sorted a)
  have "map_of m k = None" if "rank k < rank k'" using above that by (force simp: map_of_eq_None_iff)
  then show ?case using Cons.IH [OF asc] injD [OF assms(1), of k k']
    by (auto simp: a slot_def fun_eq_iff not_less_iff_gr_or_eq)
qed (simp add: slot_def)

lemma set_bucket: "inj rank \<Longrightarrow> fst ` set (bucket rank k f d m) = insert k (fst ` set m)"
proof (induction m)
  case (Cons a m)
  then show ?case by (cases a) (simp add: insert_commute inj_eq)
qed simp

lemma ascending_bucket:
  assumes "inj rank" "ascending rank fst m"
  shows "ascending rank fst (bucket rank k f d m)"
  using assms(2)
proof (induction m)
  case (Cons a m)
  obtain k' v where a: "a = (k', v)" by (cases a)
  have asc: "ascending rank fst m" and above: "\<forall>x\<in>set m. rank k' < rank (fst x)"
    using Cons.prems by (auto simp: ascending_sorted a)
  have "\<forall>x\<in>fst ` set (bucket rank k f d m). rank k' < rank x" if "rank k' < rank k"
    using above that by (auto simp: set_bucket [OF assms(1)])
  then show ?case using Cons.IH [OF asc] asc above
    by (auto simp: a ascending_sorted not_less_iff_gr_or_eq dest: less_trans)
qed (simp add: ascending_sorted)

lemma slot_bucket: "inj rank \<Longrightarrow> ascending rank fst m \<Longrightarrow> slot (bucket rank k f d m) d k' = (if k' = k then f (slot m d k) else slot m d k')"
  by (simp add: slot_def [of "bucket rank k f d m"] map_of_bucket) (simp add: slot_def)

lemma bucket_values:
  assumes "inj rank" "ascending rank fst m" "(k', v) \<in> set (bucket rank k f d m)"
  shows "v = (if k' = k then f (slot m d k) else slot m d k')" "k' \<noteq> k \<Longrightarrow> (k', v) \<in> set m"
proof -
  have "distinct (map fst (bucket rank k f d m))"
    using ascending_distinct [OF ascending_bucket [OF assms(1,2)]] .
  then have "map_of (bucket rank k f d m) k' = Some v" using assms(3) by (rule map_of_is_SomeI)
  then have e: "((map_of m)(k \<mapsto> f (slot m d k))) k' = Some v" by (simp add: map_of_bucket [OF assms(1,2)])
  then show "v = (if k' = k then f (slot m d k) else slot m d k')" by (auto simp: slot_def split: if_splits option.splits)
  show "k' \<noteq> k \<Longrightarrow> (k', v) \<in> set m" using e by (auto dest: map_of_SomeD)
qed

subsection \<open>Filing records\<close>

record 'a RoutedRecord =
  ro_partition :: FactPartitionKey
  ro_record :: 'a

type_synonym Memberships = "(FactPartitionKey \<times> (FactFamily \<times> u64 list) list) list"

definition route_rank :: "('a \<Rightarrow> string) \<Rightarrow> 'a RoutedRecord \<Rightarrow> partition_order \<times> string" where
  "route_rank key r = (partition_rank (ro_partition r), key (ro_record r))"

text \<open>\<^verbatim>\<open>std::unique\<close> with a relation: the first of every run stays.\<close>

fun unique_by :: "('a \<Rightarrow> 'a \<Rightarrow> bool) \<Rightarrow> 'a list \<Rightarrow> 'a list" where
  "unique_by same (x # y # xs) = (if same x y then unique_by same (x # xs) else x # unique_by same (y # xs))"
| "unique_by same xs = xs"

definition same_route :: "('a \<Rightarrow> string) \<Rightarrow> 'a RoutedRecord \<Rightarrow> 'a RoutedRecord \<Rightarrow> bool" where
  "same_route key l r \<longleftrightarrow> ro_partition l = ro_partition r \<and> key (ro_record l) = key (ro_record r)"

text \<open>Records that the sort does not tell apart have the same partition and key, and one of them stays.\<close>

definition routed_in_order :: "('a \<Rightarrow> string) \<Rightarrow> bool \<Rightarrow> 'a RoutedRecord list \<Rightarrow> 'a RoutedRecord list" where
  "routed_in_order key canonical source =
     (if canonical then unique_by (same_route key) (sort_key (route_rank key) source) else source)"

definition push_member :: "FactFamily \<Rightarrow> nat \<Rightarrow> FactPartitionKey \<Rightarrow> Memberships \<Rightarrow> Memberships" where
  "push_member family index p m =
     bucket partition_rank p (bucket family_number family (\<lambda>is. is @ [word_of_nat index]) []) [] m"

fun push_records :: "FactFamily \<Rightarrow> 'a RoutedRecord list \<Rightarrow> 'a list \<times> Memberships \<Rightarrow> 'a list \<times> Memberships" where
  "push_records family [] (destination, m) = (destination, m)"
| "push_records family (item # items) (destination, m) =
     push_records family items (destination @ [ro_record item], push_member family (length destination) (ro_partition item) m)"

definition append_records :: "'a RoutedRecord list \<Rightarrow> 'a list \<Rightarrow> FactFamily \<Rightarrow> ('a \<Rightarrow> string) \<Rightarrow> Memberships \<Rightarrow> bool \<Rightarrow>
    'a list \<times> Memberships" where
  "append_records source destination family key m canonical =
     push_records family (routed_in_order key canonical source) (destination, m)"

lemma opt_order_inj: "opt_order a = opt_order b \<longleftrightarrow> a = b"
  by (auto simp: opt_order_def split: option.splits)

lemma inj_partition_rank: "inj partition_rank"
  by (rule injI) (auto simp: partition_rank_def Let_def opt_order_inj intro!: FactPartitionKey.equality
      PortableFileIdentity.equality ConfigurationIdentity.equality PortableConfigurationContent.equality)

lemma inj_family_number: "inj family_number"
proof (rule injI)
  fix x y :: FactFamily
  show "family_number x = family_number y \<Longrightarrow> x = y" by (cases x; cases y) simp_all
qed

lemma route_rank_eq: "route_rank key l = route_rank key r \<longleftrightarrow> same_route key l r"
  by (simp add: route_rank_def same_route_def inj_eq [OF inj_partition_rank])

lemma unique_by_sorted:
  "(\<And>x y. same x y \<longleftrightarrow> rank x = (rank y :: 'r::linorder)) \<Longrightarrow> sorted (map rank xs) \<Longrightarrow>
    sorted_wrt (<) (map rank (unique_by same xs)) \<and> set (map rank (unique_by same xs)) = set (map rank xs)"
proof (induction same xs rule: unique_by.induct)
  case (1 same x y xs)
  show ?case
  proof (cases "same x y")
    case True
    then have "rank x = rank y" by (simp add: 1(3))
    with 1(1) [OF True 1(3)] 1(4) True show ?thesis by auto
  next
    case False
    then have "rank x < rank y" using 1(3,4) by (simp add: le_neq_trans)
    with 1(4) have "\<forall>z\<in>set (map rank (y # xs)). rank x < z" by auto
    with 1(2) [OF False 1(3)] 1(4) show ?thesis using False by auto
  qed
qed auto

lemma routed_sorted: "sorted_wrt (<) (map (route_rank key) (routed_in_order key True source))"
  using unique_by_sorted [of "same_route key" "route_rank key" "sort_key (route_rank key) source"]
  by (simp add: routed_in_order_def route_rank_eq [symmetric])

lemma set_unique_by: "set (unique_by same xs) \<subseteq> set xs"
  by (induction same xs rule: unique_by.induct) (auto split: if_splits)

lemma set_routed: "set (routed_in_order key canonical source) \<subseteq> set source"
  using set_unique_by [of "same_route key" "sort_key (route_rank key) source"] by (auto simp: routed_in_order_def)

subsection \<open>Members of a family\<close>

definition memberships_ok :: "Memberships \<Rightarrow> bool" where
  "memberships_ok m \<longleftrightarrow> ascending partition_rank fst m \<and>
     (\<forall>(p, fm)\<in>set m. ascending family_number fst fm \<and> (\<forall>(f, is)\<in>set fm. is \<noteq> []))"

definition filed_members :: "Memberships \<Rightarrow> FactPartitionKey \<Rightarrow> FactFamily \<Rightarrow> u64 list" where
  "filed_members m p f = slot (slot m [] p) [] f"

lemma memberships_slot:
  assumes "memberships_ok m"
  shows "ascending family_number fst (slot m [] p)" "\<forall>(f, is)\<in>set (slot m [] p). is \<noteq> []"
proof -
  have "slot m [] p = [] \<or> (p, slot m [] p) \<in> set m"
    by (auto simp: slot_def dest: map_of_SomeD split: option.splits)
  then show "ascending family_number fst (slot m [] p)" "\<forall>(f, is)\<in>set (slot m [] p). is \<noteq> []"
    using assms by (auto simp: memberships_ok_def ascending_sorted)
qed

lemma members_push:
  assumes "memberships_ok m"
  shows "filed_members (push_member family index p m) p' f
    = (if p' = p \<and> f = family then filed_members m p f @ [word_of_nat index] else filed_members m p' f)"
  using assms memberships_slot(1) [OF assms, of p]
  by (simp add: filed_members_def push_member_def memberships_ok_def slot_bucket [OF inj_partition_rank] slot_bucket [OF inj_family_number])

lemma push_ok:
  assumes "memberships_ok m"
  shows "memberships_ok (push_member family index p m)"
proof -
  have a: "ascending partition_rank fst m" using assms by (simp add: memberships_ok_def)
  let ?b = "bucket family_number family (\<lambda>is. is @ [word_of_nat index]) [] (slot m [] p)"
  note s = memberships_slot [OF assms, of p]
  have b: "ascending family_number fst ?b" "\<forall>(f, is)\<in>set ?b. is \<noteq> []"
    using ascending_bucket [OF inj_family_number s(1)] bucket_values [OF inj_family_number s(1)] s(2) by fastforce+
  have "ascending family_number fst fm \<and> (\<forall>(f, is)\<in>set fm. is \<noteq> [])" if "(q, fm) \<in> set (push_member family index p m)" for q fm
  proof (cases "q = p")
    case True
    with bucket_values(1) [OF inj_partition_rank a that [unfolded push_member_def]] b show ?thesis by simp
  next
    case False
    with bucket_values(2) [OF inj_partition_rank a that [unfolded push_member_def]] assms show ?thesis
      by (auto simp: memberships_ok_def)
  qed
  moreover have "ascending partition_rank fst (push_member family index p m)"
    unfolding push_member_def by (rule ascending_bucket [OF inj_partition_rank a])
  ultimately show ?thesis unfolding memberships_ok_def by blast
qed

lemma push_keys: "fst ` set (push_member family index p m) = insert p (fst ` set m)"
  by (simp add: push_member_def set_bucket [OF inj_partition_rank])

fun positions :: "nat \<Rightarrow> 'p \<Rightarrow> 'p list \<Rightarrow> nat list" where
  "positions n p [] = []"
| "positions n p (q # qs) = (if q = p then [n] else []) @ positions (Suc n) p qs"

fun push_all :: "FactFamily \<Rightarrow> nat \<Rightarrow> FactPartitionKey list \<Rightarrow> Memberships \<Rightarrow> Memberships" where
  "push_all family n [] m = m"
| "push_all family n (p # ps) m = push_all family (Suc n) ps (push_member family n p m)"

lemma push_records_all:
  "push_records family items (destination, m)
    = (destination @ map ro_record items, push_all family (length destination) (map ro_partition items) m)"
  by (induction items arbitrary: destination m) simp_all

lemma push_all_members:
  "memberships_ok m \<Longrightarrow> memberships_ok (push_all family n ps m) \<and>
    fst ` set (push_all family n ps m) = fst ` set m \<union> set ps \<and>
    filed_members (push_all family n ps m) p f = filed_members m p f @ (if f = family then map word_of_nat (positions n p ps) else [])"
proof (induction ps arbitrary: n m)
  case (Cons q qs)
  from Cons.IH [OF push_ok [OF Cons.prems, where family = family and index = n and p = q], of "Suc n"]
  show ?case by (auto simp: members_push [OF Cons.prems] push_keys)
qed simp

lemma positions_append: "positions n p (xs @ ys) = positions n p xs @ positions (n + length xs) p ys"
  by (induction xs arbitrary: n) simp_all

lemma positions_all: "\<forall>x\<in>set xs. x = p \<Longrightarrow> positions n p xs = [n ..< n + length xs]"
  by (induction xs arbitrary: n) (simp_all add: upt_conv_Cons del: upt_Suc)

lemma positions_none: "\<forall>x\<in>set xs. x \<noteq> p \<Longrightarrow> positions n p xs = []"
  by (induction xs arbitrary: n) simp_all

lemma positions_at: "i \<in> set (positions n p ps) \<Longrightarrow> n \<le> i \<and> i < n + length ps \<and> ps ! (i - n) = p"
  by (induction ps arbitrary: n) (fastforce simp: nth_Cons' Suc_diff_le split: if_splits)+

subsection \<open>Runs\<close>

text \<open>Records in the order of their partitions are the runs of the partitions one after the other.\<close>

definition partition_run :: "FactPartitionKey \<Rightarrow> 'a RoutedRecord list \<Rightarrow> 'a RoutedRecord list" where
  "partition_run p rs = filter (\<lambda>r. ro_partition r = p) rs"

lemma runs_concat:
  "sorted_wrt (<) (map partition_rank ps) \<Longrightarrow> sorted (map (partition_rank \<circ> ro_partition) rs) \<Longrightarrow>
    ro_partition ` set rs \<subseteq> set ps \<Longrightarrow> concat (map (\<lambda>p. partition_run p rs) ps) = rs"
proof (induction ps arbitrary: rs)
  case (Cons p ps)
  let ?here = "takeWhile (\<lambda>r. ro_partition r = p) rs" and ?rest = "dropWhile (\<lambda>r. ro_partition r = p) rs"
  have rs: "rs = ?here @ ?rest" by simp
  have later: "\<forall>r\<in>set ?rest. ro_partition r \<noteq> p"
  proof (cases ?rest)
    case rest: (Cons q qs)
    have q: "ro_partition q \<noteq> p" using hd_dropWhile [of "\<lambda>r. ro_partition r = p" rs] rest by simp
    have "q \<in> set rs" using rs unfolding rest by (metis in_set_conv_decomp)
    with Cons.prems(3) q have "ro_partition q \<in> set ps" by auto
    then have less: "partition_rank p < partition_rank (ro_partition q)" using Cons.prems(1) by auto
    have "sorted (map (partition_rank \<circ> ro_partition) (?here @ ?rest))" using Cons.prems(2) by (simp only: takeWhile_dropWhile_id)
    then have "sorted (map (partition_rank \<circ> ro_partition) (q # qs))" unfolding rest map_append sorted_append by blast
    then show ?thesis using less unfolding rest by fastforce
  next
    case Nil
    then show ?thesis unfolding Nil by simp
  qed
  then have r1: "partition_run p ?rest = []" unfolding partition_run_def by (rule filter_False)
  have r2: "partition_run p ?here = ?here" unfolding partition_run_def by (rule filter_True) (blast dest: set_takeWhileD)
  have split: "partition_run q rs = partition_run q ?here @ partition_run q ?rest" for q unfolding partition_run_def filter_append [symmetric] by (simp only: takeWhile_dropWhile_id)
  have "partition_run p rs = ?here" using split [of p] r1 r2 by simp
  moreover have "partition_run q rs = partition_run q ?rest" if "q \<in> set ps" for q
  proof -
    have "q \<noteq> p" using that Cons.prems(1) by auto
    then have "partition_run q ?here = []" unfolding partition_run_def by (intro filter_False) (blast dest: set_takeWhileD)
    then show ?thesis using split [of q] by simp
  qed
  moreover have "concat (map (\<lambda>q. partition_run q ?rest) ps) = ?rest"
  proof (rule Cons.IH)
    show "sorted_wrt (<) (map partition_rank ps)" using Cons.prems(1) by simp
    have "sorted (map (partition_rank \<circ> ro_partition) (?here @ ?rest))" using Cons.prems(2) by (simp only: takeWhile_dropWhile_id)
    then show "sorted (map (partition_rank \<circ> ro_partition) ?rest)" unfolding map_append sorted_append by blast
    have "set ?rest \<subseteq> set rs" by (blast dest: set_dropWhileD)
    then show "ro_partition ` set ?rest \<subseteq> set ps" using Cons.prems(3) later by fastforce
  qed
  ultimately have "concat (map (\<lambda>p. partition_run p rs) (p # ps)) = ?here @ ?rest" by (simp only: list.map concat.simps cong: map_cong)
  then show ?case by (simp only: takeWhile_dropWhile_id)
qed simp

subsection \<open>Filed records are canonical\<close>

lemma members_canonical_run:
  assumes "length rs \<le> 2 ^ 64"
  shows "e + n \<le> length rs \<Longrightarrow> sorted_wrt (<) (map key (take n (drop e rs))) \<Longrightarrow>
    (case prev of None \<Rightarrow> True | Some p \<Rightarrow> \<forall>k\<in>set (map key (take n (drop e rs))). p < k) \<Longrightarrow>
    members_canonical key rs prev e (map word_of_nat [e ..< e + n]) = Some (e + n)"
proof (induction n arbitrary: e prev)
  case (Suc n)
  have e: "e < length rs" using Suc.prems(1) by simp
  then have u: "unat (word_of_nat e :: u64) = e" using assms by (simp add: unat_of_nat)
  have d: "take (Suc n) (drop e rs) = rs ! e # take n (drop (Suc e) rs)" using e by (simp add: Cons_nth_drop_Suc [symmetric])
  have c: "[e ..< e + Suc n] = e # [Suc e ..< Suc e + n]" by (simp add: upt_conv_Cons del: upt_Suc)
  have "members_canonical key rs (Some (key (rs ! e))) (Suc e) (map word_of_nat [Suc e ..< Suc e + n]) = Some (Suc e + n)"
    by (rule Suc.IH) (use Suc.prems d in auto)
  moreover have "\<not> (case prev of None \<Rightarrow> False | Some p \<Rightarrow> p \<ge> key (rs ! e))"
    using Suc.prems(3) d by (auto split: option.splits)
  ultimately show ?case unfolding c using e u by (simp add: Let_def del: upt_Suc)
qed simp

definition file_partition :: "FactPartitionKey \<times> (FactFamily \<times> u64 list) list \<Rightarrow> FileFactPartition" where
  "file_partition pm = \<lparr>fp_key = fst pm, fp_members = snd pm\<rparr>"

lemma file_partition_simps [simp]: "fp_key (file_partition pm) = fst pm" "fp_members (file_partition pm) = snd pm"
  by (simp_all add: file_partition_def)

lemma family_loop_runs:
  assumes "length rs \<le> 2 ^ 64" "rs = map ro_record items"
    and "\<And>p. sorted_wrt (<) (map (key \<circ> ro_record) (partition_run p items))"
  shows "done @ concat (map (\<lambda>pm. partition_run (fst pm) items) m) = items \<Longrightarrow> distinct (map fst m) \<Longrightarrow>
    \<forall>r\<in>set done. ro_partition r \<notin> fst ` set m \<Longrightarrow>
    \<forall>pm\<in>set m. map_of (snd pm) f = (if positions 0 (fst pm) (map ro_partition items) = [] then None
      else Some (map word_of_nat (positions 0 (fst pm) (map ro_partition items)))) \<Longrightarrow>
    family_loop key rs f (length done) (map file_partition m) = Some (length rs)"
proof (induction m arbitrary: "done")
  case Nil
  then show ?case using assms(2) by simp
next
  case (Cons pm m)
  let ?run = "partition_run (fst pm) items" and ?rest = "concat (map (\<lambda>pm. partition_run (fst pm) items) m)"
  have it: "items = done @ ?run @ ?rest" using Cons.prems(1) by simp
  have "\<forall>r\<in>set ?rest. ro_partition r \<noteq> fst pm" using Cons.prems(2) by (force simp: partition_run_def)
  moreover have "\<forall>r\<in>set done. ro_partition r \<noteq> fst pm" using Cons.prems(3) by auto
  moreover have "\<forall>r\<in>set ?run. ro_partition r = fst pm" by (simp add: partition_run_def)
  ultimately have pos: "positions 0 (fst pm) (map ro_partition items) = [length done ..< length done + length ?run]"
    by (subst it) (simp add: positions_append positions_none positions_all)
  have next_run: "family_loop key rs f (length (done @ ?run)) (map file_partition m) = Some (length rs)"
  proof (rule Cons.IH)
    show "(done @ ?run) @ ?rest = items" using it by simp
    have "fst pm \<notin> fst ` set m" using Cons.prems(2) by simp
    then show "\<forall>r\<in>set (done @ ?run). ro_partition r \<notin> fst ` set m" using Cons.prems(3)
      unfolding partition_run_def set_append set_filter ball_Un by simp
  qed (use Cons.prems(2,4) in auto)
  show ?case
  proof (cases "?run = []")
    case True
    then show ?thesis using Cons.prems(4) pos next_run by simp
  next
    case False
    have len: "length done + length ?run \<le> length rs" using assms(2) arg_cong [OF it, of length] by simp
    have "take (length ?run) (drop (length done) (done @ ?run @ ?rest)) = ?run" by simp
    then have "take (length ?run) (drop (length done) items) = ?run" unfolding it [symmetric] .
    then have "map key (take (length ?run) (drop (length done) rs)) = map (key \<circ> ro_record) ?run"
      by (simp add: assms(2) take_map drop_map flip: map_map) 
    then have "members_canonical key rs None (length done) (map word_of_nat [length done ..< length done + length ?run])
        = Some (length done + length ?run)"
      using members_canonical_run [OF assms(1) len, of key None] assms(3) by simp
    then show ?thesis using Cons.prems(4) pos next_run False by simp
  qed
qed

lemma appended_canonical:
  assumes ok: "memberships_ok m" and len: "length rs \<le> 2 ^ 64"
    and rs: "rs = map ro_record items" and srt: "sorted_wrt (<) (map (route_rank key) items)"
    and keys: "ro_partition ` set items \<subseteq> fst ` set m"
    and mem: "\<And>p. filed_members m p f = map word_of_nat (positions 0 p (map ro_partition items))"
  shows "family_is_canonical rs (map file_partition m) f key"
proof -
  have asc: "ascending partition_rank fst m" using ok by (simp add: memberships_ok_def)
  have ranks: "sorted (map (partition_rank \<circ> ro_partition) items)"
    using srt unfolding sorted_map sorted_wrt_map by (rule sorted_wrt_mono_rel [rotated]) (auto simp: route_rank_def less_le)
  have "items = concat (map (\<lambda>p. partition_run p items) (map fst m))"
    by (rule runs_concat [symmetric]) (use asc ranks keys in \<open>simp_all add: ascending_sorted\<close>)
  then have it: "[] @ concat (map (\<lambda>pm. partition_run (fst pm) items) m) = items" by (simp add: comp_def)
  have runs: "sorted_wrt (<) (map (key \<circ> ro_record) (partition_run p items))" for p
    unfolding partition_run_def sorted_wrt_map
    using sorted_wrt_filter [OF srt [unfolded sorted_wrt_map], of "\<lambda>r. ro_partition r = p"]
    by (rule sorted_wrt_mono_rel [rotated]) (auto simp: route_rank_def)
  have "map_of (snd pm) f = (if positions 0 (fst pm) (map ro_partition items) = [] then None else Some (map word_of_nat (positions 0 (fst pm) (map ro_partition items))))"
    if "pm \<in> set m" for pm
  proof -
    have "slot m [] (fst pm) = snd pm" using map_of_is_SomeI [OF ascending_distinct [OF asc], of "fst pm" "snd pm"] that by (simp add: slot_def)
    moreover have "\<forall>(g, is)\<in>set (snd pm). is \<noteq> []" using ok that by (fastforce simp: memberships_ok_def)
    ultimately show ?thesis using mem [of "fst pm"]
      by (auto simp: filed_members_def slot_def dest: map_of_SomeD split: option.splits)
  qed
  then have "family_loop key rs f (length []) (map file_partition m) = Some (length rs)"
    using family_loop_runs [OF len rs runs it ascending_distinct [OF asc]] by simp
  then show ?thesis by (simp add: family_is_canonical_def)
qed

lemma appended_ownership:
  assumes ok: "memberships_ok m" and len: "length rs \<le> 2 ^ 64" and rs: "rs = map ro_record items"
    and own: "\<forall>r\<in>set items. part (ro_record r) = ro_partition r"
    and mem: "\<And>p. filed_members m p f = map word_of_nat (positions 0 p (map ro_partition items))"
  shows "family_ownership_is_canonical rs (map file_partition m) f part"
proof -
  have "unat index < length rs \<and> part (rs ! unat index) = fst pm"
    if pm: "pm \<in> set m" "map_of (snd pm) f = Some is" "index \<in> set is" for pm "is" index
  proof -
    have "slot m [] (fst pm) = snd pm"
      using map_of_is_SomeI [OF ascending_distinct, of partition_rank m "fst pm" "snd pm"] ok pm(1)
      by (simp add: slot_def memberships_ok_def)
    then have "filed_members m (fst pm) f = is" using pm(2) by (simp add: filed_members_def slot_def)
    with mem [of "fst pm"] pm(3) obtain i where i: "i \<in> set (positions 0 (fst pm) (map ro_partition items))" "index = word_of_nat i"
      by auto
    from positions_at [OF i(1)] have at: "i < length items" "ro_partition (items ! i) = fst pm" by auto
    then have "unat index = i" using i(2) len rs by (simp add: unat_of_nat)
    with at own rs show ?thesis by simp
  qed
  then show ?thesis by (fastforce simp: family_ownership_is_canonical_def list_all_iff split: option.splits)
qed

text \<open>Filing several families one after the other keeps them apart.\<close>

definition file_all :: "(FactFamily \<times> FactPartitionKey list) list \<Rightarrow> Memberships" where
  "file_all filings = fold (\<lambda>(f, ps). push_all f 0 ps) filings []"

lemma fold_filings:
  "memberships_ok m \<Longrightarrow> distinct (map fst filings) \<Longrightarrow>
    memberships_ok (fold (\<lambda>(f, ps). push_all f 0 ps) filings m) \<and>
    fst ` set (fold (\<lambda>(f, ps). push_all f 0 ps) filings m) = fst ` set m \<union> \<Union>(set ` snd ` set filings) \<and>
    filed_members (fold (\<lambda>(f, ps). push_all f 0 ps) filings m) p f
      = filed_members m p f @ (case map_of filings f of None \<Rightarrow> [] | Some ps \<Rightarrow> map word_of_nat (positions 0 p ps))"
proof (induction filings arbitrary: m)
  case (Cons a filings)
  obtain g ps where a: "a = (g, ps)" by (cases a)
  have g: "map_of filings g = None" "distinct (map fst filings)" using Cons.prems(2) by (simp_all add: a map_of_eq_None_iff)
  from Cons.IH [OF conjunct1 [OF push_all_members [OF Cons.prems(1), of g 0 ps]] g(2)] g(1)
    push_all_members [OF Cons.prems(1), of g 0 ps p f]
  show ?case by (simp add: a Un_assoc)
qed simp

lemma file_all_members:
  assumes "distinct (map fst filings)"
  shows "memberships_ok (file_all filings)" "fst ` set (file_all filings) = \<Union>(set ` snd ` set filings)"
    "filed_members (file_all filings) p f = (case map_of filings f of None \<Rightarrow> [] | Some ps \<Rightarrow> map word_of_nat (positions 0 p ps))"
proof -
  have "memberships_ok []" "filed_members [] p f = []" by (simp_all add: memberships_ok_def ascending_sorted filed_members_def slot_def)
  from fold_filings [OF this(1) assms, of p f] this(2) show "memberships_ok (file_all filings)"
    "fst ` set (file_all filings) = \<Union>(set ` snd ` set filings)"
    "filed_members (file_all filings) p f = (case map_of filings f of None \<Rightarrow> [] | Some ps \<Rightarrow> map word_of_nat (positions 0 p ps))"
    by (simp_all add: file_all_def)
qed

end
