(* ===== verification/Emission_Order.thy ===== *)
theory Emission_Order
  imports Batch_Runs
begin

text \<open>
  The canonical emission order of symbols (\<^verbatim>\<open>canonical_symbol_order\<close> of \<^verbatim>\<open>ast/fact_batch.cpp\<close>): emissions grouped
  by symbol, in the order they were seen, the groups ordered by their first file, and renumbered
  within the group.
\<close>

subsection \<open>Definitions\<close>

definition emission_groups :: "SymbolEmissionMetadata list \<Rightarrow> (string \<times> SymbolEmissionMetadata list) list" where
  "emission_groups emissions = foldl (\<lambda>m e. bucket id (natural_of e) (\<lambda>v. v @ [e]) [] m) [] emissions"

definition first_file :: "SymbolEmissionMetadata list \<Rightarrow> string \<times> string \<times> string" where
  "first_file entries = foldl (\<lambda>m e. min m (emission_file e)) (emission_file (hd entries)) (tl entries)"

definition ordered_group :: "string \<times> SymbolEmissionMetadata list \<Rightarrow>
    ((string \<times> string \<times> string) \<times> string) \<times> SymbolEmissionMetadata list" where
  "ordered_group g = (let entries = sort_key em_first_seen (snd g) in ((first_file entries, fst g), entries))"

definition stamp :: "nat \<Rightarrow> SymbolEmissionMetadata \<Rightarrow> SymbolEmissionMetadata" where
  "stamp index e = e\<lparr>em_first_seen := word_of_nat index, em_last_seen := word_of_nat index,
     em_apply_order := (em_apply_order e)\<lparr>ao_first_seen := word_of_nat index, ao_conflict_ordinal := word_of_nat index\<rparr>\<rparr>"

fun renumber :: "nat \<Rightarrow> SymbolEmissionMetadata list \<Rightarrow> SymbolEmissionMetadata list" where
  "renumber index [] = []"
| "renumber index (e # es) = stamp index e # renumber (Suc index) es"

definition canonical_symbol_order :: "SymbolEmissionMetadata list \<Rightarrow> SymbolEmissionMetadata list" where
  "canonical_symbol_order emissions =
     concat (map (\<lambda>g. renumber 0 (snd g)) (sort_key fst (map ordered_group (emission_groups emissions))))"

subsection \<open>The order is canonical\<close>

lemma stamp_simps [simp]: "natural_of (stamp i e) = natural_of e" "emission_file (stamp i e) = emission_file e"
    "em_first_seen (stamp i e) = word_of_nat i" "em_last_seen (stamp i e) = word_of_nat i"
    "ao_first_seen (em_apply_order (stamp i e)) = word_of_nat i" "ao_conflict_ordinal (em_apply_order (stamp i e)) = word_of_nat i"
  by (simp_all add: stamp_def natural_of_def emission_file_def)

lemma group_loop_renumbered:
  "\<forall>e\<in>set es. natural_of e = natural \<Longrightarrow> rest = [] \<or> natural_of (hd rest) \<noteq> natural \<Longrightarrow> i + length es \<le> 2 ^ 64 \<Longrightarrow>
    group_loop natural i m (renumber i es @ rest) = Some (foldl (\<lambda>m e. min m (emission_file e)) m es, rest)"
proof (induction es arbitrary: i m)
  case Nil
  then show ?case by (cases rest) auto
next
  case (Cons e es)
  have "unat (word_of_nat i :: u64) = i" using Cons.prems(3) by (simp add: unat_of_nat)
  with Cons show ?case by simp
qed

lemma first_file_all: "es \<noteq> [] \<Longrightarrow> first_file es = foldl (\<lambda>m e. min m (emission_file e)) (emission_file (hd es)) es"
  by (cases es) (simp_all add: first_file_def)

lemma order_loop_groups:
  "sorted_wrt (<) (map fst gs) \<Longrightarrow> distinct (map (snd \<circ> fst) gs) \<Longrightarrow> \<forall>g\<in>set gs. snd (fst g) \<notin> set seen \<Longrightarrow>
    (case prev of None \<Rightarrow> True | Some p \<Rightarrow> \<forall>g\<in>set gs. p < fst g) \<Longrightarrow>
    \<forall>g\<in>set gs. snd g \<noteq> [] \<and> length (snd g) \<le> 2 ^ 64 \<and> (\<forall>e\<in>set (snd g). natural_of e = snd (fst g)) \<and> fst (fst g) = first_file (snd g) \<Longrightarrow>
    order_loop prev seen (concat (map (\<lambda>g. renumber 0 (snd g)) gs))"
proof (induction gs arbitrary: prev seen)
  case (Cons g gs)
  obtain mf n es where g: "g = ((mf, n), es)" by (metis prod.exhaust)
  have es: "es \<noteq> []" "length es \<le> 2 ^ 64" "\<forall>e\<in>set es. natural_of e = n" "mf = first_file es" using Cons.prems(5) g by auto
  let ?rest = "concat (map (\<lambda>g. renumber 0 (snd g)) gs)"
  obtain e es' where e: "es = e # es'" using es(1) by (cases es) auto
  have rest: "?rest = [] \<or> natural_of (hd ?rest) \<noteq> n"
  proof (cases gs)
    case (Cons h hs)
    with Cons.prems(5) obtain x xs where x: "snd h = x # xs" "natural_of x = snd (fst h)" by (cases "snd h") auto
    moreover have "snd (fst h) \<noteq> n" using Cons.prems(2) Cons g by auto
    ultimately show ?thesis using Cons by simp
  qed simp
  have n: "natural_of e = n" using es(3) e by simp
  have "group_loop n 0 (emission_file e) (renumber 0 es @ ?rest) = Some (mf, ?rest)"
    using group_loop_renumbered [OF es(3) rest, of 0 "emission_file e"] es(1,2,4) first_file_all [OF es(1)] by (simp add: e)
  moreover have "order_loop (Some (mf, n)) (n # seen) ?rest"
    by (rule Cons.IH) (use Cons.prems g in auto)
  moreover have "\<not> (case prev of None \<Rightarrow> False | Some p \<Rightarrow> p \<ge> (mf, n))"
    using Cons.prems(4) g by (auto split: option.splits)
  moreover have "n \<notin> set seen" using Cons.prems(3) g by auto
  ultimately show ?case by (simp add: g e n Let_def)
qed simp

lemma emission_groups_ok:
  "ascending id fst (emission_groups es) \<and> (\<forall>(n, g)\<in>set (emission_groups es). g \<noteq> [] \<and> (\<forall>e\<in>set g. natural_of e = n \<and> e \<in> set es) \<and> length g \<le> length es)"
proof (induction es rule: rev_induct)
  case (snoc e es)
  let ?m = "emission_groups es"
  have a: "ascending id fst ?m" using snoc.IH by blast
  have step: "emission_groups (es @ [e]) = bucket id (natural_of e) (\<lambda>v. v @ [e]) [] ?m" by (simp add: emission_groups_def)
  have here: "slot ?m [] (natural_of e) = [] \<or> (natural_of e, slot ?m [] (natural_of e)) \<in> set ?m"
    by (auto simp: slot_def dest: map_of_SomeD split: option.splits)
  have "g \<noteq> [] \<and> (\<forall>x\<in>set g. natural_of x = n \<and> x \<in> set (es @ [e])) \<and> length g \<le> length (es @ [e])"
    if "(n, g) \<in> set (emission_groups (es @ [e]))" for n g
  proof (cases "n = natural_of e")
    case True
    then have "g = slot ?m [] (natural_of e) @ [e]" using bucket_values(1) [OF inj_on_id a that [unfolded step]] by simp
    with here snoc.IH True show ?thesis by fastforce
  next
    case False
    then have "(n, g) \<in> set ?m" using bucket_values(2) [OF inj_on_id a that [unfolded step]] by simp
    with snoc.IH show ?thesis by fastforce
  qed
  moreover have "ascending id fst (emission_groups (es @ [e]))" unfolding step by (rule ascending_bucket [OF inj_on_id a])
  ultimately show ?case by blast
qed (simp add: emission_groups_def ascending_sorted)

lemma canonical_symbol_order_canonical:
  assumes "length es \<le> 2 ^ 64"
  shows "symbol_order_is_canonical (canonical_symbol_order es)"
proof -
  let ?gs = "sort_key fst (map ordered_group (emission_groups es))"
  have set: "set ?gs = ordered_group ` set (emission_groups es)" by simp
  have naturals: "distinct (map fst (emission_groups es))"
    using ascending_distinct [OF conjunct1 [OF emission_groups_ok [of es]]] .
  have "distinct (map (snd \<circ> fst) (map ordered_group (emission_groups es)))"
    using naturals by (simp add: comp_def ordered_group_def Let_def)
  moreover have "mset (map (snd \<circ> fst) ?gs) = mset (map (snd \<circ> fst) (map ordered_group (emission_groups es)))"
    by (simp only: mset_map mset_sort)
  ultimately have d: "distinct (map (snd \<circ> fst) ?gs)" by (metis mset_eq_imp_distinct_iff)
  have "distinct (map fst ?gs)" using d by (metis distinct_map map_map)
  then have s: "sorted_wrt (<) (map fst ?gs)" by (simp add: strict_sorted_iff)
  have "snd (ordered_group x) \<noteq> [] \<and> length (snd (ordered_group x)) \<le> 2 ^ 64 \<and>
      (\<forall>e\<in>set (snd (ordered_group x)). natural_of e = snd (fst (ordered_group x))) \<and>
      fst (fst (ordered_group x)) = first_file (snd (ordered_group x))" if "x \<in> set (emission_groups es)" for x
  proof -
    obtain n g where x: "x = (n, g)" by (cases x)
    have "g \<noteq> []" "length g \<le> length es" "\<forall>e\<in>set g. natural_of e = n"
      using conjunct2 [OF emission_groups_ok [of es]] that x by fastforce+
    moreover have "length (sort_key em_first_seen g) \<le> 2 ^ 64" using \<open>length g \<le> length es\<close> assms by simp
    moreover have "sort_key em_first_seen g \<noteq> []" using \<open>g \<noteq> []\<close> by (metis set_empty set_sort)
    ultimately show ?thesis by (simp add: ordered_group_def x Let_def)
  qed
  then have "\<forall>g\<in>set ?gs. snd g \<noteq> [] \<and> length (snd g) \<le> 2 ^ 64 \<and> (\<forall>e\<in>set (snd g). natural_of e = snd (fst g)) \<and> fst (fst g) = first_file (snd g)"
    unfolding set by blast
  from order_loop_groups [OF s d _ _ this, of "[]" None] show ?thesis
    by (simp add: symbol_order_is_canonical_def canonical_symbol_order_def)
qed

end
