(* ===== verification/Batch_Builder.thy ===== *)
theory Batch_Builder
  imports Emission_Order
begin

text \<open>
  Building a batch from recorded facts (\<^verbatim>\<open>FactBatchRecorder::build_batch\<close> in \<^verbatim>\<open>ast/fact_batch.cpp\<close>): every family is
  filed, the partitions that no file handle names get one, and the maps are listed.
\<close>

subsection \<open>Recorded facts\<close>

record RecordedFacts =
  rf_symbols :: "SymbolRecord RoutedRecord list"
  rf_declaration_sites :: "DeclarationSiteRecord RoutedRecord list"
  rf_relations :: "EdgeRecord RoutedRecord list"
  rf_edge_sites :: "EdgeSiteRecord RoutedRecord list"
  rf_call_args :: "CallArgRecord RoutedRecord list"
  rf_template_params :: "TemplateParamRecord RoutedRecord list"
  rf_template_args :: "TemplateArgRecord RoutedRecord list"
  rf_type_nodes :: "TypeNodeRecord RoutedRecord list"
  rf_type_edges :: "TypeEdgeRecord RoutedRecord list"
  rf_parameter_buckets :: "(i64 \<times> FactPartitionKey \<times> ParameterRecord list) list"
  rf_symbol_types :: "SymbolTypeRecord RoutedRecord list"
  rf_definitions :: "DefinitionFactRecord RoutedRecord list"
  rf_definition_edges :: "DefinitionEdgeRecord RoutedRecord list"
  rf_includes :: "IncludeDirectiveRecord RoutedRecord list"
  rf_macros :: "MacroUseRecord RoutedRecord list"
  rf_diagnostics :: "DiagnosticFactRecord RoutedRecord list"
  rf_evidence :: "EvidenceRecord RoutedRecord list"
  rf_presentation_intents :: "PresentationIntent RoutedRecord list"
  rf_lifecycle_cleanup :: "LifecycleCleanupIntent RoutedRecord list"
  rf_applicability :: "ApplicabilityOwnershipRecord RoutedRecord list"

definition routed_parameters :: "RecordedFacts \<Rightarrow> ParameterFactRecord RoutedRecord list" where
  "routed_parameters f = concat (map (\<lambda>(owner, partition, parameters).
     map (\<lambda>parameter. \<lparr>ro_partition = partition, ro_record = \<lparr>pp_owner_id = owner, pp_parameter = parameter\<rparr>\<rparr>) parameters)
     (rf_parameter_buckets f))"

definition empty_records :: FactRecords where
  "empty_records = \<lparr>fr_symbols = [], fr_declaration_sites = [], fr_relations = [], fr_edge_sites = [], fr_call_args = [], fr_template_params = [], fr_template_args = [], fr_type_nodes = [], fr_type_edges = [], fr_parameters = [], fr_symbol_types = [], fr_definitions = [], fr_definition_edges = [], fr_includes = [], fr_macros = [], fr_diagnostics = [], fr_evidence = [], fr_presentation_intents = [], fr_lifecycle_cleanup = [], fr_applicability = [], fr_symbol_order = []\<rparr>"

definition append_symbol_records :: "RecordedFacts \<Rightarrow> bool \<Rightarrow> FactRecords \<times> Memberships \<Rightarrow> FactRecords \<times> Memberships" where
  "append_symbol_records f canonical rm =
     (let r = fst rm; m0 = snd rm;
          (symbols, m1) = append_records (rf_symbols f) (fr_symbols r) fam_symbols symbol_record_key m0 canonical;
          (declaration_sites, m2) = append_records (rf_declaration_sites f) (fr_declaration_sites r) fam_declaration_sites declaration_site_key m1 canonical;
          (relations, m3) = append_records (rf_relations f) (fr_relations r) fam_relations edge_record_key m2 canonical;
          (edge_sites, m4) = append_records (rf_edge_sites f) (fr_edge_sites r) fam_edge_sites edge_site_key m3 canonical;
          (call_args, m5) = append_records (rf_call_args f) (fr_call_args r) fam_call_arguments call_arg_key m4 canonical;
          (template_params, m6) = append_records (rf_template_params f) (fr_template_params r) fam_template_parameters template_param_key m5 canonical;
          (template_args, m7) = append_records (rf_template_args f) (fr_template_args r) fam_template_arguments template_arg_key m6 canonical
      in (r\<lparr>fr_symbols := symbols, fr_declaration_sites := declaration_sites, fr_relations := relations, fr_edge_sites := edge_sites, fr_call_args := call_args, fr_template_params := template_params, fr_template_args := template_args\<rparr>, m7))"

definition append_type_records :: "RecordedFacts \<Rightarrow> bool \<Rightarrow> FactRecords \<times> Memberships \<Rightarrow> FactRecords \<times> Memberships" where
  "append_type_records f canonical rm =
     (let r = fst rm; m0 = snd rm;
          (type_nodes, m1) = append_records (rf_type_nodes f) (fr_type_nodes r) fam_types type_node_key m0 canonical;
          (type_edges, m2) = append_records (rf_type_edges f) (fr_type_edges r) fam_type_edges type_edge_key m1 canonical;
          (parameters, m3) = append_records (routed_parameters f) (fr_parameters r) fam_parameters parameter_key m2 canonical;
          (symbol_types, m4) = append_records (rf_symbol_types f) (fr_symbol_types r) fam_symbol_types symbol_type_key m3 canonical;
          (definitions, m5) = append_records (rf_definitions f) (fr_definitions r) fam_definitions definition_key m4 canonical;
          (definition_edges, m6) = append_records (rf_definition_edges f) (fr_definition_edges r) fam_definition_edges definition_edge_key m5 canonical
      in (r\<lparr>fr_type_nodes := type_nodes, fr_type_edges := type_edges, fr_parameters := parameters, fr_symbol_types := symbol_types, fr_definitions := definitions, fr_definition_edges := definition_edges\<rparr>, m6))"

definition append_auxiliary_records :: "RecordedFacts \<Rightarrow> bool \<Rightarrow> FactRecords \<times> Memberships \<Rightarrow> FactRecords \<times> Memberships" where
  "append_auxiliary_records f canonical rm =
     (let r = fst rm; m0 = snd rm;
          (include_directives, m1) = append_records (rf_includes f) (fr_includes r) fam_includes include_key m0 canonical;
          (macros, m2) = append_records (rf_macros f) (fr_macros r) fam_macros macro_key m1 canonical;
          (diagnostics, m3) = append_records (rf_diagnostics f) (fr_diagnostics r) fam_diagnostics diagnostic_key m2 canonical;
          (evidence, m4) = append_records (rf_evidence f) (fr_evidence r) fam_evidence evidence_key m3 canonical;
          (presentation_intents, m5) = append_records (rf_presentation_intents f) (fr_presentation_intents r) fam_presentation_intents presentation_key m4 canonical;
          (lifecycle_cleanup, m6) = append_records (rf_lifecycle_cleanup f) (fr_lifecycle_cleanup r) fam_lifecycle_cleanup cleanup_key m5 canonical;
          (applicability, m7) = append_records (rf_applicability f) (fr_applicability r) fam_applicability applicability_key m6 canonical
      in (r\<lparr>fr_includes := include_directives, fr_macros := macros, fr_diagnostics := diagnostics, fr_evidence := evidence, fr_presentation_intents := presentation_intents, fr_lifecycle_cleanup := lifecycle_cleanup, fr_applicability := applicability\<rparr>, m7))"

definition append_all_records :: "RecordedFacts \<Rightarrow> bool \<Rightarrow> FactRecords \<times> Memberships" where
  "append_all_records f canonical =
     append_auxiliary_records f canonical (append_type_records f canonical (append_symbol_records f canonical (empty_records, [])))"

text \<open>The records of a family in the order they are filed, and what is filed altogether.\<close>

abbreviation filed :: "('a \<Rightarrow> string) \<Rightarrow> bool \<Rightarrow> 'a RoutedRecord list \<Rightarrow> 'a RoutedRecord list" where
  "filed \<equiv> routed_in_order"

definition filings :: "RecordedFacts \<Rightarrow> bool \<Rightarrow> (FactFamily \<times> FactPartitionKey list) list" where
  "filings f c =
    [(fam_symbols, map ro_partition (filed symbol_record_key c (rf_symbols f))),
     (fam_declaration_sites, map ro_partition (filed declaration_site_key c (rf_declaration_sites f))),
     (fam_relations, map ro_partition (filed edge_record_key c (rf_relations f))),
     (fam_edge_sites, map ro_partition (filed edge_site_key c (rf_edge_sites f))),
     (fam_call_arguments, map ro_partition (filed call_arg_key c (rf_call_args f))),
     (fam_template_parameters, map ro_partition (filed template_param_key c (rf_template_params f))),
     (fam_template_arguments, map ro_partition (filed template_arg_key c (rf_template_args f))),
     (fam_types, map ro_partition (filed type_node_key c (rf_type_nodes f))),
     (fam_type_edges, map ro_partition (filed type_edge_key c (rf_type_edges f))),
     (fam_parameters, map ro_partition (filed parameter_key c (routed_parameters f))),
     (fam_symbol_types, map ro_partition (filed symbol_type_key c (rf_symbol_types f))),
     (fam_definitions, map ro_partition (filed definition_key c (rf_definitions f))),
     (fam_definition_edges, map ro_partition (filed definition_edge_key c (rf_definition_edges f))),
     (fam_includes, map ro_partition (filed include_key c (rf_includes f))),
     (fam_macros, map ro_partition (filed macro_key c (rf_macros f))),
     (fam_diagnostics, map ro_partition (filed diagnostic_key c (rf_diagnostics f))),
     (fam_evidence, map ro_partition (filed evidence_key c (rf_evidence f))),
     (fam_presentation_intents, map ro_partition (filed presentation_key c (rf_presentation_intents f))),
     (fam_lifecycle_cleanup, map ro_partition (filed cleanup_key c (rf_lifecycle_cleanup f))),
     (fam_applicability, map ro_partition (filed applicability_key c (rf_applicability f)))]"

definition filed_records :: "RecordedFacts \<Rightarrow> bool \<Rightarrow> FactRecords" where
  "filed_records f c =
    \<lparr>fr_symbols = map ro_record (filed symbol_record_key c (rf_symbols f)),
     fr_declaration_sites = map ro_record (filed declaration_site_key c (rf_declaration_sites f)),
     fr_relations = map ro_record (filed edge_record_key c (rf_relations f)),
     fr_edge_sites = map ro_record (filed edge_site_key c (rf_edge_sites f)),
     fr_call_args = map ro_record (filed call_arg_key c (rf_call_args f)),
     fr_template_params = map ro_record (filed template_param_key c (rf_template_params f)),
     fr_template_args = map ro_record (filed template_arg_key c (rf_template_args f)),
     fr_type_nodes = map ro_record (filed type_node_key c (rf_type_nodes f)),
     fr_type_edges = map ro_record (filed type_edge_key c (rf_type_edges f)),
     fr_parameters = map ro_record (filed parameter_key c (routed_parameters f)),
     fr_symbol_types = map ro_record (filed symbol_type_key c (rf_symbol_types f)),
     fr_definitions = map ro_record (filed definition_key c (rf_definitions f)),
     fr_definition_edges = map ro_record (filed definition_edge_key c (rf_definition_edges f)),
     fr_includes = map ro_record (filed include_key c (rf_includes f)),
     fr_macros = map ro_record (filed macro_key c (rf_macros f)),
     fr_diagnostics = map ro_record (filed diagnostic_key c (rf_diagnostics f)),
     fr_evidence = map ro_record (filed evidence_key c (rf_evidence f)),
     fr_presentation_intents = map ro_record (filed presentation_key c (rf_presentation_intents f)),
     fr_lifecycle_cleanup = map ro_record (filed cleanup_key c (rf_lifecycle_cleanup f)),
     fr_applicability = map ro_record (filed applicability_key c (rf_applicability f)),
     fr_symbol_order = []\<rparr>"

lemma append_records_empty:
  "append_records source [] family key m c
    = (map ro_record (filed key c source), push_all family 0 (map ro_partition (filed key c source)) m)"
  by (simp add: append_records_def push_records_all)

lemma append_all_filed: "append_all_records f c = (filed_records f c, file_all (filings f c))"
  unfolding append_all_records_def append_symbol_records_def append_type_records_def append_auxiliary_records_def
    empty_records_def filed_records_def file_all_def filings_def Let_def
  by (simp add: append_records_empty)

text \<open>Records that name their partition are routed to it.\<close>

definition owned :: "RecordedFacts \<Rightarrow> bool" where
  "owned f \<longleftrightarrow>
     list_all (\<lambda>r. ds_partition (ro_record r) = ro_partition r) (rf_declaration_sites f)
     \<and> list_all (\<lambda>r. dr_partition (ro_record r) = ro_partition r) (rf_includes f)
     \<and> list_all (\<lambda>r. mu_partition (ro_record r) = ro_partition r) (rf_macros f)
     \<and> list_all (\<lambda>r. dg_partition (ro_record r) = ro_partition r) (rf_diagnostics f)
     \<and> list_all (\<lambda>r. lc_partition (ro_record r) = ro_partition r) (rf_lifecycle_cleanup f)
     \<and> list_all (\<lambda>r. ap_partition (ro_record r) = ro_partition r) (rf_applicability f)"

definition facts_fit :: "RecordedFacts \<Rightarrow> bool" where
  "facts_fit f \<longleftrightarrow>
     length (rf_symbols f) \<le> 2 ^ 64
     \<and> length (rf_declaration_sites f) \<le> 2 ^ 64
     \<and> length (rf_relations f) \<le> 2 ^ 64
     \<and> length (rf_edge_sites f) \<le> 2 ^ 64
     \<and> length (rf_call_args f) \<le> 2 ^ 64
     \<and> length (rf_template_params f) \<le> 2 ^ 64
     \<and> length (rf_template_args f) \<le> 2 ^ 64
     \<and> length (rf_type_nodes f) \<le> 2 ^ 64
     \<and> length (rf_type_edges f) \<le> 2 ^ 64
     \<and> length (routed_parameters f) \<le> 2 ^ 64
     \<and> length (rf_symbol_types f) \<le> 2 ^ 64
     \<and> length (rf_definitions f) \<le> 2 ^ 64
     \<and> length (rf_definition_edges f) \<le> 2 ^ 64
     \<and> length (rf_includes f) \<le> 2 ^ 64
     \<and> length (rf_macros f) \<le> 2 ^ 64
     \<and> length (rf_diagnostics f) \<le> 2 ^ 64
     \<and> length (rf_evidence f) \<le> 2 ^ 64
     \<and> length (rf_presentation_intents f) \<le> 2 ^ 64
     \<and> length (rf_lifecycle_cleanup f) \<le> 2 ^ 64
     \<and> length (rf_applicability f) \<le> 2 ^ 64"

lemma distinct_filings: "distinct (map fst (filings f c))"
  by (simp add: filings_def)

lemma length_unique_by: "length (unique_by same xs) \<le> length xs"
  by (induction same xs rule: unique_by.induct) auto

lemma length_filed: "length (filed key c rs) \<le> length rs"
  using length_unique_by [of "same_route key" "sort_key (route_rank key) rs"] by (simp add: routed_in_order_def)

lemma filed_canonical:
  assumes "map_of (filings f True) family = Some (map ro_partition (filed key True rs))" "length rs \<le> 2 ^ 64"
  shows "family_is_canonical (map ro_record (filed key True rs)) (map file_partition (file_all (filings f True))) family key"
proof (rule appended_canonical)
  have "(family, map ro_partition (filed key True rs)) \<in> set (filings f True)" using assms(1) by (rule map_of_SomeD)
  then show "ro_partition ` set (filed key True rs) \<subseteq> fst ` set (file_all (filings f True))"
    unfolding file_all_members(2) [OF distinct_filings] by force
  show "sorted_wrt (<) (map (route_rank key) (filed key True rs))" by (rule routed_sorted)
  show "length (map ro_record (filed key True rs)) \<le> 2 ^ 64" using length_filed [of key True rs] assms(2) by simp
qed (simp_all add: file_all_members [OF distinct_filings] assms(1))

lemma filed_owned:
  assumes "map_of (filings f True) family = Some (map ro_partition (filed key True rs))" "length rs \<le> 2 ^ 64"
    and "list_all (\<lambda>r. part (ro_record r) = ro_partition r) rs"
  shows "family_ownership_is_canonical (map ro_record (filed key True rs)) (map file_partition (file_all (filings f True))) family part"
proof (rule appended_ownership)
  show "\<forall>r\<in>set (filed key True rs). part (ro_record r) = ro_partition r"
    using set_routed [of key True rs] assms(3) by (auto simp: list_all_iff)
  show "length (map ro_record (filed key True rs)) \<le> 2 ^ 64" using length_filed [of key True rs] assms(2) by simp
qed (simp_all add: file_all_members [OF distinct_filings] assms(1))

lemma strictly_increasing_sorted: "strictly_increasing xs \<longleftrightarrow> sorted_wrt (<) xs"
  by (induction xs rule: strictly_increasing.induct) (auto dest: less_trans)

lemma filed_partitions: "partitions_are_strictly_ordered (map file_partition (file_all (filings f c)))"
  using file_all_members(1) [OF distinct_filings, of f c]
  by (simp add: partitions_are_strictly_ordered_def strictly_increasing_sorted memberships_ok_def ascending_sorted comp_def)

lemma filings_at:
  "map_of (filings f c) fam_symbols = Some (map ro_partition (filed symbol_record_key c (rf_symbols f)))"
  "map_of (filings f c) fam_declaration_sites = Some (map ro_partition (filed declaration_site_key c (rf_declaration_sites f)))"
  "map_of (filings f c) fam_relations = Some (map ro_partition (filed edge_record_key c (rf_relations f)))"
  "map_of (filings f c) fam_edge_sites = Some (map ro_partition (filed edge_site_key c (rf_edge_sites f)))"
  "map_of (filings f c) fam_call_arguments = Some (map ro_partition (filed call_arg_key c (rf_call_args f)))"
  "map_of (filings f c) fam_template_parameters = Some (map ro_partition (filed template_param_key c (rf_template_params f)))"
  "map_of (filings f c) fam_template_arguments = Some (map ro_partition (filed template_arg_key c (rf_template_args f)))"
  "map_of (filings f c) fam_types = Some (map ro_partition (filed type_node_key c (rf_type_nodes f)))"
  "map_of (filings f c) fam_type_edges = Some (map ro_partition (filed type_edge_key c (rf_type_edges f)))"
  "map_of (filings f c) fam_parameters = Some (map ro_partition (filed parameter_key c (routed_parameters f)))"
  "map_of (filings f c) fam_symbol_types = Some (map ro_partition (filed symbol_type_key c (rf_symbol_types f)))"
  "map_of (filings f c) fam_definitions = Some (map ro_partition (filed definition_key c (rf_definitions f)))"
  "map_of (filings f c) fam_definition_edges = Some (map ro_partition (filed definition_edge_key c (rf_definition_edges f)))"
  "map_of (filings f c) fam_includes = Some (map ro_partition (filed include_key c (rf_includes f)))"
  "map_of (filings f c) fam_macros = Some (map ro_partition (filed macro_key c (rf_macros f)))"
  "map_of (filings f c) fam_diagnostics = Some (map ro_partition (filed diagnostic_key c (rf_diagnostics f)))"
  "map_of (filings f c) fam_evidence = Some (map ro_partition (filed evidence_key c (rf_evidence f)))"
  "map_of (filings f c) fam_presentation_intents = Some (map ro_partition (filed presentation_key c (rf_presentation_intents f)))"
  "map_of (filings f c) fam_lifecycle_cleanup = Some (map ro_partition (filed cleanup_key c (rf_lifecycle_cleanup f)))"
  "map_of (filings f c) fam_applicability = Some (map ro_partition (filed applicability_key c (rf_applicability f)))"
  by (simp_all add: filings_def)

lemma filed_selects:
  "fr_symbols ((filed_records f c)\<lparr>fr_symbol_order := order\<rparr>) = map ro_record (filed symbol_record_key c (rf_symbols f))"
  "fr_declaration_sites ((filed_records f c)\<lparr>fr_symbol_order := order\<rparr>) = map ro_record (filed declaration_site_key c (rf_declaration_sites f))"
  "fr_relations ((filed_records f c)\<lparr>fr_symbol_order := order\<rparr>) = map ro_record (filed edge_record_key c (rf_relations f))"
  "fr_edge_sites ((filed_records f c)\<lparr>fr_symbol_order := order\<rparr>) = map ro_record (filed edge_site_key c (rf_edge_sites f))"
  "fr_call_args ((filed_records f c)\<lparr>fr_symbol_order := order\<rparr>) = map ro_record (filed call_arg_key c (rf_call_args f))"
  "fr_template_params ((filed_records f c)\<lparr>fr_symbol_order := order\<rparr>) = map ro_record (filed template_param_key c (rf_template_params f))"
  "fr_template_args ((filed_records f c)\<lparr>fr_symbol_order := order\<rparr>) = map ro_record (filed template_arg_key c (rf_template_args f))"
  "fr_type_nodes ((filed_records f c)\<lparr>fr_symbol_order := order\<rparr>) = map ro_record (filed type_node_key c (rf_type_nodes f))"
  "fr_type_edges ((filed_records f c)\<lparr>fr_symbol_order := order\<rparr>) = map ro_record (filed type_edge_key c (rf_type_edges f))"
  "fr_parameters ((filed_records f c)\<lparr>fr_symbol_order := order\<rparr>) = map ro_record (filed parameter_key c (routed_parameters f))"
  "fr_symbol_types ((filed_records f c)\<lparr>fr_symbol_order := order\<rparr>) = map ro_record (filed symbol_type_key c (rf_symbol_types f))"
  "fr_definitions ((filed_records f c)\<lparr>fr_symbol_order := order\<rparr>) = map ro_record (filed definition_key c (rf_definitions f))"
  "fr_definition_edges ((filed_records f c)\<lparr>fr_symbol_order := order\<rparr>) = map ro_record (filed definition_edge_key c (rf_definition_edges f))"
  "fr_includes ((filed_records f c)\<lparr>fr_symbol_order := order\<rparr>) = map ro_record (filed include_key c (rf_includes f))"
  "fr_macros ((filed_records f c)\<lparr>fr_symbol_order := order\<rparr>) = map ro_record (filed macro_key c (rf_macros f))"
  "fr_diagnostics ((filed_records f c)\<lparr>fr_symbol_order := order\<rparr>) = map ro_record (filed diagnostic_key c (rf_diagnostics f))"
  "fr_evidence ((filed_records f c)\<lparr>fr_symbol_order := order\<rparr>) = map ro_record (filed evidence_key c (rf_evidence f))"
  "fr_presentation_intents ((filed_records f c)\<lparr>fr_symbol_order := order\<rparr>) = map ro_record (filed presentation_key c (rf_presentation_intents f))"
  "fr_lifecycle_cleanup ((filed_records f c)\<lparr>fr_symbol_order := order\<rparr>) = map ro_record (filed cleanup_key c (rf_lifecycle_cleanup f))"
  "fr_applicability ((filed_records f c)\<lparr>fr_symbol_order := order\<rparr>) = map ro_record (filed applicability_key c (rf_applicability f))"
  "fr_symbol_order ((filed_records f c)\<lparr>fr_symbol_order := order\<rparr>) = order"
  by (simp_all add: filed_records_def)

lemma filed_layout:
  assumes "facts_fit f" "owned f" "fb_canonical b"
    and "fb_records b = (filed_records f True)\<lparr>fr_symbol_order := order\<rparr>" "symbol_order_is_canonical order"
    and "fb_partitions b = map file_partition (file_all (filings f True))"
  shows "has_canonical_layout b"
proof -
  note fit = assms(1) [unfolded facts_fit_def] and own = assms(2) [unfolded owned_def]
  show ?thesis
    unfolding has_canonical_layout_def Let_def assms(4,6) filed_selects
    by (intro conjI; (rule assms | rule filed_partitions | (rule filed_canonical, rule filings_at, use fit in blast)
      | (rule filed_owned, rule filings_at, use fit in blast, use own in blast)))
qed

end
