(* ===== verification/Identity_Index.thy ===== *)
theory Identity_Index
  imports Wire_Format
begin

text \<open>
  The spillable identity index (\<^verbatim>\<open>ast/spillable_identity_index.cpp\<close>): identities map to handles, in
  a resident map and in sorted runs on disk that are compacted when they become too many. A run is
  the contents of its file; the file system never fails, and the checksum, which is stored and never
  read, is left out. An error is the text of the exception.
\<close>

subsection \<open>State\<close>

text \<open>\<^verbatim>\<open>FactIdentityKind\<close> is an enumeration over \<^verbatim>\<open>uint8_t\<close>: its values are the bytes.\<close>

type_synonym FactIdentityKind = byte
type_synonym identity = "FactIdentityKind \<times> string"
type_synonym IdentityEntries = "(identity \<times> i64) list"

definition kind_symbol :: FactIdentityKind where "kind_symbol = 0"
definition kind_relation :: FactIdentityKind where "kind_relation = 1"
definition kind_type :: FactIdentityKind where "kind_type = 2"
definition kind_definition :: FactIdentityKind where "kind_definition = 3"
definition kind_file :: FactIdentityKind where "kind_file = 4"
definition kind_handle :: FactIdentityKind where "kind_handle = 5"

record IdentityRun =
  ir_file :: "byte list"
  ir_entry_count :: u64
  ir_byte_size :: u64
  ir_first_key :: string
  ir_last_key :: string

datatype IdentityInsertResult = identity_inserted | identity_existing | identity_conflict

record SpillableIdentityIndexOptions =
  io_max_resident_identity_bytes :: u64
  io_max_identity_entries :: u64
  io_max_identity_runs :: u64
  io_max_total_bytes :: u64

record SpillableIdentityIndex =
  ix_options :: SpillableIdentityIndexOptions
  ix_resident :: IdentityEntries
  ix_runs :: "IdentityRun list"
  ix_resident_size :: u64
  ix_total_size :: u64
  ix_total_entries :: u64

definition new_identity_index :: "SpillableIdentityIndexOptions \<Rightarrow> SpillableIdentityIndex" where
  "new_identity_index options = \<lparr>ix_options = options, ix_resident = [], ix_runs = [], ix_resident_size = 0,
     ix_total_size = 0, ix_total_entries = 0\<rparr>"

subsection \<open>Runs\<close>

definition kRunMagic :: "byte list" where
  "kRunMagic = string_bytes ''CIDXIDX1''"

definition encoded_key :: "FactIdentityKind \<Rightarrow> string \<Rightarrow> string" where
  "encoded_key kind key = [char_of (unat kind), CHR 0x00] @ key"

definition write_identity_entry :: "identity \<times> i64 \<Rightarrow> byte list" where
  "write_identity_entry e = (case e of ((kind, key), handle) \<Rightarrow>
     w_u64 (ucast kind) @ w_u64 (word_of_nat (length key)) @ string_bytes key @ w_u64 handle)"

text \<open>The bytes, and the first and the last key.\<close>

definition write_identity_entries :: "IdentityEntries \<Rightarrow> byte list \<times> string \<times> string" where
  "write_identity_entries entries =
     (concat (map write_identity_entry entries),
      (case entries of [] \<Rightarrow> [] | e # es \<Rightarrow> encoded_key (fst (fst e)) (snd (fst e))),
      (if entries = [] then [] else let e = last entries in encoded_key (fst (fst e)) (snd (fst e))))"

definition identity_run :: "IdentityEntries \<Rightarrow> IdentityRun" where
  "identity_run entries =
     (case write_identity_entries entries of (body, lo, hi) \<Rightarrow>
        let file = kRunMagic @ w_u64 (word_of_nat (length entries)) @ body in
        \<lparr>ir_file = file, ir_entry_count = word_of_nat (length entries), ir_byte_size = word_of_nat (length file),
         ir_first_key = lo, ir_last_key = hi\<rparr>)"

text \<open>Reading from a stream: an integer that is cut off throws; a short read leaves zeros in the buffer
  and the stream at its end.\<close>

definition stream_u64 :: "string \<Rightarrow> byte list \<Rightarrow> string + u64 \<times> byte list" where
  "stream_u64 truncated bs =
     (if length bs < 8 then Inl truncated
      else Inr (foldl (\<lambda>v i. v OR push_bit (8 * i) (ucast (bs ! i))) 0 [0 ..< 8], drop 8 bs))"

definition run_truncated :: string where
  "run_truncated = ''identity run is truncated''"

definition stream_read :: "nat \<Rightarrow> byte list \<Rightarrow> string \<times> byte list" where
  "stream_read n bs = (bytes_string (take n bs @ replicate (n - length bs) 0), drop n bs)"

definition stream_entry :: "byte list \<Rightarrow> string + (identity \<times> i64) \<times> byte list" where
  "stream_entry bs = bindE (stream_u64 run_truncated bs) (\<lambda>(kind, bs1). bindE (stream_u64 run_truncated bs1) (\<lambda>(n, bs2).
     case stream_read (unat n) bs2 of (key, bs3) \<Rightarrow>
       bindE (stream_u64 run_truncated bs3) (\<lambda>(handle, bs4). Inr (((ucast kind, key), handle), bs4))))"

fun find_identity :: "nat \<Rightarrow> identity \<Rightarrow> byte list \<Rightarrow> string + i64 option" where
  "find_identity 0 target bs = Inr None"
| "find_identity (Suc n) target bs = bindE (stream_entry bs) (\<lambda>(e, rest).
     if fst e = target then Inr (Some (snd e)) else find_identity n target rest)"

definition find_in_run :: "IdentityRun \<Rightarrow> FactIdentityKind \<Rightarrow> string \<Rightarrow> string + i64 option" where
  "find_in_run run kind key =
     (let target = encoded_key kind key in
      if (ir_first_key run \<noteq> [] \<and> target < ir_first_key run) \<or> (ir_last_key run \<noteq> [] \<and> target > ir_last_key run)
      then Inr None
      else if take 8 (ir_file run) \<noteq> kRunMagic then Inl ''identity run has an invalid wire version''
      else bindE (stream_u64 run_truncated (drop 8 (ir_file run))) (\<lambda>(count, bs). find_identity (unat count) (kind, key) bs))"

fun fold_entries :: "nat \<Rightarrow> byte list \<Rightarrow> IdentityEntries \<Rightarrow> string + IdentityEntries" where
  "fold_entries 0 bs acc = Inr acc"
| "fold_entries (Suc n) bs acc = bindE (stream_entry bs) (\<lambda>(e, rest). fold_entries n rest (omap_insert (fst e) (snd e) acc))"

text \<open>\<^verbatim>\<open>read_identity_entries\<close> with the consumer that both callers have: assign the entry in a map.\<close>

definition read_identity_entries :: "IdentityRun \<Rightarrow> IdentityEntries \<Rightarrow> string + IdentityEntries" where
  "read_identity_entries run acc =
     (if length (ir_file run) < 8 \<or> take 8 (ir_file run) \<noteq> kRunMagic then Inl ''identity run is corrupt during compaction''
      else bindE (stream_u64 run_truncated (drop 8 (ir_file run))) (\<lambda>(count, bs). fold_entries (unat count) bs acc))"

fun merge_runs :: "IdentityRun list \<Rightarrow> IdentityEntries \<Rightarrow> string + IdentityEntries" where
  "merge_runs [] acc = Inr acc"
| "merge_runs (run # runs) acc = bindE (read_identity_entries run acc) (merge_runs runs)"

subsection \<open>Operations\<close>

definition compact :: "SpillableIdentityIndex \<Rightarrow> string + SpillableIdentityIndex" where
  "compact s = bindE (merge_runs (ix_runs s) []) (\<lambda>merged.
     let run = identity_run merged in
     if ir_byte_size run > io_max_total_bytes (ix_options s) then Inl ''identity compaction exceeded its hard limit''
     else Inr (s\<lparr>ix_total_size := ir_byte_size run, ix_runs := [run]\<rparr>))"

definition flush :: "SpillableIdentityIndex \<Rightarrow> string + SpillableIdentityIndex" where
  "flush s =
     (if ix_resident s = [] then Inr s
      else let run = identity_run (ix_resident s) in
        if ix_total_size s > io_max_total_bytes (ix_options s) - ir_byte_size run
        then Inl ''identity spill hard byte limit exceeded''
        else let s' = s\<lparr>ix_runs := ix_runs s @ [run], ix_total_size := ix_total_size s + ir_byte_size run,
                        ix_resident := [], ix_resident_size := 0\<rparr> in
          if length (ix_runs s') > unat (io_max_identity_runs (ix_options s')) then compact s' else Inr s')"

fun lookup_runs :: "IdentityRun list \<Rightarrow> FactIdentityKind \<Rightarrow> string \<Rightarrow> string + i64 option" where
  "lookup_runs [] kind key = Inr None"
| "lookup_runs (run # runs) kind key = bindE (find_in_run run kind key) (\<lambda>found.
     case found of Some h \<Rightarrow> Inr (Some h) | None \<Rightarrow> lookup_runs runs kind key)"

definition identity_lookup :: "SpillableIdentityIndex \<Rightarrow> FactIdentityKind \<Rightarrow> string \<Rightarrow> string + i64 option" where
  "identity_lookup s kind key =
     (case map_of (ix_resident s) (kind, key) of
        Some h \<Rightarrow> Inr (Some h)
      | None \<Rightarrow> lookup_runs (rev (ix_runs s)) kind key)"

definition too_full :: "u64 \<Rightarrow> SpillableIdentityIndex \<Rightarrow> bool" where
  "too_full cost s \<longleftrightarrow>
     cost > io_max_resident_identity_bytes (ix_options s)
     \<or> ix_resident_size s > io_max_resident_identity_bytes (ix_options s) - cost
     \<or> length (ix_resident s) \<ge> unat (io_max_identity_entries (ix_options s))"

definition identity_insert :: "FactIdentityKind \<Rightarrow> string \<Rightarrow> i64 \<Rightarrow> SpillableIdentityIndex \<Rightarrow>
    string + IdentityInsertResult \<times> SpillableIdentityIndex" where
  "identity_insert kind key handle s = bindE (identity_lookup s kind key) (\<lambda>found.
     case found of
       Some existing \<Rightarrow> Inr (if existing = handle then identity_existing else identity_conflict, s)
     | None \<Rightarrow>
         let cost = word_of_nat (length key) + 8 + 32 in
         bindE (if too_full cost s then flush s else Inr s) (\<lambda>s.
           if too_full cost s then Inl ''identity resident limit is too small for one entry''
           else Inr (identity_inserted,
             s\<lparr>ix_resident := omap_insert (kind, key) handle (ix_resident s),
               ix_resident_size := ix_resident_size s + cost, ix_total_entries := ix_total_entries s + 1\<rparr>)))"

definition identity_entries :: "SpillableIdentityIndex \<Rightarrow> string + IdentityEntries" where
  "identity_entries s = bindE (merge_runs (ix_runs s) []) (\<lambda>result.
     Inr (foldl (\<lambda>m (identity, handle). omap_insert identity handle m) result (ix_resident s)))"

definition identity_spilled :: "SpillableIdentityIndex \<Rightarrow> bool" where
  "identity_spilled s \<longleftrightarrow> ix_runs s \<noteq> []"

subsection \<open>Reading what was written\<close>

lemma stream_u64_written: "stream_u64 truncated (w_u64 v @ r) = Inr (v, r)"
proof -
  have "foldl (\<lambda>a i. a OR push_bit (8 * i) (ucast ((w_u64 v @ r) ! i))) (0 :: u64) [0 ..< 8]
      = foldl (\<lambda>a i. a OR push_bit (8 * i) (ucast (w_u64 v ! i))) 0 [0 ..< 8]"
    by (rule foldl_cong_upt) (simp add: nth_append)
  then show ?thesis unfolding stream_u64_def u64_of_bytes by (simp del: upt_rec_numeral upt.simps)
qed

definition entry_fits :: "identity \<times> i64 \<Rightarrow> bool" where
  "entry_fits e \<longleftrightarrow> length (snd (fst e)) < 2 ^ 64"

lemma stream_entry_written:
  assumes "entry_fits e"
  shows "stream_entry (write_identity_entry e @ r) = Inr (e, r)"
proof -
  obtain kind key handle where e: "e = ((kind, key), handle)" by (metis prod.exhaust)
  have "unat (word_of_nat (length key) :: u64) = length key" using assms by (simp add: entry_fits_def e unat_of_nat)
  moreover have "ucast (ucast kind :: u64) = kind" by (simp add: ucast_up_ucast_id is_up)
  ultimately show ?thesis
    by (simp add: stream_entry_def write_identity_entry_def e stream_u64_written stream_read_def)
qed

lemma find_entry_written:
  "list_all entry_fits es \<Longrightarrow> find_identity (length es) target (concat (map write_identity_entry es) @ r) = Inr (map_of es target)"
  by (induction es) (auto simp: stream_entry_written)

lemma fold_entries_written:
  "list_all entry_fits es \<Longrightarrow> fold_entries (length es) (concat (map write_identity_entry es) @ r) acc
    = Inr (foldl (\<lambda>m (k, h). omap_insert k h m) acc es)"
  by (induction es arbitrary: acc) (auto simp: stream_entry_written)

subsection \<open>Runs hold their entries\<close>

lemma char_of_byte: "char_of (unat b) < (char_of (unat c) :: char) \<longleftrightarrow> b < c" "char_of (unat b) = (char_of (unat c) :: char) \<longleftrightarrow> b = c" for b c :: byte
proof -
  have o: "of_char (char_of (unat x) :: char) = unat x" for x :: byte
    using unsigned_less [of x, where ?'a = nat] by (simp add: of_char_of)
  show "char_of (unat b) < (char_of (unat c) :: char) \<longleftrightarrow> b < c" unfolding less_char_def o word_less_nat_alt ..
  show "char_of (unat b) = (char_of (unat c) :: char) \<longleftrightarrow> b = c" by (metis o word_unat_eq_iff)
qed

lemma encoded_key_less: "encoded_key k s < encoded_key k' s' \<longleftrightarrow> (k, s) < (k', s')"
  unfolding encoded_key_def append_Cons append_Nil Cons_less_Cons char_of_byte by (auto simp: le_less)

definition run_entries_ok :: "IdentityEntries \<Rightarrow> bool" where
  "run_entries_ok es \<longleftrightarrow> es \<noteq> [] \<and> omap_sorted es \<and> list_all entry_fits es \<and> length es < 2 ^ 64"

lemma identity_run_simps:
  "ir_file (identity_run es) = kRunMagic @ w_u64 (word_of_nat (length es)) @ concat (map write_identity_entry es)"
  "es \<noteq> [] \<Longrightarrow> ir_first_key (identity_run es) = encoded_key (fst (fst (hd es))) (snd (fst (hd es)))"
  "es \<noteq> [] \<Longrightarrow> ir_last_key (identity_run es) = encoded_key (fst (fst (last es))) (snd (fst (last es)))"
  "ir_entry_count (identity_run es) = word_of_nat (length es)"
  by (cases es; simp add: identity_run_def write_identity_entries_def Let_def)+

lemma length_run_magic: "length kRunMagic = 8"
  by (simp add: kRunMagic_def)

lemma find_in_run_written:
  assumes "run_entries_ok es"
  shows "find_in_run (identity_run es) kind key = Inr (map_of es (kind, key))"
proof -
  have es: "es \<noteq> []" "omap_sorted es" "list_all entry_fits es" "length es < 2 ^ 64" using assms by (simp_all add: run_entries_ok_def)
  have u: "unat (word_of_nat (length es) :: u64) = length es" using es(4) by (simp add: unat_of_nat)
  have "sorted xs \<Longrightarrow> x \<in> set xs \<Longrightarrow> hd xs \<le> x \<and> x \<le> last xs" for x :: identity and xs by (induction xs) fastforce+
  from this [of "map fst es"] have bounds: "fst (hd es) \<le> x \<and> x \<le> fst (last es)" if "x \<in> fst ` set es" for x
    using es(1,2) that by (simp add: strict_sorted_iff hd_map last_map)
  have out: "map_of es (kind, key) = None"
    if "encoded_key kind key < ir_first_key (identity_run es) \<or> encoded_key kind key > ir_last_key (identity_run es)"
  proof -
    have "(kind, key) < fst (hd es) \<or> (kind, key) > fst (last es)"
      using that es(1) by (simp add: identity_run_simps encoded_key_less)
    then have "(kind, key) \<notin> fst ` set es" using bounds by (meson not_le)
    then show ?thesis by (simp add: map_of_eq_None_iff)
  qed
  show ?thesis
    using out find_entry_written [OF es(3), of "(kind, key)" "[]"]
    by (auto simp: find_in_run_def Let_def identity_run_simps(1) length_run_magic stream_u64_written u)
qed

lemma read_run_written:
  assumes "run_entries_ok es"
  shows "read_identity_entries (identity_run es) acc = Inr (foldl (\<lambda>m (k, h). omap_insert k h m) acc es)"
proof -
  have "unat (word_of_nat (length es) :: u64) = length es" using assms by (simp add: run_entries_ok_def unat_of_nat)
  then show ?thesis using fold_entries_written [of es "[]" acc] assms
    by (simp add: read_identity_entries_def identity_run_simps(1) length_run_magic stream_u64_written run_entries_ok_def)
qed

lemma merge_runs_written:
  "list_all run_entries_ok ess \<Longrightarrow> merge_runs (map identity_run ess) acc = Inr (foldl (\<lambda>m (k, h). omap_insert k h m) acc (concat ess))"
  by (induction ess arbitrary: acc) (simp_all add: read_run_written)

lemma lookup_runs_written:
  "list_all run_entries_ok ess \<Longrightarrow> lookup_runs (map identity_run ess) kind key = Inr (map_of (concat ess) (kind, key))"
  by (induction ess) (auto simp: find_in_run_written map_add_def split: option.splits)

subsection \<open>The index is a map\<close>

definition holds :: "SpillableIdentityIndex \<Rightarrow> IdentityEntries list \<Rightarrow> bool" where
  "holds s ess \<longleftrightarrow> ix_runs s = map identity_run ess \<and> list_all run_entries_ok ess
     \<and> omap_sorted (ix_resident s) \<and> list_all entry_fits (ix_resident s) \<and> length (ix_resident s) < 2 ^ 64"

definition index_ok :: "SpillableIdentityIndex \<Rightarrow> bool" where
  "index_ok s \<longleftrightarrow> (\<exists>ess. holds s ess)"

text \<open>The entries in the runs, counted by their headers; a 64-bit count must be able to hold them when they are merged.\<close>

definition spilled_entries :: "SpillableIdentityIndex \<Rightarrow> nat" where
  "spilled_entries s = sum_list (map (\<lambda>run. unat (ir_entry_count run)) (ix_runs s))"

definition mergeable :: "SpillableIdentityIndex \<Rightarrow> bool" where
  "mergeable s \<longleftrightarrow> spilled_entries s + length (ix_resident s) < 2 ^ 64"

lemma lookup_holds:
  "holds s ess \<Longrightarrow> identity_lookup s kind key = Inr (map_of (ix_resident s @ concat (rev ess)) (kind, key))"
  unfolding holds_def identity_lookup_def
  by (auto simp: lookup_runs_written list_all_iff map_add_def rev_map split: option.splits)

lemma map_of_inserts:
  "distinct (map fst es) \<Longrightarrow> map_of (foldl (\<lambda>m (k, h). omap_insert k h m) acc es) = map_of (es @ acc)"
proof (induction es arbitrary: acc)
  case (Cons e es)
  obtain k h where e: "e = (k, h)" by (cases e)
  have k: "map_of es k = None" using Cons.prems by (simp add: e map_of_eq_None_iff)
  from Cons.IH [of "omap_insert k h acc"] Cons.prems k show ?case
    by (simp add: e fun_eq_iff map_add_def split: option.splits)
qed simp

lemma inserts_sorted: "omap_sorted acc \<Longrightarrow> omap_sorted (foldl (\<lambda>m (k, h). omap_insert k h m) acc es)"
  by (induction es arbitrary: acc) (auto simp: case_prod_beta)

lemma length_omap_insert: "length (omap_insert k v m) \<le> Suc (length m)"
  by (induction m) auto

lemma length_inserts: "length (foldl (\<lambda>m (k, h). omap_insert k h m) acc es) \<le> length acc + length es"
proof (induction es arbitrary: acc)
  case (Cons e es)
  from Cons.IH [of "omap_insert (fst e) (snd e) acc"] length_omap_insert [of "fst e" "snd e" acc] show ?case
    by (simp add: case_prod_beta)
qed simp

lemma omap_insert_set: "set (omap_insert k v m) \<subseteq> insert (k, v) (set m)"
proof (induction m)
  case (Cons a m)
  then show ?case by (cases a) auto
qed simp

lemma set_inserts: "set (foldl (\<lambda>m (k, h). omap_insert k h m) acc es) \<subseteq> set acc \<union> set es"
proof (induction es arbitrary: acc)
  case (Cons e es)
  from Cons.IH [of "omap_insert (fst e) (snd e) acc"] omap_insert_set [of "fst e" "snd e" acc] show ?case
    by (auto simp: case_prod_beta)
qed simp

lemma inserts_runs:
  "list_all run_entries_ok ess \<Longrightarrow> map_of (foldl (\<lambda>m (k, h). omap_insert k h m) acc (concat ess)) = map_of (concat (rev ess) @ acc)"
proof (induction ess arbitrary: acc)
  case (Cons es ess)
  have "distinct (map fst es)" using Cons.prems by (simp add: run_entries_ok_def strict_sorted_iff)
  with Cons show ?case by (simp add: map_of_inserts)
qed simp

lemma spilled_holds:
  assumes "holds s ess"
  shows "spilled_entries s = length (concat ess)"
proof -
  have "unat (word_of_nat (length es) :: u64) = length es" if "es \<in> set ess" for es
    using assms that by (auto simp: holds_def list_all_iff run_entries_ok_def unat_of_nat)
  then have "map (\<lambda>run. unat (ir_entry_count run)) (map identity_run ess) = map length ess"
    by (simp add: identity_run_simps)
  then show ?thesis using assms unfolding spilled_entries_def holds_def by (simp only: length_concat)
qed

lemma compact_holds:
  assumes "holds s ess" "compact s = Inr s'" "ess \<noteq> []" "mergeable s"
  shows "\<exists>es. holds s' [es] \<and> map_of es = map_of (concat (rev ess)) \<and> length es \<le> length (concat ess)
    \<and> ix_resident s' = ix_resident s \<and> ix_options s' = ix_options s"
proof -
  let ?es = "foldl (\<lambda>m (k, h). omap_insert k h m) [] (concat ess)"
  have ok: "list_all run_entries_ok ess" using assms(1) by (simp add: holds_def)
  have "merge_runs (ix_runs s) [] = Inr ?es" using assms(1) merge_runs_written [OF ok] by (simp add: holds_def)
  with assms(2) have s': "s' = s\<lparr>ix_total_size := ir_byte_size (identity_run ?es), ix_runs := [identity_run ?es]\<rparr>"
    by (auto simp: compact_def Let_def split: if_splits)
  have m: "map_of ?es = map_of (concat (rev ess))" using inserts_runs [OF ok, of "[]"] by simp
  have "map_of ?es \<noteq> Map.empty"
    unfolding m using assms(3) ok by (cases ess) (auto simp: run_entries_ok_def neq_Nil_conv)
  then have "?es \<noteq> []" by auto
  moreover have "omap_sorted ?es" by (rule inserts_sorted) simp
  moreover have "list_all entry_fits ?es" using set_inserts [of "[]" "concat ess"] ok by (fastforce simp: list_all_iff run_entries_ok_def)
  moreover have "length ?es < 2 ^ 64"
    using length_inserts [of "[]" "concat ess"] spilled_holds [OF assms(1)] assms(4) by (simp add: mergeable_def)
  ultimately have "run_entries_ok ?es" by (simp add: run_entries_ok_def)
  then have "holds s' [?es]" using assms(1) s' by (simp add: holds_def)
  with m s' length_inserts [of "[]" "concat ess"] show ?thesis by (intro exI [of _ ?es]) simp
qed

lemma flush_holds:
  assumes "holds s ess" "flush s = Inr s'" "mergeable s"
  shows "\<exists>ess'. holds s' ess' \<and> map_of (ix_resident s' @ concat (rev ess')) = map_of (ix_resident s @ concat (rev ess))
    \<and> ix_options s' = ix_options s \<and> spilled_entries s' \<le> spilled_entries s + length (ix_resident s) \<and> ix_resident s' = []"
proof (cases "ix_resident s = []")
  case True
  with assms show ?thesis by (auto simp: flush_def)
next
  case False
  let ?s = "s\<lparr>ix_runs := ix_runs s @ [identity_run (ix_resident s)], ix_total_size := ix_total_size s + ir_byte_size (identity_run (ix_resident s)),
      ix_resident := [], ix_resident_size := 0\<rparr>"
  have h: "holds ?s (ess @ [ix_resident s])" using assms(1) False by (simp add: holds_def run_entries_ok_def)
  have sp: "spilled_entries ?s = spilled_entries s + length (ix_resident s)"
    using spilled_holds [OF h] spilled_holds [OF assms(1)] by simp
  then have mg: "mergeable ?s" using assms(3) by (simp add: mergeable_def)
  show ?thesis
  proof (cases "length (ix_runs ?s) > unat (io_max_identity_runs (ix_options ?s))")
    case True
    then have "compact ?s = Inr s'" using assms(2) False by (auto simp: flush_def Let_def split: if_splits)
    from compact_holds [OF h this _ mg] obtain es where es: "holds s' [es]" "map_of es = map_of (concat (rev (ess @ [ix_resident s])))"
        "length es \<le> length (concat (ess @ [ix_resident s]))" "ix_resident s' = []" "ix_options s' = ix_options s" by auto
    with spilled_holds [OF es(1)] spilled_holds [OF h] sp show ?thesis by (intro exI [of _ "[es]"]) simp
  next
    case False
    then have "s' = ?s" using assms(2) \<open>ix_resident s \<noteq> []\<close> by (auto simp: flush_def Let_def split: if_splits)
    with h sp show ?thesis by (intro exI [of _ "ess @ [ix_resident s]"]) simp
  qed
qed

lemma insert_holds:
  assumes "holds s ess" "identity_insert kind key h s = Inr (r, s')" "length key < 2 ^ 64" "mergeable s"
  shows "\<exists>ess'. holds s' ess' \<and> spilled_entries s' + length (ix_resident s') \<le> Suc (spilled_entries s + length (ix_resident s)) \<and>
    (case map_of (ix_resident s @ concat (rev ess)) (kind, key) of
       Some h' \<Rightarrow> r = (if h' = h then identity_existing else identity_conflict)
         \<and> map_of (ix_resident s' @ concat (rev ess')) = map_of (ix_resident s @ concat (rev ess))
     | None \<Rightarrow> r = identity_inserted
         \<and> map_of (ix_resident s' @ concat (rev ess')) = (map_of (ix_resident s @ concat (rev ess)))((kind, key) \<mapsto> h))"
proof (cases "map_of (ix_resident s @ concat (rev ess)) (kind, key)")
  case (Some h')
  with assms lookup_holds [OF assms(1)] show ?thesis
    by (intro exI [of _ ess]) (auto simp: identity_insert_def split: if_splits)
next
  case None
  let ?cost = "word_of_nat (length key) + 8 + 32 :: u64"
  have l: "identity_lookup s kind key = Inr None" using lookup_holds [OF assms(1), of kind key] unfolding None .
  obtain t where t1: "(if too_full ?cost s then flush s else Inr s) = Inr t"
      "(if too_full ?cost t then Inl ''identity resident limit is too small for one entry''
        else Inr (identity_inserted, t\<lparr>ix_resident := omap_insert (kind, key) h (ix_resident t),
          ix_resident_size := ix_resident_size t + ?cost, ix_total_entries := ix_total_entries t + 1\<rparr>)) = Inr (r, s')"
    using assms(2) unfolding identity_insert_def l bindE_simps option.case Let_def bindE_Inr_iff by blast
  then have t: "(if too_full ?cost s then flush s else Inr s) = Inr t" "\<not> too_full ?cost t" "r = identity_inserted"
      "s' = t\<lparr>ix_resident := omap_insert (kind, key) h (ix_resident t), ix_resident_size := ix_resident_size t + ?cost,
          ix_total_entries := ix_total_entries t + 1\<rparr>"
    by (cases "too_full ?cost t"; simp)+
  obtain esst where e: "holds t esst" "map_of (ix_resident t @ concat (rev esst)) = map_of (ix_resident s @ concat (rev ess))"
      "spilled_entries t + length (ix_resident t) \<le> spilled_entries s + length (ix_resident s)"
    using t(1) flush_holds [OF assms(1) _ assms(4)] assms(1) by (cases "too_full ?cost s") force+
  have "length (ix_resident t) < 2 ^ 64 - 1"
    using t(2) unsigned_less [of "io_max_identity_entries (ix_options t)", where ?'a = nat] by (simp add: too_full_def)
  then have len: "length (omap_insert (kind, key) h (ix_resident t)) < 2 ^ 64"
    using length_omap_insert [of "(kind, key)" h "ix_resident t"] by linarith
  have "list_all entry_fits (omap_insert (kind, key) h (ix_resident t))"
    using omap_insert_set [of "(kind, key)" h "ix_resident t"] e(1) assms(3) by (auto simp: holds_def list_all_iff entry_fits_def)
  then have h: "holds s' esst" using e(1) len t(4) by (simp add: holds_def)
  have "spilled_entries s' = spilled_entries t" using t(4) by (simp add: spilled_entries_def)
  moreover have "length (ix_resident s') \<le> Suc (length (ix_resident t))"
    using t(4) length_omap_insert [of "(kind, key)" h "ix_resident t"] by simp
  ultimately have "spilled_entries s' + length (ix_resident s') \<le> Suc (spilled_entries s + length (ix_resident s))"
    using e(3) by linarith
  moreover have "map_of (ix_resident s' @ concat (rev esst)) = (map_of (ix_resident s @ concat (rev ess)))((kind, key) \<mapsto> h)"
    unfolding e(2) [symmetric] using t(4) by (simp add: fun_eq_iff map_add_def)
  ultimately show ?thesis unfolding None option.case using h t(3) by blast
qed

lemma entries_holds:
  assumes "holds s ess"
  shows "\<exists>es. identity_entries s = Inr es \<and> omap_sorted es \<and> map_of es = map_of (ix_resident s @ concat (rev ess))"
proof -
  let ?m = "foldl (\<lambda>m (k, h). omap_insert k h m) [] (concat ess)"
  let ?es = "foldl (\<lambda>m (k, h). omap_insert k h m) ?m (ix_resident s)"
  have "identity_entries s = Inr ?es"
    using assms merge_runs_written [of ess "[]"] by (simp add: identity_entries_def holds_def)
  moreover have "omap_sorted ?es" by (intro inserts_sorted) simp
  moreover have "map_of ?es = map_of (ix_resident s @ concat (rev ess))"
    using map_of_inserts [of "ix_resident s" ?m] inserts_runs [of ess "[]"] assms by (simp add: holds_def strict_sorted_iff)
  ultimately show ?thesis by blast
qed

lemma new_index_holds: "holds (new_identity_index options) []"
  by (simp add: holds_def new_identity_index_def)

subsection \<open>The interface of an identity store\<close>

text \<open>What an insertion does to a plain map of identities, alone and in a sequence.\<close>

definition spec_insert :: "identity \<Rightarrow> i64 \<Rightarrow> (identity \<Rightarrow> i64 option) \<Rightarrow> IdentityInsertResult \<times> (identity \<Rightarrow> i64 option)" where
  "spec_insert k h m = (case m k of
     Some h' \<Rightarrow> (if h' = h then identity_existing else identity_conflict, m)
   | None \<Rightarrow> (identity_inserted, m(k \<mapsto> h)))"

fun spec_all :: "(identity \<times> i64) list \<Rightarrow> (identity \<Rightarrow> i64 option) \<Rightarrow> IdentityInsertResult list \<times> (identity \<Rightarrow> i64 option)" where
  "spec_all [] m = ([], m)"
| "spec_all ((k, h) # es) m = (case spec_insert k h m of (r, m') \<Rightarrow> case spec_all es m' of (rs, m'') \<Rightarrow> (r # rs, m''))"

fun insert_all :: "(FactIdentityKind \<Rightarrow> string \<Rightarrow> i64 \<Rightarrow> 's \<Rightarrow> string + IdentityInsertResult \<times> 's) \<Rightarrow> (identity \<times> i64) list \<Rightarrow> 's \<Rightarrow>
    string + IdentityInsertResult list \<times> 's" where
  "insert_all ins [] s = Inr ([], s)"
| "insert_all ins ((k, h) # es) s = bindE (ins (fst k) (snd k) h s) (\<lambda>(r, s').
     bindE (insert_all ins es s') (\<lambda>(rs, s''). Inr (r # rs, s'')))"

locale identity_store =
  fixes look :: "'s \<Rightarrow> FactIdentityKind \<Rightarrow> string \<Rightarrow> string + i64 option"
    and ins :: "FactIdentityKind \<Rightarrow> string \<Rightarrow> i64 \<Rightarrow> 's \<Rightarrow> string + IdentityInsertResult \<times> 's"
    and ok :: "'s \<Rightarrow> bool"
    and room :: "'s \<Rightarrow> nat \<Rightarrow> bool"
    and contents :: "'s \<Rightarrow> identity \<Rightarrow> i64 option"
  assumes look_contents: "ok s \<Longrightarrow> look s kind key = Inr (contents s (kind, key))"
    and ins_contents: "ok s \<Longrightarrow> room s (Suc n) \<Longrightarrow> length key < 2 ^ 64 \<Longrightarrow> ins kind key h s = Inr (r, s') \<Longrightarrow>
      (r, contents s') = spec_insert (kind, key) h (contents s) \<and> ok s' \<and> room s' n"
begin

lemma all_contents:
  "ok s \<Longrightarrow> room s (length es) \<Longrightarrow> list_all entry_fits es \<Longrightarrow> insert_all ins es s = Inr (rs, s') \<Longrightarrow>
    (rs, contents s') = spec_all es (contents s) \<and> ok s'"
proof (induction es arbitrary: s rs)
  case (Cons e es)
  obtain k h where e: "e = (k, h)" by (cases e)
  from Cons.prems(4) obtain r t rs' where t: "ins (fst k) (snd k) h s = Inr (r, t)" "insert_all ins es t = Inr (rs', s')" "rs = r # rs'"
    by (auto simp: e bindE_Inr_iff)
  have "length (snd k) < 2 ^ 64" using Cons.prems(3) by (simp add: e entry_fits_def)
  from ins_contents [OF Cons.prems(1) _ this t(1)] Cons.prems(2)
  have "(r, contents t) = spec_insert k h (contents s)" "ok t" "room t (length es)" by auto
  with Cons.IH [OF this(2,3) _ t(2)] Cons.prems(3) t(3) show ?case by (auto simp: e split: prod.splits)
qed simp

end

definition index_contents :: "SpillableIdentityIndex \<Rightarrow> identity \<Rightarrow> i64 option" where
  "index_contents s k = (case identity_lookup s (fst k) (snd k) of Inr v \<Rightarrow> v | Inl e \<Rightarrow> None)"

definition index_room :: "SpillableIdentityIndex \<Rightarrow> nat \<Rightarrow> bool" where
  "index_room s n \<longleftrightarrow> spilled_entries s + length (ix_resident s) + n < 2 ^ 64"

lemma contents_holds: "holds s ess \<Longrightarrow> index_contents s = map_of (ix_resident s @ concat (rev ess))"
  by (simp add: fun_eq_iff index_contents_def lookup_holds del: map_of_append)

interpretation index: identity_store identity_lookup identity_insert index_ok index_room index_contents
proof
  fix s :: SpillableIdentityIndex and kind key n h r s'
  show "index_ok s \<Longrightarrow> identity_lookup s kind key = Inr (index_contents s (kind, key))"
    by (auto simp: index_ok_def contents_holds lookup_holds simp del: map_of_append)
  assume a: "index_ok s" "index_room s (Suc n)" "length key < 2 ^ 64" "identity_insert kind key h s = Inr (r, s')"
  then obtain ess where ess: "holds s ess" by (auto simp: index_ok_def)
  have "mergeable s" using a(2) by (simp add: index_room_def mergeable_def)
  then obtain ess' where h: "holds s' ess'"
      "spilled_entries s' + length (ix_resident s') \<le> Suc (spilled_entries s + length (ix_resident s))"
      "case map_of (ix_resident s @ concat (rev ess)) (kind, key) of
         Some h' \<Rightarrow> r = (if h' = h then identity_existing else identity_conflict)
           \<and> map_of (ix_resident s' @ concat (rev ess')) = map_of (ix_resident s @ concat (rev ess))
       | None \<Rightarrow> r = identity_inserted
           \<and> map_of (ix_resident s' @ concat (rev ess')) = (map_of (ix_resident s @ concat (rev ess)))((kind, key) \<mapsto> h)"
    using insert_holds [OF ess a(4,3)] by blast
  have "index_room s' n" using h(2) a(2) by (simp add: index_room_def)
  moreover have "index_ok s'" using h(1) by (auto simp: index_ok_def)
  ultimately show "(r, index_contents s') = spec_insert (kind, key) h (index_contents s) \<and> index_ok s' \<and> index_room s' n"
    using h(3) [folded contents_holds [OF ess] contents_holds [OF h(1)]]
    by (cases "index_contents s (kind, key)") (simp_all add: spec_insert_def)
qed

subsection \<open>Properties\<close>

text \<open>(C11) The identity index refines a map: whatever spills and compactions a sequence of insertions causes, each one
  answers as an insertion into a plain map would, every later lookup finds what the map holds, and
  the listing of the index has the entries of the map in order.\<close>

theorem identity_index_refines_map:
  assumes "insert_all identity_insert es (new_identity_index options) = Inr (rs, s)"
    and "list_all entry_fits es" "length es < 2 ^ 64"
  shows "rs = fst (spec_all es (\<lambda>_. None)) \<and>
    (\<forall>kind key. identity_lookup s kind key = Inr (snd (spec_all es (\<lambda>_. None)) (kind, key))) \<and>
    (\<exists>listing. identity_entries s = Inr listing \<and> omap_sorted listing \<and> map_of listing = snd (spec_all es (\<lambda>_. None)))"
proof -
  have new: "index_ok (new_identity_index options)" "index_contents (new_identity_index options) = (\<lambda>_. None)"
    using new_index_holds [of options] contents_holds [OF new_index_holds] by (auto simp: index_ok_def new_identity_index_def)
  have "index_room (new_identity_index options) (length es)"
    using assms(3) by (simp add: index_room_def new_identity_index_def spilled_entries_def)
  from index.all_contents [OF new(1) this assms(2,1)] have r: "(rs, index_contents s) = spec_all es (\<lambda>_. None)" "index_ok s"
    by (simp_all add: new(2))
  then obtain ess where ess: "holds s ess" by (auto simp: index_ok_def)
  from r(1) have p: "rs = fst (spec_all es (\<lambda>_. None))" "index_contents s = snd (spec_all es (\<lambda>_. None))"
    by (metis fst_conv, metis snd_conv)
  with entries_holds [OF ess] index.look_contents [OF r(2)] show ?thesis
    by (metis contents_holds [OF ess])
qed

definition sample_index_options :: SpillableIdentityIndexOptions where
  "sample_index_options = \<lparr>io_max_resident_identity_bytes = 100, io_max_identity_entries = 1, io_max_identity_runs = 8, io_max_total_bytes = 1000\<rparr>"

theorem identity_index_refines_map_witness:
  "\<exists>rs s. insert_all identity_insert [((0, ''a''), 1), ((0, ''b''), 2), ((0, ''a''), 3)] (new_identity_index sample_index_options) = Inr (rs, s)
    \<and> length (ix_runs s) = 1 \<and> rs = [identity_inserted, identity_inserted, identity_conflict]
    \<and> identity_lookup s 0 ''b'' = Inr (Some 2)"
proof -
  let ?es = "[((0, ''a''), 1), ((0, ''b''), 2), ((0, ''a''), 3)] :: (identity \<times> i64) list"
  have "case insert_all identity_insert ?es (new_identity_index sample_index_options) of Inr (rs, s) \<Rightarrow> length (ix_runs s) = 1 | Inl e \<Rightarrow> False"
    by code_simp
  then obtain rs s where r: "insert_all identity_insert ?es (new_identity_index sample_index_options) = Inr (rs, s)" "length (ix_runs s) = 1"
    by (auto split: sum.splits)
  have f: "list_all entry_fits ?es" "length ?es < 2 ^ 64" by (simp_all add: entry_fits_def)
  from identity_index_refines_map [OF r(1) f] r show ?thesis by (auto simp: spec_insert_def)
qed

text \<open>The byte limit of the spilled runs is compared with a difference that wraps around when a single run is larger than the limit:
  the run is kept and the total exceeds the limit.\<close>

lemma spill_limit_wraps:
  "case flush ((new_identity_index sample_index_options)\<lparr>ix_options := sample_index_options\<lparr>io_max_total_bytes := 10\<rparr>,
      ix_resident := [((0, ''a''), 1)]\<rparr>) of
     Inr s \<Rightarrow> ix_total_size s > io_max_total_bytes (ix_options s) | Inl e \<Rightarrow> False"
  by code_simp

end
