(* ===== verification/Spill_Buffer.thy ===== *)
theory Spill_Buffer
  imports Identity_Index Fact_Records
begin

text \<open>
  The append-only buffer of facts that spills to segments (\<^verbatim>\<open>ast/spillable_fact_buffer.cpp\<close>) and the codec
  that \<^verbatim>\<open>ast/fact_batch.cpp\<close> gives it for symbol records. A segment is the contents of its file; the
  checksum, which is stored and never read, is left out, as are failures of the file system.
\<close>

subsection \<open>Symbol records in a segment\<close>

type_synonym 'a spill_reader = "byte list \<Rightarrow> string + 'a \<times> byte list"

definition append_u64 :: "u64 \<Rightarrow> byte list" where
  "append_u64 v = map (\<lambda>i. ucast (drop_bit (8 * i) v AND 0xff)) [0 ..< 8]"

definition append_string :: "string \<Rightarrow> byte list" where
  "append_string s = append_u64 (word_of_nat (length s)) @ string_bytes s"

definition append_optional_string :: "string option \<Rightarrow> byte list" where
  "append_optional_string v = append_u64 (if v \<noteq> None then 1 else 0) @ (case v of None \<Rightarrow> [] | Some s \<Rightarrow> append_string s)"

definition append_optional_i64 :: "i64 option \<Rightarrow> byte list" where
  "append_optional_i64 v = append_u64 (if v \<noteq> None then 1 else 0) @ (case v of None \<Rightarrow> [] | Some i \<Rightarrow> append_u64 i)"

definition retS :: "'a \<Rightarrow> 'a spill_reader" where
  "retS x = (\<lambda>bs. Inr (x, bs))"

definition bindS :: "'a spill_reader \<Rightarrow> ('a \<Rightarrow> 'b spill_reader) \<Rightarrow> 'b spill_reader" where
  "bindS m f = (\<lambda>bs. bindE (m bs) (\<lambda>(x, rest). f x rest))"

definition record_truncated :: string where
  "record_truncated = ''spilled symbol record is truncated''"

definition s_size :: "u64 spill_reader" where
  "s_size = stream_u64 record_truncated"

definition s_string :: "string spill_reader" where
  "s_string = bindS s_size (\<lambda>n bs.
     if unat n > length bs then Inl record_truncated else Inr (bytes_string (take (unat n) bs), drop (unat n) bs))"

definition s_integer :: "i64 spill_reader" where
  "s_integer = s_size"

definition s_boolean :: "bool spill_reader" where
  "s_boolean = bindS s_integer (\<lambda>v. retS (v \<noteq> 0))"

definition s_optional_string :: "string option spill_reader" where
  "s_optional_string = bindS s_boolean (\<lambda>present. if present then bindS s_string (\<lambda>s. retS (Some s)) else retS None)"

definition s_optional_i64 :: "i64 option spill_reader" where
  "s_optional_i64 = bindS s_boolean (\<lambda>present. if present then bindS s_integer (\<lambda>i. retS (Some i)) else retS None)"

definition s_kind :: "32 word spill_reader" where
  "s_kind = bindS s_integer (\<lambda>v. retS (ucast v))"

definition encode_symbol_record :: "SymbolRecord \<Rightarrow> byte list" where
  "encode_symbol_record r =
     append_string (sr_file r) @ append_string (sr_usr r) @ append_string (sr_spelling r)
     @ append_u64 (scast (sr_kind r)) @ append_optional_string (sr_qual_name r)
     @ append_optional_string (sr_display_name r) @ append_optional_string (sr_type_info r)
     @ append_u64 (sr_line r) @ append_u64 (sr_col r) @ append_u64 (sr_end_line r) @ append_u64 (sr_end_col r)
     @ append_optional_i64 (sr_decl_line r) @ append_optional_i64 (sr_decl_col r)
     @ append_optional_string (sr_decl_path r) @ append_u64 (if sr_is_definition r then 1 else 0)
     @ append_u64 (if sr_is_pure r then 1 else 0) @ append_u64 (if sr_is_static r then 1 else 0)
     @ append_u64 (if sr_is_instantiation r then 1 else 0)
     @ append_u64 (if sr_is_named_instance r then 1 else 0) @ append_optional_string (sr_callable_kind r)
     @ append_optional_string (sr_template_origin r) @ append_optional_string (sr_template_form r)
     @ append_optional_string (sr_linkage r) @ append_optional_string (sr_access r)
     @ append_optional_string (sr_parent_usr r) @ append_optional_string (sr_const_value r)
     @ append_u64 (if sr_resolved r then 1 else 0) @ append_string (sr_semantic_universe r)
     @ append_string (sr_normalized_configuration r) @ append_optional_string (sr_identity_source r)
     @ append_optional_string (sr_identity_translation_unit r) @ append_optional_string (sr_local_anchor r)
     @ append_string (sr_kind_name r)"

definition decode_fields :: "SymbolRecord spill_reader" where
  "decode_fields =
     bindS s_string (\<lambda>file. bindS s_string (\<lambda>usr. bindS s_string (\<lambda>spelling.
     bindS s_kind (\<lambda>kind. bindS s_optional_string (\<lambda>qual_name.
     bindS s_optional_string (\<lambda>display_name. bindS s_optional_string (\<lambda>type_info.
     bindS s_integer (\<lambda>line. bindS s_integer (\<lambda>col. bindS s_integer (\<lambda>end_line.
     bindS s_integer (\<lambda>end_col. bindS s_optional_i64 (\<lambda>decl_line.
     bindS s_optional_i64 (\<lambda>decl_col. bindS s_optional_string (\<lambda>decl_path.
     bindS s_boolean (\<lambda>is_definition. bindS s_boolean (\<lambda>is_pure.
     bindS s_boolean (\<lambda>is_static. bindS s_boolean (\<lambda>is_instantiation.
     bindS s_boolean (\<lambda>is_named_instance. bindS s_optional_string (\<lambda>callable_kind.
     bindS s_optional_string (\<lambda>template_origin. bindS s_optional_string (\<lambda>template_form.
     bindS s_optional_string (\<lambda>linkage. bindS s_optional_string (\<lambda>access.
     bindS s_optional_string (\<lambda>parent_usr. bindS s_optional_string (\<lambda>const_value.
     bindS s_boolean (\<lambda>resolved. bindS s_string (\<lambda>semantic_universe.
     bindS s_string (\<lambda>normalized_configuration. bindS s_optional_string (\<lambda>identity_source.
     bindS s_optional_string (\<lambda>identity_translation_unit.
     bindS s_optional_string (\<lambda>local_anchor. bindS s_string (\<lambda>kind_name.
     retS \<lparr>sr_file = file, sr_usr = usr, sr_spelling = spelling, sr_kind = kind, sr_qual_name = qual_name,
       sr_display_name = display_name, sr_type_info = type_info, sr_line = line, sr_col = col,
       sr_end_line = end_line, sr_end_col = end_col, sr_decl_line = decl_line, sr_decl_col = decl_col,
       sr_decl_path = decl_path, sr_is_definition = is_definition, sr_is_pure = is_pure,
       sr_is_static = is_static, sr_is_instantiation = is_instantiation,
       sr_is_named_instance = is_named_instance, sr_callable_kind = callable_kind,
       sr_template_origin = template_origin, sr_template_form = template_form, sr_linkage = linkage,
       sr_access = access, sr_parent_usr = parent_usr, sr_const_value = const_value, sr_resolved = resolved,
       sr_semantic_universe = semantic_universe, sr_normalized_configuration = normalized_configuration,
       sr_identity_source = identity_source, sr_identity_translation_unit = identity_translation_unit,
       sr_local_anchor = local_anchor, sr_kind_name = kind_name\<rparr>)))))))))))))))))))))))))))))))))"

definition decode_symbol_record :: "byte list \<Rightarrow> string + SymbolRecord" where
  "decode_symbol_record bytes = bindE (decode_fields bytes) (\<lambda>(record, rest). Inr record)"

subsection \<open>Round trip of symbol records\<close>

definition spill_reads :: "'a spill_reader \<Rightarrow> byte list \<Rightarrow> 'a \<Rightarrow> bool" where
  "spill_reads rd bs v \<longleftrightarrow> (\<forall>r. length bs < 2 ^ 64 \<longrightarrow> rd (bs @ r) = Inr (v, r))"

named_theorems spill_intro

lemma spill_bind: "spill_reads rd bs x \<Longrightarrow> spill_reads (f x) cs y \<Longrightarrow> spill_reads (bindS rd f) (bs @ cs) y"
  by (simp add: spill_reads_def bindS_def)

lemma spill_map: "spill_reads rd bs x \<Longrightarrow> g x = v \<Longrightarrow> spill_reads (bindS rd (\<lambda>x. retS (g x))) bs v"
  by (simp add: spill_reads_def bindS_def retS_def)

lemma append_u64_wire: "append_u64 = w_u64"
  by (simp add: fun_eq_iff append_u64_def w_u64_def)

lemma spill_size [spill_intro]: "spill_reads s_size (append_u64 v) v"
  by (simp add: spill_reads_def s_size_def append_u64_wire stream_u64_written)

lemma spill_integer [spill_intro]: "spill_reads s_integer (append_u64 v) v"
  by (simp add: s_integer_def spill_size)

lemma spill_boolean [spill_intro]: "spill_reads s_boolean (append_u64 (if b then 1 else 0)) b"
  unfolding s_boolean_def by (rule spill_map [OF spill_integer]) simp

lemma spill_string [spill_intro]: "spill_reads s_string (append_string s) s"
proof -
  have "unat (word_of_nat (length s) :: u64) = length s" if "length (append_string s) < 2 ^ 64"
    using that by (simp add: append_string_def unat_of_nat)
  then show ?thesis
    by (simp add: spill_reads_def s_string_def bindS_def append_string_def s_size_def append_u64_wire stream_u64_written)
qed

lemma spill_optional:
  assumes "\<And>x. spill_reads rd (w x) x"
  shows "spill_reads (bindS s_boolean (\<lambda>present. if present then bindS rd (\<lambda>x. retS (Some x)) else retS None))
    (append_u64 (if v \<noteq> None then 1 else 0) @ (case v of None \<Rightarrow> [] | Some x \<Rightarrow> w x)) v"
proof (rule spill_bind [OF spill_boolean])
  show "spill_reads (if v \<noteq> None then bindS rd (\<lambda>x. retS (Some x)) else retS None) (case v of None \<Rightarrow> [] | Some x \<Rightarrow> w x) v"
    by (cases v) (simp_all add: spill_map [OF assms], simp add: spill_reads_def retS_def)
qed

lemma spill_optional_string [spill_intro]: "spill_reads s_optional_string (append_optional_string v) v"
  unfolding s_optional_string_def append_optional_string_def by (rule spill_optional [OF spill_string])

lemma spill_optional_i64 [spill_intro]: "spill_reads s_optional_i64 (append_optional_i64 v) v"
  unfolding s_optional_i64_def append_optional_i64_def by (rule spill_optional [OF spill_integer])

lemma spill_kind [spill_intro]: "spill_reads s_kind (append_u64 (scast k)) k"
proof -
  have "ucast (scast k :: u64) = k"
  proof (rule bit_word_eqI)
    fix n assume "n < LENGTH(32)"
    then show "bit (ucast (scast k :: u64) :: 32 word) n = bit k n" by (cases "n = 31") (auto simp: bit_simps min_def)
  qed
  then show ?thesis unfolding s_kind_def by (rule spill_map [OF spill_integer])
qed

lemma decode_fields_reads: "spill_reads decode_fields (encode_symbol_record r) r"
  unfolding decode_fields_def encode_symbol_record_def
  by ((rule spill_bind, rule spill_intro)+, rule spill_map, rule spill_intro) simp

lemma symbol_record_codec: "length (encode_symbol_record r) < 2 ^ 64 \<Longrightarrow> decode_symbol_record (encode_symbol_record r) = Inr r"
  using decode_fields_reads [of r] by (simp add: decode_symbol_record_def spill_reads_def) (metis append_Nil2 bindE_simps(2) case_prod_conv)

subsection \<open>The buffer\<close>

record SpillableFactBufferOptions =
  bo_family :: FactFamily
  bo_spill_threshold_bytes :: u64
  bo_max_total_bytes :: u64

record SpillSegment =
  sg_file :: "byte list"
  sg_family :: FactFamily
  sg_first_index :: u64
  sg_record_count :: u64
  sg_byte_size :: u64

record 'a SpillableFactBuffer =
  sb_options :: SpillableFactBufferOptions
  sb_resident :: "'a list"
  sb_segments :: "SpillSegment list"
  sb_next_index :: u64
  sb_resident_size :: u64
  sb_total_size :: u64

definition new_fact_buffer :: "SpillableFactBufferOptions \<Rightarrow> 'a SpillableFactBuffer" where
  "new_fact_buffer options = \<lparr>sb_options = options, sb_resident = [], sb_segments = [], sb_next_index = 0,
     sb_resident_size = 0, sb_total_size = 0\<rparr>"

definition kSegmentMagic :: "byte list" where
  "kSegmentMagic = string_bytes ''CIDXSEG1''"

definition write_segment_records :: "('a \<Rightarrow> byte list) \<Rightarrow> 'a list \<Rightarrow> byte list" where
  "write_segment_records encoder records = concat (map (\<lambda>record. w_u64 (word_of_nat (length (encoder record))) @ encoder record) records)"

definition spill :: "('a \<Rightarrow> byte list) \<Rightarrow> 'a SpillableFactBuffer \<Rightarrow> string + 'a SpillableFactBuffer" where
  "spill encoder s =
     (if sb_resident s = [] then Inr s
      else let first = sb_next_index s - word_of_nat (length (sb_resident s));
               file = kSegmentMagic @ w_u64 (word_of_nat (family_number (bo_family (sb_options s)))) @ w_u64 first
                 @ w_u64 (word_of_nat (length (sb_resident s))) @ write_segment_records encoder (sb_resident s);
               bytes = word_of_nat (length file);
               prior = sb_total_size s - sb_resident_size s
           in if bytes > bo_max_total_bytes (sb_options s) \<or> prior > bo_max_total_bytes (sb_options s) - bytes
              then Inl ''fact spill hard byte limit exceeded''
              else Inr (s\<lparr>sb_segments := sb_segments s @ [\<lparr>sg_file = file, sg_family = bo_family (sb_options s), sg_first_index = first,
                     sg_record_count = word_of_nat (length (sb_resident s)), sg_byte_size = bytes\<rparr>],
                   sb_resident := [], sb_resident_size := 0, sb_total_size := prior + bytes\<rparr>))"

definition buffer_append :: "('a \<Rightarrow> byte list) \<Rightarrow> 'a \<Rightarrow> 'a SpillableFactBuffer \<Rightarrow> string + u64 \<times> 'a SpillableFactBuffer" where
  "buffer_append encoder record s =
     (let encoded_size = word_of_nat (length (encoder record)); limit = bo_max_total_bytes (sb_options s) in
      if encoded_size > limit \<or> encoded_size + 8 > limit \<or> sb_total_size s > limit - encoded_size - 8
      then Inl ''fact payload hard byte limit exceeded''
      else let s' = s\<lparr>sb_next_index := sb_next_index s + 1, sb_resident_size := sb_resident_size s + (encoded_size + 8),
                 sb_total_size := sb_total_size s + (encoded_size + 8), sb_resident := sb_resident s @ [record]\<rparr> in
        bindE (if sb_resident_size s' \<ge> bo_spill_threshold_bytes (sb_options s') then spill encoder s' else Inr s')
          (\<lambda>s''. Inr (sb_next_index s, s'')))"

definition segment_truncated :: string where
  "segment_truncated = ''fact spill segment is truncated''"

fun segment_records :: "(byte list \<Rightarrow> string + 'a) \<Rightarrow> u64 \<Rightarrow> nat \<Rightarrow> byte list \<Rightarrow> string + (u64 \<times> 'a) list" where
  "segment_records decoder index 0 bs = Inr []"
| "segment_records decoder index (Suc n) bs = bindE (stream_u64 segment_truncated bs) (\<lambda>(size, bs1).
     if unat size > length bs1 then Inl segment_truncated
     else bindE (decoder (take (unat size) bs1)) (\<lambda>record.
       bindE (segment_records decoder (index + 1) n (drop (unat size) bs1)) (\<lambda>rest. Inr ((index, record) # rest))))"

definition read_segment :: "(byte list \<Rightarrow> string + 'a) \<Rightarrow> SpillSegment \<Rightarrow> string + (u64 \<times> 'a) list" where
  "read_segment decoder segment =
     (if take 8 (sg_file segment) \<noteq> kSegmentMagic then Inl ''fact spill segment has an invalid wire version''
      else bindE (stream_u64 segment_truncated (drop 8 (sg_file segment))) (\<lambda>(family, bs1).
        bindE (stream_u64 segment_truncated bs1) (\<lambda>(first, bs2). bindE (stream_u64 segment_truncated bs2) (\<lambda>(count, bs3).
          segment_records decoder first (unat count) bs3))))"

text \<open>The calls that the consumer receives, in order.\<close>

definition for_each_in_order :: "(byte list \<Rightarrow> string + 'a) \<Rightarrow> 'a SpillableFactBuffer \<Rightarrow> string + (u64 \<times> 'a) list" where
  "for_each_in_order decoder s = bindE (mapE (read_segment decoder) (sb_segments s)) (\<lambda>spilled.
     let first = sb_next_index s - word_of_nat (length (sb_resident s)) in
     Inr (concat spilled @ map (\<lambda>offset. (first + word_of_nat offset, sb_resident s ! offset)) [0 ..< length (sb_resident s)]))"

definition buffer_spilled :: "'a SpillableFactBuffer \<Rightarrow> bool" where
  "buffer_spilled s \<longleftrightarrow> sb_segments s \<noteq> []"

datatype 'a FrozenFactRecords = InMemoryRecords "'a list" | SpilledRecords "'a list" "SpillSegment list"

definition freeze :: "'a SpillableFactBuffer \<Rightarrow> 'a FrozenFactRecords" where
  "freeze s = (if sb_segments s = [] then InMemoryRecords (sb_resident s) else SpilledRecords (sb_resident s) (sb_segments s))"

fun append_all :: "('a \<Rightarrow> byte list) \<Rightarrow> 'a list \<Rightarrow> 'a SpillableFactBuffer \<Rightarrow> string + u64 list \<times> 'a SpillableFactBuffer" where
  "append_all encoder [] s = Inr ([], s)"
| "append_all encoder (r # rs) s = bindE (buffer_append encoder r s) (\<lambda>(i, s'). bindE (append_all encoder rs s') (\<lambda>(is, s''). Inr (i # is, s'')))"

subsection \<open>The buffer is a list\<close>

definition numbered :: "nat \<Rightarrow> 'a list \<Rightarrow> (u64 \<times> 'a) list" where
  "numbered n rs = map (\<lambda>i. (word_of_nat (n + i), rs ! i)) [0 ..< length rs]"

definition segment_of :: "('a \<Rightarrow> byte list) \<Rightarrow> FactFamily \<Rightarrow> nat \<Rightarrow> 'a list \<Rightarrow> SpillSegment" where
  "segment_of encoder family n rs =
     (let file = kSegmentMagic @ w_u64 (word_of_nat (family_number family)) @ w_u64 (word_of_nat n)
        @ w_u64 (word_of_nat (length rs)) @ write_segment_records encoder rs in
      \<lparr>sg_file = file, sg_family = family, sg_first_index = word_of_nat n, sg_record_count = word_of_nat (length rs), sg_byte_size = word_of_nat (length file)\<rparr>)"

fun segments_of :: "('a \<Rightarrow> byte list) \<Rightarrow> FactFamily \<Rightarrow> nat \<Rightarrow> 'a list list \<Rightarrow> SpillSegment list" where
  "segments_of encoder family n [] = []"
| "segments_of encoder family n (rs # rss) = segment_of encoder family n rs # segments_of encoder family (n + length rs) rss"

lemma numbered_append: "numbered n (xs @ ys) = numbered n xs @ numbered (n + length xs) ys"
proof -
  have "map (\<lambda>i. (word_of_nat (n + i) :: u64, (xs @ ys) ! i)) [length xs ..< length xs + length ys]
      = map (\<lambda>i. (word_of_nat (n + length xs + i), ys ! i)) [0 ..< length ys]"
    by (rule nth_equalityI) (simp_all add: nth_append add.assoc del: of_nat_add)
  then show ?thesis
    by (simp add: numbered_def nth_append upt_add_eq_append [of 0] del: of_nat_add cong: map_cong)
qed

lemma numbered_Cons: "numbered n (x # xs) = (word_of_nat n, x) # numbered (Suc n) xs"
  using numbered_append [of n "[x]" xs] by (simp add: numbered_def)

lemma segments_of_append: "segments_of encoder family n (xs @ ys) = segments_of encoder family n xs @ segments_of encoder family (n + length (concat xs)) ys"
  by (induction xs arbitrary: n) (simp_all add: add.assoc)

locale spill_codec =
  fixes enc :: "'a \<Rightarrow> byte list"
    and dec :: "byte list \<Rightarrow> string + 'a"
    and ok :: "'a \<Rightarrow> bool"
  assumes codec: "ok r \<Longrightarrow> dec (enc r) = Inr r"
    and codec_length: "ok r \<Longrightarrow> length (enc r) + 8 < 2 ^ 64"
begin

lemma records_written:
  "list_all ok rs \<Longrightarrow> segment_records dec (word_of_nat n) (length rs) (write_segment_records enc rs @ r) = Inr (numbered n rs)"
proof (induction rs arbitrary: n)
  case (Cons x xs)
  have "unat (word_of_nat (length (enc x)) :: u64) = length (enc x)"
    using Cons.prems codec_length [of x] by (simp add: unat_of_nat)
  with Cons codec [of x] show ?case
    using Cons.IH [of "Suc n"] by (simp add: write_segment_records_def stream_u64_written numbered_Cons add.commute)
qed (simp add: numbered_def)

lemma segment_written:
  assumes "list_all ok rs" "length rs < 2 ^ 64"
  shows "read_segment dec (segment_of enc family n rs) = Inr (numbered n rs)"
proof -
  have "unat (word_of_nat (length rs) :: u64) = length rs" "length kSegmentMagic = 8"
    using assms(2) by (simp_all add: unat_of_nat kSegmentMagic_def)
  then show ?thesis
    using records_written [OF assms(1), of n "[]"] by (simp add: read_segment_def segment_of_def Let_def stream_u64_written)
qed

lemma segments_written:
  "list_all (list_all ok) rss \<Longrightarrow> length (concat rss) < 2 ^ 64 \<Longrightarrow>
    \<exists>calls. mapE (read_segment dec) (segments_of enc family n rss) = Inr calls \<and> concat calls = numbered n (concat rss)"
proof (induction rss arbitrary: n)
  case (Cons rs rss)
  then obtain calls where "mapE (read_segment dec) (segments_of enc family (n + length rs) rss) = Inr calls"
      "concat calls = numbered (n + length rs) (concat rss)" by fastforce
  with Cons.prems show ?case by (simp add: segment_written numbered_append)
qed (simp add: numbered_def)

definition buffer_holds :: "'a SpillableFactBuffer \<Rightarrow> 'a list list \<Rightarrow> bool" where
  "buffer_holds s rss \<longleftrightarrow> sb_segments s = segments_of enc (bo_family (sb_options s)) 0 rss
     \<and> sb_next_index s = word_of_nat (length (concat rss) + length (sb_resident s))
     \<and> list_all (list_all ok) rss \<and> list_all ok (sb_resident s)
     \<and> sb_total_size s \<le> bo_max_total_bytes (sb_options s)"

lemma first_resident: "buffer_holds s rss \<Longrightarrow> sb_next_index s - word_of_nat (length (sb_resident s)) = word_of_nat (length (concat rss))"
  by (simp add: buffer_holds_def)

lemma for_each_holds:
  assumes "buffer_holds s rss" "length (concat rss @ sb_resident s) < 2 ^ 64"
  shows "for_each_in_order dec s = Inr (numbered 0 (concat rss @ sb_resident s))"
proof -
  obtain calls where c: "mapE (read_segment dec) (sb_segments s) = Inr calls" "concat calls = numbered 0 (concat rss)"
    using segments_written [of rss "bo_family (sb_options s)" 0] assms by (auto simp: buffer_holds_def)
  moreover have "map (\<lambda>offset. (word_of_nat (length (concat rss)) + word_of_nat offset, sb_resident s ! offset)) [0 ..< length (sb_resident s)]
      = numbered (length (concat rss)) (sb_resident s)"
    by (simp add: numbered_def)
  ultimately show ?thesis
    by (simp add: for_each_in_order_def Let_def first_resident [OF assms(1)] numbered_append)
qed

lemma spill_holds:
  assumes "buffer_holds s rss" "spill enc s = Inr s'"
  shows "\<exists>rss'. buffer_holds s' rss' \<and> concat rss' @ sb_resident s' = concat rss @ sb_resident s \<and> sb_options s' = sb_options s"
proof (cases "sb_resident s = []")
  case True
  with assms show ?thesis by (auto simp: spill_def)
next
  case False
  let ?seg = "segment_of enc (bo_family (sb_options s)) (length (concat rss)) (sb_resident s)"
  let ?prior = "sb_total_size s - sb_resident_size s"
  from assms(2) False have g: "sg_byte_size ?seg \<le> bo_max_total_bytes (sb_options s)"
      "?prior \<le> bo_max_total_bytes (sb_options s) - sg_byte_size ?seg"
      "s' = s\<lparr>sb_segments := sb_segments s @ [?seg], sb_resident := [], sb_resident_size := 0,
        sb_total_size := ?prior + sg_byte_size ?seg\<rparr>"
    unfolding spill_def Let_def first_resident [OF assms(1)] segment_of_def by (auto split: if_splits)
  have "?prior + sg_byte_size ?seg \<le> bo_max_total_bytes (sb_options s)"
    using g(1,2) by (metis add.commute le_plus word_sub_le plus_minus_not_NULL_ab uint_minus_simple_alt word_le_minus_mono_left)
  then have "buffer_holds s' (rss @ [sb_resident s])"
    using assms(1) g(3) by (simp add: buffer_holds_def segments_of_append)
  with g(3) show ?thesis by (intro exI [of _ "rss @ [sb_resident s]"]) simp
qed

lemma append_holds:
  assumes "buffer_holds s rss" "ok r" "buffer_append enc r s = Inr (i, s')"
  shows "\<exists>rss'. buffer_holds s' rss' \<and> concat rss' @ sb_resident s' = (concat rss @ sb_resident s) @ [r]
    \<and> i = word_of_nat (length (concat rss @ sb_resident s)) \<and> sb_options s' = sb_options s"
proof -
  let ?n = "word_of_nat (length (enc r)) :: u64" and ?limit = "bo_max_total_bytes (sb_options s)"
  let ?t = "s\<lparr>sb_next_index := sb_next_index s + 1, sb_resident_size := sb_resident_size s + (?n + 8),
     sb_total_size := sb_total_size s + (?n + 8), sb_resident := sb_resident s @ [r]\<rparr>"
  from assms(3) have g: "?n \<le> ?limit" "?n + 8 \<le> ?limit" "sb_total_size s \<le> ?limit - ?n - 8" "i = sb_next_index s"
      "(if bo_spill_threshold_bytes (sb_options ?t) \<le> sb_resident_size ?t then spill enc ?t else Inr ?t) = Inr s'"
    unfolding buffer_append_def Let_def by (auto simp: bindE_Inr_iff split: if_splits)
  have "sb_total_size s + (?n + 8) \<le> ?limit"
  proof -
    have "sb_total_size s \<le> ?limit - (?n + 8)" using g(3) by (simp add: diff_diff_eq)
    with g(2) show ?thesis by (metis add.commute le_plus word_le_minus_mono_left word_sub_le plus_minus_not_NULL_ab uint_minus_simple_alt)
  qed
  then have h: "buffer_holds ?t rss" using assms(1,2) by (simp add: buffer_holds_def)
  obtain rss' where "buffer_holds s' rss'" "concat rss' @ sb_resident s' = concat rss @ sb_resident ?t" "sb_options s' = sb_options ?t"
    using g(5) h spill_holds [OF h] by (cases "bo_spill_threshold_bytes (sb_options ?t) \<le> sb_resident_size ?t") auto
  moreover have "i = word_of_nat (length (concat rss @ sb_resident s))" using g(4) assms(1) by (simp add: buffer_holds_def)
  ultimately show ?thesis by auto
qed

lemma append_all_holds:
  "buffer_holds s rss \<Longrightarrow> list_all ok rs \<Longrightarrow> append_all enc rs s = Inr (is, s') \<Longrightarrow>
    \<exists>rss'. buffer_holds s' rss' \<and> concat rss' @ sb_resident s' = (concat rss @ sb_resident s) @ rs \<and> sb_options s' = sb_options s
      \<and> is = map word_of_nat [length (concat rss @ sb_resident s) ..< length (concat rss @ sb_resident s) + length rs]"
proof (induction rs arbitrary: s rss "is")
  case (Cons r rs)
  from Cons.prems(3) obtain i t js where t: "buffer_append enc r s = Inr (i, t)" "append_all enc rs t = Inr (js, s')" "is = i # js"
    by (auto simp: bindE_Inr_iff)
  from append_holds [OF Cons.prems(1) _ t(1)] Cons.prems(2) obtain rsst where
    h: "buffer_holds t rsst" "concat rsst @ sb_resident t = (concat rss @ sb_resident s) @ [r]"
      "i = word_of_nat (length (concat rss @ sb_resident s))" "sb_options t = sb_options s" by auto
  have len: "length (concat rsst @ sb_resident t) = Suc (length (concat rss @ sb_resident s))" unfolding h(2) by simp
  from Cons.IH [OF h(1) _ t(2)] Cons.prems(2) obtain rss' where
    "buffer_holds s' rss'" "concat rss' @ sb_resident s' = (concat rsst @ sb_resident t) @ rs" "sb_options s' = sb_options t"
    "js = map word_of_nat [length (concat rsst @ sb_resident t) ..< length (concat rsst @ sb_resident t) + length rs]" by auto
  with h(2-4) t(3) show ?case unfolding len by (intro exI [of _ rss']) (simp add: upt_conv_Cons del: upt_Suc)
qed auto

lemma buffer_is_list:
  assumes "append_all enc rs (new_fact_buffer options) = Inr (is, s)" "list_all ok rs" "length rs < 2 ^ 64"
  shows "is = map word_of_nat [0 ..< length rs] \<and> for_each_in_order dec s = Inr (numbered 0 rs)
    \<and> sb_total_size s \<le> bo_max_total_bytes options"
proof -
  have "buffer_holds (new_fact_buffer options) []" by (simp add: buffer_holds_def new_fact_buffer_def)
  from append_all_holds [OF this assms(2,1)] obtain rss where
    r: "buffer_holds s rss" "concat rss @ sb_resident s = rs" "sb_options s = options" "is = map word_of_nat [0 ..< length rs]"
    by (auto simp: new_fact_buffer_def)
  with for_each_holds [OF r(1)] assms(3) show ?thesis by (simp add: buffer_holds_def)
qed

end

definition symbol_fits :: "SymbolRecord \<Rightarrow> bool" where
  "symbol_fits r \<longleftrightarrow> length (encode_symbol_record r) + 8 < 2 ^ 64"

interpretation symbols: spill_codec encode_symbol_record decode_symbol_record symbol_fits
  by unfold_locales (simp_all add: symbol_fits_def symbol_record_codec)

subsection \<open>Properties\<close>

text \<open>(C27) Symbol records appended to the fact buffer come back in order, each under the index that its append returned and
  with every field, whether they stayed resident or were spilled to segments, and the bytes that are
  accounted for never exceed the limit.\<close>

theorem fact_buffer_is_list:
  assumes "append_all encode_symbol_record rs (new_fact_buffer options) = Inr (is, s)"
    and "list_all symbol_fits rs" "length rs < 2 ^ 64"
  shows "is = map word_of_nat [0 ..< length rs] \<and> for_each_in_order decode_symbol_record s = Inr (numbered 0 rs)
    \<and> sb_total_size s \<le> bo_max_total_bytes options"
  by (rule symbols.buffer_is_list [OF assms])

definition sample_symbol :: "string \<Rightarrow> SymbolRecord" where
  "sample_symbol usr = \<lparr>sr_file = ''a.cpp'', sr_usr = usr, sr_spelling = ''f'', sr_kind = 8, sr_qual_name = Some ''n::f'',
     sr_display_name = None, sr_type_info = None, sr_line = 3, sr_col = 1, sr_end_line = 5, sr_end_col = 2,
     sr_decl_line = Some 1, sr_decl_col = Some 1, sr_decl_path = None, sr_is_definition = True, sr_is_pure = False,
     sr_is_static = False, sr_is_instantiation = False, sr_is_named_instance = False, sr_callable_kind = None,
     sr_template_origin = None, sr_template_form = None, sr_linkage = Some ''external'', sr_access = None,
     sr_parent_usr = None, sr_const_value = None, sr_resolved = True, sr_semantic_universe = [],
     sr_normalized_configuration = [], sr_identity_source = None, sr_identity_translation_unit = None,
     sr_local_anchor = None, sr_kind_name = ''function''\<rparr>"

definition sample_buffer_options :: SpillableFactBufferOptions where
  "sample_buffer_options = \<lparr>bo_family = fam_symbols, bo_spill_threshold_bytes = 500, bo_max_total_bytes = 100000\<rparr>"

lemma sample_symbol_length: "length (encode_symbol_record (sample_symbol usr)) = 322 + length usr"
  by (simp add: encode_symbol_record_def sample_symbol_def append_string_def append_optional_string_def append_optional_i64_def append_u64_wire)

lemma sample_segment_length:
  "length (write_segment_records encode_symbol_record [sample_symbol u, sample_symbol v]) = 660 + length u + length v"
  by (simp add: write_segment_records_def sample_symbol_length)

theorem fact_buffer_is_list_witness:
  "\<exists>is s. append_all encode_symbol_record [sample_symbol ''u'', sample_symbol ''v''] (new_fact_buffer sample_buffer_options) = Inr (is, s)
    \<and> sb_segments s \<noteq> [] \<and> is = [0, 1]
    \<and> for_each_in_order decode_symbol_record s = Inr [(0, sample_symbol ''u''), (1, sample_symbol ''v'')]"
proof -
  let ?rs = "[sample_symbol ''u'', sample_symbol ''v'']"
  have "length kSegmentMagic = 8" by (simp add: kSegmentMagic_def)
  then obtain "is" s where r: "append_all encode_symbol_record ?rs (new_fact_buffer sample_buffer_options) = Inr (is, s)" "sb_segments s \<noteq> []"
    by (simp add: buffer_append_def spill_def Let_def new_fact_buffer_def sample_buffer_options_def sample_symbol_length sample_segment_length)
  have f: "list_all symbol_fits ?rs" by (simp add: symbol_fits_def sample_symbol_length)
  from fact_buffer_is_list [OF r(1) f] r show ?thesis by (auto simp: numbered_def)
qed

end
