(* ===== verification/Identity_Cache.thy ===== *)
theory Identity_Cache
  imports Identity_Index Fact_Identity
begin

text \<open>
  Handles for identities in the fact recorder (\<^verbatim>\<open>ast/fact_batch.cpp\<close>): two generations of cached lookups, hits
  and misses, in front of the spillable index, and the search for a free handle. The search is a partial
  function whose value \<^const>\<open>None\<close> means that it does not end; an exception is \<^const>\<open>Inl\<close>.
\<close>

subsection \<open>Definitions\<close>

record IdentityState =
  id_index :: SpillableIdentityIndex
  id_cache :: "(string \<times> i64 option) list"
  id_previous :: "(string \<times> i64 option) list"

definition new_identities :: "SpillableIdentityIndexOptions \<Rightarrow> IdentityState" where
  "new_identities options = \<lparr>id_index = new_identity_index options, id_cache = [], id_previous = []\<rparr>"

definition resident_identity_key :: "FactIdentityKind \<Rightarrow> string \<Rightarrow> string" where
  "resident_identity_key kind key = [char_of (unat kind), CHR 0x00] @ key"

definition kResidentIdentityCacheGenerationEntries :: nat where
  "kResidentIdentityCacheGenerationEntries = 4096 div 2"

definition cached_identity_lookup :: "FactIdentityKind \<Rightarrow> string \<Rightarrow> IdentityState \<Rightarrow> i64 option option" where
  "cached_identity_lookup kind key st =
     (case map_of (id_cache st) (resident_identity_key kind key) of
        Some v \<Rightarrow> Some v
      | None \<Rightarrow> map_of (id_previous st) (resident_identity_key kind key))"

definition assign :: "string \<Rightarrow> i64 option \<Rightarrow> (string \<times> i64 option) list \<Rightarrow> (string \<times> i64 option) list" where
  "assign k v m = map (\<lambda>e. if fst e = k then (k, v) else e) m"

definition cache_identity :: "FactIdentityKind \<Rightarrow> string \<Rightarrow> i64 option \<Rightarrow> IdentityState \<Rightarrow> IdentityState" where
  "cache_identity kind key handle st =
     (let k = resident_identity_key kind key in
      if map_of (id_cache st) k \<noteq> None then st\<lparr>id_cache := assign k handle (id_cache st)\<rparr>
      else if map_of (id_previous st) k \<noteq> None then st\<lparr>id_previous := assign k handle (id_previous st)\<rparr>
      else let st' = (if length (id_cache st) \<ge> kResidentIdentityCacheGenerationEntries
                      then st\<lparr>id_previous := id_cache st, id_cache := []\<rparr> else st) in
        st'\<lparr>id_cache := (k, handle) # id_cache st'\<rparr>)"

definition lookup_identity :: "FactIdentityKind \<Rightarrow> string \<Rightarrow> IdentityState \<Rightarrow> string + i64 option \<times> IdentityState" where
  "lookup_identity kind key st =
     (case cached_identity_lookup kind key st of
        Some cached \<Rightarrow> Inr (cached, st)
      | None \<Rightarrow> bindE (identity_lookup (id_index st) kind key) (\<lambda>found. Inr (found, cache_identity kind key found st)))"

definition identity_handle_key :: "FactIdentityKind \<Rightarrow> i64 \<Rightarrow> string" where
  "identity_handle_key kind handle = show_nat (unat kind) @ '':'' @ show_int (sint handle)"

definition transient_handle :: "(string \<Rightarrow> 64 word) \<Rightarrow> string \<Rightarrow> u64 \<Rightarrow> i64" where
  "transient_handle primary key attempt =
     ((primary key XOR word_rotl 23 (stable_fact_hash (key @ ''#'' @ show_nat (unat attempt)))) AND handle_mask) OR 1"

text \<open>What one attempt does when the handle is free.\<close>

definition claim_handle :: "FactIdentityKind \<Rightarrow> string \<Rightarrow> i64 \<Rightarrow> IdentityState \<Rightarrow> string + i64 option \<times> IdentityState" where
  "claim_handle kind key handle st = bindE (identity_insert kind key handle (id_index st)) (\<lambda>(result, ix).
     if result \<noteq> identity_inserted then Inr (None, st\<lparr>id_index := ix\<rparr>)
     else let st2 = cache_identity kind key (Some handle) (st\<lparr>id_index := ix\<rparr>) in
       bindE (identity_insert kind_handle (identity_handle_key kind handle) handle (id_index st2)) (\<lambda>(result2, ix2).
         if result2 \<noteq> identity_inserted then Inl ''transient identity handle collision''
         else Inr (Some handle, cache_identity kind_handle (identity_handle_key kind handle) (Some handle) (st2\<lparr>id_index := ix2\<rparr>))))"

definition try_handle :: "FactIdentityKind \<Rightarrow> string \<Rightarrow> i64 \<Rightarrow> IdentityState \<Rightarrow> string + i64 option \<times> IdentityState" where
  "try_handle kind key handle st = bindE (lookup_identity kind_handle (identity_handle_key kind handle) st) (\<lambda>(occupied, st1).
     if occupied \<noteq> None then Inr (None, st1) else claim_handle kind key handle st1)"

partial_function (option) handle_loop ::
  "(string \<Rightarrow> 64 word) \<Rightarrow> FactIdentityKind \<Rightarrow> string \<Rightarrow> u64 \<Rightarrow> IdentityState \<Rightarrow> (string + i64 \<times> IdentityState) option" where
  "handle_loop primary kind key attempt st =
     (case try_handle kind key (transient_handle primary key attempt) st of
        Inl e \<Rightarrow> Some (Inl e)
      | Inr r \<Rightarrow> (case fst r of Some handle \<Rightarrow> Some (Inr (handle, snd r)) | None \<Rightarrow> handle_loop primary kind key (attempt + 1) (snd r)))"

declare handle_loop.simps [code]

definition identity_handle :: "(string \<Rightarrow> 64 word) \<Rightarrow> FactIdentityKind \<Rightarrow> string \<Rightarrow> IdentityState \<Rightarrow>
    (string + i64 \<times> IdentityState) option" where
  "identity_handle primary kind key st =
     (case lookup_identity kind key st of
        Inl e \<Rightarrow> Some (Inl e)
      | Inr (Some found, st') \<Rightarrow> Some (Inr (found, st'))
      | Inr (None, st') \<Rightarrow> handle_loop primary kind key 0 st')"

definition bind_identity :: "FactIdentityKind \<Rightarrow> string \<Rightarrow> i64 \<Rightarrow> IdentityState \<Rightarrow> string + IdentityState" where
  "bind_identity kind key handle st = bindE (lookup_identity kind key st) (\<lambda>(existing, st1).
     if existing \<noteq> None \<and> existing \<noteq> Some handle then Inl ''conflicting transient fact identity''
     else bindE (if existing = None then bindE (identity_insert kind key handle (id_index st1)) (\<lambda>(result, ix).
              if result = identity_conflict then Inl ''conflicting transient fact identity'' else Inr (st1\<lparr>id_index := ix\<rparr>))
            else Inr st1) (\<lambda>st2. Inr (cache_identity kind key (Some handle) st2)))"

subsection \<open>The cache agrees with the index\<close>

lemma resident_key_inject: "resident_identity_key k s = resident_identity_key k' s' \<longleftrightarrow> k = k' \<and> s = s'"
  unfolding resident_identity_key_def append_Cons append_Nil list.inject char_of_byte by blast

definition coherent :: "(string \<times> i64 option) list \<Rightarrow> (identity \<Rightarrow> i64 option) \<Rightarrow> bool" where
  "coherent cache m \<longleftrightarrow> (\<forall>kind key v. map_of cache (resident_identity_key kind key) = Some v \<longrightarrow> v = m (kind, key))"

definition caches_ok :: "IdentityState \<Rightarrow> (identity \<Rightarrow> i64 option) \<Rightarrow> bool" where
  "caches_ok st m \<longleftrightarrow> coherent (id_cache st) m \<and> coherent (id_previous st) m
     \<and> (\<forall>k. map_of (id_cache st) k = None \<or> map_of (id_previous st) k = None)"

abbreviation known :: "IdentityState \<Rightarrow> identity \<Rightarrow> i64 option" where
  "known st \<equiv> index_contents (id_index st)"

definition identities_ok :: "nat \<Rightarrow> IdentityState \<Rightarrow> bool" where
  "identities_ok n st \<longleftrightarrow> index_ok (id_index st) \<and> index_room (id_index st) n \<and> caches_ok st (known st)"

lemma map_of_assign: "map_of (assign k v m) k' = (if k' = k \<and> map_of m k \<noteq> None then Some v else map_of m k')"
  by (induction m) (auto simp: assign_def)

lemma coherent_update:
  "coherent cache m \<Longrightarrow> map_of cache (resident_identity_key kind key) = None \<Longrightarrow> coherent cache (m((kind, key) := v))"
  by (auto simp: coherent_def)

lemma coherent_assign: "coherent cache m \<Longrightarrow> map_of cache (resident_identity_key kind key) \<noteq> None \<Longrightarrow>
    coherent (assign (resident_identity_key kind key) v cache) (m((kind, key) := v))"
  unfolding coherent_def map_of_assign by (auto simp: resident_key_inject)

lemma coherent_Cons: "coherent cache (m((kind, key) := v)) \<Longrightarrow> coherent ((resident_identity_key kind key, v) # cache) (m((kind, key) := v))"
  unfolding coherent_def by (simp add: resident_key_inject) metis

text \<open>Caching the value of an identity repairs the caches after the value has changed.\<close>

lemma cache_identity_ok:
  assumes "caches_ok st m"
  shows "caches_ok (cache_identity kind key v st) (m((kind, key) := v))" "id_index (cache_identity kind key v st) = id_index st"
proof -
  let ?k = "resident_identity_key kind key"
  have "map_of (id_cache st) ?k = None \<or> map_of (id_previous st) ?k = None" using assms by (simp add: caches_ok_def)
  then consider "map_of (id_cache st) ?k \<noteq> None" "map_of (id_previous st) ?k = None"
    | "map_of (id_cache st) ?k = None" "map_of (id_previous st) ?k \<noteq> None"
    | "map_of (id_cache st) ?k = None" "map_of (id_previous st) ?k = None"
    by fastforce
  then show "caches_ok (cache_identity kind key v st) (m((kind, key) := v))"
  proof cases
    case 1
    with assms show ?thesis
      by (simp add: caches_ok_def cache_identity_def Let_def coherent_assign coherent_update map_of_assign)
  next
    case 2
    with assms show ?thesis
      by (simp add: caches_ok_def cache_identity_def Let_def coherent_assign coherent_update map_of_assign)
  next
    case 3
    moreover have "coherent [] m'" for m' by (simp add: coherent_def)
    ultimately show ?thesis using assms
      by (simp add: caches_ok_def cache_identity_def Let_def coherent_Cons coherent_update)
  qed
  show "id_index (cache_identity kind key v st) = id_index st" by (simp add: cache_identity_def Let_def)
qed

lemma cached_agrees:
  assumes "caches_ok st m" "cached_identity_lookup kind key st = Some v"
  shows "v = m (kind, key)"
  using assms by (auto simp: cached_identity_lookup_def caches_ok_def coherent_def split: option.splits)

lemma lookup_identity_ok:
  assumes "identities_ok n st"
  shows "\<exists>st'. lookup_identity kind key st = Inr (known st (kind, key), st') \<and> identities_ok n st' \<and> known st' = known st"
proof (cases "cached_identity_lookup kind key st")
  case None
  have l: "identity_lookup (id_index st) kind key = Inr (known st (kind, key))"
    using assms index.look_contents by (simp add: identities_ok_def)
  have c: "caches_ok st (known st)" using assms by (simp add: identities_ok_def)
  from cache_identity_ok [OF c, of kind key "known st (kind, key)"] None l assms show ?thesis
    by (simp add: lookup_identity_def identities_ok_def)
next
  case (Some v)
  then show ?thesis using assms cached_agrees by (auto simp: lookup_identity_def identities_ok_def)
qed

text \<open>Inserting and caching a new identity.\<close>

lemma insert_identity_ok:
  assumes "identities_ok (Suc n) st" "length key < 2 ^ 64" "identity_insert kind key h (id_index st) = Inr (r, ix)"
    "known st (kind, key) = None"
  shows "r = identity_inserted" "identities_ok n (cache_identity kind key (Some h) (st\<lparr>id_index := ix\<rparr>))"
    "known (cache_identity kind key (Some h) (st\<lparr>id_index := ix\<rparr>)) = (known st)((kind, key) \<mapsto> h)"
proof -
  have i: "(r, index_contents ix) = spec_insert (kind, key) h (known st)" "index_ok ix" "index_room ix n"
    using index.ins_contents [OF _ _ assms(2,3)] assms(1) by (auto simp: identities_ok_def)
  then show "r = identity_inserted" using assms(4) by (simp add: spec_insert_def)
  have m: "index_contents ix = (known st)((kind, key) \<mapsto> h)" using i(1) assms(4) by (simp add: spec_insert_def)
  have "caches_ok (st\<lparr>id_index := ix\<rparr>) (known st)" using assms(1) by (simp add: identities_ok_def caches_ok_def)
  from cache_identity_ok [OF this, of kind key "Some h"] i(2,3) m
  show "identities_ok n (cache_identity kind key (Some h) (st\<lparr>id_index := ix\<rparr>))"
    "known (cache_identity kind key (Some h) (st\<lparr>id_index := ix\<rparr>)) = (known st)((kind, key) \<mapsto> h)"
    by (simp_all add: identities_ok_def)
qed

subsection \<open>Handles are unique\<close>

text \<open>Kinds whose identities get their handles from the search only; file identities are also bound to given handles.\<close>

definition searched :: "FactIdentityKind \<Rightarrow> bool" where
  "searched kind \<longleftrightarrow> kind \<noteq> kind_file \<and> kind \<noteq> kind_handle"

definition unique_handles :: "(identity \<Rightarrow> i64 option) \<Rightarrow> bool" where
  "unique_handles m \<longleftrightarrow> (\<forall>kind key h. searched kind \<and> m (kind, key) = Some h \<longrightarrow>
     m (kind_handle, identity_handle_key kind h) \<noteq> None \<and> (\<forall>key'. m (kind, key') = Some h \<longrightarrow> key' = key))"

lemma length_show_nat: "length (show_nat n) \<le> Suc n"
proof (induction n rule: show_nat.induct)
  case (1 n)
  show ?case
  proof (cases "n < 10")
    case False
    then have "length (show_nat (n div 10)) \<le> Suc (n div 10)" using 1 by simp
    with False show ?thesis by (subst show_nat.simps) simp
  qed (simp add: show_nat.simps)
qed

lemma length_handle_key: "length (identity_handle_key kind h) < 2 ^ 64"
proof -
  have k: "unat kind < 256" using unsigned_less [of kind, where ?'a = nat] by simp
  have s: "nat \<bar>sint h\<bar> \<le> 2 ^ 63" using sint_ge [of h] sint_lt [of h] by simp
  have l: "length (show_int i) \<le> nat \<bar>i\<bar> + 2" for i
    using length_show_nat [of "nat (- i)"] length_show_nat [of "nat i"] by (auto simp: show_int_def)
  show ?thesis
    using length_show_nat [of "unat kind"] l [of "sint h"] k s by (simp add: identity_handle_key_def)
qed

lemma claim_handle_inserted:
  "identity_insert kind key h (id_index st) = Inr (identity_inserted, ix) \<Longrightarrow>
   claim_handle kind key h st = (let st2 = cache_identity kind key (Some h) (st\<lparr>id_index := ix\<rparr>) in
       bindE (identity_insert kind_handle (identity_handle_key kind h) h (id_index st2)) (\<lambda>(result2, ix2).
         if result2 \<noteq> identity_inserted then Inl ''transient identity handle collision''
         else Inr (Some h, cache_identity kind_handle (identity_handle_key kind h) (Some h) (st2\<lparr>id_index := ix2\<rparr>))))"
  by (simp add: claim_handle_def)

lemma claim_handle_split:
  assumes "identity_insert kind key h (id_index st) = Inr (identity_inserted, ix)" "claim_handle kind key h st = Inr (r, st')"
  defines "st2 \<equiv> cache_identity kind key (Some h) (st\<lparr>id_index := ix\<rparr>)"
  obtains q2 ix2 where "identity_insert kind_handle (identity_handle_key kind h) h (id_index st2) = Inr (q2, ix2)" "r = Some h"
    "st' = cache_identity kind_handle (identity_handle_key kind h) (Some h) (st2\<lparr>id_index := ix2\<rparr>)"
proof (cases "identity_insert kind_handle (identity_handle_key kind h) h (id_index st2)")
  case (Inr p)
  with assms(2) that show ?thesis
    unfolding claim_handle_inserted [OF assms(1)] Let_def st2_def [symmetric] by (cases p) (auto split: if_splits)
next
  case (Inl e)
  with assms(2) show ?thesis unfolding claim_handle_inserted [OF assms(1)] Let_def st2_def [symmetric] by simp
qed

lemma unique_handles_new:
  assumes "unique_handles m" "searched kind" "m (kind, key) = None" "m (kind_handle, identity_handle_key kind h) = None"
  shows "unique_handles (m((kind, key) \<mapsto> h, (kind_handle, identity_handle_key kind h) \<mapsto> h))"
proof -
  have "m (kind, key') \<noteq> Some h" for key' using assms(1,2,4) unfolding unique_handles_def by blast
  with assms show ?thesis by (auto simp: unique_handles_def searched_def)
qed

lemma try_handle_ok:
  assumes "identities_ok (Suc (Suc n)) st" "length key < 2 ^ 64" "searched kind" "known st (kind, key) = None"
    and "try_handle kind key h st = Inr (r, st')"
  shows "(r = None \<and> known st' = known st \<and> identities_ok (Suc (Suc n)) st') \<or>
    (r = Some h \<and> identities_ok n st' \<and> known st (kind_handle, identity_handle_key kind h) = None
      \<and> known st' = (known st)((kind, key) \<mapsto> h, (kind_handle, identity_handle_key kind h) \<mapsto> h))"
proof -
  obtain st1 where l: "lookup_identity kind_handle (identity_handle_key kind h) st = Inr (known st (kind_handle, identity_handle_key kind h), st1)"
      "identities_ok (Suc (Suc n)) st1" "known st1 = known st"
    using lookup_identity_ok [OF assms(1)] by blast
  show ?thesis
  proof (cases "known st (kind_handle, identity_handle_key kind h)")
    case (Some o')
    with l assms(5) show ?thesis by (simp add: try_handle_def)
  next
    case None
    then have c: "claim_handle kind key h st1 = Inr (r, st')" using l assms(5) by (simp add: try_handle_def)
    then obtain q ix where i: "identity_insert kind key h (id_index st1) = Inr (q, ix)" by (auto simp: claim_handle_def bindE_Inr_iff)
    have "known st1 (kind, key) = None" using assms(4) l(3) by simp
    note j = insert_identity_ok [OF l(2) assms(2) i this]
    let ?st2 = "cache_identity kind key (Some h) (st1\<lparr>id_index := ix\<rparr>)"
    have hk: "known ?st2 (kind_handle, identity_handle_key kind h) = None"
      using None assms(3) unfolding j(3) l(3) by (auto simp: searched_def)
    obtain q2 ix2 where i2: "identity_insert kind_handle (identity_handle_key kind h) h (id_index ?st2) = Inr (q2, ix2)"
        "r = Some h" "st' = cache_identity kind_handle (identity_handle_key kind h) (Some h) (?st2\<lparr>id_index := ix2\<rparr>)"
      using claim_handle_split [OF i [unfolded j(1)] c] by blast
    from insert_identity_ok(2,3) [OF j(2) length_handle_key i2(1) hk] i2(2,3) j(3) l(3) None show ?thesis by simp
  qed
qed

text \<open>What a search that returns has done: a handle unused before is the handle of the key, and nothing else changes.\<close>

definition handle_taken :: "FactIdentityKind \<Rightarrow> string \<Rightarrow> i64 \<Rightarrow> (identity \<Rightarrow> i64 option) \<Rightarrow> (identity \<Rightarrow> i64 option) \<Rightarrow> bool" where
  "handle_taken kind key h m m' \<longleftrightarrow> m (kind_handle, identity_handle_key kind h) = None
     \<and> m' = m((kind, key) \<mapsto> h, (kind_handle, identity_handle_key kind h) \<mapsto> h)"

lemma handle_loop_ok:
  assumes "handle_loop primary kind key attempt st = Some res"
    and "identities_ok (Suc (Suc n)) st" "length key < 2 ^ 64" "searched kind" "known st (kind, key) = None" "res = Inr (h, st')"
  shows "identities_ok n st' \<and> handle_taken kind key h (known st) (known st')"
  using assms
proof (induction rule: handle_loop.raw_induct [rotated, consumes 1, case_names 1])
  case (1 loop primary kind key attempt st res)
  let ?h = "transient_handle primary key attempt"
  obtain r st1 where t: "try_handle kind key ?h st = Inr (r, st1)"
    using 1(2,7) by (auto split: sum.splits)
  note ok = try_handle_ok [OF 1(3-6) t]
  show ?case
  proof (cases r)
    case None
    then have "loop primary kind key (attempt + 1) st1 = Some res" using 1(2) t by simp
    moreover have "known st1 = known st" "identities_ok (Suc (Suc n)) st1" using ok None by auto
    ultimately show ?thesis using 1(1) [of primary kind key "attempt + 1" st1 res] 1(4-7) by simp
  next
    case (Some h')
    then have "res = Inr (h', st1)" using 1(2) t by simp
    then have "h' = h" "st1 = st'" using 1(7) by simp_all
    moreover from this ok Some have e: "?h = h" by auto
    ultimately show ?thesis using ok [unfolded e] Some unfolding handle_taken_def by simp
  qed
qed

text \<open>The search ends when the handle of some attempt is unused; an exception of the index also ends it.\<close>

lemma handle_loop_ends:
  assumes "identities_ok (Suc (Suc n)) st" "length key < 2 ^ 64" "searched kind" "known st (kind, key) = None"
    and "known st (kind_handle, identity_handle_key kind (transient_handle primary key (attempt + of_nat k))) = None"
  shows "handle_loop primary kind key attempt st \<noteq> None"
  using assms
proof (induction k arbitrary: attempt st)
  case 0
  let ?h = "transient_handle primary key attempt"
  show ?case
  proof (cases "try_handle kind key ?h st")
    case (Inl e)
    then show ?thesis by (simp add: handle_loop.simps [of primary kind key attempt st])
  next
    case (Inr p)
    then obtain r st1 where t: "try_handle kind key ?h st = Inr (r, st1)" by (cases p) auto
    obtain st2 where l: "lookup_identity kind_handle (identity_handle_key kind ?h) st = Inr (None, st2)"
        "identities_ok (Suc (Suc n)) st2" "known st2 = known st"
      using lookup_identity_ok [OF 0(1), of kind_handle "identity_handle_key kind ?h"] 0(5) by auto
    then have c: "claim_handle kind key ?h st2 = Inr (r, st1)" using t by (simp add: try_handle_def)
    then obtain q ix where i: "identity_insert kind key ?h (id_index st2) = Inr (q, ix)" by (auto simp: claim_handle_def bindE_Inr_iff)
    have f: "known st2 (kind, key) = None" using 0(4) l(3) by simp
    have "r = Some ?h" using claim_handle_split [OF i [unfolded insert_identity_ok(1) [OF l(2) 0(2) i f]] c] by blast
    then show ?thesis using t by (simp add: handle_loop.simps [of primary kind key attempt st])
  qed
next
  case (Suc k)
  let ?h = "transient_handle primary key attempt"
  show ?case
  proof (cases "try_handle kind key ?h st")
    case (Inl e)
    then show ?thesis by (simp add: handle_loop.simps [of primary kind key attempt st])
  next
    case (Inr p)
    then obtain r st1 where t: "try_handle kind key ?h st = Inr (r, st1)" by (cases p) auto
    show ?thesis
    proof (cases r)
      case (Some h')
      then show ?thesis using t by (simp add: handle_loop.simps [of primary kind key attempt st])
    next
      case None
      then have s: "known st1 = known st" "identities_ok (Suc (Suc n)) st1" using try_handle_ok [OF Suc(2-5) t] by auto
      have "handle_loop primary kind key (attempt + 1) st1 \<noteq> None"
        using Suc.IH [OF s(2) Suc.prems(2,3), of "attempt + 1"] Suc.prems(4,5) unfolding s(1) by (simp add: add.assoc)
      then show ?thesis using t None by (simp add: handle_loop.simps [of primary kind key attempt st])
    qed
  qed
qed

lemma identity_handle_ok:
  assumes "identity_handle primary kind key st = Some (Inr (h, st'))"
    and "identities_ok (Suc (Suc n)) st" "length key < 2 ^ 64" "searched kind" "unique_handles (known st)"
  shows "identities_ok n st' \<and> unique_handles (known st') \<and> known st' (kind, key) = Some h
    \<and> (\<forall>kind' key' h'. searched kind' \<and> known st (kind', key') = Some h' \<longrightarrow> known st' (kind', key') = Some h')"
proof -
  obtain st1 where l: "lookup_identity kind key st = Inr (known st (kind, key), st1)" "identities_ok (Suc (Suc n)) st1" "known st1 = known st"
    using lookup_identity_ok [OF assms(2)] by blast
  show ?thesis
  proof (cases "known st (kind, key)")
    case None
    then have "handle_loop primary kind key 0 st1 = Some (Inr (h, st'))" using assms(1) l(1) by (simp add: identity_handle_def)
    from handle_loop_ok [OF this l(2) assms(3,4) _ refl] None l(3)
    have t: "identities_ok n st'" "handle_taken kind key h (known st) (known st')" by auto
    then have "unique_handles (known st')" using unique_handles_new [OF assms(5,4) None] by (simp add: handle_taken_def)
    with t None assms(4) show ?thesis by (auto simp: handle_taken_def searched_def)
  next
    case (Some h')
    then have "h' = h" "st' = st1" using assms(1) l(1) by (simp_all add: identity_handle_def)
    moreover have "identities_ok n st1" using l(2) by (simp add: identities_ok_def index_room_def)
    ultimately show ?thesis using Some l(3) assms(5) by simp
  qed
qed

text \<open>A sequence of requests for handles.\<close>

fun identity_handles :: "(string \<Rightarrow> 64 word) \<Rightarrow> identity list \<Rightarrow> IdentityState \<Rightarrow> (string + i64 list \<times> IdentityState) option" where
  "identity_handles primary [] st = Some (Inr ([], st))"
| "identity_handles primary (i # is) st =
     (case identity_handle primary (fst i) (snd i) st of
        Some (Inr (h, st')) \<Rightarrow>
          (case identity_handles primary is st' of
             Some (Inr (hs, st'')) \<Rightarrow> Some (Inr (h # hs, st''))
           | other \<Rightarrow> other)
      | Some (Inl e) \<Rightarrow> Some (Inl e)
      | None \<Rightarrow> None)"

lemma identity_handles_ok:
  assumes "identity_handles primary is st = Some (Inr (hs, st'))" "identities_ok (2 * length is) st" "unique_handles (known st)"
    "\<forall>i\<in>set is. searched (fst i) \<and> length (snd i) < 2 ^ 64"
  shows "unique_handles (known st') \<and> length hs = length is \<and> (\<forall>j<length is. known st' (is ! j) = Some (hs ! j))
    \<and> (\<forall>kind' key' h'. searched kind' \<and> known st (kind', key') = Some h' \<longrightarrow> known st' (kind', key') = Some h')"
  using assms
proof (induction "is" arbitrary: st hs)
  case (Cons i "is")
  obtain h st1 where h: "identity_handle primary (fst i) (snd i) st = Some (Inr (h, st1))"
    using Cons.prems(1) by (auto split: option.splits sum.splits)
  then obtain hs' where r: "identity_handles primary is st1 = Some (Inr (hs', st'))" "hs = h # hs'"
    using Cons.prems(1) by (auto split: option.splits sum.splits)
  have n: "identities_ok (Suc (Suc (2 * length is))) st" using Cons.prems(2) by simp
  have "identities_ok (2 * length is) st1 \<and> unique_handles (known st1) \<and> known st1 (fst i, snd i) = Some h
    \<and> (\<forall>kind' key' h'. searched kind' \<and> known st (kind', key') = Some h' \<longrightarrow> known st1 (kind', key') = Some h')"
    using identity_handle_ok [OF h n _ _ Cons.prems(3)] Cons.prems(4) by simp
  note k = this Cons.IH [OF r(1)]
  then have t: "unique_handles (known st')" "length hs' = length is" "\<forall>j<length is. known st' (is ! j) = Some (hs' ! j)"
      "\<forall>kind' key' h'. searched kind' \<and> known st1 (kind', key') = Some h' \<longrightarrow> known st' (kind', key') = Some h'"
    using Cons.prems(4) by simp_all
  moreover have "known st' i = Some h" using k(1) t(4) Cons.prems(4) by (cases i) auto
  ultimately show ?case using k(1) r(2) by (auto simp: nth_Cons split: nat.split)
qed simp

lemma new_identities_ok:
  assumes "n < 2 ^ 64"
  shows "identities_ok n (new_identities options)" "unique_handles (known (new_identities options))"
proof -
  have new: "index_ok (new_identity_index options)" "index_contents (new_identity_index options) = (\<lambda>_. None)"
    using new_index_holds [of options] contents_holds [OF new_index_holds] by (auto simp: index_ok_def new_identity_index_def)
  then show "unique_handles (known (new_identities options))" by (simp add: new_identities_def unique_handles_def)
  have "index_room (new_identity_index options) n"
    using assms by (simp add: index_room_def new_identity_index_def spilled_entries_def)
  with new show "identities_ok n (new_identities options)"
    by (simp add: identities_ok_def new_identities_def caches_ok_def coherent_def)
qed

definition roomy_options :: SpillableIdentityIndexOptions where
  "roomy_options = \<lparr>io_max_resident_identity_bytes = 1000, io_max_identity_entries = 10, io_max_identity_runs = 8, io_max_total_bytes = 1000\<rparr>"

definition sample_identity_requests :: "identity list" where
  "sample_identity_requests = [(0, ''a''), (0, ''b''), (0, ''a'')]"

lemma sample_handles:
  "transient_handle (\<lambda>_. 0) ''a'' 0 = 2920164038068422955" "transient_handle (\<lambda>_. 0) ''b'' 0 = 2919470372957712647"
  by code_simp+

lemma sample_handle_keys:
  "identity_handle_key 0 2920164038068422955 = ''0:2920164038068422955''" "identity_handle_key 0 2919470372957712647 = ''0:2919470372957712647''"
  by (simp_all add: identity_handle_key_def show_int_def show_nat.simps digit_char_def, code_simp+)

lemmas run_sample = identity_handle_def lookup_identity_def cached_identity_lookup_def new_identities_def new_identity_index_def
  identity_lookup_def cache_identity_def Let_def resident_identity_key_def assign_def kResidentIdentityCacheGenerationEntries_def
  try_handle_def claim_handle_def identity_insert_def too_full_def roomy_options_def kind_handle_def handle_loop.simps

lemma sample_run: "\<exists>hs st. identity_handles (\<lambda>_. 0) sample_identity_requests (new_identities roomy_options) = Some (Inr (hs, st))"
  by (simp add: sample_identity_requests_def run_sample sample_handles sample_handle_keys)

text \<open>
  (C12) The search gives equal handles exactly to equal identities: in a recorder that starts fresh, whatever the primary
  hash, two requests for the same searched kind get the same handle if and only if they have the same key, also after
  entries have left the caches and the index has spilled.
\<close>

theorem handles_identify_keys:
  assumes "identity_handles primary is (new_identities options) = Some (Inr (hs, st))"
    "2 * length is < 2 ^ 64" "\<forall>i\<in>set is. searched (fst i) \<and> length (snd i) < 2 ^ 64"
    and "j < length is" "k < length is" "fst (is ! j) = fst (is ! k)"
  shows "hs ! j = hs ! k \<longleftrightarrow> snd (is ! j) = snd (is ! k)"
proof -
  have n: "identities_ok (2 * length is) (new_identities options)" "unique_handles (known (new_identities options))"
    using new_identities_ok assms(2) by blast+
  have s: "searched (fst (is ! j))" using assms(3,4) by simp
  have u: "unique_handles (known st)" "known st (fst (is ! j), snd (is ! j)) = Some (hs ! j)"
      "known st (fst (is ! j), snd (is ! k)) = Some (hs ! k)"
    using identity_handles_ok [OF assms(1) n assms(3)] assms(4-6) by (auto simp: prod.collapse) (metis prod.collapse)
  show ?thesis
  proof
    assume "hs ! j = hs ! k"
    then show "snd (is ! j) = snd (is ! k)" using u s unfolding unique_handles_def by metis
  next
    assume "snd (is ! j) = snd (is ! k)"
    then show "hs ! j = hs ! k" using u(2,3) by simp
  qed
qed

theorem handles_identify_keys_witness:
  "\<exists>hs st. identity_handles (\<lambda>_. 0) sample_identity_requests (new_identities roomy_options) = Some (Inr (hs, st))
    \<and> hs ! 0 = hs ! 2 \<and> hs ! 0 \<noteq> hs ! 1"
proof -
  obtain hs st where r: "identity_handles (\<lambda>_. 0) sample_identity_requests (new_identities roomy_options) = Some (Inr (hs, st))"
    using sample_run by blast
  have f: "2 * length sample_identity_requests < 2 ^ 64" "\<forall>i\<in>set sample_identity_requests. searched (fst i) \<and> length (snd i) < 2 ^ 64"
    by (simp_all add: sample_identity_requests_def searched_def kind_file_def kind_handle_def)
  from handles_identify_keys [OF r f, of 0 2] handles_identify_keys [OF r f, of 0 1] r show ?thesis
    by (simp add: sample_identity_requests_def)
qed

end
