(* ===== verification/Fact_Recorder.thy ===== *)
theory Fact_Recorder
  imports Batch_Builder Spill_Buffer Identity_Cache
begin

text \<open>
  The recorder of facts (\<^verbatim>\<open>FactBatchRecorder\<close> in \<^verbatim>\<open>ast/fact_batch.cpp\<close>): its state, every operation that
  extraction calls on it, and the batches it builds. An operation is a function on the state with
  three outcomes: a result, the text of an exception, and no return (the search for a free handle
  has no bound in the code). Unordered maps are functions; a missing bucket is an empty one, and a
  counter that was never noted is zero.
\<close>

subsection \<open>State\<close>

record TypeArgCandidate =
  tc_id :: i64
  tc_kind_name :: string
  tc_is_instantiation :: bool

record MintRequest =
  mr_usr :: string
  mr_spelling :: string
  mr_qual_name :: string
  mr_display_name :: string
  mr_type_info :: "string option"
  mr_kind_name :: string
  mr_decl_file_id :: "i64 option"
  mr_decl_line :: "i64 option"
  mr_decl_col :: "i64 option"
  mr_decl_path :: "string option"
  mr_is_instantiation :: bool
  mr_is_named_instance :: bool
  mr_identity_source :: "string option"
  mr_linkage :: "string option"
  mr_callable_kind :: "string option"
  mr_template_origin :: "string option"
  mr_template_form :: "string option"
  mr_parent_usr :: "string option"

record ExtractionFactLimits =
  xl_spill_threshold_bytes :: u64
  xl_max_total_bytes :: u64
  xl_max_resident_identity_bytes :: u64
  xl_max_identity_entries :: u64

record DeferredExternalIdentity =
  dx_enabled :: bool
  dx_translation_unit_path :: string

record FactBatchOperationCounters =
  oc_calls :: "string \<Rightarrow> u64"
  oc_records_touched :: "string \<Rightarrow> u64"

record FactBatchRecorder =
  rc_producer :: string
  rc_completeness :: FactCompleteness
  rc_current_partition :: FactPartitionKey
  rc_partitions_by_file_handle :: "(i64 \<times> FactPartitionKey) list"
  rc_facts :: RecordedFacts
  rc_symbol_order :: "SymbolEmissionMetadata list"
  rc_primary_hasher :: "string \<Rightarrow> 64 word"
  rc_deferred_external_identity :: DeferredExternalIdentity
  rc_pending_symbol_references :: "PendingSymbolReference list"
  rc_external_ids_by_key :: "string \<Rightarrow> i64 option"
  rc_symbol_ids_by_source_usr :: "string \<Rightarrow> i64 option"
  rc_symbol_ids_by_scope_usr :: "string \<Rightarrow> i64 list"
  rc_symbol_positions_by_id :: "i64 \<Rightarrow> nat list"
  rc_candidates_by_name :: "string \<Rightarrow> TypeArgCandidate list"
  rc_candidate_keys_by_name :: "string \<Rightarrow> string list"
  rc_candidates_by_qualified_name :: "string \<Rightarrow> TypeArgCandidate list"
  rc_candidate_keys_by_qualified_name :: "string \<Rightarrow> string list"
  rc_symbol_ids_by_qualified_name_kind :: "string \<Rightarrow> i64 list"
  rc_symbol_id_keys_by_qualified_name_kind :: "string \<Rightarrow> i64 list"
  rc_edge_positions_by_key :: "string \<Rightarrow> nat option"
  rc_body_edge_positions_by_source :: "i64 \<Rightarrow> nat list"
  rc_definition_ids_by_key :: "string \<Rightarrow> i64 option"
  rc_definition_partitions_by_id :: "i64 \<Rightarrow> FactPartitionKey option"
  rc_display_names :: "i64 \<Rightarrow> string option"
  rc_next_emission_order :: u64
  rc_counters :: FactBatchOperationCounters
  rc_identities :: IdentityState
  rc_fact_payload :: "SymbolRecord SpillableFactBuffer"

subsection \<open>Operations with a state\<close>

type_synonym 'a recorder = "FactBatchRecorder \<Rightarrow> (string + 'a \<times> FactBatchRecorder) option"

definition retP :: "'a \<Rightarrow> 'a recorder" where
  "retP x r = Some (Inr (x, r))"

definition throwP :: "string \<Rightarrow> 'a recorder" where
  "throwP e r = Some (Inl e)"

definition bindP :: "'a recorder \<Rightarrow> ('a \<Rightarrow> 'b recorder) \<Rightarrow> 'b recorder" where
  "bindP p f r = (case p r of None \<Rightarrow> None | Some (Inl e) \<Rightarrow> Some (Inl e) | Some (Inr (x, r')) \<Rightarrow> f x r')"

definition thenP :: "'a recorder \<Rightarrow> 'b recorder \<Rightarrow> 'b recorder" where
  "thenP p q = bindP p (\<lambda>_. q)"

definition modP :: "(FactBatchRecorder \<Rightarrow> FactBatchRecorder) \<Rightarrow> unit recorder" where
  "modP f r = Some (Inr ((), f r))"

definition readP :: "(FactBatchRecorder \<Rightarrow> 'a) \<Rightarrow> 'a recorder" where
  "readP f r = Some (Inr (f r, r))"

definition lookup_id :: "FactIdentityKind \<Rightarrow> string \<Rightarrow> i64 option recorder" where
  "lookup_id kind key r =
     (case lookup_identity kind key (rc_identities r) of
        Inl e \<Rightarrow> Some (Inl e)
      | Inr (found, st) \<Rightarrow> Some (Inr (found, r\<lparr>rc_identities := st\<rparr>)))"

definition handle_for :: "FactIdentityKind \<Rightarrow> string \<Rightarrow> i64 recorder" where
  "handle_for kind key r =
     (case identity_handle (rc_primary_hasher r) kind key (rc_identities r) of
        None \<Rightarrow> None
      | Some (Inl e) \<Rightarrow> Some (Inl e)
      | Some (Inr (h, st)) \<Rightarrow> Some (Inr (h, r\<lparr>rc_identities := st\<rparr>)))"

definition bind_id :: "FactIdentityKind \<Rightarrow> string \<Rightarrow> i64 \<Rightarrow> unit recorder" where
  "bind_id kind key h r =
     (case bind_identity kind key h (rc_identities r) of
        Inl e \<Rightarrow> Some (Inl e)
      | Inr st \<Rightarrow> Some (Inr ((), r\<lparr>rc_identities := st\<rparr>)))"

definition note_counter :: "string \<Rightarrow> nat \<Rightarrow> FactBatchOperationCounters \<Rightarrow> FactBatchOperationCounters" where
  "note_counter operation touched c =
     \<lparr>oc_calls = (oc_calls c)(operation := oc_calls c operation + 1),
      oc_records_touched = (oc_records_touched c)(operation := oc_records_touched c operation + word_of_nat touched)\<rparr>"

definition note_op :: "string \<Rightarrow> nat \<Rightarrow> FactBatchRecorder \<Rightarrow> FactBatchRecorder" where
  "note_op operation touched = rc_counters_update (note_counter operation touched)"

definition touched :: "string \<Rightarrow> nat \<Rightarrow> FactBatchRecorder \<Rightarrow> FactBatchRecorder" where
  "touched operation n = rc_counters_update (\<lambda>c. c\<lparr>oc_records_touched :=
     (oc_records_touched c)(operation := oc_records_touched c operation + word_of_nat n)\<rparr>)"

subsection \<open>Set-up\<close>

definition no_facts :: RecordedFacts where
  "no_facts = \<lparr>rf_symbols = [], rf_declaration_sites = [], rf_relations = [], rf_edge_sites = [], rf_call_args = [],
     rf_template_params = [], rf_template_args = [], rf_type_nodes = [], rf_type_edges = [], rf_parameter_buckets = [],
     rf_symbol_types = [], rf_definitions = [], rf_definition_edges = [], rf_includes = [], rf_macros = [],
     rf_diagnostics = [], rf_evidence = [], rf_presentation_intents = [], rf_lifecycle_cleanup = [], rf_applicability = []\<rparr>"

definition empty_partition :: FactPartitionKey where
  "empty_partition =
     \<lparr>pk_file = \<lparr>pf_component_path = [], pf_directory_path = [], pf_file_name = []\<rparr>,
      pk_configuration = \<lparr>ci_semantic_universe = [], ci_translation_unit = [], ci_normalized_configuration = [],
        ci_identity_source = [], ci_content = \<lparr>cc_driver = None, cc_working_dir = None, cc_arguments = [],
        cc_lang_mode = None, cc_resource_dir = None\<rparr>\<rparr>\<rparr>"

definition identity_options :: "ExtractionFactLimits \<Rightarrow> SpillableIdentityIndexOptions" where
  "identity_options limits =
     \<lparr>io_max_resident_identity_bytes = xl_max_resident_identity_bytes limits,
      io_max_identity_entries = xl_max_identity_entries limits, io_max_identity_runs = 8,
      io_max_total_bytes = xl_max_total_bytes limits\<rparr>"

definition payload_options :: "ExtractionFactLimits \<Rightarrow> SpillableFactBufferOptions" where
  "payload_options limits =
     \<lparr>bo_family = fam_symbols, bo_spill_threshold_bytes = xl_spill_threshold_bytes limits,
      bo_max_total_bytes = xl_max_total_bytes limits\<rparr>"

definition set_extraction_limits :: "ExtractionFactLimits \<Rightarrow> FactBatchRecorder \<Rightarrow> FactBatchRecorder" where
  "set_extraction_limits limits r =
     r\<lparr>rc_identities := new_identities (identity_options limits), rc_fact_payload := new_fact_buffer (payload_options limits)\<rparr>"

definition default_limits :: ExtractionFactLimits where
  "default_limits = \<lparr>xl_spill_threshold_bytes = 64 * 1024 * 1024, xl_max_total_bytes = 512 * 1024 * 1024,
     xl_max_resident_identity_bytes = 32 * 1024 * 1024, xl_max_identity_entries = 1000000\<rparr>"

definition new_recorder :: "string \<Rightarrow> (string \<Rightarrow> 64 word) \<Rightarrow> FactBatchRecorder" where
  "new_recorder producer primary_hasher =
     \<lparr>rc_producer = producer, rc_completeness = fact_complete, rc_current_partition = empty_partition,
      rc_partitions_by_file_handle = [], rc_facts = no_facts, rc_symbol_order = [], rc_primary_hasher = primary_hasher,
      rc_deferred_external_identity = \<lparr>dx_enabled = False, dx_translation_unit_path = []\<rparr>,
      rc_pending_symbol_references = [], rc_external_ids_by_key = Map.empty, rc_symbol_ids_by_source_usr = Map.empty,
      rc_symbol_ids_by_scope_usr = (\<lambda>_. []), rc_symbol_positions_by_id = (\<lambda>_. []), rc_candidates_by_name = (\<lambda>_. []),
      rc_candidate_keys_by_name = (\<lambda>_. []), rc_candidates_by_qualified_name = (\<lambda>_. []),
      rc_candidate_keys_by_qualified_name = (\<lambda>_. []), rc_symbol_ids_by_qualified_name_kind = (\<lambda>_. []),
      rc_symbol_id_keys_by_qualified_name_kind = (\<lambda>_. []), rc_edge_positions_by_key = Map.empty,
      rc_body_edge_positions_by_source = (\<lambda>_. []), rc_definition_ids_by_key = Map.empty,
      rc_definition_partitions_by_id = Map.empty, rc_display_names = Map.empty, rc_next_emission_order = 0,
      rc_counters = \<lparr>oc_calls = (\<lambda>_. 0), oc_records_touched = (\<lambda>_. 0)\<rparr>,
      rc_identities = new_identities (identity_options default_limits),
      rc_fact_payload = new_fact_buffer (payload_options default_limits)\<rparr>"

definition set_completeness :: "FactCompleteness \<Rightarrow> FactBatchRecorder \<Rightarrow> FactBatchRecorder" where
  "set_completeness completeness r = r\<lparr>rc_completeness := completeness\<rparr>"

definition set_deferred_external_identity :: "DeferredExternalIdentity \<Rightarrow> FactBatchRecorder \<Rightarrow> FactBatchRecorder" where
  "set_deferred_external_identity deferral r = r\<lparr>rc_deferred_external_identity := deferral\<rparr>"

subsection \<open>Partitions\<close>

definition record_sep :: string where
  "record_sep = [CHR 0x1E]"

definition file_path_identity_key :: "string \<Rightarrow> ConfigurationIdentity \<Rightarrow> string" where
  "file_path_identity_key path c =
     ''path:'' @ path @ record_sep @ ci_semantic_universe c @ record_sep @ ci_translation_unit c @ record_sep
     @ ci_normalized_configuration c @ record_sep @ ci_identity_source c"

definition file_source_identity_key :: "string \<Rightarrow> ConfigurationIdentity \<Rightarrow> string" where
  "file_source_identity_key path c = ''path-source:'' @ path @ record_sep @ ci_identity_source c"

definition file_unscoped_identity_key :: "string \<Rightarrow> string" where
  "file_unscoped_identity_key path = ''path:'' @ path"

definition register_partition :: "i64 \<Rightarrow> FactPartitionKey \<Rightarrow> FactBatchRecorder \<Rightarrow> FactBatchRecorder" where
  "register_partition handle part =
     rc_partitions_by_file_handle_update (bucket handle_rank handle (\<lambda>_. part) part)"

text \<open>Binding the path keys of a partition to a handle.\<close>

definition bind_missing :: "string \<Rightarrow> i64 \<Rightarrow> unit recorder" where
  "bind_missing key handle = bindP (lookup_id kind_file key) (\<lambda>found.
     if found = None then bind_id kind_file key handle else retP ())"

definition bind_paths :: "FactPartitionKey \<Rightarrow> i64 \<Rightarrow> unit recorder" where
  "bind_paths part handle =
     (let path = portable_path (pk_file part) in
      if path = [] then retP ()
      else thenP (bind_id kind_file (file_path_identity_key path (pk_configuration part)) handle)
          (thenP (bind_missing (file_source_identity_key path (pk_configuration part)) handle)
            (bind_missing (file_unscoped_identity_key path) handle)))"

definition set_partition :: "FactPartitionKey \<Rightarrow> i64 option \<Rightarrow> unit recorder" where
  "set_partition part transient_file_handle =
     thenP (modP (rc_current_partition_update (\<lambda>_. part)))
       (bindP (handle_for kind_file (''file:'' @ partition_string part)) (\<lambda>natural_handle.
          thenP (modP (register_partition natural_handle part))
            (case transient_file_handle of
               Some handle \<Rightarrow> thenP (modP (register_partition handle part)) (bind_paths part handle)
             | None \<Rightarrow> bind_paths part natural_handle)))"

definition partition_for_file_handle :: "i64 \<Rightarrow> FactBatchRecorder \<Rightarrow> FactPartitionKey" where
  "partition_for_file_handle file_id r =
     (case map_of (rc_partitions_by_file_handle r) file_id of None \<Rightarrow> rc_current_partition r | Some part \<Rightarrow> part)"

definition is_separator :: "char \<Rightarrow> bool" where
  "is_separator c \<longleftrightarrow> c = CHR ''/'' \<or> c = CHR 0x5C"

definition file_identity_from_path :: "string \<Rightarrow> string \<Rightarrow> PortableFileIdentity" where
  "file_identity_from_path value component_path =
     (let n = length component_path;
          within = component_path \<noteq> [] \<and> length value > n \<and> take n value = component_path \<and> is_separator (value ! n);
          relative = (if within then drop (n + 1) value else value);
          file = rev (takeWhile (\<lambda>c. \<not> is_separator c) (rev relative))
      in \<lparr>pf_component_path = (if within then component_path else []),
          pf_directory_path = take (length relative - length file - 1) relative,
          pf_file_name = file\<rparr>)"

text \<open>The configuration that a symbol states overrides the one of the current partition.\<close>

definition stated_configuration :: "SymbolRecord \<Rightarrow> ConfigurationIdentity \<Rightarrow> ConfigurationIdentity" where
  "stated_configuration symbol c0 =
     (let c1 = (if sr_semantic_universe symbol \<noteq> [] then c0\<lparr>ci_semantic_universe := sr_semantic_universe symbol\<rparr> else c0);
          c2 = (if sr_normalized_configuration symbol \<noteq> []
                then c1\<lparr>ci_normalized_configuration := sr_normalized_configuration symbol\<rparr> else c1);
          c3 = (case sr_identity_source symbol of
                  Some source \<Rightarrow> c2\<lparr>ci_identity_source := source\<rparr>
                | None \<Rightarrow> if ci_identity_source c2 = [] then c2\<lparr>ci_identity_source := sr_file symbol\<rparr> else c2)
      in case sr_identity_translation_unit symbol of
           Some unit \<Rightarrow> c3\<lparr>ci_translation_unit := unit\<rparr>
         | None \<Rightarrow> c3)"

definition partition_for_symbol :: "SymbolRecord \<Rightarrow> FactPartitionKey recorder" where
  "partition_for_symbol symbol = bindP (readP rc_current_partition) (\<lambda>current.
     let c = stated_configuration symbol (pk_configuration current); result = current\<lparr>pk_configuration := c\<rparr>;
         file = sr_file symbol
     in if file = [] \<or> portable_path (pk_file result) = file then retP result
        else bindP (lookup_id kind_file (file_path_identity_key file c)) (\<lambda>by_path. case by_path of
          Some handle \<Rightarrow> readP (partition_for_file_handle handle)
        | None \<Rightarrow> bindP (lookup_id kind_file (file_source_identity_key file c)) (\<lambda>by_source. case by_source of
            Some handle \<Rightarrow> readP (partition_for_file_handle handle)
          | None \<Rightarrow> bindP (lookup_id kind_file (file_unscoped_identity_key file)) (\<lambda>unscoped. case unscoped of
              Some handle \<Rightarrow> readP (partition_for_file_handle handle)
            | None \<Rightarrow> retP (result\<lparr>pk_file := file_identity_from_path file (pf_component_path (pk_file result))\<rparr>)))))"

definition set_current_file_id :: "i64 \<Rightarrow> FactBatchRecorder \<Rightarrow> FactBatchRecorder" where
  "set_current_file_id file_id r = r\<lparr>rc_current_partition := partition_for_file_handle file_id r\<rparr>"

definition set_identity_translation_unit_file_id :: "i64 \<Rightarrow> FactBatchRecorder \<Rightarrow> FactBatchRecorder" where
  "set_identity_translation_unit_file_id file_id r =
     r\<lparr>rc_current_partition := (rc_current_partition r)\<lparr>pk_configuration := (pk_configuration (rc_current_partition r))
       \<lparr>ci_translation_unit := portable_path (pk_file (partition_for_file_handle file_id r))\<rparr>\<rparr>\<rparr>"

definition set_identity_translation_unit_config_id :: "i64 \<Rightarrow> FactBatchRecorder \<Rightarrow> FactBatchRecorder" where
  "set_identity_translation_unit_config_id translation_unit_file_id r =
     (if sint translation_unit_file_id \<ge> 0 then set_identity_translation_unit_file_id translation_unit_file_id r else r)"

subsection \<open>Symbols\<close>

abbreviation routed :: "FactPartitionKey \<Rightarrow> 'a \<Rightarrow> 'a RoutedRecord" where
  "routed part record \<equiv> \<lparr>ro_partition = part, ro_record = record\<rparr>"

definition kind_names :: "(nat \<times> string) list" where
  "kind_names = [(2, ''struct''), (3, ''union''), (4, ''class''), (5, ''enum''), (6, ''member''), (7, ''enum-constant''),
     (8, ''function''), (9, ''variable''), (20, ''typedef''), (21, ''method''), (22, ''namespace''), (24, ''constructor''),
     (25, ''destructor''), (30, ''function-template''), (31, ''class-template''), (36, ''type-alias'')]"

definition cidx_kind_name_from_int :: "32 word \<Rightarrow> string option" where
  "cidx_kind_name_from_int kind = map_of kind_names (unat kind)"

definition cidx_kind_int_from_name :: "string \<Rightarrow> 32 word" where
  "cidx_kind_int_from_name name =
     (case List.find (\<lambda>kind. cidx_kind_name_from_int kind = Some name) (map (word_of_nat \<circ> fst) kind_names) of
        Some kind \<Rightarrow> kind
      | None \<Rightarrow> - 1)"

definition natural_key :: "SymbolRecord \<Rightarrow> FactPartitionKey \<Rightarrow> SymbolNaturalKey" where
  "natural_key symbol part =
     \<lparr>sk_partition = part, sk_usr = sr_usr symbol, sk_local_anchor = sr_local_anchor symbol, sk_linkage = sr_linkage symbol\<rparr>"

definition newline :: string where
  "newline = [CHR 0x0A]"

definition source_lookup_key :: "FactPartitionKey \<Rightarrow> string \<Rightarrow> string \<Rightarrow> string" where
  "source_lookup_key part source usr =
     ci_semantic_universe (pk_configuration part) @ newline @ ci_translation_unit (pk_configuration part) @ newline
     @ source @ newline @ usr"

definition scope_lookup_key :: "FactPartitionKey \<Rightarrow> string \<Rightarrow> string" where
  "scope_lookup_key part usr =
     ci_semantic_universe (pk_configuration part) @ newline @ ci_translation_unit (pk_configuration part) @ newline @ usr"

definition name_kind_key :: "string \<Rightarrow> string \<Rightarrow> string" where
  "name_kind_key name kind = name @ newline @ kind"

definition candidate_key :: "TypeArgCandidate \<Rightarrow> string" where
  "candidate_key candidate = to_string (tc_id candidate) @ '':'' @ tc_kind_name candidate @ '':''
     @ (if tc_is_instantiation candidate then ''1'' else ''0'')"

text \<open>A vector and the set of the keys of its elements, at one index.\<close>

definition indexed_unique :: "'i \<Rightarrow> 'k \<Rightarrow> 'v \<Rightarrow> ('i \<Rightarrow> 'v list) \<times> ('i \<Rightarrow> 'k list) \<Rightarrow> ('i \<Rightarrow> 'v list) \<times> ('i \<Rightarrow> 'k list)" where
  "indexed_unique i key value vk =
     (case vk of (values, membership) \<Rightarrow>
        if key \<in> set (membership i) then (values, membership)
        else (values(i := values i @ [value]), membership(i := key # membership i)))"

definition append_candidate :: "string \<Rightarrow> TypeArgCandidate \<Rightarrow> FactBatchRecorder \<Rightarrow> FactBatchRecorder" where
  "append_candidate name candidate r =
     (case indexed_unique name (candidate_key candidate) candidate (rc_candidates_by_name r, rc_candidate_keys_by_name r) of
        (values, membership) \<Rightarrow> note_op ''emit_candidate_membership'' 1
          (r\<lparr>rc_candidates_by_name := values, rc_candidate_keys_by_name := membership\<rparr>))"

definition append_qualified_candidate :: "string \<Rightarrow> TypeArgCandidate \<Rightarrow> FactBatchRecorder \<Rightarrow> FactBatchRecorder" where
  "append_qualified_candidate name candidate r =
     (case indexed_unique name (candidate_key candidate) candidate
         (rc_candidates_by_qualified_name r, rc_candidate_keys_by_qualified_name r) of
        (values, membership) \<Rightarrow> note_op ''emit_candidate_membership'' 1
          (r\<lparr>rc_candidates_by_qualified_name := values, rc_candidate_keys_by_qualified_name := membership\<rparr>))"

definition append_qualified_id :: "string \<Rightarrow> i64 \<Rightarrow> FactBatchRecorder \<Rightarrow> FactBatchRecorder" where
  "append_qualified_id qualified_kind symbol_id r =
     (case indexed_unique qualified_kind symbol_id symbol_id
         (rc_symbol_ids_by_qualified_name_kind r, rc_symbol_id_keys_by_qualified_name_kind r) of
        (values, membership) \<Rightarrow> note_op ''emit_candidate_membership'' 1
          (r\<lparr>rc_symbol_ids_by_qualified_name_kind := values, rc_symbol_id_keys_by_qualified_name_kind := membership\<rparr>))"

definition push_symbol :: "FactPartitionKey \<Rightarrow> i64 \<Rightarrow> SymbolRecord \<Rightarrow> FactBatchRecorder \<Rightarrow> FactBatchRecorder" where
  "push_symbol part symbol_id symbol r =
     (let position = length (rf_symbols (rc_facts r)) in
      r\<lparr>rc_facts := rf_symbols_update (\<lambda>xs. xs @ [routed part symbol]) (rc_facts r),
        rc_symbol_positions_by_id := (rc_symbol_positions_by_id r)(symbol_id := rc_symbol_positions_by_id r symbol_id @ [position]),
        rc_display_names := (case sr_display_name symbol of
          Some display \<Rightarrow> (rc_display_names r)(symbol_id \<mapsto> display) | None \<Rightarrow> rc_display_names r)\<rparr>)"

definition index_usr :: "FactPartitionKey \<Rightarrow> i64 \<Rightarrow> SymbolRecord \<Rightarrow> FactBatchRecorder \<Rightarrow> FactBatchRecorder" where
  "index_usr part symbol_id symbol r =
     (let source = (case sr_identity_source symbol of Some s \<Rightarrow> s | None \<Rightarrow> sr_file symbol);
          source_key = source_lookup_key part source (sr_usr symbol); scope_key = scope_lookup_key part (sr_usr symbol)
      in r\<lparr>rc_symbol_ids_by_source_usr := (if rc_symbol_ids_by_source_usr r source_key = None
             then (rc_symbol_ids_by_source_usr r)(source_key \<mapsto> symbol_id) else rc_symbol_ids_by_source_usr r),
           rc_symbol_ids_by_scope_usr := (rc_symbol_ids_by_scope_usr r)
             (scope_key := List.insert symbol_id (rc_symbol_ids_by_scope_usr r scope_key))\<rparr>)"

definition index_names :: "i64 \<Rightarrow> SymbolRecord \<Rightarrow> FactBatchRecorder \<Rightarrow> FactBatchRecorder" where
  "index_names symbol_id symbol r =
     (let kind = (if sr_kind_name symbol = []
            then (case cidx_kind_name_from_int (sr_kind symbol) of Some name \<Rightarrow> name | None \<Rightarrow> []) else sr_kind_name symbol);
          candidate = \<lparr>tc_id = symbol_id, tc_kind_name = kind, tc_is_instantiation = sr_is_instantiation symbol\<rparr>;
          r1 = append_candidate (sr_spelling symbol) candidate r
      in case sr_qual_name symbol of
           None \<Rightarrow> r1
         | Some name \<Rightarrow> append_qualified_id (name_kind_key name kind) symbol_id (append_qualified_candidate name candidate r1))"

definition push_order :: "FactPartitionKey \<Rightarrow> i64 \<Rightarrow> SymbolRecord \<Rightarrow> FactBatchRecorder \<Rightarrow> FactBatchRecorder" where
  "push_order part symbol_id symbol r =
     (let emission = rc_next_emission_order r in
      r\<lparr>rc_next_emission_order := emission + 1,
        rc_symbol_order := rc_symbol_order r @
          [\<lparr>em_symbol = natural_key symbol part,
            em_apply_order = \<lparr>ao_component_path = pf_component_path (pk_file part),
              ao_directory_path = pf_directory_path (pk_file part), ao_file_name = pf_file_name (pk_file part),
              ao_first_seen = emission,
              ao_conflict_ordinal = word_of_nat (length (rc_symbol_positions_by_id r symbol_id) - 1)\<rparr>,
            em_record_key = symbol_record_key symbol, em_first_seen = emission, em_last_seen = emission\<rparr>]\<rparr>)"

definition append_payload :: "SymbolRecord \<Rightarrow> unit recorder" where
  "append_payload symbol r =
     (case buffer_append encode_symbol_record symbol (rc_fact_payload r) of
        Inl e \<Rightarrow> Some (Inl e)
      | Inr (index, payload) \<Rightarrow> Some (Inr ((), r\<lparr>rc_fact_payload := payload\<rparr>)))"

definition emit_symbol :: "SymbolRecord \<Rightarrow> unit recorder" where
  "emit_symbol symbol = bindP (partition_for_symbol symbol) (\<lambda>part.
     bindP (handle_for kind_symbol (''symbol:'' @ symbol_string (natural_key symbol part))) (\<lambda>symbol_id.
       thenP (append_payload symbol)
         (modP (note_op ''emit_symbol'' 0 \<circ> push_order part symbol_id symbol \<circ> index_names symbol_id symbol
            \<circ> index_usr part symbol_id symbol \<circ> push_symbol part symbol_id symbol))))"

subsection \<open>Records that are kept as they come\<close>

definition emit_evidence :: "EvidenceRecord \<Rightarrow> FactBatchRecorder \<Rightarrow> FactBatchRecorder" where
  "emit_evidence record r = note_op ''emit_evidence'' 0
     (r\<lparr>rc_facts := rf_evidence_update (\<lambda>xs. xs @ [routed (rc_current_partition r) record]) (rc_facts r)\<rparr>)"

definition emit_declaration_site :: "DeclarationSiteRecord \<Rightarrow> FactBatchRecorder \<Rightarrow> FactBatchRecorder" where
  "emit_declaration_site record r = note_op ''emit_declaration_site'' 0
     (r\<lparr>rc_facts := rf_declaration_sites_update (\<lambda>xs. xs @ [routed (ds_partition record) record]) (rc_facts r)\<rparr>)"

definition emit_include :: "IncludeDirectiveRecord \<Rightarrow> FactBatchRecorder \<Rightarrow> FactBatchRecorder" where
  "emit_include record r = note_op ''emit_include'' 0
     (r\<lparr>rc_facts := rf_includes_update (\<lambda>xs. xs @ [routed (dr_partition record) record]) (rc_facts r)\<rparr>)"

definition emit_macro :: "MacroUseRecord \<Rightarrow> FactBatchRecorder \<Rightarrow> FactBatchRecorder" where
  "emit_macro record r = note_op ''emit_macro'' 0
     (r\<lparr>rc_facts := rf_macros_update (\<lambda>xs. xs @ [routed (mu_partition record) record]) (rc_facts r)\<rparr>)"

definition emit_diagnostic :: "DiagnosticFactRecord \<Rightarrow> FactBatchRecorder \<Rightarrow> FactBatchRecorder" where
  "emit_diagnostic record r = note_op ''emit_diagnostic'' 0
     (r\<lparr>rc_facts := rf_diagnostics_update (\<lambda>xs. xs @ [routed (dg_partition record) record]) (rc_facts r)\<rparr>)"

definition emit_lifecycle_cleanup :: "LifecycleCleanupIntent \<Rightarrow> FactBatchRecorder \<Rightarrow> FactBatchRecorder" where
  "emit_lifecycle_cleanup record r = note_op ''emit_lifecycle_cleanup'' 0
     (r\<lparr>rc_facts := rf_lifecycle_cleanup_update (\<lambda>xs. xs @ [routed (lc_partition record) record]) (rc_facts r)\<rparr>)"

definition emit_applicability :: "ApplicabilityOwnershipRecord \<Rightarrow> FactBatchRecorder \<Rightarrow> FactBatchRecorder" where
  "emit_applicability record r = note_op ''emit_applicability'' 0
     (r\<lparr>rc_facts := rf_applicability_update (\<lambda>xs. xs @ [routed (ap_partition record) record]) (rc_facts r)\<rparr>)"

definition emit_presentation_intent :: "PresentationIntent \<Rightarrow> FactBatchRecorder \<Rightarrow> FactBatchRecorder" where
  "emit_presentation_intent intent r = note_op ''emit_presentation_intent'' 0
     (r\<lparr>rc_facts := rf_presentation_intents_update (\<lambda>xs. xs @ [routed (rc_current_partition r) intent]) (rc_facts r)\<rparr>)"

definition add_edge_site :: "EdgeSiteRecord \<Rightarrow> FactBatchRecorder \<Rightarrow> FactBatchRecorder" where
  "add_edge_site site r = note_op ''add_edge_site'' 0
     (r\<lparr>rc_facts := rf_edge_sites_update (\<lambda>xs. xs @ [routed (partition_for_file_handle (es_file_id site) r) site]) (rc_facts r)\<rparr>)"

definition add_call_arg :: "CallArgRecord \<Rightarrow> FactBatchRecorder \<Rightarrow> FactBatchRecorder" where
  "add_call_arg arg r = note_op ''add_call_arg'' 0
     (r\<lparr>rc_facts := rf_call_args_update (\<lambda>xs. xs @ [routed (partition_for_file_handle (ca_file_id arg) r) arg]) (rc_facts r)\<rparr>)"

definition add_template_param :: "TemplateParamRecord \<Rightarrow> FactBatchRecorder \<Rightarrow> FactBatchRecorder" where
  "add_template_param param r = note_op ''add_template_param'' 0
     (r\<lparr>rc_facts := rf_template_params_update (\<lambda>xs. xs @ [routed (rc_current_partition r) param]) (rc_facts r)\<rparr>)"

definition add_template_arg :: "TemplateArgRecord \<Rightarrow> FactBatchRecorder \<Rightarrow> FactBatchRecorder" where
  "add_template_arg arg r = note_op ''add_template_arg'' 0
     (r\<lparr>rc_facts := rf_template_args_update (\<lambda>xs. xs @ [routed (rc_current_partition r) arg]) (rc_facts r)\<rparr>)"

definition add_type_edge :: "i64 \<Rightarrow> i64 \<Rightarrow> i64 \<Rightarrow> i64 \<Rightarrow> FactBatchRecorder \<Rightarrow> FactBatchRecorder" where
  "add_type_edge src_id kind position dst_id r = note_op ''add_type_edge'' 0
     (r\<lparr>rc_facts := rf_type_edges_update (\<lambda>xs. xs @ [routed (rc_current_partition r)
        \<lparr>te_src_id = src_id, te_kind = kind, te_position = position, te_dst_id = dst_id\<rparr>]) (rc_facts r)\<rparr>)"

definition replace_parameters :: "i64 \<Rightarrow> ParameterRecord list \<Rightarrow> FactBatchRecorder \<Rightarrow> FactBatchRecorder" where
  "replace_parameters owner_id parameters r = note_op ''replace_parameters'' (length parameters)
     (r\<lparr>rc_facts := rf_parameter_buckets_update
        (bucket handle_rank owner_id (\<lambda>_. (rc_current_partition r, parameters)) (rc_current_partition r, parameters)) (rc_facts r)\<rparr>)"

definition add_symbol_type :: "i64 \<Rightarrow> i64 \<Rightarrow> i64 \<Rightarrow> FactBatchRecorder \<Rightarrow> FactBatchRecorder" where
  "add_symbol_type symbol_id kind type_id r = note_op ''add_symbol_type'' 0
     (r\<lparr>rc_facts := rf_symbol_types_update (\<lambda>xs. xs @ [routed (rc_current_partition r)
        \<lparr>st_symbol_id = symbol_id, st_kind = kind, st_type_id = type_id\<rparr>]) (rc_facts r)\<rparr>)"

definition delete_edges_for_file :: "i64 \<Rightarrow> FactBatchRecorder \<Rightarrow> FactBatchRecorder" where
  "delete_edges_for_file file_id r =
     (let part = partition_for_file_handle file_id r in
      emit_lifecycle_cleanup \<lparr>lc_partition = part, lc_kind = cleanup_relations, lc_target = pk_file part,
        lc_prior_generation = \<lparr>fg_token = []\<rparr>\<rparr> r)"

definition delete_definitions_for_file :: "i64 \<Rightarrow> FactBatchRecorder \<Rightarrow> FactBatchRecorder" where
  "delete_definitions_for_file file_id r =
     (let part = partition_for_file_handle file_id r in
      emit_lifecycle_cleanup \<lparr>lc_partition = part, lc_kind = cleanup_definitions, lc_target = pk_file part,
        lc_prior_generation = \<lparr>fg_token = []\<rparr>\<rparr> r)"

subsection \<open>Looking up symbols\<close>

definition symbol_at :: "FactBatchRecorder \<Rightarrow> nat \<Rightarrow> SymbolRecord" where
  "symbol_at r position = ro_record (rf_symbols (rc_facts r) ! position)"

definition source_independent_symbol_id :: "string \<Rightarrow> i64 option recorder" where
  "source_independent_symbol_id usr r =
     (case rc_symbol_ids_by_scope_usr r (scope_lookup_key (rc_current_partition r) usr) of
        [candidate] \<Rightarrow>
          (case rc_symbol_positions_by_id r candidate of
             [] \<Rightarrow> retP None r
           | position # _ \<Rightarrow>
               if sr_linkage (symbol_at r position) = Some ''internal'' \<or> sr_linkage (symbol_at r position) = Some ''no-linkage''
               then retP None r
               else retP (Some candidate) (touched ''lookup_symbol_exact'' 2 r))
      | _ \<Rightarrow> retP None r)"

definition local_lookup :: "string \<Rightarrow> string option \<Rightarrow> i64 option recorder" where
  "local_lookup usr source r =
     (case source of
        Some s \<Rightarrow>
          (case rc_symbol_ids_by_source_usr r (source_lookup_key (rc_current_partition r) s usr) of
             Some found \<Rightarrow> retP (Some found) (touched ''lookup_symbol_exact'' 1 r)
           | None \<Rightarrow> source_independent_symbol_id usr r)
      | None \<Rightarrow>
          (case rc_symbol_ids_by_scope_usr r (scope_lookup_key (rc_current_partition r) usr) of
             [] \<Rightarrow> retP None r
           | [found] \<Rightarrow> retP (Some found) (touched ''lookup_symbol_sourceless'' 1 r)
           | _ \<Rightarrow> throwP (''ambiguous symbol USR within translation unit: '' @ usr) r))"

definition reference_string :: "PendingSymbolReference \<Rightarrow> string" where
  "reference_string reference = ps_semantic_universe reference @ unit_sep @ ps_translation_unit reference @ unit_sep
     @ ps_identity_source reference @ unit_sep @ ps_usr reference"

definition external_reference :: "FactBatchRecorder \<Rightarrow> string \<Rightarrow> string option \<Rightarrow> PendingSymbolReference" where
  "external_reference r usr source =
     (let c = pk_configuration (rc_current_partition r) in
      \<lparr>ps_handle = 0, ps_usr = usr, ps_identity_source = (case source of Some s \<Rightarrow> s | None \<Rightarrow> []),
       ps_semantic_universe = ci_semantic_universe c, ps_translation_unit = ci_translation_unit c\<rparr>)"

definition push_reference :: "PendingSymbolReference \<Rightarrow> i64 \<Rightarrow> FactBatchRecorder \<Rightarrow> FactBatchRecorder" where
  "push_reference reference handle r =
     r\<lparr>rc_external_ids_by_key := (rc_external_ids_by_key r)(reference_string reference \<mapsto> handle),
       rc_pending_symbol_references := rc_pending_symbol_references r @ [reference\<lparr>ps_handle := handle\<rparr>]\<rparr>"

definition defer_external_symbol :: "string \<Rightarrow> string option \<Rightarrow> i64 option recorder" where
  "defer_external_symbol usr source r =
     (let deferral = rc_deferred_external_identity r; reference = external_reference r usr source in
      if \<not> dx_enabled deferral \<or> source = Some (dx_translation_unit_path deferral) then retP None r
      else case rc_external_ids_by_key r (reference_string reference) of
        Some found \<Rightarrow> retP (Some found) (touched ''defer_external_symbol'' 1 r)
      | None \<Rightarrow> bindP (handle_for kind_symbol (''external:'' @ reference_string reference)) (\<lambda>handle.
          thenP (modP (note_op ''defer_external_symbol'' 0 \<circ> push_reference reference handle)) (retP (Some handle))) r)"

definition resolve_symbol_id :: "string \<Rightarrow> string option \<Rightarrow> bool \<Rightarrow> i64 option recorder" where
  "resolve_symbol_id usr identity_source allow_deferral =
     (let source = (if identity_source = Some [] then None else identity_source) in
      thenP (modP (note_op (if source \<noteq> None then ''lookup_symbol_exact'' else ''lookup_symbol_sourceless'') 0))
        (bindP (local_lookup usr source) (\<lambda>found.
           if found \<noteq> None then retP found
           else if allow_deferral then defer_external_symbol usr source else retP None)))"

definition lookup_symbol_id :: "string \<Rightarrow> string option \<Rightarrow> i64 option recorder" where
  "lookup_symbol_id usr identity_source = resolve_symbol_id usr identity_source True"

definition file_id_for_path :: "string \<Rightarrow> i64 option recorder" where
  "file_id_for_path path = thenP (modP (note_op ''lookup_file'' 0))
     (bindP (readP (pk_configuration \<circ> rc_current_partition)) (\<lambda>c.
        bindP (lookup_id kind_file (file_path_identity_key path c)) (\<lambda>by_path.
          if by_path \<noteq> None then retP by_path
          else bindP (lookup_id kind_file (file_source_identity_key path c)) (\<lambda>by_source.
            if by_source \<noteq> None then retP by_source
            else lookup_id kind_file (file_unscoped_identity_key path)))))"

definition type_arg_candidates :: "string \<Rightarrow> bool \<Rightarrow> TypeArgCandidate list recorder" where
  "type_arg_candidates name qualified r =
     (let found = (if qualified then rc_candidates_by_qualified_name r else rc_candidates_by_name r) name in
      retP found (touched ''type_arg_candidates'' (length found) (note_op ''type_arg_candidates'' 0 r)))"

definition symbol_ids_by_qual_name_kind :: "string \<Rightarrow> string \<Rightarrow> i64 list recorder" where
  "symbol_ids_by_qual_name_kind qual_name kind_name r =
     (let found = rc_symbol_ids_by_qualified_name_kind r (name_kind_key qual_name kind_name) in
      retP found (touched ''symbol_ids_by_qual_name_kind'' (length found) (note_op ''symbol_ids_by_qual_name_kind'' 0 r)))"

definition lookup_display_name :: "i64 \<Rightarrow> string option recorder" where
  "lookup_display_name symbol_id r = retP (rc_display_names r symbol_id) (note_op ''lookup_display_name'' 0 r)"

subsection \<open>Changing symbols\<close>

text \<open>A changed record at a position, with its key in the emission order.\<close>

definition set_symbol :: "SymbolRecord \<Rightarrow> nat \<Rightarrow> FactBatchRecorder \<Rightarrow> FactBatchRecorder" where
  "set_symbol record position r =
     r\<lparr>rc_facts := rf_symbols_update (\<lambda>xs. xs[position := (xs ! position)\<lparr>ro_record := record\<rparr>]) (rc_facts r),
       rc_symbol_order := (if position < length (rc_symbol_order r)
         then (rc_symbol_order r)[position := (rc_symbol_order r ! position)\<lparr>em_record_key := symbol_record_key record\<rparr>]
         else rc_symbol_order r)\<rparr>"

definition change_symbols :: "(SymbolRecord \<Rightarrow> SymbolRecord) \<Rightarrow> nat list \<Rightarrow> FactBatchRecorder \<Rightarrow> FactBatchRecorder" where
  "change_symbols f places r = foldl (\<lambda>r position. set_symbol (f (symbol_at r position)) position r) r places"

definition update_display_name :: "i64 \<Rightarrow> string \<Rightarrow> FactBatchRecorder \<Rightarrow> FactBatchRecorder" where
  "update_display_name symbol_id display r =
     (let places = rc_symbol_positions_by_id r symbol_id in
      change_symbols (sr_display_name_update (\<lambda>_. Some display)) places
        (note_op ''update_display_name'' (length places)
          (r\<lparr>rc_display_names := (rc_display_names r)(symbol_id \<mapsto> display)\<rparr>)))"

definition fill :: "'a option \<Rightarrow> 'a option \<Rightarrow> 'a option" where
  "fill present given = (if present = None \<and> given \<noteq> None then given else present)"

definition nonempty :: "string \<Rightarrow> string option" where
  "nonempty s = (if s = [] then None else Some s)"

definition merge_mint_enrichment :: "MintRequest \<Rightarrow> SymbolRecord \<Rightarrow> SymbolRecord" where
  "merge_mint_enrichment request record = record
     \<lparr>sr_qual_name := fill (sr_qual_name record) (nonempty (mr_qual_name request)),
      sr_display_name := fill (sr_display_name record) (nonempty (mr_display_name request)),
      sr_type_info := fill (sr_type_info record) (mr_type_info request),
      sr_callable_kind := fill (sr_callable_kind record) (mr_callable_kind request),
      sr_template_origin := fill (sr_template_origin record) (mr_template_origin request),
      sr_template_form := fill (sr_template_form record) (mr_template_form request),
      sr_linkage := fill (sr_linkage record) (mr_linkage request),
      sr_parent_usr := fill (sr_parent_usr record) (mr_parent_usr request),
      sr_decl_path := fill (sr_decl_path record) (mr_decl_path request),
      sr_is_instantiation := sr_is_instantiation record \<or> mr_is_instantiation request,
      sr_is_named_instance := sr_is_named_instance record \<or> mr_is_named_instance request\<rparr>"

definition mint_identity_source :: "MintRequest \<Rightarrow> string option" where
  "mint_identity_source request =
     (let given = mr_identity_source request; path = mr_decl_path request;
          source = (if (given = None \<or> given = Some []) \<and> path \<noteq> None \<and> path \<noteq> Some [] then path else given)
      in if source = Some [] then None else source)"

definition declared :: "MintRequest \<Rightarrow> SymbolRecord \<Rightarrow> SymbolRecord" where
  "declared request record = record\<lparr>sr_decl_line := mr_decl_line request, sr_decl_col := mr_decl_col request\<rparr>"

definition bare_declaration :: "string \<Rightarrow> SymbolRecord \<Rightarrow> SymbolRecord" where
  "bare_declaration file record = record
     \<lparr>sr_file := (if file \<noteq> [] then file else sr_file record), sr_line := 0, sr_col := 0, sr_end_line := 0, sr_end_col := 0,
      sr_is_definition := False, sr_resolved := False\<rparr>"

definition add_mint_declaration :: "nat list \<Rightarrow> MintRequest \<Rightarrow> unit recorder" where
  "add_mint_declaration places request r =
     (if mr_decl_line request = None \<or> places = [] \<or> list_ex (\<lambda>position. sr_decl_line (symbol_at r position) \<noteq> None) places
      then retP () r
      else let file = (case mr_decl_file_id request of
                  Some file_id \<Rightarrow> portable_path (pk_file (partition_for_file_handle file_id r)) | None \<Rightarrow> []) in
        case List.find (\<lambda>position. sint (sr_line (symbol_at r position)) > 0 \<and> (file = [] \<or> sr_file (symbol_at r position) = file)) places of
          Some position \<Rightarrow> modP (set_symbol (declared request (symbol_at r position)) position) r
        | None \<Rightarrow> emit_symbol (declared request (bare_declaration file (symbol_at r (hd places)))) r)"

definition enrich_minted_symbol :: "i64 \<Rightarrow> MintRequest \<Rightarrow> unit recorder" where
  "enrich_minted_symbol symbol_id request r =
     (let places = rc_symbol_positions_by_id r symbol_id in
      add_mint_declaration places request (change_symbols (merge_mint_enrichment request) places r))"

definition minted_symbol :: "MintRequest \<Rightarrow> string option \<Rightarrow> FactBatchRecorder \<Rightarrow> SymbolRecord" where
  "minted_symbol request source r = blank_symbol
     \<lparr>sr_file := portable_path (pk_file (case mr_decl_file_id request of
         Some file_id \<Rightarrow> partition_for_file_handle file_id r | None \<Rightarrow> rc_current_partition r)),
      sr_usr := mr_usr request, sr_spelling := mr_spelling request,
      sr_kind := cidx_kind_int_from_name (mr_kind_name request),
      sr_qual_name := Some (mr_qual_name request), sr_display_name := Some (mr_display_name request),
      sr_type_info := mr_type_info request, sr_decl_line := mr_decl_line request, sr_decl_col := mr_decl_col request,
      sr_decl_path := mr_decl_path request, sr_is_instantiation := mr_is_instantiation request,
      sr_is_named_instance := mr_is_named_instance request, sr_linkage := mr_linkage request,
      sr_callable_kind := mr_callable_kind request, sr_template_origin := mr_template_origin request,
      sr_template_form := mr_template_form request, sr_identity_source := source, sr_kind_name := mr_kind_name request\<rparr>"

definition create_minted_symbol :: "MintRequest \<Rightarrow> string option \<Rightarrow> i64 recorder" where
  "create_minted_symbol request source = bindP (readP (minted_symbol request source)) (\<lambda>symbol.
     thenP (emit_symbol symbol) (bindP (resolve_symbol_id (mr_usr request) source False) (\<lambda>created. case created of
       Some symbol_id \<Rightarrow> retP symbol_id
     | None \<Rightarrow> throwP ''minted symbol is not indexed'')))"

definition mint_symbol :: "MintRequest \<Rightarrow> i64 recorder" where
  "mint_symbol request =
     (let source = mint_identity_source request in
      bindP (resolve_symbol_id (mr_usr request) source False) (\<lambda>existing. case existing of
        Some symbol_id \<Rightarrow> thenP (enrich_minted_symbol symbol_id request) (retP symbol_id)
      | None \<Rightarrow> create_minted_symbol request source))"

subsection \<open>Relations, types and definitions\<close>

definition edge_key :: "EdgeRecord \<Rightarrow> string" where
  "edge_key edge = to_string (er_src_id edge) @ '':'' @ to_string (er_dst_id edge) @ '':'' @ to_string (er_kind edge) @ '':''
     @ optional_text_int (er_base_access edge) @ '':'' @ optional_text_int (er_is_virtual edge)"

definition edge_natural :: "EdgeRecord \<Rightarrow> FactBatchRecorder \<Rightarrow> string" where
  "edge_natural edge r = partition_string (rc_current_partition r) @ edge_key edge"

definition count_edge :: "i64 \<Rightarrow> nat \<Rightarrow> FactBatchRecorder \<Rightarrow> FactBatchRecorder" where
  "count_edge n position r = r\<lparr>rc_facts := rf_relations_update (\<lambda>xs. xs[position :=
     (xs ! position)\<lparr>ro_record := (ro_record (xs ! position))\<lparr>er_count := er_count (ro_record (xs ! position)) + n\<rparr>\<rparr>]) (rc_facts r)\<rparr>"

definition push_edge :: "EdgeRecord \<Rightarrow> string \<Rightarrow> FactBatchRecorder \<Rightarrow> FactBatchRecorder" where
  "push_edge edge natural r =
     (let position = length (rf_relations (rc_facts r)); body = rc_body_edge_positions_by_source r in
      r\<lparr>rc_edge_positions_by_key := (rc_edge_positions_by_key r)(natural \<mapsto> position),
        rc_facts := rf_relations_update (\<lambda>xs. xs @ [routed (rc_current_partition r) edge]) (rc_facts r),
        rc_body_edge_positions_by_source := (if er_kind edge = 1 \<or> er_kind edge = 7
          then body(er_src_id edge := body (er_src_id edge) @ [position]) else body)\<rparr>)"

definition add_edge :: "EdgeRecord \<Rightarrow> i64 recorder" where
  "add_edge edge = bindP (readP (edge_natural edge)) (\<lambda>natural. bindP (readP rc_edge_positions_by_key) (\<lambda>known_edges.
     case known_edges natural of
       Some position \<Rightarrow> thenP (modP (note_op ''add_edge'' 1 \<circ> count_edge (er_count edge) position))
         (handle_for kind_relation (''edge:'' @ natural))
     | None \<Rightarrow> bindP (handle_for kind_relation (''edge:'' @ natural)) (\<lambda>edge_id.
         thenP (modP (note_op ''add_edge'' 0 \<circ> push_edge edge natural)) (retP edge_id))))"

definition ensure_edge :: "EdgeRecord \<Rightarrow> i64 recorder" where
  "ensure_edge edge = bindP (readP (edge_natural edge)) (\<lambda>natural. bindP (readP rc_edge_positions_by_key) (\<lambda>known_edges.
     if known_edges natural \<noteq> None then thenP (modP (note_op ''ensure_edge'' 0)) (handle_for kind_relation (''edge:'' @ natural))
     else add_edge edge))"

definition intern_type_node :: "TypeNodeRecord \<Rightarrow> i64 recorder" where
  "intern_type_node node = bindP (readP rc_current_partition) (\<lambda>part.
     let stable = ''type:'' @ type_string \<lparr>tk_partition = part, tk_type_key = tn_type_key node\<rparr> in
     bindP (lookup_id kind_type stable) (\<lambda>found. case found of
       Some type_id \<Rightarrow> thenP (modP (note_op ''intern_type_node'' 1)) (retP type_id)
     | None \<Rightarrow> bindP (handle_for kind_type stable) (\<lambda>type_id.
         thenP (modP (note_op ''intern_type_node'' 0 \<circ> rc_facts_update (rf_type_nodes_update (\<lambda>xs. xs @ [routed part node]))))
           (retP type_id))))"

definition definition_natural :: "FactPartitionKey \<Rightarrow> DefinitionFactRecord \<Rightarrow> string" where
  "definition_natural part d = partition_string part @ '':'' @ to_string (df_symbol_id d) @ '':'' @ to_string (df_line d) @ '':''
     @ to_string (df_col d) @ '':'' @ to_string (df_end_line d) @ '':'' @ to_string (df_end_col d) @ '':'' @ optional_text (df_init_text d)"

definition push_definition :: "FactPartitionKey \<Rightarrow> string \<Rightarrow> DefinitionFactRecord \<Rightarrow> FactBatchRecorder \<Rightarrow> FactBatchRecorder" where
  "push_definition part natural d r =
     r\<lparr>rc_definition_ids_by_key := (rc_definition_ids_by_key r)(natural \<mapsto> df_id d),
       rc_definition_partitions_by_id := (if rc_definition_partitions_by_id r (df_id d) = None
         then (rc_definition_partitions_by_id r)(df_id d \<mapsto> part) else rc_definition_partitions_by_id r),
       rc_facts := rf_definitions_update (\<lambda>xs. xs @ [routed part d]) (rc_facts r)\<rparr>"

text \<open>The arguments come as the record of the definition; its identifier is assigned here.\<close>

definition get_or_create_definition :: "DefinitionFactRecord \<Rightarrow> i64 recorder" where
  "get_or_create_definition d = bindP (readP (partition_for_file_handle (df_file_id d))) (\<lambda>part.
     let natural = definition_natural part d in
     bindP (readP rc_definition_ids_by_key) (\<lambda>known_definitions. case known_definitions natural of
       Some found \<Rightarrow> thenP (modP (note_op ''get_or_create_definition'' 1)) (retP found)
     | None \<Rightarrow> bindP (handle_for kind_definition (''definition:'' @ natural)) (\<lambda>definition_id.
         thenP (modP (note_op ''get_or_create_definition'' 0 \<circ> push_definition part natural (d\<lparr>df_id := definition_id\<rparr>)))
           (retP definition_id))))"

definition add_def_edge :: "i64 \<Rightarrow> i64 \<Rightarrow> i64 \<Rightarrow> FactBatchRecorder \<Rightarrow> FactBatchRecorder" where
  "add_def_edge definition_id destination_id kind r =
     (let owner = (case rc_definition_partitions_by_id r definition_id of Some part \<Rightarrow> part | None \<Rightarrow> rc_current_partition r) in
      note_op ''add_def_edge'' 0 (r\<lparr>rc_facts := rf_definition_edges_update (\<lambda>xs. xs @ [routed owner
        \<lparr>de_definition_id = definition_id, de_destination_id = destination_id, de_kind = kind\<rparr>]) (rc_facts r)\<rparr>))"

definition body_edge_count :: "i64 \<Rightarrow> nat recorder" where
  "body_edge_count symbol_id r =
     (let count = length (rc_body_edge_positions_by_source r symbol_id) in retP count (note_op ''body_edge_count'' count r))"

definition edge_at :: "FactBatchRecorder \<Rightarrow> nat \<Rightarrow> EdgeRecord" where
  "edge_at r position = ro_record (rf_relations (rc_facts r) ! position)"

definition copy_body_edges_to_def_edge :: "i64 \<Rightarrow> i64 \<Rightarrow> FactBatchRecorder \<Rightarrow> FactBatchRecorder" where
  "copy_body_edges_to_def_edge definition_id symbol_id r =
     (let places = rc_body_edge_positions_by_source r symbol_id in
      foldl (\<lambda>r position. add_def_edge definition_id (er_dst_id (edge_at r position)) (er_kind (edge_at r position)) r)
        (note_op ''copy_body_edges_to_def_edge'' (length places) r) places)"

end
