(* ===== verification/Recorder_Batch.thy ===== *)
theory Recorder_Batch
  imports Fact_Recorder
begin

text \<open>
  Batches of the recorder (\<^verbatim>\<open>FactBatchRecorder::build_batch\<close>), the states that its operations reach, and
  the invariant of these states.
\<close>

subsection \<open>Building a batch\<close>

definition identity_keys :: "FactIdentityKind \<Rightarrow> IdentityEntries \<Rightarrow> (i64 \<times> string) list" where
  "identity_keys kind identities =
     foldl (\<lambda>m (identity, handle). if fst identity = kind then bucket handle_rank handle id (snd identity) m else m) [] identities"

fun free_handle :: "nat \<Rightarrow> i64 \<Rightarrow> i64 list \<Rightarrow> i64" where
  "free_handle 0 handle taken = handle"
| "free_handle (Suc n) handle taken = (if handle \<in> set taken then free_handle n (handle - 1) taken else handle)"

definition missing_handle :: "FactPartitionKey \<Rightarrow> i64" where
  "missing_handle part =
     (let handle = - (stable_fact_hash (''file:'' @ partition_string part) AND 0x3fffffffffffffff) in
      if handle = 0 then - 1 else handle)"

definition register_missing :: "FactPartitionKey \<Rightarrow> (i64 \<times> FactPartitionKey) list \<Rightarrow> (i64 \<times> FactPartitionKey) list" where
  "register_missing part keys =
     (if part \<in> snd ` set keys then keys
      else bucket handle_rank (free_handle (length keys) (missing_handle part) (map fst keys)) id part keys)"

definition build_batch :: "bool \<Rightarrow> FactBatchRecorder \<Rightarrow> string + FactBatch" where
  "build_batch canonical r = bindE (identity_entries (id_index (rc_identities r))) (\<lambda>identities.
     let (records, memberships) = append_all_records (rc_facts r) canonical in
     Inr \<lparr>fb_producer = rc_producer r, fb_producer_version = 1, fb_completeness = rc_completeness r, fb_canonical = canonical,
       fb_records = records\<lparr>fr_symbol_order := (if canonical then canonical_symbol_order (rc_symbol_order r) else rc_symbol_order r)\<rparr>,
       fb_partitions = map file_partition memberships,
       fb_symbol_keys = identity_keys kind_symbol identities, fb_relation_keys = identity_keys kind_relation identities,
       fb_type_keys = identity_keys kind_type identities, fb_definition_keys = identity_keys kind_definition identities,
       fb_file_keys = foldl (\<lambda>keys membership. register_missing (fst membership) keys) (rc_partitions_by_file_handle r) memberships,
       fb_pending_symbol_references = (if canonical then sort_key reference_rank (rc_pending_symbol_references r)
         else rc_pending_symbol_references r)\<rparr>)"

definition snapshot :: "FactBatchRecorder \<Rightarrow> string + FactBatch" where
  "snapshot = build_batch False"

definition canonical_batch :: "FactBatchRecorder \<Rightarrow> string + FactBatch" where
  "canonical_batch = build_batch True"

subsection \<open>Reachable states\<close>

inductive recorded :: "FactBatchRecorder \<Rightarrow> bool" where
  fresh: "recorded (new_recorder producer hasher)"
| limits: "recorded r \<Longrightarrow> recorded (set_extraction_limits limits r)"
| completeness: "recorded r \<Longrightarrow> recorded (set_completeness completeness r)"
| deferral: "recorded r \<Longrightarrow> recorded (set_deferred_external_identity deferral r)"
| part: "recorded r \<Longrightarrow> set_partition part handle r = Some (Inr (u, r')) \<Longrightarrow> recorded r'"
| current: "recorded r \<Longrightarrow> recorded (set_current_file_id file_id r)"
| unit_file: "recorded r \<Longrightarrow> recorded (set_identity_translation_unit_file_id file_id r)"
| unit_config: "recorded r \<Longrightarrow> recorded (set_identity_translation_unit_config_id file_id r)"
| symbol: "recorded r \<Longrightarrow> emit_symbol symbol r = Some (Inr (u, r')) \<Longrightarrow> recorded r'"
| evidence: "recorded r \<Longrightarrow> recorded (emit_evidence e r)"
| site: "recorded r \<Longrightarrow> recorded (emit_declaration_site s r)"
| directive: "recorded r \<Longrightarrow> recorded (emit_include i r)"
| macro: "recorded r \<Longrightarrow> recorded (emit_macro m r)"
| diagnostic: "recorded r \<Longrightarrow> recorded (emit_diagnostic d r)"
| cleanup: "recorded r \<Longrightarrow> recorded (emit_lifecycle_cleanup c r)"
| applicability: "recorded r \<Longrightarrow> recorded (emit_applicability a r)"
| presentation: "recorded r \<Longrightarrow> recorded (emit_presentation_intent p r)"
| symbol_id: "recorded r \<Longrightarrow> lookup_symbol_id usr source r = Some (Inr (found, r')) \<Longrightarrow> recorded r'"
| mint: "recorded r \<Longrightarrow> mint_symbol request r = Some (Inr (minted, r')) \<Longrightarrow> recorded r'"
| file_id: "recorded r \<Longrightarrow> file_id_for_path path r = Some (Inr (found, r')) \<Longrightarrow> recorded r'"
| candidates: "recorded r \<Longrightarrow> type_arg_candidates name qualified r = Some (Inr (cs, r')) \<Longrightarrow> recorded r'"
| name_kind: "recorded r \<Longrightarrow> symbol_ids_by_qual_name_kind name kind r = Some (Inr (hs, r')) \<Longrightarrow> recorded r'"
| edge: "recorded r \<Longrightarrow> add_edge e r = Some (Inr (h, r')) \<Longrightarrow> recorded r'"
| ensured: "recorded r \<Longrightarrow> ensure_edge e r = Some (Inr (h, r')) \<Longrightarrow> recorded r'"
| edge_site: "recorded r \<Longrightarrow> recorded (add_edge_site es r)"
| call_arg: "recorded r \<Longrightarrow> recorded (add_call_arg ca r)"
| template_param: "recorded r \<Longrightarrow> recorded (add_template_param tp r)"
| template_arg: "recorded r \<Longrightarrow> recorded (add_template_arg ta r)"
| type_node: "recorded r \<Longrightarrow> intern_type_node node r = Some (Inr (h, r')) \<Longrightarrow> recorded r'"
| type_edge: "recorded r \<Longrightarrow> recorded (add_type_edge src kind position dst r)"
| parameters: "recorded r \<Longrightarrow> recorded (replace_parameters owner ps r)"
| symbol_type: "recorded r \<Longrightarrow> recorded (add_symbol_type h kind h' r)"
| created: "recorded r \<Longrightarrow> get_or_create_definition d r = Some (Inr (h, r')) \<Longrightarrow> recorded r'"
| def_edge: "recorded r \<Longrightarrow> recorded (add_def_edge h h' kind r)"
| body_count: "recorded r \<Longrightarrow> body_edge_count h r = Some (Inr (n, r')) \<Longrightarrow> recorded r'"
| copied: "recorded r \<Longrightarrow> recorded (copy_body_edges_to_def_edge h h' r)"
| deleted_edges: "recorded r \<Longrightarrow> recorded (delete_edges_for_file file_id r)"
| deleted_definitions: "recorded r \<Longrightarrow> recorded (delete_definitions_for_file file_id r)"
| display: "recorded r \<Longrightarrow> lookup_display_name h r = Some (Inr (d', r')) \<Longrightarrow> recorded r'"
| renamed: "recorded r \<Longrightarrow> recorded (update_display_name h name r)"

subsection \<open>The invariant\<close>

text \<open>Every position that an index of the recorder holds is one of the vector it points into, and the
  emission order has one entry per symbol.\<close>

definition positions_in_range :: "FactBatchRecorder \<Rightarrow> bool" where
  "positions_in_range r \<longleftrightarrow>
     length (rc_symbol_order r) = length (rf_symbols (rc_facts r))
     \<and> (\<forall>h. list_all (\<lambda>p. p < length (rf_symbols (rc_facts r))) (rc_symbol_positions_by_id r h))
     \<and> (\<forall>k p. rc_edge_positions_by_key r k = Some p \<longrightarrow> p < length (rf_relations (rc_facts r)))
     \<and> (\<forall>h. list_all (\<lambda>p. p < length (rf_relations (rc_facts r))) (rc_body_edge_positions_by_source r h))"

definition references_known :: "FactBatchRecorder \<Rightarrow> bool" where
  "references_known r \<longleftrightarrow> distinct (map reference_string (rc_pending_symbol_references r))
     \<and> (\<forall>p\<in>set (rc_pending_symbol_references r). rc_external_ids_by_key r (reference_string p) \<noteq> None)"

definition recorder_ok :: "FactBatchRecorder \<Rightarrow> bool" where
  "recorder_ok r \<longleftrightarrow> owned (rc_facts r) \<and> positions_in_range r
     \<and> ascending handle_rank fst (rc_partitions_by_file_handle r) \<and> references_known r"

lemmas ok_defs = recorder_ok_def owned_def positions_in_range_def references_known_def

definition keeps :: "'a recorder \<Rightarrow> bool" where
  "keeps p \<longleftrightarrow> (\<forall>r x r'. recorder_ok r \<longrightarrow> p r = Some (Inr (x, r')) \<longrightarrow> recorder_ok r')"

named_theorems keep

lemma keeps_ret [keep]: "keeps (retP x)"
  by (simp add: keeps_def retP_def)

lemma keeps_throw [keep]: "keeps (throwP e)"
  by (simp add: keeps_def throwP_def)

lemma keeps_read [keep]: "keeps (readP f)"
  by (simp add: keeps_def readP_def)

lemma keeps_mod: "(\<And>r. recorder_ok r \<Longrightarrow> recorder_ok (f r)) \<Longrightarrow> keeps (modP f)"
  by (simp add: keeps_def modP_def)

lemma bindP_Some:
  "bindP p f r = Some (Inr (y, r'')) \<longleftrightarrow> (\<exists>x r'. p r = Some (Inr (x, r')) \<and> f x r' = Some (Inr (y, r'')))"
  by (simp add: bindP_def split: option.splits sum.splits)

lemma keeps_bind [keep]: "keeps p \<Longrightarrow> (\<And>x. keeps (f x)) \<Longrightarrow> keeps (bindP p f)"
  unfolding keeps_def bindP_Some by blast

lemma keeps_then [keep]: "keeps p \<Longrightarrow> keeps q \<Longrightarrow> keeps (thenP p q)"
  by (simp add: thenP_def keeps_bind)

lemma ok_identities: "recorder_ok (r\<lparr>rc_identities := st\<rparr>) \<longleftrightarrow> recorder_ok r"
  by (simp add: ok_defs)

lemma ok_noted [simp]: "recorder_ok (note_op op n r) \<longleftrightarrow> recorder_ok r" "recorder_ok (touched op n r) \<longleftrightarrow> recorder_ok r"
  by (simp_all add: ok_defs note_op_def touched_def)

lemma keeps_lookup [keep]: "keeps (lookup_id kind key)"
  by (auto simp: keeps_def lookup_id_def ok_identities split: sum.splits)

lemma keeps_handle [keep]: "keeps (handle_for kind key)"
  by (auto simp: keeps_def handle_for_def ok_identities split: option.splits sum.splits)

lemma keeps_bind_id [keep]: "keeps (bind_id kind key h)"
  by (auto simp: keeps_def bind_id_def ok_identities split: sum.splits)


subsection \<open>Every operation keeps the invariant\<close>

lemma keeps_if [keep]: "keeps p \<Longrightarrow> keeps q \<Longrightarrow> keeps (if b then p else q)"
  by simp

lemma keeps_option [keep]: "keeps p \<Longrightarrow> (\<And>x. keeps (f x)) \<Longrightarrow> keeps (case v of None \<Rightarrow> p | Some x \<Rightarrow> f x)"
  by (cases v) simp_all

lemma ok_register [keep]: "keeps (modP (register_partition h part))"
  by (rule keeps_mod) (auto simp: ok_defs register_partition_def intro!: ascending_bucket)

lemma ok_current [simp]: "recorder_ok (r\<lparr>rc_current_partition := part\<rparr>) \<longleftrightarrow> recorder_ok r"
  by (simp add: ok_defs)

lemma keeps_current [keep]: "keeps (modP (rc_current_partition_update (\<lambda>_. part)))"
  by (rule keeps_mod) (simp add: ok_defs)

lemma keeps_bind_paths [keep]: "keeps (bind_paths part h)"
  unfolding bind_paths_def bind_missing_def Let_def by (intro keep)

lemma keeps_set_partition: "keeps (set_partition part h)"
  unfolding set_partition_def by (intro keep)

lemma keeps_partition_for_symbol [keep]: "keeps (partition_for_symbol symbol)"
  unfolding partition_for_symbol_def Let_def by (intro keep)

lemma keeps_payload [keep]: "keeps (append_payload symbol)"
  by (auto simp: keeps_def append_payload_def ok_defs split: sum.splits)

text \<open>What the indexes over names and USRs leave alone.\<close>

definition same_store :: "FactBatchRecorder \<Rightarrow> FactBatchRecorder \<Rightarrow> bool" where
  "same_store r r' \<longleftrightarrow> rc_facts r' = rc_facts r \<and> rc_symbol_order r' = rc_symbol_order r
     \<and> rc_symbol_positions_by_id r' = rc_symbol_positions_by_id r \<and> rc_edge_positions_by_key r' = rc_edge_positions_by_key r
     \<and> rc_body_edge_positions_by_source r' = rc_body_edge_positions_by_source r
     \<and> rc_partitions_by_file_handle r' = rc_partitions_by_file_handle r
     \<and> rc_pending_symbol_references r' = rc_pending_symbol_references r \<and> rc_external_ids_by_key r' = rc_external_ids_by_key r"

lemma same_store_refl: "same_store r r"
  by (simp add: same_store_def)

lemma same_store_trans: "same_store r r' \<Longrightarrow> same_store r' r'' \<Longrightarrow> same_store r r''"
  by (simp add: same_store_def)

lemma same_store_ok: "same_store r r' \<Longrightarrow> recorder_ok r' \<longleftrightarrow> recorder_ok r"
  by (simp add: ok_defs same_store_def)

lemma same_candidate: "same_store r (append_candidate name c r)"
  by (simp add: same_store_def append_candidate_def note_op_def split: prod.split)

lemma same_qualified: "same_store r (append_qualified_candidate name c r)"
  by (simp add: same_store_def append_qualified_candidate_def note_op_def split: prod.split)

lemma same_qualified_id: "same_store r (append_qualified_id name h r)"
  by (simp add: same_store_def append_qualified_id_def note_op_def split: prod.split)

lemma same_names: "same_store r (index_names h symbol r)"
proof (cases "sr_qual_name symbol")
  case None
  then show ?thesis by (simp add: index_names_def Let_def same_candidate)
next
  case (Some name)
  then show ?thesis unfolding index_names_def Let_def
    by simp (blast intro: same_store_trans same_candidate same_qualified same_qualified_id)
qed

lemma same_usr: "same_store r (index_usr part h symbol r)"
  by (simp add: same_store_def index_usr_def Let_def)

lemma ok_push_symbol:
  assumes "recorder_ok r"
  shows "recorder_ok ((note_op op n \<circ> push_order part h symbol \<circ> index_names h symbol \<circ> index_usr part h symbol \<circ> push_symbol part h symbol) r)"
proof -
  let ?s = "push_symbol part h symbol r"
  let ?t = "index_names h symbol (index_usr part h symbol ?s)"
  have t: "same_store ?s ?t" using same_store_trans [OF same_usr same_names] .
  have "recorder_ok (push_order part h symbol ?t)"
    using assms t by (auto simp: ok_defs push_order_def Let_def same_store_def push_symbol_def list_all_iff less_SucI)
  then show ?thesis by simp
qed

lemma keeps_emit_symbol [keep]: "keeps (emit_symbol symbol)"
  unfolding emit_symbol_def by (intro keep keeps_mod ok_push_symbol)

text \<open>Operations that append one record or only count.\<close>

lemma ok_emit [simp]:
  "recorder_ok r \<Longrightarrow> recorder_ok (emit_evidence e r)" "recorder_ok r \<Longrightarrow> recorder_ok (emit_declaration_site s r)"
  "recorder_ok r \<Longrightarrow> recorder_ok (emit_include i r)" "recorder_ok r \<Longrightarrow> recorder_ok (emit_macro m r)"
  "recorder_ok r \<Longrightarrow> recorder_ok (emit_diagnostic d r)" "recorder_ok r \<Longrightarrow> recorder_ok (emit_lifecycle_cleanup c r)"
  "recorder_ok r \<Longrightarrow> recorder_ok (emit_applicability a r)" "recorder_ok r \<Longrightarrow> recorder_ok (emit_presentation_intent p r)"
  unfolding emit_evidence_def emit_declaration_site_def emit_include_def emit_macro_def emit_diagnostic_def
    emit_lifecycle_cleanup_def emit_applicability_def emit_presentation_intent_def ok_noted
  by (simp_all add: ok_defs)

lemma ok_add [simp]:
  "recorder_ok r \<Longrightarrow> recorder_ok (add_edge_site es r)" "recorder_ok r \<Longrightarrow> recorder_ok (add_call_arg ca r)"
  "recorder_ok r \<Longrightarrow> recorder_ok (add_template_param tp r)" "recorder_ok r \<Longrightarrow> recorder_ok (add_template_arg ta r)"
  "recorder_ok r \<Longrightarrow> recorder_ok (add_type_edge h k p h' r)" "recorder_ok r \<Longrightarrow> recorder_ok (replace_parameters h ps r)"
  "recorder_ok r \<Longrightarrow> recorder_ok (add_symbol_type h k h' r)" "recorder_ok r \<Longrightarrow> recorder_ok (add_def_edge h h' k r)"
  unfolding add_edge_site_def add_call_arg_def add_template_param_def add_template_arg_def add_type_edge_def
    replace_parameters_def add_symbol_type_def add_def_edge_def Let_def ok_noted
  by (simp_all add: ok_defs)

lemma ok_set [simp]:
  "recorder_ok r \<Longrightarrow> recorder_ok (set_extraction_limits limits r)" "recorder_ok r \<Longrightarrow> recorder_ok (set_completeness c r)"
  "recorder_ok r \<Longrightarrow> recorder_ok (set_deferred_external_identity deferral r)" "recorder_ok r \<Longrightarrow> recorder_ok (set_current_file_id h r)"
  "recorder_ok r \<Longrightarrow> recorder_ok (set_identity_translation_unit_file_id h r)"
  "recorder_ok r \<Longrightarrow> recorder_ok (set_identity_translation_unit_config_id h r)"
  unfolding set_extraction_limits_def set_completeness_def set_deferred_external_identity_def set_current_file_id_def
    set_identity_translation_unit_config_id_def set_identity_translation_unit_file_id_def
  by (simp_all add: ok_defs)

lemma ok_delete [simp]:
  "recorder_ok r \<Longrightarrow> recorder_ok (delete_edges_for_file h r)" "recorder_ok r \<Longrightarrow> recorder_ok (delete_definitions_for_file h r)"
  by (simp_all add: delete_edges_for_file_def delete_definitions_for_file_def Let_def)

lemma ok_copy [simp]: "recorder_ok r \<Longrightarrow> recorder_ok (copy_body_edges_to_def_edge h h' r)"
proof -
  have "recorder_ok r \<Longrightarrow> recorder_ok (foldl (\<lambda>r position. add_def_edge h (er_dst_id (edge_at r position)) (er_kind (edge_at r position)) r) r ps)"
    for r ps by (induction ps arbitrary: r) simp_all
  then show "recorder_ok r \<Longrightarrow> recorder_ok (copy_body_edges_to_def_edge h h' r)"
    by (simp add: copy_body_edges_to_def_edge_def Let_def)
qed

text \<open>Operations that change symbols in place.\<close>

lemma ok_set_symbol [simp]: "recorder_ok r \<Longrightarrow> recorder_ok (set_symbol record position r)"
  by (simp add: ok_defs set_symbol_def)

lemma ok_change_symbols [simp]: "recorder_ok r \<Longrightarrow> recorder_ok (change_symbols f ps r)"
  unfolding change_symbols_def by (induction ps arbitrary: r) simp_all

lemma ok_update_display_name [simp]: "recorder_ok r \<Longrightarrow> recorder_ok (update_display_name h name r)"
proof -
  have "recorder_ok (r\<lparr>rc_display_names := m\<rparr>) \<longleftrightarrow> recorder_ok r" for m by (simp add: ok_defs)
  then show "recorder_ok r \<Longrightarrow> recorder_ok (update_display_name h name r)" by (simp add: update_display_name_def Let_def)
qed

lemma keepsD: "keeps p \<Longrightarrow> recorder_ok r \<Longrightarrow> p r = Some (Inr (x, r')) \<Longrightarrow> recorder_ok r'"
  unfolding keeps_def by blast

lemma keeps_add_mint_declaration [keep]: "keeps (add_mint_declaration ps request)"
proof -
  have m: "keeps (modP (set_symbol s position))" for s position by (intro keeps_mod) simp
  show ?thesis
    unfolding keeps_def add_mint_declaration_def Let_def
    by (auto simp: retP_def split: if_splits option.splits intro: keepsD [OF m] keepsD [OF keeps_emit_symbol])
qed

lemma keeps_enrich [keep]: "keeps (enrich_minted_symbol h request)"
  unfolding keeps_def enrich_minted_symbol_def Let_def
  using keepsD [OF keeps_add_mint_declaration ok_change_symbols] by blast

text \<open>Lookups.\<close>

lemma keeps_source_independent [keep]: "keeps (source_independent_symbol_id usr)"
  unfolding keeps_def source_independent_symbol_id_def by (auto simp: retP_def split: list.splits if_splits)

lemma keeps_local_lookup [keep]: "keeps (local_lookup usr source)"
  unfolding keeps_def local_lookup_def
  by (auto simp: retP_def throwP_def split: list.splits option.splits intro: keepsD [OF keeps_source_independent])

lemma ok_push_reference:
  assumes "recorder_ok r" "rc_external_ids_by_key r (reference_string reference) = None"
  shows "recorder_ok (push_reference reference h r)"
proof -
  have "reference_string (reference\<lparr>ps_handle := h\<rparr>) = reference_string reference" by (simp add: reference_string_def)
  with assms show ?thesis by (auto simp: ok_defs push_reference_def)
qed

lemma keeps_defer [keep]: "keeps (defer_external_symbol usr source)"
  unfolding keeps_def
proof (intro allI impI)
  fix r x r'
  assume ok: "recorder_ok r" and ran: "defer_external_symbol usr source r = Some (Inr (x, r'))"
  let ?ref = "external_reference r usr source"
  show "recorder_ok r'"
  proof (cases "rc_external_ids_by_key r (reference_string ?ref)")
    case None
    have "recorder_ok (push_reference ?ref h (r\<lparr>rc_identities := st\<rparr>))" for h st
      using ok None by (intro ok_push_reference) (simp_all add: ok_identities)
    with ok ran None show ?thesis
      by (auto simp: defer_external_symbol_def Let_def retP_def thenP_def bindP_Some modP_def handle_for_def
        split: if_splits option.splits sum.splits)
  next
    case (Some h)
    with ok ran show ?thesis by (auto simp: defer_external_symbol_def Let_def retP_def split: if_splits)
  qed
qed

lemma keeps_noted [keep]: "keeps (modP (note_op op n))"
  by (rule keeps_mod) simp

lemma keeps_resolve [keep]: "keeps (resolve_symbol_id usr source deferral)"
  unfolding resolve_symbol_id_def Let_def by (intro keep)

lemma keeps_create [keep]: "keeps (create_minted_symbol request source)"
  unfolding create_minted_symbol_def by (intro keep)

lemma keeps_mint: "keeps (mint_symbol request)"
  unfolding mint_symbol_def Let_def by (intro keep)

lemma keeps_file_id: "keeps (file_id_for_path path)"
  unfolding file_id_for_path_def by (intro keep)

lemma keeps_answers:
  "keeps (type_arg_candidates name q)" "keeps (symbol_ids_by_qual_name_kind name kind)" "keeps (lookup_display_name h)" "keeps (body_edge_count h)"
  by (simp_all add: keeps_def type_arg_candidates_def symbol_ids_by_qual_name_kind_def lookup_display_name_def body_edge_count_def
    Let_def retP_def)

text \<open>Relations, types and definitions.\<close>

lemma ok_count_edge: "recorder_ok r \<Longrightarrow> recorder_ok (count_edge n position r)"
  by (simp add: ok_defs count_edge_def)

lemma ok_push_edge: "recorder_ok r \<Longrightarrow> recorder_ok (push_edge e natural r)"
  by (auto simp: ok_defs push_edge_def Let_def list_all_iff less_SucI)

lemma keeps_add_edge [keep]: "keeps (add_edge e)"
  unfolding add_edge_def by (intro keep keeps_mod) (simp_all add: ok_count_edge ok_push_edge)

lemma keeps_ensure_edge: "keeps (ensure_edge e)"
  unfolding ensure_edge_def by (intro keep)

lemma keeps_type_node: "keeps (intern_type_node node)"
proof -
  have "recorder_ok r \<Longrightarrow> recorder_ok (rc_facts_update (rf_type_nodes_update f) r)" for r f by (simp add: ok_defs)
  then show ?thesis unfolding intern_type_node_def Let_def by (intro keep keeps_mod) simp_all
qed

lemma keeps_definition: "keeps (get_or_create_definition d)"
proof -
  have "recorder_ok r \<Longrightarrow> recorder_ok (push_definition part natural d' r)" for r part natural d'
    by (simp add: ok_defs push_definition_def)
  then show ?thesis unfolding get_or_create_definition_def Let_def by (intro keep keeps_mod) simp_all
qed

lemmas kept =
  keepsD [OF keeps_set_partition] keepsD [OF keeps_emit_symbol] keepsD [OF keeps_resolve [where deferral = True, folded lookup_symbol_id_def]]
  keepsD [OF keeps_mint] keepsD [OF keeps_file_id] keepsD [OF keeps_answers(1)] keepsD [OF keeps_answers(2)]
  keepsD [OF keeps_answers(3)] keepsD [OF keeps_answers(4)] keepsD [OF keeps_add_edge] keepsD [OF keeps_ensure_edge]
  keepsD [OF keeps_type_node] keepsD [OF keeps_definition]

lemma recorded_ok: "recorded r \<Longrightarrow> recorder_ok r"
proof (induction rule: recorded.induct)
  case (fresh producer hasher)
  show ?case by (simp add: ok_defs new_recorder_def no_facts_def ascending_def)
qed (erule (1) kept | simp)+


subsection \<open>The maps of a batch\<close>

lemma inj_handle_rank: "inj handle_rank"
  by (rule injI) (rule signed_word_eqI)

lemma ascending_identity_keys: "ascending handle_rank fst (identity_keys kind es)"
proof -
  have "ascending handle_rank fst m \<Longrightarrow> ascending handle_rank fst
      (foldl (\<lambda>m (identity, handle). if fst identity = kind then bucket handle_rank handle id (snd identity) m else m) m es)" for m
    by (induction es arbitrary: m) (simp_all add: ascending_bucket [OF inj_handle_rank] split: prod.split)
  then show ?thesis by (simp add: identity_keys_def ascending_sorted)
qed

lemma free_handle_taken: "free_handle n h taken \<in> set taken \<Longrightarrow> i \<le> n \<Longrightarrow> h - of_nat i \<in> set taken"
proof (induction n arbitrary: h i)
  case (Suc n)
  show ?case
  proof (cases i)
    case 0
    then show ?thesis using Suc.prems(1) by (auto split: if_splits)
  next
    case (Suc j)
    then have "h - 1 - of_nat j \<in> set taken" using Suc.IH [of "h - 1" j] Suc.prems by (auto split: if_splits)
    then show ?thesis by (simp add: Suc algebra_simps)
  qed
qed simp

text \<open>The search for a free handle ends within as many steps as there are handles.\<close>

lemma free_handle_free:
  assumes "length taken < 2 ^ 64"
  shows "free_handle (length taken) h taken \<notin> set taken"
proof
  assume "free_handle (length taken) h taken \<in> set taken"
  then have "(\<lambda>i. h - of_nat i) ` {..length taken} \<subseteq> set taken" by (auto intro: free_handle_taken)
  then have "card ((\<lambda>i. h - of_nat i) ` {..length taken}) \<le> length taken"
    by (meson card_length card_mono finite_set le_trans)
  moreover have "inj_on (\<lambda>i. h - of_nat i) {..length taken}"
    using assms by (auto simp: inj_on_def word_of_nat_eq_iff take_bit_nat_eq_self)
  ultimately show False by (simp add: card_image)
qed

lemma register_missing_keys:
  assumes "ascending handle_rank fst keys"
  shows "ascending handle_rank fst (register_missing part keys)" "length keys \<le> length (register_missing part keys)"
    "length keys < 2 ^ 64 \<Longrightarrow> snd ` set (register_missing part keys) = insert part (snd ` set keys)"
proof -
  let ?h = "free_handle (length keys) (missing_handle part) (map fst keys)"
  have b: "map_of (bucket handle_rank ?h id part keys) = (map_of keys)(?h \<mapsto> slot keys part ?h)"
      "ascending handle_rank fst (bucket handle_rank ?h id part keys)"
    using map_of_bucket [OF inj_handle_rank assms] ascending_bucket [OF inj_handle_rank assms] by auto
  then show "ascending handle_rank fst (register_missing part keys)" using assms by (simp add: register_missing_def)
  have "length keys \<le> length (bucket rank k f d keys)" for rank :: "i64 \<Rightarrow> int" and k f d by (induction rank k f d keys rule: bucket.induct) auto
  then show "length keys \<le> length (register_missing part keys)" by (simp add: register_missing_def)
  assume "length keys < 2 ^ 64"
  then have "?h \<notin> fst ` set keys" using free_handle_free [of "map fst keys"] by simp
  then have f: "map_of keys ?h = None" by (simp add: map_of_eq_None_iff)
  have d: "distinct (map fst keys)" "distinct (map fst (bucket handle_rank ?h id part keys))"
    using ascending_distinct assms b(2) by blast+
  have "snd ` set (bucket handle_rank ?h id part keys) = ran ((map_of keys)(?h \<mapsto> part))"
    using ran_distinct [OF d(2)] b(1) f by (simp add: slot_def)
  also have "\<dots> = insert part (snd ` set keys)" using f ran_distinct [OF d(1)] by (simp add: ran_map_upd)
  finally show "snd ` set (register_missing part keys) = insert part (snd ` set keys)" by (auto simp: register_missing_def)
qed

lemma registered_keys:
  assumes "ascending handle_rank fst keys"
    and "keys' = foldl (\<lambda>keys m. register_missing (fst m) keys) keys ms"
  shows "ascending handle_rank fst keys' \<and> length keys \<le> length keys'
    \<and> (length keys' < 2 ^ 64 \<longrightarrow> snd ` set keys' = fst ` set ms \<union> snd ` set keys)"
  using assms(1) unfolding assms(2)
proof (induction ms arbitrary: keys)
  case (Cons m ms)
  note r = register_missing_keys [OF Cons.prems, of "fst m"]
  from Cons.IH [OF r(1)] r(2,3) show ?case by auto
qed simp

lemma ascending_references:
  assumes "distinct (map reference_string ps)"
  shows "ascending reference_rank id (sort_key reference_rank ps)"
proof -
  have "inj reference_rank" by (auto simp: inj_def reference_rank_def dest: signed_word_eqI)
  moreover have "distinct ps" using assms by (rule distinct_map [THEN iffD1, THEN conjunct1])
  ultimately show ?thesis
    by (simp add: ascending_sorted strict_sorted_iff distinct_map inj_on_subset [OF _ subset_UNIV])
qed


subsection \<open>Canonical batches\<close>

lemma canonical_batch_fields:
  assumes "canonical_batch r = Inr b"
  shows "fb_canonical b"
    "fb_records b = (filed_records (rc_facts r) True)\<lparr>fr_symbol_order := canonical_symbol_order (rc_symbol_order r)\<rparr>"
    "fb_partitions b = map file_partition (file_all (filings (rc_facts r) True))"
    "fb_file_keys b = foldl (\<lambda>keys m. register_missing (fst m) keys) (rc_partitions_by_file_handle r) (file_all (filings (rc_facts r) True))"
    "fb_pending_symbol_references b = sort_key reference_rank (rc_pending_symbol_references r)"
    "\<exists>es. fb_symbol_keys b = identity_keys kind_symbol es \<and> fb_relation_keys b = identity_keys kind_relation es
      \<and> fb_type_keys b = identity_keys kind_type es \<and> fb_definition_keys b = identity_keys kind_definition es"
  using assms by (auto simp: canonical_batch_def build_batch_def append_all_filed bindE_Inr_iff)

text \<open>A first request for a handle succeeds.\<close>

lemma length_show_nat_digits: "n < 10 ^ k \<Longrightarrow> 0 < k \<Longrightarrow> length (show_nat n) \<le> k"
proof (induction k arbitrary: n)
  case (Suc k)
  show ?case
  proof (cases "n < 10")
    case False
    then have "k \<noteq> 0" "n div 10 < 10 ^ k" using Suc.prems by (auto simp: less_mult_imp_div_less mult.commute intro: gr0I)
    with False Suc.IH [of "n div 10"] show ?thesis by (subst show_nat.simps) simp
  qed (simp add: show_nat.simps)
qed simp

lemma length_handle_key_small: "length (identity_handle_key kind h) \<le> 24"
proof -
  have k: "length (show_nat (unat kind)) \<le> 3"
    using unsigned_less [of kind, where ?'a = nat] by (intro length_show_nat_digits) simp_all
  have "nat \<bar>sint h\<bar> \<le> 2 ^ 63" using sint_ge [of h] sint_lt [of h] by simp
  then have "length (show_nat (nat \<bar>sint h\<bar>)) \<le> 19" by (intro length_show_nat_digits) simp_all
  then have "length (show_int (sint h)) \<le> 20" by (auto simp: show_int_def)
  with k show ?thesis by (simp add: identity_handle_key_def)
qed

lemma insert_roomy:
  assumes "identity_lookup s kind key = Inr None" "\<not> too_full (word_of_nat (length key) + 8 + 32) s"
  shows "identity_insert kind key h s = Inr (identity_inserted, s\<lparr>ix_resident := omap_insert (kind, key) h (ix_resident s),
    ix_resident_size := ix_resident_size s + (word_of_nat (length key) + 8 + 32), ix_total_entries := ix_total_entries s + 1\<rparr>)"
  using assms by (simp add: identity_insert_def Let_def)

lemma cache_keeps_index: "id_index (cache_identity kind key v st) = id_index st"
  by (simp add: cache_identity_def Let_def)

lemma insert_roomy_runs:
  assumes "identity_lookup s kind key = Inr None" "\<not> too_full (word_of_nat (length key) + 8 + 32) s" "ix_runs s = []"
  obtains s' where "identity_insert kind key h s = Inr (identity_inserted, s')" "ix_runs s' = []"
  using insert_roomy [OF assms(1,2), of h] assms(3) by simp

lemma lookup_keeps_index: "lookup_identity kind key st = Inr (v, st') \<Longrightarrow> id_index st' = id_index st"
  by (auto simp: lookup_identity_def bindE_Inr_iff cache_identity_def Let_def split: option.splits)

lemma cost_small: "n \<le> 1000 \<Longrightarrow> unat (word_of_nat n + 8 + 32 :: u64) = n + 40"
  by (simp add: unat_word_ariths unat_of_nat)

lemma fresh_claim:
  assumes "length key \<le> 1000" "kind \<noteq> kind_handle" "id_index st = new_identity_index (identity_options default_limits)"
  shows "\<exists>st'. claim_handle kind key h st = Inr (Some h, st') \<and> ix_runs (id_index st') = []"
proof -
  let ?o = "identity_options default_limits"
  let ?s1 = "(new_identity_index ?o)\<lparr>ix_resident := [((kind, key), h)], ix_resident_size := word_of_nat (length key) + 8 + 32, ix_total_entries := 1\<rparr>"
  have "\<not> too_full (word_of_nat (length key) + 8 + 32) (new_identity_index ?o)"
    using cost_small [OF assms(1)] assms(1)
    by (simp add: too_full_def new_identity_index_def identity_options_def default_limits_def word_less_nat_alt unat_sub_if')
  then have i: "identity_insert kind key h (id_index st) = Inr (identity_inserted, ?s1)"
    using insert_roomy [of "new_identity_index ?o" kind key h] assms(3)
    by (simp add: identity_lookup_def new_identity_index_def)
  let ?st2 = "cache_identity kind key (Some h) (st\<lparr>id_index := ?s1\<rparr>)"
  have s1: "id_index ?st2 = ?s1" unfolding cache_keeps_index by simp
  let ?k = "identity_handle_key kind h"
  have k: "length ?k \<le> 24" by (rule length_handle_key_small)
  then have small: "unat (word_of_nat (length ?k) :: u64) = length ?k" by (simp add: unat_of_nat)
  have found: "identity_lookup ?s1 kind_handle ?k = Inr None" using assms(2) by (simp add: identity_lookup_def new_identity_index_def)
  have room: "\<not> too_full (word_of_nat (length ?k) + 8 + 32) ?s1"
    using cost_small [OF assms(1)] cost_small [of "length ?k"] assms(1) k small
    by (simp add: too_full_def new_identity_index_def identity_options_def default_limits_def word_less_nat_alt unat_sub_if')
  have "ix_runs ?s1 = []" by (simp add: new_identity_index_def)
  then obtain s2 where s2: "identity_insert kind_handle ?k h ?s1 = Inr (identity_inserted, s2)" "ix_runs s2 = []"
    by (rule insert_roomy_runs [OF found room])
  have "id_index (cache_identity kind_handle ?k (Some h) (?st2\<lparr>id_index := s2\<rparr>)) = s2" unfolding cache_keeps_index by simp
  then show ?thesis unfolding claim_handle_inserted [OF i] Let_def s1 s2(1) using s2(2) by simp
qed

lemma fresh_handle:
  assumes "length key \<le> 1000" "kind \<noteq> kind_handle"
  shows "\<exists>h st. identity_handle primary kind key (new_identities (identity_options default_limits)) = Some (Inr (h, st))
    \<and> ix_runs (id_index st) = []"
proof -
  let ?st = "new_identities (identity_options default_limits)" and ?h = "transient_handle primary key 0"
  have ok: "identities_ok 0 ?st" by (rule new_identities_ok) simp
  have n: "known ?st = (\<lambda>_. None)" by (simp add: fun_eq_iff new_identities_def index_contents_def identity_lookup_def new_identity_index_def)
  obtain st1 where st1: "lookup_identity kind key ?st = Inr (None, st1)" "identities_ok 0 st1" "known st1 = known ?st"
    using lookup_identity_ok [OF ok, of kind key] n by auto
  obtain st2 where st2: "lookup_identity kind_handle (identity_handle_key kind ?h) st1 = Inr (None, st2)"
    using lookup_identity_ok [OF st1(2), of kind_handle "identity_handle_key kind ?h"] st1(3) n by auto
  have "id_index st2 = new_identity_index (identity_options default_limits)"
    using lookup_keeps_index [OF st1(1)] lookup_keeps_index [OF st2] by (simp add: new_identities_def)
  from fresh_claim [OF assms this, of ?h] obtain st3 where
    st3: "claim_handle kind key ?h st2 = Inr (Some ?h, st3)" "ix_runs (id_index st3) = []" by blast
  then have "try_handle kind key ?h st1 = Inr (Some ?h, st3)" using st2 by (simp add: try_handle_def)
  then have "handle_loop primary kind key 0 st1 = Some (Inr (?h, st3))" by (simp add: handle_loop.simps [of primary kind key 0 st1])
  with st1(1) st3(2) show ?thesis by (auto simp: identity_handle_def)
qed

definition sample_call :: EdgeRecord where
  "sample_call = \<lparr>er_src_id = 3, er_dst_id = 5, er_kind = 1, er_count = 1, er_base_access = None, er_is_virtual = None\<rparr>"

lemma length_to_string: "length (to_string i) \<le> 20"
proof -
  have "nat \<bar>sint i\<bar> \<le> 2 ^ 63" using sint_ge [of i] sint_lt [of i] by simp
  then have "length (show_nat (nat \<bar>sint i\<bar>)) \<le> 19" by (intro length_show_nat_digits) simp_all
  then show ?thesis by (auto simp: to_string_def show_int_def)
qed

lemma sample_edge_run:
  "\<exists>h r. add_edge sample_call (new_recorder [] primary) = Some (Inr (h, r))
    \<and> rc_facts r = no_facts\<lparr>rf_relations := [routed empty_partition sample_call]\<rparr>
    \<and> rc_body_edge_positions_by_source r 3 = [0] \<and> rc_partitions_by_file_handle r = [] \<and> ix_runs (id_index (rc_identities r)) = []"
proof -
  let ?r = "new_recorder [] primary"
  let ?key = "''edge:'' @ edge_natural sample_call ?r"
  have "length ?key \<le> 1000"
    using length_to_string [of 3] length_to_string [of 5] length_to_string [of 1]
    by (simp add: edge_natural_def edge_key_def sample_call_def new_recorder_def empty_partition_def partition_string_def Let_def
      append_field_def show_nat.simps)
  moreover have "kind_relation \<noteq> kind_handle" by (simp add: kind_relation_def kind_handle_def)
  ultimately obtain h st where h: "identity_handle primary kind_relation ?key (new_identities (identity_options default_limits)) = Some (Inr (h, st))"
      "ix_runs (id_index st) = []"
    using fresh_handle by blast
  have r: "rc_identities ?r = new_identities (identity_options default_limits)" "rc_primary_hasher ?r = primary"
      "rc_edge_positions_by_key ?r = Map.empty" "rc_facts ?r = no_facts" "rc_current_partition ?r = empty_partition"
      "rc_body_edge_positions_by_source ?r = (\<lambda>_. [])" "rc_partitions_by_file_handle ?r = []"
    by (simp_all add: new_recorder_def)
  show ?thesis
    using h by (simp add: add_edge_def bindP_def thenP_def readP_def modP_def retP_def handle_for_def r push_edge_def Let_def note_op_def
      sample_call_def no_facts_def)
qed

text \<open>(C10) Whatever operations extraction calls on a recorder, the canonical batch it builds has the canonical layout that
  artifacts are checked for: every family is sorted and deduplicated within its partitions, records that
  name a partition are filed under it, the emission order is renumbered. Its handle maps and deferred
  references are strictly ordered, and every partition of the batch is named by a file handle.\<close>

theorem canonical_batch_is_canonical:
  assumes "recorded r" "facts_fit (rc_facts r)" "canonical_batch r = Inr b" "length (fb_file_keys b) < 2 ^ 64"
  shows "is_canonical b \<and> maps_ordered b \<and> fp_key ` set (fb_partitions b) \<subseteq> snd ` set (fb_file_keys b)"
proof -
  let ?ms = "file_all (filings (rc_facts r) True)"
  note ok = recorded_ok [OF assms(1), unfolded recorder_ok_def] and b = canonical_batch_fields [OF assms(3)]
  have "length (rc_symbol_order r) \<le> 2 ^ 64"
    using ok assms(2) by (simp add: positions_in_range_def facts_fit_def)
  then have "has_canonical_layout b"
    using filed_layout [OF assms(2) _ b(1,2) _ b(3)] canonical_symbol_order_canonical ok by blast
  moreover have k: "ascending handle_rank fst (fb_file_keys b)" "fst ` set ?ms \<subseteq> snd ` set (fb_file_keys b)"
    using registered_keys [of "rc_partitions_by_file_handle r", OF _ b(4)] ok assms(4) by auto
  moreover have "list_all families_ascend (fb_partitions b)"
    using file_all_members(1) [OF distinct_filings, of "rc_facts r" True]
    by (auto simp: b(3) memberships_ok_def list_all_iff families_ascend_def)
  moreover have "ascending reference_rank id (fb_pending_symbol_references b)"
    using ok ascending_references by (simp add: b(5) references_known_def)
  moreover have "fp_key ` set (fb_partitions b) = fst ` set ?ms" by (simp add: b(3) image_image)
  ultimately show ?thesis
    using b(1,6) unfolding maps_ordered_def is_canonical_def by (simp only:) (auto simp: ascending_identity_keys)
qed

theorem canonical_batch_is_canonical_witness:
  "\<exists>h r b. add_edge sample_call (new_recorder [] stable_fact_hash) = Some (Inr (h, r)) \<and> canonical_batch r = Inr b
    \<and> fr_relations (fb_records b) = [sample_call] \<and> is_canonical b \<and> maps_ordered b
    \<and> empty_partition \<in> snd ` set (fb_file_keys b)"
proof -
  obtain h r where r: "add_edge sample_call (new_recorder [] stable_fact_hash) = Some (Inr (h, r))"
      "rc_facts r = no_facts\<lparr>rf_relations := [routed empty_partition sample_call]\<rparr>"
      "rc_partitions_by_file_handle r = []" "ix_runs (id_index (rc_identities r)) = []"
    using sample_edge_run by blast
  then obtain b where b: "canonical_batch r = Inr b"
    by (simp add: canonical_batch_def build_batch_def identity_entries_def append_all_filed)
  note f = canonical_batch_fields [OF b]
  have rec: "recorded r" using recorded.edge [OF recorded.fresh r(1)] .
  have fit: "facts_fit (rc_facts r)" by (simp add: r(2) facts_fit_def no_facts_def routed_parameters_def)
  have one: "file_all (filings (rc_facts r) True) = [(empty_partition, [(fam_relations, [0])])]"
    by (simp add: r(2) filings_def no_facts_def file_all_def routed_in_order_def routed_parameters_def push_member_def)
  then have keys: "length (fb_file_keys b) < 2 ^ 64" by (simp add: f(4) r(3) register_missing_def)
  have "fr_relations (fb_records b) = [sample_call]" by (simp add: f(2) r(2) filed_records_def no_facts_def routed_in_order_def)
  moreover have "fp_key ` set (fb_partitions b) = {empty_partition}" by (simp add: f(3) one)
  ultimately show ?thesis using canonical_batch_is_canonical [OF rec fit b keys] r(1) b by auto
qed

text \<open>(C28) The indexes of the recorder stay within its vectors: after any operations, the positions kept for a symbol, a
  relation or the body of a function are positions of recorded facts, so no checked access throws and no
  unchecked one leaves the vector, and there is one entry of the emission order for every symbol.\<close>

theorem recorder_positions_in_range:
  assumes "recorded r"
  shows "positions_in_range r"
  using recorded_ok [OF assms] by (simp add: recorder_ok_def)

theorem recorder_positions_in_range_witness:
  "\<exists>h r. add_edge sample_call (new_recorder [] stable_fact_hash) = Some (Inr (h, r)) \<and> positions_in_range r
    \<and> rc_body_edge_positions_by_source r 3 = [0]"
proof -
  obtain h r where r: "add_edge sample_call (new_recorder [] stable_fact_hash) = Some (Inr (h, r))"
      "rc_body_edge_positions_by_source r 3 = [0]"
    using sample_edge_run by blast
  with recorder_positions_in_range [OF recorded.edge [OF recorded.fresh r(1)]] show ?thesis by blast
qed

end
