(* ===== verification/Spec2Isabelle.thy ===== *)
theory Spec2Isabelle
  imports Planner Header_Claims Parallel_Runner Cache_Identity Owned_Header_Plan Pass_Registry
    Include_Analysis Query_Grammar Query_Render Artifact_Props Recorder_Batch
begin

text \<open>
  A verification library for cidx, the C++ indexer of this repository. The program
  indexes translation units with Clang into a SQLite database, answers queries on it,
  and cleans up include directives. This library models the parts that decide what is
  written, kept or replayed; the sources are under \<^verbatim>\<open>src/src\<close>.

  \<^bold>\<open>Parts of the program and their theories.\<close>

  \<^item> Shared vocabulary. \<^verbatim>\<open>Prelude\<close>: exceptions as sums, ordered maps and sorted vectors,
    decimal rendering. \<^verbatim>\<open>Canonical_Order\<close>: sorting records by a tuple of all fields.
    \<^verbatim>\<open>Bfs\<close>: a locale for breadth-first search with levels and an optional bound.
  \<^item> Paths. \<^verbatim>\<open>Path_Util\<close> models \<^verbatim>\<open>util/pathutil.cpp\<close>: joining, normalising, relative
    paths, tilde, variable and label expansion. Working directory, environment and the
    password database are arguments.
  \<^item> JSON. \<^verbatim>\<open>Json_Min\<close> (\<^verbatim>\<open>util/json_min.cpp\<close>) is the codec of stored string arrays;
    \<^verbatim>\<open>Json_Value\<close> and \<^verbatim>\<open>Json_Read\<close> are the writer (\<^verbatim>\<open>cli/json_out.cpp\<close>) and the strict
    reader (\<^verbatim>\<open>util/json_read.cpp\<close>); \<^verbatim>\<open>Json_Roundtrip\<close> relates them through a locale of
    layouts that both renderings interpret.
  \<^item> Include clean-up, \<^verbatim>\<open>include_hygiene/\<close>. \<^verbatim>\<open>Cleanup_Plan\<close> (\<^verbatim>\<open>plan.cpp\<close>) is the reviewed
    plan and its file format, \<^verbatim>\<open>Include_Graph\<close> (\<^verbatim>\<open>graph.cpp\<close>) the include graph,
    \<^verbatim>\<open>Include_Analysis\<close> (\<^verbatim>\<open>analysis.cpp\<close>) the verdict on each directive,
    \<^verbatim>\<open>Removal_Validator\<close> (\<^verbatim>\<open>validator.cpp\<close>) the edits and the affected translation units,
    \<^verbatim>\<open>Planner\<close> (\<^verbatim>\<open>planner.cpp\<close>) the construction of a plan and \<^verbatim>\<open>Plan_Executor\<close>
    (\<^verbatim>\<open>executor.cpp\<close>) its application to the files on disk.
  \<^item> Parallel indexing, \<^verbatim>\<open>index/\<close>. \<^verbatim>\<open>Parallel_Policy\<close> (\<^verbatim>\<open>parallel_policy.cpp\<close>) derives the
    worker plan, \<^verbatim>\<open>Parallel_Runner\<close> (\<^verbatim>\<open>parallel_runner_impl.hpp\<close>) runs the pool and
    publishes in rank order, \<^verbatim>\<open>Header_Claims\<close> (\<^verbatim>\<open>header_claims.cpp\<close>) decides which
    translation unit owns a header.
  \<^item> Incremental reuse. \<^verbatim>\<open>Hashing\<close> (\<^verbatim>\<open>util/hashing.cpp\<close>) is SHA-256 on 32-bit words,
    \<^verbatim>\<open>Dependency_Planner\<close> (\<^verbatim>\<open>storage/tu_dependency_planner.cpp\<close>) selects the units a
    change reaches, \<^verbatim>\<open>Cache_Identity\<close> (\<^verbatim>\<open>workspace/tu_fact_cache_identity.cpp\<close>) is the
    key of a cached unit. \<^verbatim>\<open>Delimited\<close> is the contract of self-delimiting renderings it shares
    with the fact identities.
  \<^item> Extraction, \<^verbatim>\<open>ast/\<close>. \<^verbatim>\<open>Fact_Identity\<close> (\<^verbatim>\<open>fact_identity.cpp\<close>) is the portable identity of
    files, symbols, types and relations and the index of their handles, \<^verbatim>\<open>Owned_Header_Plan\<close>
    (\<^verbatim>\<open>owned_header_plan.cpp\<close>) assigns each header to one unit, \<^verbatim>\<open>Pass_Registry\<close>
    (\<^verbatim>\<open>pass_registry.cpp\<close>, \<^verbatim>\<open>indexing_plan.hpp\<close>) registers, orders and meters the passes.
  \<^item> Facts and their artifacts, \<^verbatim>\<open>ast/\<close>. \<^verbatim>\<open>Fact_Records\<close> (\<^verbatim>\<open>symbol_record.hpp\<close> and the other record
    headers, \<^verbatim>\<open>kind_map.cpp\<close>) holds the records, \<^verbatim>\<open>Fact_Batch\<close> (\<^verbatim>\<open>fact_batch.cpp\<close>) their sort keys and the
    canonical layout of a batch. \<^verbatim>\<open>Wire_Format\<close>, \<^verbatim>\<open>Fact_Codec\<close>, \<^verbatim>\<open>Fact_Body\<close> and \<^verbatim>\<open>Fact_Artifact\<close>
    (\<^verbatim>\<open>fact_batch_artifact.cpp\<close>) are the binary format, from integers to the artifact with header and
    digest; \<^verbatim>\<open>Artifact_Props\<close> says what it guarantees.
  \<^item> The recorder of facts, \<^verbatim>\<open>FactBatchRecorder\<close> of \<^verbatim>\<open>ast/fact_batch.cpp\<close>. \<^verbatim>\<open>Batch_Runs\<close>,
    \<^verbatim>\<open>Emission_Order\<close> and \<^verbatim>\<open>Batch_Builder\<close> build a canonical batch; \<^verbatim>\<open>Identity_Index\<close>
    (\<^verbatim>\<open>spillable_identity_index.cpp\<close>) and \<^verbatim>\<open>Spill_Buffer\<close> (\<^verbatim>\<open>spillable_fact_buffer.cpp\<close>) are its stores;
    \<^verbatim>\<open>Identity_Cache\<close> gives handles to identities; \<^verbatim>\<open>Fact_Recorder\<close> has every operation and
    \<^verbatim>\<open>Recorder_Batch\<close> the states they reach and the batches made from them.
  \<^item> Queries, \<^verbatim>\<open>query/\<close>. \<^verbatim>\<open>Query_Plan\<close> (\<^verbatim>\<open>plan.hpp\<close>, \<^verbatim>\<open>plan.cpp\<close>) holds the plan and its
    builders, \<^verbatim>\<open>Query_Validate\<close> the validation, \<^verbatim>\<open>Query_Normal\<close> what it promises,
    \<^verbatim>\<open>Query_Json\<close> the canonical JSON. \<^verbatim>\<open>Query_Text\<close> is the parser of the textual form
    (\<^verbatim>\<open>cxq.cpp\<close>), \<^verbatim>\<open>Query_Grammar\<close> the form of the plans it returns, \<^verbatim>\<open>Query_Render\<close>
    a printer of queries and the proof that the parser reads it back. The generated
    catalog tables are an argument.

  \<^bold>\<open>How they interact.\<close> The analysis reads the index and the
  graph; the planner reads its report and the validator and hands a plan to
  the executor, through its file format; the executor re-checks it against the files on
  disk, asks the validator which units are affected and replaces files one by one. The
  policy's plan bounds the runner; its workers call the claim oracle, and the runner
  releases the rank of every result it abandons. The recorder asks the identity
  cache for handles, which falls back on the spillable index, keeps symbols in the spillable buffer and
  freezes into a batch; the artifact codec writes that batch for the cache and reads it back, whole or
  restricted to families. The dependency planner and the cache
  identity name files by the same canonical path, which is built on the path operations.

  \<^bold>\<open>How code became definitions.\<close> A \<^verbatim>\<open>struct\<close> is a record with a field prefix of its own, an
  \<^verbatim>\<open>enum\<close> a datatype, \<^verbatim>\<open>std::map\<close> and \<^verbatim>\<open>std::set\<close> are key-ordered lists or sets, a thrown
  exception is an \<open>Inl\<close>. Definitions keep the names of the functions. Loops are recursive
  functions with a termination proof. Some loops are different. The reader of JSON
  recurses on fuel, the length of the text, which is shown to be enough
  (\<^verbatim>\<open>Json_Read\<close>). The update loop of the hash would spin on a full buffer, so it is a partial
  function into \<open>option\<close>, and it is shown to return (\<^verbatim>\<open>Hashing\<close>). The search for a free
  handle is one as well; it is shown to return exactly when a handle is free
  (\<^verbatim>\<open>Fact_Identity\<close>); the recorder's search is another, which returns as soon as one attempt gives an
  unused handle (\<open>Identity_Cache.handle_loop_ends\<close>). The recorder's choice of a free file handle recurses on
  fuel, the number of keys, which is enough (\<open>Recorder_Batch.free_handle_free\<close>). Threads are step relations
  whose guards are the wait predicates: \<^verbatim>\<open>Parallel_Runner.runner_step\<close> has one step per
  critical section, \<^verbatim>\<open>Header_Claims.run_step\<close> one per answered request. Waking up is the
  enabledness of a step, so the theorems assume that no notification is lost. Machine words are
  words where the code relies on their width (\<^verbatim>\<open>Hashing\<close>, \<^verbatim>\<open>Cleanup_Plan.cast_int32\<close>, the
  wire format, the limits of the spillable stores). Counters and byte sums that are only compared or
  added up (the runner's budgets, include counts, depths of a query, nesting levels of the parser) are
  unbounded. An unstable \<^verbatim>\<open>std::ranges::sort\<close> is a stable one: the order of equal keys, and with it the record
  kept of a run of equal ones, is the first in the model. Spill files are values held by
  the stores: writing and reading them does not fail and their paths are not modelled.

  \<^bold>\<open>What the lemmas show.\<close>

  \<^item> Round trips: a plan written and read back is the same plan, an artifact of facts decodes to
    the batch it was made from and is the only encoding of it, both JSON renderings are read
    back, string arrays survive, relative paths resolve to what they were made from.
  \<^item> Safety of the clean-up: only reviewed items of unchanged files inside the repository are
    edited, what is written was compiled in every affected unit before, each planned removal was
    compiled with exactly the removals accepted before it, a replacement is
    complete or absent, removals delete exactly their bytes. A directive is reported removable
    only when every configuration agrees, duplicates keep a first copy, no directive is lost.
  \<^item> Graph search: shortest paths are shortest, transitive neighbours are the closure.
  \<^item> Concurrency: publication follows the ranks for every interleaving, each dispatched rank
    is published or abandoned exactly once, every schedule is finite and never stuck, buffers
    stay within the budgets; claims equal those of the serial run.
  \<^item> Reuse: the affected units are exactly those that reach a change, or all of them when
    the evidence is unusable; cache keys are equal exactly for equal inputs up to order;
    the streaming hash equals the hash of the padded message for every way of cutting it.
  \<^item> Extraction: stable identity strings are equal exactly for equal identities, handles survive
    collisions of the primary hash, each header has one owner whatever the order of discovery,
    a run executes the planned passes once each after their dependencies and within budgets.
  \<^item> Facts: the spillable stores behave as a map and as a list whatever they spill, equal handles mean
    equal identities, the positions that the recorder keeps stay in range, every batch it makes has the
    canonical layout, and reading one family gives the restriction of the whole batch.
  \<^item> Queries: normalising a predicate keeps its meaning, validation is stable, bounds every
    traversal and fixes the order of stream shapes, and the canonical text is always defined
    and identifies the normalised plan. Printed queries are read back as the plans they stand
    for and parsed plans satisfy the condition under which their canonical text identifies them;
    the parser misreads two groups joined by a disjunction and operators inside quotes.
  \<^item> Errors: the reader never runs out of fuel and every refusal of a plan is a value; a
    failed later write leaves a partially applied plan, which the result reports as a
    refusal although earlier files changed. The plan reader refuses an unknown 32-bit format version
    and the first inverted range; a version outside 32 bits is narrowed first, so that 4294967297
    passes as 1. The byte limit of the identity index wraps around when one run is larger than it.

  \<^bold>\<open>Interfaces.\<close> \<^verbatim>\<open>Bfs.bfs\<close>, \<^verbatim>\<open>Include_Graph.edge_ends\<close>, \<^verbatim>\<open>Json_Roundtrip.json_layout\<close>,
  \<^verbatim>\<open>Header_Claims.ordered_gate\<close>, \<^verbatim>\<open>Delimited.delimited\<close> and its extension
  \<^verbatim>\<open>Cache_Identity.self_delimiting\<close>, \<^verbatim>\<open>Wire_Format.wire_codec\<close>, \<^verbatim>\<open>Fact_Body.checked_codec\<close> and
  \<^verbatim>\<open>Fact_Body.entry_codec\<close>, \<^verbatim>\<open>Identity_Index.identity_store\<close> and \<^verbatim>\<open>Spill_Buffer.spill_codec\<close> are locales; each is interpreted on the definitions of the
  model. The merge of verdicts interprets the library's \<^verbatim>\<open>semilattice\<close>, the connectives
  of predicates its \<^verbatim>\<open>comm_monoid\<close>.

  \<^bold>\<open>Not modelled.\<close> Storage, graph queries, query execution and the views are SQL run by SQLite.
  Extraction walks the Clang AST. Both are libraries outside the repository. MD5 and SHA-1
  are vendored C code. Durations, log output, failed thread creation and an exception
  thrown by a publication callback are left out of the runner. The command line, the web
  server and the process wrappers are input and output. The cycles of the include graph (a report
  nothing else reads), the extension plan format around the Clang matchers, the comparison of
  behaviours and the printing of query results are left out as well.
\<close>

end
